(* ===== verification/Prelude.thy ===== *)
theory Prelude
  imports Main "HOL-Library.Word"
begin

text \<open>
  Shared vocabulary of the development: the machine integer types of \<^verbatim>\<open>types.h\<close>, the outcome
  of a kernel routine (a value, or the way it stops), bounds-checked array accesses, and the
  word facts that the component theories need again and again.

  \<^item> A routine that contains \<^verbatim>\<open>check(x)\<close> stops in \<^verbatim>\<open>kernel_panic\<close> when \<open>x\<close> is false: interrupts
    are disabled and the processor halts, so nothing after the check runs. That is \<open>Panic\<close>.
  \<^item> An access outside an array, or through a null or dangling pointer, has no defined
    behaviour in C: \<open>OutOfBounds\<close> and \<open>NullDeref\<close>. \<open>Undefined\<close> is any other operation without
    defined behaviour, such as \<^verbatim>\<open>__builtin_clz(0)\<close>.
  \<^item> \<open>Spin\<close> is a busy loop that no step of the running processor can end (a spinlock taken
    twice).
\<close>

unbundle bit_operations_syntax

named_theorems outcome "rewriting and inversion of outcomes"
named_theorems wordnat "reading words as natural numbers"

type_synonym u8 = "8 word"
type_synonym u16 = "16 word"
type_synonym u32 = "32 word"
type_synonym u64 = "64 word"

subsection \<open>Outcomes\<close>

datatype fault = Panic string | OutOfBounds | NullDeref | Spin | Undefined

type_synonym 'a outcome = "fault + 'a"

definition rbind :: "'a outcome \<Rightarrow> ('a \<Rightarrow> 'b outcome) \<Rightarrow> 'b outcome" where
  "rbind m f = (case m of Inl e \<Rightarrow> Inl e | Inr x \<Rightarrow> f x)"

definition check :: "bool \<Rightarrow> string \<Rightarrow> 'a outcome \<Rightarrow> 'a outcome" where
  "check b msg k = (if b then k else Inl (Panic msg))"

lemma rbind_simps [simp, outcome]:
  "rbind (Inr x) f = f x"
  "rbind (Inl e) f = Inl e"
  by (simp_all add: rbind_def)

lemma check_simps [simp, outcome]:
  "check True msg k = k"
  "check False msg k = Inl (Panic msg)"
  by (simp_all add: check_def)

lemma rbind_Inr_iff [outcome]: "rbind m f = Inr y \<longleftrightarrow> (\<exists>x. m = Inr x \<and> f x = Inr y)"
  by (cases m) auto

lemma rbind_Inl_iff [outcome]:
  "rbind m f = Inl e \<longleftrightarrow> m = Inl e \<or> (\<exists>x. m = Inr x \<and> f x = Inl e)"
  by (cases m) auto

lemma check_Inr_iff [outcome]: "check b msg k = Inr y \<longleftrightarrow> b \<and> k = Inr y"
  by (cases b) auto

lemma check_Inl_iff [outcome]:
  "check b msg k = Inl e \<longleftrightarrow> (\<not> b \<and> e = Panic msg) \<or> (b \<and> k = Inl e)"
  by (cases b) auto

lemma rbind_cong [fundef_cong]:
  "m = m' \<Longrightarrow> (\<And>x. m' = Inr x \<Longrightarrow> f x = g x) \<Longrightarrow> rbind m f = rbind m' g"
  by (cases m') auto

text \<open>A signed result outside \<^verbatim>\<open>int\<close> has no defined behaviour.\<close>

definition c_int :: "int \<Rightarrow> int outcome" where
  "c_int v = (if - (2 ^ 31) \<le> v \<and> v < 2 ^ 31 then Inr v else Inl Undefined)"

subsection \<open>Arrays\<close>

definition arr_get :: "'a list \<Rightarrow> nat \<Rightarrow> 'a outcome" where
  "arr_get xs i = (if i < length xs then Inr (xs ! i) else Inl OutOfBounds)"

definition arr_set :: "'a list \<Rightarrow> nat \<Rightarrow> 'a \<Rightarrow> 'a list outcome" where
  "arr_set xs i v = (if i < length xs then Inr (xs[i := v]) else Inl OutOfBounds)"

lemma arr_get_in [simp, outcome]: "i < length xs \<Longrightarrow> arr_get xs i = Inr (xs ! i)"
  by (simp add: arr_get_def)

lemma arr_set_in [simp, outcome]: "i < length xs \<Longrightarrow> arr_set xs i v = Inr (xs[i := v])"
  by (simp add: arr_set_def)

lemma arr_get_Inr_iff [outcome]: "arr_get xs i = Inr v \<longleftrightarrow> i < length xs \<and> v = xs ! i"
  by (auto simp: arr_get_def)

lemma arr_set_Inr_iff [outcome]: "arr_set xs i v = Inr ys \<longleftrightarrow> i < length xs \<and> ys = xs[i := v]"
  by (auto simp: arr_set_def)

lemma arr_get_out: "length xs \<le> i \<Longrightarrow> arr_get xs i = Inl OutOfBounds"
  by (simp add: arr_get_def)

lemma arr_set_out: "length xs \<le> i \<Longrightarrow> arr_set xs i v = Inl OutOfBounds"
  by (simp add: arr_set_def)

subsection \<open>Words\<close>

lemma unat_plus1 [wordnat]:
  fixes i n :: "'a::len word"
  assumes "i < n"
  shows "unat (i + 1) = Suc (unat i)"
proof -
  have "unat i + 1 < 2 ^ LENGTH('a)"
  proof -
    have "unat i + 1 \<le> unat n" using assms by (simp add: word_less_nat_alt)
    also have "unat n < 2 ^ LENGTH('a)" by (rule unsigned_less)
    finally show ?thesis .
  qed
  then show ?thesis by (simp add: unat_word_ariths)
qed

lemma unat_minus1 [wordnat]:
  fixes i :: "'a::len word"
  assumes "i \<noteq> 0"
  shows "unat (i - 1) = unat i - 1"
  using assms by (simp add: unat_minus_one)

lemma unat_plus_lt [wordnat]:
  fixes x y :: "'a::len word"
  assumes "unat x + unat y < 2 ^ LENGTH('a)"
  shows "unat (x + y) = unat x + unat y"
  using assms by (simp add: unat_word_ariths)

lemma unat_minus_le [wordnat]:
  fixes x y :: "'a::len word"
  assumes "y \<le> x"
  shows "unat (x - y) = unat x - unat y"
  using assms by (simp add: unat_sub)

lemma word_gt_0_iff_neq: "0 < x \<longleftrightarrow> x \<noteq> (0 :: 'a::len word)"
  by (simp add: word_neq_0_conv)

lemma unat_less_iff [wordnat]: "x < y \<longleftrightarrow> unat x < unat (y :: 'a::len word)"
  by (simp add: word_less_nat_alt)

lemma unat_le_iff [wordnat]: "x \<le> y \<longleftrightarrow> unat x \<le> unat (y :: 'a::len word)"
  by (simp add: word_le_nat_alt)

lemma unat_of_nat_lt: "n < 2 ^ LENGTH('a) \<Longrightarrow> unat (of_nat n :: 'a::len word) = n"
  by (simp add: unat_of_nat take_bit_nat_eq_self)

lemma unat_eq_iff [simp]: "unat x = unat y \<longleftrightarrow> x = (y :: 'a::len word)"
  by (simp add: word_eq_iff_unsigned [where 'a = nat])

lemma unat_of_nat_below:
  fixes x :: "'a::len word"
  assumes "n < unat x"
  shows "unat (of_nat n :: 'a word) = n"
proof -
  have "unat x < 2 ^ LENGTH('a)" by (rule unsigned_less)
  with assms show ?thesis by (intro unat_of_nat_lt) linarith
qed

lemma unat_ucast_up [simp]:
  fixes x :: "'a::len word"
  assumes "LENGTH('a) \<le> LENGTH('b)"
  shows "unat (ucast x :: 'b::len word) = unat x"
proof -
  have "unat x < 2 ^ LENGTH('a)" by (rule unsigned_less)
  also have "\<dots> \<le> (2::nat) ^ LENGTH('b)" using assms by simp
  finally show ?thesis by (simp add: unsigned_ucast_eq take_bit_nat_eq_self)
qed

lemma unat_ucast_down:
  fixes x :: "'a::len word"
  assumes "unat x < 2 ^ LENGTH('b)"
  shows "unat (ucast x :: 'b::len word) = unat x"
  using assms by (simp add: unsigned_ucast_eq take_bit_nat_eq_self)

lemma ucast_ucast_up [simp]:
  fixes x :: "'a::len word"
  assumes "LENGTH('a) \<le> LENGTH('b)"
  shows "ucast (ucast x :: 'b::len word) = x"
  using assms by (intro bit_word_eqI) (auto simp: bit_simps)

lemma unat_push_bit_lt:
  fixes x :: "'a::len word"
  assumes "unat x * 2 ^ n < 2 ^ LENGTH('a)"
  shows "unat (push_bit n x) = unat x * 2 ^ n"
proof -
  have "unat (push_bit n x) = take_bit LENGTH('a) (push_bit n (unat x))" by (rule unsigned_push_bit_eq)
  also have "\<dots> = push_bit n (unat x)" using assms by (simp add: push_bit_eq_mult take_bit_nat_eq_self)
  finally show ?thesis by (simp add: push_bit_eq_mult)
qed

lemma unat_drop_bit: "unat (drop_bit n (x :: 'a::len word)) = unat x div 2 ^ n"
proof -
  have "unat (drop_bit n x) = drop_bit n (unat x)" by (simp only: unsigned_drop_bit_eq) (simp add: take_bit_nat_eq_self unsigned_less)
  then show ?thesis by (simp add: drop_bit_eq_div)
qed

lemma unat_and_mask: "unat (x AND mask n) = unat (x :: 'a::len word) mod 2 ^ n"
proof -
  have "unat (take_bit n x) = take_bit n (unat x)" by (simp only: unsigned_take_bit_eq)
  then show ?thesis by (simp add: take_bit_eq_mod take_bit_eq_mask [symmetric])
qed

subsection \<open>Counting loops\<close>

text \<open>
  \<open>for_up a b body s\<close> is \<^verbatim>\<open>for (i = a; i < b; ++i) body\<close> over a machine counter; after it the
  counter is \<open>max a b\<close>.
\<close>

function for_up :: "'w::len word \<Rightarrow> 'w word \<Rightarrow> ('w word \<Rightarrow> 's \<Rightarrow> 's outcome) \<Rightarrow> 's \<Rightarrow> 's outcome" where
  "for_up a b body s =
     (if a < b then rbind (body a s) (for_up (a + 1) b body) else Inr s)"
  by pat_completeness auto
termination
  by (relation "measure (\<lambda>(a, b, _, _). unat b - unat a)") (auto simp: unat_plus1 unat_less_iff)

declare for_up.simps [simp del]

lemma for_up_done [simp]: "b \<le> a \<Longrightarrow> for_up a b body s = Inr s"
  by (subst for_up.simps) (simp add: not_less [symmetric])

lemma for_up_step: "a < b \<Longrightarrow> for_up a b body s = rbind (body a s) (for_up (a + 1) b body)"
  by (subst for_up.simps) simp

lemma for_up_rule:
  assumes "P a s" and "a \<le> b"
    and step: "\<And>i t. a \<le> i \<Longrightarrow> i < b \<Longrightarrow> P i t \<Longrightarrow> \<exists>t'. body i t = Inr t' \<and> P (i + 1) t'"
  shows "\<exists>s'. for_up a b body s = Inr s' \<and> P b s'"
  using assms
proof (induction a b body s rule: for_up.induct)
  case (1 a b body s)
  show ?case
  proof (cases "a < b")
    case True
    with "1.prems"(1) "1.prems"(3) [of a s] obtain s' where s': "body a s = Inr s'" "P (a + 1) s'"
      by auto
    have le: "a + 1 \<le> b" and ge: "a \<le> a + 1"
      using True by (auto simp: unat_le_iff unat_less_iff unat_plus1 [OF True])
    have "\<exists>t'. body i t = Inr t' \<and> P (i + 1) t'" if "a + 1 \<le> i" "i < b" "P i t" for i t
      using "1.prems"(3) [of i t] that ge by (meson order_trans)
    with "1.IH" [OF True s'(1) s'(2) le] s' True show ?thesis by (simp add: for_up_step)
  next
    case False
    with "1.prems" show ?thesis by (simp add: not_less)
  qed
qed

text \<open>A loop that stores \<open>f i\<close> at every index from \<open>a\<close> below \<open>b\<close>.\<close>

lemma for_up_fill:
  fixes a b :: "'w::len word"
  assumes "a \<le> b" and "unat b \<le> length xs"
  shows "\<exists>ys. for_up a b (\<lambda>i xs. arr_set xs (unat i) (f i)) xs = Inr ys \<and> length ys = length xs \<and>
    (\<forall>j<length xs. ys ! j = (if unat a \<le> j \<and> j < unat b then f (of_nat j) else xs ! j))"
proof (rule for_up_rule [where P = "\<lambda>i ys. length ys = length xs \<and>
    (\<forall>j<length xs. ys ! j = (if unat a \<le> j \<and> j < unat i then f (of_nat j) else xs ! j))"], goal_cases)
  case (3 i t)
  then have "unat i < length t" "unat (i + 1) = Suc (unat i)" "unat a \<le> unat i"
    using assms(2) by (auto simp: unat_plus1 unat_less_iff unat_le_iff)
  with 3 show ?case by (auto simp: less_Suc_eq nth_list_update)
qed (use assms in auto)

subsection \<open>Lists\<close>

lemma butlast_distinct: "distinct xs \<Longrightarrow> y \<in> set (butlast xs) \<Longrightarrow> y \<in> set xs \<and> y \<noteq> last xs"
  by (cases xs rule: rev_cases) auto

subsection \<open>Sequences of operations\<close>

text \<open>An operation for each element of a list, in order, up to the first fault.\<close>

primrec fold_outcome :: "('t \<Rightarrow> 's \<Rightarrow> 's outcome) \<Rightarrow> 't list \<Rightarrow> 's \<Rightarrow> 's outcome" where
  "fold_outcome f [] s = Inr s"
| "fold_outcome f (t # ts) s = rbind (f t s) (fold_outcome f ts)"

lemma fold_outcome_Inr: "fold_outcome (\<lambda>t s. Inr (f t s)) ts s = Inr (fold f ts s)"
  by (induction ts arbitrary: s) simp_all

end
