(* ===== verification/FreeList.thy ===== *)
theory FreeList
  imports Prelude
begin

text \<open>
  Free lists threaded through an array: the page database links free pages through
  \<^verbatim>\<open>page_desc_t.next_free\<close>, a slab links free chunks through \<^verbatim>\<open>chunk_list\<close>. Both store the index
  of the next free cell in a word and end the list with index 0.

  \<open>chain nx h xs\<close> says that following \<open>nx\<close> from \<open>h\<close> visits exactly \<open>xs\<close> and then index 0;
  \<open>walk\<close> computes that list. The locale \<open>handle_allocator\<close> is the contract both allocators give
  their clients; its lemmas are proved once here and reach the two components through their
  interpretations.
\<close>

subsection \<open>Chains of indices\<close>

primrec chain :: "('a::len word \<Rightarrow> 'a word) \<Rightarrow> 'a word \<Rightarrow> 'a word list \<Rightarrow> bool" where
  "chain nx h [] \<longleftrightarrow> h = 0"
| "chain nx h (x # xs) \<longleftrightarrow> h = x \<and> x \<noteq> 0 \<and> chain nx (nx x) xs"

primrec walk :: "('a::len word \<Rightarrow> 'a word) \<Rightarrow> nat \<Rightarrow> 'a word \<Rightarrow> 'a word list" where
  "walk nx 0 h = []"
| "walk nx (Suc n) h = (if h = 0 then [] else h # walk nx n (nx h))"

lemma chain_0 [simp]: "chain nx 0 xs \<longleftrightarrow> xs = []"
  by (cases xs) auto

lemma chain_unique: "chain nx h xs \<Longrightarrow> chain nx h ys \<Longrightarrow> xs = ys"
proof (induction xs arbitrary: h ys)
  case Nil
  then show ?case by simp
next
  case (Cons x xs)
  then show ?case by (cases ys) auto
qed

lemma chain_append_iff:
  "chain nx h (xs @ y # ys) \<Longrightarrow> chain nx y (y # ys)"
  by (induction xs arbitrary: h) auto

lemma chain_hd_notin_tl:
  assumes "chain nx h (x # xs)"
  shows "x \<notin> set xs"
proof
  assume "x \<in> set xs"
  then obtain as bs where xs: "xs = as @ x # bs" by (auto simp: in_set_conv_decomp)
  have "chain nx x (x # bs)"
    using assms chain_append_iff [of nx h "x # as" x bs] by (simp add: xs)
  moreover have "chain nx x (x # as @ x # bs)" using assms by (simp add: xs)
  ultimately have "x # bs = x # as @ x # bs" by (rule chain_unique)
  then show False by (simp add: list_eq_iff_zip_eq)
qed

lemma chain_distinct: "chain nx h xs \<Longrightarrow> distinct xs"
proof (induction xs arbitrary: h)
  case Nil
  show ?case by simp
next
  case (Cons x xs)
  from Cons.prems have "x \<notin> set xs" by (rule chain_hd_notin_tl)
  moreover from Cons.prems have "chain nx (nx x) xs" by simp
  then have "distinct xs" by (rule Cons.IH)
  ultimately show ?case by simp
qed

lemma chain_nonzero: "chain nx h xs \<Longrightarrow> 0 \<notin> set xs"
  by (induction xs arbitrary: h) auto

lemma chain_cong: "(\<And>x. x \<in> set xs \<Longrightarrow> nx x = nx' x) \<Longrightarrow> chain nx h xs \<longleftrightarrow> chain nx' h xs"
  by (induction xs arbitrary: h) auto

lemma chain_upd [simp]: "a \<notin> set xs \<Longrightarrow> chain (nx(a := b)) h xs \<longleftrightarrow> chain nx h xs"
  by (rule chain_cong) auto

lemma walk_chain: "chain nx h xs \<Longrightarrow> length xs \<le> n \<Longrightarrow> walk nx n h = xs"
proof (induction xs arbitrary: h n)
  case Nil
  then show ?case by (cases n) auto
next
  case (Cons x xs)
  then show ?case by (cases n) auto
qed

lemma chain_length_le:
  fixes xs :: "'a::len word list"
  assumes "chain nx h xs" and "\<And>x. x \<in> set xs \<Longrightarrow> unat x < n"
  shows "length xs \<le> n"
proof -
  have "distinct (map unat xs)"
    using chain_distinct [OF assms(1)] by (simp add: distinct_map inj_on_def)
  then have "length (map unat xs) = card (set (map unat xs))"
    by (rule distinct_card [symmetric])
  also have "\<dots> \<le> card {..<n}" using assms(2) by (intro card_mono) auto
  finally show ?thesis by simp
qed

lemma chain_unlink:
  assumes "chain nx h (as @ p # i # bs)"
  shows "chain (nx(p := nx i)) h (as @ p # bs)"
proof -
  have "distinct (as @ p # i # bs)" using assms by (rule chain_distinct)
  with assms show ?thesis by (induction as arbitrary: h) auto
qed

lemma chain_pred_unique:
  assumes "chain nx h xs" and "p \<in> set xs" and "nx p = i" and "i \<noteq> 0"
  shows "\<exists>as bs. xs = as @ p # i # bs"
proof -
  obtain as cs where xs: "xs = as @ p # cs" using assms(2) by (auto simp: in_set_conv_decomp)
  then have "chain nx p (p # cs)" using assms(1) chain_append_iff by blast
  then have "chain nx i cs" using assms(3) by simp
  then obtain bs where "cs = i # bs" using assms(4) by (cases cs) auto
  then show ?thesis using xs by blast
qed

text \<open>Consecutive indices, as the initialisation loops link them.\<close>

lemma chain_upto:
  fixes nx :: "'a::len word \<Rightarrow> 'a word"
  assumes "0 < i" and "i < n" and "n < 2 ^ LENGTH('a)"
    and "\<And>j. i \<le> j \<Longrightarrow> j < n - 1 \<Longrightarrow> nx (of_nat j) = of_nat (Suc j)"
    and "nx (of_nat (n - 1)) = 0"
  shows "chain nx (of_nat i) (map of_nat [i..<n])"
  using assms
proof (induction "n - i" arbitrary: i)
  case 0
  then show ?case by simp
next
  case (Suc d)
  have nz: "(of_nat i :: 'a word) \<noteq> 0"
    using Suc.prems by (metis less_trans not_gr0 unat_0 unat_of_nat_lt)
  show ?case
  proof (cases "Suc i < n")
    case True
    have "chain nx (of_nat (Suc i)) (map of_nat [Suc i..<n])"
      using Suc True by (intro Suc.hyps(1)) auto
    moreover have "nx (of_nat i) = of_nat (Suc i)" using Suc.prems True by simp
    ultimately show ?thesis using nz True by (simp add: upt_conv_Cons)
  next
    case False
    with Suc.prems have "n = Suc i" by simp
    with Suc.prems nz show ?thesis by (simp add: upt_conv_Cons)
  qed
qed

subsection \<open>The contract of an allocator of handles\<close>

text \<open>
  \<open>avail s\<close> is the abstract state: the free handles, next one first. A failed allocation is the
  null handle. \<open>owner_step\<close> is a client that allocates at will and releases only what it holds.
\<close>

inductive owner_step ::
  "('s \<Rightarrow> ('h \<times> 's) outcome) \<Rightarrow> ('s \<Rightarrow> 'h \<Rightarrow> 's outcome) \<Rightarrow> 'h \<Rightarrow>
   's \<times> 'h set \<Rightarrow> 's \<times> 'h set \<Rightarrow> bool"
  for alloc release null where
  take: "alloc s = Inr (h, s') \<Longrightarrow> h \<noteq> null \<Longrightarrow>
     owner_step alloc release null (s, own) (s', insert h own)"
| fail: "alloc s = Inr (null, s') \<Longrightarrow> owner_step alloc release null (s, own) (s', own)"
| give: "h \<in> own \<Longrightarrow> release s h = Inr s' \<Longrightarrow>
     owner_step alloc release null (s, own) (s', own - {h})"

primrec alloc_n :: "('s \<Rightarrow> ('h \<times> 's) outcome) \<Rightarrow> nat \<Rightarrow> 's \<Rightarrow> ('h list \<times> 's) outcome" where
  "alloc_n alloc 0 s = Inr ([], s)"
| "alloc_n alloc (Suc n) s =
     rbind (alloc s) (\<lambda>(h, s'). rbind (alloc_n alloc n s') (\<lambda>(hs, s''). Inr (h # hs, s'')))"

locale handle_allocator =
  fixes alloc :: "'s \<Rightarrow> ('h \<times> 's) outcome"
    and release :: "'s \<Rightarrow> 'h \<Rightarrow> 's outcome"
    and null :: 'h
    and avail :: "'s \<Rightarrow> 'h list"
    and handles :: "'s \<Rightarrow> 'h set"
    and invar :: "'s \<Rightarrow> bool"
  assumes avail_distinct: "invar s \<Longrightarrow> distinct (avail s)"
    and avail_handles: "invar s \<Longrightarrow> set (avail s) \<subseteq> handles s"
    and null_handle: "invar s \<Longrightarrow> null \<notin> handles s"
    and alloc_empty: "invar s \<Longrightarrow> avail s = [] \<Longrightarrow> alloc s = Inr (null, s)"
    and alloc_take: "invar s \<Longrightarrow> avail s = h # hs \<Longrightarrow>
      \<exists>s'. alloc s = Inr (h, s') \<and> invar s' \<and> avail s' = hs \<and> handles s' = handles s"
    and release_put: "invar s \<Longrightarrow> h \<in> handles s \<Longrightarrow> h \<notin> set (avail s) \<Longrightarrow>
      \<exists>s'. release s h = Inr s' \<and> invar s' \<and> avail s' = h # avail s \<and> handles s' = handles s"
begin

lemma alloc_cases:
  assumes "invar s"
  obtains (empty) "avail s = []" "alloc s = Inr (null, s)"
  | (taken) h hs s' where "avail s = h # hs" "alloc s = Inr (h, s')" "h \<noteq> null"
      "invar s'" "avail s' = hs" "handles s' = handles s"
proof (cases "avail s")
  case Nil
  with assms show ?thesis by (auto intro: empty alloc_empty)
next
  case (Cons h hs)
  with alloc_take [OF assms Cons] obtain s' where
    "alloc s = Inr (h, s')" "invar s'" "avail s' = hs" "handles s' = handles s" by blast
  moreover have "h \<noteq> null" using avail_handles [OF assms] null_handle [OF assms] Cons by auto
  ultimately show ?thesis using Cons by (intro taken)
qed

lemma alloc_total: "invar s \<Longrightarrow> \<exists>h s'. alloc s = Inr (h, s') \<and> (h = null \<longleftrightarrow> avail s = [])"
  by (erule alloc_cases) auto

lemma release_undoes_alloc:
  assumes "invar s" and "avail s \<noteq> []"
  shows "\<exists>h s' s''. alloc s = Inr (h, s') \<and> release s' h = Inr s'' \<and> avail s'' = avail s"
  using assms(1)
proof (cases rule: alloc_cases)
  case empty
  with assms(2) show ?thesis by simp
next
  case (taken h hs s')
  have "h \<notin> set (avail s')" using avail_distinct [OF assms(1)] taken by simp
  moreover have "h \<in> handles s'" using avail_handles [OF assms(1)] taken by auto
  ultimately show ?thesis using release_put [of s' h] taken by auto
qed

lemma alloc_n_take:
  "invar s \<Longrightarrow> n \<le> length (avail s) \<Longrightarrow>
   \<exists>s'. alloc_n alloc n s = Inr (take n (avail s), s') \<and> invar s' \<and> avail s' = drop n (avail s)"
proof (induction n arbitrary: s)
  case 0
  then show ?case by simp
next
  case (Suc n)
  from \<open>invar s\<close> show ?case
  proof (cases rule: alloc_cases)
    case empty
    with Suc.prems show ?thesis by simp
  next
    case (taken h hs s')
    then show ?thesis using Suc.IH [of s'] Suc.prems by auto
  qed
qed

text \<open>No handle is ever both free and held, and none is lost.\<close>

definition owned_ok :: "'s \<times> 'h set \<Rightarrow> bool" where
  "owned_ok = (\<lambda>(s, own). invar s \<and> own \<inter> set (avail s) = {} \<and> own \<union> set (avail s) = handles s)"

lemma owner_step_ok:
  assumes "owner_step alloc release null c c'" and "owned_ok c"
  shows "owned_ok c'"
  using assms
proof (cases rule: owner_step.cases)
  case (take s h s' own)
  then have "invar s" using assms(2) by (simp add: owned_ok_def)
  then show ?thesis
  proof (cases rule: alloc_cases)
    case (taken h' hs s2)
    with take assms(2) avail_distinct [OF \<open>invar s\<close>] show ?thesis
      by (auto simp: owned_ok_def)
  qed (use take in simp)
next
  case (fail s s' own)
  then have "invar s" using assms(2) by (simp add: owned_ok_def)
  then show ?thesis
  proof (cases rule: alloc_cases)
    case empty
    with fail assms(2) show ?thesis by (simp add: owned_ok_def)
  qed (use fail in simp)
next
  case (give h own s s')
  then have "invar s" "h \<in> handles s" "h \<notin> set (avail s)"
    using assms(2) by (auto simp: owned_ok_def)
  then obtain s2 where "release s h = Inr s2" "invar s2" "avail s2 = h # avail s"
    "handles s2 = handles s" using release_put by blast
  with give assms(2) show ?thesis by (auto simp: owned_ok_def)
qed

lemma owner_reachable_ok:
  assumes "(owner_step alloc release null)\<^sup>*\<^sup>* c c'" and "owned_ok c"
  shows "owned_ok c'"
  using assms by (induction rule: rtranclp_induct) (auto intro: owner_step_ok)

lemma owner_reachable_disjoint:
  assumes "(owner_step alloc release null)\<^sup>*\<^sup>* (s, {}) (s', own)"
    and "invar s" and "set (avail s) = handles s"
  shows "own \<inter> set (avail s') = {} \<and> own \<union> set (avail s') = handles s'
    \<and> (\<forall>h\<in>own. \<exists>s''. release s' h = Inr s'')"
proof -
  have "owned_ok (s', own)"
    using assms by (intro owner_reachable_ok [OF assms(1)]) (simp add: owned_ok_def)
  moreover from this have "\<exists>s''. release s' h = Inr s''" if "h \<in> own" for h
    using release_put [of s' h] that by (auto simp: owned_ok_def)
  ultimately show ?thesis by (auto simp: owned_ok_def)
qed

end

end
