(* ===== verification/PageDb.thy ===== *)
theory PageDb
  imports FreeList
begin

text \<open>
  The physical page database of \<^verbatim>\<open>vm_page.h\<close> and \<^verbatim>\<open>vm_page.c\<close>: one descriptor per page (2 MB
  pages, or the 4 KB pages inside one 2 MB page), a free list threaded through the descriptors,
  allocation, release, reservation, the conversions between indices and addresses, and the
  debugging walks over the database.

  A database is the record \<open>page_db_t\<close>; its flexible array \<^verbatim>\<open>pages[]\<close> is the list \<open>pdb_pages\<close>,
  as long as the memory behind the structure. Descriptors are addressed by 32-bit index.
\<close>

subsection \<open>Page geometry\<close>

definition PAGE_4K_SHIFT :: nat where "PAGE_4K_SHIFT = 12"
definition PAGE_2M_SHIFT :: nat where "PAGE_2M_SHIFT = 21"
definition PAGE_4K_SIZE :: u64 where "PAGE_4K_SIZE = push_bit PAGE_4K_SHIFT 1"
definition PAGE_2M_SIZE :: u64 where "PAGE_2M_SIZE = push_bit PAGE_2M_SHIFT 1"
definition PAGE_4K_MASK :: u64 where "PAGE_4K_MASK = NOT (PAGE_4K_SIZE - 1)"
definition PAGE_2M_MASK :: u64 where "PAGE_2M_MASK = NOT (PAGE_2M_SIZE - 1)"

definition PAGE_2M_NUM :: "u64 \<Rightarrow> u64" where
  "PAGE_2M_NUM x = drop_bit PAGE_2M_SHIFT (x + (PAGE_2M_SIZE - 1))"

definition PAGE_2M_ROUND :: "u64 \<Rightarrow> u64" where
  "PAGE_2M_ROUND x = (x + (PAGE_2M_SIZE - 1)) AND PAGE_2M_MASK"

definition PAGE_4K_ROUND :: "u64 \<Rightarrow> u64" where
  "PAGE_4K_ROUND x = (x + (PAGE_4K_SIZE - 1)) AND PAGE_4K_MASK"

definition PAGE_4K_INDEX :: "u64 \<Rightarrow> u64" where
  "PAGE_4K_INDEX x = drop_bit PAGE_4K_SHIFT x AND 0x1FF"

subsection \<open>Descriptors and databases\<close>

definition PGF_FREE :: u32 where "PGF_FREE = 0"
definition PGF_USED :: u32 where "PGF_USED = 1"
definition PGF_RESERVED :: u32 where "PGF_RESERVED = 2"

lemmas pgf_defs = PGF_FREE_def PGF_USED_def PGF_RESERVED_def

text \<open>
  \<^verbatim>\<open>prev_cache\<close> is a pointer to the pointer that points here: to the \<^verbatim>\<open>next_cache\<close> field of
  another descriptor or to the \<^verbatim>\<open>pages\<close> field of a cache.
\<close>

datatype page_pp = PPNull | PPDesc u64 | PPCache u64

record page_desc_t =
  pg_next_cache :: u64
  pg_prev_cache :: page_pp
  pg_next_hash :: u64
  pg_cache :: u64
  pg_cache_offset :: u64
  pg_next_free :: u32
  pg_flags :: u32
  pg_vaddr :: u64
  pg_reserved :: u64

record page_db_t =
  pdb_page_index :: u32
  pdb_num_pages :: u32
  pdb_num_free :: u32
  pdb_free_list :: u32
  pdb_lock :: u32
  pdb_num_reserved :: u16
  pdb_flags :: u16
  pdb_pages :: "page_desc_t list"

definition sizeof_page_desc_t :: u64 where "sizeof_page_desc_t = 64"
definition sizeof_page_db_t :: u64 where "sizeof_page_db_t = 24"

definition page_db_index :: "u64 \<Rightarrow> u64 \<Rightarrow> u32" where
  "page_db_index pdb_ptr page =
     ucast ((page - (pdb_ptr + sizeof_page_db_t)) div sizeof_page_desc_t)"

definition page_db_desc :: "u64 \<Rightarrow> u32 \<Rightarrow> u64" where
  "page_db_desc pdb_ptr page_index =
     pdb_ptr + sizeof_page_db_t + sizeof_page_desc_t * ucast page_index"

subsection \<open>Initialisation\<close>

definition page_desc_init :: "u32 \<Rightarrow> page_desc_t" where
  "page_desc_init fl =
     \<lparr>pg_next_cache = 0, pg_prev_cache = PPNull, pg_next_hash = 0, pg_cache = 0,
      pg_cache_offset = 0, pg_next_free = 0, pg_flags = fl, pg_vaddr = 0, pg_reserved = 0\<rparr>"

definition page_db_init_pages :: "page_db_t \<Rightarrow> u32 \<Rightarrow> u32 \<Rightarrow> page_db_t outcome" where
  "page_db_init_pages pdb num_pages num_reserved =
     rbind (for_up 0 num_reserved
              (\<lambda>i ps. arr_set ps (unat i) (page_desc_init PGF_RESERVED)) (pdb_pages pdb)) (\<lambda>ps.
     rbind (for_up num_reserved (num_pages - 1)
              (\<lambda>i ps. arr_set ps (unat i) ((page_desc_init PGF_FREE)\<lparr>pg_next_free := i + 1\<rparr>)) ps) (\<lambda>ps.
     let i = max num_reserved (num_pages - 1) in
     rbind (arr_set ps (unat i) (page_desc_init PGF_FREE)) (\<lambda>ps.
     Inr (pdb\<lparr>pdb_pages := ps, pdb_free_list := num_reserved\<rparr>))))"

definition page_db_calc_size :: "u64 \<Rightarrow> u32" where
  "page_db_calc_size memory_size =
     (let num_pages = ucast (drop_bit PAGE_2M_SHIFT memory_size) :: u32 in
      ucast (PAGE_4K_ROUND (sizeof_page_db_t + sizeof_page_desc_t * ucast num_pages)))"

definition page_db_init :: "page_db_t \<Rightarrow> u64 \<Rightarrow> u64 \<Rightarrow> page_db_t outcome" where
  "page_db_init pdb memory_size reserved_size =
     (let num_reserved = ucast (PAGE_2M_NUM reserved_size) :: u32;
          num_pages = ucast (drop_bit PAGE_2M_SHIFT memory_size) :: u32 in
      page_db_init_pages
        (pdb\<lparr>pdb_page_index := 0, pdb_num_pages := num_pages,
             pdb_num_free := num_pages - num_reserved, pdb_num_reserved := ucast num_reserved,
             pdb_flags := 0, pdb_lock := 0\<rparr>) num_pages num_reserved)"

definition page_db_init_4k :: "page_db_t \<Rightarrow> u32 \<Rightarrow> page_db_t outcome" where
  "page_db_init_4k pdb page_index =
     (let num_pages = ucast (drop_bit PAGE_4K_SHIFT PAGE_2M_SIZE) :: u32;
          db_size = ucast (PAGE_4K_ROUND (sizeof_page_db_t + sizeof_page_desc_t * ucast num_pages)) :: u32;
          num_reserved = drop_bit PAGE_4K_SHIFT db_size in
      page_db_init_pages
        (pdb\<lparr>pdb_page_index := page_index, pdb_num_pages := num_pages,
             pdb_num_free := num_pages - num_reserved, pdb_num_reserved := ucast num_reserved,
             pdb_flags := 0, pdb_lock := 0\<rparr>) num_pages num_reserved)"

subsection \<open>Allocation and release\<close>

definition page_db_alloc :: "page_db_t \<Rightarrow> (u32 \<times> page_db_t) outcome" where
  "page_db_alloc pdb =
     (let index = pdb_free_list pdb in
      if 0 < index then
        rbind (arr_get (pdb_pages pdb) (unat index)) (\<lambda>pg.
        check (pg_flags pg = PGF_FREE) ''pdb->pages[index].flags == PGF_FREE'' (
        rbind (arr_set (pdb_pages pdb) (unat index) (pg\<lparr>pg_flags := PGF_USED\<rparr>)) (\<lambda>ps.
        Inr (index, pdb\<lparr>pdb_free_list := pg_next_free pg, pdb_pages := ps,
                        pdb_num_free := pdb_num_free pdb - 1\<rparr>))))
      else Inr (index, pdb))"

definition page_db_free :: "page_db_t \<Rightarrow> u32 \<Rightarrow> page_db_t outcome" where
  "page_db_free pdb index =
     check (ucast (pdb_num_reserved pdb) \<le> index \<and> index < pdb_num_pages pdb)
       ''index >= pdb->num_reserved && index < pdb->num_pages'' (
     rbind (arr_get (pdb_pages pdb) (unat index)) (\<lambda>pg.
     check (pg_flags pg \<noteq> PGF_FREE) ''pdb->pages[index].flags != PGF_FREE'' (
     rbind (arr_set (pdb_pages pdb) (unat index)
              (pg\<lparr>pg_flags := PGF_FREE, pg_next_free := pdb_free_list pdb\<rparr>)) (\<lambda>ps.
     Inr (pdb\<lparr>pdb_pages := ps, pdb_free_list := index, pdb_num_free := pdb_num_free pdb + 1\<rparr>)))))"

subsection \<open>Indices and addresses\<close>

definition page_db_index2addr :: "page_db_t \<Rightarrow> u32 \<Rightarrow> u64" where
  "page_db_index2addr pdb index =
     (if pdb_page_index pdb \<noteq> 0 then
        let base = push_bit PAGE_2M_SHIFT (ucast (pdb_page_index pdb));
            offset = push_bit PAGE_4K_SHIFT (ucast index)
        in base + offset
      else push_bit PAGE_2M_SHIFT (ucast index))"

definition page_db_desc2addr :: "u64 \<Rightarrow> page_db_t \<Rightarrow> u64 \<Rightarrow> u64" where
  "page_db_desc2addr pdb_ptr pdb page = page_db_index2addr pdb (page_db_index pdb_ptr page)"

definition page_db_addr2index :: "page_db_t \<Rightarrow> u64 \<Rightarrow> u32 outcome" where
  "page_db_addr2index pdb addr =
     (if pdb_page_index pdb \<noteq> 0 then
        let base = push_bit PAGE_2M_SHIFT (ucast (pdb_page_index pdb));
            index = ucast (PAGE_4K_INDEX addr) :: u32
        in check (base < addr \<and> addr < base + PAGE_2M_SIZE)
             ''addr > base && addr < base + PAGE_2M_SIZE'' (
           check (ucast (pdb_num_reserved pdb) \<le> index \<and> index < pdb_num_pages pdb)
             ''index >= pdb->num_reserved && index < pdb->num_pages'' (
           Inr index))
      else Inr (ucast (drop_bit PAGE_2M_SHIFT addr)))"

definition page_db_4k_vaddr :: "u64 \<Rightarrow> page_db_t \<Rightarrow> u32 \<Rightarrow> u64 outcome" where
  "page_db_4k_vaddr pdb_ptr pdb index =
     check (ucast (pdb_num_reserved pdb) \<le> index \<and> index < pdb_num_pages pdb)
       ''index >= pdb->num_reserved && index < pdb->num_pages'' (
     Inr (pdb_ptr + push_bit PAGE_4K_SHIFT (ucast index)))"

definition page_db_alloc_addr :: "page_db_t \<Rightarrow> (u64 \<times> page_db_t) outcome" where
  "page_db_alloc_addr pdb =
     rbind (page_db_alloc pdb) (\<lambda>(index, pdb).
     Inr (if 0 < index then page_db_index2addr pdb index else 0, pdb))"

definition page_db_free_addr :: "page_db_t \<Rightarrow> u64 \<Rightarrow> page_db_t outcome" where
  "page_db_free_addr pdb addr =
     (let index = ucast (page_db_index2addr pdb (ucast addr)) :: u32 in
      if index \<noteq> 0 then page_db_free pdb index else Inr pdb)"

subsection \<open>Reservation\<close>

function reserve_scan :: "u32 \<Rightarrow> u32 \<Rightarrow> u32 \<Rightarrow> page_desc_t list \<Rightarrow> page_desc_t list outcome" where
  "reserve_scan i num_pages page_index ps =
     (if i < num_pages then
        rbind (arr_get ps (unat i)) (\<lambda>pg.
        if pg_next_free pg = page_index then
          rbind (arr_get ps (unat page_index)) (\<lambda>pp.
          rbind (arr_set ps (unat i) (pg\<lparr>pg_next_free := pg_next_free pp\<rparr>)) (\<lambda>ps.
          rbind (arr_get ps (unat page_index)) (\<lambda>pp.
          arr_set ps (unat page_index) (pp\<lparr>pg_flags := PGF_RESERVED\<rparr>))))
        else reserve_scan (i + 1) num_pages page_index ps)
      else Inr ps)"
  by pat_completeness auto
termination
  by (relation "measure (\<lambda>(i, n, _, _). unat n - unat i)") (auto simp: unat_plus1 unat_less_iff)

declare reserve_scan.simps [simp del]

definition page_db_reserve_page :: "page_db_t \<Rightarrow> u32 \<Rightarrow> page_db_t outcome" where
  "page_db_reserve_page pdb page_index =
     (if pdb_num_pages pdb \<le> page_index then Inr pdb
      else rbind (arr_get (pdb_pages pdb) (unat page_index)) (\<lambda>pg.
        if pg_flags pg = PGF_RESERVED then Inr pdb
        else check (pg_flags pg = PGF_FREE) ''pdb->pages[page_index].flags == PGF_FREE'' (
          if page_index = ucast (pdb_num_reserved pdb) then
            rbind (arr_set (pdb_pages pdb) (unat page_index)
                     (pg\<lparr>pg_flags := PGF_RESERVED, pg_next_free := 0\<rparr>)) (\<lambda>ps.
            let num_reserved = pdb_num_reserved pdb + 1 in
            Inr (pdb\<lparr>pdb_pages := ps, pdb_num_reserved := num_reserved,
                     pdb_free_list := ucast num_reserved\<rparr>))
          else
            rbind (reserve_scan (ucast (pdb_num_reserved pdb)) (pdb_num_pages pdb) page_index
                     (pdb_pages pdb)) (\<lambda>ps.
            Inr (pdb\<lparr>pdb_pages := ps\<rparr>)))))"

definition page_db_reserve_region :: "page_db_t \<Rightarrow> u64 \<Rightarrow> u64 \<Rightarrow> page_db_t outcome" where
  "page_db_reserve_region pdb addr sz =
     (let page_index = ucast (drop_bit PAGE_2M_SHIFT addr) :: u32 in
      check (ucast (pdb_num_reserved pdb) \<le> page_index) ''page_index >= pdb->num_reserved'' (
      let num_pages = ucast (PAGE_2M_NUM (sz + (addr AND (PAGE_2M_SIZE - 1)))) :: u32 in
      for_up 0 num_pages (\<lambda>i pdb. page_db_reserve_page pdb (page_index + i)) pdb))"

subsection \<open>Debugging walks\<close>

text \<open>
  The two dumps print ranges. \<open>page_range\<close> is one printed line: its tag, the bounds, and the
  two addresses, which the code shifts in 32-bit arithmetic.
\<close>

record page_range =
  pr_flags :: u32
  pr_start :: u32
  pr_end :: u32
  pr_start_addr :: u32
  pr_end_addr :: u32

function run_end :: "u32 \<Rightarrow> u32 \<Rightarrow> u32 \<Rightarrow> page_desc_t list \<Rightarrow> u32 outcome" where
  "run_end fl n num_pages ps =
     (if n < num_pages then
        rbind (arr_get ps (unat n)) (\<lambda>pg.
        if pg_flags pg = fl then run_end fl (n + 1) num_pages ps else Inr n)
      else Inr n)"
  by pat_completeness auto
termination
  by (relation "measure (\<lambda>(_, n, m, _). unat m - unat n)") (auto simp: unat_plus1 unat_less_iff)

declare run_end.simps [simp del]

partial_function (option) dump_ranges_loop ::
  "u32 \<Rightarrow> u32 \<Rightarrow> page_desc_t list \<Rightarrow> page_range list \<Rightarrow> page_range list outcome option" where
  "dump_ranges_loop n num_pages ps out =
     (if n < num_pages then
        (case arr_get ps (unat n) of
           Inl e \<Rightarrow> Some (Inl e)
         | Inr p \<Rightarrow>
             if pg_flags p = PGF_FREE \<or> pg_flags p = PGF_RESERVED \<or> pg_flags p = PGF_USED then
               (case run_end (pg_flags p) n num_pages ps of
                  Inl e \<Rightarrow> Some (Inl e)
                | Inr n' \<Rightarrow>
                    dump_ranges_loop n' num_pages ps
                      (out @ [\<lparr>pr_flags = pg_flags p, pr_start = n, pr_end = n',
                               pr_start_addr = push_bit PAGE_2M_SHIFT n,
                               pr_end_addr = push_bit PAGE_2M_SHIFT n'\<rparr>]))
             else dump_ranges_loop n num_pages ps out)
      else Some (Inr out))"

definition page_db_dump_ranges :: "page_db_t \<Rightarrow> page_range list outcome option" where
  "page_db_dump_ranges pdb = dump_ranges_loop 0 (pdb_num_pages pdb) (pdb_pages pdb) []"

subsection \<open>The invariant of a database\<close>

text \<open>
  The free list is a chain that ends, and it holds exactly the pages at or above
  \<^verbatim>\<open>num_reserved\<close> whose descriptor is marked free. Page 0 is always reserved: index 0 ends the
  list and is what \<^verbatim>\<open>page_db_alloc\<close> returns when nothing is free.
\<close>

definition pg_nx :: "page_desc_t list \<Rightarrow> u32 \<Rightarrow> u32" where
  "pg_nx ps i = pg_next_free (ps ! unat i)"

definition free_pages :: "page_db_t \<Rightarrow> u32 list" where
  "free_pages pdb = walk (pg_nx (pdb_pages pdb)) (length (pdb_pages pdb)) (pdb_free_list pdb)"

definition marked_free :: "page_db_t \<Rightarrow> nat list" where
  "marked_free pdb =
     filter (\<lambda>i. pg_flags (pdb_pages pdb ! i) = PGF_FREE)
       [unat (pdb_num_reserved pdb)..<unat (pdb_num_pages pdb)]"

definition pdb_invar :: "page_db_t \<Rightarrow> bool" where
  "pdb_invar pdb \<longleftrightarrow>
     chain (pg_nx (pdb_pages pdb)) (pdb_free_list pdb) (free_pages pdb) \<and>
     unat ` set (free_pages pdb) = set (marked_free pdb) \<and>
     unat (pdb_num_pages pdb) \<le> length (pdb_pages pdb) \<and>
     0 < unat (pdb_num_reserved pdb)"

definition page_handles :: "page_db_t \<Rightarrow> u32 set" where
  "page_handles pdb =
     {i. unat (pdb_num_reserved pdb) \<le> unat i \<and> unat i < unat (pdb_num_pages pdb) \<and>
         pg_flags (pdb_pages pdb ! unat i) \<noteq> PGF_RESERVED}"

definition num_free_ok :: "page_db_t \<Rightarrow> bool" where
  "num_free_ok pdb \<longleftrightarrow> unat (pdb_num_free pdb) = length (free_pages pdb)"

lemma free_pages_mem:
  assumes "pdb_invar pdb"
  shows "i \<in> set (free_pages pdb) \<longleftrightarrow>
     unat (pdb_num_reserved pdb) \<le> unat i \<and> unat i < unat (pdb_num_pages pdb) \<and>
     pg_flags (pdb_pages pdb ! unat i) = PGF_FREE"
proof -
  have "i \<in> set (free_pages pdb) \<longleftrightarrow> unat i \<in> unat ` set (free_pages pdb)"
    by auto
  then show ?thesis using assms by (auto simp: pdb_invar_def marked_free_def)
qed

lemma free_pages_eqI:
  assumes "chain (pg_nx (pdb_pages pdb)) (pdb_free_list pdb) xs"
    and "unat (pdb_num_pages pdb) \<le> length (pdb_pages pdb)"
    and "\<And>i. i \<in> set xs \<Longrightarrow> unat i < unat (pdb_num_pages pdb)"
  shows "free_pages pdb = xs"
  unfolding free_pages_def
  by (rule walk_chain [OF assms(1)])
    (use chain_length_le [OF assms(1), of "unat (pdb_num_pages pdb)"] assms(2,3) in auto)

lemma pdb_invarI:
  assumes ch: "chain (pg_nx (pdb_pages pdb)) (pdb_free_list pdb) xs"
    and len: "unat (pdb_num_pages pdb) \<le> length (pdb_pages pdb)"
    and res: "0 < unat (pdb_num_reserved pdb)"
    and mem: "\<And>i. i \<in> set xs \<longleftrightarrow>
       unat (pdb_num_reserved pdb) \<le> unat i \<and> unat i < unat (pdb_num_pages pdb) \<and>
       pg_flags (pdb_pages pdb ! unat i) = PGF_FREE"
  shows "pdb_invar pdb" and "free_pages pdb = xs"
proof -
  show fp: "free_pages pdb = xs" using ch len mem by (intro free_pages_eqI) auto
  have "n \<in> unat ` set xs" if "n \<in> set (marked_free pdb)" for n
  proof -
    have "n < unat (pdb_num_pages pdb)" using that by (simp add: marked_free_def)
    then have "unat (of_nat n :: u32) = n"
      by (rule unat_of_nat_below)
    then show ?thesis using that mem [of "of_nat n"]
      by (intro image_eqI [of _ _ "of_nat n"]) (auto simp: marked_free_def)
  qed
  moreover have "unat i \<in> set (marked_free pdb)" if "i \<in> set xs" for i
    using that mem by (simp add: marked_free_def)
  ultimately have "unat ` set xs = set (marked_free pdb)" by blast
  with ch len res fp show "pdb_invar pdb" by (simp add: pdb_invar_def)
qed

lemma pdb_invar_chain: "pdb_invar pdb \<Longrightarrow> chain (pg_nx (pdb_pages pdb)) (pdb_free_list pdb) (free_pages pdb)"
  and pdb_invar_len: "pdb_invar pdb \<Longrightarrow> unat (pdb_num_pages pdb) \<le> length (pdb_pages pdb)"
  and pdb_invar_res: "pdb_invar pdb \<Longrightarrow> 0 < unat (pdb_num_reserved pdb)"
  by (simp_all add: pdb_invar_def)

lemmas pdb_facts = pdb_invar_chain pdb_invar_len pdb_invar_res

subsection \<open>Allocation and release against the invariant\<close>

lemma alloc_result_cons:
  assumes inv: "pdb_invar pdb" and fp: "free_pages pdb = i # is"
  shows "\<exists>pdb'. page_db_alloc pdb = Inr (i, pdb') \<and> pdb_invar pdb' \<and> free_pages pdb' = is \<and>
    page_handles pdb' = page_handles pdb \<and> pdb_num_free pdb' = pdb_num_free pdb - 1 \<and>
    pg_flags (pdb_pages pdb' ! unat i) = PGF_USED"
proof -
  let ?ps = "pdb_pages pdb"
  let ?ps' = "?ps[unat i := (?ps ! unat i)\<lparr>pg_flags := PGF_USED\<rparr>]"
  let ?pdb' = "pdb\<lparr>pdb_free_list := pg_next_free (?ps ! unat i), pdb_pages := ?ps',
                   pdb_num_free := pdb_num_free pdb - 1\<rparr>"
  have hd: "pdb_free_list pdb = i" "i \<noteq> 0"
    and tl: "chain (pg_nx ?ps) (pg_next_free (?ps ! unat i)) is"
    using pdb_invar_chain [OF inv] fp by (auto simp: pg_nx_def)
  have i: "unat (pdb_num_reserved pdb) \<le> unat i" "unat i < unat (pdb_num_pages pdb)"
    "pg_flags (?ps ! unat i) = PGF_FREE"
    using free_pages_mem [OF inv, of i] fp by auto
  then have il: "unat i < length ?ps" using pdb_invar_len [OF inv] by linarith
  have eq: "page_db_alloc pdb = Inr (i, ?pdb')"
    using hd i il by (simp add: page_db_alloc_def word_gt_0_iff_neq)
  have nx: "pg_nx ?ps' = pg_nx ?ps"
    using il by (auto simp: pg_nx_def fun_eq_iff nth_list_update)
  have nin: "i \<notin> set is" using chain_distinct [OF pdb_invar_chain [OF inv]] fp by simp
  have mem: "j \<in> set is \<longleftrightarrow> unat (pdb_num_reserved pdb) \<le> unat j \<and>
      unat j < unat (pdb_num_pages pdb) \<and> pg_flags (?ps' ! unat j) = PGF_FREE" for j
    using free_pages_mem [OF inv, of j] fp nin il
    by (auto simp: nth_list_update pgf_defs)
  have "pdb_invar ?pdb'" "free_pages ?pdb' = is"
    using tl nx pdb_facts [OF inv] mem by (intro pdb_invarI [of ?pdb' "is"]; simp)+
  moreover have "page_handles ?pdb' = page_handles pdb"
    using i il by (auto simp: page_handles_def nth_list_update pgf_defs)
  ultimately show ?thesis using eq il by auto
qed

lemma alloc_result_nil:
  assumes "pdb_invar pdb" and "free_pages pdb = []"
  shows "page_db_alloc pdb = Inr (0, pdb)"
  using pdb_invar_chain [OF assms(1)] assms(2) by (simp add: page_db_alloc_def)

lemma free_result:
  assumes inv: "pdb_invar pdb" and h: "i \<in> page_handles pdb" and nf: "i \<notin> set (free_pages pdb)"
  shows "\<exists>pdb'. page_db_free pdb i = Inr pdb' \<and> pdb_invar pdb' \<and>
    free_pages pdb' = i # free_pages pdb \<and> page_handles pdb' = page_handles pdb \<and>
    pdb_num_free pdb' = pdb_num_free pdb + 1"
proof -
  let ?ps = "pdb_pages pdb"
  let ?ps' = "?ps[unat i := (?ps ! unat i)\<lparr>pg_flags := PGF_FREE, pg_next_free := pdb_free_list pdb\<rparr>]"
  let ?pdb' = "pdb\<lparr>pdb_pages := ?ps', pdb_free_list := i, pdb_num_free := pdb_num_free pdb + 1\<rparr>"
  have i: "unat (pdb_num_reserved pdb) \<le> unat i" "unat i < unat (pdb_num_pages pdb)"
    using h by (auto simp: page_handles_def)
  then have il: "unat i < length ?ps" using pdb_invar_len [OF inv] by linarith
  have fl: "pg_flags (?ps ! unat i) \<noteq> PGF_FREE" using nf i free_pages_mem [OF inv, of i] by auto
  have i0: "i \<noteq> 0" using i pdb_invar_res [OF inv] by auto
  have eq: "page_db_free pdb i = Inr ?pdb'"
    using i il fl by (simp add: page_db_free_def unat_le_iff unat_less_iff)
  have nx: "pg_nx ?ps' = (pg_nx ?ps)(i := pdb_free_list pdb)"
    using il by (auto simp: pg_nx_def fun_eq_iff nth_list_update)
  have mem: "j \<in> set (i # free_pages pdb) \<longleftrightarrow> unat (pdb_num_reserved pdb) \<le> unat j \<and>
      unat j < unat (pdb_num_pages pdb) \<and> pg_flags (?ps' ! unat j) = PGF_FREE" for j
    using free_pages_mem [OF inv, of j] i il by (auto simp: nth_list_update)
  have "pdb_invar ?pdb'" "free_pages ?pdb' = i # free_pages pdb"
    using nx i0 nf pdb_facts [OF inv] mem
    by (intro pdb_invarI [of ?pdb' "i # free_pages pdb"]; simp)+
  moreover have "page_handles ?pdb' = page_handles pdb"
    using h i il by (auto simp: page_handles_def nth_list_update pgf_defs)
  ultimately show ?thesis using eq by auto
qed

text \<open>The database implements the allocator contract, with page index 0 as the null handle.\<close>

interpretation pagedb: handle_allocator page_db_alloc page_db_free 0 free_pages page_handles pdb_invar
proof unfold_locales
  fix s :: page_db_t
  assume inv: "pdb_invar s"
  show "distinct (free_pages s)" by (rule chain_distinct [OF pdb_invar_chain [OF inv]])
  show "set (free_pages s) \<subseteq> page_handles s"
    by (auto simp: free_pages_mem [OF inv] page_handles_def pgf_defs)
  show "0 \<notin> page_handles s" using pdb_invar_res [OF inv] by (simp add: page_handles_def)
next
  fix s :: page_db_t
  assume "pdb_invar s" "free_pages s = []"
  then show "page_db_alloc s = Inr (0, s)" by (rule alloc_result_nil)
next
  fix s h hs
  assume "pdb_invar s" "free_pages s = h # hs"
  then show "\<exists>s'. page_db_alloc s = Inr (h, s') \<and> pdb_invar s' \<and> free_pages s' = hs \<and>
      page_handles s' = page_handles s" using alloc_result_cons by blast
next
  fix s h
  assume "pdb_invar s" "h \<in> page_handles s" "h \<notin> set (free_pages s)"
  then show "\<exists>s'. page_db_free s h = Inr s' \<and> pdb_invar s' \<and> free_pages s' = h # free_pages s \<and>
      page_handles s' = page_handles s" using free_result by blast
qed

subsection \<open>Initialisation establishes the invariant\<close>

definition init_desc :: "nat \<Rightarrow> nat \<Rightarrow> nat \<Rightarrow> page_desc_t" where
  "init_desc num_reserved num_pages j =
     (if j < num_reserved then page_desc_init PGF_RESERVED
      else (page_desc_init PGF_FREE)\<lparr>pg_next_free := (if Suc j < num_pages then of_nat (Suc j) else 0)\<rparr>)"

lemma init_loop_reserved:
  assumes "unat nr \<le> length ps"
  shows "\<exists>ps'. for_up 0 nr (\<lambda>i ps. arr_set ps (unat i) (page_desc_init PGF_RESERVED)) ps = Inr ps' \<and>
    length ps' = length ps \<and> (\<forall>j < unat nr. ps' ! j = page_desc_init PGF_RESERVED)"
  by (rule for_up_rule [where P = "\<lambda>i ps'. length ps' = length ps \<and>
        (\<forall>j < unat i. ps' ! j = page_desc_init PGF_RESERVED)"])
    (use assms in \<open>auto simp: unat_plus1 less_Suc_eq nth_list_update unat_less_iff\<close>)

lemma init_loop_free:
  assumes "a \<le> b" and "unat b \<le> length ps" and "\<And>j. j < unat a \<Longrightarrow> ps ! j = page_desc_init PGF_RESERVED"
  shows "\<exists>ps'. for_up a b
      (\<lambda>i ps. arr_set ps (unat i) ((page_desc_init PGF_FREE)\<lparr>pg_next_free := i + 1\<rparr>)) ps = Inr ps' \<and>
    length ps' = length ps \<and> (\<forall>j < unat a. ps' ! j = page_desc_init PGF_RESERVED) \<and>
    (\<forall>j. unat a \<le> j \<longrightarrow> j < unat b \<longrightarrow>
       ps' ! j = (page_desc_init PGF_FREE)\<lparr>pg_next_free := of_nat (Suc j)\<rparr>)"
proof (rule for_up_rule [where P = "\<lambda>i ps'. length ps' = length ps \<and>
    (\<forall>j < unat a. ps' ! j = page_desc_init PGF_RESERVED) \<and>
    (\<forall>j. unat a \<le> j \<longrightarrow> j < unat i \<longrightarrow>
       ps' ! j = (page_desc_init PGF_FREE)\<lparr>pg_next_free := of_nat (Suc j)\<rparr>)"], goal_cases)
  case (3 i t)
  then have "unat i < length t" "unat (i + 1) = Suc (unat i)" "unat a \<le> unat i"
    using assms(2) by (auto simp: unat_plus1 unat_less_iff unat_le_iff)
  with 3 show ?case by (auto simp: less_Suc_eq nth_list_update add.commute)
qed (use assms in auto)

lemma init_pages_result:
  assumes nr: "0 < unat nr" and lt: "unat nr < unat np" and len: "unat np \<le> length (pdb_pages pdb)"
  shows "\<exists>ps. page_db_init_pages pdb np nr = Inr (pdb\<lparr>pdb_pages := ps, pdb_free_list := nr\<rparr>) \<and>
    length ps = length (pdb_pages pdb) \<and>
    (\<forall>j < unat np. ps ! j = init_desc (unat nr) (unat np) j)"
proof -
  have np1: "unat (np - 1) = unat np - 1" using lt by (intro unat_minus1) auto
  obtain ps1 where ps1: "for_up 0 nr (\<lambda>i ps. arr_set ps (unat i) (page_desc_init PGF_RESERVED))
      (pdb_pages pdb) = Inr ps1" "length ps1 = length (pdb_pages pdb)"
      "\<And>j. j < unat nr \<Longrightarrow> ps1 ! j = page_desc_init PGF_RESERVED"
    using init_loop_reserved [of nr "pdb_pages pdb"] lt len by auto
  have le: "nr \<le> np - 1" using lt np1 by (simp add: unat_le_iff)
  have len1: "unat (np - 1) \<le> length ps1" using len ps1(2) np1 by linarith
  obtain ps2 where ps2: "for_up nr (np - 1)
      (\<lambda>i ps. arr_set ps (unat i) ((page_desc_init PGF_FREE)\<lparr>pg_next_free := i + 1\<rparr>)) ps1 = Inr ps2"
      "length ps2 = length (pdb_pages pdb)" "\<forall>j < unat nr. ps2 ! j = page_desc_init PGF_RESERVED"
      "\<forall>j. unat nr \<le> j \<longrightarrow> j < unat np - 1 \<longrightarrow>
         ps2 ! j = (page_desc_init PGF_FREE)\<lparr>pg_next_free := of_nat (Suc j)\<rparr>"
    using init_loop_free [OF le len1 ps1(3)] ps1(2) np1 by auto
  let ?ps = "ps2[unat np - 1 := page_desc_init PGF_FREE]"
  have "page_db_init_pages pdb np nr = Inr (pdb\<lparr>pdb_pages := ?ps, pdb_free_list := nr\<rparr>)"
    using ps1(1) ps2(1,2) le lt len np1 by (simp add: page_db_init_pages_def Let_def max_absorb2)
  moreover have "?ps ! j = init_desc (unat nr) (unat np) j" if "j < unat np" for j
  proof (cases "j = unat np - 1")
    case True
    then have "\<not> j < unat nr" "\<not> Suc j < unat np" using lt by linarith+
    then have "init_desc (unat nr) (unat np) j = page_desc_init PGF_FREE"
      by (simp add: init_desc_def page_desc_init_def)
    with True show ?thesis using lt len ps2(2) by simp
  next
    case False
    with that have "Suc j < unat np" by linarith
    with False show ?thesis using ps2 lt by (cases "j < unat nr") (auto simp: init_desc_def)
  qed
  ultimately show ?thesis using ps2(2) by auto
qed

lemma init_pages_invar:
  assumes nr: "0 < unat nr" and lt: "unat nr < unat np" and len: "unat np \<le> length (pdb_pages pdb)"
    and fields: "pdb_num_pages pdb = np" "unat (pdb_num_reserved pdb) = unat nr"
  shows "\<exists>pdb'. page_db_init_pages pdb np nr = Inr pdb' \<and> pdb_invar pdb' \<and>
    free_pages pdb' = map of_nat [unat nr..<unat np] \<and> set (free_pages pdb') = page_handles pdb' \<and>
    pdb_num_free pdb' = pdb_num_free pdb \<and> pdb_page_index pdb' = pdb_page_index pdb \<and>
    pdb_num_pages pdb' = np \<and> pdb_num_reserved pdb' = pdb_num_reserved pdb"
proof -
  from init_pages_result [OF nr lt len] obtain ps where
    eq: "page_db_init_pages pdb np nr = Inr (pdb\<lparr>pdb_pages := ps, pdb_free_list := nr\<rparr>)"
    and pl: "length ps = length (pdb_pages pdb)"
    and ps: "\<And>j. j < unat np \<Longrightarrow> ps ! j = init_desc (unat nr) (unat np) j" by blast
  let ?pdb = "pdb\<lparr>pdb_pages := ps, pdb_free_list := nr\<rparr>"
  let ?xs = "map (of_nat :: nat \<Rightarrow> u32) [unat nr..<unat np]"
  have nxj: "pg_nx ps (of_nat j) = pg_next_free (init_desc (unat nr) (unat np) j)"
    if "j < unat np" for j
    using that ps unat_of_nat_below [OF that] by (simp add: pg_nx_def)
  have last: "pg_nx ps (of_nat (unat np - 1)) = 0"
    using nxj [of "unat np - 1"] lt by (simp add: init_desc_def page_desc_init_def)
  have step: "pg_nx ps (of_nat j) = of_nat (Suc j)" if "unat nr \<le> j" "j < unat np - 1" for j
  proof -
    have "Suc j < unat np" using that by linarith
    with that nxj [of j] show ?thesis by (simp add: init_desc_def)
  qed
  have "chain (pg_nx ps) (of_nat (unat nr)) ?xs"
    by (rule chain_upto [OF nr lt unsigned_less step last])
  then have ch: "chain (pg_nx (pdb_pages ?pdb)) (pdb_free_list ?pdb) ?xs" by simp
  have in_xs: "i \<in> set ?xs \<longleftrightarrow> unat nr \<le> unat i \<and> unat i < unat np" for i
    using unat_of_nat_below [where x = np] by (auto intro!: image_eqI [of _ _ "unat i"])
  have mem: "i \<in> set ?xs \<longleftrightarrow> unat (pdb_num_reserved ?pdb) \<le> unat i \<and>
      unat i < unat (pdb_num_pages ?pdb) \<and> pg_flags (pdb_pages ?pdb ! unat i) = PGF_FREE" for i
    unfolding in_xs using ps [of "unat i"] fields by (auto simp: init_desc_def page_desc_init_def)
  have inv: "pdb_invar ?pdb" and fp: "free_pages ?pdb = ?xs"
    using ch mem len pl nr fields by (intro pdb_invarI [of ?pdb ?xs]; simp)+
  have "i \<in> page_handles ?pdb \<longleftrightarrow> i \<in> set ?xs" for i
    unfolding in_xs using ps [of "unat i"] fields
    by (auto simp: page_handles_def init_desc_def page_desc_init_def pgf_defs)
  then have "page_handles ?pdb = set ?xs" by blast
  with inv fp eq fields show ?thesis by simp
qed

subsection \<open>Indices and addresses\<close>

lemma mask_2M: "PAGE_2M_SIZE - 1 = mask 21"
  by (simp add: PAGE_2M_SIZE_def PAGE_2M_SHIFT_def mask_eq_exp_minus_1)

lemma index_desc_inverse: "page_db_index p (page_db_desc p i) = i"
proof -
  have u: "unat (sizeof_page_desc_t * ucast i) = 64 * unat i"
    unfolding sizeof_page_desc_t_def
    using unsigned_less [of i, where 'a = nat] by (simp add: unat_word_ariths)
  have "page_db_index p (page_db_desc p i) =
      ucast ((sizeof_page_desc_t * ucast i :: u64) div sizeof_page_desc_t)"
    by (simp add: page_db_index_def page_db_desc_def)
  also have "(sizeof_page_desc_t * ucast i :: u64) div sizeof_page_desc_t = ucast i"
    using u by (simp add: sizeof_page_desc_t_def unat_div flip: unat_eq_iff)
  finally show ?thesis by simp
qed

lemma big_index_addr: "ucast (drop_bit PAGE_2M_SHIFT (push_bit PAGE_2M_SHIFT (ucast (i :: u32) :: u64))) = i"
  by (rule bit_word_eqI) (auto simp: bit_simps PAGE_2M_SHIFT_def)

lemma unat_shl_2M: "unat (push_bit PAGE_2M_SHIFT (ucast (i :: u32)) :: u64) = unat i * 2 ^ 21"
  using unsigned_less [of i, where 'a = nat]
  by (subst unat_push_bit_lt) (auto simp: PAGE_2M_SHIFT_def)

lemma unat_shl_4K: "unat (push_bit PAGE_4K_SHIFT (ucast (i :: u32)) :: u64) = unat i * 2 ^ 12"
  using unsigned_less [of i, where 'a = nat]
  by (subst unat_push_bit_lt) (auto simp: PAGE_4K_SHIFT_def)

lemma small_addr_unat:
  "unat (push_bit PAGE_2M_SHIFT (ucast (b :: u32)) + push_bit PAGE_4K_SHIFT (ucast (i :: u32)) :: u64)
     = unat b * 2 ^ 21 + unat i * 2 ^ 12"
  using unsigned_less [of b, where 'a = nat] unsigned_less [of i, where 'a = nat]
  by (subst unat_plus_lt) (auto simp: unat_shl_2M unat_shl_4K)

lemma small_index_addr:
  assumes "unat i < 512"
  shows "ucast (PAGE_4K_INDEX (push_bit PAGE_2M_SHIFT (ucast (b :: u32)) + push_bit PAGE_4K_SHIFT (ucast i))) = (i :: u32)"
proof -
  let ?a = "push_bit PAGE_2M_SHIFT (ucast b) + push_bit PAGE_4K_SHIFT (ucast i) :: u64"
  have "(0x1FF :: u64) = mask 9" by (simp add: mask_eq_exp_minus_1)
  then have "unat (PAGE_4K_INDEX ?a) = unat ?a div 2 ^ 12 mod 2 ^ 9"
    by (simp only: PAGE_4K_INDEX_def unat_and_mask unat_drop_bit PAGE_4K_SHIFT_def)
  also have "unat ?a div 2 ^ 12 = unat b * 512 + unat i" by (simp add: small_addr_unat)
  also have "(unat b * 512 + unat i) mod 2 ^ 9 = unat i" using assms by simp
  finally have "unat (PAGE_4K_INDEX ?a) = unat i" .
  then have "unat (ucast (PAGE_4K_INDEX ?a) :: u32) = unat i"
    using assms by (subst unat_ucast_down) auto
  then show ?thesis by simp
qed

lemma aligned_addr_index_0:
  fixes addr :: u64
  assumes "addr AND (PAGE_2M_SIZE - 1) = 0"
  shows "ucast (push_bit PAGE_2M_SHIFT (ucast (ucast addr :: u32) :: u64)) = (0 :: u32)"
proof (rule bit_word_eqI)
  fix n
  assume n: "n < LENGTH(32)"
  have "take_bit 21 addr = 0" using assms by (simp add: mask_2M take_bit_eq_mask)
  then have "\<not> bit addr m" if "m < 21" for m
    using that by (metis bit_take_bit_iff bit_0_eq bot_apply bot_bool_def)
  with n show "bit (ucast (push_bit PAGE_2M_SHIFT (ucast (ucast addr :: u32) :: u64)) :: u32) n = bit (0 :: u32) n"
    by (auto simp: bit_simps PAGE_2M_SHIFT_def)
qed

subsection \<open>Reservation while the kernel boots\<close>

text \<open>
  Before the first allocation the free list is ascending, starts at page \<^verbatim>\<open>num_reserved\<close>, and no
  descriptor, reserved ones included, has a link that jumps over a free page. In that state the
  scan of \<^verbatim>\<open>page_db_reserve_page\<close> finds the predecessor of the page and unlinks it.
\<close>

definition boot_ordered :: "page_db_t \<Rightarrow> bool" where
  "boot_ordered pdb \<longleftrightarrow> pdb_invar pdb \<and>
     sorted_wrt (<) (map unat (free_pages pdb)) \<and>
     (free_pages pdb \<noteq> [] \<longrightarrow> unat (hd (free_pages pdb)) = unat (pdb_num_reserved pdb)) \<and>
     (\<forall>j\<in>{unat (pdb_num_reserved pdb)..<unat (pdb_num_pages pdb)}. \<forall>k\<in>set (free_pages pdb).
        \<not> (j < unat k \<and> unat k < unat (pg_next_free (pdb_pages pdb ! j))))"

lemma reserve_scan_at:
  assumes "i \<le> p" and "p < np" and "unat np \<le> length ps" and "pg_nx ps p = x"
    and "\<And>j. i \<le> j \<Longrightarrow> j < p \<Longrightarrow> pg_nx ps j \<noteq> x" and "x \<noteq> p" and "unat x < length ps"
  shows "reserve_scan i np x ps =
    Inr (ps[unat p := (ps ! unat p)\<lparr>pg_next_free := pg_nx ps x\<rparr>,
            unat x := (ps ! unat x)\<lparr>pg_flags := PGF_RESERVED\<rparr>])"
  using assms
proof (induction i np x ps rule: reserve_scan.induct)
  case (1 i np x ps)
  have inp: "i < np" and il: "unat i < length ps"
    using "1.prems"(1-3) by (auto simp: unat_less_iff unat_le_iff)
  show ?case
  proof (cases "i = p")
    case True
    with "1.prems" inp il show ?thesis
      by (subst reserve_scan.simps) (simp add: pg_nx_def)
  next
    case False
    with "1.prems"(1) have lt: "i < p" by simp
    then have ne: "pg_next_free (ps ! unat i) \<noteq> x"
      using "1.prems"(5) [of i] by (simp add: pg_nx_def)
    have le: "i + 1 \<le> p" "i \<le> i + 1"
      using lt by (auto simp: unat_le_iff unat_less_iff unat_plus1 [OF lt])
    have "pg_nx ps j \<noteq> x" if "i + 1 \<le> j" "j < p" for j
      using "1.prems"(5) [of j] that le(2) by (meson order_trans)
    with "1.IH" [of "ps ! unat i"] "1.prems" inp il ne le show ?thesis
      by (subst reserve_scan.simps) simp
  qed
qed

lemma reserve_pred:
  assumes bo: "boot_ordered pdb" and x: "x \<in> set (free_pages pdb)"
    and above: "unat (pdb_num_reserved pdb) < unat x"
  obtains as p bs where "free_pages pdb = as @ p # x # bs"
    and "unat (pdb_num_reserved pdb) \<le> unat p" and "unat p < unat x" and "pg_nx (pdb_pages pdb) p = x"
    and "\<And>j. unat (pdb_num_reserved pdb) \<le> unat j \<Longrightarrow> j < p \<Longrightarrow> pg_nx (pdb_pages pdb) j \<noteq> x"
proof -
  have inv: "pdb_invar pdb" and srt: "sorted_wrt (<) (map unat (free_pages pdb))"
    using bo by (auto simp: boot_ordered_def)
  obtain as' bs where fp: "free_pages pdb = as' @ x # bs" using x by (auto simp: in_set_conv_decomp)
  have "as' \<noteq> []" using bo fp above by (auto simp: boot_ordered_def)
  then obtain as p where as': "as' = as @ [p]" by (cases as' rule: rev_cases) auto
  have fp': "free_pages pdb = as @ p # x # bs" using fp as' by simp
  have ch: "chain (pg_nx (pdb_pages pdb)) p (p # x # bs)"
    using chain_append_iff [of _ _ as p "x # bs"] pdb_invar_chain [OF inv] fp' by simp
  have px: "unat p < unat x" using srt fp' by (simp add: sorted_wrt_append)
  have pm: "unat (pdb_num_reserved pdb) \<le> unat p" "unat p < unat (pdb_num_pages pdb)"
    using free_pages_mem [OF inv, of p] fp' by auto
  have "pg_nx (pdb_pages pdb) j \<noteq> x" if "unat (pdb_num_reserved pdb) \<le> unat j" "j < p" for j
  proof
    assume "pg_nx (pdb_pages pdb) j = x"
    then have "unat j < unat p \<and> unat p < unat (pg_next_free (pdb_pages pdb ! unat j))"
      using that(2) px by (simp add: unat_less_iff pg_nx_def)
    moreover have "unat j \<in> {unat (pdb_num_reserved pdb)..<unat (pdb_num_pages pdb)}"
      using that pm by (simp add: unat_less_iff)
    moreover have "p \<in> set (free_pages pdb)" using fp' by simp
    ultimately show False using bo by (auto simp: boot_ordered_def)
  qed
  moreover have "pg_nx (pdb_pages pdb) p = x" using ch by simp
  ultimately show ?thesis using that [of as p bs] fp' pm px by blast
qed

lemma reserve_page_result:
  assumes bo: "boot_ordered pdb" and x: "x \<in> set (free_pages pdb)"
    and above: "unat (pdb_num_reserved pdb) < unat x"
  shows "\<exists>pdb'. page_db_reserve_page pdb x = Inr pdb' \<and> boot_ordered pdb' \<and>
    free_pages pdb' = remove1 x (free_pages pdb) \<and>
    pg_flags (pdb_pages pdb' ! unat x) = PGF_RESERVED \<and>
    pdb_num_free pdb' = pdb_num_free pdb \<and> pdb_num_reserved pdb' = pdb_num_reserved pdb"
proof -
  let ?ps = "pdb_pages pdb" and ?nr = "unat (pdb_num_reserved pdb)" and ?np = "unat (pdb_num_pages pdb)"
  have inv: "pdb_invar pdb" using bo by (simp add: boot_ordered_def)
  obtain as p bs where fp: "free_pages pdb = as @ p # x # bs" and p: "?nr \<le> unat p" "unat p < unat x"
    and nxp: "pg_nx ?ps p = x" and first: "\<And>j. ?nr \<le> unat j \<Longrightarrow> j < p \<Longrightarrow> pg_nx ?ps j \<noteq> x"
    using reserve_pred [OF assms] by metis
  have xr: "unat x < ?np" "pg_flags (?ps ! unat x) = PGF_FREE" "unat x < length ?ps"
    using free_pages_mem [OF inv, of x] x pdb_invar_len [OF inv] by auto
  have dist: "distinct (free_pages pdb)" by (rule chain_distinct [OF pdb_invar_chain [OF inv]])
  let ?ps' = "?ps[unat p := (?ps ! unat p)\<lparr>pg_next_free := pg_nx ?ps x\<rparr>,
                  unat x := (?ps ! unat x)\<lparr>pg_flags := PGF_RESERVED\<rparr>]"
  let ?pdb' = "pdb\<lparr>pdb_pages := ?ps'\<rparr>" and ?xs = "as @ p # bs"
  have "reserve_scan (ucast (pdb_num_reserved pdb)) (pdb_num_pages pdb) x ?ps = Inr ?ps'"
    by (rule reserve_scan_at)
      (use p xr nxp first pdb_invar_len [OF inv] in \<open>auto simp: unat_le_iff unat_less_iff\<close>)
  moreover have "x \<noteq> ucast (pdb_num_reserved pdb)" using above by (auto simp flip: unat_eq_iff)
  ultimately have eq: "page_db_reserve_page pdb x = Inr ?pdb'"
    using xr by (simp add: page_db_reserve_page_def unat_le_iff pgf_defs)
  have nx: "pg_nx ?ps' = (pg_nx ?ps)(p := pg_nx ?ps x)"
    using p xr by (auto simp: pg_nx_def fun_eq_iff nth_list_update)
  have ch: "chain (pg_nx ?ps') (pdb_free_list pdb) ?xs"
    using chain_unlink [of "pg_nx ?ps" "pdb_free_list pdb" as p x bs] pdb_invar_chain [OF inv] fp nx by simp
  have mem: "j \<in> set ?xs \<longleftrightarrow> ?nr \<le> unat j \<and> unat j < ?np \<and> pg_flags (?ps' ! unat j) = PGF_FREE" for j
    using free_pages_mem [OF inv, of j] fp dist p xr by (auto simp: nth_list_update pgf_defs)
  have inv': "pdb_invar ?pdb'" and fp': "free_pages ?pdb' = ?xs"
    using ch mem pdb_facts [OF inv] by (intro pdb_invarI [of ?pdb' ?xs]; simp)+
  have srt: "sorted_wrt (<) (map unat (as @ p # x # bs))" using bo fp by (simp add: boot_ordered_def)
  have jump: "\<not> (j < unat k \<and> unat k < unat (pg_next_free (?ps' ! j)))"
    if j: "?nr \<le> j" "j < ?np" and k: "k \<in> set ?xs" for j k
  proof (cases "j = unat p")
    case True
    have "pg_next_free (?ps' ! j) = pg_nx ?ps x"
      using True p xr by (auto simp: nth_list_update)
    moreover have "chain (pg_nx ?ps) (pg_nx ?ps x) bs"
      using chain_append_iff [of "pg_nx ?ps" _ "as @ [p]" x bs] pdb_invar_chain [OF inv] fp by simp
    ultimately show ?thesis using True k srt
      by (cases bs) (auto simp: sorted_wrt_append)
  next
    case False
    have "pg_next_free (?ps' ! j) = pg_next_free (?ps ! j)"
      using False xr by (auto simp: nth_list_update)
    then show ?thesis using bo j k fp by (auto simp: boot_ordered_def)
  qed
  have "boot_ordered ?pdb'"
    unfolding boot_ordered_def fp'
    using inv' srt jump bo fp by (auto simp: boot_ordered_def sorted_wrt_append hd_append)
  moreover have "remove1 x (free_pages pdb) = ?xs" using fp dist by (simp add: remove1_append)
  ultimately show ?thesis using eq fp' xr p by auto
qed

subsection \<open>The printed ranges\<close>

primrec ranges_cover :: "page_desc_t list \<Rightarrow> u32 \<Rightarrow> u32 \<Rightarrow> page_range list \<Rightarrow> bool" where
  "ranges_cover ps np n [] \<longleftrightarrow> np \<le> n"
| "ranges_cover ps np n (r # rs) \<longleftrightarrow>
     pr_start r = n \<and> n < pr_end r \<and> pr_end r \<le> np \<and>
     (\<forall>j\<in>{unat n..<unat (pr_end r)}. pg_flags (ps ! j) = pr_flags r) \<and>
     (pr_end r < np \<longrightarrow> pg_flags (ps ! unat (pr_end r)) \<noteq> pr_flags r) \<and>
     ranges_cover ps np (pr_end r) rs"

lemma run_end_result:
  assumes "n \<le> np" and "unat np \<le> length ps"
  shows "\<exists>e. run_end fl n np ps = Inr e \<and> n \<le> e \<and> e \<le> np \<and>
    (\<forall>j\<in>{unat n..<unat e}. pg_flags (ps ! j) = fl) \<and>
    (e < np \<longrightarrow> pg_flags (ps ! unat e) \<noteq> fl)"
  using assms
proof (induction fl n np ps rule: run_end.induct)
  case (1 fl n np ps)
  show ?case
  proof (cases "n < np \<and> pg_flags (ps ! unat n) = fl")
    case True
    then have nl: "unat n < length ps" and s: "unat (n + 1) = Suc (unat n)"
      using "1.prems" by (auto simp: unat_less_iff unat_plus1)
    then have "n + 1 \<le> np" using True by (simp add: unat_le_iff unat_less_iff)
    with "1.IH" [of "ps ! unat n"] True nl "1.prems" obtain e where
      e: "run_end fl (n + 1) np ps = Inr e" "n + 1 \<le> e" "e \<le> np"
      "\<forall>j\<in>{unat (n + 1)..<unat e}. pg_flags (ps ! j) = fl"
      "e < np \<longrightarrow> pg_flags (ps ! unat e) \<noteq> fl" by auto
    have "run_end fl n np ps = Inr e" using e(1) True nl by (subst run_end.simps) simp
    moreover have "pg_flags (ps ! j) = fl" if "unat n \<le> j" "j < unat e" for j
      using that e(4) s True by (cases "j = unat n") auto
    ultimately show ?thesis using e s by (auto simp: unat_le_iff)
  next
    case False
    then have "run_end fl n np ps = Inr n"
      using "1.prems" by (subst run_end.simps) (auto simp: unat_less_iff)
    with False "1.prems" show ?thesis by auto
  qed
qed

lemma dump_ranges_result:
  assumes "n \<le> np" and "unat np \<le> length ps"
    and "\<And>j. j < unat np \<Longrightarrow> pg_flags (ps ! j) \<in> {PGF_FREE, PGF_USED, PGF_RESERVED}"
  shows "\<exists>rs. dump_ranges_loop n np ps out = Some (Inr (out @ rs)) \<and> ranges_cover ps np n rs"
  using assms(1)
proof (induction "unat np - unat n" arbitrary: n out rule: less_induct)
  case less
  show ?case
  proof (cases "n < np")
    case True
    then have nl: "unat n < length ps" "unat n < unat np" using assms(2) by (auto simp: unat_less_iff)
    let ?fl = "pg_flags (ps ! unat n)"
    obtain e where e: "run_end ?fl n np ps = Inr e" "n \<le> e" "e \<le> np"
      "\<forall>j\<in>{unat n..<unat e}. pg_flags (ps ! j) = ?fl" "e < np \<longrightarrow> pg_flags (ps ! unat e) \<noteq> ?fl"
      using run_end_result [OF less.prems assms(2)] by blast
    have lt: "n < e" using e(2,5) True by (cases "n = e") simp_all
    have flags: "?fl = PGF_FREE \<or> ?fl = PGF_RESERVED \<or> ?fl = PGF_USED"
      using assms(3) [OF nl(2)] by auto
    let ?r = "\<lparr>pr_flags = ?fl, pr_start = n, pr_end = e,
      pr_start_addr = push_bit PAGE_2M_SHIFT n, pr_end_addr = push_bit PAGE_2M_SHIFT e\<rparr>"
    from lt e(3) have "unat np - unat e < unat np - unat n" by (simp add: unat_less_iff unat_le_iff)
    from less.hyps [OF this e(3), of "out @ [?r]"] obtain rs where
      rs: "dump_ranges_loop e np ps (out @ [?r]) = Some (Inr (out @ ?r # rs))" "ranges_cover ps np e rs"
      by (metis append.assoc append_Cons append_Nil)
    have "dump_ranges_loop n np ps out = Some (Inr (out @ ?r # rs))"
      using rs(1) e(1) True nl(1) flags by (subst dump_ranges_loop.simps) simp
    moreover have "ranges_cover ps np n (?r # rs)"
      unfolding ranges_cover.simps page_range.select_convs using rs(2) e(3-5) lt by blast
    ultimately show ?thesis by blast
  next
    case False
    then show ?thesis by (subst dump_ranges_loop.simps) auto
  qed
qed

section \<open>Properties\<close>

text \<open>A five-page database, two of the pages reserved, for the witnesses.\<close>

definition blank_pdb :: "nat \<Rightarrow> page_db_t" where
  "blank_pdb n =
     \<lparr>pdb_page_index = 7, pdb_num_pages = 0, pdb_num_free = 0, pdb_free_list = 0, pdb_lock = 1,
      pdb_num_reserved = 0, pdb_flags = 3, pdb_pages = replicate n (page_desc_init 9)\<rparr>"

definition demo_pdb :: page_db_t where
  "demo_pdb =
     \<lparr>pdb_page_index = 0, pdb_num_pages = 5, pdb_num_free = 3, pdb_free_list = 2, pdb_lock = 0,
      pdb_num_reserved = 2, pdb_flags = 0,
      pdb_pages = [page_desc_init PGF_RESERVED, page_desc_init PGF_RESERVED,
        (page_desc_init PGF_FREE)\<lparr>pg_next_free := 3\<rparr>, (page_desc_init PGF_FREE)\<lparr>pg_next_free := 4\<rparr>,
        page_desc_init PGF_FREE]\<rparr>"

lemma demo_free_pages: "free_pages demo_pdb = [2, 3, 4]"
  by (rule free_pages_eqI) (auto simp: demo_pdb_def pg_nx_def page_desc_init_def)

lemma demo_fields: "pdb_num_reserved demo_pdb = 2" "pdb_num_pages demo_pdb = 5"
  "pdb_page_index demo_pdb = 0" "pdb_num_free demo_pdb = 3"
  by (simp_all add: demo_pdb_def)

lemma demo_invar: "pdb_invar demo_pdb"
  unfolding pdb_invar_def demo_free_pages
  by (auto simp: demo_pdb_def marked_free_def pg_nx_def page_desc_init_def pgf_defs upt_rec)

text \<open>
  C4. Initialising a database whose memory holds all its descriptors, with at least one reserved
  and one free page, establishes the invariant: the free list is exactly the pages from
  \<^verbatim>\<open>num_reserved\<close> to \<^verbatim>\<open>num_pages - 1\<close> in ascending order, every page that can be handed out is on
  it, and \<^verbatim>\<open>num_free\<close> counts them.
\<close>

theorem page_db_init_spec:
  assumes "nr = (ucast (PAGE_2M_NUM reserved_size) :: u32)"
    and "np = (ucast (drop_bit PAGE_2M_SHIFT memory_size) :: u32)"
    and "0 < unat nr" and "unat nr < 2 ^ 16" and "unat nr < unat np"
    and "unat np \<le> length (pdb_pages pdb)"
  shows "\<exists>pdb'. page_db_init pdb memory_size reserved_size = Inr pdb' \<and> pdb_invar pdb' \<and>
    free_pages pdb' = map of_nat [unat nr..<unat np] \<and> set (free_pages pdb') = page_handles pdb' \<and>
    num_free_ok pdb'"
proof -
  let ?pdb = "pdb\<lparr>pdb_page_index := 0, pdb_num_pages := np, pdb_num_free := np - nr,
    pdb_num_reserved := ucast nr, pdb_flags := 0, pdb_lock := 0\<rparr>"
  have "unat (ucast nr :: u16) = unat nr" using assms(4) by (simp add: unat_ucast_down)
  then obtain pdb' where "page_db_init_pages ?pdb np nr = Inr pdb'" "pdb_invar pdb'"
    "free_pages pdb' = map of_nat [unat nr..<unat np]" "set (free_pages pdb') = page_handles pdb'"
    "pdb_num_free pdb' = np - nr"
    using init_pages_invar [of nr np ?pdb] assms(3,5,6) by auto
  moreover have "unat (np - nr) = unat np - unat nr"
    using assms(5) by (intro unat_minus_le) (simp add: unat_le_iff)
  ultimately show ?thesis
    using assms(1,2) by (simp add: page_db_init_def Let_def num_free_ok_def)
qed

theorem page_db_init_spec_witness:
  "\<exists>pdb'. page_db_init (blank_pdb 5) 0xA00000 0x3FFFFF = Inr pdb' \<and> pdb_invar pdb' \<and>
    free_pages pdb' = [2, 3, 4] \<and> num_free_ok pdb'"
proof -
  have "(2 :: u32) = ucast (PAGE_2M_NUM 0x3FFFFF)" "(5 :: u32) = ucast (drop_bit PAGE_2M_SHIFT (0xA00000 :: u64))"
    by (simp_all add: PAGE_2M_NUM_def PAGE_2M_SHIFT_def PAGE_2M_SIZE_def)
  from page_db_init_spec [OF this, of "blank_pdb 5"] show ?thesis
    by (auto simp: blank_pdb_def upt_rec)
qed

text \<open>
  C2. On a well-formed database \<^verbatim>\<open>page_db_alloc\<close> never panics. With nothing free it returns index
  0 and changes nothing; otherwise it returns the head of the free list, marks that page used,
  leaves the rest of the list, decrements \<^verbatim>\<open>num_free\<close> and keeps the invariant.
\<close>

theorem page_db_alloc_spec:
  assumes "pdb_invar pdb"
  shows "case free_pages pdb of
      [] \<Rightarrow> page_db_alloc pdb = Inr (0, pdb)
    | i # is \<Rightarrow> \<exists>pdb'. page_db_alloc pdb = Inr (i, pdb') \<and> i \<noteq> 0 \<and> pdb_invar pdb' \<and>
        free_pages pdb' = is \<and> pg_flags (pdb_pages pdb' ! unat i) = PGF_USED \<and>
        (num_free_ok pdb \<longrightarrow> num_free_ok pdb')"
proof (cases "free_pages pdb")
  case Nil
  with assms show ?thesis by (simp add: alloc_result_nil)
next
  case (Cons i "is")
  have "i \<noteq> 0" using chain_nonzero [OF pdb_invar_chain [OF assms]] Cons by auto
  moreover have "unat (pdb_num_free pdb - 1) = length is" if "num_free_ok pdb"
    using that Cons by (subst unat_minus1) (auto simp: num_free_ok_def)
  ultimately show ?thesis using alloc_result_cons [OF assms Cons] Cons by (auto simp: num_free_ok_def)
qed

theorem page_db_alloc_spec_witness:
  "pdb_invar demo_pdb \<and> (\<exists>pdb'. page_db_alloc demo_pdb = Inr (2, pdb') \<and> free_pages pdb' = [3, 4])"
  using page_db_alloc_spec [OF demo_invar] demo_invar by (auto simp: demo_free_pages)



text \<open>
  C1. No page is ever handed out twice. Starting from a database whose allocatable pages are all
  free, whatever sequence of allocations and releases its clients perform (releasing only pages
  they hold), the pages held and the pages free are disjoint and together are all allocatable
  pages, and every held page can be released without a panic.
\<close>

theorem page_db_exclusive_ownership:
  assumes "(owner_step page_db_alloc page_db_free 0)\<^sup>*\<^sup>* (pdb, {}) (pdb', own)"
    and "pdb_invar pdb" and "set (free_pages pdb) = page_handles pdb"
  shows "own \<inter> set (free_pages pdb') = {} \<and> own \<union> set (free_pages pdb') = page_handles pdb' \<and>
    (\<forall>h\<in>own. \<exists>pdb''. page_db_free pdb' h = Inr pdb'')"
  using assms by (rule pagedb.owner_reachable_disjoint)

theorem page_db_exclusive_ownership_witness:
  "\<exists>pdb'. (owner_step page_db_alloc page_db_free 0)\<^sup>*\<^sup>* (demo_pdb, {}) (pdb', {2}) \<and>
     {2} \<inter> set (free_pages pdb') = {}"
proof -
  obtain pdb' where a: "page_db_alloc demo_pdb = Inr (2, pdb')"
    using alloc_result_cons [OF demo_invar demo_free_pages] by blast
  have "owner_step page_db_alloc page_db_free 0 (demo_pdb, {}) (pdb', insert 2 {})"
    using a by (rule owner_step.take) simp
  then have r: "(owner_step page_db_alloc page_db_free 0)\<^sup>*\<^sup>* (demo_pdb, {}) (pdb', {2})" by simp
  have "i \<in> page_handles demo_pdb \<longleftrightarrow> i \<in> {2, 3, 4}" for i
    by (auto simp: page_handles_def demo_pdb_def page_desc_init_def pgf_defs nth_Cons' 
      simp flip: unat_eq_iff split: if_splits)
  then have h: "set (free_pages demo_pdb) = page_handles demo_pdb" by (auto simp: demo_free_pages)
  from page_db_exclusive_ownership [OF r demo_invar h] r show ?thesis by blast
qed

text \<open>
  Index and address conversions are inverse to each other: for a database of 2 MB pages at
  every index, for a database of 4 KB pages at every index from \<^verbatim>\<open>num_reserved\<close> (at least 1) up to
  \<^verbatim>\<open>num_pages\<close> (at most 512); and a descriptor pointer gives back the index it was made from.
\<close>

theorem page_db_addr_roundtrip:
  assumes "pdb_page_index pdb \<noteq> 0 \<Longrightarrow> 0 < unat (pdb_num_reserved pdb) \<and>
      unat (pdb_num_reserved pdb) \<le> unat i \<and> unat i < unat (pdb_num_pages pdb) \<and>
      unat (pdb_num_pages pdb) \<le> 512"
  shows "page_db_addr2index pdb (page_db_index2addr pdb i) = Inr i \<and>
    page_db_desc2addr p pdb (page_db_desc p i) = page_db_index2addr pdb i"
proof (cases "pdb_page_index pdb = 0")
  case True
  then show ?thesis
    by (simp add: page_db_addr2index_def page_db_index2addr_def page_db_desc2addr_def
        index_desc_inverse big_index_addr)
next
  case False
  let ?b = "pdb_page_index pdb"
  let ?base = "push_bit PAGE_2M_SHIFT (ucast ?b) :: u64"
  let ?a = "?base + push_bit PAGE_4K_SHIFT (ucast i)"
  have i: "0 < unat i" "unat i < 512" using assms False by linarith+
  have ua: "unat ?a = unat ?b * 2 ^ 21 + unat i * 2 ^ 12" by (rule small_addr_unat)
  have ub: "unat ?base = unat ?b * 2 ^ 21" by (rule unat_shl_2M)
  have ue: "unat (?base + PAGE_2M_SIZE) = unat ?b * 2 ^ 21 + 2 ^ 21"
    using ub unsigned_less [of ?b, where 'a = nat]
    by (subst unat_plus_lt) (auto simp: PAGE_2M_SIZE_def PAGE_2M_SHIFT_def)
  have "?base < ?a \<and> ?a < ?base + PAGE_2M_SIZE" using ua ub ue i by (simp add: unat_less_iff)
  then show ?thesis
    using False assms small_index_addr [OF i(2), of ?b]
    by (simp add: page_db_addr2index_def page_db_index2addr_def page_db_desc2addr_def
        index_desc_inverse Let_def unat_le_iff unat_less_iff)
qed

theorem page_db_addr_roundtrip_witness:
  "page_db_addr2index (demo_pdb\<lparr>pdb_page_index := 6\<rparr>)
     (page_db_index2addr (demo_pdb\<lparr>pdb_page_index := 6\<rparr>) 3) = Inr 3"
  using page_db_addr_roundtrip [of "demo_pdb\<lparr>pdb_page_index := 6\<rparr>" 3 0]
  by (simp add: demo_fields)

text \<open>
  \<^verbatim>\<open>page_db_free_addr\<close> never releases a 2 MB page: it converts the address with the
  index-to-address function, which truncates every 2 MB aligned address to index 0, and then does
  nothing. The address that \<^verbatim>\<open>page_db_alloc_addr\<close> has just returned is such an address, so the page
  stays allocated.
\<close>

theorem page_db_free_addr_leaks:
  assumes "pdb_page_index pdb = 0" and "page_db_alloc_addr pdb = Inr (addr, pdb')"
  shows "page_db_free_addr pdb' addr = Inr pdb'"
proof -
  obtain index where al: "page_db_alloc pdb = Inr (index, pdb')"
    and addr: "addr = (if 0 < index then page_db_index2addr pdb' index else 0)"
    using assms(2) by (auto simp: page_db_alloc_addr_def rbind_Inr_iff split: prod.splits)
  have pi: "pdb_page_index pdb' = 0"
    using al assms(1) by (auto simp: page_db_alloc_def Let_def outcome split: if_splits)
  have "addr AND (PAGE_2M_SIZE - 1) = 0"
  proof -
    have "take_bit 21 (push_bit 21 (ucast index :: u64)) = 0"
      by (rule bit_word_eqI) (auto simp: bit_simps)
    then show ?thesis using addr pi
      by (simp add: mask_2M page_db_index2addr_def PAGE_2M_SHIFT_def take_bit_eq_mask)
  qed
  from aligned_addr_index_0 [OF this] pi show ?thesis
    by (simp add: page_db_free_addr_def page_db_index2addr_def)
qed

theorem page_db_free_addr_leaks_witness:
  "\<exists>pdb'. page_db_alloc_addr demo_pdb = Inr (0x400000, pdb') \<and>
     page_db_free_addr pdb' 0x400000 = Inr pdb' \<and> 2 \<notin> set (free_pages pdb')"
proof -
  obtain pdb' where a: "page_db_alloc demo_pdb = Inr (2, pdb')" "free_pages pdb' = [3, 4]"
    using alloc_result_cons [OF demo_invar demo_free_pages] by blast
  have "pdb_page_index pdb' = 0"
    using a(1) by (auto simp: page_db_alloc_def Let_def outcome demo_fields split: if_splits)
  then have b: "page_db_alloc_addr demo_pdb = Inr (0x400000, pdb')"
    using a(1) by (simp add: page_db_alloc_addr_def page_db_index2addr_def PAGE_2M_SHIFT_def)
  from page_db_free_addr_leaks [OF demo_fields(3) b] a(2) b show ?thesis by auto
qed


lemma demo_boot_ordered: "boot_ordered demo_pdb"
  unfolding boot_ordered_def demo_free_pages
  using demo_invar by (auto simp: demo_fields demo_pdb_def page_desc_init_def nth_Cons' split: if_splits)


text \<open>
  Reserving out of ascending order corrupts the free list: after pages 3 and then 2 of the
  five-page database are reserved, \<^verbatim>\<open>free_list\<close> points at the reserved page 3 although page 4 is
  free, and the next allocation panics.
\<close>

theorem page_db_reserve_order_panics:
  "rbind (page_db_reserve_page demo_pdb 3) (\<lambda>pdb.
   rbind (page_db_reserve_page pdb 2) page_db_alloc)
     = Inl (Panic ''pdb->pages[index].flags == PGF_FREE'')"
  by (simp add: demo_pdb_def page_db_reserve_page_def page_db_alloc_def page_desc_init_def pgf_defs
      reserve_scan.simps Let_def)

text \<open>
  \<^verbatim>\<open>page_db_dump_ranges\<close> terminates on every database whose descriptors carry one of the three
  page states, and the ranges it prints partition the pages from 0 to \<^verbatim>\<open>num_pages - 1\<close> into
  maximal runs of equal state.
\<close>

theorem page_db_dump_ranges_total:
  assumes "unat (pdb_num_pages pdb) \<le> length (pdb_pages pdb)"
    and "\<forall>j < unat (pdb_num_pages pdb).
      pg_flags (pdb_pages pdb ! j) \<in> {PGF_FREE, PGF_USED, PGF_RESERVED}"
  shows "\<exists>rs. page_db_dump_ranges pdb = Some (Inr rs) \<and>
    ranges_cover (pdb_pages pdb) (pdb_num_pages pdb) 0 rs"
  using dump_ranges_result [of 0 "pdb_num_pages pdb" "pdb_pages pdb" "[]"] assms
  by (auto simp: page_db_dump_ranges_def)

theorem page_db_dump_ranges_total_witness:
  "\<exists>rs. page_db_dump_ranges demo_pdb = Some (Inr rs) \<and> ranges_cover (pdb_pages demo_pdb) 5 0 rs"
proof -
  have "unat (pdb_num_pages demo_pdb) \<le> length (pdb_pages demo_pdb)"
    "\<forall>j < unat (pdb_num_pages demo_pdb).
      pg_flags (pdb_pages demo_pdb ! j) \<in> {PGF_FREE, PGF_USED, PGF_RESERVED}"
    by (auto simp: demo_pdb_def page_desc_init_def nth_Cons')
  from page_db_dump_ranges_total [OF this] show ?thesis by (simp add: demo_fields)
qed

end
