(* ===== verification/CString.thy ===== *)
theory CString
  imports Prelude
begin

text \<open>
  The string routines of \<^verbatim>\<open>string.c\<close> on byte buffers. A pointer argument is the list of bytes from
  that address to the end of the object it points into; running past the end of the object is
  \<open>OutOfBounds\<close>. A C string is a prefix of the buffer that ends with a zero byte.
\<close>

primrec strlen_loop :: "u8 list \<Rightarrow> nat \<Rightarrow> nat outcome" where
  "strlen_loop [] len = Inl OutOfBounds"
| "strlen_loop (c # cs) len = (if c = 0 then Inr len else strlen_loop cs (len + 1))"

definition strlen :: "u8 list option \<Rightarrow> nat outcome" where
  "strlen p = (case p of None \<Rightarrow> Inr 0 | Some buf \<Rightarrow> strlen_loop buf 0)"

fun strcmp :: "u8 list \<Rightarrow> u8 list \<Rightarrow> int outcome" where
  "strcmp (c1 # s1) (c2 # s2) =
     (if c1 \<noteq> c2 then Inr (if c1 < c2 then -1 else 1)
      else if c1 = 0 then Inr 0 else strcmp s1 s2)"
| "strcmp _ _ = Inl OutOfBounds"

fun strcpy :: "u8 list \<Rightarrow> u8 list \<Rightarrow> u8 list outcome" where
  "strcpy (d # dest) (s # src) =
     (if s = 0 then Inr (0 # dest) else rbind (strcpy dest src) (\<lambda>r. Inr (s # r)))"
| "strcpy _ _ = Inl OutOfBounds"

primrec strncpy_loop :: "nat \<Rightarrow> nat \<Rightarrow> u8 list \<Rightarrow> u8 list \<Rightarrow> u8 list outcome" where
  "strncpy_loop 0 i dst src = Inr dst"
| "strncpy_loop (Suc n) i dst src =
     rbind (arr_get src i) (\<lambda>c. rbind (arr_set dst i c) (\<lambda>dst. strncpy_loop n (i + 1) dst src))"

definition c_strncpy :: "u8 list \<Rightarrow> u8 list \<Rightarrow> nat \<Rightarrow> u8 list outcome" where
  "c_strncpy dst src len =
     rbind (strncpy_loop len 0 dst src) (\<lambda>dst. arr_set dst len 0)"

subsection \<open>Behaviour on terminated strings\<close>

lemma strlen_loop_cstr: "0 \<notin> set s \<Longrightarrow> strlen_loop (s @ 0 # r) n = Inr (n + length s)"
  by (induction s arbitrary: n) auto

lemma strlen_loop_unterminated: "0 \<notin> set s \<Longrightarrow> strlen_loop s n = Inl OutOfBounds"
  by (induction s arbitrary: n) auto

lemma strcmp_cstr:
  assumes "0 \<notin> set s" and "0 \<notin> set t"
  shows "\<exists>k. strcmp (s @ 0 # r) (t @ 0 # q) = Inr k \<and> (k = 0 \<longleftrightarrow> s = t) \<and> k \<in> {-1, 0, 1}"
  using assms
proof (induction s arbitrary: t)
  case Nil
  then show ?case by (cases t) auto
next
  case (Cons c s)
  then show ?case by (cases t) auto
qed

lemma strcmp_antisym:
  assumes "0 \<notin> set s" and "0 \<notin> set t"
  shows "\<exists>k. strcmp (s @ 0 # r) (t @ 0 # q) = Inr k \<and> strcmp (t @ 0 # q) (s @ 0 # r) = Inr (- k)"
  using assms
proof (induction s arbitrary: t)
  case Nil
  then show ?case by (cases t) (auto simp: word_gt_0_iff_neq)
next
  case (Cons c s)
  then show ?case by (cases t) (auto simp: not_less_iff_gr_or_eq word_gt_0_iff_neq)
qed

lemma strcpy_fits:
  assumes "0 \<notin> set s" and "length s < length dest"
  shows "strcpy dest (s @ 0 # r) = Inr (s @ 0 # drop (Suc (length s)) dest)"
  using assms
proof (induction s arbitrary: dest)
  case Nil
  then show ?case by (cases dest) auto
next
  case (Cons c s)
  then show ?case by (cases dest) auto
qed

lemma strcpy_overflows:
  assumes "0 \<notin> set s" and "length dest \<le> length s"
  shows "strcpy dest (s @ 0 # r) = Inl OutOfBounds"
  using assms
proof (induction s arbitrary: dest)
  case Nil
  then show ?case by simp
next
  case (Cons c s)
  then show ?case by (cases dest) auto
qed

lemma strncpy_loop_result:
  assumes "i + n \<le> length src" and "i + n \<le> length dst"
  shows "strncpy_loop n i dst src = Inr (take i dst @ take n (drop i src) @ drop (i + n) dst)"
  using assms
proof (induction n arbitrary: i dst)
  case 0
  then show ?case by simp
next
  case (Suc n)
  have "strncpy_loop (Suc n) i dst src = strncpy_loop n (i + 1) (dst[i := src ! i]) src"
    using Suc.prems by simp
  also have "\<dots> = Inr (take (i + 1) (dst[i := src ! i]) @ take n (drop (i + 1) src)
      @ drop (i + 1 + n) (dst[i := src ! i]))"
    using Suc.prems by (intro Suc.IH) auto
  also have "take (i + 1) (dst[i := src ! i]) = take i dst @ [src ! i]"
    using Suc.prems by (simp add: take_Suc_conv_app_nth)
  also have "drop (i + 1 + n) (dst[i := src ! i]) = drop (i + Suc n) dst" by simp
  also have "(take i dst @ [src ! i]) @ take n (drop (i + 1) src) @ drop (i + Suc n) dst
      = take i dst @ take (Suc n) (drop i src) @ drop (i + Suc n) dst"
    using Suc.prems by (simp add: Cons_nth_drop_Suc [symmetric])
  finally show ?case .
qed

section \<open>Properties\<close>

text \<open>
  \<^verbatim>\<open>strcmp\<close> on two terminated strings returns: -1, 0 or 1, 0 exactly for equal strings, and
  the opposite sign with the arguments exchanged.
\<close>

theorem strcmp_spec:
  assumes "0 \<notin> set s" and "0 \<notin> set t"
  shows "\<exists>k. strcmp (s @ 0 # r) (t @ 0 # q) = Inr k \<and> k \<in> {-1, 0, 1} \<and> (k = 0 \<longleftrightarrow> s = t) \<and>
    strcmp (t @ 0 # q) (s @ 0 # r) = Inr (- k)"
  using strcmp_cstr [OF assms, of r q] strcmp_antisym [OF assms, of r q] by auto

theorem strcmp_spec_witness: "strcmp [112, 99, 0] [112, 109, 0, 7] = Inr (-1)"
proof -
  have h: "0 \<notin> set [112, 99 :: u8]" "0 \<notin> set [112, 109 :: u8]" by simp_all
  show ?thesis using strcmp_spec [OF h, of "[]" "[7]"] by simp
qed

text \<open>
  \<^verbatim>\<open>strcpy\<close> copies a terminated string and its terminator exactly when the destination object
  is longer than the string, leaving the rest of the destination alone; otherwise it writes past
  the end of the destination. The length of the copy is the length of the source.
\<close>

theorem strcpy_spec:
  assumes "0 \<notin> set s"
  shows "strlen (Some (s @ 0 # r)) = Inr (length s) \<and>
    strcpy dest (s @ 0 # r) =
      (if length s < length dest then Inr (s @ 0 # drop (Suc (length s)) dest) else Inl OutOfBounds)"
  using assms strcpy_fits strcpy_overflows strlen_loop_cstr [OF assms, of r 0]
  by (simp add: strlen_def)

theorem strcpy_spec_witness:
  "strcpy [1, 1, 1, 1] [104, 105, 0] = Inr [104, 105, 0, 1] \<and> strcpy [1, 1] [104, 105, 0] = Inl OutOfBounds"
proof -
  have h: "0 \<notin> set [104, 105 :: u8]" by simp
  show ?thesis
    using strcpy_spec [OF h, of "[]" "[1, 1, 1, 1]"] strcpy_spec [OF h, of "[]" "[1, 1]"] by simp
qed

text \<open>
  \<^verbatim>\<open>c_strncpy\<close> needs room for \<open>len\<close> bytes and a terminator: given that, it writes the first
  \<open>len\<close> source bytes and a zero byte and leaves the rest of the destination alone.
\<close>

theorem c_strncpy_spec:
  assumes "len \<le> length src" and "len < length dst"
  shows "c_strncpy dst src len = Inr (take len src @ 0 # drop (Suc len) dst)"
  using assms strncpy_loop_result [of 0 len src dst]
  by (simp add: c_strncpy_def list_update_append Cons_nth_drop_Suc [symmetric])

theorem c_strncpy_spec_witness: "c_strncpy [9, 9, 9, 9] [80, 67, 73] 2 = Inr [80, 67, 0, 9]"
  using c_strncpy_spec [of 2 "[80, 67, 73]" "[9, 9, 9, 9]"] by simp

end
