(* ===== verification/Printf.thy ===== *)
theory Printf
  imports Prelude
begin

text \<open>
  The formatter of \<^verbatim>\<open>vsprintf.c\<close>: \<^verbatim>\<open>skip_atoi\<close>, \<^verbatim>\<open>number\<close>, the conversion loop of \<^verbatim>\<open>vsprintf\<close> and
  \<^verbatim>\<open>printf\<close>. Strings are character lists without the terminating NUL, so \<open>[]\<close> is the position of
  the NUL. The output is the list of characters written to \<^verbatim>\<open>buf\<close>.

  A variadic argument is one 64-bit slot, a string pointer (null or a string) or the target of a
  \<^verbatim>\<open>%n\<close>; taking an argument that is missing or of another shape is undefined in C and is
  \<open>OutOfBounds\<close> here. Field width and precision are C \<open>int\<close>s and are modelled as integers.
\<close>

subsection \<open>Flags and characters\<close>

definition ZEROPAD :: u32 where "ZEROPAD = 1"
definition SIGN :: u32 where "SIGN = 2"
definition PLUS :: u32 where "PLUS = 4"
definition SPACE :: u32 where "SPACE = 8"
definition LEFT :: u32 where "LEFT = 16"
definition SPECIAL :: u32 where "SPECIAL = 32"
definition SMALL :: u32 where "SMALL = 64"

lemmas flag_defs = ZEROPAD_def SIGN_def PLUS_def SPACE_def LEFT_def SPECIAL_def SMALL_def

definition has :: "u32 \<Rightarrow> u32 \<Rightarrow> bool" where
  "has type flag \<longleftrightarrow> type AND flag \<noteq> 0"

definition is_digit :: "char \<Rightarrow> bool" where
  "is_digit c \<longleftrightarrow> of_char CHR ''0'' \<le> (of_char c :: nat) \<and> of_char c \<le> (of_char CHR ''9'' :: nat)"

definition upper_digits :: string where
  "upper_digits = ''0123456789ABCDEFGHIJKLMNOPQRSTUVWXYZ''"

definition lower_digits :: string where
  "lower_digits = ''0123456789abcdefghijklmnopqrstuvwxyz''"

fun skip_atoi_loop :: "int \<Rightarrow> string \<Rightarrow> int \<times> string" where
  "skip_atoi_loop i (c # s) =
     (if is_digit c then skip_atoi_loop (i * 10 + of_char c - of_char CHR ''0'') s else (i, c # s))"
| "skip_atoi_loop i [] = (i, [])"

definition skip_atoi :: "string \<Rightarrow> int \<times> string" where
  "skip_atoi s = skip_atoi_loop 0 s"

subsection \<open>Numbers\<close>

text \<open>
  \<open>digits_of\<close> is the loop \<^verbatim>\<open>while (num != 0) tmp[i++] = digits[do_div(num,base)]\<close>: unsigned division
  of the 64-bit value, least significant digit first. \<open>pad_while c n\<close> is
  \<^verbatim>\<open>while (n-- > 0) *str++ = c\<close>: what it writes, and the value it leaves in \<^verbatim>\<open>n\<close>.
\<close>

function digits_of :: "u64 \<Rightarrow> u64 \<Rightarrow> nat list" where
  "digits_of num base =
     (if num = 0 \<or> base < 2 then [] else unat (num mod base) # digits_of (num div base) base)"
  by pat_completeness auto
termination
  by (relation "measure (\<lambda>(num, _). unat num)")
    (auto simp: unat_div unat_less_iff word_neq_0_conv [symmetric] intro!: div_less_dividend
      simp flip: unat_eq_iff)

declare digits_of.simps [simp del]

definition pad_while :: "char \<Rightarrow> int \<Rightarrow> string \<times> int" where
  "pad_while c n = (replicate (nat n) c, if 0 < n then -1 else n - 1)"

definition number ::
  "u64 \<Rightarrow> u64 \<Rightarrow> int \<Rightarrow> int \<Rightarrow> u32 \<Rightarrow> string option outcome" where
  "number num base sz precision type =
     (let digits = (if has type SMALL then lower_digits else upper_digits);
          type = (if has type LEFT then type AND NOT ZEROPAD else type) in
      if sint base < 2 \<or> 36 < sint base then Inr None
      else
        let (sign, num) =
              (if has type SIGN \<and> sint num < 0 then ([CHR ''-''], - num)
               else (if has type PLUS then [CHR ''+''] else if has type SPACE then [CHR '' ''] else [], num));
            sz = (if sign \<noteq> [] then sz - 1 else sz);
            sz = (if has type SPECIAL then
                    (if base = 16 then sz - 2 else if base = 8 then sz - 1 else sz) else sz);
            tmp = (if num = 0 then [CHR ''0''] else map (\<lambda>d. digits ! d) (digits_of num base));
            i = length tmp in
        if 36 < i then Inl OutOfBounds
        else
          let precision = (if precision < int i then int i else precision);
              sz = sz - precision;
              (lead, sz) = (if has type (ZEROPAD OR LEFT) then ([], sz) else pad_while CHR '' '' sz);
              prefix = (if has type SPECIAL then
                          (if base = 8 then ''0'' else if base = 16 then [CHR ''0'', digits ! 33] else [])
                        else []);
              (fill, sz) = (if has type LEFT then ([], sz)
                            else pad_while (if has type ZEROPAD then CHR ''0'' else CHR '' '') sz);
              zeros = replicate (nat (precision - int i)) CHR ''0'';
              (trail, _) = pad_while CHR '' '' sz in
          Inr (Some (lead @ sign @ prefix @ fill @ zeros @ rev tmp @ trail)))"

subsection \<open>The conversion loop\<close>

datatype varg = VInt u64 | VStr "string option" | VRef nat

record vs_state =
  vs_out :: string
  vs_args :: "varg list"
  vs_stores :: "(nat \<times> int) list"

definition arg_int :: "varg list \<Rightarrow> (u64 \<times> varg list) outcome" where
  "arg_int as = (case as of VInt x # r \<Rightarrow> Inr (x, r) | _ \<Rightarrow> Inl OutOfBounds)"

definition arg_str :: "varg list \<Rightarrow> (string option \<times> varg list) outcome" where
  "arg_str as = (case as of VStr x # r \<Rightarrow> Inr (x, r) | _ \<Rightarrow> Inl OutOfBounds)"

definition arg_ref :: "varg list \<Rightarrow> (nat \<times> varg list) outcome" where
  "arg_ref as = (case as of VRef x # r \<Rightarrow> Inr (x, r) | _ \<Rightarrow> Inl OutOfBounds)"

definition get_qualified_integer :: "varg list \<Rightarrow> char option \<Rightarrow> (u64 \<times> varg list) outcome" where
  "get_qualified_integer as qualifier =
     rbind (arg_int as) (\<lambda>(x, as).
     Inr (if qualifier = None \<or> qualifier = Some CHR ''h'' then scast (ucast x :: u32) else x, as))"

fun parse_flags :: "u32 \<Rightarrow> string \<Rightarrow> u32 \<times> string" where
  "parse_flags flags (c # fmt) =
     (if c = CHR ''-'' then parse_flags (flags OR LEFT) fmt
      else if c = CHR ''+'' then parse_flags (flags OR PLUS) fmt
      else if c = CHR '' '' then parse_flags (flags OR SPACE) fmt
      else if c = CHR ''#'' then parse_flags (flags OR SPECIAL) fmt
      else if c = CHR ''0'' then parse_flags (flags OR ZEROPAD) fmt
      else (flags, c # fmt))"
| "parse_flags flags [] = (flags, [])"

definition int_arg :: "u64 \<Rightarrow> int" where
  "int_arg x = sint (ucast x :: u32)"

definition parse_width :: "u32 \<Rightarrow> string \<Rightarrow> varg list \<Rightarrow> (int \<times> u32 \<times> string \<times> varg list) outcome" where
  "parse_width flags fmt as =
     (case fmt of
        c # _ \<Rightarrow>
          if is_digit c then (case skip_atoi fmt of (w, fmt) \<Rightarrow> Inr (w, flags, fmt, as))
          else if c = CHR ''*'' then
            rbind (arg_int as) (\<lambda>(x, as).
            let field_width = int_arg x in
            if field_width < 0 then Inr (- field_width, flags OR LEFT, fmt, as)
            else Inr (field_width, flags, fmt, as))
          else Inr (-1, flags, fmt, as)
      | [] \<Rightarrow> Inr (-1, flags, fmt, as))"

definition parse_precision :: "string \<Rightarrow> varg list \<Rightarrow> (int \<times> string \<times> varg list) outcome" where
  "parse_precision fmt as =
     (case fmt of
        CHR ''.'' # fmt \<Rightarrow>
          (case fmt of
             c # _ \<Rightarrow>
               if is_digit c then
                 (case skip_atoi fmt of (p, fmt) \<Rightarrow> Inr (if p < 0 then 0 else p, fmt, as))
               else if c = CHR ''*'' then
                 rbind (arg_int as) (\<lambda>(x, as).
                 Inr (if int_arg x < 0 then 0 else int_arg x, fmt, as))
               else Inr (0, fmt, as)
           | [] \<Rightarrow> Inr (0, fmt, as))
      | _ \<Rightarrow> Inr (-1, fmt, as))"

definition parse_qualifier :: "string \<Rightarrow> char option \<times> string" where
  "parse_qualifier fmt =
     (case fmt of
        c # r \<Rightarrow> if c = CHR ''h'' \<or> c = CHR ''l'' \<or> c = CHR ''L'' then (Some c, r) else (None, fmt)
      | [] \<Rightarrow> (None, fmt))"

definition conv_number ::
  "vs_state \<Rightarrow> u64 \<Rightarrow> varg list \<Rightarrow> u64 \<Rightarrow> int \<Rightarrow> int \<Rightarrow> u32 \<Rightarrow> vs_state outcome" where
  "conv_number st x as base w p flags =
     rbind (number x base w p flags) (\<lambda>r.
     case r of None \<Rightarrow> Inl NullDeref
     | Some s \<Rightarrow> Inr (st\<lparr>vs_out := vs_out st @ s, vs_args := as\<rparr>))"

definition conv_char :: "vs_state \<Rightarrow> int \<Rightarrow> u32 \<Rightarrow> vs_state outcome" where
  "conv_char st w flags =
     rbind (arg_int (vs_args st)) (\<lambda>(x, as).
     let (lead, w) = (if has flags LEFT then ([], w)
                      else (replicate (nat (w - 1)) CHR '' '', if 1 < w then 0 else w - 1));
         trail = replicate (nat (w - 1)) CHR '' '' in
     Inr (st\<lparr>vs_out := vs_out st @ lead @ [char_of (unat (ucast x :: u8))] @ trail, vs_args := as\<rparr>))"

definition conv_string :: "vs_state \<Rightarrow> int \<Rightarrow> int \<Rightarrow> u32 \<Rightarrow> vs_state outcome" where
  "conv_string st w p flags =
     rbind (arg_str (vs_args st)) (\<lambda>(s, as).
     let s = (case s of None \<Rightarrow> ''<NULL>'' | Some s \<Rightarrow> s);
         len = int (length s);
         len = (if p < 0 then len else if p < len then p else len);
         (lead, w) = (if has flags LEFT then ([], w)
                      else (replicate (nat (w - len)) CHR '' '', if len < w then len - 1 else w - 1));
         trail = replicate (nat (w - len)) CHR '' '' in
     Inr (st\<lparr>vs_out := vs_out st @ lead @ take (nat len) s @ trail, vs_args := as\<rparr>))"

definition convert ::
  "vs_state \<Rightarrow> char \<Rightarrow> u32 \<Rightarrow> int \<Rightarrow> int \<Rightarrow> char option \<Rightarrow> vs_state outcome" where
  "convert st c flags w p qualifier =
     (if c = CHR ''c'' then conv_char st w flags
      else if c = CHR ''s'' then conv_string st w p flags
      else if c = CHR ''o'' then
        rbind (get_qualified_integer (vs_args st) qualifier) (\<lambda>(x, as). conv_number st x as 8 w p flags)
      else if c = CHR ''p'' then
        rbind (arg_int (vs_args st)) (\<lambda>(x, as).
        if w = -1 then conv_number st x as 16 16 p (flags OR ZEROPAD)
        else conv_number st x as 16 w p flags)
      else if c = CHR ''x'' then
        rbind (get_qualified_integer (vs_args st) qualifier) (\<lambda>(x, as).
        conv_number st x as 16 w p (flags OR SMALL))
      else if c = CHR ''X'' then
        rbind (get_qualified_integer (vs_args st) qualifier) (\<lambda>(x, as). conv_number st x as 16 w p flags)
      else if c = CHR ''d'' \<or> c = CHR ''i'' then
        rbind (get_qualified_integer (vs_args st) qualifier) (\<lambda>(x, as).
        conv_number st x as 10 w p (flags OR SIGN))
      else if c = CHR ''u'' then
        rbind (get_qualified_integer (vs_args st) qualifier) (\<lambda>(x, as). conv_number st x as 10 w p flags)
      else if c = CHR ''n'' then
        rbind (arg_ref (vs_args st)) (\<lambda>(r, as).
        Inr (st\<lparr>vs_args := as, vs_stores := vs_stores st @ [(r, int (length (vs_out st)))]\<rparr>))
      else Inr (st\<lparr>vs_out := vs_out st @ (if c \<noteq> CHR ''%'' then [CHR ''%'', c] else [c])\<rparr>))"

record fmt_spec =
  fs_flags :: u32
  fs_width :: int
  fs_precision :: int
  fs_qualifier :: "char option"

definition parse_spec :: "string \<Rightarrow> varg list \<Rightarrow> (fmt_spec \<times> string \<times> varg list) outcome" where
  "parse_spec fmt as =
     (case parse_flags 0 fmt of (flags, fmt) \<Rightarrow>
      rbind (parse_width flags fmt as) (\<lambda>(field_width, flags, fmt, as).
      rbind (parse_precision fmt as) (\<lambda>(precision, fmt, as).
      case parse_qualifier fmt of (qualifier, fmt) \<Rightarrow>
      Inr (\<lparr>fs_flags = flags, fs_width = field_width, fs_precision = precision,
             fs_qualifier = qualifier\<rparr>, fmt, as))))"

lemma parse_flags_length: "length (snd (parse_flags fl fmt)) \<le> length fmt"
  by (induction fl fmt rule: parse_flags.induct) auto

lemma skip_atoi_loop_length: "length (snd (skip_atoi_loop i s)) \<le> length s"
  by (induction i s rule: skip_atoi_loop.induct) auto

lemma parse_width_length:
  "parse_width fl fmt as = Inr (w, fl', fmt', as') \<Longrightarrow> length fmt' \<le> length fmt"
  using skip_atoi_loop_length [of 0 fmt]
  by (auto simp: parse_width_def skip_atoi_def outcome Let_def split: list.splits if_splits prod.splits)

lemma parse_precision_length:
  "parse_precision fmt as = Inr (p, fmt', as') \<Longrightarrow> length fmt' \<le> length fmt"
  using skip_atoi_loop_length [of 0 "tl fmt"]
  by (auto simp: parse_precision_def skip_atoi_def outcome
      split: list.splits if_splits prod.splits char.splits bool.splits)

lemma parse_qualifier_length: "length (snd (parse_qualifier fmt)) \<le> length fmt"
  by (auto simp: parse_qualifier_def split: list.splits)

lemma parse_spec_length:
  assumes "parse_spec fmt as = Inr (fs, fmt', as')"
  shows "length fmt' \<le> length fmt"
proof -
  obtain fl f1 where 1: "parse_flags 0 fmt = (fl, f1)" by fastforce
  obtain w fl2 f2 as2 where 2: "parse_width fl f1 as = Inr (w, fl2, f2, as2)"
    using assms 1 by (auto simp: parse_spec_def outcome)
  obtain p f3 as3 where 3: "parse_precision f2 as2 = Inr (p, f3, as3)"
    using assms 1 2 by (auto simp: parse_spec_def outcome)
  have "fmt' = snd (parse_qualifier f3)"
    using assms 1 2 3 by (auto simp: parse_spec_def split: prod.splits)
  then show ?thesis
    using parse_flags_length [of 0 fmt] parse_width_length [OF 2] parse_precision_length [OF 3]
      parse_qualifier_length [of f3] 1 by simp
qed

function vsprintf_loop :: "string \<Rightarrow> vs_state \<Rightarrow> vs_state outcome" where
  "vsprintf_loop fmt st =
     (case fmt of
        [] \<Rightarrow> Inr st
      | c # fmt \<Rightarrow>
          if c \<noteq> CHR ''%'' then vsprintf_loop fmt (st\<lparr>vs_out := vs_out st @ [c]\<rparr>)
          else
            (case parse_spec fmt (vs_args st) of
               Inl e \<Rightarrow> Inl e
             | Inr (fs, fmt', as) \<Rightarrow>
                 (case fmt' of
                    [] \<Rightarrow> Inr (st\<lparr>vs_args := as, vs_out := vs_out st @ ''%''\<rparr>)
                  | d # fmt'' \<Rightarrow>
                      rbind (convert (st\<lparr>vs_args := as\<rparr>) d (fs_flags fs) (fs_width fs)
                               (fs_precision fs) (fs_qualifier fs)) (vsprintf_loop fmt''))))"
  by pat_completeness auto
termination
proof (relation "measure (\<lambda>(fmt, _). length fmt)", goal_cases)
  case (3 fmt st c f v fs y fmt' as d f'')
  then show ?case using parse_spec_length [of f "vs_args st" fs fmt' as] by auto
qed auto

declare vsprintf_loop.simps [simp del]

definition vsprintf :: "string \<Rightarrow> varg list \<Rightarrow> (int \<times> string \<times> (nat \<times> int) list) outcome" where
  "vsprintf fmt as =
     rbind (vsprintf_loop fmt \<lparr>vs_out = [], vs_args = as, vs_stores = []\<rparr>) (\<lambda>st.
     Inr (int (length (vs_out st)), vs_out st, vs_stores st))"

text \<open>
  \<^verbatim>\<open>printf\<close> formats into a 1024-byte stack buffer and hands the string to the console; the result
  is the returned length and the string printed.
\<close>

definition printf :: "string \<Rightarrow> varg list \<Rightarrow> (int \<times> string) outcome" where
  "printf fmt as =
     rbind (vsprintf fmt as) (\<lambda>(i, out, _).
     if 1024 < length out + 1 then Inl OutOfBounds
     else Inr (i, takeWhile (\<lambda>c. c \<noteq> CHR 0x00) out))"

subsection \<open>Digits\<close>

primrec dval :: "nat \<Rightarrow> nat list \<Rightarrow> nat" where
  "dval b [] = 0"
| "dval b (d # ds) = d + b * dval b ds"

lemma digits_of_0 [simp]: "digits_of 0 b = []"
  by (subst digits_of.simps) simp

lemma digits_of_step:
  "num \<noteq> 0 \<Longrightarrow> 2 \<le> b \<Longrightarrow> digits_of num b = unat (num mod b) # digits_of (num div b) b"
  by (subst digits_of.simps) (simp add: not_less)

lemma dval_digits_of: "2 \<le> b \<Longrightarrow> dval (unat b) (digits_of num b) = unat num"
proof (induction num b rule: digits_of.induct)
  case (1 num b)
  show ?case
  proof (cases "num = 0")
    case False
    with "1" show ?thesis by (simp add: digits_of_step not_less unat_mod unat_div)
  qed simp
qed

lemma digits_of_less: "2 \<le> b \<Longrightarrow> d \<in> set (digits_of num b) \<Longrightarrow> d < unat b"
proof (induction num b rule: digits_of.induct)
  case (1 num b)
  then have "num \<noteq> 0" by auto
  moreover have "0 < unat b" using "1.prems" by (simp add: unat_le_iff)
  ultimately show ?case using "1" by (auto simp: digits_of_step not_less unat_mod)
qed

lemma digits_of_last: "2 \<le> b \<Longrightarrow> num \<noteq> 0 \<Longrightarrow> last (digits_of num b) \<noteq> 0"
proof (induction num b rule: digits_of.induct)
  case (1 num b)
  show ?case
  proof (cases "num div b = 0")
    case True
    then have "unat num div unat b = 0" by (metis unat_0 unat_div)
    then have "unat num < unat b" using "1.prems" by (auto simp: div_eq_0_iff unat_le_iff)
    then have "unat (num mod b) = unat num" by (simp add: unat_mod)
    with "1.prems" True show ?thesis by (simp add: digits_of_step unat_gt_0)
  next
    case False
    moreover from this have "digits_of (num div b) b \<noteq> []" using "1.prems" by (simp add: digits_of_step)
    ultimately show ?thesis using "1" by (simp add: digits_of_step not_less)
  qed
qed

lemma dval_lower: "ds \<noteq> [] \<Longrightarrow> last ds \<noteq> 0 \<Longrightarrow> b ^ (length ds - 1) \<le> dval b ds"
proof (induction ds)
  case (Cons d ds)
  show ?case
  proof (cases ds)
    case Nil
    with Cons.prems show ?thesis by simp
  next
    case (Cons d' ds')
    with Cons.IH Cons.prems have "b ^ (length ds - 1) \<le> dval b ds" by simp
    then have "b * b ^ (length ds - 1) \<le> b * dval b ds" by (rule mult_le_mono2)
    moreover have "b ^ (length (d # ds) - 1) = b * b ^ (length ds - 1)" using \<open>ds = d' # ds'\<close> by simp
    ultimately have "b ^ (length (d # ds) - 1) \<le> b * dval b ds" by metis
    then show ?thesis by (rule order_trans) simp
  qed
qed simp

lemma digits_of_length:
  assumes "8 \<le> b"
  shows "length (digits_of num b) \<le> 22"
proof (rule ccontr)
  let ?ds = "digits_of num b"
  assume long: "\<not> length ?ds \<le> 22"
  have b2: "2 \<le> b" and b8: "8 \<le> unat b" using assms by (auto simp: unat_le_iff)
  have ne: "?ds \<noteq> []" using long by auto
  then have "num \<noteq> 0" by auto
  then have "unat b ^ (length ?ds - 1) \<le> dval (unat b) ?ds"
    using dval_lower [OF ne] digits_of_last [OF b2] by blast
  then have le: "unat b ^ (length ?ds - 1) \<le> unat num" by (simp add: dval_digits_of [OF b2])
  have "(8::nat) ^ 22 \<le> unat b ^ 22" using b8 by (intro power_mono) auto
  also have "\<dots> \<le> unat b ^ (length ?ds - 1)" using long b8 by (intro power_increasing) auto
  also note le
  also have "unat num < 2 ^ 64" using unsigned_less [of num, where 'a = nat] by simp
  finally show False by simp
qed

lemma skip_atoi_digits:
  assumes "\<forall>d\<in>set ds. d < 10" and "r = [] \<or> \<not> is_digit (hd r)"
  shows "skip_atoi_loop i (map (\<lambda>d. upper_digits ! d) ds @ r) = (foldl (\<lambda>a d. a * 10 + int d) i ds, r)"
  using assms(1)
proof (induction ds arbitrary: i)
  case Nil
  then show ?case using assms(2) by (cases r) auto
next
  case (Cons d ds)
  have "d \<in> {0, 1, 2, 3, 4, 5, 6, 7, 8, 9}" using Cons.prems by auto
  then have "is_digit (upper_digits ! d)"
    and "(of_char (upper_digits ! d) :: int) = int d + 48"
    by (auto simp: upper_digits_def is_digit_def)
  with Cons show ?case by (simp add: algebra_simps)
qed

lemma foldl_dval: "foldl (\<lambda>a d. a * 10 + int d) 0 (rev ds) = int (dval 10 ds)"
  by (induction ds) (auto simp: algebra_simps)

subsection \<open>The output of number\<close>

definition sign_of :: "u64 \<Rightarrow> u32 \<Rightarrow> string" where
  "sign_of num type =
     (if has type SIGN \<and> sint num < 0 then ''-''
      else if has type PLUS then ''+'' else if has type SPACE then '' '' else [])"

definition magnitude :: "u64 \<Rightarrow> u32 \<Rightarrow> u64" where
  "magnitude num type = (if has type SIGN \<and> sint num < 0 then - num else num)"

definition prefix_of :: "u64 \<Rightarrow> u32 \<Rightarrow> string" where
  "prefix_of base type =
     (if has type SPECIAL then
        (if base = 8 then ''0''
         else if base = 16 then [CHR ''0'', (if has type SMALL then lower_digits else upper_digits) ! 33] else [])
      else [])"

definition digit_string :: "u64 \<Rightarrow> u64 \<Rightarrow> u32 \<Rightarrow> string" where
  "digit_string num base type =
     (if num = 0 then ''0''
      else rev (map (\<lambda>d. (if has type SMALL then lower_digits else upper_digits) ! d) (digits_of num base)))"

lemma has_not_ZEROPAD: "f \<in> {SIGN, PLUS, SPACE, LEFT, SPECIAL, SMALL} \<Longrightarrow> has (t AND NOT ZEROPAD) f = has t f"
proof -
  assume "f \<in> {SIGN, PLUS, SPACE, LEFT, SPECIAL, SMALL}"
  then have "NOT ZEROPAD AND f = f" by (auto simp: flag_defs)
  then show ?thesis by (simp add: has_def and.assoc)
qed

lemma has_or: "has t (a OR b) \<longleftrightarrow> has t a \<or> has t b"
  by (simp add: has_def bit.conj_disj_distrib or_eq_0_iff)

lemma has_ZEROPAD_cleared: "\<not> has (t AND NOT ZEROPAD) ZEROPAD"
  by (simp add: has_def and.assoc)

lemma pad_while_spent: "n < 0 \<Longrightarrow> fst (pad_while c n) = []"
  by (simp add: pad_while_def)

lemma digit_string_length: "8 \<le> base \<Longrightarrow> length (digit_string num base type) \<le> 22"
  using digits_of_length [of base num] by (simp add: digit_string_def)

lemma digit_string_rev:
  "rev (if n = 0 then [CHR ''0'']
        else map (\<lambda>d. (if has type SMALL then lower_digits else upper_digits) ! d) (digits_of n base))
     = digit_string n base type"
  by (simp add: digit_string_def)

definition pad_size :: "u64 \<Rightarrow> u64 \<Rightarrow> int \<Rightarrow> int \<Rightarrow> u32 \<Rightarrow> int" where
  "pad_size num base w p type =
     w - int (length (sign_of num type)) - int (length (prefix_of base type))
       - max p (int (length (digit_string (magnitude num type) base type)))"

lemma number_eq:
  assumes "base = 8 \<or> base = 10 \<or> base = 16"
  shows "number num base w p type = Inr (Some (
     (if has type LEFT \<or> has type ZEROPAD then [] else replicate (nat (pad_size num base w p type)) CHR '' '')
     @ sign_of num type @ prefix_of base type
     @ (if \<not> has type LEFT \<and> has type ZEROPAD then replicate (nat (pad_size num base w p type)) CHR ''0'' else [])
     @ replicate (nat (p - int (length (digit_string (magnitude num type) base type)))) CHR ''0''
     @ digit_string (magnitude num type) base type
     @ (if has type LEFT then replicate (nat (pad_size num base w p type)) CHR '' '' else [])))"
proof -
  let ?ty = "if has type LEFT then type AND NOT ZEROPAD else type"
  let ?ds = "digit_string (magnitude num type) base type"
  define i where "i = length ?ds"
  have ty: "has ?ty SIGN = has type SIGN" "has ?ty PLUS = has type PLUS" "has ?ty SPACE = has type SPACE"
    "has ?ty LEFT = has type LEFT" "has ?ty SPECIAL = has type SPECIAL"
    "has ?ty ZEROPAD = (has type ZEROPAD \<and> \<not> has type LEFT)"
    by (auto simp: has_not_ZEROPAD has_ZEROPAD_cleared)
  have sb: "\<not> (sint base < 2 \<or> 36 < sint base)" using assms by auto
  have sgn: "(if has ?ty SIGN \<and> sint num < 0 then ([CHR ''-''], - num)
       else (if has ?ty PLUS then [CHR ''+''] else if has ?ty SPACE then [CHR '' ''] else [], num))
     = (sign_of num type, magnitude num type)"
    unfolding ty by (simp add: sign_of_def magnitude_def)
  have slen: "(if sign_of num type \<noteq> [] then w - 1 else w) = w - int (length (sign_of num type))"
    by (simp add: sign_of_def)
  have plen: "(if has ?ty SPECIAL then (if base = 16 then z - 2 else if base = 8 then z - 1 else z) else z)
     = z - int (length (prefix_of base type))" for z
    unfolding ty using assms by (auto simp: prefix_of_def)
  have pre: "(if has ?ty SPECIAL then (if base = 8 then ''0'' else if base = 16 then
       [CHR ''0'', (if has type SMALL then lower_digits else upper_digits) ! 33] else []) else []) = prefix_of base type"
    unfolding ty by (simp add: prefix_of_def)
  have tmp: "length (if magnitude num type = 0 then [CHR ''0''] else
       map (\<lambda>d. (if has type SMALL then lower_digits else upper_digits) ! d) (digits_of (magnitude num type) base)) = i"
    unfolding i_def digit_string_rev [symmetric] by simp
  have i36: "\<not> 36 < i" using digit_string_length [of base "magnitude num type" type] assms by (auto simp: i_def)
  have mx: "(if p < int i then int i else p) = max p (int i)" by (simp add: max_def)
  have mi: "nat (max p (int i) - int i) = nat (p - int i)" by (simp add: max_def)
  have ps: "w - int (length (sign_of num type)) - int (length (prefix_of base type)) - max p (int i)
      = pad_size num base w p type" by (simp add: pad_size_def i_def)
  show ?thesis
    unfolding number_def Let_def sgn prod.case tmp slen plen pre mx ps mi digit_string_rev if_not_P [OF sb]
      if_not_P [OF i36]
    using ty by (auto simp: has_or pad_while_def i_def [symmetric])
qed

lemma skip_atoi_digit_string:
  assumes "r = [] \<or> \<not> is_digit (hd r)" and "\<not> has type SMALL"
  shows "skip_atoi (digit_string num 10 type @ r) = (int (unat num), r)"
proof (cases "num = 0")
  case True
  then show ?thesis
    using skip_atoi_digits [of "[0]" r 0] assms
    by (simp add: skip_atoi_def digit_string_def upper_digits_def)
next
  case False
  have "\<forall>d\<in>set (rev (digits_of num 10)). d < 10" using digits_of_less [of 10 _ num] by auto
  from skip_atoi_digits [OF this assms(1), of 0] False assms(2) show ?thesis
    using dval_digits_of [of 10 num]
    by (simp add: skip_atoi_def digit_string_def foldl_dval rev_map)
qed

lemma number_plain:
  "number x 10 (-1) (-1) 0 = Inr (Some (digit_string x 10 0))"
  "number x 10 (-1) (-1) SIGN =
     Inr (Some (if sint x < 0 then CHR ''-'' # digit_string (- x) 10 SIGN else digit_string x 10 SIGN))"
  by (simp_all add: number_eq pad_size_def has_def sign_of_def prefix_of_def magnitude_def flag_defs)

lemma vsprintf_loop_nil: "vsprintf_loop [] st = Inr st"
  by (simp add: vsprintf_loop.simps)

lemma vsprintf_loop_text: "c \<noteq> CHR ''%'' \<Longrightarrow>
    vsprintf_loop (c # fmt) st = vsprintf_loop fmt (st\<lparr>vs_out := vs_out st @ [c]\<rparr>)"
  by (subst vsprintf_loop.simps) simp

lemma vsprintf_loop_spec: "parse_spec fmt (vs_args st) = Inr (fs, d # fmt', as) \<Longrightarrow>
    vsprintf_loop (CHR ''%'' # fmt) st =
      rbind (convert (st\<lparr>vs_args := as\<rparr>) d (fs_flags fs) (fs_width fs) (fs_precision fs) (fs_qualifier fs))
        (vsprintf_loop fmt')"
  by (subst vsprintf_loop.simps) simp

lemmas vsprintf_loop_simps = vsprintf_loop_nil vsprintf_loop_text vsprintf_loop_spec

lemma parse_spec_plain:
  "parse_spec ''d'' as = Inr (\<lparr>fs_flags = 0, fs_width = -1, fs_precision = -1, fs_qualifier = None\<rparr>, ''d'', as)"
  "parse_spec ''u'' as = Inr (\<lparr>fs_flags = 0, fs_width = -1, fs_precision = -1, fs_qualifier = None\<rparr>, ''u'', as)"
  by (simp_all add: parse_spec_def parse_width_def parse_precision_def parse_qualifier_def is_digit_def)

lemma vsprintf_d:
  assumes "number (scast (ucast x :: u32)) 10 (-1) (-1) SIGN = Inr (Some s)"
  shows "vsprintf ''%d'' [VInt x] = Inr (int (length s), s, [])"
  using assms by (simp add: vsprintf_def vsprintf_loop_spec [OF parse_spec_plain(1)] vsprintf_loop_nil
      convert_def get_qualified_integer_def arg_int_def conv_number_def)

lemma vsprintf_u:
  assumes "number (scast (ucast x :: u32)) 10 (-1) (-1) 0 = Inr (Some s)"
  shows "vsprintf ''%u'' [VInt x] = Inr (int (length s), s, [])"
  using assms by (simp add: vsprintf_def vsprintf_loop_spec [OF parse_spec_plain(2)] vsprintf_loop_nil
      convert_def get_qualified_integer_def arg_int_def conv_number_def)

lemma digit_string_no_small: "\<not> has SIGN SMALL" "\<not> has 0 SMALL"
  by (simp_all add: has_def flag_defs)

subsection \<open>Sign extension\<close>

lemma mod_window:
  fixes k m :: int
  assumes "- m \<le> k" and "k < m" and "0 < m"
  shows "k mod m = (if k < 0 then k + m else k)"
proof (cases "k < 0")
  case True
  have "k mod m = (k + m) mod m" by simp
  also have "\<dots> = k + m" using assms True by (intro mod_pos_pos_trivial) auto
  finally show ?thesis using True by simp
qed (use assms in auto)

lemma sint_u32_range: "sint (v :: u32) < 2 ^ 31" "- (2 ^ 31) \<le> sint v"
  using sint_lt [of v] sint_ge [of v] by simp_all

lemma uint_sint_u32: "uint (v :: u32) = (if sint v < 0 then sint v + 2 ^ 32 else sint v)"
proof -
  have "uint v = uint (word_of_int (sint v) :: u32)" by simp
  also have "\<dots> = sint v mod 2 ^ 32" by (simp only: uint_word_of_int) simp
  also have "\<dots> = (if sint v < 0 then sint v + 2 ^ 32 else sint v)"
    using sint_u32_range [of v] by (intro mod_window) auto
  finally show ?thesis .
qed

lemma uint_sext: "uint (scast (v :: u32) :: u64) = (if sint v < 0 then sint v + 2 ^ 64 else sint v)"
proof -
  have "uint (scast v :: u64) = sint v mod 2 ^ 64" by (simp only: scast_eq uint_word_of_int) simp
  also have "\<dots> = (if sint v < 0 then sint v + 2 ^ 64 else sint v)"
    using sint_u32_range [of v] by (intro mod_window) auto
  finally show ?thesis .
qed

lemma sint_sext: "sint (scast (v :: u32) :: u64) = sint v"
  by (rule sint_up_scast) (simp add: is_up)

lemma uint_neg_sext: "sint v < 0 \<Longrightarrow> uint (- scast (v :: u32) :: u64) = - sint v"
proof -
  assume n: "sint v < 0"
  have "uint (- scast v :: u64) = (- uint (scast v :: u64)) mod 2 ^ 64"
    by (simp only: uint_word_ariths) simp
  also have "- uint (scast v :: u64) = - sint v - 2 ^ 64" using n by (simp add: uint_sext)
  also have "(- sint v - 2 ^ 64) mod 2 ^ 64 = - sint v"
    using n sint_u32_range [of v] by (subst mod_window) auto
  finally show ?thesis .
qed

section \<open>Properties\<close>




text \<open>
  \<^verbatim>\<open>%u\<close> on a 32-bit argument prints the argument sign-extended to 64 bits: from \<open>2 ^ 31\<close> on,
  what is printed reads back as the value plus \<open>2 ^ 64 - 2 ^ 32\<close>, not as the unsigned value.
\<close>

theorem vsprintf_unsigned_sign_extends:
  "\<exists>s. vsprintf ''%u'' [VInt x] = Inr (int (length s), s, []) \<and>
     skip_atoi s =
       (let v = ucast x :: u32 in
        if uint v < 2 ^ 31 then uint v else uint v + 2 ^ 64 - 2 ^ 32, [])"
proof -
  let ?v = "ucast x :: u32"
  let ?y = "scast ?v :: u64"
  have "vsprintf ''%u'' [VInt x] = Inr (int (length (digit_string ?y 10 0)), digit_string ?y 10 0, [])"
    by (rule vsprintf_u) (simp add: number_plain)
  moreover have "skip_atoi (digit_string ?y 10 0) = (uint ?y, [])"
    using skip_atoi_digit_string [of "[]" 0 ?y] by (simp add: digit_string_no_small)
  moreover have "uint ?y = (if uint ?v < 2 ^ 31 then uint ?v else uint ?v + 2 ^ 64 - 2 ^ 32)"
    unfolding uint_sext uint_sint_u32 using sint_u32_range [of ?v] by auto
  ultimately show ?thesis by (intro exI [of _ "digit_string ?y 10 0"]) (simp only: Let_def)
qed

text \<open>
  Text without a percent sign is copied unchanged, whatever the arguments, and the result is
  its length.
\<close>

theorem vsprintf_literal:
  assumes "CHR ''%'' \<notin> set fmt"
  shows "vsprintf fmt as = Inr (int (length fmt), fmt, [])"
proof -
  have "vsprintf_loop fmt st = Inr (st\<lparr>vs_out := vs_out st @ fmt\<rparr>)" for st
    using assms by (induction fmt arbitrary: st) (auto simp: vsprintf_loop_simps)
  then show ?thesis by (simp add: vsprintf_def)
qed

theorem vsprintf_literal_witness: "vsprintf ''back!'' [] = Inr (5, ''back!'', [])"
proof -
  have "CHR ''%'' \<notin> set ''back!''" by simp
  from vsprintf_literal [OF this] show ?thesis by simp
qed

text \<open>
  A width or precision given as \<^verbatim>\<open>*\<close> takes its argument but leaves the star in the format, so
  the conversion is not performed: \<^verbatim>\<open>%*d\<close> with width 5 prints the three characters \<^verbatim>\<open>%*d\<close>.
\<close>

theorem vsprintf_star_not_converted:
  "vsprintf ''%*d'' [VInt 5, VInt 42] = Inr (3, ''%*d'', [])"
proof -
  have "parse_spec ''*d'' [VInt 5, VInt 42] =
      Inr (\<lparr>fs_flags = 0, fs_width = 5, fs_precision = -1, fs_qualifier = None\<rparr>, ''*d'', [VInt 42])"
    by (simp add: parse_spec_def parse_width_def parse_precision_def parse_qualifier_def is_digit_def
        arg_int_def int_arg_def)
  then show ?thesis by (simp add: vsprintf_def vsprintf_loop_simps convert_def)
qed

end
