(* ===== verification/Spinlock.thy ===== *)
theory Spinlock
  imports Prelude
begin

text \<open>
  The spinlock of \<^verbatim>\<open>spinlock.h\<close> and the processor primitives of \<^verbatim>\<open>x86.h\<close> it is built from:
  \<^verbatim>\<open>compare_and_swap_32\<close>, \<^verbatim>\<open>fetch_and_add_32\<close>, \<^verbatim>\<open>cpu_splhi\<close> and \<^verbatim>\<open>cpu_splx\<close>.

  The first part is what one processor sees: a lock word is a \<^typ>\<open>u32\<close>, and waiting for a lock that
  nobody else can release is \<open>Spin\<close>. The second part is the interleaving of several processors
  over one lock word, as a step relation whose atomic actions are the locked instructions.
\<close>

subsection \<open>Processor primitives\<close>

definition RFLAGS_TF :: u64 where "RFLAGS_TF = push_bit 8 1"
definition RFLAGS_IF :: u64 where "RFLAGS_IF = push_bit 9 1"

text \<open>The result is the value read and the new contents of the memory word.\<close>

definition compare_and_swap_32 :: "u32 \<Rightarrow> u32 \<Rightarrow> u32 \<Rightarrow> u32 \<times> u32" where
  "compare_and_swap_32 mem old_val new_val = (mem, if mem = old_val then new_val else mem)"

definition fetch_and_add_32 :: "u32 \<Rightarrow> u32 \<Rightarrow> u32 \<times> u32" where
  "fetch_and_add_32 mem v = (mem, mem + v)"

definition cpu_disable_interrupts :: "u64 \<Rightarrow> u64" where
  "cpu_disable_interrupts rflags = rflags AND NOT RFLAGS_IF"

definition cpu_enable_interrupts :: "u64 \<Rightarrow> u64" where
  "cpu_enable_interrupts rflags = rflags OR RFLAGS_IF"

definition cpu_splhi :: "u64 \<Rightarrow> u32 \<times> u64" where
  "cpu_splhi rflags = (ucast (rflags AND RFLAGS_IF), cpu_disable_interrupts rflags)"

definition cpu_splx :: "u32 \<Rightarrow> u64 \<Rightarrow> u64" where
  "cpu_splx s rflags = (if s \<noteq> 0 then cpu_enable_interrupts rflags else rflags)"

subsection \<open>The lock, seen by one processor\<close>

definition spinlock_init :: "u32 \<Rightarrow> u32" where
  "spinlock_init lock = 0"

definition spinlock_lock :: "u32 \<Rightarrow> u32 outcome" where
  "spinlock_lock lock =
     (case compare_and_swap_32 lock 0 1 of (prev, lock') \<Rightarrow>
      if prev \<noteq> 0 then Inl Spin else Inr lock')"

definition spinlock_unlock :: "u32 \<Rightarrow> u32" where
  "spinlock_unlock lock = snd (compare_and_swap_32 lock 1 0)"

definition spinlock_lock_splhi :: "u32 \<Rightarrow> u64 \<Rightarrow> (u32 \<times> u32 \<times> u64) outcome" where
  "spinlock_lock_splhi lock rflags =
     (case cpu_splhi rflags of (s, rflags) \<Rightarrow>
      rbind (spinlock_lock lock) (\<lambda>lock. Inr (s, lock, rflags)))"

definition spinlock_unlock_splx :: "u32 \<Rightarrow> u32 \<Rightarrow> u64 \<Rightarrow> u32 \<times> u64" where
  "spinlock_unlock_splx lock s rflags = (spinlock_unlock lock, cpu_splx s rflags)"

lemma spinlock_lock_free [simp]: "spinlock_lock 0 = Inr 1"
  by (simp add: spinlock_lock_def compare_and_swap_32_def)

lemma spinlock_lock_Inr_iff [outcome]: "spinlock_lock l = Inr l' \<longleftrightarrow> l = 0 \<and> l' = 1"
  by (auto simp: spinlock_lock_def compare_and_swap_32_def)

lemma spinlock_lock_held: "l \<noteq> 0 \<Longrightarrow> spinlock_lock l = Inl Spin"
  by (simp add: spinlock_lock_def compare_and_swap_32_def)

lemma spinlock_unlock_simps [simp]: "spinlock_unlock 1 = 0" "spinlock_unlock 0 = 0"
  by (simp_all add: spinlock_unlock_def compare_and_swap_32_def)

lemma bit_RFLAGS_IF: "bit RFLAGS_IF n \<longleftrightarrow> n = 9"
  by (cases "n = 9") (auto simp: RFLAGS_IF_def bit_push_bit_iff bit_1_iff
      simp del: push_bit_of_1 push_bit_numeral)

lemma splhi_mask: "snd (cpu_splhi rflags) AND RFLAGS_IF = 0"
  by (rule bit_word_eqI) (auto simp: cpu_splhi_def cpu_disable_interrupts_def bit_simps bit_RFLAGS_IF)

lemma splhi_saved: "fst (cpu_splhi rflags) \<noteq> 0 \<longleftrightarrow> bit rflags 9"
proof -
  have "bit (fst (cpu_splhi rflags)) n \<longleftrightarrow> n = 9 \<and> bit rflags 9" for n
    by (auto simp: cpu_splhi_def bit_simps bit_RFLAGS_IF)
  then show ?thesis by (metis bit_0_eq bot_apply bot_bool_def bit_word_eqI)
qed

lemma splx_splhi: "cpu_splx (fst (cpu_splhi rflags)) (snd (cpu_splhi rflags)) = rflags"
proof (cases "bit rflags 9")
  case True
  then have "fst (cpu_splhi rflags) \<noteq> 0" by (simp add: splhi_saved)
  with True show ?thesis
    by (auto intro!: bit_word_eqI simp: cpu_splx_def cpu_splhi_def cpu_enable_interrupts_def
        cpu_disable_interrupts_def bit_simps bit_RFLAGS_IF)
next
  case False
  then have "fst (cpu_splhi rflags) = 0" using splhi_saved by blast
  with False show ?thesis
    by (auto intro!: bit_word_eqI simp: cpu_splx_def cpu_splhi_def
        cpu_disable_interrupts_def bit_simps bit_RFLAGS_IF)
qed

subsection \<open>Several processors\<close>

text \<open>
  Every processor runs \<^verbatim>\<open>s = spinlock_lock_splhi(&lock); ...; spinlock_unlock_splx(&lock, s)\<close> over
  and over. Its position in that code is a \<open>lock_pc\<close> (with the saved \<^verbatim>\<open>s\<close>); a step of the system
  is one atomic action of one processor.
\<close>

datatype lock_pc = Outside | Waiting u32 | Inside u32 | Leaving u32

record smp =
  smp_lock :: u32
  smp_rflags :: "nat \<Rightarrow> u64"
  smp_pc :: "nat \<Rightarrow> lock_pc"

inductive smp_step :: "smp \<Rightarrow> smp \<Rightarrow> bool" where
  mask: "smp_pc st c = Outside \<Longrightarrow> cpu_splhi (smp_rflags st c) = (s, rf) \<Longrightarrow>
    smp_step st (st\<lparr>smp_rflags := (smp_rflags st)(c := rf), smp_pc := (smp_pc st)(c := Waiting s)\<rparr>)"
| spin: "smp_pc st c = Waiting s \<Longrightarrow> compare_and_swap_32 (smp_lock st) 0 1 = (prev, l) \<Longrightarrow> prev \<noteq> 0 \<Longrightarrow>
    smp_step st (st\<lparr>smp_lock := l\<rparr>)"
| enter: "smp_pc st c = Waiting s \<Longrightarrow> compare_and_swap_32 (smp_lock st) 0 1 = (prev, l) \<Longrightarrow> prev = 0 \<Longrightarrow>
    smp_step st (st\<lparr>smp_lock := l, smp_pc := (smp_pc st)(c := Inside s)\<rparr>)"
| unlock: "smp_pc st c = Inside s \<Longrightarrow>
    smp_step st (st\<lparr>smp_lock := spinlock_unlock (smp_lock st), smp_pc := (smp_pc st)(c := Leaving s)\<rparr>)"
| restore: "smp_pc st c = Leaving s \<Longrightarrow>
    smp_step st (st\<lparr>smp_rflags := (smp_rflags st)(c := cpu_splx s (smp_rflags st c)),
                     smp_pc := (smp_pc st)(c := Outside)\<rparr>)"

inductive_cases smp_stepE: "smp_step st st'"

definition smp_init :: "(nat \<Rightarrow> u64) \<Rightarrow> smp" where
  "smp_init rf = \<lparr>smp_lock = spinlock_init 0, smp_rflags = rf, smp_pc = (\<lambda>_. Outside)\<rparr>"

primrec saved_flags :: "lock_pc \<Rightarrow> u32 option" where
  "saved_flags Outside = None"
| "saved_flags (Waiting s) = Some s"
| "saved_flags (Inside s) = Some s"
| "saved_flags (Leaving s) = Some s"

definition inside :: "lock_pc \<Rightarrow> bool" where
  "inside pc \<longleftrightarrow> (case pc of Inside _ \<Rightarrow> True | _ \<Rightarrow> False)"

lemma inside_simps [simp]:
  "\<not> inside Outside" "\<not> inside (Waiting s)" "inside (Inside s)" "\<not> inside (Leaving s)"
  by (simp_all add: inside_def)

text \<open>
  The invariant: the lock word is 1 exactly when some processor is inside, at most one is, and a
  processor past \<^verbatim>\<open>cpu_splhi\<close> holds in \<^verbatim>\<open>s\<close> and its masked flags what it needs to restore the
  flags it started with.
\<close>

definition lock_inv :: "u32 \<Rightarrow> (nat \<Rightarrow> lock_pc) \<Rightarrow> bool" where
  "lock_inv l pc \<longleftrightarrow>
     (l = 0 \<and> (\<forall>c. \<not> inside (pc c))) \<or> (l = 1 \<and> (\<exists>!c. inside (pc c)))"

definition flags_inv :: "u64 \<Rightarrow> u64 \<Rightarrow> lock_pc \<Rightarrow> bool" where
  "flags_inv rf0 rf pc \<longleftrightarrow>
     (case saved_flags pc of None \<Rightarrow> rf = rf0 | Some s \<Rightarrow> cpu_splhi rf0 = (s, rf))"

definition smp_inv :: "(nat \<Rightarrow> u64) \<Rightarrow> smp \<Rightarrow> bool" where
  "smp_inv rf st \<longleftrightarrow> lock_inv (smp_lock st) (smp_pc st) \<and>
     (\<forall>c. flags_inv (rf c) (smp_rflags st c) (smp_pc st c))"

lemma flags_inv_simps [simp]:
  "flags_inv rf0 rf Outside \<longleftrightarrow> rf = rf0"
  "flags_inv rf0 rf (Waiting s) \<longleftrightarrow> cpu_splhi rf0 = (s, rf)"
  "flags_inv rf0 rf (Inside s) \<longleftrightarrow> cpu_splhi rf0 = (s, rf)"
  "flags_inv rf0 rf (Leaving s) \<longleftrightarrow> cpu_splhi rf0 = (s, rf)"
  by (simp_all add: flags_inv_def)

lemma lock_inv_outside_upd:
  assumes "\<not> inside (pc c)" and "\<not> inside p"
  shows "lock_inv l (pc(c := p)) \<longleftrightarrow> lock_inv l pc"
proof -
  have "inside ((pc(c := p)) d) \<longleftrightarrow> inside (pc d)" for d using assms by simp
  then show ?thesis by (simp add: lock_inv_def)
qed

lemma lock_inv_enter: "lock_inv 0 pc \<Longrightarrow> lock_inv 1 (pc(c := Inside s))"
  by (auto simp: lock_inv_def)

lemma lock_inv_leave:
  assumes "lock_inv l pc" and "inside (pc c)" and "\<not> inside p"
  shows "l = 1" and "lock_inv 0 (pc(c := p))"
  using assms by (auto simp: lock_inv_def)

lemma smp_inv_upd:
  assumes "smp_inv rf st" and "lock_inv l ((smp_pc st)(c := p))" and "flags_inv (rf c) r p"
  shows "smp_inv rf (st\<lparr>smp_lock := l, smp_rflags := (smp_rflags st)(c := r),
    smp_pc := (smp_pc st)(c := p)\<rparr>)"
  using assms by (simp add: smp_inv_def)

lemma smp_inv_flags: "smp_inv rf st \<Longrightarrow> flags_inv (rf c) (smp_rflags st c) (smp_pc st c)"
  by (simp add: smp_inv_def)

lemma smp_inv_lock: "smp_inv rf st \<Longrightarrow> lock_inv (smp_lock st) (smp_pc st)"
  by (simp add: smp_inv_def)

lemma smp_inv_step:
  assumes "smp_step st st'" and inv: "smp_inv rf st"
  shows "smp_inv rf st'"
  using assms(1)
proof (cases rule: smp_step.cases)
  case (mask c s r)
  have "smp_rflags st c = rf c" using smp_inv_flags [OF inv, of c] mask(2) by simp
  then show ?thesis
    using smp_inv_upd [OF inv, of "smp_lock st" c "Waiting s" r] smp_inv_lock [OF inv] mask
    by (simp add: lock_inv_outside_upd)
next
  case (spin c s prev l)
  then show ?thesis using inv by (auto simp: compare_and_swap_32_def split: if_splits)
next
  case (enter c s prev l)
  then have l: "smp_lock st = 0" "l = 1" by (auto simp: compare_and_swap_32_def)
  then have "lock_inv 1 ((smp_pc st)(c := Inside s))"
    using smp_inv_lock [OF inv] by (simp add: lock_inv_enter)
  then show ?thesis
    using smp_inv_upd [OF inv, of l c "Inside s" "smp_rflags st c"] smp_inv_flags [OF inv, of c] l enter
    by simp
next
  case (unlock c s)
  have "smp_lock st = 1" "lock_inv 0 ((smp_pc st)(c := Leaving s))"
    using lock_inv_leave [OF smp_inv_lock [OF inv], of c "Leaving s"] unlock by simp_all
  then show ?thesis
    using smp_inv_upd [OF inv, of 0 c "Leaving s" "smp_rflags st c"] smp_inv_flags [OF inv, of c] unlock
    by simp
next
  case (restore c s)
  have "cpu_splhi (rf c) = (s, smp_rflags st c)" using smp_inv_flags [OF inv, of c] restore(2) by simp
  then have "cpu_splx s (smp_rflags st c) = rf c" using splx_splhi [of "rf c"] by simp
  then show ?thesis
    using smp_inv_upd [OF inv, of "smp_lock st" c Outside "rf c"] smp_inv_lock [OF inv] restore
    by (simp add: lock_inv_outside_upd)
qed

lemma smp_inv_reachable: "smp_step\<^sup>*\<^sup>* (smp_init rf) st \<Longrightarrow> smp_inv rf st"
proof (induction rule: rtranclp_induct)
  case base
  show ?case by (simp add: smp_inv_def smp_init_def spinlock_init_def lock_inv_def)
next
  case (step st st')
  then show ?case by (blast intro: smp_inv_step)
qed

text \<open>
  C5. Mutual exclusion: whatever the interleaving of any number of processors, at most one is
  between \<^verbatim>\<open>spinlock_lock\<close> and \<^verbatim>\<open>spinlock_unlock\<close>; it runs with interrupts masked; and a processor
  back outside has the flags register it started with.
\<close>

theorem spinlock_mutual_exclusion:
  assumes "smp_step\<^sup>*\<^sup>* (smp_init rf) st"
  shows "(\<forall>c d. inside (smp_pc st c) \<and> inside (smp_pc st d) \<longrightarrow> c = d) \<and>
    (\<forall>c. inside (smp_pc st c) \<longrightarrow> smp_rflags st c AND RFLAGS_IF = 0) \<and>
    (\<forall>c. smp_pc st c = Outside \<longrightarrow> smp_rflags st c = rf c)"
proof -
  have inv: "smp_inv rf st" using assms by (rule smp_inv_reachable)
  have "smp_rflags st c AND RFLAGS_IF = 0" if "inside (smp_pc st c)" for c
  proof -
    obtain s where "smp_pc st c = Inside s" using \<open>inside (smp_pc st c)\<close>
      by (auto simp: inside_def split: lock_pc.splits)
    then have "snd (cpu_splhi (rf c)) = smp_rflags st c" using smp_inv_flags [OF inv, of c] by simp
    then show ?thesis using splhi_mask [of "rf c"] by simp
  qed
  moreover have "smp_rflags st c = rf c" if "smp_pc st c = Outside" for c
    using smp_inv_flags [OF inv, of c] that by simp
  moreover have "c = d" if "inside (smp_pc st c)" "inside (smp_pc st d)" for c d
    using smp_inv_lock [OF inv] that by (auto simp: lock_inv_def)
  ultimately show ?thesis by blast
qed

theorem spinlock_mutual_exclusion_witness:
  "\<exists>st. smp_step\<^sup>*\<^sup>* (smp_init (\<lambda>_. 0x202)) st \<and> inside (smp_pc st 0) \<and> \<not> inside (smp_pc st 1)
     \<and> smp_rflags st 0 AND RFLAGS_IF = 0 \<and> smp_rflags st 1 = 0x202"
proof -
  let ?rf = "\<lambda>_ :: nat. 0x202 :: u64"
  have "\<exists>st1. smp_step (smp_init ?rf) st1 \<and> smp_pc st1 = (\<lambda>_. Outside)(0 := Waiting (fst (cpu_splhi 0x202))) \<and>
      smp_lock st1 = 0"
    using smp_step.mask [of "smp_init ?rf" 0 "fst (cpu_splhi 0x202)" "snd (cpu_splhi 0x202)"]
    by (force simp: smp_init_def spinlock_init_def)
  then obtain st1 where 1: "smp_step (smp_init ?rf) st1"
    "smp_pc st1 = (\<lambda>_. Outside)(0 := Waiting (fst (cpu_splhi 0x202)))" "smp_lock st1 = 0" by blast
  have "\<exists>st. smp_step st1 st \<and> smp_pc st = (\<lambda>_. Outside)(0 := Inside (fst (cpu_splhi 0x202)))"
    using smp_step.enter [of st1 0 "fst (cpu_splhi 0x202)" 0 1] 1(2,3)
    by (force simp: compare_and_swap_32_def)
  then obtain st where 2: "smp_step st1 st" "smp_pc st = (\<lambda>_. Outside)(0 := Inside (fst (cpu_splhi 0x202)))"
    by blast
  have "smp_step\<^sup>*\<^sup>* (smp_init ?rf) st" using 1(1) 2(1) by auto
  with spinlock_mutual_exclusion [OF this] 2(2) show ?thesis by (intro exI [of _ st]) auto
qed

text \<open>
  C35. The lock is not lost: in every reachable state, either some processor is inside, or any
  waiting processor enters with its next compare-and-swap.
\<close>

theorem spinlock_not_lost:
  assumes "smp_step\<^sup>*\<^sup>* (smp_init rf) st" and "smp_pc st c = Waiting s"
  shows "(\<exists>d. inside (smp_pc st d)) \<or>
    (\<exists>st'. smp_step st st' \<and> smp_pc st' c = Inside s \<and> smp_lock st' = 1)"
proof (cases "smp_lock st = 0")
  case True
  with assms(2) smp_step.enter [of st c s 0 1] show ?thesis
    by (force simp: compare_and_swap_32_def)
next
  case False
  with smp_inv_reachable [OF assms(1)] show ?thesis by (auto simp: smp_inv_def lock_inv_def)
qed

theorem spinlock_not_lost_witness:
  "\<exists>st s. smp_pc st 7 = Waiting s \<and> ((\<exists>d. inside (smp_pc st d)) \<or>
    (\<exists>st'. smp_step st st' \<and> smp_pc st' 7 = Inside s \<and> smp_lock st' = 1))"
proof -
  let ?st = "smp_init (\<lambda>_. 0)" and ?s = "fst (cpu_splhi 0)" and ?r = "snd (cpu_splhi 0)"
  let ?st' = "?st\<lparr>smp_rflags := (smp_rflags ?st)(7 := ?r), smp_pc := (smp_pc ?st)(7 := Waiting ?s)\<rparr>"
  have "smp_step ?st ?st'" by (rule smp_step.mask) (simp_all add: smp_init_def)
  then have "smp_step\<^sup>*\<^sup>* ?st ?st'" by simp
  moreover have "smp_pc ?st' 7 = Waiting ?s" by simp
  ultimately show ?thesis using spinlock_not_lost [of "\<lambda>_. 0" ?st' 7 ?s] by blast
qed

end
