(* ===== verification/VmBoot.thy ===== *)
theory VmBoot
  imports PageDb Spinlock
begin

text \<open>
  The boot-time address space: the page copying and zeroing loops of \<^verbatim>\<open>vm_page.c\<close>, the page tables
  of \<^verbatim>\<open>vm_boot.c\<close>, and the allocator of kernel slack memory of \<^verbatim>\<open>kernel.c\<close> on top of them.

  Memory is a function from the virtual address of a 64-bit word to its contents; all the code
  here accesses aligned words. A page table at physical address \<open>p\<close> is read and written through
  \<^verbatim>\<open>KERNEL_VADDR(p)\<close>. \<^verbatim>\<open>invlpg\<close> is recorded in a trace.
\<close>

subsection \<open>Whole pages\<close>

type_synonym wmem = "u64 \<Rightarrow> u64"

primrec zero_words :: "nat \<Rightarrow> u64 \<Rightarrow> wmem \<Rightarrow> wmem" where
  "zero_words 0 p m = m"
| "zero_words (Suc n) p m = zero_words n (p + 8) (m(p := 0))"

primrec copy_words :: "nat \<Rightarrow> u64 \<Rightarrow> u64 \<Rightarrow> wmem \<Rightarrow> wmem" where
  "copy_words 0 d s m = m"
| "copy_words (Suc n) d s m = copy_words n (d + 8) (s + 8) (m(d := m s))"

definition zero_page_4k :: "u64 \<Rightarrow> wmem \<Rightarrow> wmem" where
  "zero_page_4k addr m = zero_words (unat (PAGE_4K_SIZE div 8)) addr m"

definition zero_page_2m :: "u64 \<Rightarrow> wmem \<Rightarrow> wmem" where
  "zero_page_2m addr m = zero_words (unat (PAGE_2M_SIZE div 8)) addr m"

definition copy_page_4k :: "u64 \<Rightarrow> u64 \<Rightarrow> wmem \<Rightarrow> wmem" where
  "copy_page_4k dst src m = copy_words (unat (PAGE_4K_SIZE div 8)) dst src m"

definition copy_page_2m :: "u64 \<Rightarrow> u64 \<Rightarrow> wmem \<Rightarrow> wmem" where
  "copy_page_2m dst src m = copy_words (unat (PAGE_2M_SIZE div 8)) dst src m"

subsection \<open>Page tables\<close>

definition MEMSIZE_1G :: u64 where "MEMSIZE_1G = push_bit 30 1"
definition KERNEL_BASE :: u64 where "KERNEL_BASE = 0xFFFFFFFF80000000"

definition KERNEL_VADDR :: "u64 \<Rightarrow> u64" where
  "KERNEL_VADDR x = x OR KERNEL_BASE"

definition PML_SHIFT :: nat where "PML_SHIFT = 39"
definition PDP_SHIFT :: nat where "PDP_SHIFT = 30"
definition PDIR_NUM_ENTRIES :: u64 where "PDIR_NUM_ENTRIES = 0x200"

definition PDIR_ADDR :: "u64 \<Rightarrow> u64" where
  "PDIR_ADDR x = x AND NOT (PDIR_NUM_ENTRIES - 1)"

definition PML_INDEX :: "u64 \<Rightarrow> u64" where
  "PML_INDEX x = drop_bit PML_SHIFT x AND 0x1FF"

definition PDP_INDEX :: "u64 \<Rightarrow> u64" where
  "PDP_INDEX x = drop_bit PDP_SHIFT x AND 0x1FF"

definition PAGE_2M_INDEX :: "u64 \<Rightarrow> u64" where
  "PAGE_2M_INDEX x = drop_bit PAGE_2M_SHIFT x AND 0x1FF"

definition PAGE_PRESENT :: u64 where "PAGE_PRESENT = 0x01"
definition PAGE_WRITE :: u64 where "PAGE_WRITE = 0x02"
definition PAGE_2MB :: u64 where "PAGE_2MB = 0x80"

definition BOOT_PML4 :: u64 where "BOOT_PML4 = 0x10000"
definition BOOT_PAGE_NEXT :: u64 where "BOOT_PAGE_NEXT = 0x14000"
definition BOOT_PAGES_TOP :: u64 where "BOOT_PAGES_TOP = 0x30000"

record vm_boot =
  vb_mem :: wmem
  vb_page :: u64
  vb_lock :: u32
  vb_invlpg :: "u64 list"

text \<open>The address of entry \<open>i\<close> of the table at physical address \<open>p\<close>.\<close>

definition entry_addr :: "u64 \<Rightarrow> u32 \<Rightarrow> u64" where
  "entry_addr p i = KERNEL_VADDR p + 8 * ucast i"

definition boot_page_alloc :: "vm_boot \<Rightarrow> (u64 \<times> vm_boot) outcome" where
  "boot_page_alloc st =
     (let page = vb_page st in
      check (page < BOOT_PAGES_TOP) ''page < BOOT_PAGES_TOP'' (
      Inr (page, st\<lparr>vb_page := vb_page st + PAGE_4K_SIZE,
                    vb_mem := zero_words (unat PDIR_NUM_ENTRIES) (KERNEL_VADDR page) (vb_mem st)\<rparr>)))"

text \<open>
  The two upper levels are treated alike: read the entry, and if it is not present, allocate a
  table for it. The result is the entry.
\<close>

definition ensure_table :: "u64 \<Rightarrow> u32 \<Rightarrow> vm_boot \<Rightarrow> (u64 \<times> vm_boot) outcome" where
  "ensure_table table index st =
     (let entry = vb_mem st (entry_addr table index) in
      if entry AND PAGE_PRESENT = 0 then
        rbind (boot_page_alloc st) (\<lambda>(page, st).
        let entry = page OR PAGE_PRESENT OR PAGE_WRITE in
        Inr (entry, st\<lparr>vb_mem := (vb_mem st)(entry_addr table index := entry)\<rparr>))
      else Inr (entry, st))"

definition vm_boot_map_page :: "u64 \<Rightarrow> u64 \<Rightarrow> vm_boot \<Rightarrow> vm_boot outcome" where
  "vm_boot_map_page vaddr paddr st =
     (let pml4_index = ucast (PML_INDEX vaddr);
          pdp_index = ucast (PDP_INDEX vaddr);
          pd_index = ucast (PAGE_2M_INDEX vaddr) in
      rbind (ensure_table BOOT_PML4 pml4_index st) (\<lambda>(pdp_entry, st).
      rbind (ensure_table (PDIR_ADDR pdp_entry) pdp_index st) (\<lambda>(pd_entry, st).
      let slot = entry_addr (PDIR_ADDR pd_entry) pd_index;
          e = vb_mem st slot in
      Inr (if e AND PAGE_PRESENT = 0 \<or> PDIR_ADDR e \<noteq> paddr then
             st\<lparr>vb_mem := (vb_mem st)(slot := paddr OR PAGE_PRESENT OR PAGE_WRITE OR PAGE_2MB),
                vb_invlpg := vb_invlpg st @ [vaddr]\<rparr>
           else st))))"

definition vm_boot_unmap_page :: "u64 \<Rightarrow> vm_boot \<Rightarrow> vm_boot" where
  "vm_boot_unmap_page vaddr st =
     (let pml4_index = ucast (PML_INDEX vaddr);
          pdp_index = ucast (PDP_INDEX vaddr);
          pd_index = ucast (PAGE_2M_INDEX vaddr);
          pdp_entry = vb_mem st (entry_addr BOOT_PML4 pml4_index) in
      if pdp_entry AND PAGE_PRESENT \<noteq> 0 then
        let pd_entry = vb_mem st (entry_addr (PDIR_ADDR pdp_entry) pdp_index) in
        if pd_entry AND PAGE_PRESENT \<noteq> 0 then
          st\<lparr>vb_mem := (vb_mem st)(entry_addr (PDIR_ADDR pd_entry) pd_index := 0),
             vb_invlpg := vb_invlpg st @ [vaddr]\<rparr>
        else st
      else st)"

primrec map_pages :: "nat \<Rightarrow> u64 \<Rightarrow> u64 \<Rightarrow> vm_boot \<Rightarrow> vm_boot outcome" where
  "map_pages 0 vaddr paddr st = Inr st"
| "map_pages (Suc n) vaddr paddr st =
     rbind (vm_boot_map_page vaddr paddr st) (map_pages n (vaddr + PAGE_2M_SIZE) (paddr + PAGE_2M_SIZE))"

primrec unmap_pages :: "nat \<Rightarrow> u64 \<Rightarrow> vm_boot \<Rightarrow> vm_boot" where
  "unmap_pages 0 vaddr st = st"
| "unmap_pages (Suc n) vaddr st = unmap_pages n (vaddr + PAGE_2M_SIZE) (vm_boot_unmap_page vaddr st)"

definition vm_boot_map_range :: "u64 \<Rightarrow> u64 \<Rightarrow> u64 \<Rightarrow> vm_boot \<Rightarrow> vm_boot outcome" where
  "vm_boot_map_range vaddr paddr sz st =
     (let num_pages = PAGE_2M_NUM (sz + (vaddr AND (PAGE_2M_SIZE - 1)));
          vaddr = vaddr AND PAGE_2M_MASK;
          paddr = paddr AND PAGE_2M_MASK in
      rbind (spinlock_lock (vb_lock st)) (\<lambda>l.
      rbind (map_pages (unat num_pages) vaddr paddr (st\<lparr>vb_lock := l\<rparr>)) (\<lambda>st.
      Inr (st\<lparr>vb_lock := spinlock_unlock (vb_lock st)\<rparr>))))"

definition vm_boot_unmap_range :: "u64 \<Rightarrow> u64 \<Rightarrow> vm_boot \<Rightarrow> vm_boot outcome" where
  "vm_boot_unmap_range vaddr sz st =
     (let num_pages = PAGE_2M_NUM (sz + (vaddr AND (PAGE_2M_SIZE - 1)));
          vaddr = vaddr AND PAGE_2M_MASK in
      rbind (spinlock_lock (vb_lock st)) (\<lambda>l.
      let st = unmap_pages (unat num_pages) vaddr (st\<lparr>vb_lock := l\<rparr>) in
      Inr (st\<lparr>vb_lock := spinlock_unlock (vb_lock st)\<rparr>)))"

definition vm_boot_init :: "vm_boot \<Rightarrow> vm_boot" where
  "vm_boot_init st = st\<lparr>vb_page := BOOT_PAGE_NEXT\<rparr>"

text \<open>
  \<^verbatim>\<open>vm_boot_sync\<close> visits every present-or-not nonzero entry of the three levels and reserves the
  2 MB page it maps.
\<close>

definition vm_boot_sync :: "vm_boot \<Rightarrow> page_db_t \<Rightarrow> page_db_t outcome" where
  "vm_boot_sync st =
     for_up 0 512 (\<lambda>pml4_index pdb.
       let pdp_entry = vb_mem st (entry_addr BOOT_PML4 pml4_index) in
       if pdp_entry \<noteq> 0 then
         for_up 0 512 (\<lambda>pdp_index pdb.
           let pd_entry = vb_mem st (entry_addr (PDIR_ADDR pdp_entry) pdp_index) in
           if pd_entry \<noteq> 0 then
             for_up 0 512 (\<lambda>pd_index pdb.
               let pt_entry = vb_mem st (entry_addr (PDIR_ADDR pd_entry) pd_index) in
               if pt_entry \<noteq> 0 then
                 page_db_reserve_page pdb (ucast (drop_bit PAGE_2M_SHIFT (PDIR_ADDR pt_entry)))
               else Inr pdb) pdb
           else Inr pdb) pdb
       else Inr pdb)"

subsection \<open>Kernel slack memory\<close>

record boot_info_mmap_t =
  mm_addr :: u64
  mm_size :: u64
  mm_flags :: u32

definition BOOT_INFO_MMAP_MAX :: nat where "BOOT_INFO_MMAP_MAX = 32"

record boot_info_t =
  bi_mb_magic :: u32
  bi_mb_addr :: u32
  bi_mb_size :: u32
  bi_boot_ap :: u32
  bi_kernel_end :: u64
  bi_kernel_top :: u64
  bi_kernel_slack :: u64
  bi_mmap :: "boot_info_mmap_t list"
  bi_num_mmap :: u32
  bi_mmap_top :: u64
  bi_memory_size :: u64
  bi_fb_addr :: u64
  bi_fb_pitch :: u32
  bi_fb_width :: u32
  bi_fb_height :: u32
  bi_fb_bpp :: u32
  bi_fb_type :: u32
  bi_cmd_line :: string

record kstate =
  ks_boot :: boot_info_t
  ks_vm :: vm_boot
  ks_slack_lock :: u32

definition ALIGN_UP :: "u64 \<Rightarrow> u64 \<Rightarrow> u64" where
  "ALIGN_UP addr align = (addr + align - 1) AND NOT (align - 1)"

definition kernel_init :: "u64 \<Rightarrow> kstate \<Rightarrow> kstate" where
  "kernel_init end_addr ks =
     (let kernel_end = end_addr - KERNEL_BASE in
      ks\<lparr>ks_boot := (ks_boot ks)\<lparr>bi_kernel_end := kernel_end,
           bi_kernel_top := PAGE_2M_ROUND kernel_end, bi_kernel_slack := kernel_end\<rparr>\<rparr>)"

definition kernel_slack_alloc :: "u64 \<Rightarrow> u64 \<Rightarrow> kstate \<Rightarrow> (u64 \<times> kstate) outcome" where
  "kernel_slack_alloc sz align ks =
     rbind (spinlock_lock (ks_slack_lock ks)) (\<lambda>l.
     let ks = ks\<lparr>ks_slack_lock := l\<rparr>;
         slack = ALIGN_UP (bi_kernel_slack (ks_boot ks)) align;
         top = slack + sz in
     rbind (if bi_kernel_top (ks_boot ks) < top then
              let paddr = bi_kernel_top (ks_boot ks);
                  alloc_size = PAGE_2M_ROUND (top - bi_kernel_top (ks_boot ks));
                  ks = ks\<lparr>ks_boot := (ks_boot ks)\<lparr>bi_kernel_top := bi_kernel_top (ks_boot ks) + alloc_size\<rparr>\<rparr> in
              rbind (vm_boot_map_range (KERNEL_VADDR paddr) paddr alloc_size (ks_vm ks)) (\<lambda>vm.
              Inr (ks\<lparr>ks_vm := vm\<rparr>))
            else Inr ks) (\<lambda>ks.
     Inr (KERNEL_VADDR slack,
          ks\<lparr>ks_boot := (ks_boot ks)\<lparr>bi_kernel_slack := top\<rparr>,
             ks_slack_lock := spinlock_unlock (ks_slack_lock ks)\<rparr>)))"

text \<open>
  \<^verbatim>\<open>vm_page_init\<close> places the page database in slack memory. The pages it finds there are whatever
  the memory holds; \<open>mem\<close> is that array.
\<close>

definition vm_page_init :: "page_desc_t list \<Rightarrow> kstate \<Rightarrow> (u64 \<times> page_db_t \<times> kstate) outcome" where
  "vm_page_init mem ks =
     (let memory_size = bi_mmap_top (ks_boot ks);
          db_size = page_db_calc_size memory_size in
      rbind (kernel_slack_alloc (ucast db_size) 16 ks) (\<lambda>(page_db, ks).
      rbind (page_db_init \<lparr>pdb_page_index = 0, pdb_num_pages = 0, pdb_num_free = 0, pdb_free_list = 0,
                pdb_lock = 0, pdb_num_reserved = 0, pdb_flags = 0, pdb_pages = mem\<rparr>
              memory_size (bi_kernel_top (ks_boot ks))) (\<lambda>pdb.
      Inr (page_db, pdb, ks))))"

subsection \<open>Address arithmetic\<close>

lemma KERNEL_BASE_mask: "KERNEL_BASE = NOT (mask 31)"
  by (simp add: KERNEL_BASE_def mask_eq_exp_minus_1)

lemma unat_KERNEL_VADDR:
  assumes "unat p < 2 ^ 31"
  shows "unat (KERNEL_VADDR p) = unat p + 0xFFFFFFFF80000000"
proof -
  have "take_bit 31 p = p" using assms by (simp add: take_bit_eq_mod flip: unat_eq_iff) (simp add: unat_mod)
  then have dis: "p AND KERNEL_BASE = 0"
    by (metis KERNEL_BASE_mask bit.conj_cancel_right bit.conj_zero_right and.assoc take_bit_eq_mask)
  then have "KERNEL_VADDR p = p + KERNEL_BASE"
    unfolding KERNEL_VADDR_def by (rule disjunctive_add_eq_or [symmetric])
  then show ?thesis using assms by (simp add: KERNEL_BASE_def unat_plus_lt)
qed

definition is_table :: "u64 \<Rightarrow> bool" where
  "is_table p \<longleftrightarrow> p < BOOT_PAGES_TOP \<and> p AND mask 12 = 0"

lemma is_table_unat: "is_table p \<longleftrightarrow> unat p < 0x30000 \<and> unat p mod 4096 = 0"
proof -
  have "p AND mask 12 = 0 \<longleftrightarrow> unat p mod 2 ^ 12 = 0"
    unfolding unat_and_mask [symmetric] by (simp flip: unat_eq_iff)
  then show ?thesis by (simp add: is_table_def unat_less_iff BOOT_PAGES_TOP_def)
qed

lemma unat_entry_addr:
  assumes "is_table p" and "unat i < 512"
  shows "unat (entry_addr p i) = 0xFFFFFFFF80000000 + unat p + 8 * unat i"
proof -
  have p: "unat p < 0x30000" using assms by (simp add: is_table_unat)
  have i: "unat (8 * ucast i :: u64) = 8 * unat i" using assms(2) by (simp add: unat_word_ariths)
  show ?thesis unfolding entry_addr_def
    using assms(2) p i by (simp add: unat_plus_lt unat_KERNEL_VADDR)
qed

lemma entry_addr_inject:
  assumes "is_table p" "is_table q" "unat i < 512" "unat j < 512"
  shows "entry_addr p i = entry_addr q j \<longleftrightarrow> p = q \<and> i = j"
proof
  assume "entry_addr p i = entry_addr q j"
  then have e: "unat p + 8 * unat i = unat q + 8 * unat j"
    using assms unat_entry_addr [of p i] unat_entry_addr [of q j] by simp
  have m: "unat p mod 4096 = 0" "unat q mod 4096 = 0" using assms by (simp_all add: is_table_unat)
  have "(unat p + 8 * unat i) div 4096 = unat p div 4096" using m(1) assms(3) by auto
  moreover have "(unat q + 8 * unat j) div 4096 = unat q div 4096" using m(2) assms(4) by auto
  ultimately have "unat p div 4096 = unat q div 4096" using e by simp
  then have "unat p = unat q" using m by (metis mod_div_trivial div_mult_mod_eq)
  with e show "p = q \<and> i = j" by simp
qed simp

lemma index_lt: "unat (ucast (PML_INDEX v) :: u32) < 512" "unat (ucast (PDP_INDEX v) :: u32) < 512"
  "unat (ucast (PAGE_2M_INDEX v) :: u32) < 512"
proof -
  have "unat (ucast (x AND 0x1FF :: u64) :: u32) < 512" for x
  proof -
    have "(0x1FF :: u64) = mask 9" by (simp add: mask_eq_exp_minus_1)
    then have "unat (x AND 0x1FF) = unat x mod 2 ^ 9" by (simp only: unat_and_mask)
    then have "unat (x AND 0x1FF) < 512" by simp
    then show ?thesis by (simp add: unat_ucast_down)
  qed
  then show "unat (ucast (PML_INDEX v) :: u32) < 512" "unat (ucast (PDP_INDEX v) :: u32) < 512"
    "unat (ucast (PAGE_2M_INDEX v) :: u32) < 512"
    by (simp_all only: PML_INDEX_def PDP_INDEX_def PAGE_2M_INDEX_def)
qed

lemma zero_words_at:
  "zero_words n p m a = (if \<exists>k<n. a = p + 8 * of_nat k then 0 else m a)"
proof (induction n arbitrary: p m)
  case 0
  show ?case by simp
next
  case (Suc n)
  have "(\<exists>k<Suc n. a = p + 8 * of_nat k) \<longleftrightarrow> a = p \<or> (\<exists>k<n. a = p + 8 + 8 * of_nat k)"
    unfolding Ex_less_Suc2 by (simp add: algebra_simps)
  then show ?case by (auto simp: Suc.IH)
qed

lemma zero_table:
  assumes "is_table p" "is_table q" "unat i < 512"
  shows "zero_words (unat PDIR_NUM_ENTRIES) (KERNEL_VADDR p) m (entry_addr q i) =
    (if p = q then 0 else m (entry_addr q i))"
proof -
  have e: "KERNEL_VADDR p + 8 * of_nat k = entry_addr p (of_nat k)" if "k < 512" for k
  proof -
    have "(ucast (of_nat k :: u32) :: u64) = of_nat k"
      using that by (simp add: unat_of_nat_lt flip: unat_eq_iff)
    then show ?thesis by (simp add: entry_addr_def)
  qed
  have "(\<exists>k<512. entry_addr q i = KERNEL_VADDR p + 8 * of_nat k) \<longleftrightarrow> p = q"
  proof
    assume "\<exists>k<512. entry_addr q i = KERNEL_VADDR p + 8 * of_nat k"
    then obtain k where "k < 512" "entry_addr q i = entry_addr p (of_nat k)" using e by metis
    then show "p = q" using entry_addr_inject [OF assms(2,1,3), of "of_nat k"]
      by (simp add: unat_of_nat_lt)
  next
    assume "p = q"
    then show "\<exists>k<512. entry_addr q i = KERNEL_VADDR p + 8 * of_nat k"
      using assms(3) e [of "unat i"] by (intro exI [of _ "unat i"]) simp
  qed
  then show ?thesis by (simp add: zero_words_at PDIR_NUM_ENTRIES_def)
qed

lemma PDIR_ADDR_table:
  assumes "is_table p" and "f AND NOT (mask 9) = 0"
  shows "PDIR_ADDR (p OR f) = p"
proof -
  have "p AND NOT (mask 9) = p"
  proof (rule bit_word_eqI)
    fix n
    have "\<not> bit (p AND mask 12) n" using assms(1) by (simp add: is_table_def)
    then show "bit (p AND NOT (mask 9)) n = bit p n" if "n < LENGTH(64)"
      using that by (auto simp: bit_simps)
  qed
  moreover have "PDIR_NUM_ENTRIES - 1 = mask 9" by (simp add: PDIR_NUM_ENTRIES_def mask_eq_exp_minus_1)
  ultimately show ?thesis
    using assms(2) by (simp add: PDIR_ADDR_def bit.conj_disj_distrib2)
qed

subsection \<open>Walking the tables\<close>

text \<open>
  The abstraction of the tables: \<open>pd_slot m va\<close> is the address of the page directory entry that
  decides \<open>va\<close>, and \<open>translate m va\<close> the 2 MB physical page it maps, both as the processor walks.
\<close>

definition present :: "u64 \<Rightarrow> bool" where
  "present e \<longleftrightarrow> e AND PAGE_PRESENT \<noteq> 0"

definition pd_slot :: "wmem \<Rightarrow> u64 \<Rightarrow> u64 option" where
  "pd_slot m va =
     (let pdp_entry = m (entry_addr BOOT_PML4 (ucast (PML_INDEX va))) in
      if present pdp_entry then
        let pd_entry = m (entry_addr (PDIR_ADDR pdp_entry) (ucast (PDP_INDEX va))) in
        if present pd_entry then Some (entry_addr (PDIR_ADDR pd_entry) (ucast (PAGE_2M_INDEX va)))
        else None
      else None)"

definition translate :: "wmem \<Rightarrow> u64 \<Rightarrow> u64 option" where
  "translate m va =
     (case pd_slot m va of
        None \<Rightarrow> None
      | Some a \<Rightarrow> if present (m a) then Some (PDIR_ADDR (m a)) else None)"

text \<open>The tables of the second and third level, and the well-formedness of the tree.\<close>

definition subtables :: "wmem \<Rightarrow> u64 \<Rightarrow> u64 set" where
  "subtables m t = {PDIR_ADDR (m (entry_addr t i)) | i. unat i < 512 \<and> present (m (entry_addr t i))}"

definition pdps :: "wmem \<Rightarrow> u64 set" where
  "pdps m = subtables m BOOT_PML4"

definition pds :: "wmem \<Rightarrow> u64 set" where
  "pds m = (\<Union>t\<in>pdps m. subtables m t)"

definition tables :: "vm_boot \<Rightarrow> u64 set" where
  "tables st = {t. is_table t \<and> t < vb_page st}"

definition vb_ok :: "vm_boot \<Rightarrow> bool" where
  "vb_ok st \<longleftrightarrow> vb_page st AND mask 12 = 0 \<and> BOOT_PML4 < vb_page st \<and> vb_page st \<le> BOOT_PAGES_TOP \<and>
     pdps (vb_mem st) \<subseteq> tables st - {BOOT_PML4} \<and> pds (vb_mem st) \<subseteq> tables st - {BOOT_PML4} \<and>
     pdps (vb_mem st) \<inter> pds (vb_mem st) = {}"

lemma is_table_PML4 [simp]: "is_table BOOT_PML4"
  by (simp add: is_table_unat BOOT_PML4_def)

lemma vb_ok_tables:
  assumes "vb_ok st"
  shows "BOOT_PML4 \<in> tables st" "t \<in> pdps (vb_mem st) \<Longrightarrow> t \<in> tables st \<and> t \<noteq> BOOT_PML4"
    "t \<in> pds (vb_mem st) \<Longrightarrow> t \<in> tables st \<and> t \<noteq> BOOT_PML4 \<and> t \<notin> pdps (vb_mem st)"
  using assms by (auto simp: vb_ok_def tables_def)

lemma tables_is_table: "t \<in> tables st \<Longrightarrow> is_table t"
  by (simp add: tables_def)

lemma subtables_cong:
  "(\<And>i. unat i < 512 \<Longrightarrow> m (entry_addr t i) = m' (entry_addr t i)) \<Longrightarrow> subtables m t = subtables m' t"
  by (auto simp: subtables_def) metis+

lemma subtables_upd:
  assumes "unat i < 512" and "present e" and "\<not> present (m (entry_addr t i))"
    and m': "\<And>j. unat j < 512 \<Longrightarrow> m' (entry_addr t j) = (if j = i then e else m (entry_addr t j))"
  shows "subtables m' t = insert (PDIR_ADDR e) (subtables m t)"
proof -
  have "PDIR_ADDR e \<in> subtables m' t"
    using assms by (auto simp: subtables_def intro!: exI [of _ i])
  moreover have "x \<in> subtables m' t" if "x \<in> subtables m t" for x
  proof -
    from that obtain j where j: "x = PDIR_ADDR (m (entry_addr t j))" "unat j < 512"
      "present (m (entry_addr t j))" by (auto simp: subtables_def)
    then have "j \<noteq> i" using assms(3) by auto
    with j m' [of j] show ?thesis by (auto simp: subtables_def intro!: exI [of _ j])
  qed
  moreover have "x = PDIR_ADDR e \<or> x \<in> subtables m t" if "x \<in> subtables m' t" for x
  proof -
    from that obtain j where "x = PDIR_ADDR (m' (entry_addr t j))" "unat j < 512"
      "present (m' (entry_addr t j))" by (auto simp: subtables_def)
    then show ?thesis using m' [of j] by (auto simp: subtables_def split: if_splits)
  qed
  ultimately show ?thesis by blast
qed

lemma new_entry:
  assumes "is_table p"
  shows "PDIR_ADDR (p OR PAGE_PRESENT OR PAGE_WRITE) = p" "present (p OR PAGE_PRESENT OR PAGE_WRITE)"
proof -
  have "(PAGE_PRESENT OR PAGE_WRITE) AND NOT (mask 9) = 0"
    by (simp add: PAGE_PRESENT_def PAGE_WRITE_def mask_eq_exp_minus_1)
  then show "PDIR_ADDR (p OR PAGE_PRESENT OR PAGE_WRITE) = p"
    using PDIR_ADDR_table [OF assms, of "PAGE_PRESENT OR PAGE_WRITE"] by (simp add: or.assoc)
  have "bit ((p OR PAGE_PRESENT OR PAGE_WRITE) AND PAGE_PRESENT) 0"
    by (simp add: PAGE_PRESENT_def bit_simps)
  then show "present (p OR PAGE_PRESENT OR PAGE_WRITE)"
    unfolding present_def by (metis bit_0_eq bot_apply bot_bool_def)
qed

text \<open>What allocating a table changes: the new table is empty, one entry points to it.\<close>

definition grown :: "u64 \<Rightarrow> u32 \<Rightarrow> vm_boot \<Rightarrow> vm_boot \<Rightarrow> bool" where
  "grown t i st st' \<longleftrightarrow> vb_page st' = vb_page st + PAGE_4K_SIZE \<and> is_table (vb_page st) \<and>
     \<not> present (vb_mem st (entry_addr t i)) \<and>
     vb_lock st' = vb_lock st \<and> vb_invlpg st' = vb_invlpg st \<and>
     (\<forall>q j. is_table q \<and> unat j < 512 \<longrightarrow> vb_mem st' (entry_addr q j) =
        (if q = t \<and> j = i then vb_page st OR PAGE_PRESENT OR PAGE_WRITE
         else if q = vb_page st then 0 else vb_mem st (entry_addr q j)))"

lemma ensure_table_present:
  "present (vb_mem st (entry_addr t i)) \<Longrightarrow> ensure_table t i st = Inr (vb_mem st (entry_addr t i), st)"
  by (simp add: ensure_table_def present_def)

lemma ensure_table_grows:
  assumes ok: "vb_ok st" and room: "vb_page st < BOOT_PAGES_TOP" and t: "t \<in> tables st"
    and i: "unat i < 512" and np: "\<not> present (vb_mem st (entry_addr t i))"
  shows "\<exists>st'. ensure_table t i st = Inr (vb_page st OR PAGE_PRESENT OR PAGE_WRITE, st') \<and> grown t i st st'"
proof -
  let ?page = "vb_page st"
  have pt: "is_table ?page" using ok room by (simp add: vb_ok_def is_table_def)
  have tt: "is_table t" and tp: "t \<noteq> ?page" using t by (auto simp: tables_def)
  let ?m = "zero_words (unat PDIR_NUM_ENTRIES) (KERNEL_VADDR ?page) (vb_mem st)"
  let ?e = "?page OR PAGE_PRESENT OR PAGE_WRITE"
  let ?st = "st\<lparr>vb_page := ?page + PAGE_4K_SIZE, vb_mem := ?m(entry_addr t i := ?e)\<rparr>"
  have "ensure_table t i st = Inr (?e, ?st)"
    using np room by (simp add: ensure_table_def present_def boot_page_alloc_def Let_def)
  moreover have "vb_mem ?st (entry_addr q j) =
      (if q = t \<and> j = i then ?e else if q = ?page then 0 else vb_mem st (entry_addr q j))"
    if "is_table q" "unat j < 512" for q j
    using entry_addr_inject [OF that(1) tt that(2) i] zero_table [OF pt that] by auto
  ultimately show ?thesis using pt np by (auto simp: grown_def)
qed

lemma grown_at:
  assumes "grown t i st st'" and "is_table q" and "unat j < 512"
  shows "vb_mem st' (entry_addr q j) =
    (if q = t \<and> j = i then vb_page st OR PAGE_PRESENT OR PAGE_WRITE
     else if q = vb_page st then 0 else vb_mem st (entry_addr q j))"
  using assms by (simp add: grown_def)

lemma multiple_step:
  fixes a b k :: nat
  assumes "a mod k = 0" and "b mod k = 0"
  shows "a < b + k \<longleftrightarrow> a \<le> b \<and> 0 < k"
proof -
  obtain i j where ij: "a = k * i" "b = k * j" using assms by (meson dvd_def mod_0_imp_dvd)
  have "k * i < k * Suc j \<longleftrightarrow> i \<le> j \<and> 0 < k" unfolding mult_less_cancel1 by auto
  then show ?thesis using ij by auto
qed

lemma grown_tables:
  assumes ok: "vb_ok st" and g: "grown t i st st'"
  shows "tables st' = insert (vb_page st) (tables st)" and "vb_page st \<notin> tables st"
    and "vb_page st' AND mask 12 = 0" and "BOOT_PML4 < vb_page st'" and "vb_page st' \<le> BOOT_PAGES_TOP"
    and "vb_page st \<noteq> BOOT_PML4"
proof -
  have pg: "unat (vb_page st) < 0x30000" "unat (vb_page st) mod 4096 = 0"
    using g by (simp_all add: grown_def is_table_unat)
  have np: "unat (vb_page st') = unat (vb_page st) + 4096"
    using g pg by (simp add: grown_def PAGE_4K_SIZE_def PAGE_4K_SHIFT_def unat_plus_lt)
  have lo: "0x10000 < unat (vb_page st)" using ok by (simp add: vb_ok_def unat_less_iff BOOT_PML4_def)
  show "vb_page st \<notin> tables st" by (simp add: tables_def)
  show "vb_page st \<noteq> BOOT_PML4" using lo by (auto simp: BOOT_PML4_def)
  have "unat (vb_page st' AND mask 12) = 0" using np pg by (simp add: unat_and_mask)
  then show "vb_page st' AND mask 12 = 0" by (simp flip: unat_eq_iff)
  show "BOOT_PML4 < vb_page st'" using np lo by (simp add: unat_less_iff BOOT_PML4_def)
  show "vb_page st' \<le> BOOT_PAGES_TOP" using np pg multiple_step [OF pg(2), of "0x2F000"]
    by (simp add: unat_le_iff BOOT_PAGES_TOP_def)
  have "q < vb_page st' \<longleftrightarrow> q = vb_page st \<or> q < vb_page st" if "unat q mod 4096 = 0" for q :: u64
    unfolding unat_less_iff np using multiple_step [OF that pg(2)] by (auto simp: le_less)
  then show "tables st' = insert (vb_page st) (tables st)"
    using pg by (auto simp: tables_def is_table_unat)
qed

lemma grown_other_subtables:
  assumes "grown t i st st'" and "q \<in> tables st" and "q \<noteq> t"
  shows "subtables (vb_mem st') q = subtables (vb_mem st) q"
  using assms by (intro subtables_cong) (auto simp: grown_at tables_def)

lemma grown_new_subtables:
  assumes "grown t i st st'" and "t \<noteq> vb_page st"
  shows "subtables (vb_mem st') (vb_page st) = {}"
proof -
  have "\<not> present (vb_mem st' (entry_addr (vb_page st) j))" if "unat j < 512" for j
    using grown_at [OF assms(1), of "vb_page st" j] assms that by (simp add: grown_def present_def)
  then show ?thesis by (simp add: subtables_def)
qed

lemma grown_subtables:
  assumes g: "grown t i st st'" and "t \<in> tables st" and i: "unat i < 512"
  shows "subtables (vb_mem st') t = insert (vb_page st) (subtables (vb_mem st) t)"
proof -
  have pt: "is_table (vb_page st)" and np: "\<not> present (vb_mem st (entry_addr t i))"
    using g by (simp_all add: grown_def)
  have "subtables (vb_mem st') t =
      insert (PDIR_ADDR (vb_page st OR PAGE_PRESENT OR PAGE_WRITE)) (subtables (vb_mem st) t)"
    using assms(2) new_entry(2) [OF pt] np i
    by (intro subtables_upd) (auto simp: grown_at [OF g] tables_def)
  then show ?thesis by (simp add: new_entry(1) [OF pt])
qed

lemma grown_ok:
  assumes ok: "vb_ok st" and g: "grown t i st st'" and i: "unat i < 512"
    and t: "t = BOOT_PML4 \<or> t \<in> pdps (vb_mem st)"
  shows "vb_ok st'"
    and "t = BOOT_PML4 \<Longrightarrow> vb_page st \<in> pdps (vb_mem st')"
    and "t \<noteq> BOOT_PML4 \<Longrightarrow> pdps (vb_mem st') = pdps (vb_mem st) \<and> vb_page st \<in> pds (vb_mem st')"
proof -
  let ?m = "vb_mem st" and ?m' = "vb_mem st'" and ?p = "vb_page st"
  note tb = grown_tables [OF ok g] vb_ok_tables [OF ok]
  have tt: "t \<in> tables st" using t tb by auto
  have same: "subtables ?m' q = subtables ?m q" if "q \<in> pdps ?m" "q \<noteq> t" for q
    using grown_other_subtables [OF g, of q] that tb by auto
  consider (top) "t = BOOT_PML4" | (mid) "t \<in> pdps ?m" "t \<noteq> BOOT_PML4" using t by blast
  then have "(vb_ok st' \<and> (t = BOOT_PML4 \<longrightarrow> ?p \<in> pdps ?m') \<and>
     (t \<noteq> BOOT_PML4 \<longrightarrow> pdps ?m' = pdps ?m \<and> ?p \<in> pds ?m'))"
  proof cases
    case top
    have pdps': "pdps ?m' = insert ?p (pdps ?m)"
      using grown_subtables [OF g tt i] top by (simp add: pdps_def)
    have "subtables ?m' ?p = {}" using grown_new_subtables [OF g] top tb(6) by simp
    moreover have "subtables ?m' q = subtables ?m q" if "q \<in> pdps ?m" for q
      using same [OF that] tb(8) [OF that] top by simp
    ultimately have "pds ?m' = pds ?m" by (simp add: pds_def pdps')
    then show ?thesis using ok top pdps' tb(1-6) unfolding vb_ok_def by auto
  next
    case mid
    have "subtables ?m' BOOT_PML4 = subtables ?m BOOT_PML4"
      using grown_other_subtables [OF g] mid tb(7) by simp
    then have pdps': "pdps ?m' = pdps ?m" by (simp add: pdps_def)
    have "subtables ?m' q = (if q = t then insert ?p (subtables ?m q) else subtables ?m q)"
      if "q \<in> pdps ?m" for q
      using grown_subtables [OF g tt i] same [OF that] by simp
    then have "pds ?m' = (\<Union>q\<in>pdps ?m. if q = t then insert ?p (subtables ?m q) else subtables ?m q)"
      unfolding pds_def pdps' by (rule SUP_cong [OF refl])
    then have pds': "pds ?m' = insert ?p (pds ?m)"
      using mid(1) by (auto simp: pds_def split: if_splits)
    have "?p \<notin> pdps ?m" using tb(2) tb(8) by blast
    then show ?thesis using ok mid pdps' pds' tb(1-6) unfolding vb_ok_def by auto
  qed
  then show "vb_ok st'" "t = BOOT_PML4 \<Longrightarrow> ?p \<in> pdps ?m'"
    "t \<noteq> BOOT_PML4 \<Longrightarrow> pdps ?m' = pdps ?m \<and> ?p \<in> pds ?m'" by blast+
qed

subsection \<open>Mapping a page\<close>

lemma subtablesI: "unat i < 512 \<Longrightarrow> present (m (entry_addr t i)) \<Longrightarrow> PDIR_ADDR (m (entry_addr t i)) \<in> subtables m t"
  by (auto simp: subtables_def)

lemma pdpsI: "present (m (entry_addr BOOT_PML4 i)) \<Longrightarrow> unat i < 512 \<Longrightarrow>
    PDIR_ADDR (m (entry_addr BOOT_PML4 i)) \<in> pdps m"
  by (simp add: pdps_def subtablesI)

lemma pdsI: "t \<in> pdps m \<Longrightarrow> present (m (entry_addr t i)) \<Longrightarrow> unat i < 512 \<Longrightarrow>
    PDIR_ADDR (m (entry_addr t i)) \<in> pds m"
  by (auto simp: pds_def intro: subtablesI)

text \<open>Two memories that agree where a walk reads give the same translation.\<close>

lemma pd_slot_None_iff:
  "pd_slot m va = None \<longleftrightarrow>
     (let e = m (entry_addr BOOT_PML4 (ucast (PML_INDEX va))) in
      present e \<longrightarrow> \<not> present (m (entry_addr (PDIR_ADDR e) (ucast (PDP_INDEX va)))))"
  by (simp add: pd_slot_def Let_def)

lemma pd_slot_Some:
  assumes "pd_slot m va = Some a"
  obtains t q where "t \<in> pdps m" "q \<in> pds m" "a = entry_addr q (ucast (PAGE_2M_INDEX va))"
    "m (entry_addr BOOT_PML4 (ucast (PML_INDEX va))) \<in> {e. present e \<and> PDIR_ADDR e = t}"
    "m (entry_addr t (ucast (PDP_INDEX va))) \<in> {e. present e \<and> PDIR_ADDR e = q}"
proof -
  let ?e = "m (entry_addr BOOT_PML4 (ucast (PML_INDEX va)))"
  let ?e' = "m (entry_addr (PDIR_ADDR ?e) (ucast (PDP_INDEX va)))"
  have p: "present ?e" "present ?e'" "a = entry_addr (PDIR_ADDR ?e') (ucast (PAGE_2M_INDEX va))"
    using assms by (auto simp: pd_slot_def Let_def split: if_splits)
  have "PDIR_ADDR ?e \<in> pdps m" by (intro pdpsI p index_lt)
  moreover from this have "PDIR_ADDR ?e' \<in> pds m" by (intro pdsI p index_lt)
  ultimately show ?thesis using p by (intro that) auto
qed

lemma grown_slot:
  assumes ok: "vb_ok st" and g: "grown t i st st'" and t: "t = BOOT_PML4 \<or> t \<in> pdps (vb_mem st)"
    and s: "pd_slot (vb_mem st) va = Some a"
  shows "pd_slot (vb_mem st') va = Some a" and "vb_mem st' a = vb_mem st a"
proof -
  note tb = grown_tables [OF ok g] vb_ok_tables [OF ok]
  obtain p q where p: "p \<in> pdps (vb_mem st)" and q: "q \<in> pds (vb_mem st)"
    and a: "a = entry_addr q (ucast (PAGE_2M_INDEX va))"
    and e: "present (vb_mem st (entry_addr BOOT_PML4 (ucast (PML_INDEX va))))"
      "PDIR_ADDR (vb_mem st (entry_addr BOOT_PML4 (ucast (PML_INDEX va)))) = p"
    and e': "present (vb_mem st (entry_addr p (ucast (PDP_INDEX va))))"
      "PDIR_ADDR (vb_mem st (entry_addr p (ucast (PDP_INDEX va)))) = q"
    using s by (elim pd_slot_Some) auto
  have np: "\<not> present (vb_mem st (entry_addr t i))" using g by (simp add: grown_def)
  have keep: "vb_mem st' (entry_addr r j) = vb_mem st (entry_addr r j)"
    if "r \<in> tables st" "unat j < 512" "r \<noteq> t \<or> j \<noteq> i" for r j
    using grown_at [OF g tables_is_table [OF that(1)] that(2)] that tb(2) by auto
  have "vb_mem st' (entry_addr BOOT_PML4 (ucast (PML_INDEX va))) =
      vb_mem st (entry_addr BOOT_PML4 (ucast (PML_INDEX va)))"
    using keep [OF tb(7) index_lt(1) [of va]] e(1) np by auto
  moreover have "vb_mem st' (entry_addr p (ucast (PDP_INDEX va))) = vb_mem st (entry_addr p (ucast (PDP_INDEX va)))"
    using keep [OF _ index_lt(2) [of va], of p] tb(8) [OF p] e'(1) np by auto
  ultimately show "pd_slot (vb_mem st') va = Some a" using e e' a by (simp add: pd_slot_def)
  have "q \<in> tables st" "q \<noteq> t" using tb(9) [OF q] t by auto
  then show "vb_mem st' a = vb_mem st a" using keep [OF _ index_lt(3) [of va]] a by blast
qed

lemma grown_translate:
  assumes ok: "vb_ok st" and g: "grown t i st st'" and t: "t = BOOT_PML4 \<or> t \<in> pdps (vb_mem st)"
    and i: "unat i < 512"
  shows "translate (vb_mem st') va = translate (vb_mem st) va"
proof (cases "pd_slot (vb_mem st) va")
  case (Some a)
  then show ?thesis using grown_slot [OF ok g t Some] by (simp add: translate_def)
next
  case None
  note tb = grown_tables [OF ok g] vb_ok_tables [OF ok]
  have pt: "is_table (vb_page st)" using g by (simp add: grown_def)
  have tne: "t \<noteq> vb_page st" using t tb by auto
  have zero: "\<not> present (vb_mem st' (entry_addr (vb_page st) j))" if "unat j < 512" for j
    using grown_at [OF g pt that] tne by (simp add: present_def)
  have new: "PDIR_ADDR (vb_page st OR PAGE_PRESENT OR PAGE_WRITE) = vb_page st" using new_entry [OF pt] by simp
  let ?e = "vb_mem st (entry_addr BOOT_PML4 (ucast (PML_INDEX va)))"
  let ?e2 = "vb_mem st' (entry_addr BOOT_PML4 (ucast (PML_INDEX va)))"
  have "translate (vb_mem st') va = None"
  proof (cases "t = BOOT_PML4 \<and> ucast (PML_INDEX va) = i")
    case True
    then have "PDIR_ADDR ?e2 = vb_page st" using grown_at [OF g is_table_PML4 index_lt(1) [of va]] new by simp
    then have "pd_slot (vb_mem st') va = None" using zero [OF index_lt(2) [of va]] by (simp add: pd_slot_None_iff)
    then show ?thesis by (simp add: translate_def)
  next
    case False
    then have e2: "?e2 = ?e" using grown_at [OF g is_table_PML4 index_lt(1) [of va]] tb(6) by auto
    show ?thesis
    proof (cases "present ?e")
      case False
      then show ?thesis using e2 by (simp add: translate_def pd_slot_def)
    next
      case True
      let ?p = "PDIR_ADDR ?e"
      have p: "?p \<in> tables st" "?p \<noteq> BOOT_PML4" 
        using tb(8) [of ?p] pdpsI [of "vb_mem st", OF True] index_lt(1) [of va] by auto
      have at: "vb_mem st' (entry_addr ?p (ucast (PDP_INDEX va))) =
          (if ?p = t \<and> ucast (PDP_INDEX va) = i then vb_page st OR PAGE_PRESENT OR PAGE_WRITE
           else vb_mem st (entry_addr ?p (ucast (PDP_INDEX va))))"
        using grown_at [OF g tables_is_table [OF p(1)] index_lt(2) [of va]] p tb(2) by auto
      have np: "\<not> present (vb_mem st (entry_addr ?p (ucast (PDP_INDEX va))))"
        using None True by (simp add: pd_slot_None_iff)
      show ?thesis
        using e2 True at np zero [OF index_lt(3) [of va]] new by (simp add: translate_def pd_slot_def Let_def)
    qed
  qed
  then show ?thesis using None by (simp add: translate_def)
qed

lemma write_pd:
  fixes e :: u64
  assumes ok: "vb_ok st" and q: "q \<in> pds (vb_mem st)" and k: "unat k < 512"
  defines "m \<equiv> vb_mem st" and "st' \<equiv> st\<lparr>vb_mem := (vb_mem st)(entry_addr q k := e)\<rparr>"
  shows "vb_ok st'" and "pd_slot (vb_mem st') va = pd_slot m va"
    and "pd_slot m va \<noteq> Some (entry_addr q k) \<Longrightarrow> translate (vb_mem st') va = translate m va"
proof -
  note tb = vb_ok_tables [OF ok]
  have keep: "vb_mem st' (entry_addr r j) = m (entry_addr r j)"
    if r: "r = BOOT_PML4 \<or> r \<in> pdps m" and j: "unat j < 512" for r j
  proof -
    have "r \<in> tables st" "r \<noteq> q" "q \<in> tables st" using r tb(1) tb(2) [of r] tb(3) [OF q] by (auto simp: m_def)
    then show ?thesis using entry_addr_inject [of r q j k] j k
      by (auto simp: st'_def m_def tables_def)
  qed
  have "subtables (vb_mem st') r = subtables m r" if "r = BOOT_PML4 \<or> r \<in> pdps m" for r
    using keep [OF that] by (rule subtables_cong)
  then have "pdps (vb_mem st') = pdps m" "pds (vb_mem st') = pds m" by (auto simp: pdps_def pds_def)
  then show "vb_ok st'" using ok by (simp add: vb_ok_def st'_def m_def tables_def)
  show slot: "pd_slot (vb_mem st') va = pd_slot m va"
    using keep [OF _ index_lt(1) [of va]] keep [OF disjI2 [OF pdpsI [of m, OF _ index_lt(1) [of va]]] index_lt(2) [of va]]
    by (auto simp: pd_slot_def Let_def)
  show "translate (vb_mem st') va = translate m va" if "pd_slot m va \<noteq> Some (entry_addr q k)"
    using slot that by (auto simp: translate_def st'_def m_def split: option.splits)
qed

text \<open>
  Descending one level keeps the tree well formed and every translation; it needs room for a
  table only where the entry is not present.
\<close>

definition room :: "vm_boot \<Rightarrow> nat \<Rightarrow> bool" where
  "room st n \<longleftrightarrow> unat (vb_page st) + n * 4096 \<le> unat BOOT_PAGES_TOP"

definition kept :: "vm_boot \<Rightarrow> vm_boot \<Rightarrow> bool" where
  "kept st st' \<longleftrightarrow> vb_ok st' \<and> vb_lock st' = vb_lock st \<and> vb_invlpg st' = vb_invlpg st \<and>
     (\<forall>va. translate (vb_mem st') va = translate (vb_mem st) va) \<and>
     (\<forall>va a. pd_slot (vb_mem st) va = Some a \<longrightarrow> pd_slot (vb_mem st') va = Some a)"

lemma kept_refl: "vb_ok st \<Longrightarrow> kept st st"
  by (simp add: kept_def)

lemma kept_trans: "kept st st' \<Longrightarrow> kept st' st'' \<Longrightarrow> kept st st''"
  by (simp add: kept_def)

lemma grown_room: "grown t i st st' \<Longrightarrow> room st (Suc n) \<Longrightarrow> room st' n"
proof -
  assume g: "grown t i st st'" and r: "room st (Suc n)"
  then have "unat (vb_page st) < 0x30000" by (simp add: grown_def is_table_unat)
  then have "unat (vb_page st') = unat (vb_page st) + 4096"
    using g by (simp add: grown_def PAGE_4K_SIZE_def PAGE_4K_SHIFT_def unat_plus_lt)
  then show ?thesis using r by (simp add: room_def)
qed

lemma ensure_table_result:
  assumes ok: "vb_ok st" and t: "t = BOOT_PML4 \<or> t \<in> pdps (vb_mem st)" and i: "unat i < 512"
    and r: "present (vb_mem st (entry_addr t i)) \<or> room st (Suc n)"
  shows "\<exists>e st'. ensure_table t i st = Inr (e, st') \<and> kept st st' \<and> present e \<and>
    vb_mem st' (entry_addr t i) = e \<and>
    (t \<noteq> BOOT_PML4 \<longrightarrow> pdps (vb_mem st') = pdps (vb_mem st) \<and>
       (\<forall>j. unat j < 512 \<longrightarrow> vb_mem st' (entry_addr BOOT_PML4 j) = vb_mem st (entry_addr BOOT_PML4 j))) \<and>
    (room st (Suc n) \<longrightarrow> room st' n) \<and> (present (vb_mem st (entry_addr t i)) \<longrightarrow> st' = st)"
proof (cases "present (vb_mem st (entry_addr t i))")
  case True
  moreover have "room st (Suc n) \<longrightarrow> room st n" by (simp add: room_def)
  ultimately show ?thesis using ok by (simp add: ensure_table_present kept_refl)
next
  case False
  have tt: "t \<in> tables st" using t vb_ok_tables [OF ok] by auto
  have "vb_page st < BOOT_PAGES_TOP" using r False by (auto simp: room_def unat_less_iff)
  from ensure_table_grows [OF ok this tt i False] obtain st' where
    e: "ensure_table t i st = Inr (vb_page st OR PAGE_PRESENT OR PAGE_WRITE, st')" and g: "grown t i st st'"
    by blast
  have "kept st st'"
    using grown_ok(1) [OF ok g i t] grown_translate [OF ok g t i] grown_slot(1) [OF ok g t] g
    by (simp add: kept_def grown_def)
  moreover have "present (vb_page st OR PAGE_PRESENT OR PAGE_WRITE)"
    using g by (intro new_entry) (simp add: grown_def)
  moreover have "vb_mem st' (entry_addr BOOT_PML4 j) = vb_mem st (entry_addr BOOT_PML4 j)"
    if "t \<noteq> BOOT_PML4" "unat j < 512" for j
    using grown_at [OF g is_table_PML4 that(2)] that(1) grown_tables(6) [OF ok g] by auto
  ultimately show ?thesis
    using e False grown_ok(3) [OF ok g i t] grown_room [OF g] grown_at [OF g tables_is_table [OF tt] i]
    by auto
qed

lemma paddr_entry:
  assumes "PDIR_ADDR pa = pa"
  defines "e \<equiv> pa OR PAGE_PRESENT OR PAGE_WRITE OR PAGE_2MB"
  shows "present e" and "PDIR_ADDR e = pa"
proof -
  have "bit (e AND PAGE_PRESENT) 0" by (simp add: e_def PAGE_PRESENT_def bit_simps)
  then show "present e" unfolding present_def by (metis bit_0_eq bot_apply bot_bool_def)
  have "PDIR_ADDR e = PDIR_ADDR pa OR PDIR_ADDR (PAGE_PRESENT OR PAGE_WRITE OR PAGE_2MB)"
    by (simp add: PDIR_ADDR_def e_def bit.conj_disj_distrib2 or.assoc)
  also have "PDIR_ADDR (PAGE_PRESENT OR PAGE_WRITE OR PAGE_2MB) = 0"
    by (simp add: PDIR_ADDR_def PDIR_NUM_ENTRIES_def PAGE_PRESENT_def PAGE_WRITE_def PAGE_2MB_def)
  finally show "PDIR_ADDR e = pa" using assms by simp
qed

lemma pd_slot_present:
  assumes "pd_slot m va \<noteq> None"
  shows "present (m (entry_addr BOOT_PML4 (ucast (PML_INDEX va))))"
    and "present (m (entry_addr (PDIR_ADDR (m (entry_addr BOOT_PML4 (ucast (PML_INDEX va))))) (ucast (PDP_INDEX va))))"
  using assms by (simp_all add: pd_slot_None_iff Let_def)

lemma descend_result:
  fixes va :: u64
  assumes ok: "vb_ok st" and r: "pd_slot (vb_mem st) va \<noteq> None \<or> room st (Suc (Suc 0))"
  defines "i4 \<equiv> ucast (PML_INDEX va) :: u32" and "i3 \<equiv> ucast (PDP_INDEX va) :: u32"
  shows "\<exists>e4 st1 e3 st2. ensure_table BOOT_PML4 i4 st = Inr (e4, st1) \<and>
    ensure_table (PDIR_ADDR e4) i3 st1 = Inr (e3, st2) \<and> kept st st2 \<and>
    PDIR_ADDR e3 \<in> pds (vb_mem st2) \<and>
    pd_slot (vb_mem st2) va = Some (entry_addr (PDIR_ADDR e3) (ucast (PAGE_2M_INDEX va)))"
proof -
  have i: "unat i4 < 512" "unat i3 < 512" by (simp_all only: i4_def i3_def index_lt)
  have "present (vb_mem st (entry_addr BOOT_PML4 i4)) \<or> room st (Suc (Suc 0))"
    using r pd_slot_present(1) unfolding i4_def by blast
  from ensure_table_result [OF ok disjI1 [OF refl] i(1) this]
  obtain e4 st1 where e4: "ensure_table BOOT_PML4 i4 st = Inr (e4, st1)" "kept st st1" "present e4"
    "vb_mem st1 (entry_addr BOOT_PML4 i4) = e4" "room st (Suc (Suc 0)) \<longrightarrow> room st1 (Suc 0)"
    "present (vb_mem st (entry_addr BOOT_PML4 i4)) \<longrightarrow> st1 = st" by blast
  have ok1: "vb_ok st1" using e4(2) by (simp add: kept_def)
  have t: "PDIR_ADDR e4 \<in> pdps (vb_mem st1)" using pdpsI [of "vb_mem st1" i4] e4(3,4) i(1) by simp
  have "present (vb_mem st1 (entry_addr (PDIR_ADDR e4) i3)) \<or> room st1 (Suc 0)"
    using r pd_slot_present [of "vb_mem st" va] e4(4,5,6) unfolding i4_def i3_def by metis
  from ensure_table_result [OF ok1 disjI2 [OF t] i(2) this]
  obtain e3 st2 where e3: "ensure_table (PDIR_ADDR e4) i3 st1 = Inr (e3, st2)" "kept st1 st2" "present e3"
    "vb_mem st2 (entry_addr (PDIR_ADDR e4) i3) = e3"
    "PDIR_ADDR e4 \<noteq> BOOT_PML4 \<longrightarrow> pdps (vb_mem st2) = pdps (vb_mem st1) \<and>
       (\<forall>j. unat j < 512 \<longrightarrow> vb_mem st2 (entry_addr BOOT_PML4 j) = vb_mem st1 (entry_addr BOOT_PML4 j))"
    by blast
  have "PDIR_ADDR e4 \<noteq> BOOT_PML4" using vb_ok_tables(2) [OF ok1 t] by simp
  then have t2: "PDIR_ADDR e4 \<in> pdps (vb_mem st2)" "vb_mem st2 (entry_addr BOOT_PML4 i4) = e4"
    using e3(5) t e4(4) i(1) by simp_all
  have "PDIR_ADDR e3 \<in> pds (vb_mem st2)" using pdsI [OF t2(1), of i3] e3(3,4) i(2) by simp
  moreover have "pd_slot (vb_mem st2) va = Some (entry_addr (PDIR_ADDR e3) (ucast (PAGE_2M_INDEX va)))"
    using e4(3) e3(3,4) t2(2) by (simp add: pd_slot_def i4_def i3_def)
  ultimately show ?thesis using e4(1) e3(1) kept_trans [OF e4(2) e3(2)] by blast
qed

lemma map_page_result:
  assumes ok: "vb_ok st" and pa: "PDIR_ADDR pa = pa"
    and r: "pd_slot (vb_mem st) va \<noteq> None \<or> room st (Suc (Suc 0))"
  shows "\<exists>st' a. vm_boot_map_page va pa st = Inr st' \<and> vb_ok st' \<and>
    pd_slot (vb_mem st') va = Some a \<and> translate (vb_mem st') va = Some pa \<and>
    (\<forall>va'. pd_slot (vb_mem st') va' \<noteq> Some a \<longrightarrow> translate (vb_mem st') va' = translate (vb_mem st) va') \<and>
    (\<forall>va' a'. pd_slot (vb_mem st) va' = Some a' \<longrightarrow> pd_slot (vb_mem st') va' = Some a') \<and>
    vb_lock st' = vb_lock st \<and>
    vb_invlpg st' = vb_invlpg st @ (if translate (vb_mem st) va = Some pa then [] else [va])"
proof -
  let ?i2 = "ucast (PAGE_2M_INDEX va) :: u32"
  obtain e4 st1 e3 st2 where d: "ensure_table BOOT_PML4 (ucast (PML_INDEX va)) st = Inr (e4, st1)"
    "ensure_table (PDIR_ADDR e4) (ucast (PDP_INDEX va)) st1 = Inr (e3, st2)" and k2: "kept st st2"
    and q: "PDIR_ADDR e3 \<in> pds (vb_mem st2)"
    and slot: "pd_slot (vb_mem st2) va = Some (entry_addr (PDIR_ADDR e3) ?i2)"
    using descend_result [OF ok r] by blast
  define a where "a = entry_addr (PDIR_ADDR e3) ?i2"
  define e where "e = vb_mem st2 a"
  define n where "n = pa OR PAGE_PRESENT OR PAGE_WRITE OR PAGE_2MB"
  define st3 where "st3 = st2\<lparr>vb_mem := (vb_mem st2)(a := n)\<rparr>"
  have ok2: "vb_ok st2" using k2 by (simp add: kept_def)
  have eq: "vm_boot_map_page va pa st = Inr (if \<not> present e \<or> PDIR_ADDR e \<noteq> pa
      then st3\<lparr>vb_invlpg := vb_invlpg st2 @ [va]\<rparr> else st2)"
    unfolding vm_boot_map_page_def Let_def d rbind_simps prod.case a_def [symmetric] e_def [symmetric]
    by (simp add: st3_def n_def present_def)
  have sl: "pd_slot (vb_mem st2) va = Some a" using slot by (simp add: a_def)
  have "translate (vb_mem st) va = translate (vb_mem st2) va" using k2 by (simp add: kept_def)
  then have tr: "translate (vb_mem st) va = (if present e then Some (PDIR_ADDR e) else None)"
    using sl by (simp add: translate_def e_def)
  note w = write_pd [OF ok2 q index_lt(3) [of va], where e = n, folded a_def, folded st3_def]
  show ?thesis
  proof (cases "present e \<and> PDIR_ADDR e = pa")
    case True
    then have "vm_boot_map_page va pa st = Inr st2" "translate (vb_mem st) va = Some pa"
      using eq tr by simp_all
    with ok2 sl k2 show ?thesis by (intro exI [of _ st2] exI [of _ a]) (simp add: kept_def)
  next
    case False
    let ?st = "st3\<lparr>vb_invlpg := vb_invlpg st2 @ [va]\<rparr>"
    have m: "vm_boot_map_page va pa st = Inr ?st" and ne: "translate (vb_mem st) va \<noteq> Some pa"
      using eq tr False by auto
    have "translate (vb_mem st3) va = Some pa"
      using w(2) [of va] sl paddr_entry [OF pa] by (simp add: translate_def st3_def n_def)
    moreover have "vb_ok ?st" using w(1) by (simp add: vb_ok_def tables_def)
    moreover have "vb_lock st3 = vb_lock st" "vb_invlpg st2 = vb_invlpg st"
      using k2 by (simp_all add: st3_def kept_def)
    ultimately show ?thesis
      using m ne w(2,3) sl k2 by (intro exI [of _ ?st] exI [of _ a]) (simp add: kept_def)
  qed
qed

subsection \<open>Mapping a range\<close>

text \<open>
  A range inside one gigabyte uses one page directory, so its pages have different entries of it.
\<close>

lemma unat_index:
  "unat (ucast (PML_INDEX va) :: u32) = unat va div 2 ^ 39 mod 512"
  "unat (ucast (PDP_INDEX va) :: u32) = unat va div 2 ^ 30 mod 512"
  "unat (ucast (PAGE_2M_INDEX va) :: u32) = unat va div 2 ^ 21 mod 512"
proof -
  have *: "unat (ucast (drop_bit n va AND 0x1FF :: u64) :: u32) = unat va div 2 ^ n mod 512" for n
  proof -
    have "(0x1FF :: u64) = mask 9" by (simp add: mask_eq_exp_minus_1)
    then have "unat (drop_bit n va AND 0x1FF) = unat va div 2 ^ n mod 2 ^ 9"
      by (simp only: unat_and_mask unat_drop_bit)
    then have e: "unat (drop_bit n va AND 0x1FF) = unat va div 2 ^ n mod 512" by simp
    then have "unat (drop_bit n va AND 0x1FF) < 512" by simp
    then show ?thesis using e by (subst unat_ucast_down) auto
  qed
  show "unat (ucast (PML_INDEX va) :: u32) = unat va div 2 ^ 39 mod 512"
    "unat (ucast (PDP_INDEX va) :: u32) = unat va div 2 ^ 30 mod 512"
    "unat (ucast (PAGE_2M_INDEX va) :: u32) = unat va div 2 ^ 21 mod 512"
    using *[of 39] *[of 30] *[of 21]
    by (simp_all only: PML_INDEX_def PDP_INDEX_def PAGE_2M_INDEX_def PML_SHIFT_def PDP_SHIFT_def PAGE_2M_SHIFT_def)
qed

lemma same_gb_index:
  fixes va va' :: u64
  assumes "unat va div 2 ^ 30 = unat va' div 2 ^ 30"
  shows "(ucast (PML_INDEX va) :: u32) = ucast (PML_INDEX va')"
    and "(ucast (PDP_INDEX va) :: u32) = ucast (PDP_INDEX va')"
proof -
  have "x div 2 ^ 39 = x div 2 ^ 30 div 2 ^ 9" for x :: nat by (simp flip: div_mult2_eq)
  then show "(ucast (PML_INDEX va) :: u32) = ucast (PML_INDEX va')"
    "(ucast (PDP_INDEX va) :: u32) = ucast (PDP_INDEX va')"
    using assms unfolding unat_eq_iff [symmetric] unat_index by simp_all
qed

lemma same_gb_slot:
  fixes va va' :: u64
  assumes ok: "vb_ok st" and gb: "unat va div 2 ^ 30 = unat va' div 2 ^ 30"
    and s: "pd_slot (vb_mem st) va = Some a"
  shows "\<exists>a'. pd_slot (vb_mem st) va' = Some a' \<and> (a' = a \<longleftrightarrow> unat va div 2 ^ 21 = unat va' div 2 ^ 21)"
proof -
  from s obtain t q where q: "q \<in> pds (vb_mem st)" and a: "a = entry_addr q (ucast (PAGE_2M_INDEX va))"
    and e: "present (vb_mem st (entry_addr BOOT_PML4 (ucast (PML_INDEX va))))"
      "PDIR_ADDR (vb_mem st (entry_addr BOOT_PML4 (ucast (PML_INDEX va)))) = t"
      "present (vb_mem st (entry_addr t (ucast (PDP_INDEX va))))"
      "PDIR_ADDR (vb_mem st (entry_addr t (ucast (PDP_INDEX va)))) = q"
    by (elim pd_slot_Some) auto
  have s': "pd_slot (vb_mem st) va' = Some (entry_addr q (ucast (PAGE_2M_INDEX va')))"
    using e same_gb_index [OF gb] by (simp add: pd_slot_def)
  have qt: "is_table q" using vb_ok_tables(3) [OF ok q] by (simp add: tables_def)
  have "unat va div 2 ^ 21 div 512 = unat va' div 2 ^ 21 div 512" using gb by (simp flip: div_mult2_eq)
  then have "unat va div 2 ^ 21 mod 512 = unat va' div 2 ^ 21 mod 512 \<longleftrightarrow>
      unat va div 2 ^ 21 = unat va' div 2 ^ 21" by (metis div_mult_mod_eq)
  then have "(ucast (PAGE_2M_INDEX va') :: u32) = ucast (PAGE_2M_INDEX va) \<longleftrightarrow>
      unat va div 2 ^ 21 = unat va' div 2 ^ 21"
    unfolding unat_eq_iff [symmetric, where 'a = 32] unat_index by auto
  then have "entry_addr q (ucast (PAGE_2M_INDEX va')) = a \<longleftrightarrow> unat va div 2 ^ 21 = unat va' div 2 ^ 21"
    using entry_addr_inject [OF qt qt index_lt(3) [of va'] index_lt(3) [of va]] a by simp
  then show ?thesis using s' by blast
qed

definition in_one_gb :: "u64 \<Rightarrow> nat \<Rightarrow> bool" where
  "in_one_gb va n \<longleftrightarrow> unat va mod 2 ^ 30 + n * 2 ^ 21 \<le> 2 ^ 30"

definition nth_page :: "u64 \<Rightarrow> nat \<Rightarrow> u64" where
  "nth_page va k = va + of_nat k * PAGE_2M_SIZE"

lemma nth_page_simps [simp]: "nth_page va 0 = va" "nth_page (va + PAGE_2M_SIZE) k = nth_page va (Suc k)"
  by (simp_all add: nth_page_def algebra_simps)

lemma unat_PAGE_2M_SIZE: "unat PAGE_2M_SIZE = 2 ^ 21"
  by (simp add: PAGE_2M_SIZE_def PAGE_2M_SHIFT_def)

lemma div_add_within:
  fixes v w m :: nat
  assumes "v mod m + w < m"
  shows "(v + w) div m = v div m"
  using assms by (simp add: div_add1_eq [of v w m])

lemma div_add_bound:
  fixes v w m :: nat
  assumes "v mod m + w < m" and "v < m * n"
  shows "v + w < m * n"
proof -
  have "(v + w) div m < n" using assms div_add_within [OF assms(1)] by (simp add: less_mult_imp_div_less mult.commute)
  then show ?thesis using assms(1) by (metis div_less_iff_less_mult mult.commute gr_zeroI not_less_zero)
qed

lemma nth_page_unat:
  assumes "in_one_gb va n" and "k < n"
  shows "unat (nth_page va k) = unat va + k * 2 ^ 21"
    and "unat (nth_page va k) div 2 ^ 30 = unat va div 2 ^ 30"
proof -
  have "k * 2 ^ 21 < n * (2 ^ 21 :: nat)" using assms(2) by simp
  then have le: "unat va mod 2 ^ 30 + k * 2 ^ 21 < 2 ^ 30"
    using assms(1) unfolding in_one_gb_def by linarith
  then have k: "k < 512" by simp
  have u: "unat (of_nat k * PAGE_2M_SIZE) = k * 2 ^ 21"
    using k by (simp add: unat_word_ariths unat_PAGE_2M_SIZE unat_of_nat_lt)
  have "unat va < 2 ^ 30 * 2 ^ 34" using unsigned_less [of va, where 'a = nat] by simp
  then have "unat va + k * 2 ^ 21 < 2 ^ 30 * 2 ^ 34" by (rule div_add_bound [OF le])
  then show nu: "unat (nth_page va k) = unat va + k * 2 ^ 21"
    unfolding nth_page_def by (subst unat_plus_lt) (simp_all add: u)
  show "unat (nth_page va k) div 2 ^ 30 = unat va div 2 ^ 30"
    unfolding nu by (rule div_add_within [OF le])
qed

lemma in_one_gb_next:
  assumes "in_one_gb va (Suc n)"
  shows "in_one_gb (va + PAGE_2M_SIZE) n"
proof (cases n)
  case 0
  then show ?thesis by (simp add: in_one_gb_def less_imp_le)
next
  case (Suc m)
  have u: "unat (va + PAGE_2M_SIZE) = unat va + 2 ^ 21"
    and g: "unat (va + PAGE_2M_SIZE) div 2 ^ 30 = unat va div 2 ^ 30"
    using nth_page_unat [OF assms, of 1] Suc by (simp_all add: nth_page_def)
  have "unat (va + PAGE_2M_SIZE) mod 2 ^ 30 = unat va mod 2 ^ 30 + 2 ^ 21"
    using u div_mult_mod_eq [of "unat va" "2 ^ 30"] div_mult_mod_eq [of "unat (va + PAGE_2M_SIZE)" "2 ^ 30"]
    unfolding g by linarith
  then show ?thesis using assms by (simp add: in_one_gb_def)
qed

lemma aligned_paddr:
  fixes pa :: u64
  assumes "unat pa mod 2 ^ 21 = 0"
  shows "PDIR_ADDR pa = pa" and "unat (pa + PAGE_2M_SIZE) mod 2 ^ 21 = 0"
proof -
  have "unat (pa AND mask 21) = 0" using assms by (simp only: unat_and_mask)
  then have "pa AND mask 21 = 0" by (simp flip: unat_eq_iff)
  have nb: "\<not> bit pa n" if "n < 21" for n
  proof -
    have "\<not> bit (pa AND mask 21) n" using \<open>pa AND mask 21 = 0\<close> by simp
    then show ?thesis using that by (simp add: bit_simps)
  qed
  have "PDIR_NUM_ENTRIES - 1 = mask 9" by (simp add: PDIR_NUM_ENTRIES_def mask_eq_exp_minus_1)
  then show "PDIR_ADDR pa = pa"
    unfolding PDIR_ADDR_def by (intro bit_word_eqI) (use nb in \<open>auto simp: bit_simps\<close>)
  have "unat (pa + PAGE_2M_SIZE) mod 2 ^ 21 = (unat pa + 2 ^ 21) mod 2 ^ 64 mod 2 ^ 21"
    by (simp add: unat_word_ariths unat_PAGE_2M_SIZE)
  also have "\<dots> = (unat pa + 2 ^ 21) mod 2 ^ 21" by (rule mod_mod_cancel) (simp add: dvd_def)
  finally show "unat (pa + PAGE_2M_SIZE) mod 2 ^ 21 = 0" using assms by simp
qed

text \<open>What mapping \<open>n\<close> pages from \<open>va\<close> to \<open>pa\<close> achieves and leaves alone.\<close>

definition mapped_range :: "nat \<Rightarrow> u64 \<Rightarrow> u64 \<Rightarrow> vm_boot \<Rightarrow> vm_boot \<Rightarrow> bool" where
  "mapped_range n va pa st st' \<longleftrightarrow>
     (\<forall>k<n. translate (vb_mem st') (nth_page va k) = Some (nth_page pa k)) \<and>
     (\<forall>va'. (\<forall>k<n. pd_slot (vb_mem st') va' \<noteq> pd_slot (vb_mem st') (nth_page va k)) \<longrightarrow>
        translate (vb_mem st') va' = translate (vb_mem st) va') \<and>
     (\<forall>va' a. pd_slot (vb_mem st) va' = Some a \<longrightarrow> pd_slot (vb_mem st') va' = Some a)"

lemma mapped_range_Suc:
  assumes ok: "vb_ok st2" and gb: "in_one_gb va (Suc n)" and s: "pd_slot (vb_mem st1) va = Some a"
    and t: "translate (vb_mem st1) va = Some pa"
    and fr: "\<forall>va'. pd_slot (vb_mem st1) va' \<noteq> Some a \<longrightarrow> translate (vb_mem st1) va' = translate (vb_mem st) va'"
    and sl: "\<forall>va' a'. pd_slot (vb_mem st) va' = Some a' \<longrightarrow> pd_slot (vb_mem st1) va' = Some a'"
    and r: "mapped_range n (va + PAGE_2M_SIZE) (pa + PAGE_2M_SIZE) st1 st2"
  shows "mapped_range (Suc n) va pa st st2"
proof -
  have s2: "pd_slot (vb_mem st2) va = Some a" using r s by (simp add: mapped_range_def)
  have ne: "pd_slot (vb_mem st2) va \<noteq> pd_slot (vb_mem st2) (nth_page va (Suc k))" if "k < n" for k
  proof -
    have u: "unat (nth_page va (Suc k)) = unat va + Suc k * 2 ^ 21"
      and g: "unat va div 2 ^ 30 = unat (nth_page va (Suc k)) div 2 ^ 30"
      using nth_page_unat [OF gb, of "Suc k"] that by simp_all
    have "unat va div 2 ^ 21 \<noteq> unat (nth_page va (Suc k)) div 2 ^ 21" by (simp add: u)
    then show ?thesis using same_gb_slot [OF ok g s2] s2 by auto
  qed
  have "translate (vb_mem st2) va = Some pa" using r t ne by (simp add: mapped_range_def)
  then have "translate (vb_mem st2) (nth_page va k) = Some (nth_page pa k)" if "k < Suc n" for k
    using r that by (cases k) (simp_all add: mapped_range_def)
  moreover have "translate (vb_mem st2) va' = translate (vb_mem st) va'"
    if "\<forall>k<Suc n. pd_slot (vb_mem st2) va' \<noteq> pd_slot (vb_mem st2) (nth_page va k)" for va'
  proof -
    have "pd_slot (vb_mem st2) va' \<noteq> Some a" using that [rule_format, of 0] s2 by simp
    then have "pd_slot (vb_mem st1) va' \<noteq> Some a" using r by (auto simp: mapped_range_def)
    moreover have "\<forall>k<n. pd_slot (vb_mem st2) va' \<noteq> pd_slot (vb_mem st2) (nth_page va (Suc k))"
      using that by simp
    ultimately show ?thesis using r fr by (simp add: mapped_range_def)
  qed
  ultimately show ?thesis using r sl by (simp add: mapped_range_def)
qed

lemma map_pages_result:
  assumes "vb_ok st" and "unat pa mod 2 ^ 21 = 0" and "in_one_gb va n"
    and "pd_slot (vb_mem st) va \<noteq> None \<or> room st (Suc (Suc 0))"
  shows "\<exists>st'. map_pages n va pa st = Inr st' \<and> vb_ok st' \<and> mapped_range n va pa st st' \<and> vb_lock st' = vb_lock st"
  using assms
proof (induction n arbitrary: va pa st)
  case 0
  then show ?case by (simp add: mapped_range_def)
next
  case (Suc n)
  from map_page_result [OF Suc.prems(1) aligned_paddr(1) [OF Suc.prems(2)] Suc.prems(4)]
  obtain st1 a where 1: "vm_boot_map_page va pa st = Inr st1" "vb_ok st1" "pd_slot (vb_mem st1) va = Some a"
    "translate (vb_mem st1) va = Some pa" "vb_lock st1 = vb_lock st"
    and fr: "\<forall>va'. pd_slot (vb_mem st1) va' \<noteq> Some a \<longrightarrow> translate (vb_mem st1) va' = translate (vb_mem st) va'"
    and sl: "\<forall>va' a'. pd_slot (vb_mem st) va' = Some a' \<longrightarrow> pd_slot (vb_mem st1) va' = Some a'"
    by blast
  show ?case
  proof (cases n)
    case 0
    then show ?thesis using 1 fr sl by (simp add: mapped_range_def)
  next
    case (Suc m)
    then have "unat (va + PAGE_2M_SIZE) div 2 ^ 30 = unat va div 2 ^ 30"
      using nth_page_unat(2) [OF Suc.prems(3), of 1] by (simp add: nth_page_def)
    then have "pd_slot (vb_mem st1) (va + PAGE_2M_SIZE) \<noteq> None"
      using same_gb_slot [OF 1(2) _ 1(3)] by (metis option.distinct(1))
    then obtain st2 where 2: "map_pages n (va + PAGE_2M_SIZE) (pa + PAGE_2M_SIZE) st1 = Inr st2" "vb_ok st2"
      "mapped_range n (va + PAGE_2M_SIZE) (pa + PAGE_2M_SIZE) st1 st2" "vb_lock st2 = vb_lock st1"
      using Suc.IH [OF 1(2) aligned_paddr(2) [OF Suc.prems(2)] in_one_gb_next [OF Suc.prems(3)]] by blast
    then show ?thesis
      using mapped_range_Suc [OF 2(2) Suc.prems(3) 1(3,4) fr sl 2(3)] 1(1,5) by simp
  qed
qed

subsection \<open>Rounding\<close>

lemma unat_and_not_mask: "unat (x AND NOT (mask n)) = unat (x :: 'a::len word) div 2 ^ n * 2 ^ n"
proof -
  have "x AND NOT (mask n) = push_bit n (drop_bit n x)"
    by (rule bit_word_eqI) (auto simp: bit_simps)
  moreover have "unat x div 2 ^ n * 2 ^ n < 2 ^ LENGTH('a)"
    using unsigned_less [of x, where 'a = nat] by (meson div_times_less_eq_dividend le_less_trans)
  ultimately show ?thesis by (simp add: unat_push_bit_lt unat_drop_bit)
qed

definition round_up :: "nat \<Rightarrow> nat \<Rightarrow> nat" where
  "round_up x m = (x + (m - 1)) div m * m"

lemma round_up_bounds:
  assumes "0 < m"
  shows "x \<le> round_up x m" and "round_up x m < x + m" and "round_up x m mod m = 0"
proof -
  have e: "(x + (m - 1)) div m * m + (x + (m - 1)) mod m = x + (m - 1)" by simp
  have l: "(x + (m - 1)) mod m < m" using assms by simp
  show "x \<le> round_up x m" "round_up x m < x + m"
    using e l assms unfolding round_up_def by linarith+
  show "round_up x m mod m = 0" by (simp add: round_up_def)
qed

lemma round_up_le:
  assumes "0 < m" and "x \<le> y" and "y mod m = 0"
  shows "round_up x m \<le> y"
  using multiple_step [OF round_up_bounds(3) [OF assms(1), of x] assms(3)] round_up_bounds(2) [OF assms(1), of x] assms(2)
  by linarith

lemma round_up_aligned: "0 < m \<Longrightarrow> x mod m = 0 \<Longrightarrow> round_up x m = x"
  using round_up_le [of m x x] round_up_bounds(1) [of m x] by simp

lemma unat_2M_NUM:
  assumes "unat x + 2 ^ 21 \<le> 2 ^ 64"
  shows "unat (PAGE_2M_NUM x) * 2 ^ 21 = round_up (unat x) (2 ^ 21)"
    and "unat (PAGE_2M_ROUND x) = round_up (unat x) (2 ^ 21)"
proof -
  have "unat (PAGE_2M_SIZE - 1) = 2 ^ 21 - 1" by (simp add: PAGE_2M_SIZE_def PAGE_2M_SHIFT_def)
  then have u: "unat (x + (PAGE_2M_SIZE - 1)) = unat x + (2 ^ 21 - 1)"
    using assms by (simp add: unat_plus_lt)
  show "unat (PAGE_2M_NUM x) * 2 ^ 21 = round_up (unat x) (2 ^ 21)"
    by (simp only: PAGE_2M_NUM_def PAGE_2M_SHIFT_def unat_drop_bit u round_up_def)
  show "unat (PAGE_2M_ROUND x) = round_up (unat x) (2 ^ 21)"
    by (simp only: PAGE_2M_ROUND_def PAGE_2M_MASK_def mask_2M unat_and_not_mask round_up_def
        u [unfolded mask_2M])
qed

lemma unat_ALIGN_UP:
  assumes "a < 64" and "unat x + 2 ^ a \<le> 2 ^ 64"
  shows "unat (ALIGN_UP x (push_bit a 1)) = round_up (unat x) (2 ^ a)"
proof -
  have m: "push_bit a 1 - 1 = (mask a :: u64)" by (simp add: mask_eq_exp_minus_1)
  have "(2 :: nat) ^ a < 2 ^ 64" using assms(1) by (intro power_strict_increasing) auto
  then have "unat (push_bit a 1 :: u64) = unat (1 :: u64) * 2 ^ a"
    by (intro unat_push_bit_lt) simp
  then have up: "unat (push_bit a 1 :: u64) = 2 ^ a" by simp
  then have "push_bit a (1 :: u64) \<noteq> 0" by (metis unat_0 power_not_zero zero_neq_numeral)
  then have um: "unat (mask a :: u64) = 2 ^ a - 1"
    unfolding m [symmetric] by (subst unat_minus1) (simp_all only: up not_False_eq_True)
  have "ALIGN_UP x (push_bit a 1) = (x + mask a) AND NOT (mask a)"
    using m by (simp add: ALIGN_UP_def algebra_simps) 
  moreover have "unat (x + mask a) = unat x + (2 ^ a - 1)"
    using assms um by (subst unat_plus_lt) auto
  ultimately show ?thesis by (simp add: unat_and_not_mask round_up_def)
qed

lemma map_range_result:
  assumes ok: "vb_ok st" and free: "vb_lock st = 0" and sz: "unat sz \<le> 2 ^ 30"
    and n: "n = unat (PAGE_2M_NUM (sz + (va AND (PAGE_2M_SIZE - 1))))"
    and gb: "in_one_gb (va AND PAGE_2M_MASK) n"
    and r: "pd_slot (vb_mem st) (va AND PAGE_2M_MASK) \<noteq> None \<or> room st (Suc (Suc 0))"
  shows "\<exists>st'. vm_boot_map_range va pa sz st = Inr st' \<and> vb_ok st' \<and> vb_lock st' = 0 \<and>
    mapped_range n (va AND PAGE_2M_MASK) (pa AND PAGE_2M_MASK) st st'"
    and "unat va + unat sz \<le> unat (va AND PAGE_2M_MASK) + n * 2 ^ 21"
proof -
  let ?va = "va AND PAGE_2M_MASK" and ?pa = "pa AND PAGE_2M_MASK" and ?st = "st\<lparr>vb_lock := 1\<rparr>"
  have ok1: "vb_ok ?st" using ok by (simp add: vb_ok_def tables_def)
  have pm: "unat ?pa mod 2 ^ 21 = 0" by (simp only: PAGE_2M_MASK_def mask_2M unat_and_not_mask mod_mult_self2_is_0)
  have r1: "pd_slot (vb_mem ?st) ?va \<noteq> None \<or> room ?st (Suc (Suc 0))" using r by (simp add: room_def)
  obtain st2 where 2: "map_pages n ?va ?pa ?st = Inr st2" "vb_ok st2" "mapped_range n ?va ?pa ?st st2"
    "vb_lock st2 = 1"
    using map_pages_result [OF ok1 pm gb r1] by auto
  have "vm_boot_map_range va pa sz st = Inr (st2\<lparr>vb_lock := 0\<rparr>)"
    using free 2(1,4) by (simp add: vm_boot_map_range_def Let_def n [symmetric])
  moreover have "vb_ok (st2\<lparr>vb_lock := 0\<rparr>)" using 2(2) by (simp add: vb_ok_def tables_def)
  moreover have "mapped_range n ?va ?pa st (st2\<lparr>vb_lock := 0\<rparr>)" using 2(3) by (simp add: mapped_range_def)
  ultimately show "\<exists>st'. vm_boot_map_range va pa sz st = Inr st' \<and> vb_ok st' \<and> vb_lock st' = 0 \<and>
    mapped_range n ?va ?pa st st'" by auto
  let ?o = "va AND (PAGE_2M_SIZE - 1)"
  have o: "unat ?o = unat va mod 2 ^ 21" by (simp only: mask_2M unat_and_mask)
  have v: "unat ?va = unat va div 2 ^ 21 * 2 ^ 21" by (simp only: PAGE_2M_MASK_def mask_2M unat_and_not_mask)
  have "unat ?o < 2 ^ 21" unfolding o by simp
  then have u: "unat (sz + ?o) = unat sz + unat ?o" using sz by (intro unat_plus_lt) simp
  have "n * 2 ^ 21 = round_up (unat (sz + ?o)) (2 ^ 21)"
    unfolding n by (rule unat_2M_NUM) (use u sz \<open>unat ?o < 2 ^ 21\<close> in simp)
  then have "unat sz + unat ?o \<le> n * 2 ^ 21" using round_up_bounds(1) [of "2 ^ 21" "unat (sz + ?o)"] u by simp
  then show "unat va + unat sz \<le> unat ?va + n * 2 ^ 21"
    using v o div_mult_mod_eq [of "unat va" "2 ^ 21"] by linarith
qed

subsection \<open>The tables the bootstrap leaves\<close>

text \<open>
  \<^verbatim>\<open>boot.S\<close> clears the table area, fills the first \<open>n\<close> entries of one page directory in its
  \<^verbatim>\<open>map_loop\<close>, and links that directory below address 0 and below \<^verbatim>\<open>KERNEL_BASE\<close>.
\<close>

primrec map_loop :: "nat \<Rightarrow> u64 \<Rightarrow> u64 \<Rightarrow> wmem \<Rightarrow> wmem" where
  "map_loop 0 p e m = m"
| "map_loop (Suc n) p e m = map_loop n (p + 8) (e + 0x200000) (m(p := e))"

definition boot_tables :: "nat \<Rightarrow> wmem" where
  "boot_tables n =
     (map_loop n (entry_addr 0x11000 0) 0x83 (\<lambda>_. 0))
       (entry_addr 0x13000 0 := 0x11003, entry_addr 0x12000 510 := 0x11003,
        entry_addr 0x10000 0 := 0x13003, entry_addr 0x10000 511 := 0x12003)"

definition boot_vm :: "nat \<Rightarrow> vm_boot" where
  "boot_vm n = vm_boot_init \<lparr>vb_mem = boot_tables n, vb_page = 0, vb_lock = 0, vb_invlpg = []\<rparr>"

lemma map_loop_other: "(\<And>k. k < n \<Longrightarrow> a \<noteq> p + 8 * of_nat k) \<Longrightarrow> map_loop n p e m a = m a"
proof (induction n arbitrary: p e m)
  case 0
  show ?case by simp
next
  case (Suc n)
  have "a \<noteq> p" using Suc.prems [of 0] by simp
  moreover have "a \<noteq> p + 8 + 8 * of_nat k" if "k < n" for k
    using Suc.prems [of "Suc k"] that by (simp add: algebra_simps)
  ultimately show ?case using Suc.IH [of "p + 8"] by simp
qed

lemma entry_addr_nth: "k < 512 \<Longrightarrow> entry_addr p 0 + 8 * of_nat k = entry_addr p (of_nat k)"
proof -
  assume "k < 512"
  then have "(ucast (of_nat k :: u32) :: u64) = of_nat k" by (simp add: unat_of_nat_lt flip: unat_eq_iff)
  then show ?thesis by (simp add: entry_addr_def)
qed

lemma map_loop_at:
  assumes "n \<le> 512" and "k < n"
  shows "map_loop n p e m (p + 8 * of_nat k) = e + of_nat k * 0x200000"
  using assms
proof (induction n arbitrary: p k e m)
  case 0
  then show ?case by simp
next
  case (Suc n)
  show ?case
  proof (cases k)
    case 0
    have "p \<noteq> p + 8 + 8 * of_nat j" if "j < n" for j
    proof -
      have "unat (8 + 8 * of_nat j :: u64) = 8 + 8 * j"
        using that Suc.prems by (simp add: unat_word_ariths unat_of_nat_lt)
      then have "(8 + 8 * of_nat j :: u64) \<noteq> 0" by (metis unat_0 add_is_0 zero_neq_numeral)
      then show ?thesis by (simp add: add.assoc)
    qed
    then show ?thesis using 0 by (simp add: map_loop_other)
  next
    case (Suc j)
    then show ?thesis using Suc.IH [of j "p + 8" "e + 0x200000"] Suc.prems by (simp add: algebra_simps)
  qed
qed

lemma boot_tables_at:
  assumes n: "n \<le> 512" and q: "is_table q" and j: "unat j < 512"
  shows "boot_tables n (entry_addr q j) =
    (if q = 0x10000 \<and> j = 511 then 0x12003 else if q = 0x10000 \<and> j = 0 then 0x13003
     else if q = 0x12000 \<and> j = 510 then 0x11003 else if q = 0x13000 \<and> j = 0 then 0x11003
     else if q = 0x11000 \<and> unat j < n then 0x83 + of_nat (unat j) * 0x200000 else 0)"
proof -
  have t: "is_table 0x10000" "is_table 0x11000" "is_table 0x12000" "is_table 0x13000"
    by (simp_all add: is_table_unat)
  have inj: "entry_addr q j = entry_addr p i \<longleftrightarrow> q = p \<and> j = i" if "is_table p" "unat i < 512" for p i
    using entry_addr_inject [OF q that(1) j that(2)] .
  have "map_loop n (entry_addr 0x11000 0) 0x83 (\<lambda>_. 0) (entry_addr q j) =
      (if q = 0x11000 \<and> unat j < n then 0x83 + of_nat (unat j) * 0x200000 else 0)"
  proof (cases "q = 0x11000 \<and> unat j < n")
    case True
    have "entry_addr q j = entry_addr 0x11000 0 + 8 * of_nat (unat j)"
      using True entry_addr_nth [OF j, of "0x11000"] by simp
    then show ?thesis using map_loop_at [OF n, of "unat j"] True by simp
  next
    case False
    have "entry_addr q j \<noteq> entry_addr 0x11000 0 + 8 * of_nat k" if "k < n" for k
    proof -
      have k: "k < 512" using that n by simp
      then have "unat (of_nat k :: u32) = k" by (intro unat_of_nat_lt) simp
      then show ?thesis using False that inj [OF t(2), of "of_nat k"] k entry_addr_nth [OF k, of "0x11000"]
        by auto
    qed
    then have "map_loop n (entry_addr 0x11000 0) 0x83 (\<lambda>_. 0) (entry_addr q j) = 0"
      by (rule map_loop_other)
    then show ?thesis using False by (simp only: if_False)
  qed
  moreover have u: "unat (511 :: u32) < 512" "unat (510 :: u32) < 512" "unat (0 :: u32) < 512" by simp_all
  ultimately show ?thesis
    unfolding boot_tables_def fun_upd_apply inj [OF t(1) u(1)] inj [OF t(1) u(3)]
      inj [OF t(3) u(2)] inj [OF t(4) u(3)] by (simp only:)
qed

lemma PDIR_ADDR_boot: "PDIR_ADDR 0x12003 = 0x12000" "PDIR_ADDR 0x13003 = 0x13000" "PDIR_ADDR 0x11003 = 0x11000"
  "present 0x12003" "present 0x13003" "present 0x11003" "\<not> present 0"
  by (simp_all add: PDIR_ADDR_def PDIR_NUM_ENTRIES_def present_def PAGE_PRESENT_def)

lemma boot_vm_ok:
  assumes n: "n \<le> 512"
  shows "vb_ok (boot_vm n)"
proof -
  have t: "is_table 0x10000" "is_table 0x11000" "is_table 0x12000" "is_table 0x13000"
    by (simp_all add: is_table_unat)
  let ?m = "boot_tables n"
  have "?m (entry_addr 0x10000 i) \<noteq> 0x12003 \<and> ?m (entry_addr 0x10000 i) \<noteq> 0x13003 \<longrightarrow>
      \<not> present (?m (entry_addr 0x10000 i))" if "unat i < 512" for i
    using boot_tables_at [OF n t(1) that] by (simp add: PDIR_ADDR_boot)
  then have p: "pdps ?m \<subseteq> {0x12000, 0x13000}"
    by (auto simp: pdps_def subtables_def BOOT_PML4_def) (metis PDIR_ADDR_boot(1,2))
  have "?m (entry_addr q i) \<noteq> 0x11003 \<longrightarrow> \<not> present (?m (entry_addr q i))"
    if "unat i < 512" "q = 0x12000 \<or> q = 0x13000" for i q
    using that(2) boot_tables_at [OF n t(3) that(1)] boot_tables_at [OF n t(4) that(1)]
    by (elim disjE) (simp_all add: PDIR_ADDR_boot)
  then have "subtables ?m q \<subseteq> {0x11000}" if "q = 0x12000 \<or> q = 0x13000" for q
    using that by (auto simp: subtables_def) (metis PDIR_ADDR_boot(3))+
  then have d: "pds ?m \<subseteq> {0x11000}" using p by (fastforce simp: pds_def)
  have "{0x11000, 0x12000, 0x13000} \<subseteq> tables (boot_vm n) - {BOOT_PML4}"
    using t by (auto simp: tables_def boot_vm_def vm_boot_init_def BOOT_PAGE_NEXT_def BOOT_PML4_def)
  moreover have "pdps ?m \<inter> pds ?m = {}" using p d by force
  moreover have "vb_mem (boot_vm n) = ?m" by (simp add: boot_vm_def vm_boot_init_def)
  ultimately show ?thesis using p d unfolding vb_ok_def
    by (auto simp: boot_vm_def vm_boot_init_def BOOT_PAGE_NEXT_def BOOT_PML4_def BOOT_PAGES_TOP_def
        mask_eq_exp_minus_1)
qed

lemma mod_plus_multiple: "d mod m = 0 \<Longrightarrow> x < m \<Longrightarrow> (d + x) mod m = (x :: nat)"
  by (simp add: mod_add_eq [of d m x, symmetric])

lemma KERNEL_VADDR_low:
  assumes "unat x < 2 ^ 30"
  shows "unat (KERNEL_VADDR x) div 2 ^ 30 = 0xFFFFFFFF80000000 div 2 ^ 30"
    and "unat (KERNEL_VADDR x) mod 2 ^ 30 = unat x"
proof -
  have u: "unat (KERNEL_VADDR x) = 0xFFFFFFFF80000000 + unat x" using assms by (subst unat_KERNEL_VADDR) auto
  have "(0xFFFFFFFF80000000 :: nat) mod 2 ^ 30 + unat x < 2 ^ 30" using assms by simp
  then show d: "unat (KERNEL_VADDR x) div 2 ^ 30 = 0xFFFFFFFF80000000 div 2 ^ 30"
    unfolding u by (rule div_add_within)
  show "unat (KERNEL_VADDR x) mod 2 ^ 30 = unat x"
    unfolding u by (rule mod_plus_multiple) (use assms in simp_all)
qed

lemma unat_nth_page_0: "k < 512 \<Longrightarrow> unat (nth_page 0 k) = k * 2 ^ 21"
  using nth_page_unat(1) [of 0 512 k] by (simp add: in_one_gb_def)

lemma nth_page_0_less: "k < 512 \<Longrightarrow> unat (nth_page 0 k) < 2 ^ 30"
  by (simp add: unat_nth_page_0)

lemma boot_pd_entry:
  assumes "k < 512"
  shows "present (0x83 + of_nat k * 0x200000)" and "PDIR_ADDR (0x83 + of_nat k * 0x200000) = nth_page 0 k"
proof -
  let ?e = "0x83 + of_nat k * 0x200000 :: u64"
  have u: "unat ?e = 0x83 + k * 2 ^ 21"
    using assms by (simp add: unat_word_ariths unat_of_nat_lt)
  have "unat (?e AND mask 1) = unat ?e mod 2 ^ 1" by (rule unat_and_mask)
  also have "\<dots> = 1" unfolding u by (simp add: mod2_eq_if)
  finally have "?e AND mask 1 \<noteq> 0" by (metis unat_0 zero_neq_one)
  then show "present ?e" by (simp add: present_def PAGE_PRESENT_def)
  have m9: "PDIR_NUM_ENTRIES - 1 = mask 9" by (simp add: PDIR_NUM_ENTRIES_def mask_eq_exp_minus_1)
  have "unat (PDIR_ADDR ?e) = unat ?e div 2 ^ 9 * 2 ^ 9" by (simp only: PDIR_ADDR_def m9 unat_and_not_mask)
  also have "\<dots> = k * 2 ^ 21" unfolding u by simp
  finally show "PDIR_ADDR ?e = nth_page 0 k" using unat_nth_page_0 [OF assms] by (simp flip: unat_eq_iff)
qed

lemma boot_translate:
  assumes n: "n \<le> 512" and k: "k < n"
  shows "translate (boot_tables n) (KERNEL_VADDR (nth_page 0 k)) = Some (nth_page 0 k)"
    and "pd_slot (boot_tables n) (KERNEL_VADDR (nth_page 0 k)) \<noteq> None"
proof -
  let ?va = "KERNEL_VADDR (nth_page 0 k)"
  have k5: "k < 512" using n k by simp
  note g = KERNEL_VADDR_low [OF nth_page_0_less [OF k5]]
  have u: "unat ?va = 0xFFFFFFFF80000000 + k * 2 ^ 21"
    using nth_page_0_less [OF k5] unat_nth_page_0 [OF k5] by (subst unat_KERNEL_VADDR) auto
  have "unat ?va div 2 ^ 39 = unat ?va div 2 ^ 30 div 512" by (simp flip: div_mult2_eq)
  then have "unat (ucast (PML_INDEX ?va) :: u32) = 511" unfolding unat_index g(1) by simp
  then have i4: "ucast (PML_INDEX ?va) = (511 :: u32)" by (simp flip: unat_eq_iff)
  have "unat (ucast (PDP_INDEX ?va) :: u32) = 510" unfolding unat_index g(1) by simp
  then have i3: "ucast (PDP_INDEX ?va) = (510 :: u32)" by (simp flip: unat_eq_iff)
  have i2: "unat (ucast (PAGE_2M_INDEX ?va) :: u32) = k" 
    unfolding unat_index u using k5 mod_plus_multiple [of 8796093021184 512 k] by simp
  have t: "is_table 0x10000" "is_table 0x11000" "is_table 0x12000" by (simp_all add: is_table_unat)
  have "boot_tables n (entry_addr 0x10000 511) = 0x12003" "boot_tables n (entry_addr 0x12000 510) = 0x11003"
    using boot_tables_at [OF n t(1), of 511] boot_tables_at [OF n t(3), of 510] by simp_all
  moreover have "boot_tables n (entry_addr 0x11000 (ucast (PAGE_2M_INDEX ?va))) = 0x83 + of_nat k * 0x200000"
    using boot_tables_at [OF n t(2), of "ucast (PAGE_2M_INDEX ?va)"] i2 k k5 by simp
  ultimately show "translate (boot_tables n) ?va = Some (nth_page 0 k)" "pd_slot (boot_tables n) ?va \<noteq> None"
    using boot_pd_entry [OF k5] by (simp_all add: translate_def pd_slot_def i4 i3 BOOT_PML4_def PDIR_ADDR_boot)
qed

subsection \<open>The slack allocator\<close>

text \<open>
  The invariant of slack memory: everything below \<^verbatim>\<open>kernel_top\<close> is mapped at \<^verbatim>\<open>KERNEL_BASE\<close>, the
  next free byte is below the top, and the locks are free.
\<close>

definition identity_mapped :: "wmem \<Rightarrow> nat \<Rightarrow> bool" where
  "identity_mapped m n \<longleftrightarrow> (\<forall>k<n. translate m (KERNEL_VADDR (nth_page 0 k)) = Some (nth_page 0 k))"

definition slack_ok :: "kstate \<Rightarrow> bool" where
  "slack_ok ks \<longleftrightarrow> vb_ok (ks_vm ks) \<and> vb_lock (ks_vm ks) = 0 \<and> ks_slack_lock ks = 0 \<and>
     bi_kernel_slack (ks_boot ks) \<le> bi_kernel_top (ks_boot ks) \<and>
     pd_slot (vb_mem (ks_vm ks)) (KERNEL_VADDR 0) \<noteq> None \<and>
     (\<exists>m\<le>512. bi_kernel_top (ks_boot ks) = nth_page 0 m \<and> identity_mapped (vb_mem (ks_vm ks)) m)"

lemma slack_boot_ok:
  assumes "0 < n" and "n \<le> 512"
    and "ks_vm ks = boot_vm n" and "ks_slack_lock ks = 0"
    and "bi_kernel_top (ks_boot ks) = nth_page 0 n"
    and "bi_kernel_slack (ks_boot ks) \<le> bi_kernel_top (ks_boot ks)"
  shows "slack_ok ks"
proof -
  have "vb_mem (boot_vm n) = boot_tables n" "vb_lock (boot_vm n) = 0"
    by (simp_all add: boot_vm_def vm_boot_init_def)
  moreover have "pd_slot (boot_tables n) (KERNEL_VADDR 0) \<noteq> None"
    using boot_translate(2) [OF assms(2,1)] by simp
  moreover have "identity_mapped (boot_tables n) n"
    using boot_translate(1) [OF assms(2)] by (simp add: identity_mapped_def)
  ultimately show ?thesis
    using assms boot_vm_ok [OF assms(2)] by (auto simp: slack_ok_def)
qed

lemma KERNEL_VADDR_aligned:
  assumes "unat x mod 2 ^ 21 = 0" and "unat x < 2 ^ 30"
  shows "KERNEL_VADDR x AND PAGE_2M_MASK = KERNEL_VADDR x" "KERNEL_VADDR x AND (PAGE_2M_SIZE - 1) = 0"
    "x AND PAGE_2M_MASK = x"
proof -
  have m: "y AND PAGE_2M_MASK = y" "y AND (PAGE_2M_SIZE - 1) = 0" if "unat y mod 2 ^ 21 = 0" for y :: u64
  proof -
    have "unat (y AND PAGE_2M_MASK) = unat y"
      using that div_mult_mod_eq [of "unat y" "2 ^ 21"]
      by (simp only: PAGE_2M_MASK_def mask_2M unat_and_not_mask add_0_right)
    then show "y AND PAGE_2M_MASK = y" by (simp only: unat_eq_iff)
    have "unat (y AND (PAGE_2M_SIZE - 1)) = 0" using that by (simp only: mask_2M unat_and_mask)
    then show "y AND (PAGE_2M_SIZE - 1) = 0" by (simp flip: unat_eq_iff)
  qed
  have "unat (KERNEL_VADDR x) mod 2 ^ 21 = 0"
    using assms by (subst unat_KERNEL_VADDR) (auto simp: mod_add_eq [of "unat x", symmetric])
  then show "KERNEL_VADDR x AND PAGE_2M_MASK = KERNEL_VADDR x" "KERNEL_VADDR x AND (PAGE_2M_SIZE - 1) = 0"
    by (rule m)+
  show "x AND PAGE_2M_MASK = x" using m(1) [OF assms(1)] .
qed

lemma KERNEL_VADDR_nth_page:
  assumes "unat x + k * 2 ^ 21 < 2 ^ 30" and "unat x mod 2 ^ 21 = 0"
  shows "nth_page (KERNEL_VADDR x) k = KERNEL_VADDR (nth_page x k)"
    and "nth_page x k = nth_page 0 (unat x div 2 ^ 21 + k)"
proof -
  have x: "unat x < 2 ^ 30" and k: "k < 512" using assms by auto
  have "in_one_gb x (Suc k)"
  proof -
    have "unat x mod 2 ^ 30 = unat x" using x by simp
    moreover have "unat x + k * 2 ^ 21 + 2 ^ 21 \<le> 2 ^ 30"
    proof -
      have "(unat x + k * 2 ^ 21) mod 2 ^ 21 = 0" using assms(2) by simp
      then show ?thesis using multiple_step [of "unat x + k * 2 ^ 21" "2 ^ 21" "2 ^ 30 - 2 ^ 21"] assms(1) by simp
    qed
    ultimately show ?thesis by (simp add: in_one_gb_def)
  qed
  then have u: "unat (nth_page x k) = unat x + k * 2 ^ 21"
    and g: "in_one_gb (KERNEL_VADDR x) (Suc k)"
    using nth_page_unat(1) [of x "Suc k" k] KERNEL_VADDR_low [OF x] x by (simp_all add: in_one_gb_def)
  have "unat (nth_page (KERNEL_VADDR x) k) = unat (KERNEL_VADDR (nth_page x k))"
    using nth_page_unat(1) [OF g, of k] u assms(1) x by (simp add: unat_KERNEL_VADDR)
  then show "nth_page (KERNEL_VADDR x) k = KERNEL_VADDR (nth_page x k)" by (simp only: unat_eq_iff)
  have "unat x div 2 ^ 21 * 2 ^ 21 = unat x" using assms(2) by auto
  moreover have "unat x div 2 ^ 21 + k < 512" using calculation assms(1) by (simp add: algebra_simps)
  ultimately have "unat (nth_page 0 (unat x div 2 ^ 21 + k)) = unat (nth_page x k)"
    using unat_nth_page_0 [of "unat x div 2 ^ 21 + k"] u by (simp add: algebra_simps)
  then show "nth_page x k = nth_page 0 (unat x div 2 ^ 21 + k)" by (simp only: unat_eq_iff)
qed

text \<open>Sizes: the top grows by a multiple of 2 MB that covers the request and stays in the gigabyte.\<close>

lemma slack_sizes:
  fixes kt t :: u64
  assumes kt: "unat kt mod 2 ^ 21 = 0" and lt: "unat kt < unat t" and t: "unat t \<le> 2 ^ 30"
  defines "sz \<equiv> PAGE_2M_ROUND (t - kt)"
  shows "unat (kt + sz) = unat kt + unat sz" and "unat sz mod 2 ^ 21 = 0"
    and "unat t \<le> unat kt + unat sz" and "unat kt + unat sz \<le> 2 ^ 30"
proof -
  have d: "unat (t - kt) = unat t - unat kt" using lt by (simp add: unat_minus_le unat_le_iff)
  have dle: "unat (t - kt) + 2 ^ 21 \<le> 2 ^ 64" using d t by simp
  have usz: "unat sz = round_up (unat t - unat kt) (2 ^ 21)"
    using unat_2M_NUM(2) [OF dle] unfolding d sz_def .
  have "2 ^ 21 dvd (2 ^ 30 :: nat)" by (rule le_imp_power_dvd) simp
  moreover have "2 ^ 21 dvd unat kt" using kt by (simp only: dvd_eq_mod_eq_0)
  ultimately have "2 ^ 21 dvd 2 ^ 30 - unat kt" by (rule dvd_diff_nat)
  then have m30: "(2 ^ 30 - unat kt) mod 2 ^ 21 = 0" by (simp only: dvd_eq_mod_eq_0)
  have "unat sz \<le> 2 ^ 30 - unat kt" unfolding usz by (rule round_up_le) (use m30 t in simp_all)
  then show le: "unat kt + unat sz \<le> 2 ^ 30" using lt t by linarith
  show "unat sz mod 2 ^ 21 = 0" unfolding usz by (rule round_up_bounds) simp
  show "unat (kt + sz) = unat kt + unat sz" using le by (intro unat_plus_lt) simp
  have "unat t - unat kt \<le> unat sz" unfolding usz by (rule round_up_bounds) simp
  then show "unat t \<le> unat kt + unat sz" using lt by linarith
qed

text \<open>All of the first gigabyte at \<^verbatim>\<open>KERNEL_BASE\<close> goes through one directory.\<close>

lemma kernel_slot:
  assumes ok: "vb_ok vm" and s0: "pd_slot (vb_mem vm) (KERNEL_VADDR 0) \<noteq> None" and i: "i < 512" and j: "j < 512"
  shows "pd_slot (vb_mem vm) (KERNEL_VADDR (nth_page 0 i)) \<noteq> None"
    and "pd_slot (vb_mem vm) (KERNEL_VADDR (nth_page 0 i)) = pd_slot (vb_mem vm) (KERNEL_VADDR (nth_page 0 j)) \<Longrightarrow> i = j"
proof -
  obtain a0 where a0: "pd_slot (vb_mem vm) (KERNEL_VADDR 0) = Some a0" using s0 by auto
  have g: "unat (KERNEL_VADDR 0) div 2 ^ 30 = unat (KERNEL_VADDR (nth_page 0 i)) div 2 ^ 30"
    "unat (KERNEL_VADDR (nth_page 0 i)) div 2 ^ 30 = unat (KERNEL_VADDR (nth_page 0 j)) div 2 ^ 30"
    using KERNEL_VADDR_low(1) [of 0] KERNEL_VADDR_low(1) [OF nth_page_0_less [OF i]]
      KERNEL_VADDR_low(1) [OF nth_page_0_less [OF j]] by simp_all
  obtain ai where ai: "pd_slot (vb_mem vm) (KERNEL_VADDR (nth_page 0 i)) = Some ai"
    using same_gb_slot [OF ok g(1) a0] by blast
  then show "pd_slot (vb_mem vm) (KERNEL_VADDR (nth_page 0 i)) \<noteq> None" by simp
  assume "pd_slot (vb_mem vm) (KERNEL_VADDR (nth_page 0 i)) = pd_slot (vb_mem vm) (KERNEL_VADDR (nth_page 0 j))"
  then have e: "unat (KERNEL_VADDR (nth_page 0 i)) div 2 ^ 21 = unat (KERNEL_VADDR (nth_page 0 j)) div 2 ^ 21"
    using same_gb_slot [OF ok g(2) ai] ai by auto
  have u: "unat (KERNEL_VADDR (nth_page 0 k)) div 2 ^ 21 = k + 0xFFFFFFFF80000000 div 2 ^ 21" if "k < 512" for k
    using unat_KERNEL_VADDR [of "nth_page 0 k"] nth_page_0_less [OF that] unat_nth_page_0 [OF that] by simp
  then show "i = j" using e u [OF i] u [OF j] by simp
qed

text \<open>Extending an identity mapping of \<open>m\<close> pages by \<open>n\<close> more.\<close>

lemma identity_extend:
  assumes ok: "vb_ok vm'" and s0: "pd_slot (vb_mem vm') (KERNEL_VADDR 0) \<noteq> None" and mn: "m + n \<le> 512"
    and old: "identity_mapped (vb_mem vm) m"
    and mr: "mapped_range n (KERNEL_VADDR (nth_page 0 m)) (nth_page 0 m) vm vm'"
  shows "identity_mapped (vb_mem vm') (m + n)"
proof -
  have e: "nth_page (KERNEL_VADDR (nth_page 0 m)) i = KERNEL_VADDR (nth_page 0 (m + i))"
    "nth_page (nth_page 0 m) i = nth_page 0 (m + i)" if "i < n" for i
  proof -
    have m: "m < 512" using mn that by simp
    have u: "unat (nth_page 0 m) = m * 2 ^ 21" by (rule unat_nth_page_0 [OF m])
    have "unat (nth_page 0 m) + i * 2 ^ 21 < 2 ^ 30" "unat (nth_page 0 m) mod 2 ^ 21 = 0"
      unfolding u using that mn by simp_all
    from KERNEL_VADDR_nth_page [OF this]
    show "nth_page (KERNEL_VADDR (nth_page 0 m)) i = KERNEL_VADDR (nth_page 0 (m + i))"
      "nth_page (nth_page 0 m) i = nth_page 0 (m + i)" unfolding u by simp_all
  qed
  have "translate (vb_mem vm') (KERNEL_VADDR (nth_page 0 k)) = Some (nth_page 0 k)" if k: "k < m + n" for k
  proof (cases "k < m")
    case True
    have "pd_slot (vb_mem vm') (KERNEL_VADDR (nth_page 0 k)) \<noteq>
        pd_slot (vb_mem vm') (nth_page (KERNEL_VADDR (nth_page 0 m)) i)" if "i < n" for i
      using kernel_slot(2) [OF ok s0, of k "m + i"] True that mn unfolding e(1) [OF that] by auto
    then have "translate (vb_mem vm') (KERNEL_VADDR (nth_page 0 k)) =
        translate (vb_mem vm) (KERNEL_VADDR (nth_page 0 k))" using mr by (simp add: mapped_range_def)
    then show ?thesis using old True by (simp add: identity_mapped_def)
  next
    case False
    then have i: "k - m < n" "m + (k - m) = k" using k by simp_all
    have "translate (vb_mem vm') (nth_page (KERNEL_VADDR (nth_page 0 m)) (k - m)) = Some (nth_page (nth_page 0 m) (k - m))"
      using mr i(1) by (simp add: mapped_range_def)
    then show ?thesis unfolding e(1) [OF i(1)] e(2) [OF i(1)] i(2) .
  qed
  then show ?thesis by (simp add: identity_mapped_def)
qed

lemma unat_top_page: "m \<le> 512 \<Longrightarrow> unat (nth_page 0 m) = m * 2 ^ 21"
  by (simp add: nth_page_def unat_word_ariths unat_PAGE_2M_SIZE unat_of_nat_lt)

lemma slack_grow:
  assumes ok: "slack_ok ks" and lt: "unat (bi_kernel_top (ks_boot ks)) < unat t" and t: "unat t \<le> 2 ^ 30"
  defines "kt \<equiv> bi_kernel_top (ks_boot ks)"
  defines "sz \<equiv> PAGE_2M_ROUND (t - kt)"
  shows "\<exists>vm' m. vm_boot_map_range (KERNEL_VADDR kt) kt sz (ks_vm ks) = Inr vm' \<and> vb_ok vm' \<and> vb_lock vm' = 0 \<and>
      pd_slot (vb_mem vm') (KERNEL_VADDR 0) \<noteq> None \<and> m \<le> 512 \<and> kt + sz = nth_page 0 m \<and>
      identity_mapped (vb_mem vm') m \<and> t \<le> kt + sz"
proof -
  obtain m where m: "m \<le> 512" "kt = nth_page 0 m" "identity_mapped (vb_mem (ks_vm ks)) m"
    using ok by (auto simp: slack_ok_def kt_def)
  have um: "unat kt = m * 2 ^ 21" unfolding m(2) by (rule unat_top_page [OF m(1)])
  have lt': "unat kt < unat t" using lt by (simp only: kt_def)
  have kt: "unat kt mod 2 ^ 21 = 0" "unat kt < 2 ^ 30" using um lt' t by simp_all
  note sz = slack_sizes [OF kt(1) lt' t, folded sz_def] and al = KERNEL_VADDR_aligned [OF kt]
  define n where "n = unat (PAGE_2M_NUM (sz + (KERNEL_VADDR kt AND (PAGE_2M_SIZE - 1))))"
  have "n * 2 ^ 21 = round_up (unat sz) (2 ^ 21)"
    unfolding n_def al(2) add_0_right by (rule unat_2M_NUM) (use sz(4) in simp)
  then have n: "n * 2 ^ 21 = unat sz" using round_up_aligned [OF _ sz(2)] by simp
  then have mn: "m + n \<le> 512" using sz(4) um by simp
  have gb: "in_one_gb (KERNEL_VADDR kt AND PAGE_2M_MASK) n"
    unfolding al in_one_gb_def KERNEL_VADDR_low(2) [OF kt(2)] n by (rule sz(4))
  have vok: "vb_ok (ks_vm ks)" "vb_lock (ks_vm ks) = 0" "pd_slot (vb_mem (ks_vm ks)) (KERNEL_VADDR 0) \<noteq> None"
    using ok by (simp_all add: slack_ok_def)
  have "m < 512" using kt(2) um by simp
  then have "pd_slot (vb_mem (ks_vm ks)) (KERNEL_VADDR kt) \<noteq> None"
    unfolding m(2) using kernel_slot(1) [OF vok(1,3)] by blast
  then have r: "pd_slot (vb_mem (ks_vm ks)) (KERNEL_VADDR kt AND PAGE_2M_MASK) \<noteq> None \<or> room (ks_vm ks) (Suc (Suc 0))"
    unfolding al ..
  have "unat sz \<le> 2 ^ 30" using sz(4) by simp
  from map_range_result(1) [OF vok(1,2) this n_def gb r, of kt]
  obtain vm' where vm: "vm_boot_map_range (KERNEL_VADDR kt) kt sz (ks_vm ks) = Inr vm'" "vb_ok vm'" "vb_lock vm' = 0"
    "mapped_range n (KERNEL_VADDR kt) kt (ks_vm ks) vm'" unfolding al by blast
  have s0: "pd_slot (vb_mem vm') (KERNEL_VADDR 0) \<noteq> None" using vm(4) vok(3) by (auto simp: mapped_range_def)
  have "identity_mapped (vb_mem vm') (m + n)"
    using identity_extend [OF vm(2) s0 mn m(3)] vm(4) m(2) by simp
  moreover have "unat (kt + sz) = unat (nth_page 0 (m + n))"
    using sz(1) n um unat_top_page [OF mn] by (simp add: algebra_simps)
  then have "kt + sz = nth_page 0 (m + n)" by (simp only: unat_eq_iff)
  moreover have "t \<le> kt + sz" using sz(1,3) by (simp add: unat_le_iff)
  ultimately show ?thesis using vm s0 mn by blast
qed

section \<open>Properties\<close>





lemma kernel_slack_alloc_result:
  assumes ok: "slack_ok ks" and a: "a \<le> 30"
    and fit: "round_up (unat (bi_kernel_slack (ks_boot ks))) (2 ^ a) + unat sz \<le> 2 ^ 30"
  shows "\<exists>p ks'. kernel_slack_alloc sz (push_bit a 1) ks = Inr (KERNEL_VADDR p, ks') \<and> slack_ok ks' \<and>
    unat p mod 2 ^ a = 0 \<and> bi_kernel_slack (ks_boot ks) \<le> p \<and>
    unat (bi_kernel_slack (ks_boot ks')) = unat p + unat sz"
proof -
  let ?s = "bi_kernel_slack (ks_boot ks)" and ?kt = "bi_kernel_top (ks_boot ks)"
  define p where "p = ALIGN_UP ?s (push_bit a 1)"
  define t where "t = p + sz"
  have "(2 :: nat) ^ a \<le> 2 ^ 30" using a by (rule power_increasing) simp
  moreover have "unat ?s \<le> 2 ^ 30"
    using round_up_bounds(1) [of "2 ^ a" "unat ?s"] fit by simp
  ultimately have "unat ?s + 2 ^ a \<le> 2 ^ 64" by simp
  then have up: "unat p = round_up (unat ?s) (2 ^ a)" unfolding p_def using a by (intro unat_ALIGN_UP) auto
  have ut: "unat t = unat p + unat sz" unfolding t_def by (rule unat_plus_lt) (use up fit in simp)
  then have t30: "unat t \<le> 2 ^ 30" using up fit by simp
  have pa: "unat p mod 2 ^ a = 0" "?s \<le> p" using round_up_bounds [of "2 ^ a" "unat ?s"] up by (auto simp: unat_le_iff)
  have lk: "ks_slack_lock ks = 0" using ok by (simp add: slack_ok_def)
  have al: "ALIGN_UP ?s (2 ^ a) = p" "p + sz = t" by (simp_all add: p_def t_def)
  show ?thesis
  proof (cases "?kt < t")
    case True
    let ?sz = "PAGE_2M_ROUND (t - ?kt)"
    from slack_grow [OF ok _ t30] True obtain vm' m where
      vm: "vm_boot_map_range (KERNEL_VADDR ?kt) ?kt ?sz (ks_vm ks) = Inr vm'" "vb_ok vm'" "vb_lock vm' = 0"
      "pd_slot (vb_mem vm') (KERNEL_VADDR 0) \<noteq> None" "m \<le> 512" "?kt + ?sz = nth_page 0 m"
      "identity_mapped (vb_mem vm') m" "t \<le> ?kt + ?sz" by (auto simp: unat_less_iff)
    let ?ks = "ks\<lparr>ks_boot := (ks_boot ks)\<lparr>bi_kernel_top := ?kt + ?sz, bi_kernel_slack := t\<rparr>,
      ks_vm := vm', ks_slack_lock := 0\<rparr>"
    have "kernel_slack_alloc sz (push_bit a 1) ks = Inr (KERNEL_VADDR p, ?ks)"
      using lk True vm(1) by (simp add: kernel_slack_alloc_def Let_def al)
    moreover have "slack_ok ?ks" using vm lk unfolding slack_ok_def by auto
    ultimately show ?thesis using pa ut by (intro exI [of _ p] exI [of _ ?ks]) simp
  next
    case False
    let ?ks = "ks\<lparr>ks_boot := (ks_boot ks)\<lparr>bi_kernel_slack := t\<rparr>, ks_slack_lock := 0\<rparr>"
    have "kernel_slack_alloc sz (push_bit a 1) ks = Inr (KERNEL_VADDR p, ?ks)"
      using lk False by (simp add: kernel_slack_alloc_def Let_def al)
    moreover have "slack_ok ?ks" using ok False by (auto simp: slack_ok_def not_less)
    ultimately show ?thesis using pa ut by (intro exI [of _ p] exI [of _ ?ks]) simp
  qed
qed

text \<open>
  C16. \<^verbatim>\<open>kernel_slack_alloc\<close>: for a power-of-two alignment and a request that fits below the first
  gigabyte, the block returned is aligned, starts at or above the old slack pointer and ends at
  the new one, so blocks never overlap; it lies below \<^verbatim>\<open>kernel_top\<close>, everything below which is
  mapped at \<^verbatim>\<open>KERNEL_BASE\<close>; and both locks are free again.
\<close>

theorem kernel_slack_alloc_spec:
  assumes ok: "slack_ok ks" and a: "a \<le> 30"
    and fit: "round_up (unat (bi_kernel_slack (ks_boot ks))) (2 ^ a) + unat sz \<le> 2 ^ 30"
  shows "\<exists>p ks'. kernel_slack_alloc sz (push_bit a 1) ks = Inr (KERNEL_VADDR p, ks') \<and> slack_ok ks' \<and>
    unat p mod 2 ^ a = 0 \<and> bi_kernel_slack (ks_boot ks) \<le> p \<and>
    unat (bi_kernel_slack (ks_boot ks')) = unat p + unat sz"
  using assms by (rule kernel_slack_alloc_result)

text \<open>A kernel of one 2 MB page, as the bootstrap leaves it.\<close>

definition boot_kstate :: "u64 \<Rightarrow> kstate" where
  "boot_kstate end_addr =
     kernel_init end_addr
       \<lparr>ks_boot = \<lparr>bi_mb_magic = 0x36d76289, bi_mb_addr = 0, bi_mb_size = 0, bi_boot_ap = 0, bi_kernel_end = 0,
           bi_kernel_top = 0, bi_kernel_slack = 0, bi_mmap = [], bi_num_mmap = 0, bi_mmap_top = 0,
           bi_memory_size = 0, bi_fb_addr = 0, bi_fb_pitch = 0, bi_fb_width = 0, bi_fb_height = 0,
           bi_fb_bpp = 0, bi_fb_type = 0, bi_cmd_line = []\<rparr>,
        ks_vm = boot_vm 1, ks_slack_lock = 0\<rparr>"

lemma boot_kstate_ok: "slack_ok (boot_kstate 0xFFFFFFFF80123456)"
  by (rule slack_boot_ok [of 1])
    (simp_all add: boot_kstate_def kernel_init_def Let_def KERNEL_BASE_def nth_page_def PAGE_2M_ROUND_def
      PAGE_2M_MASK_def PAGE_2M_SIZE_def PAGE_2M_SHIFT_def)

theorem kernel_slack_alloc_spec_witness:
  "\<exists>p ks'. kernel_slack_alloc 0x200000 (push_bit 21 1) (boot_kstate 0xFFFFFFFF80123456) = Inr (KERNEL_VADDR p, ks') \<and>
     slack_ok ks' \<and> unat p mod 2 ^ 21 = 0 \<and> 0x123456 \<le> p"
proof -
  have s: "bi_kernel_slack (ks_boot (boot_kstate 0xFFFFFFFF80123456)) = 0x123456"
    by (simp add: boot_kstate_def kernel_init_def Let_def KERNEL_BASE_def)
  have "round_up (unat (0x123456 :: u64)) (2 ^ 21) + unat (0x200000 :: u64) \<le> 2 ^ 30" by (simp add: round_up_def)
  then have f: "round_up (unat (bi_kernel_slack (ks_boot (boot_kstate 0xFFFFFFFF80123456)))) (2 ^ 21) +
      unat (0x200000 :: u64) \<le> 2 ^ 30" by (simp only: s)
  have "(21 :: nat) \<le> 30" by simp
  from kernel_slack_alloc_spec [OF boot_kstate_ok this f] show ?thesis unfolding s by (elim exE conjE) (intro exI conjI)
qed

end
