(* ===== verification/BackLinks.thy ===== *)
theory BackLinks
  imports Prelude
begin

text \<open>
  Lists whose back link points to the pointer that points to the element: the slabs of
  \<^verbatim>\<open>slab.c\<close> and the pages of a cache in \<^verbatim>\<open>vm_cache.c\<close>. \<open>bchain cell lk pp a xs\<close>: from pointer \<open>a\<close>, stored
  in cell \<open>pp\<close>, the next fields visit exactly \<open>xs\<close>, and every back link names the cell that points
  to its element; \<open>cell x\<close> is the next field of \<open>x\<close> as a cell.
\<close>

primrec bchain ::
  "('a::len word \<Rightarrow> 'p) \<Rightarrow> ('a word \<Rightarrow> ('a word \<times> 'p) option) \<Rightarrow> 'p \<Rightarrow> 'a word \<Rightarrow> 'a word list \<Rightarrow> bool" where
  "bchain cell lk pp a [] \<longleftrightarrow> a = 0"
| "bchain cell lk pp a (x # xs) \<longleftrightarrow> a = x \<and> x \<noteq> 0 \<and>
     (case lk x of None \<Rightarrow> False | Some (n, p) \<Rightarrow> p = pp \<and> bchain cell lk (cell x) n xs)"

lemma bchain_head: "bchain cell lk pp a xs \<Longrightarrow> a = (case xs of [] \<Rightarrow> 0 | x # _ \<Rightarrow> x)"
  by (cases xs) auto

lemma bchain_mem: "bchain cell lk pp a xs \<Longrightarrow> x \<in> set xs \<Longrightarrow> x \<noteq> 0 \<and> (\<exists>n p. lk x = Some (n, p))"
  by (induction xs arbitrary: pp a) (auto split: option.splits)

lemma bchain_cong: "(\<And>x. x \<in> set xs \<Longrightarrow> lk x = lk' x) \<Longrightarrow> bchain cell lk pp a xs = bchain cell lk' pp a xs"
  by (induction xs arbitrary: pp a) (auto split: option.splits)

lemma bchain_insert:
  assumes "bchain cell lk pp a xs" and "x \<noteq> 0" and "x \<notin> set xs" and "distinct xs"
    and "lk' x = Some (a, pp)"
    and "\<And>y n p. xs = y # tl xs \<Longrightarrow> lk y = Some (n, p) \<Longrightarrow> lk' y = Some (n, cell x)"
    and "\<And>y. y \<in> set (tl xs) \<Longrightarrow> lk' y = lk y"
  shows "bchain cell lk' pp x (x # xs)"
proof (cases xs)
  case Nil
  then show ?thesis using assms by simp
next
  case (Cons y ys)
  from assms(1) Cons obtain n where n: "a = y" "y \<noteq> 0" "lk y = Some (n, pp)" "bchain cell lk (cell y) n ys"
    by (auto split: option.splits)
  moreover have "lk' y = Some (n, cell x)" using assms(6) [of y n pp] n Cons by simp
  moreover have "bchain cell lk' (cell y) n ys" using n(4) assms(7) Cons bchain_cong [of ys lk' lk] by simp
  ultimately show ?thesis using assms(2,5) Cons by simp
qed

lemma bchain_at:
  assumes "bchain cell lk pp a (as @ x # bs)"
  shows "lk x = Some (case bs of [] \<Rightarrow> 0 | b # _ \<Rightarrow> b, if as = [] then pp else cell (last as))"
  using assms
proof (induction as arbitrary: pp a)
  case Nil
  then show ?case by (auto split: option.splits dest: bchain_head)
next
  case (Cons y as)
  then obtain n where "bchain cell lk (cell y) n (as @ x # bs)" by (auto split: option.splits)
  from Cons.IH [OF this] show ?case by simp
qed

lemma bchain_remove:
  assumes "bchain cell lk pp a (as @ x # bs)" and "distinct (as @ x # bs)"
    and "\<And>y. y \<in> set (butlast as) \<Longrightarrow> lk' y = lk y"
    and "\<And>n p. as \<noteq> [] \<Longrightarrow> lk (last as) = Some (n, p) \<Longrightarrow> lk' (last as) = Some (case bs of [] \<Rightarrow> 0 | b # _ \<Rightarrow> b, p)"
    and "\<And>b n p. bs = b # tl bs \<Longrightarrow> lk b = Some (n, p) \<Longrightarrow>
       lk' b = Some (n, if as = [] then pp else cell (last as))"
    and "\<And>y. y \<in> set (tl bs) \<Longrightarrow> lk' y = lk y"
  shows "bchain cell lk' pp (case as @ bs of [] \<Rightarrow> 0 | y # _ \<Rightarrow> y) (as @ bs)"
  using assms
proof (induction as arbitrary: pp a)
  case Nil
  show ?case
  proof (cases bs)
    case (Cons b ys)
    with Nil.prems(1) obtain n where n: "b \<noteq> 0" "lk b = Some (n, cell x)" "bchain cell lk (cell b) n ys"
      by (auto split: option.splits)
    have "lk' b = Some (n, pp)" using Nil.prems(5) [of b n "cell x"] n Cons by simp
    moreover have "bchain cell lk' (cell b) n ys" using n(3) Nil.prems(6) Cons bchain_cong [of ys lk' lk] by simp
    ultimately show ?thesis using Cons n by simp
  qed simp
next
  case (Cons y as)
  from Cons.prems(1) obtain n where y: "y \<noteq> 0" "lk y = Some (n, pp)" "bchain cell lk (cell y) n (as @ x # bs)"
    by (auto split: option.splits)
  have ih: "bchain cell lk' (cell y) (case as @ bs of [] \<Rightarrow> 0 | y # _ \<Rightarrow> y) (as @ bs)"
  proof (rule Cons.IH [OF y(3)], goal_cases)
    case (2 z)
    then show ?case using Cons.prems(3) [of z] by (cases as) auto
  next
    case (3 m q)
    then show ?case using Cons.prems(4) [of m q] by (cases as) auto
  next
    case (4 b n p)
    then show ?case using Cons.prems(5) [of b n p] by (cases as) auto
  qed (use Cons.prems in auto)
  have "lk' y = Some (case as @ bs of [] \<Rightarrow> 0 | y # _ \<Rightarrow> y, pp)"
  proof (cases as)
    case Nil
    then show ?thesis using Cons.prems(4) [of n pp] y(2) by simp
  next
    case (Cons z zs)
    then have "lk' y = lk y" using Cons.prems(3) [of y] by simp
    then show ?thesis using y(2) bchain_head [OF y(3)] Cons by simp
  qed
  then show ?case using y(1) ih by simp
qed

end
