(* ===== verification/Slab.thy ===== *)
theory Slab
  imports VmBoot BackLinks
begin

text \<open>
  The slab allocator of \<^verbatim>\<open>slab.h\<close> and \<^verbatim>\<open>slab.c\<close>. A slab is a block of memory cut into chunks of a
  power-of-two size; its descriptor sits in the first chunks (the reserved ones) and threads the
  free chunks through \<^verbatim>\<open>chunk_list\<close>, index 0 ending the list. A slab list keeps the slabs with free
  chunks and the full ones in two lists linked by \<^verbatim>\<open>next\<close> and by \<^verbatim>\<open>prev\<close>, a pointer to the pointer
  that points here.

  Slabs live in \<open>sh_slabs\<close>, keyed by address; slab lists are numbered. The theory covers one slab
  first, then the linked lists, then the operations on slab lists.
\<close>

subsection \<open>Powers of two\<close>

fun bitlen :: "nat \<Rightarrow> nat" where
  "bitlen n = (if n = 0 then 0 else Suc (bitlen (n div 2)))"

declare bitlen.simps [simp del]

definition builtin_clz :: "u32 \<Rightarrow> u32 outcome" where
  "builtin_clz x = (if x = 0 then Inl Undefined else Inr (of_nat (32 - bitlen (unat x))))"

definition ceil_pow2 :: "u32 \<Rightarrow> u32 outcome" where
  "ceil_pow2 x = rbind (builtin_clz (x - 1)) (\<lambda>z. Inr (32 - z))"

subsection \<open>One slab\<close>

datatype slab_pp = SPNull | SPSlab u64 | SPFree nat | SPUsed nat

record slab_t =
  sb_next :: u64
  sb_prev :: slab_pp
  sb_chunk_shift :: u16
  sb_num_chunks :: u16
  sb_num_free :: u16
  sb_num_reserved :: u16
  sb_flags :: u16
  sb_free_list :: u16
  sb_chunk_list :: "u16 list"

definition SLAB_RESERVED :: u16 where "SLAB_RESERVED = 1"
definition sizeof_slab_t :: u64 where "sizeof_slab_t = 32"
definition offsetof_chunk_list :: nat where "offsetof_chunk_list = 28"

definition slab_init :: "u64 \<Rightarrow> u32 \<Rightarrow> u32 \<Rightarrow> slab_t outcome" where
  "slab_init addr sz chunk_size =
     rbind (ceil_pow2 chunk_size) (\<lambda>chunk_shift.
     let chunk_size_pow2 = push_bit (unat chunk_shift) 1 :: u32;
         num_chunks = drop_bit (unat chunk_shift) sz;
         cache_size = ucast (sizeof_slab_t + ucast num_chunks * 2) :: u32;
         num_reserved = drop_bit (unat chunk_shift)
           ((cache_size + (chunk_size_pow2 - 1)) AND NOT (chunk_size_pow2 - 1));
         mem = replicate ((unat sz - offsetof_chunk_list) div 2) 0 in
     rbind (for_up 0 num_reserved (\<lambda>i cl. arr_set cl (unat i) 0) mem) (\<lambda>cl.
     rbind (for_up num_reserved (num_chunks - 1) (\<lambda>i cl. arr_set cl (unat i) (ucast (i + 1))) cl) (\<lambda>cl.
     rbind (arr_set cl (unat (max num_reserved (num_chunks - 1))) 0) (\<lambda>cl.
     Inr \<lparr>sb_next = 0, sb_prev = SPNull, sb_chunk_shift = ucast chunk_shift,
          sb_num_chunks = ucast num_chunks, sb_num_free = ucast (num_chunks - num_reserved),
          sb_num_reserved = ucast num_reserved, sb_flags = 0,
          sb_free_list = ucast num_reserved, sb_chunk_list = cl\<rparr>))))"

definition slab_alloc :: "u64 \<Rightarrow> slab_t \<Rightarrow> (u64 \<times> slab_t) outcome" where
  "slab_alloc base slab =
     (let index = ucast (sb_free_list slab) :: u32 in
      if index = 0 then Inr (0, slab)
      else rbind (arr_get (sb_chunk_list slab) (unat index)) (\<lambda>nx.
        Inr (base + ucast (push_bit (unat (sb_chunk_shift slab)) index),
             slab\<lparr>sb_free_list := nx, sb_num_free := sb_num_free slab - 1\<rparr>)))"

definition slab_free :: "u64 \<Rightarrow> slab_t \<Rightarrow> u64 \<Rightarrow> slab_t outcome" where
  "slab_free base slab addr =
     (let index = drop_bit (unat (sb_chunk_shift slab)) (ucast (addr - base) :: u32) in
      rbind (arr_set (sb_chunk_list slab) (unat index) (sb_free_list slab)) (\<lambda>cl.
      Inr (slab\<lparr>sb_chunk_list := cl, sb_free_list := ucast index,
                sb_num_free := sb_num_free slab + 1\<rparr>)))"

definition slab_is_empty :: "slab_t \<Rightarrow> bool" where
  "slab_is_empty slab \<longleftrightarrow>
     int (unat (sb_num_free slab)) = int (unat (sb_num_chunks slab)) - int (unat (sb_num_reserved slab))"

definition slab_is_full :: "slab_t \<Rightarrow> bool" where
  "slab_is_full slab \<longleftrightarrow> sb_num_free slab = 0"

definition slab_is_reserved :: "slab_t \<Rightarrow> bool" where
  "slab_is_reserved slab \<longleftrightarrow> sb_flags slab AND SLAB_RESERVED \<noteq> 0"

subsection \<open>Slab lists\<close>

record slab_list_t =
  sl_owner :: "nat option"
  sl_free_slabs :: u64
  sl_used_slabs :: u64
  sl_size_shift :: u32
  sl_chunk_shift :: u32
  sl_flags :: u32
  sl_lock :: u32

record slab_heap =
  sh_slabs :: "u64 \<Rightarrow> slab_t option"
  sh_lists :: "slab_list_t list"
  sh_kernel :: kstate

definition get_slab :: "slab_heap \<Rightarrow> u64 \<Rightarrow> slab_t outcome" where
  "get_slab h a = (case sh_slabs h a of None \<Rightarrow> Inl NullDeref | Some s \<Rightarrow> Inr s)"

definition put_slab :: "u64 \<Rightarrow> slab_t \<Rightarrow> slab_heap \<Rightarrow> slab_heap" where
  "put_slab a s h = h\<lparr>sh_slabs := (sh_slabs h)(a \<mapsto> s)\<rparr>"

definition upd_list :: "nat \<Rightarrow> (slab_list_t \<Rightarrow> slab_list_t) \<Rightarrow> slab_heap \<Rightarrow> slab_heap outcome" where
  "upd_list l f h = rbind (arr_get (sh_lists h) l) (\<lambda>sl. Inr (h\<lparr>sh_lists := (sh_lists h)[l := f sl]\<rparr>))"

text \<open>Reading and writing through a \<^verbatim>\<open>struct slab_t**\<close>.\<close>

definition read_pp :: "slab_pp \<Rightarrow> slab_heap \<Rightarrow> u64 outcome" where
  "read_pp p h =
     (case p of
        SPNull \<Rightarrow> Inl NullDeref
      | SPSlab a \<Rightarrow> rbind (get_slab h a) (\<lambda>s. Inr (sb_next s))
      | SPFree l \<Rightarrow> rbind (arr_get (sh_lists h) l) (\<lambda>sl. Inr (sl_free_slabs sl))
      | SPUsed l \<Rightarrow> rbind (arr_get (sh_lists h) l) (\<lambda>sl. Inr (sl_used_slabs sl)))"

definition write_pp :: "slab_pp \<Rightarrow> u64 \<Rightarrow> slab_heap \<Rightarrow> slab_heap outcome" where
  "write_pp p v h =
     (case p of
        SPNull \<Rightarrow> Inl NullDeref
      | SPSlab a \<Rightarrow> rbind (get_slab h a) (\<lambda>s. Inr (put_slab a (s\<lparr>sb_next := v\<rparr>) h))
      | SPFree l \<Rightarrow> upd_list l (\<lambda>sl. sl\<lparr>sl_free_slabs := v\<rparr>) h
      | SPUsed l \<Rightarrow> upd_list l (\<lambda>sl. sl\<lparr>sl_used_slabs := v\<rparr>) h)"

definition set_prev :: "u64 \<Rightarrow> slab_pp \<Rightarrow> slab_heap \<Rightarrow> slab_heap outcome" where
  "set_prev a p h = rbind (get_slab h a) (\<lambda>s. Inr (put_slab a (s\<lparr>sb_prev := p\<rparr>) h))"

definition set_next :: "u64 \<Rightarrow> u64 \<Rightarrow> slab_heap \<Rightarrow> slab_heap outcome" where
  "set_next a v h = rbind (get_slab h a) (\<lambda>s. Inr (put_slab a (s\<lparr>sb_next := v\<rparr>) h))"

definition slab_list_insert :: "slab_pp \<Rightarrow> u64 \<Rightarrow> slab_heap \<Rightarrow> slab_heap outcome" where
  "slab_list_insert lst s h =
     rbind (read_pp lst h) (\<lambda>first.
     rbind (if first \<noteq> 0 then set_prev first (SPSlab s) h else Inr h) (\<lambda>h.
     rbind (read_pp lst h) (\<lambda>first.
     rbind (set_next s first h) (\<lambda>h.
     rbind (set_prev s lst h) (\<lambda>h.
     write_pp lst s h)))))"

definition slab_list_remove :: "u64 \<Rightarrow> slab_heap \<Rightarrow> slab_heap outcome" where
  "slab_list_remove s h =
     rbind (get_slab h s) (\<lambda>sb.
     rbind (if sb_next sb \<noteq> 0 then set_prev (sb_next sb) (sb_prev sb) h else Inr h) (\<lambda>h.
     rbind (get_slab h s) (\<lambda>sb.
     rbind (if sb_prev sb \<noteq> SPNull then write_pp (sb_prev sb) (sb_next sb) h else Inr h) (\<lambda>h.
     rbind (set_next s 0 h) (\<lambda>h.
     set_prev s SPNull h)))))"

definition slab_list_lock :: "nat \<Rightarrow> slab_heap \<Rightarrow> slab_heap outcome" where
  "slab_list_lock l h =
     rbind (arr_get (sh_lists h) l) (\<lambda>sl.
     rbind (spinlock_lock (sl_lock sl)) (\<lambda>k.
     Inr (h\<lparr>sh_lists := (sh_lists h)[l := sl\<lparr>sl_lock := k\<rparr>]\<rparr>)))"

definition slab_list_unlock :: "nat \<Rightarrow> slab_heap \<Rightarrow> slab_heap outcome" where
  "slab_list_unlock l h = upd_list l (\<lambda>sl. sl\<lparr>sl_lock := spinlock_unlock (sl_lock sl)\<rparr>) h"

definition slab_list_init ::
  "nat \<Rightarrow> nat option \<Rightarrow> u32 \<Rightarrow> u32 \<Rightarrow> slab_heap \<Rightarrow> (bool \<times> slab_heap) outcome" where
  "slab_list_init l owner sz chunk_size h =
     rbind (ceil_pow2 sz) (\<lambda>size_shift.
     rbind (case owner of None \<Rightarrow> Inr True
            | Some o1 \<Rightarrow> rbind (arr_get (sh_lists h) o1) (\<lambda>ow. Inr (sl_chunk_shift ow = size_shift))) (\<lambda>ok.
     if \<not> ok then Inr (False, h)
     else
       rbind (ceil_pow2 chunk_size) (\<lambda>chunk_shift.
       rbind (upd_list l (\<lambda>_. \<lparr>sl_owner = owner, sl_free_slabs = 0, sl_used_slabs = 0,
               sl_size_shift = size_shift, sl_chunk_shift = chunk_shift, sl_flags = 0, sl_lock = 0\<rparr>) h) (\<lambda>h.
       Inr (True, h)))))"

definition sys_alloc_page :: "u32 \<Rightarrow> u64" where
  "sys_alloc_page sz = 0"

definition sys_free_page :: "u64 \<Rightarrow> slab_heap \<Rightarrow> slab_heap" where
  "sys_free_page page h = h"

text \<open>
  \<^verbatim>\<open>slab_list_alloc\<close> and \<^verbatim>\<open>slab_list_free\<close> call themselves on the owner of the list while holding
  the lock of the list, so the number of free locks bounds the recursion.
\<close>

definition free_locks :: "slab_heap \<Rightarrow> nat" where
  "free_locks h = length (filter (\<lambda>sl. sl_lock sl = 0) (sh_lists h))"

lemma slab_list_lock_free_locks:
  assumes "slab_list_lock l h = Inr h'"
  shows "free_locks h = Suc (free_locks h')"
proof -
  from assms obtain sl where sl: "l < length (sh_lists h)" "sl = sh_lists h ! l" "sl_lock sl = 0"
    "h' = h\<lparr>sh_lists := (sh_lists h)[l := sl\<lparr>sl_lock := 1\<rparr>]\<rparr>"
    by (auto simp: slab_list_lock_def outcome)
  let ?as = "take l (sh_lists h)" and ?bs = "drop (Suc l) (sh_lists h)"
  have e: "sh_lists h = ?as @ sl # ?bs" using sl(1,2) by (simp add: id_take_nth_drop)
  have e': "sh_lists h' = ?as @ sl\<lparr>sl_lock := 1\<rparr> # ?bs" using sl(1,4) by (simp add: upd_conv_take_nth_drop)
  have "free_locks h = length (filter (\<lambda>sl. sl_lock sl = 0) (?as @ sl # ?bs))"
    unfolding free_locks_def by (rule arg_cong [OF e])
  moreover have "free_locks h' = length (filter (\<lambda>sl. sl_lock sl = 0) (?as @ sl\<lparr>sl_lock := 1\<rparr> # ?bs))"
    unfolding free_locks_def e' ..
  ultimately show ?thesis using sl(3) by simp
qed

text \<open>What the list surgery leaves alone: the locks.\<close>

definition same_locks :: "slab_heap \<Rightarrow> slab_heap \<Rightarrow> bool" where
  "same_locks h h' \<longleftrightarrow> map sl_lock (sh_lists h') = map sl_lock (sh_lists h)"

lemma free_locks_map: "free_locks h = length (filter (\<lambda>k. k = 0) (map sl_lock (sh_lists h)))"
  by (simp add: free_locks_def filter_map comp_def)

lemma same_locks_count: "same_locks h h' \<Longrightarrow> free_locks h' = free_locks h"
  by (simp add: same_locks_def free_locks_map)

lemma same_locks_refl [simp]: "same_locks h h"
  by (simp add: same_locks_def)

lemma same_locks_trans: "same_locks h h' \<Longrightarrow> same_locks h' h'' \<Longrightarrow> same_locks h h''"
  by (simp add: same_locks_def)

lemma put_slab_lists [simp]: "sh_lists (put_slab a s h) = sh_lists h"
  by (simp add: put_slab_def)

lemma set_same_locks:
  "set_prev a p h = Inr h' \<Longrightarrow> same_locks h h'"
  "set_next a v h = Inr h' \<Longrightarrow> same_locks h h'"
  by (auto simp: set_prev_def set_next_def outcome same_locks_def)

lemma upd_list_same_locks:
  assumes "upd_list l f h = Inr h'" and "\<And>sl. sl_lock (f sl) = sl_lock sl"
  shows "same_locks h h'"
proof -
  have "l < length (sh_lists h)" "h' = h\<lparr>sh_lists := (sh_lists h)[l := f (sh_lists h ! l)]\<rparr>"
    using assms(1) by (auto simp: upd_list_def outcome)
  then show ?thesis using assms(2) by (simp add: same_locks_def map_update) (metis list_update_id nth_map)
qed

lemma write_pp_same_locks: "write_pp p v h = Inr h' \<Longrightarrow> same_locks h h'"
  by (cases p) (auto simp: write_pp_def outcome same_locks_def [of _ "put_slab _ _ _"] dest: upd_list_same_locks)

lemma slab_list_remove_same_locks:
  assumes "slab_list_remove s h = Inr h'"
  shows "same_locks h h'"
proof -
  from assms obtain sb sb' :: slab_t and h1 h2 h3 :: slab_heap where
    1: "(if sb_next sb \<noteq> 0 then set_prev (sb_next sb) (sb_prev sb) h else Inr h) = Inr h1"
    and 2: "(if sb_prev sb' \<noteq> SPNull then write_pp (sb_prev sb') (sb_next sb') h1 else Inr h1) = Inr h2"
    and 3: "set_next s 0 h2 = Inr h3" "set_prev s SPNull h3 = Inr h'"
    unfolding slab_list_remove_def rbind_Inr_iff by blast
  have "same_locks h h1" using 1 by (auto split: if_splits dest: set_same_locks)
  moreover have "same_locks h1 h2" using 2 by (auto split: if_splits dest: write_pp_same_locks)
  ultimately show ?thesis using set_same_locks 3 same_locks_trans by metis
qed

function slab_list_alloc :: "nat \<Rightarrow> slab_heap \<Rightarrow> (u64 \<times> slab_heap) outcome" where
  "slab_list_alloc l h =
     rbind (slab_list_lock l h) (\<lambda>h.
     rbind (arr_get (sh_lists h) l) (\<lambda>sl.
     let s = sl_free_slabs sl in
     if s \<noteq> 0 then
       rbind (get_slab h s) (\<lambda>sb.
       rbind (slab_alloc s sb) (\<lambda>(addr, sb).
       let h = put_slab s sb h in
       rbind (if slab_is_full sb then
                rbind (slab_list_remove s h) (slab_list_insert (SPUsed l) s)
              else Inr h) (\<lambda>h.
       rbind (slab_list_unlock l h) (\<lambda>h.
       Inr (addr, h)))))
     else
       let sz = push_bit (unat (sl_size_shift sl)) 1 :: u32 in
       rbind (case sl_owner sl of
                Some ow \<Rightarrow> slab_list_alloc ow h
              | None \<Rightarrow> Inr (sys_alloc_page sz, h)) (\<lambda>(p, h).
       if p \<noteq> 0 then
         let chunk_size = push_bit (unat (sl_chunk_shift sl)) 1 :: u32 in
         rbind (slab_init p sz chunk_size) (\<lambda>sb.
         rbind (slab_list_insert (SPFree l) p (put_slab p sb h)) (\<lambda>h.
         rbind (get_slab h p) (\<lambda>sb.
         rbind (slab_alloc p sb) (\<lambda>(addr, sb).
         rbind (slab_list_unlock l (put_slab p sb h)) (\<lambda>h.
         Inr (addr, h))))))
       else rbind (slab_list_unlock l h) (\<lambda>h. Inr (0, h)))))"
  by pat_completeness auto
termination
  by (relation "measure (\<lambda>(l, h). free_locks h)") (auto dest: slab_list_lock_free_locks)

declare slab_list_alloc.simps [simp del]

function slab_list_free :: "nat \<Rightarrow> u64 \<Rightarrow> slab_heap \<Rightarrow> slab_heap outcome" where
  "slab_list_free l addr h =
     rbind (arr_get (sh_lists h) l) (\<lambda>sl.
     let slab_addr = addr AND NOT (push_bit (unat (sl_size_shift sl)) 1 - 1); s = slab_addr in
     rbind (slab_list_lock l h) (\<lambda>h.
     rbind (get_slab h s) (\<lambda>sb.
     let was_full = slab_is_full sb in
     rbind (slab_free s sb addr) (\<lambda>sb.
     let h = put_slab s sb h in
     rbind (if was_full then
              rbind (slab_list_remove s h) (slab_list_insert (SPFree l) s)
            else if slab_is_empty sb \<and> \<not> slab_is_reserved sb then
              rbind (slab_list_remove s h) (\<lambda>h.
              case sl_owner sl of
                Some ow \<Rightarrow> slab_list_free ow s h
              | None \<Rightarrow> Inr (sys_free_page slab_addr h))
            else Inr h) (\<lambda>h.
     slab_list_unlock l h)))))"
  by pat_completeness auto
termination
proof (relation "measure (\<lambda>(l, a, h). free_locks h)", goal_cases)
  case 1
  show ?case by simp
next
  case (2 l addr h sl sa s h1 sb wf sb' h2 h3 ow)
  have "free_locks h = Suc (free_locks h1)" using 2 by (blast dest: slab_list_lock_free_locks)
  moreover have "same_locks h2 h3" using 2 by (blast dest: slab_list_remove_same_locks)
  then have "free_locks h3 = free_locks h2" by (rule same_locks_count)
  moreover have "free_locks h2 = free_locks h1" using 2 by (simp add: free_locks_def)
  ultimately show ?case by simp
qed

declare slab_list_free.simps [simp del]

definition slab_list_reserve_on_slack :: "nat \<Rightarrow> slab_heap \<Rightarrow> (bool \<times> slab_heap) outcome" where
  "slab_list_reserve_on_slack l h =
     rbind (arr_get (sh_lists h) l) (\<lambda>sl.
     let sz = push_bit (unat (sl_size_shift sl)) 1 :: u32 in
     rbind (case sl_owner sl of
              Some ow \<Rightarrow> slab_list_alloc ow h
            | None \<Rightarrow>
                rbind (kernel_slack_alloc (ucast sz) (ucast sz) (sh_kernel h)) (\<lambda>(p, ks).
                Inr (p, h\<lparr>sh_kernel := ks\<rparr>))) (\<lambda>(p, h).
     if p \<noteq> 0 then
       let chunk_size = push_bit (unat (sl_chunk_shift sl)) 1 :: u32 in
       rbind (slab_init p sz chunk_size) (\<lambda>sb.
       let sb = sb\<lparr>sb_flags := sb_flags sb OR SLAB_RESERVED\<rparr> in
       rbind (slab_list_insert (SPFree l) p (put_slab p sb h)) (\<lambda>h.
       Inr (True, h)))
     else Inr (False, h)))"

subsection \<open>Powers of two\<close>

lemma bitlen_bounds: "n < 2 ^ bitlen n \<and> (0 < n \<longrightarrow> 2 ^ (bitlen n - 1) \<le> n)"
proof (induction n rule: bitlen.induct)
  case (1 n)
  show ?case
  proof (cases "n = 0")
    case False
    with 1 have ih: "n div 2 < 2 ^ bitlen (n div 2)" "0 < n div 2 \<longrightarrow> 2 ^ (bitlen (n div 2) - 1) \<le> n div 2" by auto
    have b: "bitlen n = Suc (bitlen (n div 2))" using False by (subst bitlen.simps) simp
    have "2 ^ bitlen (n div 2) \<le> n"
    proof (cases "n div 2 = 0")
      case True
      then have "bitlen (n div 2) = 0" by (simp add: bitlen.simps)
      then show ?thesis using False by simp
    next
      case d: False
      then have "bitlen (n div 2) \<noteq> 0" by (subst bitlen.simps) simp
      then have "(2 :: nat) ^ bitlen (n div 2) = 2 * 2 ^ (bitlen (n div 2) - 1)" by (cases "bitlen (n div 2)") auto
      then show ?thesis using ih(2) d by linarith
    qed
    then show ?thesis using ih(1) unfolding b by simp
  qed (simp add: bitlen.simps)
qed

lemma bitlen_eqI:
  assumes "2 ^ r \<le> n" and "n < 2 ^ Suc r"
  shows "bitlen n = Suc r"
proof -
  have n0: "0 < n" using assms(1) by (metis gr0I not_one_le_zero order_trans one_le_numeral one_le_power)
  then have b: "n < 2 ^ bitlen n" "2 ^ (bitlen n - 1) \<le> n" using bitlen_bounds by auto
  have "(2 :: nat) ^ r < 2 ^ bitlen n" using assms(1) b(1) by linarith
  then have "r < bitlen n" by (rule power_less_imp_less_exp [rotated]) simp
  moreover have "(2 :: nat) ^ (bitlen n - 1) < 2 ^ Suc r" using assms(2) b(2) by linarith
  then have "bitlen n - 1 < Suc r" by (rule power_less_imp_less_exp [rotated]) simp
  ultimately show ?thesis by simp
qed

lemma bitlen_le_32: "unat (x :: u32) = n \<Longrightarrow> bitlen n \<le> 32"
proof (cases "n = 0")
  case False
  assume "unat x = n"
  then have "n < 2 ^ 32" using unsigned_less [of x, where 'a = nat] by simp
  moreover have "2 ^ (bitlen n - 1) \<le> n" using bitlen_bounds False by simp
  ultimately have "(2 :: nat) ^ (bitlen n - 1) < 2 ^ 32" by linarith
  then have "bitlen n - 1 < 32" by (rule power_less_imp_less_exp [rotated]) simp
  then show ?thesis by simp
qed (simp add: bitlen.simps)

lemma ceil_pow2_result:
  assumes "2 \<le> x"
  shows "ceil_pow2 x = Inr (of_nat (bitlen (unat x - 1)))"
proof -
  have x: "2 \<le> unat x" using assms by (simp add: unat_le_iff)
  then have "unat (x - 1) = unat x - 1" by (intro unat_minus1) auto
  then have u: "unat (x - 1) = unat x - 1" .
  then have nz: "x - 1 \<noteq> 0" using x by auto
  have le: "bitlen (unat x - 1) \<le> 32" by (rule bitlen_le_32 [OF u])
  have "unat (32 - of_nat (32 - bitlen (unat x - 1)) :: u32) = bitlen (unat x - 1)"
  proof -
    have "unat (of_nat (32 - bitlen (unat x - 1)) :: u32) = 32 - bitlen (unat x - 1)"
      by (rule unat_of_nat_lt) simp
    then show ?thesis using le by (subst unat_minus_le) (auto simp: unat_le_iff)
  qed
  moreover have "unat (of_nat (bitlen (unat x - 1)) :: u32) = bitlen (unat x - 1)"
    using le by (intro unat_of_nat_lt) simp
  ultimately have "(32 - of_nat (32 - bitlen (unat x - 1)) :: u32) = of_nat (bitlen (unat x - 1))"
    by (simp only: unat_eq_iff [symmetric])
  then show ?thesis using nz u by (simp add: ceil_pow2_def builtin_clz_def)
qed

lemma unat_pow2_u32: "k < 32 \<Longrightarrow> unat (push_bit k 1 :: u32) = 2 ^ k"
proof -
  assume "k < 32"
  then have "(2 :: nat) ^ k < 2 ^ 32" by (intro power_strict_increasing) auto
  then have "unat (push_bit k 1 :: u32) = unat (1 :: u32) * 2 ^ k" by (intro unat_push_bit_lt) simp
  then show ?thesis by simp
qed

lemma ceil_pow2_exp:
  assumes "0 < k" and "k < 32"
  shows "ceil_pow2 (push_bit k 1) = Inr (of_nat k)"
proof -
  note u = unat_pow2_u32 [OF assms(2)]
  obtain j where j: "k = Suc j" using assms(1) by (cases k) auto
  have "1 \<le> (2 :: nat) ^ j" by simp
  then have "2 \<le> (2 :: nat) ^ k" "2 ^ j \<le> (2 :: nat) ^ k - 1" "(2 :: nat) ^ k - 1 < 2 ^ Suc j"
    unfolding j power_Suc by linarith+
  then have "2 \<le> (push_bit k 1 :: u32)" "bitlen (2 ^ k - 1) = k"
    using u j by (auto simp: unat_le_iff intro!: bitlen_eqI)
  then show ?thesis using ceil_pow2_result [of "push_bit k 1"] u by simp
qed

subsection \<open>The invariant of one slab\<close>

definition chunk_nx :: "slab_t \<Rightarrow> u16 \<Rightarrow> u16" where
  "chunk_nx s i = sb_chunk_list s ! unat i"

definition free_chunks :: "slab_t \<Rightarrow> u16 list" where
  "free_chunks s = walk (chunk_nx s) (length (sb_chunk_list s)) (sb_free_list s)"

definition chunk_addr :: "u64 \<Rightarrow> slab_t \<Rightarrow> u16 \<Rightarrow> u64" where
  "chunk_addr base s i = base + ucast (push_bit (unat (sb_chunk_shift s)) (ucast i :: u32))"

definition chunk_ok :: "slab_t \<Rightarrow> u16 \<Rightarrow> bool" where
  "chunk_ok s i \<longleftrightarrow> sb_num_reserved s \<le> i \<and> i < sb_num_chunks s"

text \<open>
  The geometry: the chunks fit behind \<open>base\<close> without wrapping. The free list is a chain of usable
  chunks, counted by \<^verbatim>\<open>num_free\<close>; chunk 0 is always reserved.
\<close>

definition slab_geom :: "u64 \<Rightarrow> slab_t \<Rightarrow> bool" where
  "slab_geom base s \<longleftrightarrow> unat (sb_num_chunks s) * 2 ^ unat (sb_chunk_shift s) \<le> 2 ^ 31 \<and>
     unat base + unat (sb_num_chunks s) * 2 ^ unat (sb_chunk_shift s) \<le> 2 ^ 64 \<and>
     unat (sb_num_chunks s) \<le> length (sb_chunk_list s) \<and> 0 < unat (sb_num_reserved s)"

definition slab_inv :: "u64 \<times> slab_t \<Rightarrow> bool" where
  "slab_inv = (\<lambda>(base, s). slab_geom base s \<and> chain (chunk_nx s) (sb_free_list s) (free_chunks s) \<and>
     list_all (chunk_ok s) (free_chunks s) \<and> unat (sb_num_free s) = length (free_chunks s))"

lemma chunk_ok_len:
  assumes "slab_geom base s" and "chunk_ok s i"
  shows "unat i < length (sb_chunk_list s)" and "i \<noteq> 0"
  using assms by (auto simp: slab_geom_def chunk_ok_def unat_le_iff unat_less_iff)

lemma free_chunks_eqI:
  assumes "slab_geom base s" and "chain (chunk_nx s) (sb_free_list s) xs" and "list_all (chunk_ok s) xs"
  shows "free_chunks s = xs"
proof -
  have "unat x < length (sb_chunk_list s)" if "x \<in> set xs" for x
    using chunk_ok_len(1) [OF assms(1)] assms(3) that by (auto simp: list_all_iff)
  then have "length xs \<le> length (sb_chunk_list s)" by (rule chain_length_le [OF assms(2)])
  then show ?thesis unfolding free_chunks_def by (rule walk_chain [OF assms(2)])
qed

lemma slab_invI:
  assumes "slab_geom base s" and "chain (chunk_nx s) (sb_free_list s) xs" and "list_all (chunk_ok s) xs"
    and "unat (sb_num_free s) = length xs"
  shows "slab_inv (base, s)" and "free_chunks s = xs"
  using assms free_chunks_eqI [OF assms(1-3)] by (simp_all add: slab_inv_def)

lemma chunk_offset:
  assumes "slab_geom base s" and "chunk_ok s i"
  shows "unat (push_bit (unat (sb_chunk_shift s)) (ucast i :: u32)) = unat i * 2 ^ unat (sb_chunk_shift s)"
    and "unat (chunk_addr base s i) = unat base + unat i * 2 ^ unat (sb_chunk_shift s)"
    and "unat i * 2 ^ unat (sb_chunk_shift s) < 2 ^ 31"
proof -
  let ?w = "2 ^ unat (sb_chunk_shift s) :: nat"
  have "unat i * ?w < unat (sb_num_chunks s) * ?w" using assms(2) by (simp add: chunk_ok_def unat_less_iff)
  moreover have g: "unat (sb_num_chunks s) * ?w \<le> 2 ^ 31" "unat base + unat (sb_num_chunks s) * ?w \<le> 2 ^ 64"
    using assms(1) by (simp_all add: slab_geom_def)
  ultimately have l: "unat i * ?w < 2 ^ 31" "unat base + unat i * ?w < 2 ^ 64" by linarith+
  then show "unat i * ?w < 2 ^ 31" by simp
  show p: "unat (push_bit (unat (sb_chunk_shift s)) (ucast i :: u32)) = unat i * ?w"
    by (subst unat_push_bit_lt) (use l(1) in simp_all)
  show "unat (chunk_addr base s i) = unat base + unat i * ?w"
    unfolding chunk_addr_def by (subst unat_plus_lt) (use p l(2) in simp_all)
qed

lemma chunk_index:
  assumes "slab_geom base s" and "chunk_ok s i"
  shows "drop_bit (unat (sb_chunk_shift s)) (ucast (chunk_addr base s i - base) :: u32) = ucast i"
proof -
  note o = chunk_offset [OF assms]
  have "chunk_addr base s i - base = ucast (push_bit (unat (sb_chunk_shift s)) (ucast i :: u32))"
    by (simp add: chunk_addr_def)
  then have "unat (drop_bit (unat (sb_chunk_shift s)) (ucast (chunk_addr base s i - base) :: u32)) = unat i"
    by (simp add: unat_drop_bit o(1))
  then have "unat (drop_bit (unat (sb_chunk_shift s)) (ucast (chunk_addr base s i - base) :: u32)) =
      unat (ucast i :: u32)" by simp
  then show ?thesis by (simp only: unat_eq_iff)
qed

lemma chunk_addr_inject:
  assumes "slab_geom base s" and "chunk_ok s i" and "chunk_ok s j"
  shows "chunk_addr base s i = chunk_addr base s j \<longleftrightarrow> i = j"
  using chunk_offset(2) [OF assms(1,2)] chunk_offset(2) [OF assms(1,3)]
  by (metis add_left_cancel mult_cancel2 power_not_zero unat_eq_iff zero_neq_numeral)

lemma slab_alloc_cons:
  assumes inv: "slab_inv (base, s)" and fc: "free_chunks s = i # is"
  shows "\<exists>s'. slab_alloc base s = Inr (chunk_addr base s i, s') \<and> slab_inv (base, s') \<and> free_chunks s' = is \<and>
    s' = s\<lparr>sb_free_list := chunk_nx s i, sb_num_free := sb_num_free s - 1\<rparr>"
proof -
  have g: "slab_geom base s" and ch: "chain (chunk_nx s) (sb_free_list s) (i # is)"
    and ok: "list_all (chunk_ok s) (i # is)" and nf: "unat (sb_num_free s) = length (i # is)"
    using inv fc by (simp_all add: slab_inv_def)
  have i: "sb_free_list s = i" "i \<noteq> 0" "chunk_ok s i" and tl: "chain (chunk_nx s) (chunk_nx s i) is"
    using ch ok by simp_all
  let ?s = "s\<lparr>sb_free_list := chunk_nx s i, sb_num_free := sb_num_free s - 1\<rparr>"
  have "(ucast i :: u32) \<noteq> 0" using i(2) by (simp flip: unat_eq_iff)
  then have eq: "slab_alloc base s = Inr (chunk_addr base s i, ?s)"
    using i chunk_ok_len(1) [OF g i(3)] by (simp add: slab_alloc_def chunk_addr_def chunk_nx_def Let_def)
  have same: "chunk_nx ?s = chunk_nx s" "chunk_ok ?s = chunk_ok s" "slab_geom base ?s = slab_geom base s"
    by (simp_all add: fun_eq_iff chunk_nx_def chunk_ok_def slab_geom_def)
  have "sb_num_free s \<noteq> 0" using nf by auto
  then have "unat (sb_num_free ?s) = length is" using nf by (simp add: unat_minus1)
  then have "slab_inv (base, ?s)" "free_chunks ?s = is"
    using g tl ok by (intro slab_invI [of base ?s "is"]; simp add: same)+
  then show ?thesis using eq by auto
qed

lemma slab_alloc_nil:
  assumes "slab_inv (base, s)" and "free_chunks s = []"
  shows "slab_alloc base s = Inr (0, s)"
  using assms by (simp add: slab_inv_def slab_alloc_def Let_def)

lemma slab_free_result:
  assumes inv: "slab_inv (base, s)" and i: "chunk_ok s i" and nf: "i \<notin> set (free_chunks s)"
  shows "\<exists>s'. slab_free base s (chunk_addr base s i) = Inr s' \<and> slab_inv (base, s') \<and>
    free_chunks s' = i # free_chunks s \<and>
    s' = s\<lparr>sb_chunk_list := (sb_chunk_list s)[unat i := sb_free_list s], sb_free_list := i,
           sb_num_free := sb_num_free s + 1\<rparr>"
proof -
  have g: "slab_geom base s" and ch: "chain (chunk_nx s) (sb_free_list s) (free_chunks s)"
    and ok: "list_all (chunk_ok s) (free_chunks s)" and cnt: "unat (sb_num_free s) = length (free_chunks s)"
    using inv by (simp_all add: slab_inv_def)
  note il = chunk_ok_len [OF g i]
  let ?s = "s\<lparr>sb_chunk_list := (sb_chunk_list s)[unat i := sb_free_list s], sb_free_list := i,
    sb_num_free := sb_num_free s + 1\<rparr>"
  have eq: "slab_free base s (chunk_addr base s i) = Inr ?s"
    using il by (simp add: slab_free_def Let_def chunk_index [OF g i])
  have g': "slab_geom base ?s" using g by (simp add: slab_geom_def)
  have nx: "chunk_nx ?s = (chunk_nx s)(i := sb_free_list s)"
    using il by (auto simp: chunk_nx_def fun_eq_iff nth_list_update)
  have ok': "chunk_ok ?s = chunk_ok s" by (simp add: fun_eq_iff chunk_ok_def)
  have ch': "chain (chunk_nx ?s) (sb_free_list ?s) (i # free_chunks s)" using ch nx nf il(2) by simp
  have "length (i # free_chunks s) \<le> unat (sb_num_chunks s)"
    using ok i by (intro chain_length_le [OF ch']) (auto simp: list_all_iff chunk_ok_def unat_less_iff)
  then have "sb_num_free s < sb_num_chunks s" using cnt by (simp add: unat_less_iff)
  then have "unat (sb_num_free ?s) = length (i # free_chunks s)" using cnt by (simp add: unat_plus1)
  then have "slab_inv (base, ?s)" "free_chunks ?s = i # free_chunks s"
    using g' ch' ok i by (intro slab_invI [of base ?s "i # free_chunks s"]; simp add: ok')+
  then show ?thesis using eq by auto
qed

text \<open>One slab, as an allocator of chunk addresses.\<close>

definition slab_take :: "u64 \<times> slab_t \<Rightarrow> (u64 \<times> u64 \<times> slab_t) outcome" where
  "slab_take = (\<lambda>(base, s). rbind (slab_alloc base s) (\<lambda>(a, s). Inr (a, base, s)))"

definition slab_give :: "u64 \<times> slab_t \<Rightarrow> u64 \<Rightarrow> (u64 \<times> slab_t) outcome" where
  "slab_give = (\<lambda>(base, s) a. rbind (slab_free base s a) (\<lambda>s. Inr (base, s)))"

definition slab_avail :: "u64 \<times> slab_t \<Rightarrow> u64 list" where
  "slab_avail = (\<lambda>(base, s). map (chunk_addr base s) (free_chunks s))"

definition slab_handles :: "u64 \<times> slab_t \<Rightarrow> u64 set" where
  "slab_handles = (\<lambda>(base, s). chunk_addr base s ` {i. chunk_ok s i})"

interpretation slabs: handle_allocator slab_take slab_give 0 slab_avail slab_handles slab_inv
proof (unfold_locales, goal_cases)
  case (1 st)
  obtain base s where st: "st = (base, s)" by fastforce
  have "distinct (free_chunks s)" "list_all (chunk_ok s) (free_chunks s)" "slab_geom base s"
    using 1 st chain_distinct by (auto simp: slab_inv_def)
  then show ?case using chunk_addr_inject
    by (auto simp: slab_avail_def st distinct_map inj_on_def list_all_iff)
next
  case (2 st)
  then show ?case by (cases st) (auto simp: slab_avail_def slab_handles_def slab_inv_def list_all_iff)
next
  case (3 st)
  obtain base s where st: "st = (base, s)" by fastforce
  have g: "slab_geom base s" using 3 st by (simp add: slab_inv_def)
  have "chunk_addr base s i \<noteq> 0" if "chunk_ok s i" for i
  proof -
    have "unat i \<noteq> 0" using chunk_ok_len(2) [OF g that] by (simp add: unat_eq_0)
    then have "unat (chunk_addr base s i) \<noteq> 0" unfolding chunk_offset(2) [OF g that] by simp
    then show ?thesis by auto
  qed
  then show ?case by (auto simp: slab_handles_def st)
next
  case (4 st)
  then show ?case using slab_alloc_nil by (cases st) (auto simp: slab_take_def slab_avail_def)
next
  case (5 st h hs)
  obtain base s where st: "st = (base, s)" by fastforce
  with 5 obtain i "is" where fc: "free_chunks s = i # is" "h = chunk_addr base s i"
    "hs = map (chunk_addr base s) is" by (auto simp: slab_avail_def)
  from slab_alloc_cons [OF _ fc(1)] 5 st obtain s' where s': "slab_alloc base s = Inr (h, s')"
    "slab_inv (base, s')" "free_chunks s' = is"
    "s' = s\<lparr>sb_free_list := chunk_nx s i, sb_num_free := sb_num_free s - 1\<rparr>" using fc by blast
  have "chunk_addr base s' = chunk_addr base s" "chunk_ok s' = chunk_ok s"
    by (simp_all add: s'(4) fun_eq_iff chunk_addr_def chunk_ok_def)
  then show ?case using s' fc by (simp add: st slab_take_def slab_avail_def slab_handles_def)
next
  case (6 st h)
  obtain base s where st: "st = (base, s)" by fastforce
  with 6 obtain i where i: "h = chunk_addr base s i" "chunk_ok s i" by (auto simp: slab_handles_def)
  have "i \<notin> set (free_chunks s)" using 6(3) i by (auto simp: slab_avail_def st)
  from slab_free_result [OF _ i(2) this] 6 st obtain s' where s': "slab_free base s h = Inr s'"
    "slab_inv (base, s')" "free_chunks s' = i # free_chunks s"
    "s' = s\<lparr>sb_chunk_list := (sb_chunk_list s)[unat i := sb_free_list s], sb_free_list := i,
           sb_num_free := sb_num_free s + 1\<rparr>" using i(1) by blast
  have "chunk_addr base s' = chunk_addr base s" "chunk_ok s' = chunk_ok s"
    by (simp_all add: s'(4) fun_eq_iff chunk_addr_def chunk_ok_def)
  then show ?case using s' i by (simp add: st slab_give_def slab_avail_def slab_handles_def)
qed

subsection \<open>Initialising a slab\<close>

definition reserved_chunks :: "nat \<Rightarrow> nat \<Rightarrow> nat" where
  "reserved_chunks n c = (32 + 2 * n + (2 ^ c - 1)) div 2 ^ c"

lemma reserved_chunks_bounds:
  "32 + 2 * n \<le> reserved_chunks n c * 2 ^ c" "0 < reserved_chunks n c"
proof -
  have e: "reserved_chunks n c * 2 ^ c = round_up (32 + 2 * n) (2 ^ c)"
    by (simp add: reserved_chunks_def round_up_def)
  show le: "32 + 2 * n \<le> reserved_chunks n c * 2 ^ c" unfolding e by (rule round_up_bounds) simp
  then show "0 < reserved_chunks n c" by (cases "reserved_chunks n c") auto
qed

lemma slab_init_counts:
  fixes c k :: nat
  assumes c: "c \<le> k" and k: "k \<le> 30"
  defines "n \<equiv> 2 ^ (k - c) :: nat"
  assumes n: "n \<le> 2 ^ 15"
  shows "drop_bit c (push_bit k 1 :: u32) = of_nat n"
    and "drop_bit c ((ucast (sizeof_slab_t + ucast (of_nat n :: u32) * 2) + (push_bit c 1 - 1)) AND
       NOT (push_bit c 1 - 1) :: u32) = of_nat (reserved_chunks n c)"
    and "reserved_chunks n c < 2 ^ 32"
proof -
  have "unat (push_bit k 1 :: u32) = 2 ^ k" using k by (intro unat_pow2_u32) simp
  then have "unat (drop_bit c (push_bit k 1 :: u32)) = 2 ^ k div 2 ^ c" by (simp only: unat_drop_bit)
  also have "\<dots> = n" using c by (simp add: n_def power_diff)
  finally have "unat (drop_bit c (push_bit k 1 :: u32)) = unat (of_nat n :: u32)"
    using n by (simp add: unat_of_nat_lt)
  then show "drop_bit c (push_bit k 1 :: u32) = of_nat n" by (simp only: unat_eq_iff)
  let ?cs = "ucast (sizeof_slab_t + ucast (of_nat n :: u32) * 2) :: u32"
  have nn: "unat (of_nat n :: u32) = n" using n by (intro unat_of_nat_lt) simp
  have "unat (sizeof_slab_t + ucast (of_nat n :: u32) * 2 :: u64) = 32 + 2 * n"
    using nn n by (simp add: sizeof_slab_t_def unat_word_ariths)
  then have ucs: "unat ?cs = 32 + 2 * n" using n by (subst unat_ucast_down) auto
  have c31: "c < 32" using c k by simp
  have c30: "(2 :: nat) ^ c \<le> 2 ^ 30" by (rule power_increasing) (use c k in simp_all)
  have up: "unat (push_bit c 1 - 1 :: u32) = 2 ^ c - 1"
  proof -
    have "push_bit c (1 :: u32) \<noteq> 0" using unat_pow2_u32 [OF c31] by (metis unat_0 power_not_zero zero_neq_numeral)
    then have "unat (push_bit c 1 - 1 :: u32) = unat (push_bit c 1 :: u32) - 1" by (rule unat_minus1)
    then show ?thesis by (simp only: unat_pow2_u32 [OF c31])
  qed
  have us: "unat (?cs + (push_bit c 1 - 1)) = 32 + 2 * n + (2 ^ c - 1)"
    by (subst unat_plus_lt) (use ucs up n c30 in simp_all)
  have m: "drop_bit c (y AND NOT (push_bit c 1 - 1)) = drop_bit c y" for y :: u32
  proof -
    have "push_bit c 1 - 1 = (mask c :: u32)" by (simp add: mask_eq_exp_minus_1)
    moreover have "bit y j \<Longrightarrow> j < 32" for j using bit_imp_le_length [of y j] by simp
    ultimately show ?thesis by (auto intro!: bit_word_eqI simp: bit_simps)
  qed
  have "unat (drop_bit c (?cs + (push_bit c 1 - 1))) = reserved_chunks n c"
    by (simp only: unat_drop_bit us reserved_chunks_def)
  moreover have "reserved_chunks n c \<le> 32 + 2 * n + (2 ^ c - 1)" unfolding reserved_chunks_def by (rule div_le_dividend)
  then show lt: "reserved_chunks n c < 2 ^ 32" using n c30 by simp
  ultimately have "unat (drop_bit c (?cs + (push_bit c 1 - 1))) = unat (of_nat (reserved_chunks n c) :: u32)"
    by (simp add: unat_of_nat_lt)
  then show "drop_bit c ((?cs + (push_bit c 1 - 1)) AND NOT (push_bit c 1 - 1)) = of_nat (reserved_chunks n c)"
    unfolding m by (simp only: unat_eq_iff)
qed

lemma slab_chunk_list_result:
  fixes nr np :: u32
  assumes r: "0 < unat nr" "unat nr < unat np" and len: "unat np \<le> length mem" and w: "unat np < 2 ^ 16"
  shows "\<exists>cl. rbind (for_up 0 nr (\<lambda>i cl. arr_set cl (unat i) 0) mem) (\<lambda>cl.
      rbind (for_up nr (np - 1) (\<lambda>i cl. arr_set cl (unat i) (ucast (i + 1))) cl) (\<lambda>cl.
      rbind (arr_set cl (unat (max nr (np - 1))) 0) f)) = f cl \<and> length cl = length mem \<and>
    (\<forall>j. unat nr \<le> j \<longrightarrow> j < unat np - 1 \<longrightarrow> cl ! j = (of_nat (Suc j) :: u16)) \<and> cl ! (unat np - 1) = 0"
proof -
  have np1: "unat (np - 1) = unat np - 1" using r by (intro unat_minus1) auto
  have le: "nr \<le> np - 1" using r np1 by (simp add: unat_le_iff)
  obtain c1 where c1: "for_up 0 nr (\<lambda>i cl. arr_set cl (unat i) (0 :: u16)) mem = Inr c1" "length c1 = length mem"
    using for_up_fill [of 0 nr mem "\<lambda>_. 0 :: u16"] r len by auto
  obtain c2 where c2: "for_up nr (np - 1) (\<lambda>i cl. arr_set cl (unat i) (ucast (i + 1))) c1 = Inr c2"
    "length c2 = length mem"
    "\<forall>j<length c1. c2 ! j = (if unat nr \<le> j \<and> j < unat (np - 1) then ucast (of_nat j + 1 :: u32) else c1 ! j)"
  proof -
    have "unat (np - 1) \<le> length c1" using len np1 c1(2) by simp
    from for_up_fill [OF le this, of "\<lambda>i. ucast (i + 1) :: u16"] show ?thesis using that c1(2) by auto
  qed
  let ?cl = "c2[unat np - 1 := 0]"
  have "arr_set c2 (unat (max nr (np - 1))) 0 = Inr ?cl"
    using le len r c2(2) np1 by (simp add: max_absorb2)
  moreover have "?cl ! j = of_nat (Suc j)" if "unat nr \<le> j" "j < unat np - 1" for j
  proof -
    have j: "unat (of_nat (Suc j) :: u32) = Suc j" "unat (of_nat (Suc j) :: u16) = Suc j"
      by (rule unat_of_nat_lt, use that w in simp)+
    have "unat (ucast (of_nat (Suc j) :: u32) :: u16) = unat (of_nat (Suc j) :: u16)"
      using j that w by (subst unat_ucast_down) (simp_all del: of_nat_Suc)
    then have "(ucast (of_nat j + 1 :: u32) :: u16) = of_nat (Suc j)" by (simp only: unat_eq_iff of_nat_Suc add.commute)
    then show ?thesis using c2(3) c1(2) that np1 len by simp
  qed
  moreover have "?cl ! (unat np - 1) = 0" using c2(2) len r by simp
  ultimately show ?thesis using c1(1) c2(1,2) by (intro exI [of _ ?cl]) simp
qed

lemma slab_init_result:
  fixes c k :: nat
  assumes c: "0 < c" "c \<le> k" and k: "k \<le> 30"
  defines "n \<equiv> 2 ^ (k - c) :: nat" and "r \<equiv> reserved_chunks (2 ^ (k - c)) c"
  assumes n: "n \<le> 2 ^ 15" and rn: "r < n" and base: "unat base + 2 ^ k \<le> 2 ^ 64"
  shows "\<exists>s. slab_init base (push_bit k 1) (push_bit c 1) = Inr s \<and> slab_inv (base, s) \<and>
    free_chunks s = map of_nat [r..<n] \<and> unat (sb_num_chunks s) = n \<and> unat (sb_num_reserved s) = r \<and>
    unat (sb_chunk_shift s) = c \<and> sb_flags s = 0 \<and> sb_next s = 0 \<and> sb_prev s = SPNull"
proof -
  have c32: "c < 32" "k < 32" using c k by simp_all
  have ec: "ceil_pow2 (push_bit c 1) = Inr (of_nat c)" by (rule ceil_pow2_exp [OF c(1) c32(1)])
  have uc: "unat (of_nat c :: u32) = c" "unat (of_nat c :: u16) = c"
    by (rule unat_of_nat_lt, use c32 in simp)+
  note cnt = slab_init_counts [OF c(2) k, folded n_def, OF n]
  have rr: "r = reserved_chunks n c" by (simp add: r_def n_def)
  have nk: "n * 2 ^ c = 2 ^ k" using c(2) by (simp add: n_def flip: power_add)
  have un: "unat (of_nat n :: u32) = n" "unat (of_nat r :: u32) = r"
    by (rule unat_of_nat_lt, use n rn in simp)+
  define mem where "mem = replicate ((unat (push_bit k 1 :: u32) - offsetof_chunk_list) div 2) (0 :: u16)"
  have len: "n \<le> length mem"
  proof -
    have "r * 2 ^ c + 2 ^ c \<le> n * 2 ^ c" using rn by (metis Suc_leI mult_Suc add.commute mult_le_mono1)
    moreover have "32 + 2 * n \<le> r * 2 ^ c" using reserved_chunks_bounds(1) [of n c] by (simp add: rr)
    ultimately have "32 + 2 * n \<le> 2 ^ k" using nk by linarith
    then show ?thesis by (simp add: mem_def offsetof_chunk_list_def unat_pow2_u32 [OF c32(2)] del: push_bit_of_1)
  qed
  have r0: "0 < r" using reserved_chunks_bounds(2) by (simp add: r_def)
  let ?sl = "\<lambda>cl. \<lparr>sb_next = 0, sb_prev = SPNull, sb_chunk_shift = ucast (of_nat c :: u32),
    sb_num_chunks = ucast (of_nat n :: u32), sb_num_free = ucast (of_nat n - of_nat r :: u32),
    sb_num_reserved = ucast (of_nat r :: u32), sb_flags = 0, sb_free_list = ucast (of_nat r :: u32),
    sb_chunk_list = cl\<rparr> :: slab_t"
  have w: "unat (of_nat n :: u32) < 2 ^ 16" using un n by simp
  obtain cl where cl: "slab_init base (push_bit k 1) (push_bit c 1) = Inr (?sl cl)"
    "length cl = length mem" "\<And>j. r \<le> j \<Longrightarrow> j < n - 1 \<Longrightarrow> cl ! j = of_nat (Suc j)" "cl ! (n - 1) = 0"
    using slab_chunk_list_result [of "of_nat r" "of_nat n" mem "\<lambda>cl. Inr (?sl cl)"] un r0 rn len w
    unfolding slab_init_def ec rbind_simps Let_def uc(1) cnt(1) cnt(2) rr [symmetric] mem_def [symmetric]
    by auto
  let ?s = "?sl cl"
  have u16: "unat (ucast (of_nat n :: u32) :: u16) = n" "unat (ucast (of_nat r :: u32) :: u16) = r"
    "unat (ucast (of_nat c :: u32) :: u16) = c"
    by (subst unat_ucast_down, use un uc n rn c32 in simp_all)+
  have nf: "unat (ucast (of_nat n - of_nat r :: u32) :: u16) = n - r"
  proof -
    have "unat (of_nat n - of_nat r :: u32) = n - r" using un rn by (subst unat_minus_le) (auto simp: unat_le_iff)
    then show ?thesis using n by (subst unat_ucast_down) auto
  qed
  have g: "slab_geom base ?s"
    using u16 nk base len cl(2) r0 power_increasing [of k 30 "2 :: nat"] k by (simp add: slab_geom_def)
  have fl: "sb_free_list ?s = of_nat r"
    using u16(2) unat_of_nat_lt [of r, where 'a = 16] rn n by (simp flip: unat_eq_iff)
  have u: "unat (of_nat j :: u16) = j" if "j < n" for j by (rule unat_of_nat_lt) (use that n in simp)
  have "unat (of_nat (n - 1) :: u16) = n - 1" by (rule u) (use rn in simp)
  then have last: "chunk_nx ?s (of_nat (n - 1)) = 0" unfolding chunk_nx_def by (simp only: slab_t.simps cl(4))
  have step: "chunk_nx ?s (of_nat j) = of_nat (Suc j)" if "r \<le> j" "j < n - 1" for j
    using u [of j] cl(3) [OF that] that by (simp add: chunk_nx_def)
  have "n < 2 ^ LENGTH(16)" using n by simp
  then have "chain (chunk_nx ?s) (of_nat r) (map of_nat [r..<n])"
    by (rule chain_upto [OF r0 rn _ step last])
  then have ch: "chain (chunk_nx ?s) (sb_free_list ?s) (map of_nat [r..<n])" by (simp only: fl)
  have ok: "list_all (chunk_ok ?s) (map of_nat [r..<n])"
    using u u16 by (auto simp: list_all_iff chunk_ok_def unat_le_iff unat_less_iff)
  have "slab_inv (base, ?s)" "free_chunks ?s = map of_nat [r..<n]"
    by (rule slab_invI [OF g ch ok], simp add: nf)+
  then show ?thesis using cl(1) u16 by (intro exI [of _ ?s]) simp
qed

subsection \<open>Lists of slabs\<close>

text \<open>
  The links of a heap are the \<^verbatim>\<open>next\<close> and \<^verbatim>\<open>prev\<close> fields of its slabs; the payload is the rest.
  \<open>pchain lk pp a xs\<close>: from pointer \<open>a\<close>, stored in cell \<open>pp\<close>, the \<^verbatim>\<open>next\<close> fields visit exactly \<open>xs\<close>,
  and every \<^verbatim>\<open>prev\<close> field names the cell that points to its slab.
\<close>

type_synonym slab_links = "u64 \<Rightarrow> (u64 \<times> slab_pp) option"

definition links :: "slab_heap \<Rightarrow> slab_links" where
  "links h a = map_option (\<lambda>s. (sb_next s, sb_prev s)) (sh_slabs h a)"

definition strip_links :: "slab_t \<Rightarrow> slab_t" where
  "strip_links s = s\<lparr>sb_next := 0, sb_prev := SPNull\<rparr>"

definition payload :: "slab_heap \<Rightarrow> u64 \<Rightarrow> slab_t option" where
  "payload h a = map_option strip_links (sh_slabs h a)"

abbreviation pchain :: "slab_links \<Rightarrow> slab_pp \<Rightarrow> u64 \<Rightarrow> u64 list \<Rightarrow> bool" where
  "pchain \<equiv> bchain SPSlab"

lemmas pchain_head = bchain_head [where cell = SPSlab]
lemmas pchain_mem = bchain_mem [where cell = SPSlab]
lemmas pchain_cong = bchain_cong [where cell = SPSlab]
lemmas pchain_insert = bchain_insert [where cell = SPSlab]
lemmas pchain_at = bchain_at [where cell = SPSlab]
lemmas pchain_remove = bchain_remove [where cell = SPSlab]

definition is_head :: "slab_pp \<Rightarrow> nat \<Rightarrow> bool" where
  "is_head lst l \<longleftrightarrow> lst = SPFree l \<or> lst = SPUsed l"

definition head_get :: "slab_pp \<Rightarrow> slab_list_t \<Rightarrow> u64" where
  "head_get lst sl = (case lst of SPUsed _ \<Rightarrow> sl_used_slabs sl | _ \<Rightarrow> sl_free_slabs sl)"

definition head_set :: "slab_pp \<Rightarrow> u64 \<Rightarrow> slab_list_t \<Rightarrow> slab_list_t" where
  "head_set lst v sl = (case lst of SPUsed _ \<Rightarrow> sl\<lparr>sl_used_slabs := v\<rparr> | _ \<Rightarrow> sl\<lparr>sl_free_slabs := v\<rparr>)"

definition same_rest :: "slab_heap \<Rightarrow> slab_heap \<Rightarrow> bool" where
  "same_rest h h' \<longleftrightarrow> payload h' = payload h \<and> sh_kernel h' = sh_kernel h"

lemma same_rest_trans: "same_rest h h' \<Longrightarrow> same_rest h' h'' \<Longrightarrow> same_rest h h''"
  by (simp add: same_rest_def)

lemma head_set_simps [simp]:
  "head_get lst (head_set lst v sl) = v"
  "head_get (SPUsed l) (head_set (SPFree l) v sl) = head_get (SPUsed l) sl"
  "head_get (SPFree l) (head_set (SPUsed l) v sl) = head_get (SPFree l) sl"
  by (cases lst) (simp_all add: head_get_def head_set_def)

lemma put_slab_kernel [simp]: "sh_kernel (put_slab a s h) = sh_kernel h"
  by (simp add: put_slab_def)

lemma links_put [simp]: "links (put_slab a s h) = (links h)(a \<mapsto> (sb_next s, sb_prev s))"
  by (auto simp: links_def put_slab_def fun_eq_iff)

lemma payload_put [simp]: "payload (put_slab a s h) = (payload h)(a \<mapsto> strip_links s)"
  by (auto simp: payload_def put_slab_def fun_eq_iff)

lemma links_SomeD: "links h a = Some (n, p) \<Longrightarrow> \<exists>s. sh_slabs h a = Some s \<and> sb_next s = n \<and> sb_prev s = p"
  by (auto simp: links_def)

lemma set_prev_links:
  assumes "links h a = Some (n, q)"
  shows "\<exists>h'. set_prev a p h = Inr h' \<and> links h' = (links h)(a \<mapsto> (n, p)) \<and> sh_lists h' = sh_lists h \<and> same_rest h h'"
proof -
  obtain s where s: "sh_slabs h a = Some s" "sb_next s = n" using links_SomeD [OF assms] by blast
  have "(payload h)(a \<mapsto> strip_links s) = payload h" using s by (auto simp: payload_def fun_eq_iff)
  then show ?thesis using s by (auto simp: set_prev_def get_slab_def same_rest_def strip_links_def)
qed

lemma set_next_links:
  assumes "links h a = Some (m, q)"
  shows "\<exists>h'. set_next a n h = Inr h' \<and> links h' = (links h)(a \<mapsto> (n, q)) \<and> sh_lists h' = sh_lists h \<and> same_rest h h'"
proof -
  obtain s where s: "sh_slabs h a = Some s" "sb_prev s = q" using links_SomeD [OF assms] by blast
  have "(payload h)(a \<mapsto> strip_links s) = payload h" using s by (auto simp: payload_def fun_eq_iff)
  then show ?thesis using s by (auto simp: set_next_def get_slab_def same_rest_def strip_links_def)
qed

lemma write_pp_slab: "write_pp (SPSlab a) v h = set_next a v h"
  by (simp add: write_pp_def set_next_def)

lemma write_pp_head:
  assumes "is_head lst l" and "l < length (sh_lists h)"
  shows "\<exists>h'. write_pp lst v h = Inr h' \<and> links h' = links h \<and>
    sh_lists h' = (sh_lists h)[l := head_set lst v (sh_lists h ! l)] \<and> same_rest h h'"
  using assms by (auto simp: is_head_def write_pp_def upd_list_def head_set_def same_rest_def links_def payload_def fun_eq_iff)

lemma read_pp_head:
  assumes "is_head lst l" and "l < length (sh_lists h)"
  shows "read_pp lst h = Inr (head_get lst (sh_lists h ! l))"
  using assms by (auto simp: is_head_def read_pp_def head_get_def)

text \<open>
  Both operations first redirect the \<^verbatim>\<open>prev\<close> field of the slab that follows, if there is one;
  removal then redirects the cell that points to the slab.
\<close>

lemma relink_succ:
  assumes "\<forall>y\<in>set bs. y \<noteq> 0 \<and> (\<exists>n p. links h y = Some (n, p))" and "distinct bs"
    and f: "f = (case bs of [] \<Rightarrow> 0 | b # _ \<Rightarrow> b)"
  obtains h1 where "(if f \<noteq> 0 then set_prev f pv h else Inr h) = Inr h1" "sh_lists h1 = sh_lists h"
    "same_rest h h1" "\<And>y. y \<notin> set bs \<Longrightarrow> links h1 y = links h y" "\<And>y. y \<in> set (tl bs) \<Longrightarrow> links h1 y = links h y"
    "\<And>y n p. bs = y # tl bs \<Longrightarrow> links h y = Some (n, p) \<Longrightarrow> links h1 y = Some (n, pv)"
proof (cases bs)
  case Nil
  then show ?thesis using that [of h] f by (simp add: same_rest_def)
next
  case (Cons b ys)
  obtain n p where b: "links h b = Some (n, p)" "b \<noteq> 0" using assms(1) Cons by auto
  from set_prev_links [OF b(1), of pv] obtain h1 where
    "set_prev b pv h = Inr h1" "links h1 = (links h)(b \<mapsto> (n, pv))" "sh_lists h1 = sh_lists h" "same_rest h h1"
    by blast
  then show ?thesis by (intro that [of h1]) (use b Cons assms(2) f in auto)
qed

lemma relink_pred:
  assumes hd: "is_head lst l" "l < length (sh_lists h1)"
    and g: "as \<noteq> [] \<longrightarrow> head_get lst (sh_lists h1 ! l) = hd as"
    and la: "as \<noteq> [] \<longrightarrow> (\<exists>n p. links h1 (last as) = Some (n, p))"
    and nx: "nx = (case bs of [] \<Rightarrow> 0 | b # _ \<Rightarrow> b)"
  obtains h2 where "write_pp (if as = [] then lst else SPSlab (last as)) nx h1 = Inr h2" "same_rest h1 h2"
    "sh_lists h2 = (sh_lists h1)[l := head_set lst (case as @ bs of [] \<Rightarrow> 0 | y # _ \<Rightarrow> y) (sh_lists h1 ! l)]"
    "\<And>y. as = [] \<or> y \<noteq> last as \<Longrightarrow> links h2 y = links h1 y"
    "\<And>n p. as \<noteq> [] \<Longrightarrow> links h1 (last as) = Some (n, p) \<Longrightarrow> links h2 (last as) = Some (nx, p)"
proof (cases "as = []")
  case True
  then show ?thesis using write_pp_head [OF hd, of nx] that nx by auto
next
  case False
  obtain n p where lp: "links h1 (last as) = Some (n, p)" using la False by blast
  from set_next_links [OF lp, of nx] obtain h2 where h2: "set_next (last as) nx h1 = Inr h2"
    "links h2 = (links h1)(last as \<mapsto> (nx, p))" "sh_lists h2 = sh_lists h1" "same_rest h1 h2" by blast
  have "head_set lst (case as @ bs of [] \<Rightarrow> 0 | y # _ \<Rightarrow> y) (sh_lists h1 ! l) = sh_lists h1 ! l"
    using False g by (cases as; cases lst) (auto simp: head_get_def head_set_def)
  then show ?thesis using that [of h2] h2 False lp by (auto simp: write_pp_slab)
qed

lemma slab_list_insert_result:
  assumes hd: "is_head lst l" "l < length (sh_lists h)"
    and ch: "pchain (links h) lst (head_get lst (sh_lists h ! l)) xs" and d: "distinct xs"
    and x: "x \<noteq> 0" "x \<notin> set xs" "links h x = Some q"
  shows "\<exists>h'. slab_list_insert lst x h = Inr h' \<and> pchain (links h') lst x (x # xs) \<and>
    (\<forall>y. y \<noteq> x \<longrightarrow> y \<notin> set xs \<longrightarrow> links h' y = links h y) \<and>
    sh_lists h' = (sh_lists h)[l := head_set lst x (sh_lists h ! l)] \<and> same_rest h h'"
proof -
  let ?f = "head_get lst (sh_lists h ! l)"
  have mem: "\<forall>y\<in>set xs. y \<noteq> 0 \<and> (\<exists>n p. links h y = Some (n, p))" using pchain_mem [OF ch] by blast
  obtain h1 where h1: "(if ?f \<noteq> 0 then set_prev ?f (SPSlab x) h else Inr h) = Inr h1" "sh_lists h1 = sh_lists h"
    "same_rest h h1" "\<And>y. y \<notin> set xs \<Longrightarrow> links h1 y = links h y" "\<And>y. y \<in> set (tl xs) \<Longrightarrow> links h1 y = links h y"
    "\<And>y n p. xs = y # tl xs \<Longrightarrow> links h y = Some (n, p) \<Longrightarrow> links h1 y = Some (n, SPSlab x)"
    by (rule relink_succ [OF mem d pchain_head [OF ch], where pv = "SPSlab x"]) (rule that)
  obtain m p where q: "links h1 x = Some (m, p)" using h1(4) x(2,3) by (cases q) auto
  from set_next_links [OF q, of ?f] obtain h2 where h2: "set_next x ?f h1 = Inr h2"
    "links h2 = (links h1)(x \<mapsto> (?f, p))" "sh_lists h2 = sh_lists h1" "same_rest h1 h2" by blast
  have "links h2 x = Some (?f, p)" by (simp add: h2)
  from set_prev_links [OF this, of lst] obtain h3 where h3: "set_prev x lst h2 = Inr h3"
    "links h3 = (links h2)(x \<mapsto> (?f, lst))" "sh_lists h3 = sh_lists h2" "same_rest h2 h3" by blast
  have "l < length (sh_lists h3)" using hd(2) h1(2) h2(3) h3(3) by simp
  from write_pp_head [OF hd(1) this, of x] obtain h4 where h4: "write_pp lst x h3 = Inr h4" "links h4 = links h3"
    "sh_lists h4 = (sh_lists h3)[l := head_set lst x (sh_lists h3 ! l)]" "same_rest h3 h4" by blast
  have lk: "links h4 = (links h1)(x \<mapsto> (?f, lst))" using h4(2) h3(2) h2(2) by simp
  have eq: "slab_list_insert lst x h = Inr h4"
    using h1(1) h2(1) h3(1) h4(1) read_pp_head [OF hd] read_pp_head [OF hd(1), of h1] hd(2) h1(2)
    unfolding slab_list_insert_def by (simp only: rbind_simps)
  have nx: "y \<noteq> x" if "y \<in> set xs" for y using that x(2) by blast
  have "pchain (links h4) lst x (x # xs)"
  proof (rule pchain_insert [OF ch x(1,2) d], goal_cases)
    case (2 y n p)
    then have "y \<in> set xs" by (metis list.set_intros(1))
    then show ?case using h1(6) [OF 2] nx by (auto simp: lk)
  next
    case (3 y)
    then have "y \<in> set xs" by (cases xs) auto
    then show ?case using h1(5) [OF 3] nx by (auto simp: lk)
  qed (simp add: lk)
  moreover have "\<forall>y. y \<noteq> x \<longrightarrow> y \<notin> set xs \<longrightarrow> links h4 y = links h y" using h1(4) by (simp add: lk)
  moreover have "same_rest h h4" using h1(3) h2(4) h3(4) h4(4) same_rest_trans by metis
  ultimately show ?thesis using eq h4(3) h3(3) h2(3) h1(2) by auto
qed

lemma slab_list_remove_result:
  assumes hd: "is_head lst l" "l < length (sh_lists h)"
    and ch: "pchain (links h) lst (head_get lst (sh_lists h ! l)) (as @ x # bs)" and d: "distinct (as @ x # bs)"
  shows "\<exists>h'. slab_list_remove x h = Inr h' \<and>
    pchain (links h') lst (case as @ bs of [] \<Rightarrow> 0 | y # _ \<Rightarrow> y) (as @ bs) \<and>
    (\<forall>y. y \<notin> set (as @ x # bs) \<longrightarrow> links h' y = links h y) \<and> links h' x \<noteq> None \<and>
    sh_lists h' = (sh_lists h)[l := head_set lst (case as @ bs of [] \<Rightarrow> 0 | y # _ \<Rightarrow> y) (sh_lists h ! l)] \<and>
    same_rest h h'"
proof -
  define nx where "nx = (case bs of [] \<Rightarrow> 0 | b # _ \<Rightarrow> b)"
  define pv where "pv = (if as = [] then lst else SPSlab (last as))"
  have lx: "links h x = Some (nx, pv)" using pchain_at [OF ch] by (simp add: nx_def pv_def)
  then obtain sb where sb: "get_slab h x = Inr sb" "sb_next sb = nx" "sb_prev sb = pv"
    by (auto simp: links_def get_slab_def)
  have mem: "\<forall>y\<in>set bs. y \<noteq> 0 \<and> (\<exists>n p. links h y = Some (n, p))" using pchain_mem [OF ch] by auto
  have db: "distinct bs" using d by simp
  obtain h1 where h1: "(if nx \<noteq> 0 then set_prev nx pv h else Inr h) = Inr h1" "sh_lists h1 = sh_lists h"
    "same_rest h h1" "\<And>y. y \<notin> set bs \<Longrightarrow> links h1 y = links h y" "\<And>y. y \<in> set (tl bs) \<Longrightarrow> links h1 y = links h y"
    "\<And>y n p. bs = y # tl bs \<Longrightarrow> links h y = Some (n, p) \<Longrightarrow> links h1 y = Some (n, pv)"
    by (rule relink_succ [OF mem db nx_def, where pv = pv]) (rule that)
  have la: "last as \<in> set as" if "as \<noteq> []" using that by simp
  have l1: "links h1 x = Some (nx, pv)" "links h1 (last as) = links h (last as)" if "as \<noteq> []"
    using h1(4) d lx la [OF that] by auto
  have l1x: "links h1 x = Some (nx, pv)" using h1(4) d lx by simp
  then obtain sb1 where sb1: "get_slab h1 x = Inr sb1" "sb_next sb1 = nx" "sb_prev sb1 = pv"
    by (auto simp: links_def get_slab_def)
  have g: "as \<noteq> [] \<longrightarrow> head_get lst (sh_lists h1 ! l) = hd as"
    using pchain_head [OF ch] h1(2) by (cases as) auto
  have lp: "as \<noteq> [] \<longrightarrow> (\<exists>n p. links h1 (last as) = Some (n, p))"
    using pchain_mem [OF ch, of "last as"] l1(2) by simp
  have len1: "l < length (sh_lists h1)" using hd(2) h1(2) by simp
  obtain h2 where h2: "write_pp pv nx h1 = Inr h2" "same_rest h1 h2"
    "sh_lists h2 = (sh_lists h1)[l := head_set lst (case as @ bs of [] \<Rightarrow> 0 | y # _ \<Rightarrow> y) (sh_lists h1 ! l)]"
    "\<And>y. as = [] \<or> y \<noteq> last as \<Longrightarrow> links h2 y = links h1 y"
    "\<And>n p. as \<noteq> [] \<Longrightarrow> links h1 (last as) = Some (n, p) \<Longrightarrow> links h2 (last as) = Some (nx, p)"
    by (rule relink_pred [OF hd(1) len1 g lp nx_def, folded pv_def]) (rule that)
  have off: "as = [] \<or> y \<noteq> last as" if "y \<notin> set as" for y using la that by blast
  have "links h2 x = Some (nx, pv)" using h2(4) [OF off] l1x d by simp
  from set_next_links [OF this, of 0] obtain h3 where h3: "set_next x 0 h2 = Inr h3"
    "links h3 = (links h2)(x \<mapsto> (0, pv))" "sh_lists h3 = sh_lists h2" "same_rest h2 h3" by blast
  have "links h3 x = Some (0, pv)" by (simp add: h3)
  from set_prev_links [OF this, of SPNull] obtain h4 where h4: "set_prev x SPNull h3 = Inr h4"
    "links h4 = (links h3)(x \<mapsto> (0, SPNull))" "sh_lists h4 = sh_lists h3" "same_rest h3 h4" by blast
  have lk: "links h4 = (links h2)(x \<mapsto> (0, SPNull))" using h4(2) h3(2) by simp
  have "pv \<noteq> SPNull" using hd(1) by (auto simp: pv_def is_head_def)
  then have eq: "slab_list_remove x h = Inr h4"
    unfolding slab_list_remove_def sb rbind_simps h1(1) sb1 by (simp add: h2(1) h3(1) h4(1))
  have "pchain (links h4) lst (case as @ bs of [] \<Rightarrow> 0 | y # _ \<Rightarrow> y) (as @ bs)"
  proof (rule pchain_remove [OF ch d], goal_cases)
    case (1 y)
    then have "y \<in> set as" "y \<noteq> last as" using butlast_distinct [of as y] d by auto
    then show ?case using h2(4) h1(4) d by (auto simp: lk)
  next
    case (2 n p)
    then have "links h2 (last as) = Some (nx, p)" using h2(5) l1(2) by simp
    then show ?case using la 2(1) d by (auto simp: lk nx_def)
  next
    case (3 b n p)
    have "b \<in> set bs" using 3(1) by (metis list.set_intros(1))
    then have "b \<noteq> x" "b \<notin> set as" using d by auto
    then show ?case using h1(6) [OF 3] h2(4) [OF off] by (simp add: lk pv_def)
  next
    case (4 y)
    have "y \<in> set bs" using 4 by (cases bs) auto
    then have "y \<noteq> x" "y \<notin> set as" using d by auto
    then show ?case using h1(5) [OF 4] h2(4) [OF off] by (simp add: lk)
  qed
  moreover have "links h4 y = links h y" if "y \<notin> set (as @ x # bs)" for y
    using that h2(4) [OF off] h1(4) by (simp add: lk)
  moreover have "same_rest h h4" using h1(3) h2(2) h3(4) h4(4) same_rest_trans by metis
  moreover have "links h4 x \<noteq> None" by (simp add: lk)
  ultimately show ?thesis using eq h4(3) h3(3) h2(3) h1(2) by auto
qed

text \<open>
  The two lists of a slab list \<open>l\<close>, whichever is named first, and moving a slab between them.
\<close>

definition other_head :: "slab_pp \<Rightarrow> slab_pp" where
  "other_head lst = (case lst of SPFree l \<Rightarrow> SPUsed l | SPUsed l \<Rightarrow> SPFree l | p \<Rightarrow> p)"

definition two_lists :: "slab_heap \<Rightarrow> nat \<Rightarrow> slab_pp \<Rightarrow> u64 list \<Rightarrow> u64 list \<Rightarrow> bool" where
  "two_lists h l lst xs ys \<longleftrightarrow> l < length (sh_lists h) \<and>
     pchain (links h) lst (head_get lst (sh_lists h ! l)) xs \<and>
     pchain (links h) (other_head lst) (head_get (other_head lst) (sh_lists h ! l)) ys \<and>
     distinct (xs @ ys)"

lemma other_head_simps [simp]:
  "other_head (SPFree l) = SPUsed l" "other_head (SPUsed l) = SPFree l"
  by (simp_all add: other_head_def)

lemma two_lists_swap: "is_head lst l \<Longrightarrow> two_lists h l lst xs ys \<Longrightarrow> two_lists h l (other_head lst) ys xs"
  by (auto simp: two_lists_def is_head_def)

definition heads_only :: "nat \<Rightarrow> slab_heap \<Rightarrow> slab_heap \<Rightarrow> bool" where
  "heads_only l h h' \<longleftrightarrow> (\<exists>f u. sh_lists h' = (sh_lists h)[l := (sh_lists h ! l)\<lparr>sl_free_slabs := f, sl_used_slabs := u\<rparr>])"

lemma head_set_shape:
  fixes sl :: slab_list_t
  assumes "is_head lst l"
  shows "\<exists>f u. head_set lst v sl = sl\<lparr>sl_free_slabs := f, sl_used_slabs := u\<rparr>"
proof (cases "lst = SPFree l")
  case True
  then show ?thesis by (intro exI [of _ v] exI [of _ "sl_used_slabs sl"]) (simp add: head_set_def)
next
  case False
  then have "lst = SPUsed l" using assms by (simp add: is_head_def)
  then show ?thesis by (intro exI [of _ "sl_free_slabs sl"] exI [of _ v]) (simp add: head_set_def)
qed

lemma heads_only_set:
  assumes "l < length (sh_lists h)" and "is_head lst l" and "is_head lst' l"
    and "sh_lists h1 = (sh_lists h)[l := head_set lst a (sh_lists h ! l)]"
    and "sh_lists h2 = (sh_lists h1)[l := head_set lst' b (sh_lists h1 ! l)]"
  shows "heads_only l h h2"
proof -
  obtain f u where 1: "head_set lst a (sh_lists h ! l) = (sh_lists h ! l)\<lparr>sl_free_slabs := f, sl_used_slabs := u\<rparr>"
    using head_set_shape [OF assms(2)] by blast
  obtain g v where "head_set lst' b (sh_lists h1 ! l) = (sh_lists h1 ! l)\<lparr>sl_free_slabs := g, sl_used_slabs := v\<rparr>"
    using head_set_shape [OF assms(3)] by blast
  then have "sh_lists h2 = (sh_lists h)[l := (sh_lists h ! l)\<lparr>sl_free_slabs := g, sl_used_slabs := v\<rparr>]"
    using assms(1,4,5) 1 by simp
  then show ?thesis unfolding heads_only_def by blast
qed

lemma other_head_facts:
  assumes "is_head lst l"
  shows "is_head (other_head lst) l" "other_head (other_head lst) = lst" "lst \<noteq> other_head lst"
    "head_get (other_head lst) (head_set lst v sl) = head_get (other_head lst) sl"
    "head_get lst (head_set (other_head lst) v sl) = head_get lst sl"
  using assms by (auto simp: is_head_def)

lemma slab_move_result:
  assumes hd: "is_head lst l" and tl: "two_lists h l lst (as @ x # bs) ys"
  shows "\<exists>h'. rbind (slab_list_remove x h) (slab_list_insert (other_head lst) x) = Inr h' \<and>
    two_lists h' l lst (as @ bs) (x # ys) \<and> same_rest h h' \<and> heads_only l h h'"
proof -
  let ?o = "other_head lst"
  note oh = other_head_facts [OF hd]
  have l: "l < length (sh_lists h)" and ch: "pchain (links h) lst (head_get lst (sh_lists h ! l)) (as @ x # bs)"
    and cy: "pchain (links h) ?o (head_get ?o (sh_lists h ! l)) ys" and d: "distinct ((as @ x # bs) @ ys)"
    using tl by (simp_all add: two_lists_def)
  have dx: "distinct (as @ x # bs)" using d by (simp only: distinct_append)
  from slab_list_remove_result [OF hd l ch dx] obtain h1 where h1: "slab_list_remove x h = Inr h1"
    "pchain (links h1) lst (case as @ bs of [] \<Rightarrow> 0 | y # _ \<Rightarrow> y) (as @ bs)"
    "\<And>y. y \<notin> set (as @ x # bs) \<Longrightarrow> links h1 y = links h y" "links h1 x \<noteq> None"
    "sh_lists h1 = (sh_lists h)[l := head_set lst (case as @ bs of [] \<Rightarrow> 0 | y # _ \<Rightarrow> y) (sh_lists h ! l)]"
    "same_rest h h1" by blast
  have l1: "l < length (sh_lists h1)" using l h1(5) by simp
  have g1: "head_get lst (sh_lists h1 ! l) = (case as @ bs of [] \<Rightarrow> 0 | y # _ \<Rightarrow> y)"
    "head_get ?o (sh_lists h1 ! l) = head_get ?o (sh_lists h ! l)"
    using h1(5) l oh(4) by simp_all
  have ys: "links h1 y = links h y" if "y \<in> set ys" for y
  proof (rule h1(3))
    show "y \<notin> set (as @ x # bs)" using d that unfolding distinct_append by blast
  qed
  have c1: "pchain (links h1) ?o (head_get ?o (sh_lists h1 ! l)) ys"
    using cy pchain_cong [of ys "links h1" "links h"] ys g1(2) by simp
  have x0: "x \<noteq> 0" using pchain_mem [OF ch, of x] by simp
  obtain q where q: "links h1 x = Some q" using h1(4) by auto
  from slab_list_insert_result [OF oh(1) l1 c1 _ x0 _ q] d obtain h2 where h2: "slab_list_insert ?o x h1 = Inr h2"
    "pchain (links h2) ?o x (x # ys)" "\<And>y. y \<noteq> x \<Longrightarrow> y \<notin> set ys \<Longrightarrow> links h2 y = links h1 y"
    "sh_lists h2 = (sh_lists h1)[l := head_set ?o x (sh_lists h1 ! l)]" "same_rest h1 h2" by auto
  have "links h2 y = links h1 y" if "y \<in> set (as @ bs)" for y
  proof (rule h2(3))
    show "y \<noteq> x" "y \<notin> set ys" using d that by auto
  qed
  then have "pchain (links h2) lst (head_get lst (sh_lists h2 ! l)) (as @ bs)"
    using h1(2) g1(1) pchain_cong [of "as @ bs" "links h2" "links h1"] h2(4) l1 oh(5) by simp
  moreover have "head_get ?o (sh_lists h2 ! l) = x" using h2(4) l1 by simp
  ultimately have "two_lists h2 l lst (as @ bs) (x # ys)"
    using h2(2,4) l1 d by (auto simp: two_lists_def)
  moreover have "heads_only l h h2" by (rule heads_only_set [OF l hd oh(1) h1(5) h2(4)])
  ultimately show ?thesis using h1(1) h2(1) same_rest_trans [OF h1(6) h2(5)] by auto
qed

subsection \<open>Allocation and release on a slab list\<close>

text \<open>
  A slab of the list is good when it satisfies its invariant, is aligned to the slab size and its
  chunks fit in that size. The representation of a list: the slabs with free chunks, the full
  ones, all good.
\<close>

definition slab_good :: "nat \<Rightarrow> u64 \<Rightarrow> slab_t \<Rightarrow> bool" where
  "slab_good k x s \<longleftrightarrow> slab_inv (x, s) \<and> k < 64 \<and> unat x mod 2 ^ k = 0 \<and>
     unat (sb_num_chunks s) * 2 ^ unat (sb_chunk_shift s) \<le> 2 ^ k"

definition list_shift :: "slab_heap \<Rightarrow> nat \<Rightarrow> nat" where
  "list_shift h l = unat (sl_size_shift (sh_lists h ! l))"

definition slabs_good :: "slab_heap \<Rightarrow> nat \<Rightarrow> bool \<Rightarrow> u64 list \<Rightarrow> bool" where
  "slabs_good h k full xs \<longleftrightarrow> (\<forall>x\<in>set xs. \<exists>s. payload h x = Some s \<and> slab_good k x s \<and> (free_chunks s = []) = full)"

definition slab_list_rep :: "slab_heap \<Rightarrow> nat \<Rightarrow> u64 list \<Rightarrow> u64 list \<Rightarrow> bool" where
  "slab_list_rep h l fs us \<longleftrightarrow> two_lists h l (SPFree l) fs us \<and> sl_lock (sh_lists h ! l) = 0 \<and>
     slabs_good h (list_shift h l) False fs \<and> slabs_good h (list_shift h l) True us"

lemma strip_links_simps [simp]:
  "slab_inv (b, strip_links s) = slab_inv (b, s)" "free_chunks (strip_links s) = free_chunks s"
  "chunk_addr b (strip_links s) = chunk_addr b s" "chunk_ok (strip_links s) = chunk_ok s"
  "slab_good k b (strip_links s) = slab_good k b s" "slab_is_reserved (strip_links s) = slab_is_reserved s"
proof -
  have 1: "chunk_nx (strip_links s) = chunk_nx s" by (simp add: fun_eq_iff chunk_nx_def strip_links_def)
  show fc: "free_chunks (strip_links s) = free_chunks s" unfolding free_chunks_def 1 by (simp add: strip_links_def)
  show co: "chunk_ok (strip_links s) = chunk_ok s" by (simp add: fun_eq_iff chunk_ok_def strip_links_def)
  show "chunk_addr b (strip_links s) = chunk_addr b s" by (simp add: fun_eq_iff chunk_addr_def strip_links_def)
  have "slab_geom b (strip_links s) = slab_geom b s" by (simp add: slab_geom_def strip_links_def)
  then show inv: "slab_inv (b, strip_links s) = slab_inv (b, s)"
    unfolding slab_inv_def by (simp add: fc co 1) (simp add: strip_links_def)
  show "slab_good k b (strip_links s) = slab_good k b s" unfolding slab_good_def inv by (simp add: strip_links_def)
  show "slab_is_reserved (strip_links s) = slab_is_reserved s" by (simp add: slab_is_reserved_def strip_links_def)
qed

lemma payload_SomeD: "payload h x = Some s \<Longrightarrow> \<exists>sb. sh_slabs h x = Some sb \<and> s = strip_links sb"
  by (auto simp: payload_def)

lemma slab_is_full_iff: "slab_inv (b, s) \<Longrightarrow> slab_is_full s \<longleftrightarrow> free_chunks s = []"
  by (auto simp: slab_inv_def slab_is_full_def simp flip: unat_eq_0)

text \<open>Locking, and changing the contents of one slab, leave the lists alone.\<close>

definition with_lock :: "nat \<Rightarrow> u32 \<Rightarrow> slab_heap \<Rightarrow> slab_heap" where
  "with_lock l k h = h\<lparr>sh_lists := (sh_lists h)[l := (sh_lists h ! l)\<lparr>sl_lock := k\<rparr>]\<rparr>"

lemma with_lock_simps [simp]:
  "links (with_lock l k h) = links h" "payload (with_lock l k h) = payload h" "sh_slabs (with_lock l k h) = sh_slabs h"
  "length (sh_lists (with_lock l k h)) = length (sh_lists h)" "sh_kernel (with_lock l k h) = sh_kernel h"
  by (simp_all add: with_lock_def links_def payload_def fun_eq_iff)

lemma with_lock_at [simp]: "l < length (sh_lists h) \<Longrightarrow> sh_lists (with_lock l k h) ! l = (sh_lists h ! l)\<lparr>sl_lock := k\<rparr>"
  by (simp add: with_lock_def)

lemma two_lists_cong:
  assumes "links h' = links h" and "length (sh_lists h') = length (sh_lists h)"
    and "sl_free_slabs (sh_lists h' ! l) = sl_free_slabs (sh_lists h ! l)"
    and "sl_used_slabs (sh_lists h' ! l) = sl_used_slabs (sh_lists h ! l)"
  shows "two_lists h' l lst xs ys = two_lists h l lst xs ys"
proof -
  have "head_get p (sh_lists h' ! l) = head_get p (sh_lists h ! l)" for p
    using assms(3,4) by (simp add: head_get_def split: slab_pp.splits)
  then show ?thesis using assms(1,2) by (simp add: two_lists_def)
qed

lemma lock_result: "l < length (sh_lists h) \<Longrightarrow> sl_lock (sh_lists h ! l) = 0 \<Longrightarrow> slab_list_lock l h = Inr (with_lock l 1 h)"
  by (simp add: slab_list_lock_def with_lock_def)

lemma unlock_result:
  "l < length (sh_lists h) \<Longrightarrow> sl_lock (sh_lists h ! l) = 1 \<Longrightarrow> slab_list_unlock l h = Inr (with_lock l 0 h)"
  by (simp add: slab_list_unlock_def upd_list_def with_lock_def)

lemma put_slab_links: "sh_slabs h x = Some s \<Longrightarrow> sb_next s' = sb_next s \<Longrightarrow> sb_prev s' = sb_prev s \<Longrightarrow>
    links (put_slab x s' h) = links h"
  by (auto simp: links_def fun_eq_iff)

text \<open>
  The last steps of both operations: given the two lists and good contents under the lock, the
  unlocked state represents the lists.
\<close>

lemma rep_after_unlock:
  assumes "two_lists h l (SPFree l) fs us" and "slabs_good h k False fs" and "slabs_good h k True us"
    and "k = list_shift h l"
  shows "slab_list_rep (with_lock l 0 h) l fs us"
proof -
  have l: "l < length (sh_lists h)" using assms(1) by (simp add: two_lists_def)
  then have "two_lists (with_lock l 0 h) l (SPFree l) fs us = two_lists h l (SPFree l) fs us"
    by (intro two_lists_cong) simp_all
  then show ?thesis using assms l by (simp add: slab_list_rep_def slabs_good_def list_shift_def)
qed

lemma heads_only_lock:
  assumes "heads_only l h h'" and "l < length (sh_lists h)"
  shows "sl_lock (sh_lists h' ! l) = sl_lock (sh_lists h ! l)" "list_shift h' l = list_shift h l"
    "length (sh_lists h') = length (sh_lists h)"
  using assms by (auto simp: heads_only_def list_shift_def)

lemma slabs_good_upd:
  assumes "slabs_good h k b xs" and "\<And>y. y \<in> set xs \<Longrightarrow> payload h' y = payload h y"
  shows "slabs_good h' k b xs"
  using assms by (simp add: slabs_good_def)

lemma slab_list_alloc_fast:
  assumes l: "l < length (sh_lists h)" "sl_lock (sh_lists h ! l) = 0" "sl_free_slabs (sh_lists h ! l) = x" "x \<noteq> 0"
    and sb: "sh_slabs h x = Some sb" "slab_alloc x sb = Inr (a, sb')"
  defines "h1 \<equiv> put_slab x sb' (with_lock l 1 h)"
  shows "slab_list_alloc l h =
    rbind (if slab_is_full sb' then rbind (slab_list_remove x h1) (slab_list_insert (SPUsed l) x) else Inr h1) (\<lambda>h.
    rbind (slab_list_unlock l h) (\<lambda>h. Inr (a, h)))"
proof -
  have s: "sl_free_slabs (sh_lists (with_lock l 1 h) ! l) = x" using l by simp
  have g: "arr_get (sh_lists (with_lock l 1 h)) l = Inr (sh_lists (with_lock l 1 h) ! l)"
    "get_slab (with_lock l 1 h) x = Inr sb" using l sb by (simp_all add: get_slab_def)
  show ?thesis
    unfolding slab_list_alloc.simps [of l h] lock_result [OF l(1,2)] rbind_simps g Let_def s sb(2) prod.case
      if_P [OF l(4)] h1_def ..
qed

lemma slab_list_alloc_result:
  assumes rep: "slab_list_rep h l (x # fs) us"
  obtains s h' where "payload h x = Some s" "slab_list_alloc l h = Inr (chunk_addr x s (hd (free_chunks s)), h')"
    "slab_list_rep h' l (if tl (free_chunks s) = [] then fs else x # fs) (if tl (free_chunks s) = [] then x # us else us)"
    "payload h' = (payload h)(x \<mapsto> s\<lparr>sb_free_list := chunk_nx s (hd (free_chunks s)), sb_num_free := sb_num_free s - 1\<rparr>)"
proof -
  let ?k = "list_shift h l"
  have tl: "two_lists h l (SPFree l) (x # fs) us" and lk: "sl_lock (sh_lists h ! l) = 0"
    and gf: "slabs_good h ?k False (x # fs)" and gu: "slabs_good h ?k True us"
    using rep by (simp_all add: slab_list_rep_def)
  have l: "l < length (sh_lists h)" and d: "distinct ((x # fs) @ us)" using tl by (simp_all add: two_lists_def)
  have x: "sl_free_slabs (sh_lists h ! l) = x" "x \<noteq> 0" using tl by (auto simp: two_lists_def head_get_def)
  obtain s where s: "payload h x = Some s" "slab_good ?k x s" "free_chunks s \<noteq> []" using gf by (auto simp: slabs_good_def)
  obtain i "is" where fc: "free_chunks s = i # is" using s(3) by (cases "free_chunks s") auto
  obtain sb where sb: "sh_slabs h x = Some sb" "s = strip_links sb" using payload_SomeD [OF s(1)] by blast
  have inv: "slab_inv (x, sb)" "free_chunks sb = i # is" using s(2) fc sb(2) by (simp_all add: slab_good_def)
  from slab_alloc_cons [OF inv] obtain sb' where sb': "slab_alloc x sb = Inr (chunk_addr x sb i, sb')"
    "slab_inv (x, sb')" "free_chunks sb' = is" "sb' = sb\<lparr>sb_free_list := chunk_nx sb i, sb_num_free := sb_num_free sb - 1\<rparr>"
    by blast
  define h1 where "h1 = put_slab x sb' (with_lock l 1 h)"
  have nx: "chunk_nx s = chunk_nx sb" by (simp add: sb(2) fun_eq_iff chunk_nx_def strip_links_def)
  have st: "strip_links sb' = s\<lparr>sb_free_list := chunk_nx s i, sb_num_free := sb_num_free s - 1\<rparr>"
    unfolding nx by (simp add: sb(2) sb'(4) strip_links_def)
  have lk1: "links h1 = links h" unfolding h1_def
    using put_slab_links [of "with_lock l 1 h" x sb sb'] sb(1) sb'(4) by simp
  have p1: "payload h1 = (payload h)(x \<mapsto> strip_links sb')" by (simp add: h1_def)
  have l1: "sl_lock (sh_lists h1 ! l) = 1" "list_shift h1 l = ?k" "length (sh_lists h1) = length (sh_lists h)"
    using l by (simp_all add: h1_def list_shift_def)
  have "two_lists h1 l (SPFree l) (x # fs) us = two_lists h l (SPFree l) (x # fs) us"
    by (rule two_lists_cong [OF lk1 l1(3)]) (use l in \<open>simp_all add: h1_def\<close>)
  then have tl1: "two_lists h1 l (SPFree l) (x # fs) us" using tl by simp
  have "sb_num_chunks sb' = sb_num_chunks sb" "sb_chunk_shift sb' = sb_chunk_shift sb" by (simp_all add: sb'(4))
  moreover have "slab_good ?k x sb" using s(2) sb(2) by simp
  ultimately have sg: "slab_good ?k x (strip_links sb')"
    using sb'(2) unfolding strip_links_simps by (simp add: slab_good_def)
  have oth: "payload h1 y = payload h y" if "y \<in> set fs \<or> y \<in> set us" for y using d that p1 by auto
  have gf1: "slabs_good h1 ?k False fs" using slabs_good_upd [of h ?k False fs h1] gf oth by (simp add: slabs_good_def)
  have gu1: "slabs_good h1 ?k True us" using slabs_good_upd [of h ?k True us h1] gu oth by blast
  have hd: "is_head (SPFree l) l" by (simp add: is_head_def)
  have addr: "chunk_addr x sb i = chunk_addr x s (hd (free_chunks s))" using fc sb(2) by simp
  have start: "slab_list_alloc l h = rbind (if slab_is_full sb' then rbind (slab_list_remove x h1) (slab_list_insert (SPUsed l) x)
      else Inr h1) (\<lambda>h. rbind (slab_list_unlock l h) (\<lambda>h. Inr (chunk_addr x sb i, h)))"
    unfolding h1_def by (rule slab_list_alloc_fast [OF l lk x sb(1) sb'(1)])
  show ?thesis
  proof (cases "is = []")
    case True
    then have full: "slab_is_full sb'" using slab_is_full_iff [OF sb'(2)] sb'(3) by simp
    from slab_move_result [OF hd, of h1 "[]" x fs us] tl1 obtain h2 where
      h2: "rbind (slab_list_remove x h1) (slab_list_insert (SPUsed l) x) = Inr h2"
      "two_lists h2 l (SPFree l) fs (x # us)" "same_rest h1 h2" "heads_only l h1 h2"
      unfolding append_Nil other_head_simps by blast
    have p2: "payload h2 = payload h1" using h2(3) by (simp add: same_rest_def)
    have lh1: "l < length (sh_lists h1)" using l l1(3) by simp
    note ho = heads_only_lock [OF h2(4) lh1]
    have "payload h2 x = Some (strip_links sb')" "free_chunks (strip_links sb') = []"
      using p1 p2 True sb'(3) by simp_all
    then have "slabs_good h2 ?k True (x # us)" "slabs_good h2 ?k False fs"
      using gu1 gf1 sg p2 by (simp_all add: slabs_good_def)
    then have "slab_list_rep (with_lock l 0 h2) l fs (x # us)"
      using rep_after_unlock [OF h2(2)] ho(2) l1(2) by simp
    moreover have "slab_list_alloc l h = Inr (chunk_addr x sb i, with_lock l 0 h2)"
      using start full h2(1) unlock_result [of l h2] ho l1 l by simp
    ultimately show ?thesis
    proof (intro that [OF s(1), of "with_lock l 0 h2"], goal_cases)
      case 1
      then show ?case by (simp only: addr)
    next
      case 2
      then show ?case using True by (simp add: fc)
    next
      case 3
      show ?case using p1 p2 st by (simp add: fc)
    qed
  next
    case False
    then have "\<not> slab_is_full sb'" using slab_is_full_iff [OF sb'(2)] sb'(3) by simp
    then have "slab_list_alloc l h = Inr (chunk_addr x sb i, with_lock l 0 h1)"
      using start unlock_result [of l h1] l1 l by simp
    moreover have "payload h1 x = Some (strip_links sb')" "free_chunks (strip_links sb') \<noteq> []"
      using p1 False sb'(3) by simp_all
    then have "slabs_good h1 ?k False (x # fs)" using gf1 sg by (simp add: slabs_good_def)
    then have "slab_list_rep (with_lock l 0 h1) l (x # fs) us"
      by (rule rep_after_unlock [OF tl1 _ gu1 l1(2) [symmetric]])
    ultimately show ?thesis
    proof (intro that [OF s(1), of "with_lock l 0 h1"], goal_cases)
      case 1
      then show ?case by (simp only: addr)
    next
      case 2
      then show ?case using False by (simp add: fc)
    next
      case 3
      show ?case using p1 st by (simp add: fc)
    qed
  qed
qed

lemma slab_of_chunk:
  assumes g: "slab_good k x s" and i: "chunk_ok s i"
  shows "chunk_addr x s i AND NOT (push_bit k 1 - 1) = x"
proof -
  have geom: "slab_geom x s" and k: "k < 64" and al: "unat x mod 2 ^ k = 0"
    and fit: "unat (sb_num_chunks s) * 2 ^ unat (sb_chunk_shift s) \<le> 2 ^ k"
    using g by (simp_all add: slab_good_def slab_inv_def)
  have m: "push_bit k 1 - 1 = (mask k :: u64)" by (simp add: mask_eq_exp_minus_1)
  have "unat i * 2 ^ unat (sb_chunk_shift s) < unat (sb_num_chunks s) * 2 ^ unat (sb_chunk_shift s)"
    using i by (simp add: chunk_ok_def unat_less_iff)
  then have o: "unat i * 2 ^ unat (sb_chunk_shift s) < 2 ^ k" using fit by linarith
  have "unat (chunk_addr x s i AND NOT (mask k)) = unat (chunk_addr x s i) div 2 ^ k * 2 ^ k" by (rule unat_and_not_mask)
  also have "unat (chunk_addr x s i) div 2 ^ k = unat x div 2 ^ k"
    unfolding chunk_offset(2) [OF geom i] by (rule div_add_within) (use al o in simp)
  also have "unat x div 2 ^ k * 2 ^ k = unat x" using al div_mult_mod_eq [of "unat x" "2 ^ k"] by (simp only: add_0_right)
  finally show ?thesis unfolding m by (simp only: unat_eq_iff)
qed

lemma slab_is_empty_iff:
  assumes "sb_num_reserved s \<le> sb_num_chunks s"
  shows "slab_is_empty s \<longleftrightarrow> unat (sb_num_free s) = unat (sb_num_chunks s) - unat (sb_num_reserved s)"
proof -
  have "unat (sb_num_reserved s) \<le> unat (sb_num_chunks s)" using assms by (simp only: unat_le_iff)
  then show ?thesis unfolding slab_is_empty_def by (simp only: of_nat_diff [symmetric] of_nat_eq_iff)
qed

text \<open>A release that keeps its slab: the slab was full, stays partly used, or is reserved.\<close>

lemma slab_list_free_fast:
  assumes l: "l < length (sh_lists h)" "sl_lock (sh_lists h ! l) = 0"
    and x: "a AND NOT (push_bit (list_shift h l) 1 - 1) = x"
    and sb: "sh_slabs h x = Some sb" "slab_free x sb a = Inr sb'"
    and keep: "slab_is_full sb \<or> \<not> slab_is_empty sb' \<or> slab_is_reserved sb'"
  defines "h1 \<equiv> put_slab x sb' (with_lock l 1 h)"
  shows "slab_list_free l a h =
    rbind (if slab_is_full sb then rbind (slab_list_remove x h1) (slab_list_insert (SPFree l) x) else Inr h1)
      (slab_list_unlock l)"
proof -
  have g: "arr_get (sh_lists h) l = Inr (sh_lists h ! l)" "get_slab (with_lock l 1 h) x = Inr sb"
    using l sb by (simp_all add: get_slab_def)
  have e: "(slab_is_empty sb' \<and> \<not> slab_is_reserved sb') = False" if "\<not> slab_is_full sb" using keep that by blast
  have x': "a AND NOT (push_bit (unat (sl_size_shift (sh_lists h ! l))) 1 - 1) = x" using x by (simp only: list_shift_def)
  show ?thesis
  proof (cases "slab_is_full sb")
    case True
    then show ?thesis
      unfolding slab_list_free.simps [of l a h] g rbind_simps Let_def x' lock_result [OF l] sb(2) h1_def by simp
  next
    case False
    then show ?thesis
      unfolding slab_list_free.simps [of l a h] g rbind_simps Let_def x' lock_result [OF l] sb(2) h1_def e [OF False]
      by simp
  qed
qed

lemma slab_list_free_result:
  assumes rep: "slab_list_rep h l fs us" and x: "x \<in> set fs \<or> x \<in> set us"
    and s: "payload h x = Some s" and i: "chunk_ok s i" "i \<notin> set (free_chunks s)"
    and keep: "slab_is_reserved s \<or> free_chunks s = [] \<or>
      Suc (length (free_chunks s)) \<noteq> unat (sb_num_chunks s) - unat (sb_num_reserved s)"
  shows "\<exists>h' fs' us'. slab_list_free l (chunk_addr x s i) h = Inr h' \<and> slab_list_rep h' l fs' us' \<and>
    set fs' = insert x (set fs) \<and> set us' = set us - {x} \<and>
    payload h' = (payload h)(x \<mapsto> s\<lparr>sb_chunk_list := (sb_chunk_list s)[unat i := sb_free_list s],
       sb_free_list := i, sb_num_free := sb_num_free s + 1\<rparr>)"
proof -
  let ?k = "list_shift h l"
  have tl: "two_lists h l (SPFree l) fs us" and lk: "sl_lock (sh_lists h ! l) = 0"
    and gf: "slabs_good h ?k False fs" and gu: "slabs_good h ?k True us"
    using rep by (simp_all add: slab_list_rep_def)
  have l: "l < length (sh_lists h)" and d: "distinct (fs @ us)" using tl by (simp_all add: two_lists_def)
  have sg: "slab_good ?k x s" and full_us: "free_chunks s = [] \<longleftrightarrow> x \<in> set us"
    using x s gf gu d by (auto simp: slabs_good_def)
  obtain sb where sb: "sh_slabs h x = Some sb" "s = strip_links sb" using payload_SomeD [OF s] by blast
  have inv: "slab_inv (x, sb)" using sg sb(2) by (simp add: slab_good_def)
  have ib: "chunk_ok sb i" "i \<notin> set (free_chunks sb)" using i sb(2) by simp_all
  from slab_free_result [OF inv ib] obtain sb' where sb': "slab_free x sb (chunk_addr x sb i) = Inr sb'"
    "slab_inv (x, sb')" "free_chunks sb' = i # free_chunks sb"
    "sb' = sb\<lparr>sb_chunk_list := (sb_chunk_list sb)[unat i := sb_free_list sb], sb_free_list := i,
           sb_num_free := sb_num_free sb + 1\<rparr>" by blast
  have sl': "strip_links sb' = s\<lparr>sb_chunk_list := (sb_chunk_list s)[unat i := sb_free_list s],
       sb_free_list := i, sb_num_free := sb_num_free s + 1\<rparr>" by (simp add: sb(2) sb'(4) strip_links_def)
  have addr: "chunk_addr x sb i = chunk_addr x s i" using sb(2) by simp
  have same: "sb_num_chunks sb' = sb_num_chunks sb" "sb_chunk_shift sb' = sb_chunk_shift sb"
    "sb_num_reserved sb' = sb_num_reserved sb" "sb_flags sb' = sb_flags sb"
    "sb_num_chunks s = sb_num_chunks sb" "sb_num_reserved s = sb_num_reserved sb" "sb_flags s = sb_flags sb"
    by (simp_all add: sb'(4) sb(2) strip_links_def)
  have sgb: "slab_good ?k x sb" using sg sb(2) by simp
  then have sg': "slab_good ?k x (strip_links sb')" unfolding strip_links_simps
    using sb'(2) same by (simp add: slab_good_def)
  have "slab_is_full sb \<or> \<not> slab_is_empty sb' \<or> slab_is_reserved sb'"
  proof -
    have "unat (sb_num_free sb') = Suc (length (free_chunks s))"
      using sb'(2,3) sb(2) by (simp add: slab_inv_def)
    moreover have "sb_num_reserved s \<le> sb_num_chunks s" using i(1) by (auto simp: chunk_ok_def unat_le_iff unat_less_iff)
    ultimately show ?thesis
      using keep slab_is_full_iff [OF inv] sb(2) same slab_is_empty_iff [of sb']
      by (auto simp: slab_is_reserved_def)
  qed
  from slab_list_free_fast [OF l lk slab_of_chunk [OF sgb ib(1)] sb(1) sb'(1) this]
  have start: "slab_list_free l (chunk_addr x sb i) h =
    rbind (if slab_is_full sb then rbind (slab_list_remove x (put_slab x sb' (with_lock l 1 h))) (slab_list_insert (SPFree l) x)
      else Inr (put_slab x sb' (with_lock l 1 h))) (slab_list_unlock l)" .
  define h1 where "h1 = put_slab x sb' (with_lock l 1 h)"
  have lk1: "links h1 = links h" unfolding h1_def
    by (rule trans [OF put_slab_links [of "with_lock l 1 h" x sb sb']]) (simp_all add: sb(1) sb'(4))
  have p1: "payload h1 = (payload h)(x \<mapsto> strip_links sb')" by (simp add: h1_def)
  have l1: "sl_lock (sh_lists h1 ! l) = 1" "list_shift h1 l = ?k" "length (sh_lists h1) = length (sh_lists h)"
    using l by (simp_all add: h1_def list_shift_def)
  have "two_lists h1 l (SPFree l) fs us = two_lists h l (SPFree l) fs us"
    by (rule two_lists_cong [OF lk1 l1(3)]) (use l in \<open>simp_all add: h1_def\<close>)
  then have tl1: "two_lists h1 l (SPFree l) fs us" using tl by simp
  have fc': "free_chunks (strip_links sb') \<noteq> []" using sb'(3) by simp
  have g1: "slabs_good h1 ?k b xs" if "slabs_good h ?k b ys" "set xs \<subseteq> insert x (set ys)" "x \<in> set xs \<longrightarrow> \<not> b" for b xs ys
    using that p1 sg' fc' by (auto simp: slabs_good_def)
  show ?thesis
  proof (cases "x \<in> set us")
    case True
    then have full: "slab_is_full sb" using full_us slab_is_full_iff [OF inv] sb(2) by simp
    from True obtain as bs where us: "us = as @ x # bs" by (auto simp: in_set_conv_decomp)
    have hd: "is_head (SPFree l) l" "is_head (SPUsed l) l" by (simp_all add: is_head_def)
    have "two_lists h1 l (SPUsed l) (as @ x # bs) fs" using two_lists_swap [OF hd(1) tl1] us by simp
    from slab_move_result [OF hd(2) this] obtain h2 where
      h2: "rbind (slab_list_remove x h1) (slab_list_insert (SPFree l) x) = Inr h2"
      "two_lists h2 l (SPUsed l) (as @ bs) (x # fs)" "same_rest h1 h2" "heads_only l h1 h2"
      unfolding other_head_simps by blast
    have lh1: "l < length (sh_lists h1)" using l l1(3) by simp
    note ho = heads_only_lock [OF h2(4) lh1]
    have p2: "payload h2 = payload h1" using h2(3) by (simp add: same_rest_def)
    have t2: "two_lists h2 l (SPFree l) (x # fs) (as @ bs)" using two_lists_swap [OF hd(2) h2(2)] by simp
    have "slabs_good h1 ?k False (x # fs)" by (rule g1 [OF gf]) auto
    moreover have "slabs_good h1 ?k True (as @ bs)" by (rule g1 [OF gu]) (use d us in auto)
    ultimately have "slabs_good h2 ?k False (x # fs)" "slabs_good h2 ?k True (as @ bs)"
      using p2 by (simp_all add: slabs_good_def)
    moreover have "?k = list_shift h2 l" using ho(2) l1(2) by simp
    ultimately have "slab_list_rep (with_lock l 0 h2) l (x # fs) (as @ bs)" by (rule rep_after_unlock [OF t2])
    moreover have "slab_list_unlock l h2 = Inr (with_lock l 0 h2)"
      by (rule unlock_result) (use ho l1 l in simp_all)
    then have "slab_list_free l (chunk_addr x s i) h = Inr (with_lock l 0 h2)"
      using start full h2(1) by (simp add: h1_def [symmetric] addr)
    moreover have "set (as @ bs) = set us - {x}" using d us by auto
    ultimately show ?thesis using p1 p2 sl'
      by (intro exI [of _ "with_lock l 0 h2"] exI [of _ "x # fs"] exI [of _ "as @ bs"]) simp
  next
    case False
    then have nf: "\<not> slab_is_full sb" using full_us slab_is_full_iff [OF inv] sb(2) by simp
    have "slabs_good h1 ?k False fs" "slabs_good h1 ?k True us"
      by (rule g1 [OF gf] g1 [OF gu]; use False in auto)+
    then have "slab_list_rep (with_lock l 0 h1) l fs us"
      by (rule rep_after_unlock [OF tl1 _ _ l1(2) [symmetric]])
    moreover have "slab_list_unlock l h1 = Inr (with_lock l 0 h1)" by (rule unlock_result) (use l1 l in simp_all)
    then have "slab_list_free l (chunk_addr x s i) h = Inr (with_lock l 0 h1)"
      using start nf by (simp add: h1_def [symmetric] addr)
    ultimately show ?thesis using p1 sl' x False
      by (intro exI [of _ "with_lock l 0 h1"] exI [of _ fs] exI [of _ us]) auto
  qed
qed

subsection \<open>The abstract view of a slab list\<close>

text \<open>The chunks a client can still get from a set of slabs.\<close>

definition list_avail :: "slab_heap \<Rightarrow> u64 set \<Rightarrow> u64 set" where
  "list_avail h S = (\<Union>x\<in>S. case payload h x of None \<Rightarrow> {} | Some s \<Rightarrow> chunk_addr x s ` set (free_chunks s))"

lemma list_avail_upd:
  assumes "x \<in> S" and "payload h' = (payload h)(x \<mapsto> s')"
  shows "list_avail h' S = list_avail h (S - {x}) \<union> chunk_addr x s' ` set (free_chunks s')"
  using assms by (auto simp: list_avail_def split: if_splits)

lemma list_avail_split:
  assumes "x \<in> S" and "payload h x = Some s"
  shows "list_avail h S = list_avail h (S - {x}) \<union> chunk_addr x s ` set (free_chunks s)"
  using assms by (auto simp: list_avail_def)

lemma rep_good:
  assumes "slab_list_rep h l fs us" and "x \<in> set fs \<union> set us"
  shows "\<exists>s. payload h x = Some s \<and> slab_good (list_shift h l) x s"
  using assms by (auto simp: slab_list_rep_def slabs_good_def)

text \<open>Chunks of different slabs are different, because their slabs are aligned.\<close>

lemma other_slab_chunk:
  assumes rep: "slab_list_rep h l fs us" and s: "payload h x = Some s" "x \<in> set fs \<union> set us" and i: "chunk_ok s i"
  shows "chunk_addr x s i \<notin> list_avail h (set fs \<union> set us - {x})"
proof
  assume "chunk_addr x s i \<in> list_avail h (set fs \<union> set us - {x})"
  then obtain y where y0: "y \<in> set fs \<union> set us" "y \<noteq> x"
    "chunk_addr x s i \<in> (case payload h y of None \<Rightarrow> {} | Some s \<Rightarrow> chunk_addr y s ` set (free_chunks s))"
    unfolding list_avail_def by blast
  then obtain t j where y: "y \<in> set fs \<union> set us" "y \<noteq> x" "payload h y = Some t" "j \<in> set (free_chunks t)"
    "chunk_addr x s i = chunk_addr y t j" by (cases "payload h y") auto
  have gx: "slab_good (list_shift h l) x s" and gy: "slab_good (list_shift h l) y t"
    using rep_good [OF rep] s y(1,3) by (metis option.inject)+
  have "chunk_ok t j" using gy y(4) by (auto simp: slab_good_def slab_inv_def list_all_iff)
  from slab_of_chunk [OF gx i] slab_of_chunk [OF gy this] y(2,5) show False by simp
qed

lemma chunk_addr_fields [simp]:
  "chunk_addr b (s\<lparr>sb_free_list := f, sb_num_free := n\<rparr>) = chunk_addr b s"
  "chunk_addr b (s\<lparr>sb_chunk_list := c\<rparr>) = chunk_addr b s"
  by (simp_all add: fun_eq_iff chunk_addr_def)

text \<open>The first slab of an empty list, as \<^verbatim>\<open>slab_list_reserve_on_slack\<close> and \<^verbatim>\<open>slab_list_alloc\<close> insert it.\<close>

lemma set_of_nat_upt:
  assumes "m \<le> 2 ^ 16"
  shows "set (map of_nat [n..<m]) = {i :: u16. n \<le> unat i \<and> unat i < m}"
proof -
  have "i \<in> of_nat ` {n..<m}" if "n \<le> unat i" "unat i < m" for i :: u16
    using that by (intro image_eqI [of _ _ "unat i"]) simp_all
  moreover have "unat (of_nat j :: u16) = j" if "j < m" for j by (rule unat_of_nat_lt) (use that assms in simp)
  ultimately show ?thesis by auto
qed

lemma head_set_free:
  fixes sl :: slab_list_t
  assumes "sl_used_slabs sl = 0"
  shows "sl\<lparr>sl_free_slabs := x, sl_used_slabs := 0\<rparr> = sl\<lparr>sl_free_slabs := x\<rparr>"
  using assms by (cases sl) simp

lemma slab_list_first:
  assumes l: "l < length (sh_lists h)" "sl_free_slabs (sh_lists h ! l) = 0" "sl_used_slabs (sh_lists h ! l) = 0"
    "sl_lock (sh_lists h ! l) = 0"
    and x: "x \<noteq> 0" "slab_good (list_shift h l) x s" "free_chunks s \<noteq> []"
  shows "\<exists>h'. slab_list_insert (SPFree l) x (put_slab x s h) = Inr h' \<and> slab_list_rep h' l [x] [] \<and>
    payload h' x = Some (strip_links s) \<and> heads_only l h h' \<and> sh_kernel h' = sh_kernel h"
proof -
  let ?h = "put_slab x s h"
  have hd: "is_head (SPFree l) l" "l < length (sh_lists ?h)" using l by (simp_all add: is_head_def)
  have ch: "pchain (links ?h) (SPFree l) (head_get (SPFree l) (sh_lists ?h ! l)) []" using l by (simp add: head_get_def)
  have q: "links ?h x = Some (sb_next s, sb_prev s)" by simp
  from slab_list_insert_result [OF hd ch _ x(1) _ q] obtain h' where h': "slab_list_insert (SPFree l) x ?h = Inr h'"
    "pchain (links h') (SPFree l) x [x]" "sh_lists h' = (sh_lists ?h)[l := head_set (SPFree l) x (sh_lists ?h ! l)]"
    "same_rest ?h h'" by auto
  have lst: "sh_lists h' ! l = (sh_lists h ! l)\<lparr>sl_free_slabs := x\<rparr>" using h'(3) l by (simp add: head_set_def)
  have p: "payload h' x = Some (strip_links s)" using h'(4) by (simp add: same_rest_def)
  have "two_lists h' l (SPFree l) [x] []"
    using h'(2) lst l h'(3) by (simp add: two_lists_def head_get_def)
  moreover have "slabs_good h' (list_shift h' l) False [x]"
    using x p lst by (simp add: slabs_good_def list_shift_def)
  ultimately have "slab_list_rep h' l [x] []" using lst l by (simp add: slab_list_rep_def slabs_good_def)
  moreover have "sl_used_slabs (sh_lists h ! l) = 0" by (rule l)
  then have "sh_lists h' = (sh_lists h)[l := (sh_lists h ! l)\<lparr>sl_free_slabs := x, sl_used_slabs := 0\<rparr>]"
    using h'(3) by (simp add: head_set_def head_set_free)
  then have "heads_only l h h'" unfolding heads_only_def by blast
  ultimately show ?thesis using h'(1,4) p by (simp add: same_rest_def)
qed

definition example_heap :: slab_heap where
  "example_heap = \<lparr>sh_slabs = (\<lambda>_. None),
     sh_lists = [\<lparr>sl_owner = None, sl_free_slabs = 0, sl_used_slabs = 0, sl_size_shift = 14, sl_chunk_shift = 6,
                  sl_flags = 0, sl_lock = 0\<rparr>],
     sh_kernel = boot_kstate 0xFFFFFFFF80123456\<rparr>"

lemma slab_flags_upd:
  "free_chunks (s\<lparr>sb_flags := f\<rparr>) = free_chunks s" "slab_inv (x, s\<lparr>sb_flags := f\<rparr>) = slab_inv (x, s)"
  "slab_good k x (s\<lparr>sb_flags := f\<rparr>) = slab_good k x s" "chunk_ok (s\<lparr>sb_flags := f\<rparr>) i = chunk_ok s i"
proof -
  have nx: "chunk_nx (s\<lparr>sb_flags := f\<rparr>) = chunk_nx s" by (simp add: fun_eq_iff chunk_nx_def)
  show fc: "free_chunks (s\<lparr>sb_flags := f\<rparr>) = free_chunks s" by (simp add: free_chunks_def nx)
  have ok: "chunk_ok (s\<lparr>sb_flags := f\<rparr>) = chunk_ok s" by (simp add: fun_eq_iff chunk_ok_def)
  then show "chunk_ok (s\<lparr>sb_flags := f\<rparr>) i = chunk_ok s i" by simp
  show inv: "slab_inv (x, s\<lparr>sb_flags := f\<rparr>) = slab_inv (x, s)" by (simp add: slab_inv_def slab_geom_def nx fc ok)
  show "slab_good k x (s\<lparr>sb_flags := f\<rparr>) = slab_good k x s" by (simp add: slab_good_def inv)
qed

lemma example_slab_list:
  obtains h s where "slab_list_rep h 0 [0xFFFFFFFF80400000] []" "payload h 0xFFFFFFFF80400000 = Some s"
    "chunk_ok s 9" "free_chunks s = map of_nat [9..<256]" "slab_is_reserved s"
proof -
  let ?x = "0xFFFFFFFF80400000 :: u64"
  have "reserved_chunks (2 ^ (14 - 6)) 6 = 9" by (simp add: reserved_chunks_def)
  with slab_init_result [of 6 14 ?x] obtain s where s: "slab_inv (?x, s)" "free_chunks s = map of_nat [9..<256]"
    "unat (sb_num_chunks s) = 256" "unat (sb_num_reserved s) = 9" "unat (sb_chunk_shift s) = 6" by auto
  let ?s = "s\<lparr>sb_flags := SLAB_RESERVED\<rparr>"
  have g: "slab_good (list_shift example_heap 0) ?x ?s"
    using s by (simp add: slab_flags_upd slab_good_def list_shift_def example_heap_def)
  have "free_chunks ?s \<noteq> []" using s(2) by (simp add: slab_flags_upd)
  with slab_list_first [of 0 example_heap ?x ?s] g obtain h where
    h: "slab_list_rep h 0 [?x] []" "payload h ?x = Some (strip_links ?s)" by (auto simp: example_heap_def)
  have "chunk_ok s 9" using s(3,4) by (simp add: chunk_ok_def unat_le_iff unat_less_iff)
  moreover have "slab_is_reserved ?s" by (simp add: slab_is_reserved_def SLAB_RESERVED_def)
  ultimately show ?thesis using that [OF h] s(2) by (simp add: slab_flags_upd)
qed

section \<open>Properties\<close>

text \<open>
  \<^verbatim>\<open>slab_init\<close>: for a power-of-two slab and chunk size, the descriptor and its chunk list fit in
  the reserved chunks, the free list holds every other chunk once, in ascending order, and the
  chunk addresses are aligned to the chunk size if the slab is.
\<close>

theorem slab_init_spec:
  fixes c k :: nat
  defines "n \<equiv> 2 ^ (k - c) :: nat"
  assumes "0 < c" and "c \<le> k" and "k \<le> 30" and "n \<le> 2 ^ 15" and "reserved_chunks n c < n"
    and "unat base + 2 ^ k \<le> 2 ^ 64"
  shows "\<exists>s. slab_init base (push_bit k 1) (push_bit c 1) = Inr s \<and> slab_inv (base, s) \<and>
    free_chunks s = map of_nat [reserved_chunks n c..<n] \<and>
    unat (sb_num_free s) = n - reserved_chunks n c \<and>
    offsetof_chunk_list + 2 * n \<le> unat (sb_num_reserved s) * 2 ^ c \<and>
    (unat base mod 2 ^ c = 0 \<longrightarrow> (\<forall>i. chunk_ok s i \<longrightarrow> unat (chunk_addr base s i) mod 2 ^ c = 0))"
proof -
  from slab_init_result [of c k base] assms obtain s where s: "slab_init base (push_bit k 1) (push_bit c 1) = Inr s"
    "slab_inv (base, s)" "free_chunks s = map of_nat [reserved_chunks n c..<n]"
    "unat (sb_num_reserved s) = reserved_chunks n c" "unat (sb_chunk_shift s) = c" by auto
  have "unat (chunk_addr base s i) mod 2 ^ c = 0" if "unat base mod 2 ^ c = 0" "chunk_ok s i" for i
  proof -
    have "slab_geom base s" using s(2) by (simp add: slab_inv_def)
    from chunk_offset(2) [OF this that(2)] show ?thesis using that(1) s(5) by simp
  qed
  moreover have "offsetof_chunk_list + 2 * n \<le> reserved_chunks n c * 2 ^ c"
    using reserved_chunks_bounds(1) [of n c] by (simp add: offsetof_chunk_list_def)
  moreover have "unat (sb_num_free s) = n - reserved_chunks n c" using s(2,3) by (simp add: slab_inv_def)
  ultimately show ?thesis using s by auto
qed

theorem slab_init_spec_witness:
  "\<exists>s. slab_init 0xFFFFFFFF80400000 (push_bit 14 1) (push_bit 6 1) = Inr s \<and>
     slab_inv (0xFFFFFFFF80400000, s) \<and> unat (sb_num_free s) = 247"
proof -
  have "reserved_chunks (2 ^ (14 - 6)) 6 = 9" by (simp add: reserved_chunks_def)
  then show ?thesis using slab_init_spec [of 6 14 "0xFFFFFFFF80400000"] by auto
qed

text \<open>
  C6. Exclusive ownership of chunks: whatever a client does with a slab, no chunk is both free and
  held, no chunk is lost, and every held chunk can be released.
\<close>

theorem slab_exclusive_ownership:
  assumes "(owner_step slab_take slab_give 0)\<^sup>*\<^sup>* ((base, s), {}) (st, own)"
    and "slab_inv (base, s)" and "set (slab_avail (base, s)) = slab_handles (base, s)"
  shows "own \<inter> set (slab_avail st) = {} \<and> own \<union> set (slab_avail st) = slab_handles st \<and>
    (\<forall>a\<in>own. \<exists>st'. slab_give st a = Inr st')"
  using assms by (rule slabs.owner_reachable_disjoint)

theorem slab_exclusive_ownership_witness:
  "\<exists>s st a. (owner_step slab_take slab_give 0)\<^sup>*\<^sup>* ((0xFFFFFFFF80400000, s), {}) (st, {a}) \<and>
     a \<notin> set (slab_avail st) \<and> (\<exists>st'. slab_give st a = Inr st')"
proof -
  let ?x = "0xFFFFFFFF80400000 :: u64"
  have "reserved_chunks (2 ^ (14 - 6)) 6 = 9" by (simp add: reserved_chunks_def)
  with slab_init_result [of 6 14 ?x] obtain s where s: "slab_inv (?x, s)" "free_chunks s = map of_nat [9..<256]"
    "unat (sb_num_chunks s) = 256" "unat (sb_num_reserved s) = 9" by auto
  have "set (free_chunks s) = {i. 9 \<le> unat i \<and> unat i < 256}" unfolding s(2) by (rule set_of_nat_upt) simp
  then have ok: "set (free_chunks s) = {i. chunk_ok s i}"
    by (simp only: chunk_ok_def unat_le_iff unat_less_iff s(3,4))
  then have h: "set (slab_avail (?x, s)) = slab_handles (?x, s)" by (simp add: slab_avail_def slab_handles_def)
  have "free_chunks s \<noteq> []" using s(2) by simp
  then obtain i "is" where fc: "free_chunks s = i # is" by (cases "free_chunks s") auto
  then have av: "slab_avail (?x, s) = chunk_addr ?x s i # map (chunk_addr ?x s) is" by (simp add: slab_avail_def)
  have "chunk_addr ?x s i \<in> slab_handles (?x, s)" using h av by auto
  then have nz: "chunk_addr ?x s i \<noteq> 0" using slabs.null_handle [OF s(1)] by auto
  obtain st where st: "slab_take (?x, s) = Inr (chunk_addr ?x s i, st)"
    using slabs.alloc_take [OF s(1) av] by blast
  have "owner_step slab_take slab_give 0 ((?x, s), {}) (st, insert (chunk_addr ?x s i) {})"
    using st nz by (rule owner_step.take)
  then have r: "(owner_step slab_take slab_give 0)\<^sup>*\<^sup>* ((?x, s), {}) (st, {chunk_addr ?x s i})" by simp
  from slab_exclusive_ownership [OF r s(1) h] r show ?thesis by blast
qed





end
