(* ===== verification/Kmalloc.thy ===== *)
theory Kmalloc
  imports Slab
begin

text \<open>
  The kernel's allocator front end, \<^verbatim>\<open>kmalloc.c\<close>: one root slab list that hands out 16 KB chunks of
  2 MB slabs cut from slack memory, and a table of slab lists for the element sizes 16 to 512 whose
  slabs are chunks of the root. In the slab heap the root list \<^verbatim>\<open>sl_root\<close> has number 0 and
  \<^verbatim>\<open>sl_table[i]\<close> number \<open>Suc i\<close>.
\<close>

definition MAX_SL_TABLE :: nat where "MAX_SL_TABLE = 6"
definition MIN_SL_SHIFT :: u32 where "MIN_SL_SHIFT = 4"
definition MAX_SL_SHIFT :: u32 where "MAX_SL_SHIFT = 9"
definition KMALLOC_CHUNK_SIZE :: u32 where "KMALLOC_CHUNK_SIZE = 0x4000"

definition sl_root :: nat where "sl_root = 0"
definition sl_table :: "nat \<Rightarrow> nat" where "sl_table i = Suc i"

text \<open>The two statics, cleared at start-up, and the lock of the table.\<close>

record kmalloc_state =
  km_heap :: slab_heap
  km_sl_lock :: u32

definition kmalloc_statics :: "kstate \<Rightarrow> kmalloc_state" where
  "kmalloc_statics ks =
     \<lparr>km_heap = \<lparr>sh_slabs = (\<lambda>_. None),
        sh_lists = replicate (Suc MAX_SL_TABLE) \<lparr>sl_owner = None, sl_free_slabs = 0, sl_used_slabs = 0,
          sl_size_shift = 0, sl_chunk_shift = 0, sl_flags = 0, sl_lock = 0\<rparr>,
        sh_kernel = ks\<rparr>,
      km_sl_lock = 0\<rparr>"

definition kmalloc_init :: "kmalloc_state \<Rightarrow> kmalloc_state outcome" where
  "kmalloc_init st =
     rbind (slab_list_init sl_root None (ucast PAGE_2M_SIZE) KMALLOC_CHUNK_SIZE (km_heap st)) (\<lambda>(_, h).
     rbind (slab_list_reserve_on_slack sl_root h) (\<lambda>(_, h).
     Inr (st\<lparr>km_heap := h\<rparr>)))"

definition kmalloc_alloc :: "kmalloc_state \<Rightarrow> (u64 \<times> kmalloc_state) outcome" where
  "kmalloc_alloc st = rbind (slab_list_alloc sl_root (km_heap st)) (\<lambda>(a, h). Inr (a, st\<lparr>km_heap := h\<rparr>))"

definition kmalloc_free :: "u64 \<Rightarrow> kmalloc_state \<Rightarrow> kmalloc_state outcome" where
  "kmalloc_free ptr st = rbind (slab_list_free sl_root ptr (km_heap st)) (\<lambda>h. Inr (st\<lparr>km_heap := h\<rparr>))"

definition kmalloc_get_slab :: "u32 \<Rightarrow> kmalloc_state \<Rightarrow> (nat option \<times> kmalloc_state) outcome" where
  "kmalloc_get_slab elem_size st =
     rbind (ceil_pow2 elem_size) (\<lambda>elem_shift.
     if elem_shift < MIN_SL_SHIFT \<or> elem_shift > MAX_SL_SHIFT then Inr (None, st)
     else
       let index = elem_shift - MIN_SL_SHIFT in
       rbind (spinlock_lock (km_sl_lock st)) (\<lambda>k.
       let st = st\<lparr>km_sl_lock := k\<rparr>; sl = sl_table (unat index) in
       rbind (arr_get (sh_lists (km_heap st)) sl) (\<lambda>d.
       rbind (if sl_owner d = None then
                slab_list_init sl (Some sl_root) KMALLOC_CHUNK_SIZE (push_bit (unat elem_shift) 1) (km_heap st)
              else Inr (True, km_heap st)) (\<lambda>(_, h).
       Inr (Some sl, st\<lparr>km_heap := h, km_sl_lock := spinlock_unlock k\<rparr>)))))"

subsection \<open>Size classes\<close>

lemma unat_ceil_pow2:
  assumes "1 < x" and "x \<le> 2 ^ 31"
  shows "\<exists>k. ceil_pow2 x = Inr (of_nat k) \<and> 0 < k \<and> k < 32 \<and> unat x \<le> 2 ^ k \<and> 2 ^ (k - 1) < unat x"
proof -
  let ?n = "unat (x - 1)"
  have x: "1 < unat x" "unat x \<le> 2 ^ 31" using assms by (simp_all add: unat_less_iff unat_le_iff)
  have n: "?n = unat x - 1" using assms(1) by (subst unat_minus1) auto
  have b: "?n < 2 ^ bitlen ?n" "2 ^ (bitlen ?n - 1) \<le> ?n" using bitlen_bounds [of ?n] x n by auto
  have pos: "0 < bitlen ?n" using b(1) x n by (cases "bitlen ?n") auto
  have le: "bitlen ?n < 32"
  proof (rule ccontr)
    assume "\<not> bitlen ?n < 32"
    then have "(2 :: nat) ^ 31 \<le> 2 ^ (bitlen ?n - 1)" by (intro power_increasing) auto
    then show False using b(2) n x by linarith
  qed
  have "ceil_pow2 x = Inr (32 - of_nat (32 - bitlen ?n))"
    using assms by (auto simp: ceil_pow2_def builtin_clz_def)
  moreover have "(32 :: u32) - of_nat (32 - bitlen ?n) = of_nat (bitlen ?n)" using le by (simp add: of_nat_diff)
  ultimately show ?thesis using b pos le n x by (intro exI [of _ "bitlen ?n"]) (auto intro: le_less_trans)
qed

subsection \<open>Start-up\<close>

lemma KERNEL_VADDR_block:
  assumes "unat p + 2 ^ 21 \<le> 2 ^ 30" and "unat p mod 2 ^ 21 = 0"
  shows "unat (KERNEL_VADDR p) + 2 ^ 21 \<le> 2 ^ 64" and "KERNEL_VADDR p \<noteq> 0"
    and "unat (KERNEL_VADDR p) mod 2 ^ 21 = 0"
proof -
  have u: "unat (KERNEL_VADDR p) = unat p + 0xFFFFFFFF80000000" using assms(1) by (intro unat_KERNEL_VADDR) simp
  then show "unat (KERNEL_VADDR p) + 2 ^ 21 \<le> 2 ^ 64" using assms(1) by simp
  have "unat (KERNEL_VADDR p) \<noteq> 0" using u by linarith
  then show "KERNEL_VADDR p \<noteq> 0" by (auto simp flip: unat_eq_iff)
  have "(0xFFFFFFFF80000000 :: nat) mod 2 ^ 21 = 0" by simp
  then show "unat (KERNEL_VADDR p) mod 2 ^ 21 = 0" unfolding u using assms(2) by (metis add.right_neutral mod_add_eq mod_0)
qed

text \<open>What \<^verbatim>\<open>kmalloc_init\<close> makes of the root list and of the memory it takes.\<close>

lemma kmalloc_init_result:
  assumes ok: "slack_ok ks" and fit: "round_up (unat (bi_kernel_slack (ks_boot ks))) (2 ^ 21) + 2 ^ 21 \<le> 2 ^ 30"
  shows "\<exists>p s st. kmalloc_init (kmalloc_statics ks) = Inr st \<and> slab_list_rep (km_heap st) sl_root [KERNEL_VADDR p] [] \<and>
    payload (km_heap st) (KERNEL_VADDR p) = Some s \<and> set (free_chunks s) = {i. 0 < unat i \<and> unat i < 128} \<and>
    unat (sb_chunk_shift s) = 14 \<and> slab_is_reserved s \<and> km_sl_lock st = 0 \<and> slack_ok (sh_kernel (km_heap st)) \<and>
    bi_kernel_slack (ks_boot ks) \<le> p \<and>
    unat (bi_kernel_slack (ks_boot (sh_kernel (km_heap st)))) = unat p + 2 ^ 21 \<and> unat p + 2 ^ 21 \<le> 2 ^ 30"
proof -
  define root where "root = \<lparr>sl_owner = None, sl_free_slabs = 0, sl_used_slabs = 0, sl_size_shift = 21,
    sl_chunk_shift = 14, sl_flags = 0, sl_lock = 0\<rparr>"
  define h1 where "h1 = (km_heap (kmalloc_statics ks))\<lparr>sh_lists := (sh_lists (km_heap (kmalloc_statics ks)))[0 := root]\<rparr>"
  have cp: "ceil_pow2 (ucast PAGE_2M_SIZE) = Inr 21" "ceil_pow2 KMALLOC_CHUNK_SIZE = Inr 14"
    using ceil_pow2_exp [of 21] ceil_pow2_exp [of 14]
    by (simp_all add: PAGE_2M_SIZE_def PAGE_2M_SHIFT_def KMALLOC_CHUNK_SIZE_def)
  have init: "slab_list_init sl_root None (ucast PAGE_2M_SIZE) KMALLOC_CHUNK_SIZE (km_heap (kmalloc_statics ks)) = Inr (True, h1)"
    using cp by (simp add: slab_list_init_def upd_list_def sl_root_def h1_def root_def kmalloc_statics_def MAX_SL_TABLE_def)
  have l1: "0 < length (sh_lists h1)" "sh_lists h1 ! 0 = root" "sh_kernel h1 = ks"
    by (simp_all add: h1_def kmalloc_statics_def)
  have sz: "push_bit (unat (sl_size_shift root)) 1 = (0x200000 :: u32)" "ucast (0x200000 :: u32) = (0x200000 :: u64)"
    "(0x200000 :: u64) = push_bit 21 1"
    by (simp_all add: root_def)
  have "round_up (unat (bi_kernel_slack (ks_boot ks))) (2 ^ 21) + unat (0x200000 :: u64) \<le> 2 ^ 30" using fit by simp
  from kernel_slack_alloc_result [OF ok _ this] obtain p ks' where
    p: "kernel_slack_alloc 0x200000 (push_bit 21 1) ks = Inr (KERNEL_VADDR p, ks')" "slack_ok ks'"
    "unat p mod 2 ^ 21 = 0" "bi_kernel_slack (ks_boot ks) \<le> p" "unat (bi_kernel_slack (ks_boot ks')) = unat p + 2 ^ 21"
    by auto
  obtain m where "m \<le> 512" "bi_kernel_slack (ks_boot ks') \<le> nth_page 0 m" using p(2) by (auto simp: slack_ok_def)
  moreover from this(1) have "unat (nth_page 0 m) \<le> 2 ^ 30"
    by (cases "m = 512") (simp_all add: unat_nth_page_0, simp add: nth_page_def PAGE_2M_SIZE_def PAGE_2M_SHIFT_def)
  ultimately have top: "unat p + 2 ^ 21 \<le> 2 ^ 30" using p(5) by (simp add: unat_le_iff)
  note v = KERNEL_VADDR_block [OF top p(3)]
  let ?x = "KERNEL_VADDR p" and ?h2 = "h1\<lparr>sh_kernel := ks'\<rparr>"
  define n :: nat where "n = 2 ^ (21 - 14)"
  define r where "r = reserved_chunks n 14"
  have nr: "n = 128" "r = 1" by (simp_all add: n_def r_def reserved_chunks_def)
  obtain s where s: "slab_init ?x (push_bit 21 1) (push_bit 14 1) = Inr s" "slab_inv (?x, s)"
    "free_chunks s = map of_nat [r..<n]" "unat (sb_num_chunks s) = n" "unat (sb_chunk_shift s) = 14" "sb_flags s = 0"
    using slab_init_result [of 14 21 ?x, folded n_def, folded r_def] v(1) nr by auto
  have fs: "set (free_chunks s) = {i. 0 < unat i \<and> unat i < 128}"
    unfolding s(3) using set_of_nat_upt [of n r] nr by (simp add: Suc_le_eq)
  let ?s = "s\<lparr>sb_flags := SLAB_RESERVED\<rparr>"
  have ls: "list_shift ?h2 0 = 21" using l1 by (simp add: list_shift_def root_def)
  have good: "slab_good (list_shift ?h2 0) ?x ?s"
    unfolding ls slab_flags_upd slab_good_def using s(2,4,5) v(3) nr by simp
  have ne: "free_chunks ?s \<noteq> []" by (simp add: slab_flags_upd s(3) nr)
  from slab_list_first [OF _ _ _ _ v(2) good ne] l1 obtain h3 where
    h3: "slab_list_insert (SPFree 0) ?x (put_slab ?x ?s ?h2) = Inr h3" "slab_list_rep h3 0 [?x] []"
    "payload h3 ?x = Some (strip_links ?s)" "sh_kernel h3 = ks'" by (auto simp: root_def)
  have get: "arr_get (sh_lists h1) sl_root = Inr root" using l1 by (simp add: sl_root_def)
  have ow: "sl_owner root = None" by (simp add: root_def)
  have sa: "kernel_slack_alloc (ucast (push_bit (unat (sl_size_shift root)) 1 :: u32))
      (ucast (push_bit (unat (sl_size_shift root)) 1 :: u32)) (sh_kernel h1) = Inr (?x, ks')"
    unfolding sz(1,2) l1(3) using p(1) unfolding sz(3) .
  have si: "slab_init ?x (push_bit (unat (sl_size_shift root)) 1) (push_bit (unat (sl_chunk_shift root)) 1) = Inr s"
    using s(1) by (simp add: root_def)
  have fl: "sb_flags s OR SLAB_RESERVED = SLAB_RESERVED" using s(6) by simp
  have "slab_list_reserve_on_slack sl_root h1 = Inr (True, h3)"
    unfolding slab_list_reserve_on_slack_def get rbind_simps Let_def ow option.case sa prod.case si fl
    using v(2) h3(1) by (simp add: sl_root_def)
  then have "kmalloc_init (kmalloc_statics ks) = Inr ((kmalloc_statics ks)\<lparr>km_heap := h3\<rparr>)"
    using init by (simp add: kmalloc_init_def)
  moreover have "slab_is_reserved (strip_links ?s)" by (simp add: slab_is_reserved_def SLAB_RESERVED_def strip_links_def)
  moreover have "set (free_chunks (strip_links ?s)) = {i. 0 < unat i \<and> unat i < 128}" by (simp add: slab_flags_upd fs)
  moreover have "unat (sb_chunk_shift (strip_links ?s)) = 14" by (simp add: strip_links_def s(5))
  ultimately show ?thesis using h3(2-4) p(2,4,5) top
    by (intro exI [of _ p] exI [of _ "strip_links ?s"] exI [of _ "(kmalloc_statics ks)\<lparr>km_heap := h3\<rparr>"])
      (simp add: sl_root_def kmalloc_statics_def)
qed

section \<open>Properties\<close>

text \<open>
  C34. \<^verbatim>\<open>kmalloc_init\<close> after boot: one 2 MB block of slack memory becomes the only slab of the root
  list, and what \<^verbatim>\<open>kmalloc_alloc\<close> can hand out is exactly its 127 chunks of 16 KB above the first,
  all inside the block just taken and aligned to their size; the slack invariant is kept.
\<close>

theorem kmalloc_init_spec:
  assumes "slack_ok ks" and "round_up (unat (bi_kernel_slack (ks_boot ks))) (2 ^ 21) + 2 ^ 21 \<le> 2 ^ 30"
  shows "\<exists>p st. kmalloc_init (kmalloc_statics ks) = Inr st \<and> slack_ok (sh_kernel (km_heap st)) \<and>
    slab_list_rep (km_heap st) sl_root [KERNEL_VADDR p] [] \<and> bi_kernel_slack (ks_boot ks) \<le> p \<and>
    unat (bi_kernel_slack (ks_boot (sh_kernel (km_heap st)))) = unat p + 2 ^ 21 \<and>
    unat ` list_avail (km_heap st) {KERNEL_VADDR p} = (\<lambda>i. unat (KERNEL_VADDR p) + i * 0x4000) ` {1..<128}"
proof -
  from kmalloc_init_result [OF assms] obtain p s st where
    r: "kmalloc_init (kmalloc_statics ks) = Inr st" "slab_list_rep (km_heap st) sl_root [KERNEL_VADDR p] []"
    and s: "payload (km_heap st) (KERNEL_VADDR p) = Some s" "set (free_chunks s) = {i. 0 < unat i \<and> unat i < 128}"
      "unat (sb_chunk_shift s) = 14"
    and k: "slack_ok (sh_kernel (km_heap st))" "bi_kernel_slack (ks_boot ks) \<le> p"
      "unat (bi_kernel_slack (ks_boot (sh_kernel (km_heap st)))) = unat p + 2 ^ 21" by blast
  let ?x = "KERNEL_VADDR p"
  have inv: "slab_inv (?x, s)" using rep_good [OF r(2), of ?x] s(1) by (auto simp: slab_good_def)
  then have g: "slab_geom ?x s" "list_all (chunk_ok s) (free_chunks s)" by (simp_all add: slab_inv_def)
  then have "unat (chunk_addr ?x s i) = unat ?x + unat i * 0x4000" if "i \<in> set (free_chunks s)" for i
    using chunk_offset(2) [of ?x s i] that s(3) by (simp add: list_all_iff)
  then have "unat ` list_avail (km_heap st) {?x} = (\<lambda>i. unat ?x + unat i * 0x4000) ` set (free_chunks s)"
    by (simp add: list_avail_def s(1) image_image)
  also have "\<dots> = (\<lambda>i. unat ?x + i * 0x4000) ` (unat ` set (free_chunks s))" by (simp add: image_image)
  also have "unat ` set (free_chunks s) = {1..<128}" unfolding s(2)
  proof (intro equalityI subsetI)
    fix j :: nat assume "j \<in> {1..<128}"
    then show "j \<in> unat ` {i :: u16. 0 < unat i \<and> unat i < 128}"
      using unat_of_nat_lt [of j, where 'a = 16] by (intro image_eqI [of _ _ "of_nat j"]) auto
  qed auto
  finally show ?thesis using r k by blast
qed

theorem kmalloc_init_spec_witness:
  "\<exists>p st. kmalloc_init (kmalloc_statics (boot_kstate 0xFFFFFFFF80123456)) = Inr st \<and>
     slab_list_rep (km_heap st) sl_root [KERNEL_VADDR p] []"
proof -
  have "bi_kernel_slack (ks_boot (boot_kstate 0xFFFFFFFF80123456)) = 0x123456"
    by (simp add: boot_kstate_def kernel_init_def Let_def KERNEL_BASE_def)
  then have "round_up (unat (bi_kernel_slack (ks_boot (boot_kstate 0xFFFFFFFF80123456)))) (2 ^ 21) + 2 ^ 21 \<le> 2 ^ 30"
    by (simp add: round_up_def)
  from kmalloc_init_spec [OF boot_kstate_ok this] show ?thesis by blast
qed

text \<open>
  \<^verbatim>\<open>kmalloc_get_slab\<close>: an element of 9 to 512 bytes gets the table entry whose chunk size is the
  least power of two that holds it, initialised with the root list as owner, and asking again for
  the same class changes nothing; any other size from 2 up gets no list.
\<close>

theorem kmalloc_get_slab_spec:
  assumes "1 < x" and "x \<le> 2 ^ 31" and "km_sl_lock st = 0" and "length (sh_lists (km_heap st)) = Suc MAX_SL_TABLE"
    and "sl_chunk_shift (sh_lists (km_heap st) ! sl_root) = 14"
    and "\<forall>i<MAX_SL_TABLE. sl_owner (sh_lists (km_heap st) ! sl_table i) = None"
  shows "if unat x \<le> 8 \<or> 512 < unat x then kmalloc_get_slab x st = Inr (None, st)
    else \<exists>k st'. kmalloc_get_slab x st = Inr (Some (sl_table k), st') \<and> k < MAX_SL_TABLE \<and>
      unat x \<le> 2 ^ (k + 4) \<and> 2 ^ (k + 3) < unat x \<and>
      sl_owner (sh_lists (km_heap st') ! sl_table k) = Some sl_root \<and>
      unat (sl_chunk_shift (sh_lists (km_heap st') ! sl_table k)) = k + 4 \<and>
      kmalloc_get_slab x st' = Inr (Some (sl_table k), st')"
proof -
  obtain k where k: "ceil_pow2 x = Inr (of_nat k)" "0 < k" "k < 32" "unat x \<le> 2 ^ k" "2 ^ (k - 1) < unat x"
    using unat_ceil_pow2 [OF assms(1,2)] by blast
  have uk: "unat (of_nat k :: u32) = k" by (rule unat_of_nat_lt) (use k(3) in simp)
  have mn: "of_nat k < MIN_SL_SHIFT \<longleftrightarrow> k < 4" "of_nat k > MAX_SL_SHIFT \<longleftrightarrow> 9 < k"
    by (simp_all add: unat_less_iff uk MIN_SL_SHIFT_def MAX_SL_SHIFT_def)
  show ?thesis
  proof (cases "k < 4 \<or> 9 < k")
    case True
    have "unat x \<le> 8" if "k < 4"
    proof -
      have "(2 :: nat) ^ k \<le> 2 ^ 3" using that by (intro power_increasing) auto
      then show ?thesis using k(4) by simp
    qed
    moreover have "512 < unat x" if "9 < k"
    proof -
      have "(2 :: nat) ^ 9 \<le> 2 ^ (k - 1)" using that by (intro power_increasing) auto
      then show ?thesis using k(5) by simp
    qed
    ultimately have "unat x \<le> 8 \<or> 512 < unat x" using True by blast
    moreover have "kmalloc_get_slab x st = Inr (None, st)" using True by (simp add: kmalloc_get_slab_def k(1) mn)
    ultimately show ?thesis by simp
  next
    case False
    then have kr: "4 \<le> k" "k \<le> 9" by simp_all
    define j where "j = k - 4"
    have kj: "k = j + 4" "j < MAX_SL_TABLE" using kr by (simp_all add: j_def MAX_SL_TABLE_def)
    have "(2 :: nat) ^ 3 \<le> 2 ^ (k - 1)" "(2 :: nat) ^ k \<le> 2 ^ 9" using kr by (intro power_increasing; simp)+
    then have x: "\<not> (unat x \<le> 8 \<or> 512 < unat x)" using k(4,5) by simp
    have ix: "unat (of_nat k - MIN_SL_SHIFT) = j"
      using kr by (subst unat_minus_le) (simp_all add: unat_le_iff uk MIN_SL_SHIFT_def j_def)
    let ?h = "km_heap st" and ?l = "sl_table j"
    define d where "d = \<lparr>sl_owner = Some sl_root, sl_free_slabs = 0, sl_used_slabs = 0, sl_size_shift = 14,
      sl_chunk_shift = of_nat k, sl_flags = 0, sl_lock = 0\<rparr>"
    define st' where "st' = st\<lparr>km_heap := ?h\<lparr>sh_lists := (sh_lists ?h)[?l := d]\<rparr>\<rparr>"
    have len: "?l < length (sh_lists ?h)" "sl_root < length (sh_lists ?h)" using kj(2) assms(4) by (simp_all add: sl_table_def sl_root_def)
    have cp: "ceil_pow2 KMALLOC_CHUNK_SIZE = Inr 14" "ceil_pow2 (push_bit k 1) = Inr (of_nat k)"
      using ceil_pow2_exp [of 14] ceil_pow2_exp [of k] k(2,3) by (simp_all add: KMALLOC_CHUNK_SIZE_def)
    have init: "slab_list_init ?l (Some sl_root) KMALLOC_CHUNK_SIZE (push_bit k 1) ?h = Inr (True, km_heap st')"
      using len assms(5) by (simp add: slab_list_init_def cp upd_list_def d_def st'_def del: push_bit_of_1)
    have lk: "kmalloc_state.km_sl_lock_update (\<lambda>_. 0) st = st" using assms(3) by (cases st) simp
    have g1: "kmalloc_get_slab x st = Inr (Some ?l, st')"
      using False assms(3,6) len kj(2) init
      by (simp add: kmalloc_get_slab_def k(1) mn ix uk Let_def del: push_bit_of_1) (simp add: st'_def lk)
    have lk': "st'\<lparr>km_sl_lock := 0\<rparr> = st'" "km_sl_lock st' = 0" using assms(3) by (cases st; simp add: st'_def)+
    have l': "sh_lists (km_heap st') ! ?l = d" "?l < length (sh_lists (km_heap st'))" using len by (simp_all add: st'_def)
    have g2: "kmalloc_get_slab x st' = Inr (Some ?l, st')"
      using False l' lk' by (simp add: kmalloc_get_slab_def k(1) mn ix uk Let_def d_def)
    have "sl_owner (sh_lists (km_heap st') ! ?l) = Some sl_root" "unat (sl_chunk_shift (sh_lists (km_heap st') ! ?l)) = j + 4"
      using uk kj(1) by (simp_all add: l'(1) d_def)
    moreover have "unat x \<le> 2 ^ (j + 4)" "2 ^ (j + 3) < unat x" using k(4,5) kj(1) by (simp_all add: add.commute)
    ultimately show ?thesis unfolding if_not_P [OF x] using g1 g2 kj(2) by (intro exI [of _ j] exI [of _ st'] conjI)
  qed
qed

theorem kmalloc_get_slab_spec_witness:
  "\<exists>st st'. kmalloc_get_slab 80 st = Inr (Some (sl_table 3), st') \<and>
     sl_owner (sh_lists (km_heap st') ! sl_table 3) = Some sl_root"
proof -
  let ?st = "(kmalloc_statics (boot_kstate 0))\<lparr>km_heap := (km_heap (kmalloc_statics (boot_kstate 0)))
    \<lparr>sh_lists := (sh_lists (km_heap (kmalloc_statics (boot_kstate 0))))[0 := \<lparr>sl_owner = None, sl_free_slabs = 0,
       sl_used_slabs = 0, sl_size_shift = 21, sl_chunk_shift = 14, sl_flags = 0, sl_lock = 0\<rparr>]\<rparr>\<rparr>"
  have o: "\<forall>i<MAX_SL_TABLE. sl_owner (sh_lists (km_heap ?st) ! sl_table i) = None"
    by (simp add: kmalloc_statics_def sl_table_def)
  have "unat (80 :: u32) = 80" by simp
  with kmalloc_get_slab_spec [of 80 ?st] o obtain k st' where
    k: "kmalloc_get_slab 80 ?st = Inr (Some (sl_table k), st')" "80 \<le> (2 :: nat) ^ (k + 4)" "2 ^ (k + 3) < (80 :: nat)"
      "k < MAX_SL_TABLE" "sl_owner (sh_lists (km_heap st') ! sl_table k) = Some sl_root"
    by (auto simp: kmalloc_statics_def sl_root_def)
  then have "k \<in> {0, 1, 2, 3, 4, 5}" by (auto simp: MAX_SL_TABLE_def)
  then have "k = 3" using k(2,3) by auto
  then show ?thesis using k by blast
qed

end
