(* ===== verification/Intrusive.thy ===== *)
theory Intrusive
  imports Prelude
begin

text \<open>
  The intrusive lists of \<^verbatim>\<open>list.h\<close>. Its macros take the names of the link fields; here a field is a
  pair of accessors of whatever store holds the elements, and a macro returns the new head (and
  tail) with the new store. \<open>queue_*\<close> keeps a circular doubly linked list with a head pointer,
  \<open>list_*\<close> a doubly linked list with head and tail. Pointers are addresses, 0 is the null pointer.

  The locale \<open>link_fields\<close> states what the macros need of two fields, and shows what they do to the
  sequence of elements they represent.
\<close>

record 'h field =
  rd :: "u64 \<Rightarrow> 'h \<Rightarrow> u64 outcome"
  wr :: "u64 \<Rightarrow> u64 \<Rightarrow> 'h \<Rightarrow> 'h outcome"

definition list_push_back ::
  "u64 \<Rightarrow> u64 \<Rightarrow> u64 \<Rightarrow> 'h field \<Rightarrow> 'h field \<Rightarrow> 'h \<Rightarrow> (u64 \<times> u64 \<times> 'h) outcome" where
  "list_push_back head tail elem next prev h =
     (if head = 0 then
        rbind (wr next elem 0 h) (\<lambda>h.
        rbind (wr prev elem 0 h) (\<lambda>h.
        Inr (elem, elem, h)))
      else
        rbind (wr next tail elem h) (\<lambda>h.
        rbind (wr prev elem tail h) (\<lambda>h.
        rbind (wr next elem 0 h) (\<lambda>h.
        Inr (head, elem, h)))))"

definition list_push_front ::
  "u64 \<Rightarrow> u64 \<Rightarrow> u64 \<Rightarrow> 'h field \<Rightarrow> 'h field \<Rightarrow> 'h \<Rightarrow> (u64 \<times> u64 \<times> 'h) outcome" where
  "list_push_front head tail elem next prev h =
     (if head = 0 then
        rbind (wr next elem 0 h) (\<lambda>h.
        rbind (wr prev elem 0 h) (\<lambda>h.
        Inr (elem, elem, h)))
      else
        rbind (wr prev head elem h) (\<lambda>h.
        rbind (wr prev elem 0 h) (\<lambda>h.
        rbind (wr next elem head h) (\<lambda>h.
        Inr (elem, tail, h)))))"

definition list_pop ::
  "u64 \<Rightarrow> u64 \<Rightarrow> u64 \<Rightarrow> 'h field \<Rightarrow> 'h field \<Rightarrow> 'h \<Rightarrow> (u64 \<times> u64 \<times> 'h) outcome" where
  "list_pop head tail elem next prev h =
     rbind (rd prev elem h) (\<lambda>p.
     rbind (rd next elem h) (\<lambda>n.
     rbind (if p = 0 then Inr (n, h) else rbind (wr next p n h) (\<lambda>h. Inr (head, h))) (\<lambda>(head, h).
     rbind (rd next elem h) (\<lambda>n.
     rbind (rd prev elem h) (\<lambda>p.
     rbind (if n = 0 then Inr (p, h) else rbind (wr prev n p h) (\<lambda>h. Inr (tail, h))) (\<lambda>(tail, h).
     Inr (head, tail, h)))))))"

definition queue_push_back ::
  "u64 \<Rightarrow> u64 \<Rightarrow> 'h field \<Rightarrow> 'h field \<Rightarrow> 'h \<Rightarrow> (u64 \<times> 'h) outcome" where
  "queue_push_back head elem next prev h =
     (if head = 0 then
        rbind (wr prev elem elem h) (\<lambda>h.
        rbind (wr next elem elem h) (\<lambda>h.
        Inr (elem, h)))
      else
        rbind (wr next elem head h) (\<lambda>h.
        rbind (rd prev head h) (\<lambda>p.
        rbind (wr prev elem p h) (\<lambda>h.
        rbind (rd prev elem h) (\<lambda>p.
        rbind (wr next p elem h) (\<lambda>h.
        rbind (wr prev head elem h) (\<lambda>h.
        Inr (head, h))))))))"

definition queue_insert_before ::
  "u64 \<Rightarrow> u64 \<Rightarrow> u64 \<Rightarrow> 'h field \<Rightarrow> 'h field \<Rightarrow> 'h \<Rightarrow> (u64 \<times> 'h) outcome" where
  "queue_insert_before head elem before next prev h =
     rbind (wr next elem before h) (\<lambda>h.
     rbind (rd prev before h) (\<lambda>p.
     rbind (wr prev elem p h) (\<lambda>h.
     rbind (rd prev before h) (\<lambda>p.
     rbind (wr next p elem h) (\<lambda>h.
     rbind (wr prev before elem h) (\<lambda>h.
     Inr (if before = head then elem else head, h)))))))"

definition queue_pop :: "u64 \<Rightarrow> u64 \<Rightarrow> 'h field \<Rightarrow> 'h field \<Rightarrow> 'h \<Rightarrow> (u64 \<times> 'h) outcome" where
  "queue_pop head elem next prev h =
     rbind (rd next elem h) (\<lambda>n.
     if n = elem then Inr (0, h)
     else
       rbind (rd prev elem h) (\<lambda>p.
       rbind (wr prev n p h) (\<lambda>h.
       rbind (wr next p n h) (\<lambda>h.
       Inr (if head = elem then n else head, h)))))"

subsection \<open>Linked sequences\<close>

text \<open>Neighbours in the sequence point at each other.\<close>

fun linked :: "(u64 \<Rightarrow> u64) \<Rightarrow> (u64 \<Rightarrow> u64) \<Rightarrow> u64 list \<Rightarrow> bool" where
  "linked nx pv (x # y # zs) \<longleftrightarrow> nx x = y \<and> pv y = x \<and> linked nx pv (y # zs)"
| "linked nx pv _ \<longleftrightarrow> True"

definition cyclic :: "(u64 \<Rightarrow> u64) \<Rightarrow> (u64 \<Rightarrow> u64) \<Rightarrow> u64 list \<Rightarrow> bool" where
  "cyclic nx pv xs \<longleftrightarrow> xs = [] \<or> linked nx pv (xs @ [hd xs])"

lemma linked_Cons: "ys \<noteq> [] \<Longrightarrow> linked nx pv (x # ys) \<longleftrightarrow> nx x = hd ys \<and> pv (hd ys) = x \<and> linked nx pv ys"
  by (cases ys) auto

lemma linked_join: "linked nx pv (xs @ y # ys) \<longleftrightarrow> linked nx pv (xs @ [y]) \<and> linked nx pv (y # ys)"
  by (induction nx pv xs rule: linked.induct) (auto simp: linked_Cons)

lemma linked_snoc: "xs \<noteq> [] \<Longrightarrow> linked nx pv (xs @ [y]) \<longleftrightarrow> linked nx pv xs \<and> nx (last xs) = y \<and> pv y = last xs"
  by (induction nx pv xs rule: linked.induct) auto

lemma linked_cong:
  "(\<And>x. x \<in> set (butlast xs) \<Longrightarrow> nx x = nx' x) \<Longrightarrow> (\<And>x. x \<in> set (tl xs) \<Longrightarrow> pv x = pv' x) \<Longrightarrow>
   linked nx pv xs \<longleftrightarrow> linked nx' pv' xs"
proof (induction xs)
  case (Cons x xs)
  show ?case
  proof (cases xs)
    case (Cons y ys)
    then show ?thesis using Cons.IH Cons.prems by (auto split: if_splits)
  qed simp
qed simp

lemma linked_append:
  assumes "xs \<noteq> []" and "ys \<noteq> []"
  shows "linked nx pv (xs @ ys) \<longleftrightarrow> linked nx pv xs \<and> nx (last xs) = hd ys \<and> pv (hd ys) = last xs \<and> linked nx pv ys"
proof -
  obtain y zs where ys: "ys = y # zs" using assms(2) by (cases ys) auto
  show ?thesis unfolding ys linked_join [of nx pv xs y zs] using assms(1) by (auto simp: linked_snoc)
qed

lemma cyclic_rotate: "cyclic nx pv (xs @ ys) \<longleftrightarrow> cyclic nx pv (ys @ xs)"
proof (cases "xs = [] \<or> ys = []")
  case False
  then have "xs \<noteq> []" "ys \<noteq> []" by auto
  then show ?thesis by (auto simp: cyclic_def linked_snoc linked_append simp flip: append_assoc)
qed auto

lemma cyclic_Cons: "zs \<noteq> [] \<Longrightarrow> cyclic nx pv (x # zs) \<longleftrightarrow>
    linked nx pv zs \<and> nx x = hd zs \<and> pv (hd zs) = x \<and> nx (last zs) = x \<and> pv x = last zs"
  by (auto simp: cyclic_def linked_snoc linked_Cons simp flip: append_Cons)

lemma cyclic_snoc: "zs \<noteq> [] \<Longrightarrow> cyclic nx pv (zs @ [x]) \<longleftrightarrow>
    linked nx pv zs \<and> nx x = hd zs \<and> pv (hd zs) = x \<and> nx (last zs) = x \<and> pv x = last zs"
  using cyclic_rotate [of nx pv zs "[x]"] by (simp add: cyclic_Cons)

lemma cyclic_single [simp]: "cyclic nx pv [x] \<longleftrightarrow> nx x = x \<and> pv x = x"
  by (auto simp: cyclic_def)

lemma cyclic_linked: "zs \<noteq> [] \<Longrightarrow> cyclic nx pv zs \<longleftrightarrow> linked nx pv zs \<and> nx (last zs) = hd zs \<and> pv (hd zs) = last zs"
  by (auto simp: cyclic_def linked_snoc)

text \<open>A circular list with a head pointer, and a list with head and tail pointers.\<close>

definition ring :: "(u64 \<Rightarrow> u64) \<Rightarrow> (u64 \<Rightarrow> u64) \<Rightarrow> (u64 \<Rightarrow> bool) \<Rightarrow> u64 \<Rightarrow> u64 list \<Rightarrow> bool" where
  "ring nx pv node head xs \<longleftrightarrow> distinct xs \<and> (\<forall>x\<in>set xs. node x) \<and> cyclic nx pv xs \<and>
     head = (if xs = [] then 0 else hd xs)"

definition dlist :: "(u64 \<Rightarrow> u64) \<Rightarrow> (u64 \<Rightarrow> u64) \<Rightarrow> (u64 \<Rightarrow> bool) \<Rightarrow> u64 \<Rightarrow> u64 \<Rightarrow> u64 list \<Rightarrow> bool" where
  "dlist nx pv node head tail xs \<longleftrightarrow> distinct xs \<and> (\<forall>x\<in>set xs. node x) \<and> linked nx pv xs \<and>
     (if xs = [] then head = 0 else head = hd xs \<and> tail = last xs \<and> nx (last xs) = 0 \<and> pv (hd xs) = 0)"

lemma ring_next:
  assumes "ring nx pv node head (as @ x # bs)"
  shows "nx x = hd (bs @ as @ [x])" and "pv x = last ((x # bs) @ as)"
proof -
  have "cyclic nx pv (as @ x # bs)" using assms by (simp add: ring_def)
  then have c: "cyclic nx pv (x # bs @ as)" using cyclic_rotate [of nx pv as "x # bs"] by simp
  have "nx x = hd ((bs @ as) @ [x])" using c by (cases "bs @ as") (auto simp: cyclic_linked linked_Cons)
  then show "nx x = hd (bs @ as @ [x])" by simp
  show "pv x = last ((x # bs) @ as)" using c by (simp add: cyclic_linked)
qed

lemma ring_ne:
  assumes "ring nx pv node head xs" and "\<not> node 0"
  shows "head = 0 \<longleftrightarrow> xs = []"
  using assms by (cases xs) (auto simp: ring_def)

locale link_fields =
  fixes nextf prevf :: "'h field"
    and nx pv :: "'h \<Rightarrow> u64 \<Rightarrow> u64"
    and node :: "'h \<Rightarrow> u64 \<Rightarrow> bool"
    and rest :: "'h \<Rightarrow> 'r"
  assumes null_node: "\<not> node h 0"
    and rd_next: "node h p \<Longrightarrow> rd nextf p h = Inr (nx h p)"
    and rd_prev: "node h p \<Longrightarrow> rd prevf p h = Inr (pv h p)"
    and wr_next: "node h p \<Longrightarrow> \<exists>h'. wr nextf p v h = Inr h' \<and> nx h' = (nx h)(p := v) \<and> pv h' = pv h \<and>
      node h' = node h \<and> rest h' = rest h"
    and wr_prev: "node h p \<Longrightarrow> \<exists>h'. wr prevf p v h = Inr h' \<and> nx h' = nx h \<and> pv h' = (pv h)(p := v) \<and>
      node h' = node h \<and> rest h' = rest h"
begin

definition represents :: "'h \<Rightarrow> u64 \<Rightarrow> u64 list \<Rightarrow> bool" where
  "represents h head xs \<longleftrightarrow> ring (nx h) (pv h) (node h) head xs"

text \<open>Nothing changes but the links of the elements in \<open>S\<close>.\<close>

definition touches :: "u64 set \<Rightarrow> 'h \<Rightarrow> 'h \<Rightarrow> bool" where
  "touches S h h' \<longleftrightarrow> (\<forall>x. x \<notin> S \<longrightarrow> nx h' x = nx h x \<and> pv h' x = pv h x) \<and> node h' = node h \<and> rest h' = rest h"

lemma queue_push_back_empty:
  assumes "node h e"
  shows "\<exists>h'. queue_push_back 0 e nextf prevf h = Inr (e, h') \<and> represents h' e [e] \<and> touches {e} h h'"
proof -
  obtain h1 where h1: "wr prevf e e h = Inr h1" "nx h1 = nx h" "pv h1 = (pv h)(e := e)" "node h1 = node h" "rest h1 = rest h"
    using wr_prev [OF assms] by blast
  have "node h1 e" using h1 assms by simp
  from wr_next [OF this] obtain h2 where h2: "wr nextf e e h1 = Inr h2" "nx h2 = (nx h1)(e := e)" "pv h2 = pv h1"
    "node h2 = node h1" "rest h2 = rest h1" by blast
  show ?thesis using h1 h2 assms by (auto simp: queue_push_back_def represents_def ring_def touches_def)
qed

text \<open>The four link writes that put an element in front of \<open>b\<close>; \<open>zs\<close> is the ring from \<open>b\<close> on.\<close>

lemma link_before:
  assumes cyc: "cyclic (nx h) (pv h) zs" and zs: "zs \<noteq> []" "distinct zs" "\<forall>x\<in>set zs. node h x"
    and e: "node h e" "e \<notin> set zs"
  obtains h1 h2 h3 h4 where "wr nextf e (hd zs) h = Inr h1" "rd prevf (hd zs) h1 = Inr (last zs)"
    "wr prevf e (last zs) h1 = Inr h2" "rd prevf e h2 = Inr (last zs)" "rd prevf (hd zs) h2 = Inr (last zs)"
    "wr nextf (last zs) e h2 = Inr h3" "wr prevf (hd zs) e h3 = Inr h4" "cyclic (nx h4) (pv h4) (zs @ [e])"
    "touches (insert e (set zs)) h h4"
proof -
  let ?b = "hd zs" and ?l = "last zs"
  have n: "node h ?b" "node h ?l" "?b \<noteq> e" "?l \<noteq> e" "?b \<in> set zs" "?l \<in> set zs" using zs e by auto
  have c: "linked (nx h) (pv h) zs" "pv h ?b = ?l" using cyc zs by (auto simp: cyclic_linked)
  obtain h1 where h1: "wr nextf e ?b h = Inr h1" "nx h1 = (nx h)(e := ?b)" "pv h1 = pv h" "node h1 = node h" "rest h1 = rest h"
    using wr_next [OF e(1)] by blast
  have r1: "rd prevf ?b h1 = Inr ?l" using rd_prev [of h1 ?b] h1 n c by simp
  have "node h1 e" using h1 e by simp
  from wr_prev [OF this] obtain h2 where h2: "wr prevf e ?l h1 = Inr h2" "nx h2 = nx h1" "pv h2 = (pv h1)(e := ?l)"
    "node h2 = node h1" "rest h2 = rest h1" by blast
  have r2: "rd prevf e h2 = Inr ?l" "rd prevf ?b h2 = Inr ?l"
    using rd_prev [of h2 e] rd_prev [of h2 ?b] h1 h2 e n c by simp_all
  have "node h2 ?l" using h1 h2 n by simp
  from wr_next [OF this] obtain h3 where h3: "wr nextf ?l e h2 = Inr h3" "nx h3 = (nx h2)(?l := e)" "pv h3 = pv h2"
    "node h3 = node h2" "rest h3 = rest h2" by blast
  have "node h3 ?b" using h1 h2 h3 n by simp
  from wr_prev [OF this] obtain h4 where h4: "wr prevf ?b e h3 = Inr h4" "nx h4 = nx h3" "pv h4 = (pv h3)(?b := e)"
    "node h4 = node h3" "rest h4 = rest h3" by blast
  have nx4: "nx h4 = (nx h)(e := ?b, ?l := e)" and pv4: "pv h4 = (pv h)(e := ?l, ?b := e)" using h1 h2 h3 h4 by simp_all
  have tl: "x \<noteq> ?b" "x \<noteq> e" if "x \<in> set (tl zs)" for x using that zs e by (cases zs; auto)+
  have bl: "x \<noteq> ?l" "x \<noteq> e" if "x \<in> set (butlast zs)" for x
    using butlast_distinct [OF zs(2) that] e by auto
  have "linked (nx h4) (pv h4) zs = linked (nx h) (pv h) zs"
    unfolding nx4 pv4 by (rule linked_cong) (use tl bl in simp_all)
  then have cyc4: "cyclic (nx h4) (pv h4) (zs @ [e])"
    unfolding cyclic_snoc [OF zs(1)] using c n by (simp add: nx4 pv4)
  have "touches (insert e (set zs)) h h4" using h1 h2 h3 h4 n by (auto simp: touches_def nx4 pv4)
  from that [OF h1(1) r1 h2(1) r2 h3(1) h4(1) cyc4 this] show ?thesis .
qed

lemma queue_push_back_ring:
  assumes "represents h head xs" and "node h e" and "e \<notin> set xs"
  shows "\<exists>head' h'. queue_push_back head e nextf prevf h = Inr (head', h') \<and> represents h' head' (xs @ [e]) \<and>
    touches (insert e (set xs)) h h'"
proof (cases "xs = []")
  case True
  then have "head = 0" using assms(1) by (simp add: represents_def ring_def)
  with queue_push_back_empty [OF assms(2)] True show ?thesis by auto
next
  case False
  have r: "cyclic (nx h) (pv h) xs" "distinct xs" "\<forall>x\<in>set xs. node h x" "head = hd xs"
    using assms(1) False by (auto simp: represents_def ring_def)
  obtain h1 h2 h3 h4 where w: "wr nextf e (hd xs) h = Inr h1" "rd prevf (hd xs) h1 = Inr (last xs)"
    "wr prevf e (last xs) h1 = Inr h2" "rd prevf e h2 = Inr (last xs)" "wr nextf (last xs) e h2 = Inr h3"
    "wr prevf (hd xs) e h3 = Inr h4" "cyclic (nx h4) (pv h4) (xs @ [e])" "touches (insert e (set xs)) h h4"
    by (rule link_before [OF r(1) False r(2,3) assms(2,3)])
  have "head \<noteq> 0" using r False null_node by (metis hd_in_set)
  then have "queue_push_back head e nextf prevf h = Inr (head, h4)" using w r(4) by (simp add: queue_push_back_def)
  moreover have "represents h4 head (xs @ [e])"
    using w(7,8) r False assms by (auto simp: represents_def ring_def touches_def)
  ultimately show ?thesis using w(8) by blast
qed

lemma queue_insert_before_ring:
  assumes "represents h head (as @ b # bs)" and "node h e" and "e \<notin> set (as @ b # bs)"
  shows "\<exists>head' h'. queue_insert_before head e b nextf prevf h = Inr (head', h') \<and>
    represents h' head' (as @ e # b # bs) \<and> touches (insert e (set (as @ b # bs))) h h'"
proof -
  let ?zs = "b # bs @ as"
  have r: "cyclic (nx h) (pv h) (as @ b # bs)" "distinct ?zs" "\<forall>x\<in>set ?zs. node h x" "head = hd (as @ b # bs)"
    using assms(1) by (auto simp: represents_def ring_def)
  have c: "cyclic (nx h) (pv h) ?zs" using r(1) cyclic_rotate [of "nx h" "pv h" as "b # bs"] by simp
  have e: "e \<notin> set ?zs" "?zs \<noteq> []" using assms(3) by auto
  obtain h1 h2 h3 h4 where w: "wr nextf e (hd ?zs) h = Inr h1" "rd prevf (hd ?zs) h1 = Inr (last ?zs)"
    "wr prevf e (last ?zs) h1 = Inr h2" "rd prevf (hd ?zs) h2 = Inr (last ?zs)" "wr nextf (last ?zs) e h2 = Inr h3"
    "wr prevf (hd ?zs) e h3 = Inr h4" "cyclic (nx h4) (pv h4) (?zs @ [e])" "touches (insert e (set ?zs)) h h4"
    by (rule link_before [OF c e(2) r(2,3) assms(2) e(1)])
  have q: "queue_insert_before head e b nextf prevf h = Inr (if b = head then e else head, h4)"
    using w(1-6) by (simp add: queue_insert_before_def split del: if_split)
  have "cyclic (nx h4) (pv h4) (as @ e # b # bs)"
    using w(7) cyclic_rotate [of "nx h4" "pv h4" "b # bs" "as @ [e]"] by simp
  moreover have "(if b = head then e else head) = hd (as @ e # b # bs)" using r(2,4) by (cases as) auto
  ultimately have "represents h4 (if b = head then e else head) (as @ e # b # bs)"
    using w(8) r(2,3) assms(2,3) by (auto simp: represents_def ring_def touches_def)
  then show ?thesis using q w(8) by (auto simp: Un_commute)
qed

lemma queue_pop_ring:
  assumes "represents h head (as @ e # bs)"
  shows "\<exists>head' h'. queue_pop head e nextf prevf h = Inr (head', h') \<and> represents h' head' (as @ bs) \<and>
    touches (set (as @ bs)) h h'"
proof -
  let ?zs = "bs @ as"
  have r: "cyclic (nx h) (pv h) (as @ e # bs)" "distinct (e # ?zs)" "\<forall>x\<in>set (e # ?zs). node h x" "head = hd (as @ e # bs)"
    using assms by (auto simp: represents_def ring_def)
  have c: "cyclic (nx h) (pv h) (e # ?zs)" using r(1) cyclic_rotate [of "nx h" "pv h" as "e # bs"] by simp
  have rn: "rd nextf e h = Inr (nx h e)" "rd prevf e h = Inr (pv h e)" using rd_next rd_prev r(3) by auto
  show ?thesis
  proof (cases "?zs = []")
    case True
    then have "nx h e = e" using c by simp
    then have "queue_pop head e nextf prevf h = Inr (0, h)" using rn by (simp add: queue_pop_def)
    then show ?thesis using True by (auto simp: represents_def ring_def cyclic_def touches_def)
  next
    case False
    have k: "linked (nx h) (pv h) ?zs" "nx h e = hd ?zs" "pv h e = last ?zs" using c cyclic_Cons [OF False] by auto
    have n: "node h (hd ?zs)" "node h (last ?zs)" "hd ?zs \<in> set ?zs" "last ?zs \<in> set ?zs"
      using r(3) hd_in_set [OF False] last_in_set [OF False] by auto
    obtain h1 where h1: "wr prevf (hd ?zs) (last ?zs) h = Inr h1" "nx h1 = nx h" "pv h1 = (pv h)(hd ?zs := last ?zs)"
      "node h1 = node h" "rest h1 = rest h" using wr_prev [OF n(1)] by blast
    have "node h1 (last ?zs)" using h1 n by simp
    from wr_next [OF this] obtain h2 where h2: "wr nextf (last ?zs) (hd ?zs) h1 = Inr h2"
      "nx h2 = (nx h1)(last ?zs := hd ?zs)" "pv h2 = pv h1" "node h2 = node h1" "rest h2 = rest h1" by blast
    have ne: "nx h e \<noteq> e" using k(2) r(2) n(3) by auto
    have q: "queue_pop head e nextf prevf h = Inr (if head = e then hd ?zs else head, h2)"
      using rn ne k h1(1) h2(1) by (simp add: queue_pop_def)
    have nx2: "nx h2 = (nx h)(last ?zs := hd ?zs)" and pv2: "pv h2 = (pv h)(hd ?zs := last ?zs)" using h1 h2 by simp_all
    have d: "distinct ?zs" using r(2) by simp
    have tl: "x \<noteq> hd ?zs" if "x \<in> set (tl ?zs)" for x using that d by (cases ?zs) auto
    have "linked (nx h2) (pv h2) ?zs = linked (nx h) (pv h) ?zs"
      unfolding nx2 pv2 by (rule linked_cong) (use tl butlast_distinct [OF d] in auto)
    then have "cyclic (nx h2) (pv h2) ?zs" unfolding cyclic_linked [OF False] using k(1) by (simp add: nx2 pv2)
    then have "cyclic (nx h2) (pv h2) (as @ bs)" by (simp only: cyclic_rotate)
    moreover have "(if head = e then hd ?zs else head) = hd (as @ bs)" using r(2,4) False by (cases as) auto
    moreover have t: "touches (set ?zs) h h2" using h1 h2 n by (auto simp: touches_def nx2 pv2)
    ultimately have "represents h2 (if head = e then hd ?zs else head) (as @ bs)"
      using False r(2,3) by (auto simp: represents_def ring_def touches_def)
    then show ?thesis using q t by (auto simp: Un_commute)
  qed
qed

definition represents_list :: "'h \<Rightarrow> u64 \<Rightarrow> u64 \<Rightarrow> u64 list \<Rightarrow> bool" where
  "represents_list h head tail xs \<longleftrightarrow> dlist (nx h) (pv h) (node h) head tail xs"

lemma list_push_back_list:
  assumes "represents_list h head tail xs" and "node h e" and "e \<notin> set xs"
  shows "\<exists>head' tail' h'. list_push_back head tail e nextf prevf h = Inr (head', tail', h') \<and>
    represents_list h' head' tail' (xs @ [e]) \<and> touches (insert e (set xs)) h h'"
proof (cases "xs = []")
  case True
  then have "head = 0" using assms(1) by (simp add: represents_list_def dlist_def)
  obtain h1 where h1: "wr nextf e 0 h = Inr h1" "nx h1 = (nx h)(e := 0)" "pv h1 = pv h" "node h1 = node h" "rest h1 = rest h"
    using wr_next [OF assms(2)] by blast
  have "node h1 e" using h1 assms by simp
  from wr_prev [OF this] obtain h2 where h2: "wr prevf e 0 h1 = Inr h2" "nx h2 = nx h1" "pv h2 = (pv h1)(e := 0)"
    "node h2 = node h1" "rest h2 = rest h1" by blast
  show ?thesis using h1 h2 True \<open>head = 0\<close> assms(2)
    by (auto simp: list_push_back_def represents_list_def dlist_def touches_def)
next
  case False
  have r: "linked (nx h) (pv h) xs" "distinct xs" "\<forall>x\<in>set xs. node h x" "head = hd xs" "tail = last xs" "pv h (hd xs) = 0"
    using assms(1) False by (auto simp: represents_list_def dlist_def)
  have n: "node h tail" "tail \<noteq> e" "tail \<in> set xs" "head \<noteq> 0"
    using r False assms(3) null_node [of h] hd_in_set [OF False] last_in_set [OF False] by metis+
  obtain h1 where h1: "wr nextf tail e h = Inr h1" "nx h1 = (nx h)(tail := e)" "pv h1 = pv h" "node h1 = node h" "rest h1 = rest h"
    using wr_next [OF n(1)] by blast
  have "node h1 e" using h1 assms by simp
  from wr_prev [OF this] obtain h2 where h2: "wr prevf e tail h1 = Inr h2" "nx h2 = nx h1" "pv h2 = (pv h1)(e := tail)"
    "node h2 = node h1" "rest h2 = rest h1" by blast
  have "node h2 e" using h1 h2 assms by simp
  from wr_next [OF this] obtain h3 where h3: "wr nextf e 0 h2 = Inr h3" "nx h3 = (nx h2)(e := 0)" "pv h3 = pv h2"
    "node h3 = node h2" "rest h3 = rest h2" by blast
  have nx3: "nx h3 = (nx h)(tail := e, e := 0)" and pv3: "pv h3 = (pv h)(e := tail)" using h1 h2 h3 by simp_all
  have "linked (nx h3) (pv h3) xs = linked (nx h) (pv h) xs" unfolding nx3 pv3
    by (rule linked_cong) (use butlast_distinct [OF r(2)] r(5) assms(3) list.set_sel(2) [OF False] in auto)
  then have "linked (nx h3) (pv h3) (xs @ [e])" unfolding linked_snoc [OF False] using r(1,5) n by (simp add: nx3 pv3)
  moreover have "nx h3 e = 0" "pv h3 (hd xs) = 0" using r(6) assms(3) hd_in_set [OF False] by (auto simp: nx3 pv3)
  moreover have "list_push_back head tail e nextf prevf h = Inr (head, e, h3)"
    using n h1(1) h2(1) h3(1) by (simp add: list_push_back_def)
  moreover have "touches (insert e (set xs)) h h3" using h1 h2 h3 n by (auto simp: touches_def nx3 pv3)
  ultimately show ?thesis using r False assms by (auto simp: represents_list_def dlist_def touches_def)
qed

lemma list_push_front_list:
  assumes "represents_list h head tail xs" and "node h e" and "e \<notin> set xs"
  shows "\<exists>head' tail' h'. list_push_front head tail e nextf prevf h = Inr (head', tail', h') \<and>
    represents_list h' head' tail' (e # xs) \<and> touches (insert e (set xs)) h h'"
proof (cases "xs = []")
  case True
  then have "head = 0" using assms(1) by (simp add: represents_list_def dlist_def)
  then have "list_push_front head tail e nextf prevf h = list_push_back head tail e nextf prevf h"
    by (simp add: list_push_front_def list_push_back_def)
  with list_push_back_list [OF assms] True show ?thesis by simp
next
  case False
  have r: "linked (nx h) (pv h) xs" "distinct xs" "\<forall>x\<in>set xs. node h x" "head = hd xs" "tail = last xs" "nx h (last xs) = 0"
    using assms(1) False by (auto simp: represents_list_def dlist_def)
  have n: "node h head" "head \<noteq> e" "head \<in> set xs" "head \<noteq> 0"
    using r False assms(3) null_node [of h] hd_in_set [OF False] last_in_set [OF False] by metis+
  obtain h1 where h1: "wr prevf head e h = Inr h1" "nx h1 = nx h" "pv h1 = (pv h)(head := e)" "node h1 = node h" "rest h1 = rest h"
    using wr_prev [OF n(1)] by blast
  have "node h1 e" using h1 assms by simp
  from wr_prev [OF this] obtain h2 where h2: "wr prevf e 0 h1 = Inr h2" "nx h2 = nx h1" "pv h2 = (pv h1)(e := 0)"
    "node h2 = node h1" "rest h2 = rest h1" by blast
  have "node h2 e" using h1 h2 assms by simp
  from wr_next [OF this] obtain h3 where h3: "wr nextf e head h2 = Inr h3" "nx h3 = (nx h2)(e := head)" "pv h3 = pv h2"
    "node h3 = node h2" "rest h3 = rest h2" by blast
  have nx3: "nx h3 = (nx h)(e := head)" and pv3: "pv h3 = (pv h)(head := e, e := 0)" using h1 h2 h3 by simp_all
  have tl: "x \<noteq> head" "x \<noteq> e" if "x \<in> set (tl xs)" for x using that r(2,4) assms(3) False by (cases xs; auto)+
  have "linked (nx h3) (pv h3) xs = linked (nx h) (pv h) xs" unfolding nx3 pv3
    by (rule linked_cong) (use tl assms(3) butlast_distinct [OF r(2)] in auto)
  then have "linked (nx h3) (pv h3) (e # xs)" unfolding linked_Cons [OF False] using r(1,4) n by (simp add: nx3 pv3)
  moreover have "nx h3 (last xs) = 0" "pv h3 e = 0" using r(6) assms(3) last_in_set [OF False] by (auto simp: nx3 pv3)
  moreover have "list_push_front head tail e nextf prevf h = Inr (e, tail, h3)"
    using n h1(1) h2(1) h3(1) by (simp add: list_push_front_def)
  moreover have "touches (insert e (set xs)) h h3" using h1 h2 h3 n by (auto simp: touches_def nx3 pv3)
  ultimately show ?thesis using r False assms by (auto simp: represents_list_def dlist_def touches_def)
qed

lemma list_pop_list:
  assumes "represents_list h head tail (as @ e # bs)"
  shows "\<exists>head' tail' h'. list_pop head tail e nextf prevf h = Inr (head', tail', h') \<and>
    represents_list h' head' tail' (as @ bs) \<and> touches (set (as @ bs)) h h'"
proof -
  let ?n = "if bs = [] then 0 else hd bs" and ?p = "if as = [] then 0 else last as"
  have d: "distinct (as @ e # bs)" "\<forall>x\<in>set (as @ e # bs). node h x" "linked (nx h) (pv h) (as @ e # bs)"
    "head = hd (as @ e # bs)" "tail = last (as @ e # bs)" "nx h tail = 0" "pv h head = 0"
    using assms by (auto simp: represents_list_def dlist_def)
  have ne: "nx h e = ?n" "pv h e = ?p"
    using d by (auto simp: linked_join [of _ _ as e bs] linked_Cons linked_snoc)
  have z: "?n = 0 \<longleftrightarrow> bs = []" "?p = 0 \<longleftrightarrow> as = []"
    using d(2) null_node [of h] hd_in_set [of bs] last_in_set [of as] by (cases bs; auto)+
  have la: "linked (nx h) (pv h) as" and lb: "linked (nx h) (pv h) bs"
    using d(3) by (cases "as = []"; cases "bs = []"; auto simp: linked_join [of _ _ as e bs] linked_Cons linked_snoc)+
  have r: "rd nextf e h = Inr ?n" "rd prevf e h = Inr ?p" using rd_next [of h e] rd_prev [of h e] d(2) ne by auto
  obtain h1 where h1: "(if ?p = 0 then Inr (?n, h) else rbind (wr nextf ?p ?n h) (\<lambda>h. Inr (head, h))) =
      Inr (if as = [] then ?n else head, h1)"
    "nx h1 = (if as = [] then nx h else (nx h)(?p := ?n))" "pv h1 = pv h" "node h1 = node h" "rest h1 = rest h"
  proof (cases "as = []")
    case False
    then have "node h ?p" using d(2) by auto
    from wr_next [OF this, of ?n] show ?thesis using False z(2) that by auto
  qed (use that in auto)
  have e: "e \<notin> set as" "e \<notin> set bs" using d(1) by auto
  have "nx h1 e = ?n" "pv h1 e = ?p" using ne h1(2,3) e last_in_set [of as] by auto
  then have r1: "rd nextf e h1 = Inr ?n" "rd prevf e h1 = Inr ?p"
    using rd_next [of h1 e] rd_prev [of h1 e] d(2) h1(4) by auto
  obtain h2 where h2: "(if ?n = 0 then Inr (?p, h1) else rbind (wr prevf ?n ?p h1) (\<lambda>h. Inr (tail, h))) =
      Inr (if bs = [] then ?p else tail, h2)"
    "pv h2 = (if bs = [] then pv h1 else (pv h1)(?n := ?p))" "nx h2 = nx h1" "node h2 = node h1" "rest h2 = rest h1"
  proof (cases "bs = []")
    case False
    then have "node h1 ?n" using d(2) h1(4) by auto
    from wr_prev [OF this, of ?p] show ?thesis using False z(1) that by auto
  qed (use that in auto)
  have pop: "list_pop head tail e nextf prevf h = Inr (if as = [] then ?n else head, if bs = [] then ?p else tail, h2)"
    unfolding list_pop_def r rbind_simps h1(1) prod.case r1 h2(1) ..
  have nx2: "nx h2 = (if as = [] then nx h else (nx h)(last as := ?n))"
    and pv2: "pv h2 = (if bs = [] then pv h else (pv h)(hd bs := ?p))" using h1 h2 by (simp_all split: if_splits)
  have dj: "set as \<inter> set bs = {}" using d(1) by auto
  have ha: "x \<noteq> hd bs" if "x \<in> set as" "bs \<noteq> []" for x using that dj hd_in_set [of bs] by blast
  have hb: "x \<noteq> last as" if "x \<in> set bs" "as \<noteq> []" for x using that dj last_in_set [of as] by blast
  have da: "distinct as" "distinct bs" using d(1) by auto
  have tb: "x \<noteq> hd bs" if "x \<in> set (tl bs)" for x using that da(2) by (cases bs) auto
  have "linked (nx h2) (pv h2) as = linked (nx h) (pv h) as"
  proof (rule linked_cong)
    fix x assume "x \<in> set (butlast as)"
    then show "nx h2 x = nx h x" using butlast_distinct [OF da(1), of x] by (simp add: nx2)
  next
    fix x assume "x \<in> set (tl as)"
    then have "x \<in> set as" by (cases as) auto
    then show "pv h2 x = pv h x" using ha [of x] by (simp add: pv2)
  qed
  moreover have "linked (nx h2) (pv h2) bs = linked (nx h) (pv h) bs"
  proof (rule linked_cong)
    fix x assume "x \<in> set (butlast bs)"
    then have "x \<in> set bs" by (rule in_set_butlastD)
    then show "nx h2 x = nx h x" using hb [of x] by (simp add: nx2)
  next
    fix x assume "x \<in> set (tl bs)"
    then show "pv h2 x = pv h x" using tb [of x] by (simp add: pv2)
  qed
  ultimately have lab: "linked (nx h2) (pv h2) (as @ bs)"
    using la lb by (cases "as = []"; cases "bs = []"; simp add: linked_append) (simp_all add: nx2 pv2)
  have ends: "as @ bs \<noteq> [] \<Longrightarrow> nx h2 (last (as @ bs)) = 0 \<and> pv h2 (hd (as @ bs)) = 0"
  proof -
    assume "as @ bs \<noteq> []"
    then show ?thesis using d(4-7) ha [of "hd as"] hb [of "last bs"]
      by (cases "as = []"; cases "bs = []") (auto simp: nx2 pv2)
  qed
  have "represents_list h2 (if as = [] then ?n else head) (if bs = [] then ?p else tail) (as @ bs)"
    using d lab ends h1(4) h2(4) by (auto simp: represents_list_def dlist_def)
  moreover have "touches (set (as @ bs)) h h2" using h1(4,5) h2(4,5) by (auto simp: touches_def nx2 pv2)
  ultimately show ?thesis using pop by blast
qed

end

end
