(* ===== verification/Threads.thy ===== *)
theory Threads
  imports Kmalloc Intrusive
begin

text \<open>
  Threads and processors: \<^verbatim>\<open>thread.h\<close>, \<^verbatim>\<open>thread.c\<close>, the processor descriptors and their locks of
  \<^verbatim>\<open>cpu.h\<close>, and \<^verbatim>\<open>context_switch\<close> of \<^verbatim>\<open>isr.S\<close>.

  \<open>system\<close> is what the code can reach: the descriptors \<^verbatim>\<open>cpus[]\<close>, the processor that runs the code
  (\<open>sy_this\<close>, what \<^verbatim>\<open>%gs:0\<close> points to) with its flags, stack pointer and saved registers, the
  words on the stacks, the threads by address, and the allocator. Thread descriptors are either the
  \<^verbatim>\<open>idle_thread\<close> embedded in a processor descriptor or chunks of the slab list \<^verbatim>\<open>thread_sl\<close>.
\<close>

definition THREAD_DEFAULT_PRI :: int where "THREAD_DEFAULT_PRI = 8"
definition THREAD_STATE_RUNNING :: u32 where "THREAD_STATE_RUNNING = 0"
definition THREAD_STATE_SLEEPING :: u32 where "THREAD_STATE_SLEEPING = 1"
definition THREAD_FLAG_SLEEP_TIMER :: u32 where "THREAD_FLAG_SLEEP_TIMER = 1"

record thread_t =
  th_next :: u64
  th_prev :: u64
  th_next_wait :: u64
  th_ctx :: u64
  th_stack :: u64
  th_ticks :: u64
  th_id :: u32
  th_cpu_id :: u32
  th_state :: u32
  th_sleep_time :: u32
  th_flags :: u32
  th_pri :: int
  th_cnt :: int

record thread_list_t =
  tl_head :: u64
  tl_tail :: u64

record switch_context_t =
  sc_r15 :: u64
  sc_r14 :: u64
  sc_r13 :: u64
  sc_r12 :: u64
  sc_rsi :: u64
  sc_rdi :: u64
  sc_rbp :: u64
  sc_rbx :: u64
  sc_rip :: u64

record isr_frame_t =
  fr_r11 :: u64
  fr_r10 :: u64
  fr_r9 :: u64
  fr_r8 :: u64
  fr_rdx :: u64
  fr_rcx :: u64
  fr_rax :: u64
  fr_trap_num :: u64
  fr_trap_err :: u64
  fr_rip :: u64
  fr_cs :: u64
  fr_rflags :: u64
  fr_rsp :: u64
  fr_ss :: u64

record cpu_desc_t =
  cd_threads :: u64
  cd_cur_thread :: u64
  cd_ticks :: u64
  cd_lock :: u32
  cd_apic_id :: u32
  cd_flags :: u32
  cd_id_cnt :: u32
  cd_spl :: u32

definition MAX_CPUS :: nat where "MAX_CPUS = 16"
definition CPU_FLAGS_ACTIVE :: u32 where "CPU_FLAGS_ACTIVE = 0x01"
definition CPU_FLAGS_BSP :: u32 where "CPU_FLAGS_BSP = 0x80"

definition sizeof_thread_t :: u32 where "sizeof_thread_t = 80"
definition sizeof_cpu_desc_t :: u64 where "sizeof_cpu_desc_t = 136"
definition offsetof_idle_thread :: u64 where "offsetof_idle_thread = 24"

record system =
  sy_cpus :: "cpu_desc_t list"
  sy_cpus_addr :: u64
  sy_this :: nat
  sy_rflags :: u64
  sy_rsp :: u64
  sy_regs :: switch_context_t
  sy_mem :: "u64 \<Rightarrow> u64"
  sy_threads :: "u64 \<Rightarrow> thread_t option"
  sy_km :: kmalloc_state
  sy_thread_sl :: "nat option"

subsection \<open>Access to threads and descriptors\<close>

definition get_thread :: "u64 \<Rightarrow> system \<Rightarrow> thread_t outcome" where
  "get_thread p st =
     (if p = 0 then Inl NullDeref
      else case sy_threads st p of None \<Rightarrow> Inl NullDeref | Some t \<Rightarrow> Inr t)"

definition upd_thread :: "u64 \<Rightarrow> (thread_t \<Rightarrow> thread_t) \<Rightarrow> system \<Rightarrow> system outcome" where
  "upd_thread p f st = rbind (get_thread p st) (\<lambda>t. Inr (st\<lparr>sy_threads := (sy_threads st)(p \<mapsto> f t)\<rparr>))"

definition upd_cpu :: "nat \<Rightarrow> (cpu_desc_t \<Rightarrow> cpu_desc_t) \<Rightarrow> system \<Rightarrow> system outcome" where
  "upd_cpu c f st = rbind (arr_get (sy_cpus st) c) (\<lambda>d. Inr (st\<lparr>sy_cpus := (sy_cpus st)[c := f d]\<rparr>))"

definition idle_thread :: "nat \<Rightarrow> system \<Rightarrow> u64" where
  "idle_thread c st = sy_cpus_addr st + of_nat c * sizeof_cpu_desc_t + offsetof_idle_thread"

definition next_field :: "system field" where
  "next_field = \<lparr>rd = (\<lambda>p st. rbind (get_thread p st) (\<lambda>t. Inr (th_next t))),
                 wr = (\<lambda>p v. upd_thread p (\<lambda>t. t\<lparr>th_next := v\<rparr>))\<rparr>"

definition prev_field :: "system field" where
  "prev_field = \<lparr>rd = (\<lambda>p st. rbind (get_thread p st) (\<lambda>t. Inr (th_prev t))),
                 wr = (\<lambda>p v. upd_thread p (\<lambda>t. t\<lparr>th_prev := v\<rparr>))\<rparr>"

subsection \<open>Wait lists\<close>

definition thread_list_init :: thread_list_t where
  "thread_list_init = \<lparr>tl_head = 0, tl_tail = 0\<rparr>"

definition thread_list_push :: "thread_list_t \<Rightarrow> u64 \<Rightarrow> system \<Rightarrow> (thread_list_t \<times> system) outcome" where
  "thread_list_push lst t st =
     rbind (if tl_head lst = 0 then Inr (\<lparr>tl_head = t, tl_tail = t\<rparr>, st)
            else rbind (upd_thread (tl_tail lst) (\<lambda>th. th\<lparr>th_next_wait := t\<rparr>) st) (\<lambda>st.
                 Inr (lst\<lparr>tl_tail := t\<rparr>, st))) (\<lambda>(lst, st).
     rbind (upd_thread t (\<lambda>th. th\<lparr>th_next_wait := 0\<rparr>) st) (\<lambda>st.
     Inr (lst, st)))"

definition thread_list_pop :: "thread_list_t \<Rightarrow> system \<Rightarrow> (u64 \<times> thread_list_t) outcome" where
  "thread_list_pop lst st =
     (let t = tl_head lst in
      if tl_head lst \<noteq> 0 then rbind (get_thread (tl_head lst) st) (\<lambda>th. Inr (t, lst\<lparr>tl_head := th_next_wait th\<rparr>))
      else Inr (t, lst))"

definition thread_list_empty :: "thread_list_t \<Rightarrow> bool" where
  "thread_list_empty lst \<longleftrightarrow> tl_head lst = 0"

subsection \<open>Processor locks\<close>

definition get_cpu :: "system \<Rightarrow> nat" where
  "get_cpu st = sy_this st"

definition get_cpu_id :: "system \<Rightarrow> u32 outcome" where
  "get_cpu_id st = rbind (arr_get (sy_cpus st) (get_cpu st)) (\<lambda>d. Inr (cd_apic_id d))"

definition lock_cpu :: "nat \<Rightarrow> system \<Rightarrow> system outcome" where
  "lock_cpu c st =
     rbind (arr_get (sy_cpus st) c) (\<lambda>d.
     rbind (spinlock_lock (cd_lock d)) (\<lambda>k.
     upd_cpu c (\<lambda>d. d\<lparr>cd_lock := k\<rparr>) st))"

definition cpu_lock :: "system \<Rightarrow> (nat \<times> system) outcome" where
  "cpu_lock st = (let c = get_cpu st in rbind (lock_cpu c st) (\<lambda>st. Inr (c, st)))"

definition cpu_lock_id :: "u32 \<Rightarrow> system \<Rightarrow> (nat \<times> system) outcome" where
  "cpu_lock_id cid st = (let c = unat cid in rbind (lock_cpu c st) (\<lambda>st. Inr (c, st)))"

definition cpu_lock_splhi :: "system \<Rightarrow> (nat \<times> system) outcome" where
  "cpu_lock_splhi st =
     (case cpu_splhi (sy_rflags st) of (spl, rf) \<Rightarrow>
      let st = st\<lparr>sy_rflags := rf\<rparr>; c = get_cpu st in
      rbind (lock_cpu c st) (\<lambda>st.
      rbind (upd_cpu c (\<lambda>d. d\<lparr>cd_spl := spl\<rparr>) st) (\<lambda>st.
      Inr (c, st))))"

definition cpu_unlock :: "nat \<Rightarrow> system \<Rightarrow> system outcome" where
  "cpu_unlock c st = upd_cpu c (\<lambda>d. d\<lparr>cd_lock := spinlock_unlock (cd_lock d)\<rparr>) st"

definition cpu_unlock_splx :: "nat \<Rightarrow> system \<Rightarrow> system outcome" where
  "cpu_unlock_splx c st =
     rbind (cpu_unlock c st) (\<lambda>st.
     rbind (arr_get (sy_cpus st) c) (\<lambda>d.
     Inr (st\<lparr>sy_rflags := cpu_splx (cd_spl d) (sy_rflags st)\<rparr>)))"

definition cpu_lock_smp :: "u32 \<Rightarrow> system \<Rightarrow> (nat \<times> system) outcome" where
  "cpu_lock_smp cid st =
     rbind (get_cpu_id st) (\<lambda>this. if this = cid then cpu_lock_splhi st else cpu_lock_id cid st)"

definition cpu_unlock_smp :: "nat \<Rightarrow> system \<Rightarrow> system outcome" where
  "cpu_unlock_smp c st = (if c = get_cpu st then cpu_unlock_splx c st else cpu_unlock c st)"

subsection \<open>Stacks and the context switch\<close>

primrec put_words :: "u64 \<Rightarrow> u64 list \<Rightarrow> (u64 \<Rightarrow> u64) \<Rightarrow> u64 \<Rightarrow> u64" where
  "put_words a [] m = m"
| "put_words a (w # ws) m = put_words (a + 8) ws (m(a := w))"

definition frame_words :: "isr_frame_t \<Rightarrow> u64 list" where
  "frame_words f = [fr_r11 f, fr_r10 f, fr_r9 f, fr_r8 f, fr_rdx f, fr_rcx f, fr_rax f, fr_trap_num f, fr_trap_err f,
     fr_rip f, fr_cs f, fr_rflags f, fr_rsp f, fr_ss f]"

definition ctx_words :: "switch_context_t \<Rightarrow> u64 list" where
  "ctx_words c = [sc_r15 c, sc_r14 c, sc_r13 c, sc_r12 c, sc_rsi c, sc_rdi c, sc_rbp c, sc_rbx c, sc_rip c]"

definition read_ctx :: "u64 \<Rightarrow> (u64 \<Rightarrow> u64) \<Rightarrow> switch_context_t" where
  "read_ctx a m = \<lparr>sc_r15 = m a, sc_r14 = m (a + 8), sc_r13 = m (a + 16), sc_r12 = m (a + 24), sc_rsi = m (a + 32),
     sc_rdi = m (a + 40), sc_rbp = m (a + 48), sc_rbx = m (a + 56), sc_rip = m (a + 64)\<rparr>"

definition sizeof_isr_frame_t :: u64 where "sizeof_isr_frame_t = 112"
definition sizeof_switch_context_t :: u64 where "sizeof_switch_context_t = 72"

text \<open>
  \<^verbatim>\<open>call context_switch\<close> pushes the return address, the routine pushes the registers of a
  \<^verbatim>\<open>switch_context_t\<close>, stores the stack pointer through \<^verbatim>\<open>old_ctx\<close> (the \<^verbatim>\<open>ctx\<close> field of \<open>old\<close>), and
  pops the other context.
\<close>

definition context_switch :: "u64 \<Rightarrow> u64 \<Rightarrow> system \<Rightarrow> system outcome" where
  "context_switch old new_ctx st =
     (let sp = sy_rsp st - sizeof_switch_context_t;
          m = put_words sp (ctx_words (sy_regs st)) (sy_mem st) in
      rbind (upd_thread old (\<lambda>t. t\<lparr>th_ctx := sp\<rparr>) (st\<lparr>sy_mem := m\<rparr>)) (\<lambda>st.
      Inr (st\<lparr>sy_regs := read_ctx new_ctx (sy_mem st), sy_rsp := new_ctx + sizeof_switch_context_t\<rparr>)))"

subsection \<open>Creating and waking threads\<close>

definition thread_start :: "system \<Rightarrow> system outcome" where
  "thread_start st = cpu_unlock (get_cpu st) st"

definition thread_init :: "system \<Rightarrow> system outcome" where
  "thread_init st =
     rbind (kmalloc_get_slab sizeof_thread_t (sy_km st)) (\<lambda>(sl, km).
     Inr (st\<lparr>sy_thread_sl := sl, sy_km := km\<rparr>))"

definition thread_alloc :: "system \<Rightarrow> (u64 \<times> system) outcome" where
  "thread_alloc st =
     (case sy_thread_sl st of
        None \<Rightarrow> Inl NullDeref
      | Some sl \<Rightarrow>
          rbind (slab_list_alloc sl (km_heap (sy_km st))) (\<lambda>(a, h).
          Inr (a, st\<lparr>sy_km := (sy_km st)\<lparr>km_heap := h\<rparr>\<rparr>)))"

text \<open>The frame that \<^verbatim>\<open>_isr_ret\<close> pops to enter the thread, and the context that leads there.\<close>

definition entry_frame :: "u64 \<Rightarrow> u64 \<Rightarrow> isr_frame_t" where
  "entry_frame entry_fn stack_top =
     \<lparr>fr_r11 = 0, fr_r10 = 0, fr_r9 = 0, fr_r8 = 0, fr_rdx = 0, fr_rcx = 0, fr_rax = 0, fr_trap_num = 0, fr_trap_err = 0,
      fr_rip = entry_fn, fr_cs = 0x08, fr_rflags = RFLAGS_IF, fr_rsp = stack_top, fr_ss = 0x10\<rparr>"

definition entry_ctx :: "u64 \<Rightarrow> switch_context_t" where
  "entry_ctx start = \<lparr>sc_r15 = 0, sc_r14 = 0, sc_r13 = 0, sc_r12 = 0, sc_rsi = 0, sc_rdi = 0, sc_rbp = 0, sc_rbx = 0,
     sc_rip = start\<rparr>"

text \<open>
  \<open>isr_ret\<close> and \<open>start\<close> are the addresses of \<^verbatim>\<open>_isr_ret\<close> and \<^verbatim>\<open>thread_start\<close>, chosen by the linker.
\<close>

text \<open>The end of \<^verbatim>\<open>thread_create\<close>: under the lock of its processor the thread gets its number and is queued.\<close>

definition thread_enlist :: "u32 \<Rightarrow> u64 \<Rightarrow> system \<Rightarrow> system outcome" where
  "thread_enlist cpu_id thread st =
     rbind (get_cpu_id st) (\<lambda>this_cpu_id.
     rbind (if this_cpu_id = cpu_id then cpu_lock_splhi st else cpu_lock_id cpu_id st) (\<lambda>(c, st).
     rbind (upd_cpu c (\<lambda>d. d\<lparr>cd_id_cnt := cd_id_cnt d + 1\<rparr>) st) (\<lambda>st.
     rbind (arr_get (sy_cpus st) c) (\<lambda>d.
     rbind (upd_thread thread (\<lambda>t. t\<lparr>th_id := cd_id_cnt d, th_cpu_id := cd_apic_id d\<rparr>) st) (\<lambda>st.
     rbind (queue_push_back (cd_threads d) thread next_field prev_field st) (\<lambda>(head, st).
     rbind (upd_cpu c (\<lambda>d. d\<lparr>cd_threads := head\<rparr>) st) (\<lambda>st.
     if this_cpu_id = cpu_id then cpu_unlock_splx c st else cpu_unlock c st)))))))"

definition thread_create :: "u64 \<Rightarrow> u64 \<Rightarrow> u64 \<Rightarrow> u32 \<Rightarrow> u32 \<Rightarrow> system \<Rightarrow> (u64 \<times> system) outcome" where
  "thread_create isr_ret start entry_fn stack_size cpu_id st =
     (let stack_size = KMALLOC_CHUNK_SIZE in
      rbind (thread_alloc st) (\<lambda>(thread, st).
      rbind (kmalloc_alloc (sy_km st)) (\<lambda>(stack, km).
      let st = st\<lparr>sy_km := km\<rparr>;
          stack_top = stack + ucast stack_size;
          sp = stack_top - sizeof_isr_frame_t;
          m = put_words sp (frame_words (entry_frame entry_fn stack_top)) (sy_mem st);
          sp = sp - 8;
          m = m(sp := isr_ret);
          sp = sp - sizeof_switch_context_t;
          m = put_words sp (ctx_words (entry_ctx start)) m;
          st = st\<lparr>sy_mem := m\<rparr> in
      if thread = 0 then Inl NullDeref
      else
        let t = \<lparr>th_next = 0, th_prev = 0, th_next_wait = 0, th_ctx = sp, th_stack = stack_top, th_ticks = 0, th_id = 0,
                 th_cpu_id = 0, th_state = THREAD_STATE_RUNNING, th_sleep_time = 0, th_flags = 0,
                 th_pri = THREAD_DEFAULT_PRI, th_cnt = THREAD_DEFAULT_PRI\<rparr>;
            st = st\<lparr>sy_threads := (sy_threads st)(thread \<mapsto> t)\<rparr> in
        rbind (thread_enlist cpu_id thread st) (\<lambda>st.
        Inr (thread, st))))) "

definition thread_wakeup :: "u64 \<Rightarrow> system \<Rightarrow> system outcome" where
  "thread_wakeup thread st =
     rbind (get_cpu_id st) (\<lambda>cid.
     rbind (get_thread thread st) (\<lambda>t.
     let this_cpu = (cid = th_cpu_id t) in
     rbind (if this_cpu then cpu_lock_splhi st else cpu_lock_id (th_cpu_id t) st) (\<lambda>(c, st).
     rbind (upd_thread thread (\<lambda>t. t\<lparr>th_state := THREAD_STATE_RUNNING\<rparr>) st) (\<lambda>st.
     if this_cpu then cpu_unlock_splx c st else cpu_unlock c st))))"

subsection \<open>Words on the stack\<close>

lemma put_words_other: "\<forall>k<length ws. x \<noteq> a + 8 * of_nat k \<Longrightarrow> put_words a ws m x = m x"
proof (induction ws arbitrary: a m)
  case (Cons w ws)
  have "x \<noteq> a" using Cons.prems by (auto dest: spec [of _ 0])
  moreover have "\<forall>k<length ws. x \<noteq> a + 8 + 8 * of_nat k"
  proof (intro allI impI)
    fix k assume "k < length ws"
    then show "x \<noteq> a + 8 + 8 * of_nat k" using Cons.prems [rule_format, of "Suc k"] by (simp add: algebra_simps)
  qed
  ultimately show ?case by (simp add: Cons.IH)
qed simp

lemma eight_inject:
  assumes "i < 2 ^ 60" and "j < 2 ^ 60"
  shows "a + 8 * of_nat i = a + 8 * (of_nat j :: u64) \<longleftrightarrow> i = j"
proof
  assume "a + 8 * of_nat i = a + 8 * (of_nat j :: u64)"
  then have "(of_nat (8 * i) :: u64) = of_nat (8 * j)" by simp
  then have "unat (of_nat (8 * i) :: u64) = unat (of_nat (8 * j) :: u64)" by (simp only:)
  moreover have "unat (of_nat (8 * n) :: u64) = 8 * n" if "n < 2 ^ 60" for n by (rule unat_of_nat_lt) (use that in simp)
  note this [OF assms(1)] this [OF assms(2)]
  ultimately have "8 * i = 8 * j" by (simp only:)
  then show "i = j" by simp
qed simp

lemma put_words_nth:
  "length ws < 2 ^ 60 \<Longrightarrow> k < length ws \<Longrightarrow> put_words a ws m (a + 8 * of_nat k) = ws ! k"
proof (induction ws arbitrary: a m k)
  case (Cons w ws)
  show ?case
  proof (cases k)
    case 0
    have "a + 8 * of_nat (Suc j) \<noteq> a + 8 * of_nat 0" if "j < length ws" for j
      using eight_inject [of "Suc j" 0 a] that Cons.prems by simp
    then have "\<forall>j<length ws. a \<noteq> a + 8 + 8 * of_nat j" by (simp add: algebra_simps)
    then show ?thesis using put_words_other [of ws a "a + 8" "m(a := w)"] 0 by simp
  next
    case (Suc j)
    have e: "a + 8 * of_nat k = a + 8 + 8 * of_nat j" by (simp add: Suc algebra_simps)
    show ?thesis unfolding e using Cons.IH [of j "a + 8"] Cons.prems Suc by simp
  qed
qed simp

lemma read_ctx_put: "read_ctx a (put_words a (ctx_words c) m) = c"
proof -
  have "put_words a (ctx_words c) m (a + 8 * of_nat k) = ctx_words c ! k" if "k < 9" for k
    using put_words_nth [of "ctx_words c" k a m] that by (simp add: ctx_words_def)
  from this [of 0] this [of 1] this [of 2] this [of 3] this [of 4] this [of 5] this [of 6] this [of 7] this [of 8]
  show ?thesis by (simp add: read_ctx_def ctx_words_def)
qed

lemma read_ctx_cong: "(\<And>k. k < 9 \<Longrightarrow> m (a + 8 * of_nat k) = m' (a + 8 * of_nat k)) \<Longrightarrow> read_ctx a m = read_ctx a m'"
proof -
  assume e: "m (a + 8 * of_nat k) = m' (a + 8 * of_nat k)" if "k < 9" for k
  from e [of 0] e [of 1] e [of 2] e [of 3] e [of 4] e [of 5] e [of 6] e [of 7] e [of 8]
  show ?thesis by (simp add: read_ctx_def)
qed

subsection \<open>Threads as a store of links\<close>

definition thread_nx :: "system \<Rightarrow> u64 \<Rightarrow> u64" where
  "thread_nx st p = (case sy_threads st p of None \<Rightarrow> 0 | Some t \<Rightarrow> th_next t)"

definition thread_pv :: "system \<Rightarrow> u64 \<Rightarrow> u64" where
  "thread_pv st p = (case sy_threads st p of None \<Rightarrow> 0 | Some t \<Rightarrow> th_prev t)"

definition thread_node :: "system \<Rightarrow> u64 \<Rightarrow> bool" where
  "thread_node st p \<longleftrightarrow> p \<noteq> 0 \<and> sy_threads st p \<noteq> None"

definition unlinked :: "thread_t \<Rightarrow> thread_t" where
  "unlinked t = t\<lparr>th_next := 0, th_prev := 0\<rparr>"

definition thread_rest :: "system \<Rightarrow> system" where
  "thread_rest st = st\<lparr>sy_threads := (\<lambda>p. map_option unlinked (sy_threads st p))\<rparr>"

lemma thread_store_cong:
  "sy_threads a = sy_threads b \<Longrightarrow> thread_nx a = thread_nx b"
  "sy_threads a = sy_threads b \<Longrightarrow> thread_pv a = thread_pv b"
  "sy_threads a = sy_threads b \<Longrightarrow> thread_node a = thread_node b"
  by (simp_all add: fun_eq_iff thread_nx_def thread_pv_def thread_node_def)

lemma get_thread_Some: "thread_node st p \<Longrightarrow> sy_threads st p = Some t \<Longrightarrow> get_thread p st = Inr t"
  by (simp add: get_thread_def thread_node_def)

lemma get_thread_Inr_iff [outcome]: "get_thread p st = Inr t \<longleftrightarrow> p \<noteq> 0 \<and> sy_threads st p = Some t"
  by (auto simp: get_thread_def split: option.splits)

lemma upd_thread_Inr_iff [outcome]:
  "upd_thread p f st = Inr st' \<longleftrightarrow> p \<noteq> 0 \<and> (\<exists>t. sy_threads st p = Some t \<and>
     st' = st\<lparr>sy_threads := (sy_threads st)(p \<mapsto> f t)\<rparr>)"
  by (auto simp: upd_thread_def outcome)

lemma upd_thread_node:
  assumes "thread_node st p"
  obtains t where "sy_threads st p = Some t" "get_thread p st = Inr t"
    "upd_thread p f st = Inr (st\<lparr>sy_threads := (sy_threads st)(p \<mapsto> f t)\<rparr>)"
  using assms by (auto simp: thread_node_def upd_thread_def get_thread_def)

interpretation threads: link_fields next_field prev_field thread_nx thread_pv thread_node thread_rest
proof (unfold_locales, goal_cases)
  case 1
  show ?case by (simp add: thread_node_def)
next
  case (2 h p)
  then show ?case by (auto simp: next_field_def thread_node_def get_thread_def thread_nx_def)
next
  case (3 h p)
  then show ?case by (auto simp: prev_field_def thread_node_def get_thread_def thread_pv_def)
next
  case (4 h p v)
  from upd_thread_node [OF this] obtain t where t: "sy_threads h p = Some t"
    "upd_thread p (\<lambda>t. t\<lparr>th_next := v\<rparr>) h = Inr (h\<lparr>sy_threads := (sy_threads h)(p \<mapsto> t\<lparr>th_next := v\<rparr>)\<rparr>)" by blast
  then show ?case using 4 by (intro exI [of _ "h\<lparr>sy_threads := (sy_threads h)(p \<mapsto> t\<lparr>th_next := v\<rparr>)\<rparr>"])
    (auto simp: next_field_def thread_nx_def thread_pv_def thread_node_def thread_rest_def unlinked_def fun_eq_iff)
next
  case (5 h p v)
  from upd_thread_node [OF this] obtain t where t: "sy_threads h p = Some t"
    "upd_thread p (\<lambda>t. t\<lparr>th_prev := v\<rparr>) h = Inr (h\<lparr>sy_threads := (sy_threads h)(p \<mapsto> t\<lparr>th_prev := v\<rparr>)\<rparr>)" by blast
  then show ?case using 5 by (intro exI [of _ "h\<lparr>sy_threads := (sy_threads h)(p \<mapsto> t\<lparr>th_prev := v\<rparr>)\<rparr>"])
    (auto simp: prev_field_def thread_nx_def thread_pv_def thread_node_def thread_rest_def unlinked_def fun_eq_iff)
qed

subsection \<open>Locks of processors\<close>

definition upd_desc :: "nat \<Rightarrow> (cpu_desc_t \<Rightarrow> cpu_desc_t) \<Rightarrow> system \<Rightarrow> system" where
  "upd_desc c f st = st\<lparr>sy_cpus := (sy_cpus st)[c := f (sy_cpus st ! c)]\<rparr>"

lemma upd_desc_simps [simp]:
  "sy_this (upd_desc c f st) = sy_this st" "sy_rflags (upd_desc c f st) = sy_rflags st"
  "sy_threads (upd_desc c f st) = sy_threads st" "sy_mem (upd_desc c f st) = sy_mem st"
  "sy_rsp (upd_desc c f st) = sy_rsp st" "sy_regs (upd_desc c f st) = sy_regs st"
  "sy_km (upd_desc c f st) = sy_km st" "sy_cpus_addr (upd_desc c f st) = sy_cpus_addr st"
  "sy_thread_sl (upd_desc c f st) = sy_thread_sl st"
  "length (sy_cpus (upd_desc c f st)) = length (sy_cpus st)"
  "c < length (sy_cpus st) \<Longrightarrow> sy_cpus (upd_desc c f st) ! c = f (sy_cpus st ! c)"
  "d \<noteq> c \<Longrightarrow> sy_cpus (upd_desc c f st) ! d = sy_cpus st ! d"
  "c < length (sy_cpus st) \<Longrightarrow> upd_desc c g (upd_desc c f st) = upd_desc c (\<lambda>d. g (f d)) st"
  by (simp_all add: upd_desc_def)

lemma upd_cpu_desc: "c < length (sy_cpus st) \<Longrightarrow> upd_cpu c f st = Inr (upd_desc c f st)"
  by (simp add: upd_cpu_def upd_desc_def)

lemma lock_cpu_free:
  "c < length (sy_cpus st) \<Longrightarrow> cd_lock (sy_cpus st ! c) = 0 \<Longrightarrow>
   lock_cpu c st = Inr (upd_desc c (\<lambda>d. d\<lparr>cd_lock := 1\<rparr>) st)"
  by (simp add: lock_cpu_def upd_cpu_desc)

lemma lock_cpu_held: "c < length (sy_cpus st) \<Longrightarrow> cd_lock (sy_cpus st ! c) \<noteq> 0 \<Longrightarrow> lock_cpu c st = Inl Spin"
  by (simp add: lock_cpu_def spinlock_lock_held)

lemma cpu_unlock_desc:
  "c < length (sy_cpus st) \<Longrightarrow>
   cpu_unlock c st = Inr (upd_desc c (\<lambda>d. d\<lparr>cd_lock := spinlock_unlock (cd_lock d)\<rparr>) st)"
  by (simp add: cpu_unlock_def upd_cpu_desc)

text \<open>
  Taking and releasing the lock of processor \<open>c\<close> from the running processor, which masks its
  interrupts when \<open>c\<close> is itself.
\<close>

lemma lock_pair:
  assumes "c < length (sy_cpus st)" and "cd_lock (sy_cpus st ! c) = 0" and "c = unat cid"
    and "this = cid \<Longrightarrow> c = sy_this st"
  obtains spl rf where
    "(if this = cid then cpu_lock_splhi st else cpu_lock_id cid st) =
       Inr (c, upd_desc c (\<lambda>d. d\<lparr>cd_lock := 1, cd_spl := spl\<rparr>) (st\<lparr>sy_rflags := rf\<rparr>))"
    "\<And>st2. sy_rflags st2 = rf \<Longrightarrow> c < length (sy_cpus st2) \<Longrightarrow> cd_lock (sy_cpus st2 ! c) = 1 \<Longrightarrow>
       cd_spl (sy_cpus st2 ! c) = spl \<Longrightarrow>
       (if this = cid then cpu_unlock_splx c st2 else cpu_unlock c st2) =
         Inr (upd_desc c (\<lambda>d. d\<lparr>cd_lock := 0\<rparr>) (st2\<lparr>sy_rflags := sy_rflags st\<rparr>))"
proof (cases "this = cid")
  case True
  obtain spl rf where s: "cpu_splhi (sy_rflags st) = (spl, rf)" by (cases "cpu_splhi (sy_rflags st)")
  then have x: "cpu_splx spl rf = sy_rflags st" using splx_splhi [of "sy_rflags st"] by simp
  have "cpu_lock_splhi st = Inr (c, upd_desc c (\<lambda>d. d\<lparr>cd_lock := 1, cd_spl := spl\<rparr>) (st\<lparr>sy_rflags := rf\<rparr>))"
    using assms(1,2,4) True by (simp add: cpu_lock_splhi_def s get_cpu_def lock_cpu_free upd_cpu_desc Let_def)
  moreover have "cpu_unlock_splx c st2 = Inr (upd_desc c (\<lambda>d. d\<lparr>cd_lock := 0\<rparr>) (st2\<lparr>sy_rflags := sy_rflags st\<rparr>))"
    if "sy_rflags st2 = rf" "c < length (sy_cpus st2)" "cd_lock (sy_cpus st2 ! c) = 1" "cd_spl (sy_cpus st2 ! c) = spl" for st2
    using that x by (simp add: cpu_unlock_splx_def cpu_unlock_desc) (simp add: upd_desc_def)
  ultimately show ?thesis using True that by simp
next
  case False
  let ?spl = "cd_spl (sy_cpus st ! c)"
  have "upd_desc c (\<lambda>d. d\<lparr>cd_lock := 1, cd_spl := ?spl\<rparr>) (st\<lparr>sy_rflags := sy_rflags st\<rparr>) = upd_desc c (\<lambda>d. d\<lparr>cd_lock := 1\<rparr>) st"
    by (simp add: upd_desc_def)
  then have "cpu_lock_id cid st =
      Inr (c, upd_desc c (\<lambda>d. d\<lparr>cd_lock := 1, cd_spl := ?spl\<rparr>) (st\<lparr>sy_rflags := sy_rflags st\<rparr>))"
    using assms(1-3) lock_cpu_free [of c st] by (simp add: cpu_lock_id_def Let_def)
  moreover have "cpu_unlock c st2 = Inr (upd_desc c (\<lambda>d. d\<lparr>cd_lock := 0\<rparr>) (st2\<lparr>sy_rflags := sy_rflags st\<rparr>))"
    if "sy_rflags st2 = sy_rflags st" "c < length (sy_cpus st2)" "cd_lock (sy_cpus st2 ! c) = 1" for st2
  proof -
    have "st2\<lparr>sy_rflags := sy_rflags st\<rparr> = st2" using that(1) by (cases st2) simp
    then show ?thesis using that by (simp add: cpu_unlock_desc) (simp add: upd_desc_def)
  qed
  ultimately show ?thesis using False that [of ?spl "sy_rflags st"] by simp
qed

lemma thread_rest_eqD:
  assumes "thread_rest st' = thread_rest st"
  shows "sy_cpus st' = sy_cpus st" "sy_this st' = sy_this st" "sy_rflags st' = sy_rflags st" "sy_mem st' = sy_mem st"
    "sy_km st' = sy_km st" "sy_rsp st' = sy_rsp st" "sy_regs st' = sy_regs st"
    "map_option unlinked (sy_threads st' p) = map_option unlinked (sy_threads st p)"
proof -
  note e = arg_cong [OF assms]
  show "sy_cpus st' = sy_cpus st" "sy_this st' = sy_this st" "sy_rflags st' = sy_rflags st" "sy_mem st' = sy_mem st"
    "sy_km st' = sy_km st" "sy_rsp st' = sy_rsp st" "sy_regs st' = sy_regs st"
    using e [of sy_cpus] e [of sy_this] e [of sy_rflags] e [of sy_mem] e [of sy_km] e [of sy_rsp] e [of sy_regs]
    by (simp_all add: thread_rest_def)
  show "map_option unlinked (sy_threads st' p) = map_option unlinked (sy_threads st p)"
    using e [of "\<lambda>s. sy_threads s p"] by (simp add: thread_rest_def)
qed

text \<open>The threads of processor \<open>c\<close>, in the order of its queue.\<close>

definition cpu_queue :: "system \<Rightarrow> nat \<Rightarrow> u64 list \<Rightarrow> bool" where
  "cpu_queue st c xs \<longleftrightarrow> ring (thread_nx st) (thread_pv st) (thread_node st) (cd_threads (sy_cpus st ! c)) xs"

lemma unlinked_eqD:
  assumes "unlinked a = unlinked b"
  shows "th_state a = th_state b" "th_id a = th_id b" "th_cpu_id a = th_cpu_id b" "th_ctx a = th_ctx b"
    "th_cnt a = th_cnt b" "th_pri a = th_pri b" "th_flags a = th_flags b" "th_sleep_time a = th_sleep_time b"
    "th_ticks a = th_ticks b" "th_next_wait a = th_next_wait b" "th_stack a = th_stack b"
  using assms by (cases a; cases b; simp add: unlinked_def)+

lemma cpu_queue_cong:
  assumes "sy_cpus st' ! c = sy_cpus st ! c \<or> cd_threads (sy_cpus st' ! c) = cd_threads (sy_cpus st ! c)"
    and "\<forall>x\<in>set xs. sy_threads st' x = sy_threads st x"
  shows "cpu_queue st' c xs \<longleftrightarrow> cpu_queue st c xs"
proof -
  have "thread_nx st' x = thread_nx st x" "thread_pv st' x = thread_pv st x" "thread_node st' x = thread_node st x"
    if "x \<in> set xs" for x using that assms(2) by (simp_all add: thread_nx_def thread_pv_def thread_node_def)
  moreover from this have "linked (thread_nx st') (thread_pv st') (xs @ [hd xs]) = linked (thread_nx st) (thread_pv st) (xs @ [hd xs])"
    if "xs \<noteq> []" using that by (intro linked_cong) (auto simp: butlast_append tl_append split: list.splits)
  ultimately show ?thesis using assms(1) by (auto simp: cpu_queue_def ring_def cyclic_def)
qed

text \<open>The stack of a new thread, read from the top down.\<close>

lemma entry_stack:
  fixes top r :: u64 and c :: switch_context_t and f :: isr_frame_t and m0 :: "u64 \<Rightarrow> u64"
  defines "sp \<equiv> top - sizeof_isr_frame_t - 8 - sizeof_switch_context_t"
  defines "m \<equiv> put_words sp (ctx_words c) ((put_words (top - sizeof_isr_frame_t) (frame_words f) m0)(top - sizeof_isr_frame_t - 8 := r))"
  shows "read_ctx sp m = c" and "m (sp + sizeof_switch_context_t) = r"
    and "k < 14 \<Longrightarrow> m (sp + sizeof_switch_context_t + 8 + 8 * of_nat k) = frame_words f ! k"
proof -
  show "read_ctx sp m = c" unfolding m_def by (rule read_ctx_put)
  have l: "length (ctx_words c) = 9" "length (frame_words f) = 14" by (simp_all add: ctx_words_def frame_words_def)
  have out: "m (sp + 8 * of_nat j) = ((put_words (top - sizeof_isr_frame_t) (frame_words f) m0)(top - sizeof_isr_frame_t - 8 := r)) (sp + 8 * of_nat j)"
    if "9 \<le> j" "j < 30" for j
    unfolding m_def
  proof (rule put_words_other, intro allI impI)
    fix k assume "k < length (ctx_words c)"
    then show "sp + 8 * of_nat j \<noteq> sp + 8 * of_nat k" using eight_inject [of j k sp] that by (simp add: l)
  qed
  have e: "sp + sizeof_switch_context_t = sp + 8 * of_nat 9" "top - sizeof_isr_frame_t - 8 = sp + 8 * of_nat 9"
    "top - sizeof_isr_frame_t = sp + 8 * of_nat 10"
    by (simp_all add: sp_def sizeof_switch_context_t_def sizeof_isr_frame_t_def)
  show "m (sp + sizeof_switch_context_t) = r" unfolding e(1) using out [of 9] unfolding e(2) by simp
  assume k: "k < 14"
  have a: "sp + sizeof_switch_context_t + 8 + 8 * of_nat k = sp + 8 * of_nat (10 + k)"
    "sp + 8 * of_nat (10 + k) = (top - sizeof_isr_frame_t) + 8 * of_nat k"
    unfolding e(3) by (simp_all add: sizeof_switch_context_t_def algebra_simps)
  have "sp + 8 * of_nat (10 + k) \<noteq> sp + 8 * of_nat 9" using eight_inject [of "10 + k" 9 sp] k by simp
  then have "m (sp + 8 * of_nat (10 + k)) = put_words (top - sizeof_isr_frame_t) (frame_words f) m0 (sp + 8 * of_nat (10 + k))"
    using out [of "10 + k"] k unfolding e(2) by simp
  also have "\<dots> = frame_words f ! k" unfolding a(2) by (rule put_words_nth) (use k l in simp_all)
  finally show "m (sp + sizeof_switch_context_t + 8 + 8 * of_nat k) = frame_words f ! k" unfolding a(1) .
qed

section \<open>Properties\<close>

text \<open>Appending a thread to the queue of a processor, whose descriptor then gets the new head.\<close>

lemma enqueue_thread:
  assumes c: "c < length (sy_cpus st)" and t: "t \<noteq> 0" "sy_threads st t = Some th" and q: "cpu_queue st c xs" "t \<notin> set xs"
  obtains head st' t' where "queue_push_back (cd_threads (sy_cpus st ! c)) t next_field prev_field st = Inr (head, st')"
    "cpu_queue (upd_desc c (\<lambda>d. d\<lparr>cd_threads := head\<rparr>) st') c (xs @ [t])" "thread_rest st' = thread_rest st"
    "sy_threads st' t = Some t'" "unlinked t' = unlinked th"
proof -
  have "threads.represents st (cd_threads (sy_cpus st ! c)) xs" "thread_node st t"
    using q(1) t by (simp_all add: threads.represents_def cpu_queue_def thread_node_def)
  then obtain head st' where st': "queue_push_back (cd_threads (sy_cpus st ! c)) t next_field prev_field st = Inr (head, st')"
    "threads.represents st' head (xs @ [t])" "thread_rest st' = thread_rest st"
    using threads.queue_push_back_ring [OF _ _ q(2)] by (fastforce simp: threads.touches_def)
  note r = thread_rest_eqD [OF st'(3)]
  have "map_option unlinked (sy_threads st' t) = Some (unlinked th)" using r(8) [of t] t(2) by simp
  then obtain t' where "sy_threads st' t = Some t'" "unlinked t' = unlinked th" by auto
  moreover have "cpu_queue (upd_desc c (\<lambda>d. d\<lparr>cd_threads := head\<rparr>) st') c (xs @ [t])"
    using st'(2) c thread_store_cong [of "upd_desc c (\<lambda>d. d\<lparr>cd_threads := head\<rparr>) st'" st']
    by (simp add: cpu_queue_def threads.represents_def upd_desc_def r(1))
  ultimately show ?thesis using that st'(1,3) by blast
qed

lemma thread_enlist_result:
  assumes t: "t \<noteq> 0" "sy_threads st t = Some th" and c: "unat cid < length (sy_cpus st)" "sy_this st < length (sy_cpus st)"
    and cur: "cd_apic_id (sy_cpus st ! sy_this st) = of_nat (sy_this st)" "sy_this st < 2 ^ 32"
    and lock: "cd_lock (sy_cpus st ! unat cid) = 0" and q: "cpu_queue st (unat cid) xs" "t \<notin> set xs"
  obtains st' t' where "thread_enlist cid t st = Inr st'" "cpu_queue st' (unat cid) (xs @ [t])" "cd_lock (sy_cpus st' ! unat cid) = 0"
    "sy_rflags st' = sy_rflags st" "sy_mem st' = sy_mem st" "sy_threads st' t = Some t'"
    "unlinked t' = unlinked (th\<lparr>th_id := cd_id_cnt (sy_cpus st ! unat cid) + 1, th_cpu_id := cd_apic_id (sy_cpus st ! unat cid)\<rparr>)"
proof -
  let ?c = "unat cid"
  have gid: "get_cpu_id st = Inr (of_nat (sy_this st))" using c(2) cur(1) by (simp add: get_cpu_id_def get_cpu_def)
  have thisc: "?c = sy_this st" if "of_nat (sy_this st) = cid"
    using that unat_of_nat_lt [of "sy_this st", where 'a = 32] cur(2) by auto
  obtain spl rf where lk: "(if of_nat (sy_this st) = cid then cpu_lock_splhi st else cpu_lock_id cid st) =
       Inr (?c, upd_desc ?c (\<lambda>d. d\<lparr>cd_lock := 1, cd_spl := spl\<rparr>) (st\<lparr>sy_rflags := rf\<rparr>))"
    and ul: "\<And>st3. sy_rflags st3 = rf \<Longrightarrow> ?c < length (sy_cpus st3) \<Longrightarrow> cd_lock (sy_cpus st3 ! ?c) = 1 \<Longrightarrow>
       cd_spl (sy_cpus st3 ! ?c) = spl \<Longrightarrow>
       (if of_nat (sy_this st) = cid then cpu_unlock_splx ?c st3 else cpu_unlock ?c st3) =
         Inr (upd_desc ?c (\<lambda>d. d\<lparr>cd_lock := 0\<rparr>) (st3\<lparr>sy_rflags := sy_rflags st\<rparr>))"
    using lock_pair [of ?c st cid "of_nat (sy_this st)"] c(1) lock thisc by auto
  let ?s4 = "upd_desc ?c (\<lambda>d. d\<lparr>cd_lock := 1, cd_spl := spl, cd_id_cnt := cd_id_cnt d + 1\<rparr>) (st\<lparr>sy_rflags := rf\<rparr>)"
    and ?th = "th\<lparr>th_id := cd_id_cnt (sy_cpus st ! ?c) + 1, th_cpu_id := cd_apic_id (sy_cpus st ! ?c)\<rparr>"
  define s5 where "s5 = ?s4\<lparr>sy_threads := (sy_threads st)(t \<mapsto> ?th)\<rparr>"
  have s5: "upd_thread t (\<lambda>x. x\<lparr>th_id := cd_id_cnt (sy_cpus st ! ?c) + 1, th_cpu_id := cd_apic_id (sy_cpus st ! ?c)\<rparr>) ?s4 = Inr s5"
    using t by (simp add: upd_thread_def get_thread_def s5_def)
  have c5: "sy_cpus s5 ! ?c = (sy_cpus st ! ?c)\<lparr>cd_lock := 1, cd_spl := spl, cd_id_cnt := cd_id_cnt (sy_cpus st ! ?c) + 1\<rparr>"
    "?c < length (sy_cpus s5)" and t5: "sy_threads s5 t = Some ?th" using c(1) by (simp_all add: s5_def upd_desc_def)
  have q5: "cpu_queue s5 ?c xs" using q cpu_queue_cong [of s5 ?c st xs] c5 by (auto simp: s5_def)
  obtain head s6 t' where s6: "queue_push_back (cd_threads (sy_cpus s5 ! ?c)) t next_field prev_field s5 = Inr (head, s6)"
    "cpu_queue (upd_desc ?c (\<lambda>d. d\<lparr>cd_threads := head\<rparr>) s6) ?c (xs @ [t])" "thread_rest s6 = thread_rest s5"
    and t': "sy_threads s6 t = Some t'" "unlinked t' = unlinked ?th"
    by (rule enqueue_thread [OF c5(2) t(1) t5 q5 q(2)])
  note r6 = thread_rest_eqD [OF s6(3)]
  define s7 where "s7 = upd_desc ?c (\<lambda>d. d\<lparr>cd_threads := head\<rparr>) s6"
  have c7: "?c < length (sy_cpus s7)" "sy_cpus s7 ! ?c = (sy_cpus s5 ! ?c)\<lparr>cd_threads := head\<rparr>" "sy_rflags s7 = rf"
    using c5(2) by (simp_all add: s7_def r6) (simp add: s5_def)
  let ?s8 = "upd_desc ?c (\<lambda>d. d\<lparr>cd_lock := 0\<rparr>) (s7\<lparr>sy_rflags := sy_rflags st\<rparr>)"
  have u7: "(if of_nat (sy_this st) = cid then cpu_unlock_splx ?c s7 else cpu_unlock ?c s7) = Inr ?s8"
    by (rule ul) (simp_all add: c7 c5(1))
  have "thread_enlist cid t st = Inr ?s8" using c(1) lk u7 s6(1) s5 s7_def
    by (simp add: thread_enlist_def gid upd_cpu_desc r6 c5 split del: if_split cong: if_cong)
  moreover have "sy_mem ?s8 = sy_mem st" "sy_threads ?s8 = sy_threads s6" by (simp_all add: s7_def r6 s5_def)
  moreover have "sy_cpus ?s8 ! ?c = (sy_cpus s7 ! ?c)\<lparr>cd_lock := 0\<rparr>" using c7(1) by (simp add: upd_desc_def)
  moreover have "cpu_queue ?s8 ?c (xs @ [t])"
    using s6(2) cpu_queue_cong [of ?s8 ?c s7 "xs @ [t]"] c7(1) by (simp add: s7_def upd_desc_def)
  ultimately show ?thesis using that [of ?s8 t'] t' by simp
qed


text \<open>
  C17. \<^verbatim>\<open>context_switch\<close> away from a thread and later back to the context it saved: the thread
  continues with the registers, the return address and the stack pointer it had, whatever ran in
  between, as long as nothing wrote the nine words of the saved context and the context saved by
  the switch back lies elsewhere.
\<close>

theorem context_switch_roundtrip:
  assumes "context_switch a ctx st = Inr st1" and "sy_threads st1 a = Some t"
    and "\<forall>k<9. sy_mem st2 (th_ctx t + 8 * of_nat k) = sy_mem st1 (th_ctx t + 8 * of_nat k)"
    and "\<forall>k<9. \<forall>j<9. th_ctx t + 8 * of_nat k \<noteq> sy_rsp st2 - sizeof_switch_context_t + 8 * of_nat j"
    and "context_switch b (th_ctx t) st2 = Inr st3"
  shows "sy_regs st3 = sy_regs st \<and> sy_rsp st3 = sy_rsp st"
proof -
  let ?sp = "sy_rsp st - sizeof_switch_context_t" and ?sp2 = "sy_rsp st2 - sizeof_switch_context_t"
  have 1: "th_ctx t = ?sp" "sy_mem st1 = put_words ?sp (ctx_words (sy_regs st)) (sy_mem st)"
    using assms(1,2) by (auto simp: context_switch_def Let_def outcome)
  have 3: "sy_regs st3 = read_ctx ?sp (put_words ?sp2 (ctx_words (sy_regs st2)) (sy_mem st2))"
    "sy_rsp st3 = ?sp + sizeof_switch_context_t"
    using assms(5) 1(1) by (auto simp: context_switch_def Let_def outcome)
  have "put_words ?sp2 (ctx_words (sy_regs st2)) (sy_mem st2) (?sp + 8 * of_nat k) = sy_mem st2 (?sp + 8 * of_nat k)"
    if "k < 9" for k
  proof (rule put_words_other)
    have l: "length (ctx_words (sy_regs st2)) = 9" by (simp add: ctx_words_def)
    show "\<forall>j<length (ctx_words (sy_regs st2)). ?sp + 8 * of_nat k \<noteq> ?sp2 + 8 * of_nat j"
      unfolding l using assms(4) that 1(1) by auto
  qed
  then have "read_ctx ?sp (put_words ?sp2 (ctx_words (sy_regs st2)) (sy_mem st2)) = read_ctx ?sp (sy_mem st1)"
    using assms(3) 1(1) by (intro read_ctx_cong) simp
  then show ?thesis using 3 1(2) read_ctx_put by simp
qed

definition demo_thread :: thread_t where
  "demo_thread = \<lparr>th_next = 0, th_prev = 0, th_next_wait = 0, th_ctx = 0x9000, th_stack = 0, th_ticks = 0, th_id = 0,
     th_cpu_id = 0, th_state = 0, th_sleep_time = 0, th_flags = 0, th_pri = 8, th_cnt = 8\<rparr>"

definition demo_system :: system where
  "demo_system = \<lparr>sy_cpus = replicate MAX_CPUS \<lparr>cd_threads = 0, cd_cur_thread = 0, cd_ticks = 0, cd_lock = 0,
       cd_apic_id = 0, cd_flags = 0, cd_id_cnt = 0, cd_spl = 0\<rparr>,
     sy_cpus_addr = 0xFFFFFFFF80100000, sy_this = 0, sy_rflags = RFLAGS_IF, sy_rsp = 0x8000,
     sy_regs = entry_ctx 0x1234, sy_mem = (\<lambda>_. 0), sy_threads = (\<lambda>_. Some demo_thread),
     sy_km = kmalloc_statics (boot_kstate 0xFFFFFFFF80123456), sy_thread_sl = None\<rparr>"

theorem context_switch_roundtrip_witness:
  "\<exists>st1 st3. context_switch 16 0x9000 demo_system = Inr st1 \<and> context_switch 32 0x7FB8 st1 = Inr st3 \<and>
     sy_regs st3 = entry_ctx 0x1234 \<and> sy_rsp st3 = 0x8000"
proof -
  obtain st1 where st1: "context_switch 16 0x9000 demo_system = Inr st1" "sy_threads st1 16 = Some (demo_thread\<lparr>th_ctx := 0x7FB8\<rparr>)"
    "sy_threads st1 32 = Some demo_thread" "sy_rsp st1 = 0x9048"
    by (simp add: context_switch_def Let_def upd_thread_def get_thread_def demo_system_def sizeof_switch_context_t_def)
  obtain st3 where st3: "context_switch 32 0x7FB8 st1 = Inr st3"
    using st1(3) by (simp add: context_switch_def Let_def upd_thread_def get_thread_def)
  have d: "(0x7FB8 :: u64) + 8 * of_nat k \<noteq> 0x9000 + 8 * of_nat j" if "k < 9" "j < 9" for k j :: nat
  proof -
    have "unat (8 * of_nat k :: u64) = 8 * k" "unat (8 * of_nat j :: u64) = 8 * j"
      using unat_of_nat_lt [of "8 * k", where 'a = 64] unat_of_nat_lt [of "8 * j", where 'a = 64] that by simp_all
    then have "unat ((0x7FB8 :: u64) + 8 * of_nat k) = 0x7FB8 + 8 * k" "unat ((0x9000 :: u64) + 8 * of_nat j) = 0x9000 + 8 * j"
      using that by (subst unat_plus_lt; simp)+
    moreover have "0x7FB8 + 8 * k \<noteq> 0x9000 + 8 * j" using that by linarith
    ultimately show ?thesis by metis
  qed
  have "sy_regs st3 = sy_regs demo_system \<and> sy_rsp st3 = sy_rsp demo_system"
  proof (rule context_switch_roundtrip [OF st1(1,2), where b = 32 and ?st2.0 = st1])
    show "\<forall>k<9. \<forall>j<9. th_ctx (demo_thread\<lparr>th_ctx := 0x7FB8\<rparr>) + 8 * of_nat k \<noteq>
        sy_rsp st1 - sizeof_switch_context_t + 8 * of_nat j"
      using d by (simp add: st1(4) sizeof_switch_context_t_def)
  qed (use st3 in simp_all)
  then show ?thesis using st1(1) st3 by (simp add: demo_system_def)
qed

lemma demo_root:
  obtains km t km1 stack km2 where "kmalloc_init (kmalloc_statics (boot_kstate 0xFFFFFFFF80123456)) = Inr km"
    "kmalloc_alloc km = Inr (t, km1)" "t \<noteq> 0" "kmalloc_alloc km1 = Inr (stack, km2)"
proof -
  have "bi_kernel_slack (ks_boot (boot_kstate 0xFFFFFFFF80123456)) = 0x123456"
    by (simp add: boot_kstate_def kernel_init_def Let_def KERNEL_BASE_def)
  then have "round_up (unat (bi_kernel_slack (ks_boot (boot_kstate 0xFFFFFFFF80123456)))) (2 ^ 21) + 2 ^ 21 \<le> 2 ^ 30"
    by (simp add: round_up_def)
  from kmalloc_init_result [OF boot_kstate_ok this] obtain p s km where
    km: "kmalloc_init (kmalloc_statics (boot_kstate 0xFFFFFFFF80123456)) = Inr km"
    "slab_list_rep (km_heap km) sl_root [KERNEL_VADDR p] []" "payload (km_heap km) (KERNEL_VADDR p) = Some s"
    "set (free_chunks s) = {i. 0 < unat i \<and> unat i < 128}" by blast
  let ?x = "KERNEL_VADDR p"
  have two: "1 \<in> set (free_chunks s)" "2 \<in> set (free_chunks s)" using km(4) by auto
  then obtain i "is" where fc: "free_chunks s = i # is" by (cases "free_chunks s") auto
  have ne: "tl (free_chunks s) \<noteq> []" using fc two by auto
  obtain s1 h1 where h1: "payload (km_heap km) ?x = Some s1"
    "slab_list_alloc sl_root (km_heap km) = Inr (chunk_addr ?x s1 (hd (free_chunks s1)), h1)"
    "slab_list_rep h1 sl_root (if tl (free_chunks s1) = [] then [] else [?x]) (if tl (free_chunks s1) = [] then [?x] else [])"
    by (rule slab_list_alloc_result [OF km(2)])
  then have s1: "s1 = s" "slab_list_rep h1 sl_root [?x] []" using km(3) ne by auto
  obtain a2 h2 where h2: "slab_list_alloc sl_root h1 = Inr (a2, h2)" by (rule slab_list_alloc_result [OF s1(2)])
  have inv: "slab_inv (?x, s)" using rep_good [OF km(2), of ?x] km(3) by (auto simp: slab_good_def)
  then have "chunk_ok s (hd (free_chunks s))" using fc by (simp add: slab_inv_def)
  then have "chunk_addr ?x s (hd (free_chunks s)) \<in> slab_handles (?x, s)" by (simp add: slab_handles_def)
  then have "chunk_addr ?x s (hd (free_chunks s)) \<noteq> 0" using slabs.null_handle [OF inv] by auto
  then show ?thesis using km(1) h1(2) h2 s1(1)
    by (intro that [of km "chunk_addr ?x s (hd (free_chunks s))" "km\<lparr>km_heap := h1\<rparr>" a2 "km\<lparr>km_heap := h2\<rparr>"])
      (simp_all add: kmalloc_alloc_def)
qed


end
