(* ===== verification/Sched.thy ===== *)
theory Sched
  imports Threads
begin

text \<open>
  The scheduler of \<^verbatim>\<open>sched.c\<close> and the timer handler of \<^verbatim>\<open>cpu.c\<close> that drives it. The threads of a
  processor form a ring whose head \<^verbatim>\<open>cpu->threads\<close> is its idle thread; \<^verbatim>\<open>cnt\<close> is what is left of a
  thread's time slice.

  A loop around the ring follows \<^verbatim>\<open>next\<close> until it is back at its start and never returns when it
  does not come back; \<open>ring_loop\<close> is then \<open>None\<close> and the routine is \<open>Spin\<close>. \<^verbatim>\<open>sched_next\<close> tells whether
  it switched: if so, the thread that called it has stopped inside, and the code after the call
  runs when some processor switches back to it.
\<close>

partial_function (option) ring_loop ::
  "(u64 \<Rightarrow> 's \<Rightarrow> (u64 \<times> 's) outcome) \<Rightarrow> u64 \<Rightarrow> u64 \<Rightarrow> 's \<Rightarrow> 's outcome option" where
  "ring_loop body stop t s =
     (case body t s of
        Inl e \<Rightarrow> Some (Inl e)
      | Inr (t', s') \<Rightarrow> if t' = stop then Some (Inr s') else ring_loop body stop t' s')"

definition returns :: "'a outcome option \<Rightarrow> 'a outcome" where
  "returns r = (case r of None \<Rightarrow> Inl Spin | Some x \<Rightarrow> x)"

definition setup_idle_thread :: "nat \<Rightarrow> system \<Rightarrow> (u64 \<times> system) outcome" where
  "setup_idle_thread c st =
     rbind (arr_get (sy_cpus st) c) (\<lambda>cpu.
     let thread = idle_thread c st;
         t = \<lparr>th_next = 0, th_prev = 0, th_next_wait = 0, th_ctx = 0, th_stack = 0, th_ticks = 0, th_id = 0,
              th_cpu_id = cd_apic_id cpu, th_state = THREAD_STATE_RUNNING, th_sleep_time = 0, th_flags = 0,
              th_pri = THREAD_DEFAULT_PRI, th_cnt = THREAD_DEFAULT_PRI\<rparr> in
     Inr (thread, st\<lparr>sy_threads := (sy_threads st)(thread \<mapsto> t)\<rparr>))"

definition sched_init :: "system \<Rightarrow> system outcome" where
  "sched_init st = thread_init st"

definition sched_init_cpu :: "nat \<Rightarrow> system \<Rightarrow> system outcome" where
  "sched_init_cpu c st =
     rbind (setup_idle_thread c st) (\<lambda>(t, st).
     rbind (arr_get (sy_cpus st) c) (\<lambda>cpu.
     rbind (queue_push_back (cd_threads cpu) t next_field prev_field st) (\<lambda>(head, st).
     upd_cpu c (\<lambda>d. d\<lparr>cd_threads := head, cd_cur_thread := t\<rparr>) st)))"

text \<open>One thread in the body of \<^verbatim>\<open>sched_check_sleeping\<close>, with the number of wakeups it adds.\<close>

definition check_sleeping :: "thread_t \<Rightarrow> thread_t \<times> int" where
  "check_sleeping t =
     (if th_state t = THREAD_STATE_SLEEPING \<and> th_flags t AND THREAD_FLAG_SLEEP_TIMER \<noteq> 0 then
        let t = t\<lparr>th_sleep_time := th_sleep_time t - 1\<rparr> in
        if th_sleep_time t = 0 then
          (t\<lparr>th_state := THREAD_STATE_RUNNING, th_flags := th_flags t AND NOT THREAD_FLAG_SLEEP_TIMER,
             th_cnt := th_pri t\<rparr>, 1)
        else (t, 0)
      else (t, 0))"

definition sched_check_sleeping :: "u64 \<Rightarrow> system \<Rightarrow> (int \<times> system) outcome" where
  "sched_check_sleeping begin st =
     returns (ring_loop (\<lambda>p (num_wakeups, st).
       rbind (get_thread p st) (\<lambda>t.
       let (t', w) = check_sleeping t in
       rbind (c_int (num_wakeups + w)) (\<lambda>num_wakeups.
       rbind (upd_thread p (\<lambda>_. t') st) (\<lambda>st.
       rbind (get_thread p st) (\<lambda>t.
       Inr (th_next t, num_wakeups, st)))))) begin begin (0, st))"

definition sched_find :: "u64 \<Rightarrow> system \<Rightarrow> u64 outcome" where
  "sched_find begin st =
     rbind (returns (ring_loop (\<lambda>p (cnt, next_thread).
       rbind (get_thread p st) (\<lambda>t.
       let (cnt, next_thread) =
         (if th_state t = THREAD_STATE_RUNNING \<and> th_cnt t > cnt then (th_cnt t, p) else (cnt, next_thread)) in
       Inr (th_next t, cnt, next_thread))) begin begin (-1, begin))) (\<lambda>(_, next_thread).
     Inr next_thread)"

text \<open>The loop of \<^verbatim>\<open>sched_next\<close> that hands out new time slices to all but the idle thread.\<close>

definition refill :: "u64 \<Rightarrow> u64 \<Rightarrow> system \<Rightarrow> system outcome" where
  "refill first threads st =
     (if first = threads then Inr st
      else returns (ring_loop (\<lambda>p st.
        rbind (get_thread p st) (\<lambda>t.
        rbind (c_int (th_cnt t div 2 + th_pri t)) (\<lambda>cnt.
        rbind (upd_thread p (\<lambda>t. t\<lparr>th_cnt := cnt\<rparr>) st) (\<lambda>st.
        rbind (get_thread p st) (\<lambda>t.
        Inr (th_next t, st)))))) threads first st))"

definition sched_next :: "nat \<Rightarrow> system \<Rightarrow> (bool \<times> system) outcome" where
  "sched_next c st =
     rbind (arr_get (sy_cpus st) c) (\<lambda>cpu.
     let cur_thread = cd_cur_thread cpu; threads = cd_threads cpu in
     rbind (get_thread threads st) (\<lambda>th.
     rbind (sched_find (th_next th) st) (\<lambda>next_thread.
     rbind (get_thread next_thread st) (\<lambda>nt.
     rbind (if th_cnt nt = 0 then
              rbind (refill (th_next th) threads st) (\<lambda>st.
              rbind (get_thread threads st) (\<lambda>th.
              rbind (sched_find (th_next th) st) (\<lambda>next_thread.
              Inr (next_thread, st))))
            else Inr (next_thread, st)) (\<lambda>(next_thread, st).
     if next_thread \<noteq> cur_thread then
       rbind (upd_cpu c (\<lambda>d. d\<lparr>cd_cur_thread := next_thread\<rparr>) st) (\<lambda>st.
       rbind (upd_thread cur_thread (\<lambda>t. t\<lparr>th_ticks := th_ticks t + 1\<rparr>) st) (\<lambda>st.
       rbind (get_thread next_thread st) (\<lambda>nt.
       rbind (context_switch cur_thread (th_ctx nt) st) (\<lambda>st.
       Inr (True, st)))))
     else Inr (False, st))))))"

definition sched_tick :: "nat \<Rightarrow> system \<Rightarrow> (bool \<times> system) outcome" where
  "sched_tick c st =
     rbind (arr_get (sy_cpus st) c) (\<lambda>cpu.
     let threads = cd_threads cpu in
     rbind (get_thread threads st) (\<lambda>th.
     rbind (sched_check_sleeping (th_next th) st) (\<lambda>(_, st).
     let cur_thread = cd_cur_thread cpu in
     rbind (upd_thread cur_thread (\<lambda>t. t\<lparr>th_ticks := th_ticks t + 1\<rparr>) st) (\<lambda>st.
     rbind (get_thread cur_thread st) (\<lambda>t.
     rbind (c_int (th_cnt t - 1)) (\<lambda>cnt.
     rbind (upd_thread cur_thread (\<lambda>t. t\<lparr>th_cnt := cnt\<rparr>) st) (\<lambda>st.
     if cnt > 0 then Inr (False, st)
     else
       rbind (upd_thread cur_thread (\<lambda>t. t\<lparr>th_cnt := 0\<rparr>) st) (\<lambda>st.
       sched_next c st))))))))"

definition sched_yield_locked :: "nat \<Rightarrow> system \<Rightarrow> (bool \<times> system) outcome" where
  "sched_yield_locked c st =
     rbind (arr_get (sy_cpus st) c) (\<lambda>cpu.
     rbind (upd_thread (cd_cur_thread cpu) (\<lambda>t. t\<lparr>th_state := THREAD_STATE_SLEEPING\<rparr>) st) (\<lambda>st.
     sched_next c st))"

definition sched_yield :: "system \<Rightarrow> (bool \<times> system) outcome" where
  "sched_yield st =
     rbind (cpu_lock_splhi st) (\<lambda>(c, st).
     rbind (sched_yield_locked c st) (\<lambda>(switched, st).
     if switched then Inr (True, st) else rbind (cpu_unlock_splx c st) (\<lambda>st. Inr (False, st))))"

definition sched_sleep :: "u32 \<Rightarrow> system \<Rightarrow> (bool \<times> system) outcome" where
  "sched_sleep ms st =
     rbind (cpu_lock_splhi st) (\<lambda>(c, st).
     rbind (arr_get (sy_cpus st) c) (\<lambda>cpu.
     let cur_thread = cd_cur_thread cpu in
     rbind (if cur_thread \<noteq> cd_threads cpu then
              rbind (upd_thread cur_thread (\<lambda>t. t\<lparr>th_state := THREAD_STATE_SLEEPING, th_sleep_time := ms,
                       th_flags := th_flags t OR THREAD_FLAG_SLEEP_TIMER\<rparr>) st) (\<lambda>st.
              sched_next c st)
            else Inr (False, st)) (\<lambda>(switched, st).
     if switched then Inr (True, st) else rbind (cpu_unlock_splx c st) (\<lambda>st. Inr (False, st)))))"

text \<open>What a thread that stopped in \<^verbatim>\<open>sched_yield\<close> or \<^verbatim>\<open>sched_sleep\<close> does when it is switched to.\<close>

definition sched_resume :: "nat \<Rightarrow> system \<Rightarrow> system outcome" where
  "sched_resume c st = cpu_unlock_splx c st"

definition timer_irq_handler :: "system \<Rightarrow> (bool \<times> system) outcome" where
  "timer_irq_handler st =
     rbind (cpu_lock st) (\<lambda>(c, st).
     rbind (upd_cpu c (\<lambda>d. d\<lparr>cd_ticks := cd_ticks d + 1\<rparr>) st) (\<lambda>st.
     rbind (sched_tick c st) (\<lambda>(switched, st).
     if switched then Inr (True, st) else rbind (cpu_unlock c st) (\<lambda>st. Inr (False, st)))))"

definition sched_dump :: "system \<Rightarrow> ((u32 \<times> u64) list \<times> system) outcome" where
  "sched_dump st =
     rbind (cpu_lock_splhi st) (\<lambda>(c, st).
     rbind (arr_get (sy_cpus st) c) (\<lambda>cpu.
     let threads = cd_threads cpu in
     rbind (returns (ring_loop (\<lambda>p out.
       rbind (get_thread p st) (\<lambda>t. Inr (th_next t, out @ [(th_id t, th_ticks t)]))) threads threads [])) (\<lambda>out.
     rbind (cpu_unlock_splx c st) (\<lambda>st.
     Inr (out, st)))))"

subsection \<open>Loops around the ring\<close>

lemma ring_loop_rule:
  assumes "xs \<noteq> []" and "stop \<notin> set (tl xs)" and "I 0 s"
    and step: "\<And>i s. i < length xs \<Longrightarrow> I i s \<Longrightarrow>
      \<exists>s'. body (xs ! i) s = Inr (if Suc i < length xs then xs ! Suc i else stop, s') \<and> I (Suc i) s'"
  shows "\<exists>s'. ring_loop body stop (hd xs) s = Some (Inr s') \<and> I (length xs) s'"
proof -
  have "\<exists>s'. ring_loop body stop (xs ! i) s = Some (Inr s') \<and> I (length xs) s'" if "i < length xs" "I i s" for i s
    using that
  proof (induction "length xs - i" arbitrary: i s)
    case (Suc n)
    obtain s' where s': "body (xs ! i) s = Inr (if Suc i < length xs then xs ! Suc i else stop, s')" "I (Suc i) s'"
      using step [OF Suc.prems] by blast
    show ?case
    proof (cases "Suc i < length xs")
      case True
      then have "xs ! Suc i \<in> set (tl xs)" by (metis Suc_lessE list.sel(3) list.size(3) neq_Nil_conv not_less0 nth_Cons_Suc nth_mem length_Cons Suc_less_eq assms(1))
      then have "xs ! Suc i \<noteq> stop" using assms(2) by auto
      then show ?thesis using Suc.hyps(1) [of "Suc i" s'] Suc.hyps(2) True s' by (subst ring_loop.simps) simp
    next
      case False
      then have "Suc i = length xs" using Suc.prems by simp
      then show ?thesis using s' by (subst ring_loop.simps) simp
    qed
  qed simp
  from this [of 0 s] assms(1,3) show ?thesis by (simp add: hd_conv_nth)
qed

lemma ring_next_nth:
  assumes "ring nx pv node head xs" and "i < length xs"
  shows "nx (xs ! i) = (if Suc i < length xs then xs ! Suc i else hd xs)"
proof -
  have xs: "xs = take i xs @ xs ! i # drop (Suc i) xs" using assms(2) by (rule id_take_nth_drop)
  have "nx (xs ! i) = hd (drop (Suc i) xs @ take i xs @ [xs ! i])"
    using ring_next(1) [of nx pv node head "take i xs" "xs ! i" "drop (Suc i) xs"] assms(1) xs by simp
  also have "\<dots> = (if Suc i < length xs then xs ! Suc i else hd xs)"
  proof (cases "Suc i < length xs")
    case True
    then have "drop (Suc i) xs \<noteq> []" by simp
    then show ?thesis using True by (simp add: hd_drop_conv_nth)
  next
    case False
    then have i: "Suc i = length xs" using assms(2) by simp
    then have "take i xs @ [xs ! i] = xs" by (metis assms(2) order_refl take_Suc_conv_app_nth take_all)
    then show ?thesis using i by simp
  qed
  finally show ?thesis .
qed

text \<open>
  The queue of a processor is its idle thread followed by the others; the scheduler goes round it
  starting after the idle thread.
\<close>

definition round_ok :: "system \<Rightarrow> u64 list \<Rightarrow> bool" where
  "round_ok st zs \<longleftrightarrow> zs \<noteq> [] \<and> distinct zs \<and> (\<forall>i<length zs. thread_node st (zs ! i) \<and>
     thread_nx st (zs ! i) = (if Suc i < length zs then zs ! Suc i else hd zs))"

lemma queue_round:
  assumes "cpu_queue st c (idle # ys)"
  shows "cd_threads (sy_cpus st ! c) = idle" and "round_ok st (ys @ [idle])"
    and "thread_nx st idle = hd (ys @ [idle])" and "thread_node st idle"
proof -
  have r: "ring (thread_nx st) (thread_pv st) (thread_node st) (cd_threads (sy_cpus st ! c)) (idle # ys)"
    using assms by (simp add: cpu_queue_def)
  then show "cd_threads (sy_cpus st ! c) = idle" "thread_node st idle" by (simp_all add: ring_def)
  have "cyclic (thread_nx st) (thread_pv st) (ys @ [idle])"
    using r cyclic_rotate [of "thread_nx st" "thread_pv st" "[idle]" ys] by (simp add: ring_def)
  with r have r': "ring (thread_nx st) (thread_pv st) (thread_node st) (hd (ys @ [idle])) (ys @ [idle])"
    by (auto simp: ring_def)
  have "thread_node st ((ys @ [idle]) ! i)" if "i < length (ys @ [idle])" for i
    using r' nth_mem [OF that] unfolding ring_def by blast
  then show "round_ok st (ys @ [idle])" using ring_next_nth [OF r'] r' unfolding round_ok_def ring_def by simp
  show "thread_nx st idle = hd (ys @ [idle])" using ring_next(1) [of _ _ _ _ "[]" idle ys] r by simp
qed

lemma round_ok_cong:
  assumes "\<And>x. x \<in> set zs \<Longrightarrow> thread_nx st' x = thread_nx st x \<and> thread_node st' x = thread_node st x"
  shows "round_ok st' zs \<longleftrightarrow> round_ok st zs"
  using assms by (auto simp: round_ok_def)

text \<open>A loop that changes each thread by \<open>f\<close>, which leaves the links alone.\<close>

definition map_threads :: "(thread_t \<Rightarrow> thread_t) \<Rightarrow> u64 set \<Rightarrow> system \<Rightarrow> system" where
  "map_threads f S st = st\<lparr>sy_threads := (\<lambda>p. if p \<in> S then map_option f (sy_threads st p) else sy_threads st p)\<rparr>"

definition keeps_links :: "(thread_t \<Rightarrow> thread_t) \<Rightarrow> bool" where
  "keeps_links f \<longleftrightarrow> (\<forall>t. th_next (f t) = th_next t \<and> th_prev (f t) = th_prev t)"

lemma map_threads_links:
  assumes "keeps_links f"
  shows "thread_nx (map_threads f S st) = thread_nx st" "thread_pv (map_threads f S st) = thread_pv st"
    "thread_node (map_threads f S st) = thread_node st"
  using assms by (auto simp: fun_eq_iff thread_nx_def thread_pv_def thread_node_def map_threads_def keeps_links_def split: option.splits)

lemma map_threads_simps [simp]:
  "sy_cpus (map_threads f S st) = sy_cpus st" "sy_this (map_threads f S st) = sy_this st"
  "sy_rflags (map_threads f S st) = sy_rflags st" "sy_mem (map_threads f S st) = sy_mem st"
  "sy_threads (map_threads f S st) p = (if p \<in> S then map_option f (sy_threads st p) else sy_threads st p)"
  "map_threads f {} st = st"
  by (simp_all add: map_threads_def)

lemma map_threads_insert:
  assumes "p \<notin> S" and "sy_threads st p = Some t"
  shows "(map_threads f S st)\<lparr>sy_threads := (sy_threads (map_threads f S st))(p \<mapsto> f t)\<rparr> = map_threads f (insert p S) st"
  using assms by (auto simp: map_threads_def fun_eq_iff)

lemma map_threads_queue:
  "keeps_links f \<Longrightarrow> cpu_queue (map_threads f S st) c xs \<longleftrightarrow> cpu_queue st c xs"
  by (simp add: cpu_queue_def map_threads_links)

text \<open>One step of such a loop, at position \<open>i\<close> of the threads \<open>xs\<close> it visits.\<close>

lemma map_step:
  assumes "distinct xs" and "i < length xs" and "thread_node st (xs ! i)" and "keeps_links f"
    and "st1 = map_threads f (set (take i xs)) st"
  obtains t where "sy_threads st (xs ! i) = Some t" "get_thread (xs ! i) st1 = Inr t"
    "upd_thread (xs ! i) (\<lambda>_. f t) st1 = Inr (map_threads f (set (take (Suc i) xs)) st)"
    "get_thread (xs ! i) (map_threads f (set (take (Suc i) xs)) st) = Inr (f t)" "th_next (f t) = thread_nx st (xs ! i)"
proof -
  let ?p = "xs ! i"
  obtain t where t: "sy_threads st ?p = Some t" "?p \<noteq> 0" using assms(3) by (auto simp: thread_node_def)
  have nin: "?p \<notin> set (take i xs)" using assms(1,2) by (simp add: distinct_conv_nth in_set_conv_nth)
  have ins: "set (take (Suc i) xs) = insert ?p (set (take i xs))" using assms(2) by (simp add: take_Suc_conv_app_nth)
  have "get_thread ?p st1 = Inr t" using t nin by (simp add: get_thread_def assms(5))
  moreover from this have "upd_thread ?p (\<lambda>_. f t) st1 = Inr (map_threads f (set (take (Suc i) xs)) st)"
    unfolding upd_thread_def ins using map_threads_insert [OF nin t(1)] by (simp add: assms(5))
  moreover have "get_thread ?p (map_threads f (set (take (Suc i) xs)) st) = Inr (f t)" using t ins by (simp add: get_thread_def)
  moreover have "th_next (f t) = thread_nx st ?p" using assms(4) t by (simp add: keeps_links_def thread_nx_def)
  ultimately show ?thesis using t that by blast
qed

lemma check_sleeping_links: "keeps_links (\<lambda>t. fst (check_sleeping t))"
  by (simp add: keeps_links_def check_sleeping_def Let_def)

lemma check_sleeping_wakeups: "0 \<le> snd (check_sleeping t)" "snd (check_sleeping t) \<le> 1"
  by (simp_all add: check_sleeping_def Let_def)

lemma sched_check_sleeping_result:
  assumes "round_ok st zs" and "length zs < 2 ^ 31"
  shows "\<exists>n. sched_check_sleeping (hd zs) st = Inr (n, map_threads (\<lambda>t. fst (check_sleeping t)) (set zs) st)"
proof -
  let ?f = "\<lambda>t. fst (check_sleeping t)"
  let ?I = "\<lambda>i (n :: int, s). s = map_threads ?f (set (take i zs)) st \<and> 0 \<le> n \<and> n \<le> int i"
  have zs: "zs \<noteq> []" "distinct zs" "hd zs \<notin> set (tl zs)" using assms(1) by (cases zs; auto simp: round_ok_def)+
  have "\<exists>s'. ring_loop (\<lambda>p (num_wakeups, st).
       rbind (get_thread p st) (\<lambda>t.
       let (t', w) = check_sleeping t in
       rbind (c_int (num_wakeups + w)) (\<lambda>num_wakeups.
       rbind (upd_thread p (\<lambda>_. t') st) (\<lambda>st.
       rbind (get_thread p st) (\<lambda>t.
       Inr (th_next t, num_wakeups, st)))))) (hd zs) (hd zs) (0, st) = Some (Inr s') \<and> ?I (length zs) s'"
  proof (rule ring_loop_rule [OF zs(1,3)], goal_cases)
    case (2 i s)
    obtain n st1 where s: "s = (n, st1)" "st1 = map_threads ?f (set (take i zs)) st" "0 \<le> n" "n \<le> int i"
      using 2(2) by (cases s) auto
    have nd: "thread_node st (zs ! i)" "thread_nx st (zs ! i) = (if Suc i < length zs then zs ! Suc i else hd zs)"
      using assms(1) 2(1) by (auto simp: round_ok_def)
    obtain t where t: "get_thread (zs ! i) st1 = Inr t"
      "upd_thread (zs ! i) (\<lambda>_. ?f t) st1 = Inr (map_threads ?f (set (take (Suc i) zs)) st)"
      "get_thread (zs ! i) (map_threads ?f (set (take (Suc i) zs)) st) = Inr (?f t)" "th_next (?f t) = thread_nx st (zs ! i)"
      by (rule map_step [OF zs(2) 2(1) nd(1) check_sleeping_links s(2)])
    have "c_int (n + snd (check_sleeping t)) = Inr (n + snd (check_sleeping t))"
      using s(3,4) 2(1) assms(2) check_sleeping_wakeups [of t] by (simp add: c_int_def)
    then show ?case using s t nd(2) check_sleeping_wakeups [of t] by (simp add: case_prod_beta Let_def)
  qed simp
  then show ?thesis unfolding sched_check_sleeping_def returns_def by auto
qed

text \<open>
  \<open>best st zs p\<close>: \<open>p\<close> is the first thread of \<open>zs\<close> with the largest slice left among the runnable ones,
  or the first one of all if none is runnable.
\<close>

definition runnable :: "system \<Rightarrow> u64 \<Rightarrow> bool" where
  "runnable st p \<longleftrightarrow> (\<exists>t. sy_threads st p = Some t \<and> th_state t = THREAD_STATE_RUNNING \<and> 0 \<le> th_cnt t)"

definition slice_left :: "system \<Rightarrow> u64 \<Rightarrow> int" where
  "slice_left st p = (case sy_threads st p of None \<Rightarrow> 0 | Some t \<Rightarrow> th_cnt t)"

definition best :: "system \<Rightarrow> u64 list \<Rightarrow> u64 \<Rightarrow> bool" where
  "best st zs p \<longleftrightarrow>
     (if \<exists>x\<in>set zs. runnable st x then
        runnable st p \<and> (\<exists>as bs. zs = as @ p # bs \<and> (\<forall>x\<in>set as. runnable st x \<longrightarrow> slice_left st x < slice_left st p) \<and>
          (\<forall>x\<in>set bs. runnable st x \<longrightarrow> slice_left st x \<le> slice_left st p))
      else p = hd zs)"

lemma best_last:
  assumes "runnable st x" and "\<forall>y\<in>set zs. runnable st y \<longrightarrow> slice_left st y < slice_left st x"
  shows "best st (zs @ [x]) x"
proof -
  have "\<exists>as bs. zs @ [x] = as @ x # bs \<and> (\<forall>y\<in>set as. runnable st y \<longrightarrow> slice_left st y < slice_left st x) \<and>
      (\<forall>y\<in>set bs. runnable st y \<longrightarrow> slice_left st y \<le> slice_left st x)"
    using assms(2) by (intro exI [of _ zs] exI [of _ "[]"]) simp
  then show ?thesis using assms(1) by (simp add: best_def)
qed

lemma best_extend:
  assumes "best st zs p" and "zs \<noteq> []"
  shows "best st (zs @ [x]) (if runnable st x \<and> ((\<exists>y\<in>set zs. runnable st y) \<longrightarrow> slice_left st p < slice_left st x) then x else p)"
proof (cases "\<exists>y\<in>set zs. runnable st y")
  case True
  then obtain as bs where p: "runnable st p" "zs = as @ p # bs" "\<forall>x\<in>set as. runnable st x \<longrightarrow> slice_left st x < slice_left st p"
    "\<forall>x\<in>set bs. runnable st x \<longrightarrow> slice_left st x \<le> slice_left st p" using assms(1) by (auto simp: best_def)
  show ?thesis
  proof (cases "runnable st x \<and> slice_left st p < slice_left st x")
    case t: True
    then have "\<forall>y\<in>set zs. runnable st y \<longrightarrow> slice_left st y < slice_left st x" using p by force
    then show ?thesis using t best_last by simp
  next
    case False
    have e: "zs @ [x] = as @ p # (bs @ [x])" using p by simp
    have le: "\<forall>y\<in>set (bs @ [x]). runnable st y \<longrightarrow> slice_left st y \<le> slice_left st p" using p(4) False by auto
    have ex: "\<exists>y\<in>set (zs @ [x]). runnable st y" using True by auto
    have "best st (zs @ [x]) p" unfolding best_def if_P [OF ex] using p(1,3) e le by blast
    then show ?thesis using False True by auto
  qed
next
  case False
  show ?thesis
  proof (cases "runnable st x")
    case True
    then show ?thesis using False best_last [of st x zs] by auto
  qed (use False assms in \<open>auto simp: best_def\<close>)
qed

lemma sched_find_result:
  assumes "round_ok st zs"
  shows "\<exists>p. sched_find (hd zs) st = Inr p \<and> best st zs p"
proof -
  let ?I = "\<lambda>i (n :: int, p). if \<exists>x\<in>set (take i zs). runnable st x then n = slice_left st p \<and> 0 \<le> n \<and> best st (take i zs) p
    else n = -1 \<and> p = hd zs"
  have zs: "zs \<noteq> []" "hd zs \<notin> set (tl zs)" using assms by (cases zs; auto simp: round_ok_def)+
  have "\<exists>s'. ring_loop (\<lambda>p (cnt, next_thread).
       rbind (get_thread p st) (\<lambda>t.
       let (cnt, next_thread) =
         (if th_state t = THREAD_STATE_RUNNING \<and> th_cnt t > cnt then (th_cnt t, p) else (cnt, next_thread)) in
       Inr (th_next t, cnt, next_thread))) (hd zs) (hd zs) (-1, hd zs) = Some (Inr s') \<and> ?I (length zs) s'"
  proof (rule ring_loop_rule [OF zs], goal_cases)
    case (2 i s)
    obtain n p where s: "s = (n, p)" by (cases s)
    let ?x = "zs ! i" and ?ex = "\<exists>x\<in>set (take i zs). runnable st x"
    have nd: "thread_node st ?x" "thread_nx st ?x = (if Suc i < length zs then zs ! Suc i else hd zs)"
      using assms 2(1) by (auto simp: round_ok_def)
    obtain t where t: "sy_threads st ?x = Some t" "get_thread ?x st = Inr t"
      using nd(1) by (auto simp: thread_node_def get_thread_def)
    have tn: "th_next t = thread_nx st ?x" using t by (simp add: thread_nx_def)
    have ts: "take (Suc i) zs = take i zs @ [?x]" using 2(1) by (simp add: take_Suc_conv_app_nth)
    have cond: "th_state t = THREAD_STATE_RUNNING \<and> th_cnt t > n \<longleftrightarrow> runnable st ?x \<and> (?ex \<longrightarrow> slice_left st p < slice_left st ?x)"
      using 2(2) t(1) s by (auto simp: runnable_def slice_left_def split: if_splits)
    have "?I (Suc i) (if th_state t = THREAD_STATE_RUNNING \<and> th_cnt t > n then (th_cnt t, ?x) else (n, p))"
    proof (cases "i = 0")
      case True
      then have np: "n = -1" "p = hd zs" "take (Suc i) zs = [?x]" using 2(2) s ts by simp_all
      show ?thesis
      proof (cases "runnable st ?x")
        case True
        then have "th_state t = THREAD_STATE_RUNNING" "0 \<le> th_cnt t" "slice_left st ?x = th_cnt t"
          using t(1) by (auto simp: runnable_def slice_left_def)
        then show ?thesis using True np best_last [of st ?x "[]"] by simp
      qed (use cond np in auto)
    next
      case False
      then have ne: "take i zs \<noteq> []" using zs(1) by simp
      have hd: "hd (take i zs) = hd zs" using False zs(1) by (cases zs; cases i) auto
      have b: "best st (take i zs) p" using 2(2) s hd by (auto simp: best_def split: if_splits)
      note be = best_extend [OF b ne, of ?x, folded cond]
      show ?thesis
      proof (cases "th_state t = THREAD_STATE_RUNNING \<and> th_cnt t > n")
        case True
        then have "runnable st ?x" "0 \<le> th_cnt t" "slice_left st ?x = th_cnt t" using cond t(1) by (auto simp: runnable_def slice_left_def)
        then show ?thesis using True be ts by auto
      next
        case False
        then have "?ex \<longleftrightarrow> (\<exists>x\<in>set (take (Suc i) zs). runnable st x)" using cond ts by auto
        then show ?thesis using False be ts 2(2) s by (auto split: if_splits)
      qed
    qed
    then show ?case using s t(2) nd(2) tn by (auto simp: Let_def split: if_splits)
  qed (use zs in simp)
  then obtain n p where r: "returns (ring_loop (\<lambda>p (cnt, next_thread).
       rbind (get_thread p st) (\<lambda>t.
       let (cnt, next_thread) =
         (if th_state t = THREAD_STATE_RUNNING \<and> th_cnt t > cnt then (th_cnt t, p) else (cnt, next_thread)) in
       Inr (th_next t, cnt, next_thread))) (hd zs) (hd zs) (-1, hd zs)) = Inr (n, p)" "?I (length zs) (n, p)"
    by (auto simp: returns_def)
  have "best st zs p" using r(2) by (auto simp: best_def split: if_splits)
  then show ?thesis unfolding sched_find_def r(1) by simp
qed

subsection \<open>The scheduler's invariant\<close>

text \<open>
  The queue of the processor is a ring that begins with its idle thread, which stays runnable; the
  current thread is in it; slices stay between 0 and twice the priority.
\<close>

definition slice_ok :: "thread_t \<Rightarrow> bool" where
  "slice_ok t \<longleftrightarrow> 0 \<le> th_cnt t \<and> th_cnt t \<le> 2 * th_pri t \<and> th_pri t \<le> 2 ^ 29"

definition sched_inv :: "system \<Rightarrow> nat \<Rightarrow> u64 \<Rightarrow> u64 list \<Rightarrow> bool" where
  "sched_inv st c idle ys \<longleftrightarrow> c < length (sy_cpus st) \<and> cpu_queue st c (idle # ys) \<and> length ys < 2 ^ 31 - 1 \<and>
     cd_cur_thread (sy_cpus st ! c) \<in> set (idle # ys) \<and>
     (\<forall>x\<in>set (idle # ys). \<exists>t. sy_threads st x = Some t \<and> slice_ok t) \<and>
     (\<exists>t. sy_threads st idle = Some t \<and> th_state t = THREAD_STATE_RUNNING)"

definition refilled :: "thread_t \<Rightarrow> thread_t" where
  "refilled t = t\<lparr>th_cnt := th_cnt t div 2 + th_pri t\<rparr>"

lemma refilled_links: "keeps_links refilled"
  by (simp add: keeps_links_def refilled_def)

lemma slice_ok_refilled: "slice_ok t \<Longrightarrow> slice_ok (refilled t) \<and> c_int (th_cnt t div 2 + th_pri t) = Inr (th_cnt t div 2 + th_pri t)"
  by (auto simp: slice_ok_def refilled_def c_int_def)

lemma refill_result:
  assumes "round_ok st (ys @ [idle])" and "\<forall>x\<in>set ys. \<exists>t. sy_threads st x = Some t \<and> slice_ok t"
  shows "refill (hd (ys @ [idle])) idle st = Inr (map_threads refilled (set ys) st)"
proof (cases "ys = []")
  case True
  then show ?thesis by (simp add: refill_def)
next
  case False
  let ?I = "\<lambda>i s. s = map_threads refilled (set (take i ys)) st"
  have d: "distinct ys" "idle \<notin> set ys" using assms(1) by (auto simp: round_ok_def)
  have "idle \<notin> set (tl ys)" using d(2) False by (cases ys) auto
  then have "\<exists>s'. ring_loop (\<lambda>p st.
        rbind (get_thread p st) (\<lambda>t.
        rbind (c_int (th_cnt t div 2 + th_pri t)) (\<lambda>cnt.
        rbind (upd_thread p (\<lambda>t. t\<lparr>th_cnt := cnt\<rparr>) st) (\<lambda>st.
        rbind (get_thread p st) (\<lambda>t.
        Inr (th_next t, st)))))) idle (hd ys) st = Some (Inr s') \<and> ?I (length ys) s'"
  proof (rule ring_loop_rule [OF False], goal_cases)
    case (2 i s)
    have i: "i < length (ys @ [idle])" "(ys @ [idle]) ! i = ys ! i" using 2(1) by (simp_all add: nth_append)
    have nd: "thread_node st (ys ! i)" "thread_nx st (ys ! i) = (if Suc i < length ys then ys ! Suc i else idle)"
      using assms(1) i 2(1) unfolding round_ok_def by (auto simp: nth_append less_Suc_eq)
    obtain t where t: "sy_threads st (ys ! i) = Some t" "get_thread (ys ! i) s = Inr t"
      "upd_thread (ys ! i) (\<lambda>_. refilled t) s = Inr (map_threads refilled (set (take (Suc i) ys)) st)"
      "get_thread (ys ! i) (map_threads refilled (set (take (Suc i) ys)) st) = Inr (refilled t)"
      "th_next (refilled t) = thread_nx st (ys ! i)"
      by (rule map_step [OF d(1) 2(1) nd(1) refilled_links 2(2)])
    have "slice_ok t" using assms(2) t(1) 2(1) by (metis nth_mem option.inject)
    moreover have "upd_thread (ys ! i) (\<lambda>u. u\<lparr>th_cnt := th_cnt t div 2 + th_pri t\<rparr>) s = upd_thread (ys ! i) (\<lambda>_. refilled t) s"
      using t(2) by (simp add: upd_thread_def refilled_def)
    ultimately show ?case using t nd(2) slice_ok_refilled [of t] by simp
  qed simp
  moreover have "hd (ys @ [idle]) = hd ys" "hd ys \<noteq> idle" using False d(2) by (auto dest: hd_in_set)
  ultimately show ?thesis by (simp add: refill_def returns_def)
qed

text \<open>
  \<open>steps R st st'\<close>: every thread is still there, with its links, and changed according to \<open>R\<close>.
\<close>

definition steps :: "(thread_t \<Rightarrow> thread_t \<Rightarrow> bool) \<Rightarrow> system \<Rightarrow> system \<Rightarrow> bool" where
  "steps R st st' \<longleftrightarrow> (\<forall>x t. sy_threads st x = Some t \<longrightarrow>
     (\<exists>t'. sy_threads st' x = Some t' \<and> th_next t' = th_next t \<and> th_prev t' = th_prev t \<and> R t t'))"

lemma steps_trans:
  assumes "steps R st st'" and "steps Q st' st''" and "\<And>a b c. R a b \<Longrightarrow> Q b c \<Longrightarrow> T a c"
  shows "steps T st st''"
  unfolding steps_def
proof (intro allI impI)
  fix x t assume "sy_threads st x = Some t"
  then obtain t' where t': "sy_threads st' x = Some t'" "th_next t' = th_next t" "th_prev t' = th_prev t" "R t t'"
    using assms(1) unfolding steps_def by blast
  then obtain t'' where "sy_threads st'' x = Some t''" "th_next t'' = th_next t'" "th_prev t'' = th_prev t'" "Q t' t''"
    using assms(2) unfolding steps_def by blast
  then show "\<exists>t''. sy_threads st'' x = Some t'' \<and> th_next t'' = th_next t \<and> th_prev t'' = th_prev t \<and> T t t''"
    using t' assms(3) by auto
qed

lemma steps_map:
  "keeps_links f \<Longrightarrow> (\<And>t. R t (f t)) \<Longrightarrow> (\<And>t. R t t) \<Longrightarrow> steps R st (map_threads f S st)"
  by (auto simp: steps_def keeps_links_def)

lemma steps_upd:
  assumes "sy_threads st x = Some t" and "sy_threads st' = (sy_threads st)(x \<mapsto> t')"
    and "th_next t' = th_next t" "th_prev t' = th_prev t" "R t t'" and "\<And>t. R t t"
  shows "steps R st st'"
  using assms by (auto simp: steps_def)

text \<open>What the wakeup timer sees of a thread.\<close>

definition sleep_view :: "thread_t \<Rightarrow> u32 \<times> u32 \<times> u32" where
  "sleep_view t = (th_state t, th_flags t, th_sleep_time t)"

definition runs :: "thread_t \<Rightarrow> thread_t \<Rightarrow> bool" where
  "runs t t' \<longleftrightarrow> sleep_view t' = sleep_view t \<and> th_next_wait t' = th_next_wait t \<and> (slice_ok t \<longrightarrow> slice_ok t')"

lemma runs_refl [simp]: "runs t t"
  by (simp add: runs_def)

lemma runs_trans: "runs a b \<Longrightarrow> runs b c \<Longrightarrow> runs a c"
  by (simp add: runs_def)

lemma sched_inv_steps:
  assumes "sched_inv st c idle ys" and "steps R st st'"
    and "\<And>x t t'. x \<in> set (idle # ys) \<Longrightarrow> R t t' \<Longrightarrow> slice_ok t \<Longrightarrow> slice_ok t'"
    and "\<And>t t'. sy_threads st idle = Some t \<Longrightarrow> sy_threads st' idle = Some t' \<Longrightarrow> R t t' \<Longrightarrow>
      th_state t = THREAD_STATE_RUNNING \<Longrightarrow> th_state t' = THREAD_STATE_RUNNING"
    and "c < length (sy_cpus st')" and "cd_threads (sy_cpus st' ! c) = cd_threads (sy_cpus st ! c)"
    and "cd_cur_thread (sy_cpus st' ! c) \<in> set (idle # ys)"
  shows "sched_inv st' c idle ys"
proof -
  let ?S = "set (idle # ys)"
  have th: "\<exists>t t'. sy_threads st x = Some t \<and> sy_threads st' x = Some t' \<and> th_next t' = th_next t \<and> th_prev t' = th_prev t \<and>
      slice_ok t' \<and> R t t'" if x: "x \<in> ?S" for x
  proof -
    obtain t where t: "sy_threads st x = Some t" "slice_ok t" using assms(1) x unfolding sched_inv_def by blast
    then obtain t' where "sy_threads st' x = Some t'" "th_next t' = th_next t" "th_prev t' = th_prev t" "R t t'"
      using assms(2) unfolding steps_def by blast
    then show ?thesis using t assms(3) [OF x] by blast
  qed
  have q: "cpu_queue st c (idle # ys)" using assms(1) by (simp add: sched_inv_def)
  have f: "thread_nx st' x = thread_nx st x" "thread_pv st' x = thread_pv st x" "thread_node st' x = thread_node st x"
    if "x \<in> ?S" for x using th [OF that] by (auto simp: thread_nx_def thread_pv_def thread_node_def)
  then have "linked (thread_nx st') (thread_pv st') ((idle # ys) @ [idle]) = linked (thread_nx st) (thread_pv st) ((idle # ys) @ [idle])"
    by (intro linked_cong) (auto simp: butlast_append)
  then have "cpu_queue st' c (idle # ys)" using q assms(6) f by (auto simp: cpu_queue_def ring_def cyclic_def)
  moreover have "\<exists>t. sy_threads st' idle = Some t \<and> th_state t = THREAD_STATE_RUNNING"
  proof -
    obtain t t' where "sy_threads st idle = Some t" "sy_threads st' idle = Some t'" "R t t'" using th [of idle] by auto
    moreover from this(1) have "th_state t = THREAD_STATE_RUNNING" using assms(1) by (simp add: sched_inv_def)
    ultimately show ?thesis using assms(4) by blast
  qed
  moreover have "\<forall>x\<in>?S. \<exists>t. sy_threads st' x = Some t \<and> slice_ok t" using th by blast
  ultimately show ?thesis using assms(1,5,7) unfolding sched_inv_def by blast
qed

lemma sched_inv_runnable:
  assumes "sched_inv st c idle ys" and "best st (ys @ [idle]) p"
  shows "runnable st p" and "p \<in> set (idle # ys)"
proof -
  have "runnable st idle" using assms(1) unfolding sched_inv_def runnable_def slice_ok_def by auto
  then have ex: "\<exists>x\<in>set (ys @ [idle]). runnable st x" by auto
  from assms(2) show "runnable st p" unfolding best_def if_P [OF ex] by blast
  from assms(2) obtain as bs where e: "ys @ [idle] = as @ p # bs" unfolding best_def if_P [OF ex] by blast
  have "p \<in> set (ys @ [idle])" unfolding e by simp
  then show "p \<in> set (idle # ys)" by auto
qed

text \<open>The thread \<^verbatim>\<open>sched_next\<close> settles on, and the state after the slices were refilled, if they were.\<close>

definition settled :: "system \<Rightarrow> u64 list \<Rightarrow> u64 \<Rightarrow> system \<Rightarrow> u64 \<Rightarrow> bool" where
  "settled st ys idle st0 p \<longleftrightarrow> best st0 (ys @ [idle]) p \<and>
     (st0 = st \<and> slice_left st p \<noteq> 0 \<or>
      st0 = map_threads refilled (set ys) st \<and> (\<forall>x\<in>set (ys @ [idle]). runnable st x \<longrightarrow> slice_left st x = 0))"

lemma runs_refilled: "runs t (refilled t)"
  using slice_ok_refilled [of t] by (auto simp: runs_def refilled_def sleep_view_def)

lemma sched_next_select:
  assumes inv: "sched_inv st c idle ys"
  obtains st0 p th where "settled st ys idle st0 p" "steps runs st st0" "sched_inv st0 c idle ys" "sy_cpus st0 = sy_cpus st"
    "sched_next c st =
      (if p \<noteq> cd_cur_thread (sy_cpus st ! c) then
       rbind (upd_cpu c (\<lambda>d. d\<lparr>cd_cur_thread := p\<rparr>) st0) (\<lambda>st.
       rbind (upd_thread (cd_cur_thread (sy_cpus st0 ! c)) (\<lambda>t. t\<lparr>th_ticks := th_ticks t + 1\<rparr>) st) (\<lambda>st.
       rbind (get_thread p st) (\<lambda>nt.
       rbind (context_switch (cd_cur_thread (sy_cpus st0 ! c)) (th_ctx nt) st) (\<lambda>st. Inr (True, st)))))
     else Inr (False, st0))"
proof -
  let ?zs = "ys @ [idle]"
  have c: "c < length (sy_cpus st)" and q: "cpu_queue st c (idle # ys)" using inv by (simp_all add: sched_inv_def)
  note r = queue_round [OF q]
  obtain it where it: "get_thread idle st = Inr it" "th_next it = hd ?zs"
    using r(3,4) by (auto simp: thread_node_def get_thread_def thread_nx_def)
  obtain p where p: "sched_find (hd ?zs) st = Inr p" "best st ?zs p" using sched_find_result [OF r(2)] by blast
  have pr: "runnable st p" "p \<in> set (idle # ys)" using sched_inv_runnable [OF inv p(2)] by auto
  have "p \<noteq> 0" using pr(2) q by (auto simp: cpu_queue_def ring_def thread_node_def)
  then obtain pt where pt: "get_thread p st = Inr pt" "th_cnt pt = slice_left st p"
    using pr(1) by (auto simp: runnable_def get_thread_def slice_left_def)
  show ?thesis
  proof (cases "slice_left st p = 0")
    case False
    have "settled st ys idle st p" using p(2) False by (simp add: settled_def)
    moreover have "steps runs st st" by (simp add: steps_def)
    ultimately show ?thesis using inv c it p(1) pt False r(1)
      by (intro that [of st p]) (simp_all add: sched_next_def Let_def)
  next
    case True
    let ?st0 = "map_threads refilled (set ys) st"
    have rf: "refill (hd ?zs) idle st = Inr ?st0" using refill_result [OF r(2)] inv by (auto simp: sched_inv_def)
    have stp: "steps runs st ?st0" by (rule steps_map) (use refilled_links runs_refilled in auto)
    have inv0: "sched_inv ?st0 c idle ys"
      by (rule sched_inv_steps [OF inv stp]) (use inv in \<open>auto simp: runs_def sleep_view_def sched_inv_def\<close>)
    note r0 = queue_round [of ?st0 c idle ys]
    have q0: "cpu_queue ?st0 c (idle # ys)" using inv0 by (simp add: sched_inv_def)
    obtain it0 where it0: "get_thread idle ?st0 = Inr it0" "th_next it0 = hd ?zs"
      using r0(3,4) [OF q0] by (auto simp: thread_node_def get_thread_def thread_nx_def)
    obtain p0 where p0: "sched_find (hd ?zs) ?st0 = Inr p0" "best ?st0 ?zs p0" using sched_find_result [OF r0(2) [OF q0]] by blast
    have "slice_left st x \<le> 0" if "x \<in> set ?zs" "runnable st x" for x
    proof -
      have ex: "\<exists>x\<in>set ?zs. runnable st x" using that by blast
      from p(2) obtain as bs where e: "?zs = as @ p # bs" "\<forall>x\<in>set as. runnable st x \<longrightarrow> slice_left st x < slice_left st p"
        "\<forall>x\<in>set bs. runnable st x \<longrightarrow> slice_left st x \<le> slice_left st p" unfolding best_def if_P [OF ex] by blast
      have "x \<in> set as \<or> x = p \<or> x \<in> set bs" using that(1) unfolding e(1) by auto
      then show ?thesis using e(2,3) that(2) True by auto
    qed
    moreover have "0 \<le> slice_left st x" if "runnable st x" for x using that by (auto simp: runnable_def slice_left_def)
    ultimately have "settled st ys idle ?st0 p0" using p0(2) by (auto simp: settled_def intro: antisym)
    then show ?thesis using inv0 stp c it it0 p(1) p0(1) pt True r(1) rf
      by (intro that [of ?st0 p0]) (simp_all add: sched_next_def Let_def)
  qed
qed

lemma sched_next_result:
  assumes inv: "sched_inv st c idle ys"
  obtains st0 p st' where "sched_next c st = Inr (p \<noteq> cd_cur_thread (sy_cpus st ! c), st')"
    "settled st ys idle st0 p" "sched_inv st' c idle ys" "steps runs st st'" "runnable st' p"
    "sy_cpus st' = (sy_cpus st)[c := (sy_cpus st ! c)\<lparr>cd_cur_thread := p\<rparr>]"
proof -
  obtain st0 p where st0: "settled st ys idle st0 p" "steps runs st st0" "sched_inv st0 c idle ys" "sy_cpus st0 = sy_cpus st"
    and sn: "sched_next c st =
      (if p \<noteq> cd_cur_thread (sy_cpus st ! c) then
       rbind (upd_cpu c (\<lambda>d. d\<lparr>cd_cur_thread := p\<rparr>) st0) (\<lambda>st.
       rbind (upd_thread (cd_cur_thread (sy_cpus st0 ! c)) (\<lambda>t. t\<lparr>th_ticks := th_ticks t + 1\<rparr>) st) (\<lambda>st.
       rbind (get_thread p st) (\<lambda>nt.
       rbind (context_switch (cd_cur_thread (sy_cpus st0 ! c)) (th_ctx nt) st) (\<lambda>st. Inr (True, st)))))
     else Inr (False, st0))" by (rule sched_next_select [OF inv])
  let ?cur = "cd_cur_thread (sy_cpus st ! c)"
  have b0: "best st0 (ys @ [idle]) p" using st0(1) by (auto simp: settled_def)
  note pr = sched_inv_runnable [OF st0(3) b0]
  have c: "c < length (sy_cpus st)" using inv by (simp add: sched_inv_def)
  have nz: "x \<noteq> 0" if "x \<in> set (idle # ys)" for x
    using that inv by (auto simp: sched_inv_def cpu_queue_def ring_def thread_node_def)
  show ?thesis
  proof (cases "p = ?cur")
    case True
    have "sy_cpus st0 = (sy_cpus st)[c := (sy_cpus st ! c)\<lparr>cd_cur_thread := p\<rparr>]"
      using st0(4) True by (simp add: list_update_same_conv [OF c])
    then show ?thesis using True sn st0 pr by (intro that [of p st0 st0]) simp_all
  next
    case False
    have "?cur \<in> set (idle # ys)" using inv by (simp add: sched_inv_def)
    then obtain ct where ct: "sy_threads st0 ?cur = Some ct" "?cur \<noteq> 0" using st0(3) nz unfolding sched_inv_def by blast
    obtain pt where pt: "sy_threads st0 p = Some pt" "p \<noteq> 0" using pr nz by (auto simp: runnable_def)
    define sp where "sp = sy_rsp st0 - sizeof_switch_context_t"
    define ct' where "ct' = ct\<lparr>th_ticks := th_ticks ct + 1, th_ctx := sp\<rparr>"
    define m where "m = put_words sp (ctx_words (sy_regs st0)) (sy_mem st0)"
    define st' where "st' = st0\<lparr>sy_cpus := (sy_cpus st)[c := (sy_cpus st ! c)\<lparr>cd_cur_thread := p\<rparr>],
      sy_threads := (sy_threads st0)(?cur \<mapsto> ct'), sy_mem := m,
      sy_regs := read_ctx (th_ctx pt) m, sy_rsp := th_ctx pt + sizeof_switch_context_t\<rparr>"
    have "sched_next c st = Inr (True, st')"
      unfolding sn using False c ct pt st0(4)
      by (simp add: upd_cpu_def upd_thread_def get_thread_def context_switch_def Let_def st'_def sp_def m_def ct'_def)
    moreover have stp: "steps runs st0 st'"
      by (rule steps_upd [OF ct(1), of st' ct'])
        (simp_all add: st'_def ct'_def runs_def sleep_view_def slice_ok_def)
    moreover have "sched_inv st' c idle ys"
      by (rule sched_inv_steps [OF st0(3) stp])
        (use c pr(2) st0(4) in \<open>simp_all add: runs_def sleep_view_def st'_def\<close>)
    moreover have "runnable st' p" using pr(1) False by (simp add: runnable_def st'_def)
    ultimately show ?thesis using False st0(1,2) steps_trans [OF st0(2) stp, of runs] runs_trans
      by (intro that [of p st' st0]) (auto simp: st'_def)
  qed
qed

text \<open>A tick of the clock, thread by thread.\<close>

definition ticked :: "thread_t \<Rightarrow> thread_t \<Rightarrow> bool" where
  "ticked t t' \<longleftrightarrow> sleep_view t' = sleep_view (fst (check_sleeping t)) \<and> (slice_ok t \<longrightarrow> slice_ok t')"

lemma slice_ok_check: "slice_ok t \<Longrightarrow> slice_ok (fst (check_sleeping t))"
  by (auto simp: slice_ok_def check_sleeping_def Let_def)

lemma check_keeps_running: "th_state t = THREAD_STATE_RUNNING \<Longrightarrow> fst (check_sleeping t) = t"
  by (simp add: check_sleeping_def THREAD_STATE_RUNNING_def THREAD_STATE_SLEEPING_def)

lemma sched_tick_charge:
  assumes inv: "sched_inv st1 c idle ys" and c1: "cd_cur_thread (sy_cpus st1 ! c) = cur" and ct: "sy_threads st1 cur = Some ct"
  shows "\<exists>ct'. sy_threads st1 cur = Some ct \<and> ct' = ct\<lparr>th_ticks := th_ticks ct + 1, th_cnt := max 0 (th_cnt ct - 1)\<rparr> \<and>
    rbind (upd_thread cur (\<lambda>t. t\<lparr>th_ticks := th_ticks t + 1\<rparr>) st1) (\<lambda>st.
     rbind (get_thread cur st) (\<lambda>t.
     rbind (c_int (th_cnt t - 1)) (\<lambda>cnt.
     rbind (upd_thread cur (\<lambda>t. t\<lparr>th_cnt := cnt\<rparr>) st) (\<lambda>st.
     if cnt > 0 then Inr (False, st)
     else rbind (upd_thread cur (\<lambda>t. t\<lparr>th_cnt := 0\<rparr>) st) (\<lambda>st. sched_next c st))))) =
    (let st2 = st1\<lparr>sy_threads := (sy_threads st1)(cur \<mapsto> ct')\<rparr> in
     if th_cnt ct > 1 then Inr (False, st2) else sched_next c st2)"
proof -
  have "cur \<in> set (idle # ys)" using inv c1 by (simp add: sched_inv_def)
  then have nz: "cur \<noteq> 0" and sl: "slice_ok ct"
    using inv ct by (auto simp: sched_inv_def cpu_queue_def ring_def thread_node_def)
  have "c_int (th_cnt ct - 1) = Inr (th_cnt ct - 1)" using sl by (simp add: c_int_def slice_ok_def)
  moreover have "max 0 (th_cnt ct - 1) = (if th_cnt ct > 1 then th_cnt ct - 1 else 0)" by auto
  ultimately show ?thesis using nz ct by (simp add: upd_thread_def get_thread_def Let_def)
qed

lemma sched_tick_result:
  assumes inv: "sched_inv st c idle ys"
  obtains b st' where "sched_tick c st = Inr (b, st')" "sched_inv st' c idle ys"
    "\<forall>x\<in>set (idle # ys). \<forall>t. sy_threads st x = Some t \<longrightarrow> (\<exists>t'. sy_threads st' x = Some t' \<and> ticked t t')"
    "b \<longleftrightarrow> cd_cur_thread (sy_cpus st' ! c) \<noteq> cd_cur_thread (sy_cpus st ! c)"
    "b \<longrightarrow> runnable st' (cd_cur_thread (sy_cpus st' ! c))"
    "cd_lock (sy_cpus st' ! c) = cd_lock (sy_cpus st ! c)"
proof -
  let ?zs = "ys @ [idle]" and ?cur = "cd_cur_thread (sy_cpus st ! c)" and ?f = "\<lambda>t. fst (check_sleeping t)"
  let ?R = "\<lambda>t t'. t' = t \<or> t' = ?f t"
  have c: "c < length (sy_cpus st)" and q: "cpu_queue st c (idle # ys)" and len: "length ?zs < 2 ^ 31"
    using inv by (simp_all add: sched_inv_def)
  note r = queue_round [OF q]
  have curS: "?cur \<in> set (idle # ys)" using inv by (simp add: sched_inv_def)
  obtain it where it: "get_thread idle st = Inr it" "th_next it = hd ?zs"
    using r(3,4) by (auto simp: thread_node_def get_thread_def thread_nx_def)
  define st1 where "st1 = map_threads ?f (set ?zs) st"
  obtain n where n: "sched_check_sleeping (hd ?zs) st = Inr (n, st1)"
    using sched_check_sleeping_result [OF r(2) len] by (auto simp: st1_def)
  have stp1: "steps ?R st st1" unfolding st1_def by (rule steps_map) (use check_sleeping_links in auto)
  have inv1: "sched_inv st1 c idle ys"
    by (rule sched_inv_steps [OF inv stp1])
      (use inv check_keeps_running slice_ok_check in \<open>auto simp: st1_def sched_inv_def\<close>)
  have cp1: "sy_cpus st1 = sy_cpus st" by (simp add: st1_def)
  obtain ct where ct: "sy_threads st1 ?cur = Some ct" "slice_ok ct" using inv1 curS unfolding sched_inv_def by blast
  define ct' where "ct' = ct\<lparr>th_ticks := th_ticks ct + 1, th_cnt := max 0 (th_cnt ct - 1)\<rparr>"
  define st2 where "st2 = st1\<lparr>sy_threads := (sy_threads st1)(?cur \<mapsto> ct')\<rparr>"
  have tick: "sched_tick c st = (if th_cnt ct > 1 then Inr (False, st2) else sched_next c st2)"
    unfolding sched_tick_def using sched_tick_charge [OF inv1 _ ct(1)] c it n r(1) cp1
    by (simp add: Let_def st2_def ct'_def)
  have stp2: "steps runs st1 st2"
    by (rule steps_upd [OF ct(1), of st2 ct']) (use ct(2) in \<open>auto simp: st2_def ct'_def runs_def sleep_view_def slice_ok_def\<close>)
  have inv2: "sched_inv st2 c idle ys"
    by (rule sched_inv_steps [OF inv1 stp2])
      (use inv1 in \<open>auto simp: runs_def sleep_view_def st2_def sched_inv_def\<close>)
  have tk: "\<exists>t'. sy_threads st' x = Some t' \<and> ticked t t'"
    if S: "steps runs st1 st'" and x: "x \<in> set (idle # ys)" and t: "sy_threads st x = Some t" for st' x t
  proof -
    have "sy_threads st1 x = Some (?f t)" using x t by (auto simp: st1_def)
    then obtain t' where "sy_threads st' x = Some t'" "runs (?f t) t'" using S unfolding steps_def by blast
    then show ?thesis using slice_ok_check [of t] by (auto simp: ticked_def runs_def)
  qed
  show ?thesis
  proof (cases "th_cnt ct > 1")
    case True
    then show ?thesis using tick inv2 tk [OF stp2] by (intro that [of False st2]) (auto simp: st2_def cp1)
  next
    case False
    obtain st0 p st' where s': "sched_next c st2 = Inr (p \<noteq> cd_cur_thread (sy_cpus st2 ! c), st')"
      "sched_inv st' c idle ys" "steps runs st2 st'" "runnable st' p"
      "sy_cpus st' = (sy_cpus st2)[c := (sy_cpus st2 ! c)\<lparr>cd_cur_thread := p\<rparr>]"
      by (rule sched_next_result [OF inv2])
    have cp2: "sy_cpus st2 = sy_cpus st" by (simp add: st2_def cp1)
    have stp: "steps runs st1 st'" by (rule steps_trans [OF stp2 s'(3)]) (rule runs_trans)
    show ?thesis using tick False s' tk [OF stp] cp2 c by (intro that [of "p \<noteq> ?cur" st']) auto
  qed
qed

lemma sched_init_cpu_result:
  assumes "c < length (sy_cpus st)" and "cd_threads (sy_cpus st ! c) = 0" and "idle_thread c st \<noteq> 0"
  shows "\<exists>st'. sched_init_cpu c st = Inr st' \<and> sched_inv st' c (idle_thread c st) [] \<and>
    cd_cur_thread (sy_cpus st' ! c) = idle_thread c st \<and> cd_lock (sy_cpus st' ! c) = cd_lock (sy_cpus st ! c)"
proof -
  let ?i = "idle_thread c st"
  define t where "t = \<lparr>th_next = 0, th_prev = 0, th_next_wait = 0, th_ctx = 0, th_stack = 0, th_ticks = 0, th_id = 0,
    th_cpu_id = cd_apic_id (sy_cpus st ! c), th_state = THREAD_STATE_RUNNING, th_sleep_time = 0, th_flags = 0,
    th_pri = THREAD_DEFAULT_PRI, th_cnt = THREAD_DEFAULT_PRI\<rparr>"
  define st1 where "st1 = st\<lparr>sy_threads := (sy_threads st)(?i \<mapsto> t)\<rparr>"
  have su: "setup_idle_thread c st = Inr (?i, st1)" using assms(1) by (simp add: setup_idle_thread_def Let_def st1_def t_def)
  have "thread_node st1 ?i" using assms(3) by (simp add: thread_node_def st1_def)
  from threads.queue_push_back_empty [OF this] obtain st2 where
    st2: "queue_push_back 0 ?i next_field prev_field st1 = Inr (?i, st2)" "threads.represents st2 ?i [?i]" "thread_rest st2 = thread_rest st1"
    by (auto simp: threads.touches_def)
  note r = thread_rest_eqD [OF st2(3)]
  let ?st' = "upd_desc c (\<lambda>d. d\<lparr>cd_threads := ?i, cd_cur_thread := ?i\<rparr>) st2"
  have cp: "sy_cpus st2 = sy_cpus st" by (simp add: r st1_def)
  have "sched_init_cpu c st = Inr ?st'"
    using assms(1,2) su st2(1) cp by (simp add: sched_init_cpu_def) (simp add: st1_def upd_cpu_desc)
  moreover have cd: "sy_cpus ?st' ! c = (sy_cpus st ! c)\<lparr>cd_threads := ?i, cd_cur_thread := ?i\<rparr>"
    using assms(1) cp by (simp add: upd_desc_def)
  moreover have "cpu_queue ?st' c [?i]"
    using st2(2) cd thread_store_cong [of ?st' st2] by (simp add: cpu_queue_def threads.represents_def)
  moreover obtain t' where t': "sy_threads st2 ?i = Some t'" "unlinked t' = unlinked t"
    using r(8) [of ?i] by (auto simp: st1_def)
  have "th_state t' = THREAD_STATE_RUNNING" "slice_ok t'"
    using unlinked_eqD [OF t'(2)] by (simp_all add: t_def slice_ok_def THREAD_DEFAULT_PRI_def)
  ultimately show ?thesis using t'(1) assms(1) cp by (intro exI [of _ ?st']) (simp add: sched_inv_def)
qed

subsection \<open>Sleeping\<close>

primrec ticks :: "nat \<Rightarrow> nat \<Rightarrow> system \<Rightarrow> system outcome" where
  "ticks 0 c st = Inr st"
| "ticks (Suc n) c st = rbind (ticks n c st) (\<lambda>st. rbind (sched_tick c st) (\<lambda>(_, st). Inr st))"

text \<open>A sleeper counts down to 1 and wakes up on the next check; from 0 it wraps around first.\<close>

lemma sleeper_step:
  assumes "th_state t = THREAD_STATE_SLEEPING" and "th_flags t AND THREAD_FLAG_SLEEP_TIMER \<noteq> 0"
  shows "th_sleep_time t \<noteq> 1 \<Longrightarrow> sleep_view (fst (check_sleeping t)) = (THREAD_STATE_SLEEPING, th_flags t, th_sleep_time t - 1)"
    and "th_sleep_time t = 1 \<Longrightarrow> th_state (fst (check_sleeping t)) = THREAD_STATE_RUNNING"
  using assms by (simp_all add: check_sleeping_def Let_def sleep_view_def)

lemma ticks_sleeper:
  assumes inv: "sched_inv st c idle ys" and x: "x \<in> set (idle # ys)" "sy_threads st x = Some t"
    and sl: "th_state t = THREAD_STATE_SLEEPING" "th_flags t AND THREAD_FLAG_SLEEP_TIMER \<noteq> 0"
    and m: "m \<le> unat (th_sleep_time t - 1)"
  shows "\<exists>st' t'. ticks m c st = Inr st' \<and> sched_inv st' c idle ys \<and> sy_threads st' x = Some t' \<and>
    sleep_view t' = (THREAD_STATE_SLEEPING, th_flags t, th_sleep_time t - of_nat m)"
  using m
proof (induction m)
  case 0
  then show ?case using inv x sl by (simp add: sleep_view_def)
next
  case (Suc m)
  then obtain st1 t1 where 1: "ticks m c st = Inr st1" "sched_inv st1 c idle ys" "sy_threads st1 x = Some t1"
    "sleep_view t1 = (THREAD_STATE_SLEEPING, th_flags t, th_sleep_time t - of_nat m)" by auto
  obtain b st2 where 2: "sched_tick c st1 = Inr (b, st2)" "sched_inv st2 c idle ys"
    "\<forall>y\<in>set (idle # ys). \<forall>u. sy_threads st1 y = Some u \<longrightarrow> (\<exists>t'. sy_threads st2 y = Some t' \<and> ticked u t')"
    by (rule sched_tick_result [OF 1(2)])
  have v: "th_state t1 = THREAD_STATE_SLEEPING" "th_flags t1 = th_flags t" "th_sleep_time t1 = th_sleep_time t - of_nat m"
    using 1(4) by (simp_all add: sleep_view_def)
  have "th_sleep_time t1 \<noteq> 1"
  proof
    assume "th_sleep_time t1 = 1"
    then have "th_sleep_time t - 1 = of_nat m" using v(3) by (simp add: algebra_simps)
    moreover have "unat (th_sleep_time t - 1) < 2 ^ LENGTH(32)" by (rule unsigned_less)
    then have "m < 2 ^ 32" using Suc.prems by simp
    ultimately have "unat (th_sleep_time t - 1) = m" using unat_of_nat_lt [of m, where 'a = 32] by simp
    then show False using Suc.prems by simp
  qed
  then have "sleep_view (fst (check_sleeping t1)) = (THREAD_STATE_SLEEPING, th_flags t, th_sleep_time t - of_nat m - 1)"
    using sleeper_step(1) [of t1] v sl(2) by simp
  then show ?case using 1 2(1,2) 2(3) [rule_format, OF x(1) 1(3)] by (auto simp: ticked_def algebra_simps)
qed

text \<open>A processor with its idle thread and a sleeper.\<close>

definition demo_sleeper :: thread_t where
  "demo_sleeper = demo_thread\<lparr>th_next := 16, th_prev := 16, th_state := THREAD_STATE_SLEEPING,
     th_flags := THREAD_FLAG_SLEEP_TIMER, th_sleep_time := 3\<rparr>"

definition demo_ring :: system where
  "demo_ring = demo_system\<lparr>sy_cpus := (sy_cpus demo_system)[0 := (sy_cpus demo_system ! 0)\<lparr>cd_threads := 16, cd_cur_thread := 16\<rparr>],
     sy_threads := [16 \<mapsto> demo_thread\<lparr>th_next := 32, th_prev := 32\<rparr>, 32 \<mapsto> demo_sleeper]\<rparr>"

lemma demo_ring_inv: "sched_inv demo_ring 0 16 [32]"
  by (simp add: sched_inv_def demo_ring_def demo_system_def demo_thread_def demo_sleeper_def MAX_CPUS_def cpu_queue_def ring_def
      cyclic_def thread_nx_def thread_pv_def thread_node_def slice_ok_def THREAD_STATE_RUNNING_def)

text \<open>Going to sleep: any thread but the idle one, and the switch then always happens.\<close>

definition dozing :: "thread_t \<Rightarrow> thread_t" where
  "dozing t = t\<lparr>th_state := THREAD_STATE_SLEEPING\<rparr>"

lemma sched_yield_locked_result:
  assumes inv: "sched_inv st c idle ys" and ne: "cd_cur_thread (sy_cpus st ! c) \<noteq> idle"
  obtains p st' where "sched_yield_locked c st = Inr (True, st')" "sched_inv st' c idle ys" "runnable st' p"
    "p \<noteq> cd_cur_thread (sy_cpus st ! c)" "sy_cpus st' = (sy_cpus st)[c := (sy_cpus st ! c)\<lparr>cd_cur_thread := p\<rparr>]"
    "steps (\<lambda>t t'. runs t t' \<or> runs (dozing t) t') st st'"
    "\<exists>t'. sy_threads st' (cd_cur_thread (sy_cpus st ! c)) = Some t' \<and> th_state t' = THREAD_STATE_SLEEPING"
proof -
  let ?cur = "cd_cur_thread (sy_cpus st ! c)"
  have cur: "?cur \<in> set (idle # ys)" and c: "c < length (sy_cpus st)" using inv by (simp_all add: sched_inv_def)
  then obtain ct where ct: "sy_threads st ?cur = Some ct" "?cur \<noteq> 0"
    using inv by (auto simp: sched_inv_def cpu_queue_def ring_def thread_node_def)
  define st1 where "st1 = st\<lparr>sy_threads := (sy_threads st)(?cur \<mapsto> dozing ct)\<rparr>"
  let ?R = "\<lambda>t t'. t' = t \<or> t' = dozing t"
  have stp: "steps ?R st st1" by (rule steps_upd [OF ct(1), of st1 "dozing ct"]) (simp_all add: st1_def dozing_def)
  have inv1: "sched_inv st1 c idle ys"
    by (rule sched_inv_steps [OF inv stp]) (use inv ne in \<open>auto simp: st1_def dozing_def slice_ok_def sched_inv_def\<close>)
  have cp1: "sy_cpus st1 = sy_cpus st" by (simp add: st1_def)
  obtain st0 p st' where s': "sched_next c st1 = Inr (p \<noteq> cd_cur_thread (sy_cpus st1 ! c), st')"
    "sched_inv st' c idle ys" "steps runs st1 st'" "runnable st' p"
    "sy_cpus st' = (sy_cpus st1)[c := (sy_cpus st1 ! c)\<lparr>cd_cur_thread := p\<rparr>]" by (rule sched_next_result [OF inv1])
  have y: "sched_yield_locked c st = sched_next c st1"
    using c ct by (simp add: sched_yield_locked_def upd_thread_def get_thread_def st1_def dozing_def)
  have "sy_threads st1 ?cur = Some (dozing ct)" by (simp add: st1_def)
  then obtain t' where t': "sy_threads st' ?cur = Some t'" "runs (dozing ct) t'" using s'(3) unfolding steps_def by blast
  then have sl: "th_state t' = THREAD_STATE_SLEEPING" by (simp add: runs_def sleep_view_def dozing_def)
  then have p: "p \<noteq> ?cur" using s'(4) t'(1) by (auto simp: runnable_def THREAD_STATE_RUNNING_def THREAD_STATE_SLEEPING_def)
  have "steps (\<lambda>t t'. runs t t' \<or> runs (dozing t) t') st st'" by (rule steps_trans [OF stp s'(3)]) auto
  then show ?thesis using y s' p t'(1) sl cp1 by (intro that [of st' p]) simp_all
qed

section \<open>Properties\<close>

text \<open>
  C9. \<^verbatim>\<open>sched_next\<close> returns on every well-formed queue and makes current the first thread, going round
  the ring from after the idle thread, with the largest slice left among the runnable ones; when
  all runnable threads have used up their slices, all but the idle thread get half of what they
  had plus their priority first. Nothing else changes but the current thread, its tick count and
  its saved context.
\<close>

theorem sched_next_spec:
  assumes "sched_inv st c idle ys"
  shows "\<exists>st0 p st'. sched_next c st = Inr (p \<noteq> cd_cur_thread (sy_cpus st ! c), st') \<and>
    best st0 (ys @ [idle]) p \<and>
    (st0 = st \<and> slice_left st p \<noteq> 0 \<or>
     st0 = map_threads refilled (set ys) st \<and> (\<forall>x\<in>set (ys @ [idle]). runnable st x \<longrightarrow> slice_left st x = 0)) \<and>
    sched_inv st' c idle ys \<and> runnable st' p \<and>
    sy_cpus st' = (sy_cpus st)[c := (sy_cpus st ! c)\<lparr>cd_cur_thread := p\<rparr>]"
  by (rule sched_next_result [OF assms]) (auto simp: settled_def)

theorem sched_next_spec_witness:
  "\<exists>st' p. sched_next 0 demo_ring = Inr (p \<noteq> 16, st') \<and> runnable st' p \<and> sched_inv st' 0 16 [32]"
proof -
  have "cd_cur_thread (sy_cpus demo_ring ! 0) = 16" by (simp add: demo_ring_def demo_system_def MAX_CPUS_def)
  then show ?thesis using sched_next_spec [OF demo_ring_inv] by auto
qed



text \<open>
  C11. Sleeping: a thread that went to sleep for \<open>n\<close> ticks is still asleep after fewer than \<open>n\<close> ticks of
  its processor and runnable again after \<open>n\<close> of them. Sleeping for 0 ticks counts as \<open>2 ^ 32\<close>: the counter
  is decremented before it is compared with 0.
\<close>

theorem sched_sleep_wakes:
  assumes "sched_inv st c idle ys" and "x \<in> set (idle # ys)" and "sy_threads st x = Some t"
    and "th_state t = THREAD_STATE_SLEEPING" and "th_flags t AND THREAD_FLAG_SLEEP_TIMER \<noteq> 0"
    and "n = (if th_sleep_time t = 0 then 2 ^ 32 else unat (th_sleep_time t))"
  shows "(\<forall>m<n. \<exists>st' t'. ticks m c st = Inr st' \<and> sy_threads st' x = Some t' \<and> th_state t' = THREAD_STATE_SLEEPING) \<and>
    (\<exists>st' t'. ticks n c st = Inr st' \<and> sched_inv st' c idle ys \<and> sy_threads st' x = Some t' \<and>
       th_state t' = THREAD_STATE_RUNNING)"
proof -
  let ?s = "th_sleep_time t"
  have n: "n = Suc (unat (?s - 1))"
  proof (cases "?s = 0")
    case True
    then show ?thesis using assms(6) by (simp add: unsigned_minus_1_eq_mask mask_eq_exp_minus_1)
  next
    case False
    then have "unat ?s \<noteq> 0" by (simp add: unat_eq_zero)
    then show ?thesis using assms(6) False by (simp add: unat_minus1)
  qed
  note sl = ticks_sleeper [OF assms(1-5)]
  have before: "\<exists>st' t'. ticks m c st = Inr st' \<and> sy_threads st' x = Some t' \<and> th_state t' = THREAD_STATE_SLEEPING"
    if m: "m < n" for m
  proof -
    have "m \<le> unat (?s - 1)" using m n by simp
    from sl [OF this] show ?thesis unfolding sleep_view_def by blast
  qed
  obtain st1 t1 where 1: "ticks (unat (?s - 1)) c st = Inr st1" "sched_inv st1 c idle ys" "sy_threads st1 x = Some t1"
    "sleep_view t1 = (THREAD_STATE_SLEEPING, th_flags t, ?s - of_nat (unat (?s - 1)))" using sl [OF order_refl] by blast
  have t1: "th_state t1 = THREAD_STATE_SLEEPING" "th_flags t1 AND THREAD_FLAG_SLEEP_TIMER \<noteq> 0" "th_sleep_time t1 = 1"
    using 1(4) assms(5) by (simp_all add: sleep_view_def)
  obtain b st2 where 2: "sched_tick c st1 = Inr (b, st2)" "sched_inv st2 c idle ys"
    "\<forall>y\<in>set (idle # ys). \<forall>u. sy_threads st1 y = Some u \<longrightarrow> (\<exists>t'. sy_threads st2 y = Some t' \<and> ticked u t')"
    by (rule sched_tick_result [OF 1(2)])
  from 2(3) assms(2) 1(3) obtain t2 where t2: "sy_threads st2 x = Some t2" "ticked t1 t2" by blast
  then have "th_state t2 = THREAD_STATE_RUNNING"
    using sleeper_step(2) [OF t1] by (simp add: ticked_def sleep_view_def)
  then have "\<exists>st' t'. ticks n c st = Inr st' \<and> sched_inv st' c idle ys \<and> sy_threads st' x = Some t' \<and>
       th_state t' = THREAD_STATE_RUNNING" using 1(1) 2(1,2) t2(1) by (simp add: n)
  then show ?thesis using before by blast
qed

theorem sched_sleep_wakes_witness:
  "\<exists>st' t'. ticks 3 0 demo_ring = Inr st' \<and> sy_threads st' 32 = Some t' \<and> th_state t' = THREAD_STATE_RUNNING"
proof -
  have "sy_threads demo_ring 32 = Some demo_sleeper" "th_state demo_sleeper = THREAD_STATE_SLEEPING"
    "th_flags demo_sleeper AND THREAD_FLAG_SLEEP_TIMER \<noteq> 0" "3 = (if th_sleep_time demo_sleeper = 0 then 2 ^ 32 else unat (th_sleep_time demo_sleeper))"
    by (simp_all add: demo_ring_def demo_sleeper_def THREAD_FLAG_SLEEP_TIMER_def)
  from sched_sleep_wakes [OF demo_ring_inv _ this] show ?thesis by auto
qed

end
