(* ===== verification/Sync.thy ===== *)
theory Sync
  imports Sched
begin

text \<open>
  Blocking synchronisation: the semaphores of \<^verbatim>\<open>semaphore.c\<close> and the condition variables of
  \<^verbatim>\<open>cond.c\<close>. Waiting threads are queued through \<^verbatim>\<open>next_wait\<close>, first come first served. As in the
  scheduler, an operation that switches to another thread returns with the flag set, and the rest
  of it (\<open>sema_wait_rest\<close>, \<open>cond_wait_rest\<close>) runs when the thread is switched to again.
\<close>

record semaphore_t =
  sm_threads :: thread_list_t
  sm_lock :: u32
  sm_count :: int

record condition_t =
  cn_threads :: thread_list_t

definition sema_init :: "int \<Rightarrow> semaphore_t \<Rightarrow> semaphore_t" where
  "sema_init count s = s\<lparr>sm_threads := thread_list_init, sm_lock := spinlock_init (sm_lock s), sm_count := count\<rparr>"

definition sema_wait_rest :: "nat \<Rightarrow> u32 \<Rightarrow> system \<Rightarrow> system outcome" where
  "sema_wait_rest c spl st =
     rbind (cpu_unlock c st) (\<lambda>st. Inr (st\<lparr>sy_rflags := cpu_splx spl (sy_rflags st)\<rparr>))"

definition sema_wait :: "semaphore_t \<Rightarrow> system \<Rightarrow> (bool \<times> semaphore_t \<times> system) outcome" where
  "sema_wait s st =
     (case cpu_splhi (sy_rflags st) of (spl, rf) \<Rightarrow>
      let st = st\<lparr>sy_rflags := rf\<rparr> in
      rbind (spinlock_lock (sm_lock s)) (\<lambda>k.
      let s = s\<lparr>sm_lock := k\<rparr> in
      if sm_count s > 0 then
        Inr (False, s\<lparr>sm_count := sm_count s - 1, sm_lock := spinlock_unlock k\<rparr>,
             st\<lparr>sy_rflags := cpu_splx spl rf\<rparr>)
      else
        rbind (cpu_lock st) (\<lambda>(c, st).
        rbind (arr_get (sy_cpus st) c) (\<lambda>cpu.
        rbind (thread_list_push (sm_threads s) (cd_cur_thread cpu) st) (\<lambda>(lst, st).
        let s = s\<lparr>sm_threads := lst, sm_lock := spinlock_unlock k\<rparr> in
        rbind (sched_yield_locked c st) (\<lambda>(switched, st).
        if switched then Inr (True, s, st)
        else rbind (sema_wait_rest c spl st) (\<lambda>st. Inr (False, s, st))))))))"

definition sema_signal :: "semaphore_t \<Rightarrow> system \<Rightarrow> (semaphore_t \<times> system) outcome" where
  "sema_signal s st =
     (case cpu_splhi (sy_rflags st) of (spl, rf) \<Rightarrow>
      let st = st\<lparr>sy_rflags := rf\<rparr> in
      rbind (spinlock_lock (sm_lock s)) (\<lambda>k.
      let s = s\<lparr>sm_lock := k\<rparr> in
      if thread_list_empty (sm_threads s) then
        rbind (c_int (sm_count s + 1)) (\<lambda>n.
        Inr (s\<lparr>sm_count := n, sm_lock := spinlock_unlock k\<rparr>, st\<lparr>sy_rflags := cpu_splx spl rf\<rparr>))
      else
        rbind (thread_list_pop (sm_threads s) st) (\<lambda>(t, lst).
        rbind (get_thread t st) (\<lambda>th.
        rbind (cpu_lock_id (th_cpu_id th) st) (\<lambda>(c, st).
        rbind (upd_thread t (\<lambda>th. th\<lparr>th_state := THREAD_STATE_RUNNING\<rparr>) st) (\<lambda>st.
        rbind (cpu_unlock c st) (\<lambda>st.
        Inr (s\<lparr>sm_threads := lst, sm_lock := spinlock_unlock k\<rparr>,
             st\<lparr>sy_rflags := cpu_splx spl (sy_rflags st)\<rparr>))))))))"

definition cond_init :: "condition_t \<Rightarrow> condition_t" where
  "cond_init c = c\<lparr>cn_threads := thread_list_init\<rparr>"

definition cond_wait_rest :: "nat \<Rightarrow> u32 \<Rightarrow> system \<Rightarrow> (u32 \<times> system) outcome" where
  "cond_wait_rest c lock st =
     rbind (cpu_unlock c st) (\<lambda>st.
     rbind (spinlock_lock lock) (\<lambda>lock.
     Inr (lock, st)))"

definition cond_wait :: "condition_t \<Rightarrow> u32 \<Rightarrow> system \<Rightarrow> (bool \<times> condition_t \<times> u32 \<times> system) outcome" where
  "cond_wait cv lock st =
     rbind (cpu_lock st) (\<lambda>(c, st).
     rbind (arr_get (sy_cpus st) c) (\<lambda>cpu.
     rbind (thread_list_push (cn_threads cv) (cd_cur_thread cpu) st) (\<lambda>(lst, st).
     let cv = cv\<lparr>cn_threads := lst\<rparr>; lock = spinlock_unlock lock in
     rbind (sched_yield_locked c st) (\<lambda>(switched, st).
     if switched then Inr (True, cv, lock, st)
     else rbind (cond_wait_rest c lock st) (\<lambda>(lock, st). Inr (False, cv, lock, st))))))"

definition cond_signal :: "condition_t \<Rightarrow> system \<Rightarrow> (condition_t \<times> system) outcome" where
  "cond_signal cv st =
     (if thread_list_empty (cn_threads cv) then Inr (cv, st)
      else
        rbind (thread_list_pop (cn_threads cv) st) (\<lambda>(t, lst).
        rbind (get_thread t st) (\<lambda>th.
        rbind (cpu_lock_id (th_cpu_id th) st) (\<lambda>(c, st).
        rbind (upd_thread t (\<lambda>th. th\<lparr>th_state := THREAD_STATE_RUNNING\<rparr>) st) (\<lambda>st.
        rbind (cpu_unlock c st) (\<lambda>st.
        Inr (cv\<lparr>cn_threads := lst\<rparr>, st)))))))"

definition cond_broadcast :: "condition_t \<Rightarrow> system \<Rightarrow> condition_t \<times> system" where
  "cond_broadcast cv st = (cv, st)"

subsection \<open>Queues of waiting threads\<close>

definition next_wait :: "system \<Rightarrow> u64 \<Rightarrow> u64" where
  "next_wait st p = (case sy_threads st p of None \<Rightarrow> 0 | Some t \<Rightarrow> th_next_wait t)"

definition wait_queue :: "system \<Rightarrow> thread_list_t \<Rightarrow> u64 list \<Rightarrow> bool" where
  "wait_queue st lst ws \<longleftrightarrow> chain (next_wait st) (tl_head lst) ws \<and> (ws \<noteq> [] \<longrightarrow> tl_tail lst = last ws) \<and>
     (\<forall>x\<in>set ws. thread_node st x)"

lemma wait_queue_init: "wait_queue st thread_list_init []"
  by (simp add: wait_queue_def thread_list_init_def)

lemma wait_queue_empty: "wait_queue st lst ws \<Longrightarrow> thread_list_empty lst \<longleftrightarrow> ws = []"
  by (cases ws) (auto simp: wait_queue_def thread_list_empty_def)

lemma wait_queue_cong:
  assumes "\<And>x. x \<in> set ws \<Longrightarrow> next_wait st' x = next_wait st x \<and> thread_node st' x = thread_node st x"
  shows "wait_queue st' lst ws \<longleftrightarrow> wait_queue st lst ws"
  using assms chain_cong [of ws "next_wait st'" "next_wait st" "tl_head lst"] by (auto simp: wait_queue_def)

lemma chain_snoc:
  "chain nx h ws \<Longrightarrow> t \<noteq> 0 \<Longrightarrow> t \<notin> set ws \<Longrightarrow> ws \<noteq> [] \<Longrightarrow> chain (nx(last ws := t, t := 0)) h (ws @ [t])"
proof (induction ws arbitrary: h)
  case (Cons x ws)
  show ?case
  proof (cases "ws = []")
    case False
    have "x \<notin> set ws" using chain_hd_notin_tl Cons.prems(1) by blast
    then have "x \<noteq> last ws" "x \<noteq> t" using False Cons.prems(3) by auto
    then show ?thesis using Cons False by simp
  qed (use Cons.prems in auto)
qed simp

definition rewait :: "thread_t \<Rightarrow> thread_t \<Rightarrow> bool" where
  "rewait t t' \<longleftrightarrow> t' = t\<lparr>th_next_wait := th_next_wait t'\<rparr>"

lemma rewait_trans: "rewait a b \<Longrightarrow> rewait b c \<Longrightarrow> rewait a c"
  by (cases a; cases b; cases c) (simp add: rewait_def)

lemma upd_next_wait:
  assumes "thread_node st p"
  obtains st' where "upd_thread p (\<lambda>t. t\<lparr>th_next_wait := v\<rparr>) st = Inr st'" "next_wait st' = (next_wait st)(p := v)"
    "thread_node st' = thread_node st" "steps rewait st st'" "sy_cpus st' = sy_cpus st" "sy_this st' = sy_this st"
    "sy_rflags st' = sy_rflags st"
proof -
  obtain t where t: "sy_threads st p = Some t" "p \<noteq> 0" using assms by (auto simp: thread_node_def)
  let ?st' = "st\<lparr>sy_threads := (sy_threads st)(p \<mapsto> t\<lparr>th_next_wait := v\<rparr>)\<rparr>"
  have "steps rewait st ?st'"
    by (rule steps_upd [OF t(1), of ?st' "t\<lparr>th_next_wait := v\<rparr>"]) (simp_all add: rewait_def)
  then show ?thesis using t
    by (intro that [of ?st']) (auto simp: upd_thread_def get_thread_def next_wait_def thread_node_def fun_eq_iff)
qed

lemma thread_list_push_result:
  assumes "wait_queue st lst ws" and "thread_node st t" and "t \<notin> set ws"
  obtains lst' st' where "thread_list_push lst t st = Inr (lst', st')" "wait_queue st' lst' (ws @ [t])"
    "steps rewait st st'" "sy_cpus st' = sy_cpus st" "sy_this st' = sy_this st" "sy_rflags st' = sy_rflags st"
proof (cases "ws = []")
  case True
  obtain st' where st': "upd_thread t (\<lambda>t. t\<lparr>th_next_wait := 0\<rparr>) st = Inr st'" "next_wait st' = (next_wait st)(t := 0)"
    "thread_node st' = thread_node st" "steps rewait st st'" "sy_cpus st' = sy_cpus st" "sy_this st' = sy_this st"
    "sy_rflags st' = sy_rflags st" by (rule upd_next_wait [OF assms(2)])
  have "tl_head lst = 0" using assms(1) True by (simp add: wait_queue_def)
  then show ?thesis using True st' assms(2)
    by (intro that [of "\<lparr>tl_head = t, tl_tail = t\<rparr>" st']) (auto simp: thread_list_push_def wait_queue_def thread_node_def)
next
  case False
  have w: "chain (next_wait st) (tl_head lst) ws" "tl_tail lst = last ws" "\<forall>x\<in>set ws. thread_node st x"
    using assms(1) False by (auto simp: wait_queue_def)
  have nd: "thread_node st (last ws)" "t \<noteq> 0" "tl_head lst \<noteq> 0"
    using w False assms(2) by (auto simp: thread_node_def neq_Nil_conv)
  obtain st1 where st1: "upd_thread (last ws) (\<lambda>u. u\<lparr>th_next_wait := t\<rparr>) st = Inr st1" "next_wait st1 = (next_wait st)(last ws := t)"
    "thread_node st1 = thread_node st" "steps rewait st st1" "sy_cpus st1 = sy_cpus st" "sy_this st1 = sy_this st"
    "sy_rflags st1 = sy_rflags st" by (rule upd_next_wait [OF nd(1)])
  have "thread_node st1 t" using assms(2) st1(3) by simp
  then obtain st2 where st2: "upd_thread t (\<lambda>u. u\<lparr>th_next_wait := 0\<rparr>) st1 = Inr st2" "next_wait st2 = (next_wait st1)(t := 0)"
    "thread_node st2 = thread_node st1" "steps rewait st1 st2" "sy_cpus st2 = sy_cpus st1" "sy_this st2 = sy_this st1"
    "sy_rflags st2 = sy_rflags st1" by (rule upd_next_wait)
  have "steps rewait st st2" by (rule steps_trans [OF st1(4) st2(4)]) (rule rewait_trans)
  moreover have "chain (next_wait st2) (tl_head lst) (ws @ [t])"
    using chain_snoc [OF w(1) nd(2) assms(3) False] st1(2) st2(2) by simp
  ultimately show ?thesis using st1 st2 w nd assms(2)
    by (intro that [of "lst\<lparr>tl_tail := t\<rparr>" st2]) (auto simp: thread_list_push_def wait_queue_def)
qed

lemma thread_list_pop_result:
  assumes "wait_queue st lst (w # ws)"
  obtains lst' where "thread_list_pop lst st = Inr (w, lst')" "wait_queue st lst' ws"
proof -
  have w: "tl_head lst = w" "w \<noteq> 0" "chain (next_wait st) (next_wait st w) ws" "thread_node st w" "tl_tail lst = last (w # ws)"
    "\<forall>x\<in>set ws. thread_node st x" using assms by (auto simp: wait_queue_def)
  then obtain t where "sy_threads st w = Some t" by (auto simp: thread_node_def)
  then show ?thesis using w by (intro that [of "lst\<lparr>tl_head := next_wait st w\<rparr>"])
    (auto simp: thread_list_pop_def Let_def get_thread_def next_wait_def wait_queue_def)
qed

lemma sched_inv_lock:
  assumes "sched_inv st c idle ys" and "\<And>d. cd_threads (f d) = cd_threads d" "\<And>d. cd_cur_thread (f d) = cd_cur_thread d"
  shows "sched_inv (upd_desc c f (st\<lparr>sy_rflags := rf\<rparr>)) c idle ys"
proof (rule sched_inv_steps [OF assms(1), where R = "(=)"])
  show "steps (=) st (upd_desc c f (st\<lparr>sy_rflags := rf\<rparr>))" by (simp add: steps_def)
qed (use assms in \<open>auto simp: sched_inv_def upd_desc_def\<close>)

lemma sched_inv_rewait:
  assumes "sched_inv st c idle ys" and "steps rewait st st'" and "sy_cpus st' = sy_cpus st"
  shows "sched_inv st' c idle ys"
proof (rule sched_inv_steps [OF assms(1,2)])
  have r: "slice_ok t' = slice_ok t \<and> th_state t' = th_state t" if "rewait t t'" for t t'
    using that by (cases t; cases t') (simp add: rewait_def slice_ok_def)
  show "slice_ok t'" if "rewait t t'" "slice_ok t" for t t' using r [OF that(1)] that(2) by simp
  show "th_state t' = THREAD_STATE_RUNNING" if "rewait t t'" "th_state t = THREAD_STATE_RUNNING" for t t'
    using r [OF that(1)] that(2) by simp
qed (use assms in \<open>auto simp: sched_inv_def\<close>)

text \<open>Blocking the current thread at the end of a wait queue, the common part of both waits.\<close>

lemma block_result:
  assumes inv: "sched_inv st c idle ys" and c: "sy_this st = c" and lk: "cd_lock (sy_cpus st ! c) = 0"
    and cur: "cd_cur_thread (sy_cpus st ! c) = x" "x \<noteq> idle" and w: "wait_queue st lst ws" "x \<notin> set ws"
  obtains st1 lst' st2 st' where "cpu_lock st = Inr (c, st1)" "arr_get (sy_cpus st1) c = Inr (sy_cpus st1 ! c)"
    "cd_cur_thread (sy_cpus st1 ! c) = x" "thread_list_push lst x st1 = Inr (lst', st2)"
    "sched_yield_locked c st2 = Inr (True, st')" "wait_queue st' lst' (ws @ [x])" "sched_inv st' c idle ys"
    "cd_cur_thread (sy_cpus st' ! c) \<noteq> x" "runnable st' (cd_cur_thread (sy_cpus st' ! c))"
    "\<exists>t. sy_threads st' x = Some t \<and> th_state t = THREAD_STATE_SLEEPING"
proof -
  have cl: "c < length (sy_cpus st)" using inv by (simp add: sched_inv_def)
  define st1 where "st1 = upd_desc c (\<lambda>d. d\<lparr>cd_lock := 1\<rparr>) st"
  have l: "cpu_lock st = Inr (c, st1)" using cl lk by (simp add: cpu_lock_def get_cpu_def c lock_cpu_free st1_def)
  have inv1: "sched_inv st1 c idle ys"
    using sched_inv_lock [OF inv, of "\<lambda>d. d\<lparr>cd_lock := 1\<rparr>" "sy_rflags st"] by (simp add: st1_def)
  have c1: "sy_cpus st1 ! c = (sy_cpus st ! c)\<lparr>cd_lock := 1\<rparr>" "c < length (sy_cpus st1)" using cl by (simp_all add: st1_def upd_desc_def)
  have w1: "wait_queue st1 lst ws" using w(1) by (subst wait_queue_cong [of _ _ st]) (simp_all add: next_wait_def thread_node_def st1_def)
  have "x \<in> set (idle # ys)" using inv cur(1) by (auto simp: sched_inv_def)
  then have nd: "thread_node st1 x" using inv1 by (auto simp: sched_inv_def cpu_queue_def ring_def)
  obtain lst' st2 where p: "thread_list_push lst x st1 = Inr (lst', st2)" "wait_queue st2 lst' (ws @ [x])" "steps rewait st1 st2"
    "sy_cpus st2 = sy_cpus st1" by (rule thread_list_push_result [OF w1 nd w(2)])
  have inv2: "sched_inv st2 c idle ys" by (rule sched_inv_rewait [OF inv1 p(3,4)])
  have ne: "cd_cur_thread (sy_cpus st2 ! c) \<noteq> idle" "cd_cur_thread (sy_cpus st2 ! c) = x" using cur c1(1) p(4) by simp_all
  obtain q st' where y: "sched_yield_locked c st2 = Inr (True, st')" "sched_inv st' c idle ys" "runnable st' q"
    "q \<noteq> cd_cur_thread (sy_cpus st2 ! c)" "sy_cpus st' = (sy_cpus st2)[c := (sy_cpus st2 ! c)\<lparr>cd_cur_thread := q\<rparr>]"
    "steps (\<lambda>t t'. runs t t' \<or> runs (dozing t) t') st2 st'"
    "\<exists>t'. sy_threads st' (cd_cur_thread (sy_cpus st2 ! c)) = Some t' \<and> th_state t' = THREAD_STATE_SLEEPING"
    by (rule sched_yield_locked_result [OF inv2 ne(1)])
  have w': "wait_queue st' lst' (ws @ [x])"
  proof (subst wait_queue_cong [of _ _ st2])
    fix z assume "z \<in> set (ws @ [x])"
    then have nd2: "thread_node st2 z" using p(2) unfolding wait_queue_def by blast
    then obtain t where t: "sy_threads st2 z = Some t" by (auto simp: thread_node_def)
    then obtain t' where "sy_threads st' z = Some t'" "runs t t' \<or> runs (dozing t) t'" using y(6) unfolding steps_def by blast
    then show "next_wait st' z = next_wait st2 z \<and> thread_node st' z = thread_node st2 z"
      using t nd2 by (auto simp: next_wait_def thread_node_def runs_def dozing_def)
  qed (rule p(2))
  have "cd_cur_thread (sy_cpus st' ! c) = q" using y(5) c1(2) p(4) by simp
  then show ?thesis using that [OF l _ _ p(1) y(1) w' y(2)] y(3,4,7) ne(2) c1 cur(1) by simp
qed

definition demo_busy :: system where
  "demo_busy = demo_ring\<lparr>sy_cpus := (sy_cpus demo_ring)[0 := (sy_cpus demo_ring ! 0)\<lparr>cd_cur_thread := 32\<rparr>],
     sy_threads := (sy_threads demo_ring)(32 \<mapsto> demo_sleeper\<lparr>th_state := THREAD_STATE_RUNNING\<rparr>)\<rparr>"

lemma demo_busy_inv: "sched_inv demo_busy 0 16 [32]"
  by (simp add: sched_inv_def demo_busy_def demo_ring_def demo_system_def demo_thread_def demo_sleeper_def MAX_CPUS_def
      cpu_queue_def ring_def cyclic_def thread_nx_def thread_pv_def thread_node_def slice_ok_def THREAD_STATE_RUNNING_def)

section \<open>Properties\<close>

text \<open>
  C12. \<^verbatim>\<open>sema_wait\<close> refines the P operation of a semaphore with a count and a first-in first-out queue of
  waiters: with a positive count it takes one unit and returns with the caller's flags; otherwise
  the calling thread, if it is not the idle thread, becomes the last waiter, goes to sleep, and the
  processor runs another runnable thread. The semaphore's own lock is free afterwards.
\<close>

theorem sema_wait_spec:
  assumes "sched_inv st c idle ys" and "sy_this st = c" and "cd_lock (sy_cpus st ! c) = 0"
    and "cd_cur_thread (sy_cpus st ! c) = x" and "x \<noteq> idle" and "sm_lock s = 0"
    and "wait_queue st (sm_threads s) ws" and "x \<notin> set ws"
  shows "if sm_count s > 0
    then sema_wait s st = Inr (False, s\<lparr>sm_count := sm_count s - 1\<rparr>, st)
    else \<exists>s' st' t. sema_wait s st = Inr (True, s', st') \<and> sm_count s' = sm_count s \<and> sm_lock s' = 0 \<and>
      wait_queue st' (sm_threads s') (ws @ [x]) \<and> sched_inv st' c idle ys \<and>
      sy_threads st' x = Some t \<and> th_state t = THREAD_STATE_SLEEPING \<and>
      cd_cur_thread (sy_cpus st' ! c) \<noteq> x \<and> runnable st' (cd_cur_thread (sy_cpus st' ! c))"
proof -
  obtain spl rf where sp: "cpu_splhi (sy_rflags st) = (spl, rf)" by (cases "cpu_splhi (sy_rflags st)")
  then have x: "cpu_splx spl rf = sy_rflags st" using splx_splhi [of "sy_rflags st"] by simp
  have fl: "s\<lparr>sm_lock := 0\<rparr> = s" using assms(6) by simp
  show ?thesis
  proof (cases "sm_count s > 0")
    case True
    have "s\<lparr>sm_lock := 0, sm_count := sm_count s - 1\<rparr> = (s\<lparr>sm_lock := 0\<rparr>)\<lparr>sm_count := sm_count s - 1\<rparr>" by simp
    then have "s\<lparr>sm_lock := 0, sm_count := sm_count s - 1\<rparr> = s\<lparr>sm_count := sm_count s - 1\<rparr>" by (simp only: fl)
    then show ?thesis using True assms(6) by (simp add: sema_wait_def sp x Let_def)
  next
    case False
    let ?st = "st\<lparr>sy_rflags := rf\<rparr>"
    have inv: "sched_inv ?st c idle ys"
      using sched_inv_lock [OF assms(1), of "\<lambda>d. d" rf] by (simp add: upd_desc_def)
    have w: "wait_queue ?st (sm_threads s) ws"
      using assms(7) by (subst wait_queue_cong [of _ _ st]) (simp_all add: next_wait_def thread_node_def)
    obtain st1 lst' st2 st' where b: "cpu_lock ?st = Inr (c, st1)" "arr_get (sy_cpus st1) c = Inr (sy_cpus st1 ! c)"
      "cd_cur_thread (sy_cpus st1 ! c) = x" "thread_list_push (sm_threads s) x st1 = Inr (lst', st2)"
      "sched_yield_locked c st2 = Inr (True, st')" "wait_queue st' lst' (ws @ [x])" "sched_inv st' c idle ys"
      "cd_cur_thread (sy_cpus st' ! c) \<noteq> x" "runnable st' (cd_cur_thread (sy_cpus st' ! c))"
      "\<exists>t. sy_threads st' x = Some t \<and> th_state t = THREAD_STATE_SLEEPING"
      by (rule block_result [OF inv _ _ _ assms(5) w assms(8)]) (use assms in simp_all)
    let ?s' = "s\<lparr>sm_lock := 1, sm_threads := lst', sm_lock := 0\<rparr>"
    have "sema_wait s st = Inr (True, s\<lparr>sm_threads := lst', sm_lock := 0\<rparr>, st')"
      using False assms(6) b(1-5) by (simp add: sema_wait_def sp Let_def)
    then show ?thesis using False b(6-10) by auto
  qed
qed

theorem sema_wait_spec_witness:
  "\<exists>s' st'. sema_wait \<lparr>sm_threads = thread_list_init, sm_lock = 0, sm_count = 0\<rparr> demo_busy = Inr (True, s', st') \<and>
     wait_queue st' (sm_threads s') [32]"
proof -
  have "sy_this demo_busy = 0" "cd_lock (sy_cpus demo_busy ! 0) = 0" "cd_cur_thread (sy_cpus demo_busy ! 0) = 32"
    by (simp_all add: demo_busy_def demo_ring_def demo_system_def MAX_CPUS_def)
  from sema_wait_spec [OF demo_busy_inv this, of "\<lparr>sm_threads = thread_list_init, sm_lock = 0, sm_count = 0\<rparr>" "[]"]
  show ?thesis using wait_queue_init by auto
qed

text \<open>
  C13. \<^verbatim>\<open>sema_signal\<close> refines the V operation: with no waiter the count goes up by one; otherwise the
  thread that has waited longest leaves the queue and becomes runnable, the count stays, and no other
  thread changes. Flags and locks are as before in both cases.
\<close>

theorem sema_signal_spec:
  assumes "sm_lock s = 0" and "wait_queue st (sm_threads s) ws" and "sm_count s < 2 ^ 31 - 1" and "- (2 ^ 31) \<le> sm_count s"
    and "\<forall>w t. ws \<noteq> [] \<and> w = hd ws \<and> sy_threads st w = Some t \<longrightarrow>
      unat (th_cpu_id t) < length (sy_cpus st) \<and> cd_lock (sy_cpus st ! unat (th_cpu_id t)) = 0"
  shows "case ws of
      [] \<Rightarrow> sema_signal s st = Inr (s\<lparr>sm_count := sm_count s + 1\<rparr>, st)
    | w # ws' \<Rightarrow> \<exists>s' st' t. sema_signal s st = Inr (s', st') \<and> sm_count s' = sm_count s \<and> sm_lock s' = 0 \<and>
        wait_queue st' (sm_threads s') ws' \<and> sy_threads st w = Some t \<and>
        st' = st\<lparr>sy_threads := (sy_threads st)(w \<mapsto> t\<lparr>th_state := THREAD_STATE_RUNNING\<rparr>)\<rparr>"
proof -
  obtain spl rf where sp: "cpu_splhi (sy_rflags st) = (spl, rf)" by (cases "cpu_splhi (sy_rflags st)")
  then have x: "cpu_splx spl rf = sy_rflags st" using splx_splhi [of "sy_rflags st"] by simp
  note e = wait_queue_empty [OF assms(2)]
  show ?thesis
  proof (cases ws)
    case Nil
    have "s\<lparr>sm_lock := 0\<rparr> = s" using assms(1) by simp
    then have "s\<lparr>sm_lock := 0, sm_count := sm_count s + 1\<rparr> = s\<lparr>sm_count := sm_count s + 1\<rparr>"
      by (metis semaphore_t.update_convs(2,3))
    then show ?thesis using Nil assms(1,3,4) e by (simp add: sema_signal_def sp x Let_def c_int_def)
  next
    case (Cons w ws')
    let ?st = "st\<lparr>sy_rflags := rf\<rparr>"
    have w: "wait_queue ?st (sm_threads s) (w # ws')"
      using assms(2) Cons by (subst wait_queue_cong [of _ _ st]) (simp_all add: next_wait_def thread_node_def)
    obtain lst' where p: "thread_list_pop (sm_threads s) ?st = Inr (w, lst')" "wait_queue ?st lst' ws'"
      by (rule thread_list_pop_result [OF w])
    obtain t where t: "sy_threads st w = Some t" "w \<noteq> 0" using w by (auto simp: wait_queue_def thread_node_def)
    let ?c = "unat (th_cpu_id t)"
    have c: "?c < length (sy_cpus st)" "cd_lock (sy_cpus st ! ?c) = 0" using assms(5) Cons t(1) by auto
    let ?st' = "st\<lparr>sy_threads := (sy_threads st)(w \<mapsto> t\<lparr>th_state := THREAD_STATE_RUNNING\<rparr>)\<rparr>"
    have same: "(sy_cpus st)[?c := (sy_cpus st ! ?c)\<lparr>cd_lock := 0\<rparr>] = sy_cpus st"
      using c(2) by (simp add: list_update_same_conv [OF c(1)])
    have "sema_signal s st = Inr (s\<lparr>sm_lock := 1, sm_threads := lst', sm_lock := 0\<rparr>, ?st')"
      using Cons assms(1) e p(1) t c same x
      by (simp add: sema_signal_def sp Let_def get_thread_def cpu_lock_id_def lock_cpu_free upd_thread_def cpu_unlock_desc)
        (simp add: upd_desc_def)
    moreover have "wait_queue ?st' lst' ws'"
      using p(2) t by (subst wait_queue_cong [of _ _ ?st]) (auto simp: next_wait_def thread_node_def)
    ultimately show ?thesis using Cons t(1) by auto
  qed
qed

theorem sema_signal_spec_witness:
  "\<exists>s' st' t. sema_signal \<lparr>sm_threads = \<lparr>tl_head = 32, tl_tail = 32\<rparr>, sm_lock = 0, sm_count = 0\<rparr> demo_ring = Inr (s', st') \<and>
     wait_queue st' (sm_threads s') [] \<and> sy_threads st' 32 = Some t \<and> th_state t = THREAD_STATE_RUNNING"
proof -
  have "wait_queue demo_ring \<lparr>tl_head = 32, tl_tail = 32\<rparr> [32]"
    by (simp add: wait_queue_def next_wait_def thread_node_def demo_ring_def demo_sleeper_def demo_thread_def)
  moreover have "\<forall>w t. w = hd [32] \<and> sy_threads demo_ring w = Some t \<longrightarrow>
      unat (th_cpu_id t) < length (sy_cpus demo_ring) \<and> cd_lock (sy_cpus demo_ring ! unat (th_cpu_id t)) = 0"
    by (simp add: demo_ring_def demo_sleeper_def demo_thread_def demo_system_def MAX_CPUS_def)
  ultimately show ?thesis
    using sema_signal_spec [of "\<lparr>sm_threads = \<lparr>tl_head = 32, tl_tail = 32\<rparr>, sm_lock = 0, sm_count = 0\<rparr>" demo_ring "[32]"] by auto
qed

end
