(* ===== verification/Ports.thy ===== *)
theory Ports
  imports Prelude
begin

text \<open>
  Port and memory-mapped device accesses of \<^verbatim>\<open>io.h\<close>, and the two devices that are only written to:
  the 8259 interrupt controllers of \<^verbatim>\<open>pic.c\<close> and the 8254 timer of \<^verbatim>\<open>pit.c\<close>.

  What the devices see is the list of accesses the kernel made, oldest first. A device is a
  parameter of the model: a function that answers a read from the accesses made before it.
\<close>

datatype io_event =
    In8 u16 | Out8 u16 u8
  | In16 u16 | Out16 u16 u16
  | In32 u16 | Out32 u16 u32
  | MmioRead u64 | MmioWrite u64 u32

type_synonym history = "io_event list"
type_synonym device = "history \<Rightarrow> io_event \<Rightarrow> u32"

subsection \<open>Accesses\<close>

text \<open>The port is in \<^verbatim>\<open>%dx\<close>: the low 16 bits of the argument.\<close>

definition inb :: "device \<Rightarrow> u32 \<Rightarrow> history \<Rightarrow> u8 \<times> history" where
  "inb dev port io = (ucast (dev io (In8 (ucast port))), io @ [In8 (ucast port)])"

definition outb :: "u32 \<Rightarrow> u8 \<Rightarrow> history \<Rightarrow> history" where
  "outb port data io = io @ [Out8 (ucast port) data]"

definition inw :: "device \<Rightarrow> u32 \<Rightarrow> history \<Rightarrow> u16 \<times> history" where
  "inw dev port io = (ucast (dev io (In16 (ucast port))), io @ [In16 (ucast port)])"

definition outw :: "u32 \<Rightarrow> u16 \<Rightarrow> history \<Rightarrow> history" where
  "outw port data io = io @ [Out16 (ucast port) data]"

definition inl :: "device \<Rightarrow> u32 \<Rightarrow> history \<Rightarrow> u32 \<times> history" where
  "inl dev port io = (dev io (In32 (ucast port)), io @ [In32 (ucast port)])"

definition outl :: "u32 \<Rightarrow> u32 \<Rightarrow> history \<Rightarrow> history" where
  "outl port data io = io @ [Out32 (ucast port) data]"

definition mmio_read_u32 :: "device \<Rightarrow> u64 \<Rightarrow> history \<Rightarrow> u32 \<times> history" where
  "mmio_read_u32 dev p io = (dev io (MmioRead p), io @ [MmioRead p])"

definition mmio_write_u32 :: "u64 \<Rightarrow> u32 \<Rightarrow> history \<Rightarrow> history" where
  "mmio_write_u32 p data io = io @ [MmioWrite p data]"

subsection \<open>The interrupt controllers\<close>

definition BIT :: "nat \<Rightarrow> u32" where "BIT x = push_bit x 1"

definition MASTER_PIC_CMD :: u32 where "MASTER_PIC_CMD = 0x20"
definition MASTER_PIC_INTMASK :: u32 where "MASTER_PIC_INTMASK = 0x21"
definition SECOND_PIC_CMD :: u32 where "SECOND_PIC_CMD = 0xA0"
definition SECOND_PIC_INTMASK :: u32 where "SECOND_PIC_INTMASK = 0xA1"

definition ICW1_NEED_ICW4 :: u32 where "ICW1_NEED_ICW4 = BIT 0"
definition ICW1_BASE :: u32 where "ICW1_BASE = BIT 4"
definition ICW2_INTVEC_MASK :: u32 where "ICW2_INTVEC_MASK = BIT 7 OR BIT 6 OR BIT 5 OR BIT 4 OR BIT 3"
definition ICW3_INT_2_SLAVE :: u32 where "ICW3_INT_2_SLAVE = BIT 2"
definition ICW3_SLAVE_ON_2 :: u32 where "ICW3_SLAVE_ON_2 = 0x02"
definition ICW4_80x86_MODE :: u32 where "ICW4_80x86_MODE = BIT 0"
definition OCW1_MASK_OFF_ALL :: u32 where "OCW1_MASK_OFF_ALL = 0xFF"
definition OCW2_NON_SPEC_EOI :: u32 where "OCW2_NON_SPEC_EOI = BIT 5"
definition SLAVE_IRQ :: u16 where "SLAVE_IRQ = 8"
definition MASTER_SLAVE :: u16 where "MASTER_SLAVE = 2"

record pic =
  irq_mask :: u16
  pic_io :: history

definition pic_init :: "history \<Rightarrow> history" where
  "pic_init io =
     (let master = (0x20 :: u16); slave = (0x28 :: u16);
          io = outb MASTER_PIC_CMD (ucast (ICW1_BASE OR ICW1_NEED_ICW4)) io;
          io = outb MASTER_PIC_INTMASK (ucast (ICW2_INTVEC_MASK AND ucast master)) io;
          io = outb MASTER_PIC_INTMASK (ucast ICW3_INT_2_SLAVE) io;
          io = outb MASTER_PIC_INTMASK (ucast ICW4_80x86_MODE) io;
          io = outb MASTER_PIC_INTMASK (ucast OCW1_MASK_OFF_ALL) io;
          io = outb MASTER_PIC_CMD (ucast OCW2_NON_SPEC_EOI) io;
          io = outb SECOND_PIC_CMD (ucast (ICW1_BASE OR ICW1_NEED_ICW4)) io;
          io = outb SECOND_PIC_INTMASK (ucast (ICW2_INTVEC_MASK AND ucast slave)) io;
          io = outb SECOND_PIC_INTMASK (ucast ICW3_SLAVE_ON_2) io;
          io = outb SECOND_PIC_INTMASK (ucast ICW4_80x86_MODE) io;
          io = outb SECOND_PIC_INTMASK (ucast OCW1_MASK_OFF_ALL) io;
          io = outb SECOND_PIC_CMD (ucast OCW2_NON_SPEC_EOI) io in
      io)"

definition irq_ack_master :: "history \<Rightarrow> history" where
  "irq_ack_master io = io @ [Out8 0x20 0x20]"

definition irq_ack_slave :: "history \<Rightarrow> history" where
  "irq_ack_slave io = io @ [Out8 0x20 0x20, Out8 0xA0 0x20]"

definition pic_eoi :: "u32 \<Rightarrow> history \<Rightarrow> history" where
  "pic_eoi irq_num io = (if irq_num > 8 then irq_ack_master io else irq_ack_slave io)"

text \<open>\<^verbatim>\<open>1 << n\<close> is a shift of an \<^verbatim>\<open>int\<close>; a count of 32 or more has no defined behaviour.\<close>

definition shl_int :: "nat \<Rightarrow> u32 outcome" where
  "shl_int n = (if n < 32 then Inr (push_bit n 1) else Inl Undefined)"

definition write_masks :: "pic \<Rightarrow> pic" where
  "write_masks st =
     st\<lparr>pic_io := outb SECOND_PIC_INTMASK (ucast (drop_bit 8 (irq_mask st) AND 0xff))
                  (outb MASTER_PIC_INTMASK (ucast (irq_mask st AND 0xff)) (pic_io st))\<rparr>"

definition pic_enable_irq :: "u16 \<Rightarrow> pic \<Rightarrow> pic outcome" where
  "pic_enable_irq irq_num st =
     rbind (shl_int (unat irq_num)) (\<lambda>b.
     let st = st\<lparr>irq_mask := irq_mask st AND ucast (NOT b)\<rparr> in
     rbind (if irq_num \<ge> SLAVE_IRQ
            then rbind (shl_int (unat MASTER_SLAVE)) (\<lambda>b. Inr (st\<lparr>irq_mask := irq_mask st AND ucast (NOT b)\<rparr>))
            else Inr st) (\<lambda>st.
     Inr (write_masks st)))"

definition pic_disable_irq :: "u16 \<Rightarrow> pic \<Rightarrow> pic outcome" where
  "pic_disable_irq irq_num st =
     rbind (shl_int (unat irq_num)) (\<lambda>b.
     let st = st\<lparr>irq_mask := irq_mask st OR ucast b\<rparr> in
     rbind (if irq_num \<ge> SLAVE_IRQ
            then rbind (shl_int (unat MASTER_SLAVE)) (\<lambda>b. Inr (st\<lparr>irq_mask := irq_mask st OR ucast b\<rparr>))
            else Inr st) (\<lambda>st.
     Inr (write_masks st)))"

subsection \<open>The timer\<close>

definition PITCTR0_PORT :: u32 where "PITCTR0_PORT = 0x40"
definition PITCTL_PORT :: u32 where "PITCTL_PORT = 0x43"
definition PIT_C0 :: u32 where "PIT_C0 = 0x00"
definition PIT_LOADMODE :: u32 where "PIT_LOADMODE = 0x30"
definition PIT_SQUAREMODE :: u32 where "PIT_SQUAREMODE = 0x06"
definition CLKNUM :: u32 where "CLKNUM = 1193167"
definition HZ :: u32 where "HZ = 1000"

definition pit_init :: "history \<Rightarrow> history" where
  "pit_init io =
     (let clock = CLKNUM div HZ;
          io = outb PITCTL_PORT (ucast (PIT_C0 OR PIT_SQUAREMODE OR PIT_LOADMODE)) io;
          io = outb PITCTR0_PORT (ucast (clock AND 0x00FF)) io;
          io = outb PITCTR0_PORT (ucast (drop_bit 8 (clock AND 0xFF00))) io in
      io)"

subsection \<open>What the controllers do with the writes\<close>

text \<open>
  The mask register of a controller holds the byte last written to its odd port; a request line is
  open when its bit is 0. A line of the second controller reaches the processor through line 2 of
  the first one.
\<close>

definition last_out :: "u16 \<Rightarrow> history \<Rightarrow> u8 option" where
  "last_out port io = fold (\<lambda>e r. case e of Out8 p d \<Rightarrow> if p = port then Some d else r | _ \<Rightarrow> r) io None"

definition line_open :: "history \<Rightarrow> nat \<Rightarrow> bool" where
  "line_open io i =
     (if i < 8 then (case last_out 0x21 io of Some m \<Rightarrow> \<not> bit m i | None \<Rightarrow> False)
      else (case last_out 0xA1 io of Some m \<Rightarrow> \<not> bit m (i - 8) | None \<Rightarrow> False))"

definition delivered :: "history \<Rightarrow> nat \<Rightarrow> bool" where
  "delivered io i \<longleftrightarrow> i < 16 \<and> line_open io i \<and> (i \<ge> 8 \<longrightarrow> line_open io 2)"

text \<open>The variable \<^verbatim>\<open>irq_mask\<close> and the two registers agree.\<close>

definition pic_sync :: "pic \<Rightarrow> bool" where
  "pic_sync st \<longleftrightarrow> (\<forall>i<16. line_open (pic_io st) i \<longleftrightarrow> \<not> bit (irq_mask st) i)"

lemma bit_byte: "bit (0xff :: int) i \<longleftrightarrow> i < 8"
proof -
  have "(0xff :: int) = mask 8" by (simp add: mask_numeral)
  then show ?thesis by (simp only: bit_mask_iff) auto
qed

lemma line_open_write:
  fixes m :: u16
  assumes "i < 16"
  shows "line_open (outb SECOND_PIC_INTMASK (ucast (drop_bit 8 m AND 0xff)) (outb MASTER_PIC_INTMASK (ucast (m AND 0xff)) io)) i
    \<longleftrightarrow> \<not> bit m i"
proof -
  have p: "ucast SECOND_PIC_INTMASK = (0xA1 :: u16)" "ucast MASTER_PIC_INTMASK = (0x21 :: u16)"
    by (simp_all add: SECOND_PIC_INTMASK_def MASTER_PIC_INTMASK_def)
  show ?thesis using assms by (simp add: outb_def p line_open_def last_out_def bit_ucast_iff bit_and_iff bit_byte bit_drop_bit_eq) arith
qed

lemma shl_int_small: "n < 32 \<Longrightarrow> shl_int n = Inr (push_bit n 1)"
  by (simp add: shl_int_def)

lemma bit_one_shift: "n < 16 \<Longrightarrow> i < 16 \<Longrightarrow> bit (ucast (push_bit n 1 :: u32) :: u16) i \<longleftrightarrow> i = n"
  by (auto simp: bit_ucast_iff bit_push_bit_iff bit_1_iff simp del: push_bit_of_1 push_bit_numeral)

lemma bit_not_one_shift: "n < 16 \<Longrightarrow> i < 16 \<Longrightarrow> bit (ucast (NOT (push_bit n 1 :: u32)) :: u16) i \<longleftrightarrow> i \<noteq> n"
  by (auto simp: bit_ucast_iff bit_not_iff bit_push_bit_iff bit_1_iff simp del: push_bit_of_1 push_bit_numeral)

lemma write_masks_sync [simp]: "pic_sync (write_masks st)" "irq_mask (write_masks st) = irq_mask st"
  by (simp_all add: pic_sync_def write_masks_def line_open_write)

lemma pic_enable_irq_result:
  assumes "n < 16"
  shows "\<exists>st'. pic_enable_irq n st = Inr st' \<and> pic_sync st' \<and>
    (\<forall>i<16. bit (irq_mask st') i \<longleftrightarrow> bit (irq_mask st) i \<and> i \<noteq> unat n \<and> \<not> (8 \<le> n \<and> i = 2))"
proof -
  have n: "unat n < 16" "unat n < 32" "unat MASTER_SLAVE = 2" using assms
    by (simp_all add: unat_less_iff MASTER_SLAVE_def)
  show ?thesis
    using n by (auto simp: pic_enable_irq_def shl_int_small Let_def SLAVE_IRQ_def bit_and_iff bit_not_one_shift simp del: push_bit_of_1 push_bit_numeral)
qed

lemma pic_disable_irq_result:
  assumes "n < 16"
  shows "\<exists>st'. pic_disable_irq n st = Inr st' \<and> pic_sync st' \<and>
    (\<forall>i<16. bit (irq_mask st') i \<longleftrightarrow> bit (irq_mask st) i \<or> i = unat n \<or> (8 \<le> n \<and> i = 2))"
proof -
  have n: "unat n < 16" "unat n < 32" "unat MASTER_SLAVE = 2" using assms
    by (simp_all add: unat_less_iff MASTER_SLAVE_def)
  show ?thesis
    using n by (auto simp: pic_disable_irq_def shl_int_small Let_def SLAVE_IRQ_def bit_or_iff bit_one_shift simp del: push_bit_of_1 push_bit_numeral)
qed

lemma pic_sync_delivered:
  "pic_sync st \<Longrightarrow> i < 16 \<Longrightarrow> delivered (pic_io st) i \<longleftrightarrow> \<not> bit (irq_mask st) i \<and> (8 \<le> i \<longrightarrow> \<not> bit (irq_mask st) 2)"
  by (auto simp: pic_sync_def delivered_def)

text \<open>
  What a driver relies on when it enables a line of an interrupt controller: the inputs the line passes through
  are opened and nothing else changes. Enabling lines one after the other then opens all their inputs and no
  others.
\<close>

locale irq_controller =
  fixes enable :: "'l \<Rightarrow> 's \<Rightarrow> 's outcome" and invar :: "'s \<Rightarrow> bool" and is_line :: "'l \<Rightarrow> bool"
    and opened :: "'s \<Rightarrow> 'i set" and opens :: "'l \<Rightarrow> 'i set"
  assumes enable_line: "invar s \<Longrightarrow> is_line l \<Longrightarrow> \<exists>s'. enable l s = Inr s' \<and> invar s' \<and> opened s' = opened s \<union> opens l"
begin

lemma enable_lines:
  assumes "invar s" and "list_all is_line ls"
  shows "\<exists>s'. fold_outcome enable ls s = Inr s' \<and> invar s' \<and> opened s' = opened s \<union> (\<Union>l\<in>set ls. opens l)"
  using assms
proof (induction ls arbitrary: s)
  case (Cons l ls)
  then obtain s1 where 1: "enable l s = Inr s1" "invar s1" "opened s1 = opened s \<union> opens l"
    using enable_line [of s l] by auto
  then obtain s2 where "fold_outcome enable ls s1 = Inr s2" "invar s2" "opened s2 = opened s1 \<union> (\<Union>l\<in>set ls. opens l)"
    using Cons.IH [of s1] Cons.prems by auto
  then show ?case using 1 by (simp add: Un_assoc)
qed simp

end

definition pic_inputs :: "u16 \<Rightarrow> nat set" where
  "pic_inputs n = insert (unat n) (if 8 \<le> n then {2} else {})"

definition pic_open :: "pic \<Rightarrow> nat set" where
  "pic_open st = {i. i < 16 \<and> line_open (pic_io st) i}"

interpretation pic_controller: irq_controller pic_enable_irq pic_sync "\<lambda>n. n < 16" pic_open pic_inputs
proof
  fix st and n :: u16
  assume sync: "pic_sync st" and n: "n < 16"
  obtain st' where st': "pic_enable_irq n st = Inr st'" "pic_sync st'"
    and b: "\<forall>i<16. bit (irq_mask st') i \<longleftrightarrow> bit (irq_mask st) i \<and> i \<noteq> unat n \<and> \<not> (8 \<le> n \<and> i = 2)"
    using pic_enable_irq_result [OF n, of st] by blast
  have "unat n < 16" using n by (simp add: unat_less_iff)
  then have "pic_open st' = pic_open st \<union> pic_inputs n"
    using b sync st'(2) by (auto simp: pic_sync_def pic_open_def pic_inputs_def)
  then show "\<exists>st'. pic_enable_irq n st = Inr st' \<and> pic_sync st' \<and> pic_open st' = pic_open st \<union> pic_inputs n" using st' by blast
qed

lemma delivered_open: "n < 16 \<Longrightarrow> delivered (pic_io st) (unat n) \<longleftrightarrow> pic_inputs n \<subseteq> pic_open st"
  by (auto simp: delivered_def pic_open_def pic_inputs_def unat_less_iff unat_le_iff)

text \<open>
  C25. \<^verbatim>\<open>pic_enable_irq\<close>: after any sequence of calls a request on each of the lines reaches the processor, every
  line that reached it before still does, and no other input is opened except, for lines of the second
  controller, the cascade.
\<close>

theorem pic_enable_irq_spec:
  assumes "pic_sync st" and "\<forall>n\<in>set ns. n < 16"
  shows "\<exists>st'. fold_outcome pic_enable_irq ns st = Inr st' \<and> pic_sync st' \<and> (\<forall>n\<in>set ns. delivered (pic_io st') (unat n)) \<and>
    (\<forall>n<(16 :: u16). delivered (pic_io st) (unat n) \<longrightarrow> delivered (pic_io st') (unat n)) \<and>
    (\<forall>i<16. line_open (pic_io st') i \<longleftrightarrow> line_open (pic_io st) i \<or> (\<exists>n\<in>set ns. i = unat n \<or> 8 \<le> n \<and> i = 2))"
proof -
  obtain st' where st': "fold_outcome pic_enable_irq ns st = Inr st'" "pic_sync st'" "pic_open st' = pic_open st \<union> (\<Union>n\<in>set ns. pic_inputs n)"
    using pic_controller.enable_lines [OF assms(1), of ns] assms(2) by (auto simp: list_all_iff)
  have "\<forall>n\<in>set ns. delivered (pic_io st') (unat n)" "\<forall>n<(16 :: u16). delivered (pic_io st) (unat n) \<longrightarrow> delivered (pic_io st') (unat n)"
    using assms(2) by (auto simp: delivered_open st'(3))
  moreover have "line_open (pic_io st') i \<longleftrightarrow> line_open (pic_io st) i \<or> (\<exists>n\<in>set ns. i = unat n \<or> 8 \<le> n \<and> i = 2)" if "i < 16" for i
  proof -
    have "i \<in> pic_open st' \<longleftrightarrow> i \<in> pic_open st \<or> (\<exists>n\<in>set ns. i \<in> pic_inputs n)" unfolding st'(3) by blast
    then show ?thesis using that by (simp add: pic_open_def pic_inputs_def) blast
  qed
  ultimately show ?thesis using st'(1,2) by blast
qed

definition pic_started :: pic where
  "pic_started = \<lparr>irq_mask = 0xFFFF, pic_io = pic_init []\<rparr>"

lemma pic_started_sync: "pic_sync pic_started"
proof -
  have m: "bit (irq_mask pic_started) i \<longleftrightarrow> i < 16" for i
  proof -
    have "irq_mask pic_started = mask 16" by (simp add: mask_numeral pic_started_def)
    then show ?thesis by (simp only: bit_mask_iff) auto
  qed
  have o: "last_out 0x21 (pic_init []) = Some 0xff" "last_out 0xA1 (pic_init []) = Some 0xff"
    by (simp_all add: pic_init_def outb_def last_out_def MASTER_PIC_CMD_def MASTER_PIC_INTMASK_def SECOND_PIC_CMD_def
        SECOND_PIC_INTMASK_def OCW1_MASK_OFF_ALL_def Let_def)
  have b: "bit (0xff :: u8) i" if "i < 8" for i using that by (simp add: bit_byte)
  have "\<not> line_open (pic_io pic_started) i" if "i < 16" for i
    using that o b [of i] b [of "i - 8"] by (simp add: pic_started_def line_open_def) arith
  then show ?thesis unfolding pic_sync_def using m by blast
qed

theorem pic_enable_irq_spec_witness:
  "\<exists>st'. fold_outcome pic_enable_irq [1, 14] pic_started = Inr st' \<and> delivered (pic_io st') 1 \<and> delivered (pic_io st') 14"
  using pic_enable_irq_spec [OF pic_started_sync, of "[1, 14]"] by auto

text \<open>
  \<^verbatim>\<open>pic_disable_irq\<close> of a line of the second controller also closes the cascade, so no line of that
  controller reaches the processor any more, whatever else was enabled.
\<close>

theorem pic_disable_irq_cascade:
  assumes "8 \<le> n" and "n < 16" and "8 \<le> i"
  shows "\<exists>st'. pic_disable_irq n st = Inr st' \<and> \<not> delivered (pic_io st') i"
proof -
  obtain st' where st': "pic_disable_irq n st = Inr st'" "pic_sync st'"
    and b: "\<forall>i<16. bit (irq_mask st') i \<longleftrightarrow> bit (irq_mask st) i \<or> i = unat n \<or> (8 \<le> n \<and> i = 2)"
    using pic_disable_irq_result [OF assms(2), of st] by blast
  have "bit (irq_mask st') 2" using b assms(1) by simp
  then have "\<not> delivered (pic_io st') i"
    using assms(3) pic_sync_delivered [OF st'(2), of i] by (auto simp: delivered_def)
  then show ?thesis using st'(1) by blast
qed

theorem pic_disable_irq_cascade_witness:
  "\<exists>st'. pic_disable_irq 14 pic_started = Inr st' \<and> \<not> delivered (pic_io st') 12"
  using pic_disable_irq_cascade [of 14 12 pic_started] by simp

lemma pit_divisor: "unat (CLKNUM div HZ) = 1193" "pit_init io = io @ [Out8 0x43 0x36, Out8 0x40 0xA9, Out8 0x40 0x04]"
  by (simp_all add: pit_init_def outb_def CLKNUM_def HZ_def PITCTL_PORT_def PITCTR0_PORT_def PIT_C0_def PIT_SQUAREMODE_def
      PIT_LOADMODE_def Let_def)

end
