(* ===== verification/Apic.thy ===== *)
theory Apic
  imports Ports Sched
begin

text \<open>
  The interrupt controllers of \<^verbatim>\<open>io_apic.c\<close> and \<^verbatim>\<open>local_apic.c\<close>. Their registers are memory-mapped: the
  I/O APIC through a select register and a data window, the local APIC directly. \<open>apics\<close> holds the
  variables of both files and the history of accesses; \<open>dev\<close> answers the reads. The flags of the
  processor and the boot page tables are passed along where the code uses them.
\<close>

definition IOAPICID :: u32 where "IOAPICID = 0x00"
definition IOAPICVER :: u32 where "IOAPICVER = 0x01"
definition IOREDTBL :: u32 where "IOREDTBL = 0x10"
definition IOAPICID_SHIFT :: nat where "IOAPICID_SHIFT = 24"
definition IOAPICID_MASK :: u32 where "IOAPICID_MASK = 0xf"
definition IOAPICVER_MAX_REDTBL_SHIFT :: nat where "IOAPICVER_MAX_REDTBL_SHIFT = 16"
definition IOAPICVER_MAX_REDTBL_MASK :: u32 where "IOAPICVER_MAX_REDTBL_MASK = 0xff"
definition IOAPICVER_VERSION_MASK :: u32 where "IOAPICVER_VERSION_MASK = 0xff"
definition IOREDTBL_DEST_SHIFT :: nat where "IOREDTBL_DEST_SHIFT = 56"
definition IOREDTBL_DEST_MASK_LOGICAL :: u64 where "IOREDTBL_DEST_MASK_LOGICAL = 0xff00000000000000"
definition IOREDTBL_INTERRUPT_ON :: u64 where "IOREDTBL_INTERRUPT_ON = 0x0"
definition IOREDTBL_INTERRUPT_OFF :: u64 where "IOREDTBL_INTERRUPT_OFF = push_bit 16 1"
definition IOREDTBL_TRIGGER_EDGE :: u64 where "IOREDTBL_TRIGGER_EDGE = 0x0"
definition IOREDTBL_INTPOL_HIGH_ACTIVE :: u64 where "IOREDTBL_INTPOL_HIGH_ACTIVE = 0x0"
definition IOREDTBL_DESTMOD_LOGICAL :: u64 where "IOREDTBL_DESTMOD_LOGICAL = push_bit 11 1"
definition IOREDTBL_DELMOD_FIXED :: u64 where "IOREDTBL_DELMOD_FIXED = 0x000"
definition IOREDTBL_INTVEC_MASK :: u64 where "IOREDTBL_INTVEC_MASK = 0xff"

definition MAX_IO_APIC_IOVR :: nat where "MAX_IO_APIC_IOVR = 16"

record io_apic_iovr_t =
  iv_bus :: u16
  iv_irq :: u16
  iv_gsi :: u32

record io_apic_t =
  io_apic_addr :: u64
  ia_id :: u32
  ia_ver :: u32
  num_redtbl :: u32
  gsi_base :: u32
  ia_lock :: u32

record local_apic_cpu_t =
  lc_apic_id :: u8
  lc_flags :: u8

record local_apic_t =
  local_apic_addr :: u64
  la_num_cpus :: u32
  la_cpus :: "local_apic_cpu_t list"

record apics =
  io_apic :: io_apic_t
  io_apic_iovr :: "io_apic_iovr_t list"
  io_apic_num_iovr :: u32
  local_apic :: local_apic_t
  ap_io :: history

subsection \<open>The I/O APIC\<close>

definition io_apic_read :: "device \<Rightarrow> u32 \<Rightarrow> apics \<Rightarrow> u32 \<times> apics" where
  "io_apic_read dev reg ap =
     (let addr = io_apic_addr (io_apic ap);
          io = mmio_write_u32 addr (reg AND 0xff) (ap_io ap) in
      case mmio_read_u32 dev (addr + 16) io of (v, io) \<Rightarrow> (v, ap\<lparr>ap_io := io\<rparr>))"

definition io_apic_write :: "u32 \<Rightarrow> u32 \<Rightarrow> apics \<Rightarrow> apics" where
  "io_apic_write reg data ap =
     (let addr = io_apic_addr (io_apic ap);
          io = mmio_write_u32 addr (reg AND 0xff) (ap_io ap);
          io = mmio_write_u32 (addr + 16) data io in
      ap\<lparr>ap_io := io\<rparr>)"

definition io_apic_register :: "u64 \<Rightarrow> u32 \<Rightarrow> apics \<Rightarrow> apics" where
  "io_apic_register addr gsi ap = ap\<lparr>io_apic := (io_apic ap)\<lparr>io_apic_addr := addr, gsi_base := gsi\<rparr>\<rparr>"

definition io_apic_add_iovr :: "u8 \<Rightarrow> u8 \<Rightarrow> u32 \<Rightarrow> apics \<Rightarrow> apics outcome" where
  "io_apic_add_iovr bus irq gsi ap =
     check (unat (io_apic_num_iovr ap) < MAX_IO_APIC_IOVR) ''io_apic_num_iovr < MAX_IO_APIC_IOVR'' (
     let i = io_apic_num_iovr ap; ap = ap\<lparr>io_apic_num_iovr := i + 1\<rparr> in
     rbind (arr_set (io_apic_iovr ap) (unat i) \<lparr>iv_bus = ucast bus, iv_irq = ucast irq, iv_gsi = gsi\<rparr>) (\<lambda>tab.
     Inr (ap\<lparr>io_apic_iovr := tab\<rparr>)))"

definition io_apic_redtbl_make :: "u64 \<Rightarrow> u8 \<Rightarrow> u8 \<Rightarrow> u64" where
  "io_apic_redtbl_make flags intvec cpu_mask =
     (push_bit IOREDTBL_DEST_SHIFT (ucast cpu_mask) AND IOREDTBL_DEST_MASK_LOGICAL) OR
     (ucast intvec AND IOREDTBL_INTVEC_MASK) OR flags"

definition io_apic_redtbl_get :: "device \<Rightarrow> u32 \<Rightarrow> apics \<Rightarrow> u64 \<times> apics" where
  "io_apic_redtbl_get dev index ap =
     (case io_apic_read dev (IOREDTBL + index * 2 + 0) ap of (lo, ap) \<Rightarrow>
      case io_apic_read dev (IOREDTBL + index * 2 + 1) ap of (hi, ap) \<Rightarrow>
      (ucast lo + push_bit 32 (ucast hi), ap))"

definition io_apic_redtbl_set :: "u32 \<Rightarrow> u64 \<Rightarrow> apics \<Rightarrow> apics" where
  "io_apic_redtbl_set index data ap =
     (let ap = io_apic_write (IOREDTBL + index * 2 + 0) (ucast data) ap in
      io_apic_write (IOREDTBL + index * 2 + 1) (ucast (drop_bit 32 data)) ap)"

text \<open>The loop of the lookup, from entry \<open>i\<close> on.\<close>

function iovr_find :: "u8 \<Rightarrow> u32 \<Rightarrow> apics \<Rightarrow> u32 outcome" where
  "iovr_find irq i ap =
     (if i < io_apic_num_iovr ap then
        rbind (arr_get (io_apic_iovr ap) (unat i)) (\<lambda>iovr.
        if iv_irq iovr = ucast irq then Inr (iv_gsi iovr) else iovr_find irq (i + 1) ap)
      else Inr (ucast irq))"
  by pat_completeness auto
termination
  by (relation "measure (\<lambda>(_, i, ap). unat (io_apic_num_iovr ap) - unat i)") (auto simp: unat_plus1 unat_less_iff)

declare iovr_find.simps [simp del]

definition io_apic_interrupt_override :: "u8 \<Rightarrow> apics \<Rightarrow> u32 outcome" where
  "io_apic_interrupt_override irq ap = iovr_find irq 0 ap"

definition io_apic_enable_irq :: "u8 \<Rightarrow> u8 \<Rightarrow> u8 \<Rightarrow> u64 \<Rightarrow> apics \<Rightarrow> (u64 \<times> apics) outcome" where
  "io_apic_enable_irq irq vector cpu_mask rflags ap =
     rbind (io_apic_interrupt_override irq ap) (\<lambda>index.
     let entry = (ucast vector AND IOREDTBL_INTVEC_MASK) OR IOREDTBL_INTERRUPT_ON OR IOREDTBL_TRIGGER_EDGE OR
           IOREDTBL_INTPOL_HIGH_ACTIVE OR IOREDTBL_DELMOD_FIXED OR IOREDTBL_DESTMOD_LOGICAL OR
           (push_bit IOREDTBL_DEST_SHIFT (ucast cpu_mask) AND IOREDTBL_DEST_MASK_LOGICAL) in
     case cpu_splhi rflags of (spl, rflags) \<Rightarrow>
     rbind (spinlock_lock (ia_lock (io_apic ap))) (\<lambda>k.
     let ap = ap\<lparr>io_apic := (io_apic ap)\<lparr>ia_lock := k\<rparr>\<rparr>;
         ap = io_apic_redtbl_set index entry ap;
         ap = ap\<lparr>io_apic := (io_apic ap)\<lparr>ia_lock := spinlock_unlock (ia_lock (io_apic ap))\<rparr>\<rparr> in
     Inr (cpu_splx spl rflags, ap)))"

definition io_apic_disable_irq :: "device \<Rightarrow> u8 \<Rightarrow> u64 \<Rightarrow> apics \<Rightarrow> (u64 \<times> apics) outcome" where
  "io_apic_disable_irq dev irq rflags ap =
     rbind (io_apic_interrupt_override irq ap) (\<lambda>index.
     case cpu_splhi rflags of (spl, rflags) \<Rightarrow>
     rbind (spinlock_lock (ia_lock (io_apic ap))) (\<lambda>k.
     let ap = ap\<lparr>io_apic := (io_apic ap)\<lparr>ia_lock := k\<rparr>\<rparr> in
     case io_apic_redtbl_get dev index ap of (entry, ap) \<Rightarrow>
     let ap = io_apic_redtbl_set index (entry OR IOREDTBL_INTERRUPT_OFF) ap;
         ap = ap\<lparr>io_apic := (io_apic ap)\<lparr>ia_lock := spinlock_unlock (ia_lock (io_apic ap))\<rparr>\<rparr> in
     Inr (cpu_splx spl rflags, ap)))"

definition io_apic_init :: "device \<Rightarrow> vm_boot \<Rightarrow> apics \<Rightarrow> (vm_boot \<times> apics) outcome" where
  "io_apic_init dev vm ap =
     rbind (vm_boot_map_range (io_apic_addr (io_apic ap)) (io_apic_addr (io_apic ap)) 0x1000 vm) (\<lambda>vm.
     case io_apic_read dev IOAPICID ap of (idr, ap) \<Rightarrow>
     let ap = ap\<lparr>io_apic := (io_apic ap)\<lparr>ia_id := drop_bit IOAPICID_SHIFT idr AND IOAPICID_MASK\<rparr>\<rparr> in
     case io_apic_read dev IOAPICVER ap of (ver_reg, ap) \<Rightarrow>
     let ap = ap\<lparr>io_apic := (io_apic ap)\<lparr>ia_ver := ver_reg AND IOAPICVER_VERSION_MASK,
           num_redtbl := (drop_bit IOAPICVER_MAX_REDTBL_SHIFT ver_reg AND IOAPICVER_MAX_REDTBL_MASK) + 1\<rparr>\<rparr> in
     rbind (for_up 0 (num_redtbl (io_apic ap)) (\<lambda>i ap. Inr (io_apic_redtbl_set i IOREDTBL_INTERRUPT_OFF ap)) ap) (\<lambda>ap.
     Inr (vm, ap)))"

subsection \<open>The local APIC\<close>

definition LAPIC_ID :: u32 where "LAPIC_ID = 0x0020"
definition LAPIC_TPR :: u32 where "LAPIC_TPR = 0x0080"
definition LAPIC_EOI :: u32 where "LAPIC_EOI = 0x00b0"
definition LAPIC_LDR :: u32 where "LAPIC_LDR = 0x00d0"
definition LAPIC_DFR :: u32 where "LAPIC_DFR = 0x00e0"
definition LAPIC_SVR :: u32 where "LAPIC_SVR = 0x00f0"
definition LAPIC_ICRLO :: u32 where "LAPIC_ICRLO = 0x0300"
definition LAPIC_ICRHI :: u32 where "LAPIC_ICRHI = 0x0310"
definition LAPIC_LVT_TIMER :: u32 where "LAPIC_LVT_TIMER = 0x0320"
definition LAPIC_TIMER_INITIAL_COUNT :: u32 where "LAPIC_TIMER_INITIAL_COUNT = 0x0380"
definition LAPIC_TIMER_CURRENT_COUNT :: u32 where "LAPIC_TIMER_CURRENT_COUNT = 0x0390"
definition LAPIC_TIMER_DIVIDE_CONFIG :: u32 where "LAPIC_TIMER_DIVIDE_CONFIG = 0x03e0"
definition ID_SHIFT :: nat where "ID_SHIFT = 24"
definition ICR_VECTOR_MASK :: u32 where "ICR_VECTOR_MASK = 0xff"
definition ICR_FIXED :: u32 where "ICR_FIXED = 0x00000000"
definition ICR_INIT :: u32 where "ICR_INIT = 0x00000500"
definition ICR_STARTUP :: u32 where "ICR_STARTUP = 0x00000600"
definition ICR_PHYSICAL :: u32 where "ICR_PHYSICAL = 0x00000000"
definition ICR_SEND_PENDING :: u32 where "ICR_SEND_PENDING = 0x00001000"
definition ICR_ASSERT :: u32 where "ICR_ASSERT = 0x00004000"
definition ICR_EDGE :: u32 where "ICR_EDGE = 0x00000000"
definition ICR_NO_SHORTHAND :: u32 where "ICR_NO_SHORTHAND = 0x00000000"
definition ICR_SELF :: u32 where "ICR_SELF = 0x00040000"
definition ICR_ALL_INCLUDING_SELF :: u32 where "ICR_ALL_INCLUDING_SELF = 0x00080000"
definition ICR_ALL_EXCLUDING_SELF :: u32 where "ICR_ALL_EXCLUDING_SELF = 0x000c0000"
definition ICR_DESTINATION_SHIFT :: nat where "ICR_DESTINATION_SHIFT = 24"
definition LDR_LOGICAL_LAPIC_SHIFT :: nat where "LDR_LOGICAL_LAPIC_SHIFT = 24"
definition LDR_LOGICAL_LAPIC_MASK :: u32 where "LDR_LOGICAL_LAPIC_MASK = 0xff"
definition DFR_FLAT_MODEL :: u32 where "DFR_FLAT_MODEL = 0xffffffff"
definition TPR_ENABLE_ALL_INTS :: u32 where "TPR_ENABLE_ALL_INTS = 0x00"
definition SVR_APIC_ENABLE :: u32 where "SVR_APIC_ENABLE = push_bit 8 1"
definition LVT_VECTOR_MASK :: u32 where "LVT_VECTOR_MASK = 0xff"
definition LVT_FIXED :: u32 where "LVT_FIXED = 0x000"
definition LVT_INTPOL_ACTIVE_HIGH :: u32 where "LVT_INTPOL_ACTIVE_HIGH = 0x0"
definition LVT_TRIGGER_EDGE :: u32 where "LVT_TRIGGER_EDGE = 0x0"
definition LVT_INTERRUPT_ON :: u32 where "LVT_INTERRUPT_ON = 0x0"
definition LVT_INTERRUPT_OFF :: u32 where "LVT_INTERRUPT_OFF = push_bit 16 1"
definition LVT_TIMER_ONE_SHOT :: u32 where "LVT_TIMER_ONE_SHOT = 0x00000"
definition TIMER_DIVIER_CONF_16 :: u32 where "TIMER_DIVIER_CONF_16 = 0x03"

definition local_apic_register :: "u64 \<Rightarrow> apics \<Rightarrow> apics" where
  "local_apic_register addr ap = ap\<lparr>local_apic := (local_apic ap)\<lparr>local_apic_addr := addr\<rparr>\<rparr>"

definition local_apic_add_cpu :: "u8 \<Rightarrow> apics \<Rightarrow> apics outcome" where
  "local_apic_add_cpu apic_id ap =
     check (unat (la_num_cpus (local_apic ap)) < MAX_CPUS) ''local_apic.num_cpus < MAX_CPUS'' (
     let i = la_num_cpus (local_apic ap) in
     rbind (arr_set (la_cpus (local_apic ap)) (unat i) \<lparr>lc_apic_id = apic_id, lc_flags = 0\<rparr>) (\<lambda>tab.
     Inr (ap\<lparr>local_apic := (local_apic ap)\<lparr>la_num_cpus := i + 1, la_cpus := tab\<rparr>\<rparr>)))"

definition local_apic_read :: "device \<Rightarrow> u32 \<Rightarrow> apics \<Rightarrow> u32 \<times> apics" where
  "local_apic_read dev reg ap =
     (case mmio_read_u32 dev (local_apic_addr (local_apic ap) + ucast reg) (ap_io ap) of (v, io) \<Rightarrow>
      (v, ap\<lparr>ap_io := io\<rparr>))"

definition local_apic_write :: "u32 \<Rightarrow> u32 \<Rightarrow> apics \<Rightarrow> apics" where
  "local_apic_write reg data ap =
     ap\<lparr>ap_io := mmio_write_u32 (local_apic_addr (local_apic ap) + ucast reg) data (ap_io ap)\<rparr>"

definition local_apic_lvt_enable :: "u32 \<Rightarrow> u32 \<Rightarrow> apics \<Rightarrow> apics" where
  "local_apic_lvt_enable reg intvec ap =
     (let data = (intvec AND LVT_VECTOR_MASK) OR LVT_FIXED OR LVT_INTPOL_ACTIVE_HIGH OR LVT_TRIGGER_EDGE OR
            LVT_INTERRUPT_ON in
      local_apic_write reg data ap)"

definition local_apic_lvt_disable :: "device \<Rightarrow> u32 \<Rightarrow> apics \<Rightarrow> apics" where
  "local_apic_lvt_disable dev reg ap =
     (case local_apic_read dev reg ap of (data, ap) \<Rightarrow> local_apic_write reg (data OR LVT_INTERRUPT_OFF) ap)"

definition local_apic_init :: "device \<Rightarrow> vm_boot \<Rightarrow> apics \<Rightarrow> (vm_boot \<times> apics) outcome" where
  "local_apic_init dev vm ap =
     rbind (vm_boot_map_range (local_apic_addr (local_apic ap)) (local_apic_addr (local_apic ap)) 0x1000 vm) (\<lambda>vm.
     case local_apic_read dev LAPIC_ID ap of (v, ap) \<Rightarrow>
     let apic_id = drop_bit ID_SHIFT v in
     rbind (shl_int (unat apic_id)) (\<lambda>b.
     let logical_apic_id = b AND LDR_LOGICAL_LAPIC_MASK;
         ap = local_apic_write LAPIC_TPR TPR_ENABLE_ALL_INTS ap;
         ap = local_apic_write LAPIC_DFR DFR_FLAT_MODEL ap;
         ap = local_apic_write LAPIC_LDR (push_bit LDR_LOGICAL_LAPIC_SHIFT logical_apic_id) ap;
         ap = local_apic_write LAPIC_SVR (SVR_APIC_ENABLE OR 0xFF) ap in
     Inr (vm, ap)))"

text \<open>
  \<^verbatim>\<open>cpu_wait\<close> of \<^verbatim>\<open>cpu.c\<close> polls the tick counter of its processor, which the timer interrupt advances
  meanwhile. \<open>clk i\<close> is what read number \<open>i\<close> of the counter returns; the result is the number of reads.
\<close>

partial_function (option) wait_loop :: "(nat \<Rightarrow> u64) \<Rightarrow> u32 \<Rightarrow> u64 \<Rightarrow> nat \<Rightarrow> nat option" where
  "wait_loop clk ms t i =
     (let n = ucast (clk i - t) :: u32 in
      if n \<ge> ms then Some (Suc i) else wait_loop clk ms t (Suc i))"

definition cpu_wait :: "(nat \<Rightarrow> u64) \<Rightarrow> u32 \<Rightarrow> nat outcome" where
  "cpu_wait clk ms = returns (map_option Inr (wait_loop clk ms (clk 0) 1))"

text \<open>The result of \<^verbatim>\<open>local_apic_timer_init\<close> is the number it prints.\<close>

definition local_apic_timer_init :: "device \<Rightarrow> (nat \<Rightarrow> u64) \<Rightarrow> u64 \<Rightarrow> apics \<Rightarrow> (u32 \<times> u64 \<times> apics) outcome" where
  "local_apic_timer_init dev clk rflags ap =
     (case cpu_splhi rflags of (spl, rflags) \<Rightarrow>
      let ap = local_apic_write LAPIC_TIMER_DIVIDE_CONFIG TIMER_DIVIER_CONF_16 ap;
          ap = local_apic_write LAPIC_LVT_TIMER (LVT_TIMER_ONE_SHOT OR LVT_INTERRUPT_OFF) ap;
          ap = local_apic_write LAPIC_TIMER_INITIAL_COUNT 0xffffffff ap;
          rflags = cpu_splx spl rflags in
      rbind (cpu_wait clk 64) (\<lambda>_.
      case cpu_splhi rflags of (spl, rflags) \<Rightarrow>
      case local_apic_read dev LAPIC_TIMER_CURRENT_COUNT ap of (count, ap) \<Rightarrow>
      let rflags = cpu_splx spl rflags;
          ticks = 0xffffffff - count in
      Inr ((ticks * 16) div 64, rflags, ap)))"

definition local_apic_id :: "device \<Rightarrow> u64 \<Rightarrow> apics \<Rightarrow> u32 \<times> u64 \<times> apics" where
  "local_apic_id dev rflags ap =
     (case cpu_splhi rflags of (spl, rflags) \<Rightarrow>
      case local_apic_read dev LAPIC_ID ap of (v, ap) \<Rightarrow>
      (drop_bit ID_SHIFT v, cpu_splx spl rflags, ap))"

definition local_apic_eoi :: "apics \<Rightarrow> apics" where
  "local_apic_eoi ap = local_apic_write LAPIC_EOI 0 ap"

text \<open>The loop that waits until the command register is idle.\<close>

partial_function (option) icr_wait :: "device \<Rightarrow> apics \<Rightarrow> apics option" where
  "icr_wait dev ap =
     (case local_apic_read dev LAPIC_ICRLO ap of (v, ap) \<Rightarrow>
      if v AND ICR_SEND_PENDING \<noteq> 0 then icr_wait dev ap else Some ap)"

definition local_apic_ipi_init :: "device \<Rightarrow> u32 \<Rightarrow> u64 \<Rightarrow> apics \<Rightarrow> (u64 \<times> apics) outcome" where
  "local_apic_ipi_init dev apic_id rflags ap =
     (case cpu_splhi rflags of (spl, rflags) \<Rightarrow>
      let ap = local_apic_write LAPIC_ICRHI (push_bit ICR_DESTINATION_SHIFT apic_id) ap;
          ap = local_apic_write LAPIC_ICRLO (ICR_INIT OR ICR_PHYSICAL OR ICR_ASSERT OR ICR_EDGE OR ICR_NO_SHORTHAND) ap in
      rbind (returns (map_option Inr (icr_wait dev ap))) (\<lambda>ap.
      Inr (cpu_splx spl rflags, ap)))"

definition local_apic_ipi_start :: "device \<Rightarrow> u32 \<Rightarrow> u64 \<Rightarrow> apics \<Rightarrow> (u64 \<times> apics) outcome" where
  "local_apic_ipi_start dev apic_id rflags ap =
     (case cpu_splhi rflags of (spl, rflags) \<Rightarrow>
      let vector = 0x8;
          ap = local_apic_write LAPIC_ICRHI (push_bit ICR_DESTINATION_SHIFT apic_id) ap;
          ap = local_apic_write LAPIC_ICRLO
                 (vector OR ICR_STARTUP OR ICR_PHYSICAL OR ICR_ASSERT OR ICR_EDGE OR ICR_NO_SHORTHAND) ap in
      rbind (returns (map_option Inr (icr_wait dev ap))) (\<lambda>ap.
      Inr (cpu_splx spl rflags, ap)))"

definition local_apic_ipi_shorthand :: "device \<Rightarrow> u32 \<Rightarrow> u32 \<Rightarrow> u64 \<Rightarrow> apics \<Rightarrow> (u64 \<times> apics) outcome" where
  "local_apic_ipi_shorthand dev vector shorthand rflags ap =
     (case cpu_splhi rflags of (spl, rflags) \<Rightarrow>
      let ap = local_apic_write LAPIC_ICRHI 0 ap;
          ap = local_apic_write LAPIC_ICRLO
                 ((vector AND ICR_VECTOR_MASK) OR ICR_FIXED OR ICR_ASSERT OR ICR_EDGE OR shorthand) ap in
      rbind (returns (map_option Inr (icr_wait dev ap))) (\<lambda>ap.
      Inr (cpu_splx spl rflags, ap)))"

definition local_apic_ipi_self :: "device \<Rightarrow> u32 \<Rightarrow> u64 \<Rightarrow> apics \<Rightarrow> (u64 \<times> apics) outcome" where
  "local_apic_ipi_self dev vector = local_apic_ipi_shorthand dev vector ICR_SELF"

definition local_apic_ipi_broadcast :: "device \<Rightarrow> u32 \<Rightarrow> u64 \<Rightarrow> apics \<Rightarrow> (u64 \<times> apics) outcome" where
  "local_apic_ipi_broadcast dev vector = local_apic_ipi_shorthand dev vector ICR_ALL_EXCLUDING_SELF"

definition local_apic_ipi_all :: "device \<Rightarrow> u32 \<Rightarrow> u64 \<Rightarrow> apics \<Rightarrow> (u64 \<times> apics) outcome" where
  "local_apic_ipi_all dev vector = local_apic_ipi_shorthand dev vector ICR_ALL_INCLUDING_SELF"

subsection \<open>Redirection entries\<close>

text \<open>
  What the I/O APIC at address \<open>a\<close> does with the accesses: a write to \<open>a\<close> selects a register, a write to
  \<open>a + 16\<close> stores into the selected one. A device behaves like it when a read of the window returns
  what was stored last.
\<close>

fun ioapic_step :: "u64 \<Rightarrow> io_event \<Rightarrow> u32 \<times> (u32 \<Rightarrow> u32 option) \<Rightarrow> u32 \<times> (u32 \<Rightarrow> u32 option)" where
  "ioapic_step a (MmioWrite p d) (sel, regs) =
     (if p = a then (d, regs) else if p = a + 16 then (sel, regs(sel \<mapsto> d)) else (sel, regs))"
| "ioapic_step a e s = s"

definition ioapic_state :: "u64 \<Rightarrow> history \<Rightarrow> u32 \<times> (u32 \<Rightarrow> u32 option)" where
  "ioapic_state a io = fold (ioapic_step a) io (0, \<lambda>_. None)"

definition io_apic_window :: "device \<Rightarrow> u64 \<Rightarrow> bool" where
  "io_apic_window dev a \<longleftrightarrow> (\<forall>io sel regs d. ioapic_state a io = (sel, regs) \<and> regs sel = Some d \<longrightarrow>
     dev io (MmioRead (a + 16)) = d)"

definition ap_regs :: "apics \<Rightarrow> u32 \<Rightarrow> u32 option" where
  "ap_regs ap = snd (ioapic_state (io_apic_addr (io_apic ap)) (ap_io ap))"

definition redtbl :: "apics \<Rightarrow> u32 \<Rightarrow> u64 option" where
  "redtbl ap i =
     (case (ap_regs ap (IOREDTBL + i * 2), ap_regs ap (IOREDTBL + i * 2 + 1)) of
        (Some lo, Some hi) \<Rightarrow> Some (ucast lo + push_bit 32 (ucast hi))
      | _ \<Rightarrow> None)"

lemma word_halves:
  fixes e :: u64
  shows "ucast (ucast e :: u32) + push_bit 32 (ucast (ucast (drop_bit 32 e) :: u32)) = e"
proof -
  have "ucast (ucast e :: u32) = take_bit 32 e" by (rule bit_word_eqI) (auto simp: bit_simps)
  moreover have "ucast (ucast (drop_bit 32 e) :: u32) = drop_bit 32 e"
  proof (rule bit_word_eqI)
    fix n assume "n < LENGTH(64)"
    then show "bit (ucast (ucast (drop_bit 32 e) :: u32) :: u64) n \<longleftrightarrow> bit (drop_bit 32 e) n"
      by (auto simp: bit_simps dest: bit_imp_le_length)
  qed
  ultimately show ?thesis using bits_ident [of 32 e] by (simp only: add.commute)
qed

lemma redtbl_reg:
  assumes "i < 120" and "k \<le> 1"
  shows "unat (IOREDTBL + i * 2 + k) = 16 + 2 * unat i + unat k" and "(IOREDTBL + i * 2 + k) AND 0xff = IOREDTBL + i * 2 + k"
proof -
  have i: "unat i < 120" "unat k \<le> 1" using assms by (simp_all add: unat_less_iff unat_le_iff)
  have 1: "unat (i * 2) = 2 * unat i" using i by (simp add: unat_word_ariths)
  have 2: "unat (IOREDTBL + i * 2) = 16 + 2 * unat i" using i 1 by (subst unat_plus_lt) (simp_all add: IOREDTBL_def)
  show u: "unat (IOREDTBL + i * 2 + k) = 16 + 2 * unat i + unat k" using i 2 by (subst unat_plus_lt) simp_all
  have "(0xff :: u32) = mask 8" by (simp add: mask_numeral)
  then have "unat ((IOREDTBL + i * 2 + k) AND 0xff) = unat (IOREDTBL + i * 2 + k)" using u i by (simp only: unat_and_mask) simp
  then show "(IOREDTBL + i * 2 + k) AND 0xff = IOREDTBL + i * 2 + k" by simp
qed

lemmas redtbl_reg0 = redtbl_reg [where k = 0, simplified]
lemmas redtbl_reg1 = redtbl_reg [where k = 1, simplified]

lemma redtbl_reg_eq:
  assumes "i < 120" and "j < 120"
  shows "IOREDTBL + i * 2 = IOREDTBL + j * 2 \<longleftrightarrow> i = j" and "IOREDTBL + i * 2 + 1 = IOREDTBL + j * 2 + 1 \<longleftrightarrow> i = j"
    and "IOREDTBL + i * 2 \<noteq> IOREDTBL + j * 2 + 1"
proof -
  have "unat (IOREDTBL + i * 2) = unat (IOREDTBL + j * 2) \<longleftrightarrow> unat i = unat j"
    unfolding redtbl_reg0(1) [OF assms(1)] redtbl_reg0(1) [OF assms(2)] by simp
  then show e: "IOREDTBL + i * 2 = IOREDTBL + j * 2 \<longleftrightarrow> i = j" by (simp only: unat_eq_iff)
  then show "IOREDTBL + i * 2 + 1 = IOREDTBL + j * 2 + 1 \<longleftrightarrow> i = j" by simp
  have "unat (IOREDTBL + i * 2) \<noteq> unat (IOREDTBL + j * 2 + 1)"
    unfolding redtbl_reg0(1) [OF assms(1)] redtbl_reg1(1) [OF assms(2)] by presburger
  then show "IOREDTBL + i * 2 \<noteq> IOREDTBL + j * 2 + 1" by (simp only: unat_eq_iff) simp
qed

lemma ioapic_step_write:
  "ioapic_step a (MmioWrite p d) s =
     (if p = a then (d, snd s) else if p = a + 16 then (fst s, (snd s)(fst s \<mapsto> d)) else s)"
  by (cases s) simp

lemma io_apic_write_regs:
  "ap_regs (io_apic_write reg data ap) = (ap_regs ap)(reg AND 0xff \<mapsto> data)" "io_apic (io_apic_write reg data ap) = io_apic ap"
  "io_apic_iovr (io_apic_write reg data ap) = io_apic_iovr ap" "io_apic_num_iovr (io_apic_write reg data ap) = io_apic_num_iovr ap"
  "local_apic (io_apic_write reg data ap) = local_apic ap"
  by (simp_all add: io_apic_write_def ap_regs_def ioapic_state_def mmio_write_u32_def Let_def ioapic_step_write)

lemma ap_regs_cong: "ap_io ap' = ap_io ap \<Longrightarrow> io_apic_addr (io_apic ap') = io_apic_addr (io_apic ap) \<Longrightarrow> redtbl ap' = redtbl ap"
  by (simp add: redtbl_def ap_regs_def fun_eq_iff)

lemma io_apic_redtbl_set_result:
  assumes "i < 120"
  shows "redtbl (io_apic_redtbl_set i e ap) i = Some e" and "j < 120 \<Longrightarrow> j \<noteq> i \<Longrightarrow> redtbl (io_apic_redtbl_set i e ap) j = redtbl ap j"
    and "io_apic (io_apic_redtbl_set i e ap) = io_apic ap" and "io_apic_iovr (io_apic_redtbl_set i e ap) = io_apic_iovr ap"
    and "io_apic_num_iovr (io_apic_redtbl_set i e ap) = io_apic_num_iovr ap" and "local_apic (io_apic_redtbl_set i e ap) = local_apic ap"
proof -
  have r: "ap_regs (io_apic_redtbl_set i e ap) =
    (ap_regs ap)(IOREDTBL + i * 2 \<mapsto> ucast e, IOREDTBL + i * 2 + 1 \<mapsto> ucast (drop_bit 32 e))"
    by (simp add: io_apic_redtbl_set_def Let_def io_apic_write_regs redtbl_reg0(2) [OF assms] redtbl_reg1(2) [OF assms])
  show "redtbl (io_apic_redtbl_set i e ap) i = Some e"
    using redtbl_reg_eq(3) [OF assms assms] by (simp add: redtbl_def r word_halves)
  show "redtbl (io_apic_redtbl_set i e ap) j = redtbl ap j" if "j < 120" "j \<noteq> i"
  proof -
    have "ap_regs (io_apic_redtbl_set i e ap) (IOREDTBL + j * 2) = ap_regs ap (IOREDTBL + j * 2)"
      "ap_regs (io_apic_redtbl_set i e ap) (IOREDTBL + j * 2 + 1) = ap_regs ap (IOREDTBL + j * 2 + 1)"
      using redtbl_reg_eq [OF that(1) assms] redtbl_reg_eq(3) [OF assms that(1)] that(2) unfolding r by (simp_all del: add_left_cancel add_right_cancel)
    then show ?thesis by (simp add: redtbl_def)
  qed
qed (simp_all add: io_apic_redtbl_set_def Let_def io_apic_write_regs)

lemma io_apic_read_result:
  assumes "io_apic_window dev (io_apic_addr (io_apic ap))" and "ap_regs ap (reg AND 0xff) = Some d"
  obtains ap' where "io_apic_read dev reg ap = (d, ap')" "ap_regs ap' = ap_regs ap" "io_apic ap' = io_apic ap"
    "io_apic_iovr ap' = io_apic_iovr ap" "io_apic_num_iovr ap' = io_apic_num_iovr ap"
proof -
  let ?a = "io_apic_addr (io_apic ap)" and ?io = "mmio_write_u32 (io_apic_addr (io_apic ap)) (reg AND 0xff) (ap_io ap)"
  have st: "ioapic_state ?a ?io = (reg AND 0xff, ap_regs ap)"
    by (simp add: ioapic_state_def ap_regs_def mmio_write_u32_def ioapic_step_write)
  have "dev ?io (MmioRead (?a + 16)) = d" using assms st unfolding io_apic_window_def by blast
  then have "io_apic_read dev reg ap = (d, ap\<lparr>ap_io := ?io @ [MmioRead (?a + 16)]\<rparr>)"
    by (simp add: io_apic_read_def mmio_read_u32_def Let_def)
  moreover have "ap_regs (ap\<lparr>ap_io := ?io @ [MmioRead (?a + 16)]\<rparr>) = ap_regs ap"
    using st by (simp add: ap_regs_def ioapic_state_def)
  ultimately show ?thesis by (rule that) simp_all
qed

lemma io_apic_redtbl_get_result:
  assumes dev: "io_apic_window dev (io_apic_addr (io_apic ap))" and i: "i < 120" and e: "redtbl ap i = Some e"
  obtains ap' where "io_apic_redtbl_get dev i ap = (e, ap')" "ap_regs ap' = ap_regs ap" "io_apic ap' = io_apic ap"
    "io_apic_iovr ap' = io_apic_iovr ap" "io_apic_num_iovr ap' = io_apic_num_iovr ap"
proof -
  obtain lo hi where r: "ap_regs ap (IOREDTBL + i * 2) = Some lo" "ap_regs ap (IOREDTBL + i * 2 + 1) = Some hi"
    "e = ucast lo + push_bit 32 (ucast hi)" using e by (auto simp: redtbl_def split: option.splits)
  obtain ap1 where 1: "io_apic_read dev (IOREDTBL + i * 2) ap = (lo, ap1)" "ap_regs ap1 = ap_regs ap" "io_apic ap1 = io_apic ap"
    "io_apic_iovr ap1 = io_apic_iovr ap" "io_apic_num_iovr ap1 = io_apic_num_iovr ap"
    by (rule io_apic_read_result [OF dev, of "IOREDTBL + i * 2" lo]) (use r redtbl_reg0(2) [OF i] in simp_all)
  obtain ap2 where 2: "io_apic_read dev (IOREDTBL + i * 2 + 1) ap1 = (hi, ap2)" "ap_regs ap2 = ap_regs ap1" "io_apic ap2 = io_apic ap1"
    "io_apic_iovr ap2 = io_apic_iovr ap1" "io_apic_num_iovr ap2 = io_apic_num_iovr ap1"
    by (rule io_apic_read_result [of dev ap1 "IOREDTBL + i * 2 + 1" hi]) (use dev r 1 redtbl_reg1(2) [OF i] in simp_all)
  show ?thesis by (rule that [of ap2]) (use 1 2 r in \<open>simp_all add: io_apic_redtbl_get_def\<close>)
qed

subsection \<open>Overrides\<close>

definition iovr_ok :: "apics \<Rightarrow> bool" where
  "iovr_ok ap \<longleftrightarrow> length (io_apic_iovr ap) = MAX_IO_APIC_IOVR \<and> unat (io_apic_num_iovr ap) \<le> MAX_IO_APIC_IOVR"

definition route :: "apics \<Rightarrow> u8 \<Rightarrow> u32" where
  "route ap irq = (case find (\<lambda>v. iv_irq v = ucast irq) (take (unat (io_apic_num_iovr ap)) (io_apic_iovr ap)) of
     Some v \<Rightarrow> iv_gsi v | None \<Rightarrow> ucast irq)"

lemma iovr_find_result:
  assumes "iovr_ok ap" and "i \<le> io_apic_num_iovr ap"
  shows "iovr_find irq i ap =
    Inr (case find (\<lambda>v. iv_irq v = ucast irq) (drop (unat i) (take (unat (io_apic_num_iovr ap)) (io_apic_iovr ap))) of
      Some v \<Rightarrow> iv_gsi v | None \<Rightarrow> ucast irq)"
  using assms
proof (induction irq i ap rule: iovr_find.induct)
  case (1 irq i ap)
  let ?n = "unat (io_apic_num_iovr ap)" and ?tab = "io_apic_iovr ap"
  show ?case
  proof (cases "i < io_apic_num_iovr ap")
    case True
    then have lt: "unat i < ?n" "unat i < length ?tab" "i + 1 \<le> io_apic_num_iovr ap"
      using "1.prems"(1) by (auto simp: unat_less_iff unat_le_iff unat_plus1 [OF True] iovr_ok_def)
    then have "drop (unat i) (take ?n ?tab) = ?tab ! unat i # drop (Suc (unat i)) (take ?n ?tab)"
      using Cons_nth_drop_Suc [of "unat i" "take ?n ?tab"] by simp
    then show ?thesis using "1.IH" [OF True, of "?tab ! unat i"] True lt "1.prems"(1) unat_plus1 [OF True]
      by (subst iovr_find.simps) simp
  next
    case False
    then have "i = io_apic_num_iovr ap" using "1.prems"(2) by simp
    then show ?thesis by (subst iovr_find.simps) simp
  qed
qed

lemma io_apic_interrupt_override_result: "iovr_ok ap \<Longrightarrow> io_apic_interrupt_override irq ap = Inr (route ap irq)"
  using iovr_find_result [of ap 0 irq] by (simp add: io_apic_interrupt_override_def route_def)

subsection \<open>Enabling and disabling interrupts\<close>

definition rt_vector :: "u64 \<Rightarrow> u8" where "rt_vector e = ucast e"
definition rt_masked :: "u64 \<Rightarrow> bool" where "rt_masked e \<longleftrightarrow> bit e 16"
definition rt_dest :: "u64 \<Rightarrow> u8" where "rt_dest e = ucast (drop_bit 56 e)"
definition rt_logical :: "u64 \<Rightarrow> bool" where "rt_logical e \<longleftrightarrow> bit e 11"

definition on_entry :: "u8 \<Rightarrow> u8 \<Rightarrow> u64" where
  "on_entry vector cpu_mask = (ucast vector AND IOREDTBL_INTVEC_MASK) OR IOREDTBL_INTERRUPT_ON OR IOREDTBL_TRIGGER_EDGE OR
     IOREDTBL_INTPOL_HIGH_ACTIVE OR IOREDTBL_DELMOD_FIXED OR IOREDTBL_DESTMOD_LOGICAL OR
     (push_bit IOREDTBL_DEST_SHIFT (ucast cpu_mask) AND IOREDTBL_DEST_MASK_LOGICAL)"

lemma bit_on_entry:
  assumes "n < 64"
  shows "bit (on_entry v m) n \<longleftrightarrow> (n < 8 \<and> bit v n) \<or> n = 11 \<or> (56 \<le> n \<and> bit m (n - 56))"
proof -
  have 1: "IOREDTBL_INTVEC_MASK = mask 8" by (simp add: IOREDTBL_INTVEC_MASK_def mask_numeral)
  have 2: "IOREDTBL_DEST_MASK_LOGICAL = push_bit 56 (mask 8)" by (simp add: IOREDTBL_DEST_MASK_LOGICAL_def mask_numeral)
  have 3: "IOREDTBL_DESTMOD_LOGICAL = 2 ^ 11" by (simp add: IOREDTBL_DESTMOD_LOGICAL_def)
  show ?thesis unfolding on_entry_def 1 2 3 IOREDTBL_INTERRUPT_ON_def IOREDTBL_TRIGGER_EDGE_def IOREDTBL_INTPOL_HIGH_ACTIVE_def
      IOREDTBL_DELMOD_FIXED_def IOREDTBL_DEST_SHIFT_def
    using assms by (auto simp only: bit_or_iff bit_and_iff bit_mask_iff bit_push_bit_iff bit_exp_iff bit_ucast_iff bit_0_eq bot_apply
        possible_bit_word dest: bit_imp_le_length) simp_all
qed

lemma bit_interrupt_off: "bit (e OR IOREDTBL_INTERRUPT_OFF) n \<longleftrightarrow> bit e n \<or> n = 16"
proof -
  have off: "IOREDTBL_INTERRUPT_OFF = 2 ^ 16" by (simp add: IOREDTBL_INTERRUPT_OFF_def)
  show ?thesis unfolding off bit_or_iff bit_exp_iff by auto
qed

lemma on_entry_fields:
  "rt_vector (on_entry v m) = v" "\<not> rt_masked (on_entry v m)" "rt_dest (on_entry v m) = m" "rt_logical (on_entry v m)"
proof -
  show "rt_vector (on_entry v m) = v" unfolding rt_vector_def by (rule bit_word_eqI) (simp add: bit_ucast_iff bit_on_entry)
  show "rt_dest (on_entry v m) = m"
    unfolding rt_dest_def by (rule bit_word_eqI) (simp add: bit_ucast_iff bit_drop_bit_eq bit_on_entry)
qed (simp_all add: rt_masked_def rt_logical_def bit_on_entry)

lemma interrupt_off_fields:
  "rt_vector (e OR IOREDTBL_INTERRUPT_OFF) = rt_vector e" "rt_masked (e OR IOREDTBL_INTERRUPT_OFF)"
  "rt_dest (e OR IOREDTBL_INTERRUPT_OFF) = rt_dest e" "rt_logical (e OR IOREDTBL_INTERRUPT_OFF) = rt_logical e"
proof -
  show "rt_vector (e OR IOREDTBL_INTERRUPT_OFF) = rt_vector e"
    unfolding rt_vector_def by (rule bit_word_eqI) (simp add: bit_ucast_iff bit_interrupt_off)
  show "rt_dest (e OR IOREDTBL_INTERRUPT_OFF) = rt_dest e"
    unfolding rt_dest_def by (rule bit_word_eqI) (simp only: bit_ucast_iff bit_drop_bit_eq bit_interrupt_off o_def, simp)
qed (simp_all add: rt_masked_def rt_logical_def bit_interrupt_off)

lemma io_apic_enable_irq_result:
  assumes "iovr_ok ap" and "ia_lock (io_apic ap) = 0" and "route ap irq < 120"
  obtains ap' where "io_apic_enable_irq irq v m rflags ap = Inr (rflags, ap')" "redtbl ap' (route ap irq) = Some (on_entry v m)"
    "\<forall>j<120. j \<noteq> route ap irq \<longrightarrow> redtbl ap' j = redtbl ap j" "io_apic ap' = io_apic ap" "io_apic_iovr ap' = io_apic_iovr ap"
    "io_apic_num_iovr ap' = io_apic_num_iovr ap" "local_apic ap' = local_apic ap"
proof -
  let ?ap = "io_apic_redtbl_set (route ap irq) (on_entry v m) (ap\<lparr>io_apic := (io_apic ap)\<lparr>ia_lock := 1\<rparr>\<rparr>)"
  let ?ap' = "?ap\<lparr>io_apic := (io_apic ?ap)\<lparr>ia_lock := 0\<rparr>\<rparr>"
  note set = io_apic_redtbl_set_result [OF assms(3), where e = "on_entry v m"]
  have same: "redtbl ?ap' = redtbl ?ap" "redtbl (ap\<lparr>io_apic := (io_apic ap)\<lparr>ia_lock := 1\<rparr>\<rparr>) = redtbl ap"
    by (rule ap_regs_cong; simp)+
  have "io_apic_enable_irq irq v m rflags ap = Inr (rflags, ?ap')"
    using assms(2) splx_splhi [of rflags]
    by (simp add: io_apic_enable_irq_def io_apic_interrupt_override_result [OF assms(1)] Let_def on_entry_def [symmetric]
        split_beta set)
  moreover have "io_apic ?ap' = io_apic ap" using assms(2) by (simp add: set)
  moreover have "redtbl ?ap' (route ap irq) = Some (on_entry v m)" unfolding same by (rule set(1))
  moreover have "\<forall>j<120. j \<noteq> route ap irq \<longrightarrow> redtbl ?ap' j = redtbl ap j" using set(2) same by simp
  ultimately show ?thesis using that [of ?ap'] set by simp
qed

text \<open>
  The I/O APIC is an interrupt controller in the same sense: the input of a line is the redirection entry that
  the override table routes it to. \<open>vec\<close> gives each line its vector and \<open>m\<close> is the set of processors.
\<close>

definition open_entries :: "u64 \<times> apics \<Rightarrow> u32 set" where
  "open_entries s = {j. j < 120 \<and> (\<exists>e. redtbl (snd s) j = Some e \<and> \<not> rt_masked e)}"

definition io_apic_like :: "u64 \<Rightarrow> apics \<Rightarrow> u64 \<times> apics \<Rightarrow> bool" where
  "io_apic_like rflags ap0 s \<longleftrightarrow> fst s = rflags \<and> iovr_ok (snd s) \<and> ia_lock (io_apic (snd s)) = 0 \<and> route (snd s) = route ap0"

interpretation io_apic_controller: irq_controller "\<lambda>irq (rflags, ap). io_apic_enable_irq irq (vec irq) m rflags ap"
  "io_apic_like rflags ap0" "\<lambda>irq. route ap0 irq < 120" open_entries "\<lambda>irq. {route ap0 irq}" for vec m rflags ap0
proof
  fix s irq
  assume s: "io_apic_like rflags ap0 s" and l: "route ap0 irq < 120"
  obtain ap where ap: "s = (rflags, ap)" "iovr_ok ap" "ia_lock (io_apic ap) = 0" "route ap = route ap0"
    using s by (cases s) (simp add: io_apic_like_def)
  from l have "route ap irq < 120" using ap(4) by simp
  from io_apic_enable_irq_result [OF ap(2,3) this, of "vec irq" m rflags] obtain ap' where
    1: "io_apic_enable_irq irq (vec irq) m rflags ap = Inr (rflags, ap')" "redtbl ap' (route ap irq) = Some (on_entry (vec irq) m)"
    "\<forall>j<120. j \<noteq> route ap irq \<longrightarrow> redtbl ap' j = redtbl ap j" "io_apic ap' = io_apic ap" "io_apic_iovr ap' = io_apic_iovr ap"
    "io_apic_num_iovr ap' = io_apic_num_iovr ap" by blast
  have "io_apic_like rflags ap0 (rflags, ap')" using 1 ap(2-4) by (simp add: io_apic_like_def route_def iovr_ok_def fun_eq_iff)
  moreover have "open_entries (rflags, ap') = open_entries s \<union> {route ap0 irq}"
    using 1(2,3) l ap(1,4) on_entry_fields [of "vec irq" m] by (auto simp: open_entries_def)
  ultimately show "\<exists>s'. (case s of (rflags, ap) \<Rightarrow> io_apic_enable_irq irq (vec irq) m rflags ap) = Inr s' \<and>
      io_apic_like rflags ap0 s' \<and> open_entries s' = open_entries s \<union> {route ap0 irq}"
    using 1(1) ap(1) by (intro exI [of _ "(rflags, ap')"]) simp
qed

text \<open>Enabling several lines opens exactly the entries they are routed to; none of them is lost on the way.\<close>

lemma io_apic_enable_irqs:
  assumes "iovr_ok ap" and "ia_lock (io_apic ap) = 0" and "\<forall>irq\<in>set irqs. route ap irq < 120"
  shows "\<exists>ap'. fold_outcome (\<lambda>irq (rflags, ap). io_apic_enable_irq irq (vec irq) m rflags ap) irqs (rflags, ap) = Inr (rflags, ap') \<and>
    open_entries (rflags, ap') = open_entries (rflags, ap) \<union> route ap ` set irqs"
proof -
  have "io_apic_like rflags ap (rflags, ap)" "list_all (\<lambda>irq. route ap irq < 120) irqs"
    using assms by (simp_all add: io_apic_like_def list_all_iff)
  from io_apic_controller.enable_lines [OF this, of vec m] show ?thesis by (auto simp: io_apic_like_def)
qed

lemma io_apic_disable_irq_result:
  assumes "io_apic_window dev (io_apic_addr (io_apic ap))"
    and "iovr_ok ap" and "ia_lock (io_apic ap) = 0" and "route ap irq < 120" and "redtbl ap (route ap irq) = Some e"
  obtains ap' where "io_apic_disable_irq dev irq rflags ap = Inr (rflags, ap')"
    "redtbl ap' (route ap irq) = Some (e OR IOREDTBL_INTERRUPT_OFF)"
    "\<forall>j<120. j \<noteq> route ap irq \<longrightarrow> redtbl ap' j = redtbl ap j" "io_apic ap' = io_apic ap"
proof -
  let ?ap0 = "ap\<lparr>io_apic := (io_apic ap)\<lparr>ia_lock := 1\<rparr>\<rparr>"
  have same: "redtbl ?ap0 = redtbl ap" by (rule ap_regs_cong) simp_all
  obtain ap1 where 1: "io_apic_redtbl_get dev (route ap irq) ?ap0 = (e, ap1)" "ap_regs ap1 = ap_regs ?ap0" "io_apic ap1 = io_apic ?ap0"
    by (rule io_apic_redtbl_get_result [of dev ?ap0 "route ap irq" e]) (use assms same in simp_all)
  have same1: "redtbl ap1 = redtbl ap" using 1(2) same by (simp add: redtbl_def fun_eq_iff)
  let ?ap2 = "io_apic_redtbl_set (route ap irq) (e OR IOREDTBL_INTERRUPT_OFF) ap1"
  let ?ap' = "?ap2\<lparr>io_apic := (io_apic ?ap2)\<lparr>ia_lock := 0\<rparr>\<rparr>"
  note set = io_apic_redtbl_set_result [OF assms(4), where e = "e OR IOREDTBL_INTERRUPT_OFF" and ap = ap1]
  have same2: "redtbl ?ap' = redtbl ?ap2" by (rule ap_regs_cong) simp_all
  have "io_apic_disable_irq dev irq rflags ap = Inr (rflags, ?ap')"
    using assms(3) splx_splhi [of rflags] 1(3)
    by (simp add: io_apic_disable_irq_def io_apic_interrupt_override_result [OF assms(2)] Let_def split_beta set 1(1))
  moreover have "io_apic ?ap' = io_apic ap" using assms(3) 1(3) by (simp add: set)
  moreover have "redtbl ?ap' (route ap irq) = Some (e OR IOREDTBL_INTERRUPT_OFF)" unfolding same2 by (rule set(1))
  moreover have "\<forall>j<120. j \<noteq> route ap irq \<longrightarrow> redtbl ?ap' j = redtbl ap j" using set(2) same1 same2 by simp
  ultimately show ?thesis using that [of ?ap'] by blast
qed

text \<open>
  C24. \<^verbatim>\<open>io_apic_enable_irq\<close> and \<^verbatim>\<open>io_apic_disable_irq\<close> over a device with the I/O APIC's register
  window: enabling sets up the redirection entry that the override table routes the line to, with the
  vector and the set of processors, unmasked; disabling afterwards masks it and keeps the rest. No
  other entry changes, the lock is free and the flags are restored after each.
\<close>

theorem io_apic_irq_spec:
  assumes "io_apic_window dev (io_apic_addr (io_apic ap))"
    and "iovr_ok ap" and "ia_lock (io_apic ap) = 0" and "route ap irq < 120"
  shows "\<exists>ap1 ap2 e1 e2. io_apic_enable_irq irq v m rflags ap = Inr (rflags, ap1) \<and>
    io_apic_disable_irq dev irq rflags ap1 = Inr (rflags, ap2) \<and>
    redtbl ap1 (route ap irq) = Some e1 \<and> rt_vector e1 = v \<and> rt_dest e1 = m \<and> rt_logical e1 \<and> \<not> rt_masked e1 \<and>
    redtbl ap2 (route ap irq) = Some e2 \<and> rt_vector e2 = v \<and> rt_dest e2 = m \<and> rt_logical e2 \<and> rt_masked e2 \<and>
    (\<forall>j<120. j \<noteq> route ap irq \<longrightarrow> redtbl ap1 j = redtbl ap j \<and> redtbl ap2 j = redtbl ap j) \<and>
    ia_lock (io_apic ap1) = 0 \<and> ia_lock (io_apic ap2) = 0"
proof -
  obtain ap1 where 1: "io_apic_enable_irq irq v m rflags ap = Inr (rflags, ap1)" "redtbl ap1 (route ap irq) = Some (on_entry v m)"
    "\<forall>j<120. j \<noteq> route ap irq \<longrightarrow> redtbl ap1 j = redtbl ap j" "io_apic ap1 = io_apic ap" "io_apic_iovr ap1 = io_apic_iovr ap"
    "io_apic_num_iovr ap1 = io_apic_num_iovr ap" by (rule io_apic_enable_irq_result [OF assms(2-4), of v m rflags])
  have r: "route ap1 irq = route ap irq" "iovr_ok ap1" using 1 assms(2) by (simp_all add: route_def iovr_ok_def)
  obtain ap2 where 2: "io_apic_disable_irq dev irq rflags ap1 = Inr (rflags, ap2)"
    "redtbl ap2 (route ap1 irq) = Some (on_entry v m OR IOREDTBL_INTERRUPT_OFF)"
    "\<forall>j<120. j \<noteq> route ap1 irq \<longrightarrow> redtbl ap2 j = redtbl ap1 j" "io_apic ap2 = io_apic ap1"
    by (rule io_apic_disable_irq_result [of dev ap1 irq "on_entry v m" rflags]) (use assms 1 r in simp_all)
  show ?thesis
    by (rule exI [of _ ap1], rule exI [of _ ap2], rule exI [of _ "on_entry v m"], rule exI [of _ "on_entry v m OR IOREDTBL_INTERRUPT_OFF"])
      (use 1 2 r assms(3) on_entry_fields interrupt_off_fields in simp)
qed

definition window_device :: "u64 \<Rightarrow> device" where
  "window_device a io e =
     (if e = MmioRead (a + 16) then (case ioapic_state a io of (sel, regs) \<Rightarrow> case regs sel of Some d \<Rightarrow> d | None \<Rightarrow> 0)
      else 0)"

lemma window_device_ok: "io_apic_window (window_device a) a"
  by (auto simp: io_apic_window_def window_device_def)

definition demo_apics :: apics where
  "demo_apics = \<lparr>io_apic = \<lparr>io_apic_addr = 0xFEC00000, ia_id = 0, ia_ver = 0x11, num_redtbl = 24, gsi_base = 0, ia_lock = 0\<rparr>,
     io_apic_iovr = \<lparr>iv_bus = 0, iv_irq = 0, iv_gsi = 2\<rparr> # replicate 15 \<lparr>iv_bus = 0, iv_irq = 0, iv_gsi = 0\<rparr>,
     io_apic_num_iovr = 1, local_apic = \<lparr>local_apic_addr = 0xFEE00000, la_num_cpus = 0, la_cpus = []\<rparr>, ap_io = []\<rparr>"

lemma demo_apics_ok: "iovr_ok demo_apics" "ia_lock (io_apic demo_apics) = 0" "route demo_apics 0 = 2" "route demo_apics 1 = 1"
  by (simp_all add: iovr_ok_def demo_apics_def MAX_IO_APIC_IOVR_def route_def)

theorem io_apic_irq_spec_witness:
  "\<exists>ap1 e. io_apic_enable_irq 0 0x40 3 0x202 demo_apics = Inr (0x202, ap1) \<and> redtbl ap1 2 = Some e \<and>
     rt_vector e = 0x40 \<and> rt_dest e = 3 \<and> \<not> rt_masked e"
  using io_apic_irq_spec [OF window_device_ok, of demo_apics 0 "0x40" 3 "0x202"] demo_apics_ok by auto

subsection \<open>Interprocessor interrupts\<close>

definition icr_read :: "apics \<Rightarrow> io_event" where
  "icr_read ap = MmioRead (local_apic_addr (local_apic ap) + ucast LAPIC_ICRLO)"

definition pending_after :: "device \<Rightarrow> apics \<Rightarrow> nat \<Rightarrow> bool" where
  "pending_after dev ap n \<longleftrightarrow> dev (ap_io ap @ replicate n (icr_read ap)) (icr_read ap) AND ICR_SEND_PENDING \<noteq> 0"

lemma icr_wait_step:
  "icr_wait dev ap = (if pending_after dev ap 0 then icr_wait dev (ap\<lparr>ap_io := ap_io ap @ [icr_read ap]\<rparr>)
     else Some (ap\<lparr>ap_io := ap_io ap @ [icr_read ap]\<rparr>))"
  by (subst icr_wait.simps) (simp add: local_apic_read_def mmio_read_u32_def pending_after_def icr_read_def)

lemma pending_after_Suc: "pending_after dev (ap\<lparr>ap_io := ap_io ap @ [icr_read ap]\<rparr>) n \<longleftrightarrow> pending_after dev ap (Suc n)"
  by (simp add: pending_after_def icr_read_def)

lemma icr_wait_returns:
  "\<not> pending_after dev ap n \<Longrightarrow> \<forall>k<n. pending_after dev ap k \<Longrightarrow>
   icr_wait dev ap = Some (ap\<lparr>ap_io := ap_io ap @ replicate (Suc n) (icr_read ap)\<rparr>)"
proof (induction n arbitrary: ap)
  case 0
  then show ?case by (subst icr_wait_step) simp
next
  case (Suc n)
  let ?ap = "ap\<lparr>ap_io := ap_io ap @ [icr_read ap]\<rparr>"
  have "icr_wait dev ?ap = Some (?ap\<lparr>ap_io := ap_io ?ap @ replicate (Suc n) (icr_read ?ap)\<rparr>)"
    by (rule Suc.IH) (use Suc.prems in \<open>simp_all add: pending_after_Suc\<close>)
  moreover have "icr_read ?ap = icr_read ap" by (simp add: icr_read_def)
  moreover have "pending_after dev ap 0" using Suc.prems(2) by simp
  ultimately show ?case by (subst icr_wait_step) simp
qed

lemma icr_wait_least:
  assumes "\<exists>n. \<not> pending_after dev ap n"
  obtains n where "\<not> pending_after dev ap n" "\<forall>k<n. pending_after dev ap k"
    "icr_wait dev ap = Some (ap\<lparr>ap_io := ap_io ap @ replicate (Suc n) (icr_read ap)\<rparr>)"
proof -
  let ?n = "LEAST n. \<not> pending_after dev ap n"
  have n: "\<not> pending_after dev ap ?n" using assms by (rule LeastI_ex)
  moreover have lt: "\<forall>k<?n. pending_after dev ap k" using not_less_Least by blast
  ultimately show ?thesis using that icr_wait_returns by blast
qed

text \<open>The command of a start-up interrupt: its two register writes.\<close>

definition ipi_sent :: "u32 \<Rightarrow> u32 \<Rightarrow> apics \<Rightarrow> apics" where
  "ipi_sent hi lo ap = ap\<lparr>ap_io := ap_io ap @
     [MmioWrite (local_apic_addr (local_apic ap) + 0x310) hi, MmioWrite (local_apic_addr (local_apic ap) + 0x300) lo]\<rparr>"

lemma local_apic_ipi_start_sends:
  "local_apic_ipi_start dev apic_id rflags ap =
     rbind (returns (map_option Inr (icr_wait dev (ipi_sent (push_bit 24 apic_id) 0x4608 ap)))) (\<lambda>ap'. Inr (rflags, ap'))"
  using splx_splhi [of rflags]
  by (simp add: local_apic_ipi_start_def split_beta Let_def local_apic_write_def mmio_write_u32_def ipi_sent_def LAPIC_ICRHI_def
      LAPIC_ICRLO_def ICR_DESTINATION_SHIFT_def ICR_STARTUP_def ICR_PHYSICAL_def ICR_ASSERT_def ICR_EDGE_def ICR_NO_SHORTHAND_def)

text \<open>
  \<^verbatim>\<open>local_apic_ipi_start\<close>: when the device reports the command as delivered after finitely many
  polls, the routine returns; it has written the destination, then the start-up command for the page at
  0x8000, then polled exactly until the report, and the flags are restored.
\<close>

theorem local_apic_ipi_start_returns:
  assumes "\<exists>n. \<not> pending_after dev (ipi_sent (push_bit 24 apic_id) 0x4608 ap) n"
  shows "\<exists>ap' n. local_apic_ipi_start dev apic_id rflags ap = Inr (rflags, ap') \<and>
    ap_io ap' = ap_io ap @ [MmioWrite (local_apic_addr (local_apic ap) + 0x310) (push_bit 24 apic_id),
      MmioWrite (local_apic_addr (local_apic ap) + 0x300) 0x4608] @ replicate (Suc n) (icr_read ap) \<and>
    \<not> pending_after dev (ipi_sent (push_bit 24 apic_id) 0x4608 ap) n \<and>
    (\<forall>k<n. pending_after dev (ipi_sent (push_bit 24 apic_id) 0x4608 ap) k)"
proof -
  let ?ap = "ipi_sent (push_bit 24 apic_id) 0x4608 ap"
  obtain n where n: "\<not> pending_after dev ?ap n" "\<forall>k<n. pending_after dev ?ap k"
    "icr_wait dev ?ap = Some (?ap\<lparr>ap_io := ap_io ?ap @ replicate (Suc n) (icr_read ?ap)\<rparr>)" by (rule icr_wait_least [OF assms])
  have "icr_read ?ap = icr_read ap" by (simp add: icr_read_def ipi_sent_def)
  with n show ?thesis unfolding local_apic_ipi_start_sends
    by (intro exI [of _ "?ap\<lparr>ap_io := ap_io ?ap @ replicate (Suc n) (icr_read ?ap)\<rparr>"] exI [of _ n])
      (simp add: returns_def ipi_sent_def)
qed

definition busy_device :: "nat \<Rightarrow> device" where
  "busy_device n io e = (if length io < n then ICR_SEND_PENDING else 0)"

theorem local_apic_ipi_start_returns_witness:
  "\<exists>ap'. local_apic_ipi_start (busy_device 4) 1 0x202 demo_apics = Inr (0x202, ap')"
proof -
  have "\<not> pending_after (busy_device 4) (ipi_sent (push_bit 24 1) 0x4608 demo_apics) 2"
    by (simp add: pending_after_def busy_device_def ipi_sent_def demo_apics_def)
  then show ?thesis using local_apic_ipi_start_returns [of "busy_device 4" 1 demo_apics "0x202"] by blast
qed

subsection \<open>Waiting for ticks\<close>

lemma wait_loop_returns:
  "ms \<le> ucast (clk j - t) \<Longrightarrow> i \<le> j \<Longrightarrow> \<exists>k. wait_loop clk ms t i = Some (Suc k) \<and> i \<le> k \<and> k \<le> j \<and> ms \<le> ucast (clk k - t)"
proof (induction "j - i" arbitrary: i)
  case 0
  then show ?case by (subst wait_loop.simps) (auto simp: Let_def)
next
  case (Suc n)
  show ?case
  proof (cases "ms \<le> ucast (clk i - t)")
    case True
    then show ?thesis using Suc.prems by (subst wait_loop.simps) (auto simp: Let_def)
  next
    case False
    then obtain k where "wait_loop clk ms t (Suc i) = Some (Suc k)" "Suc i \<le> k" "k \<le> j" "ms \<le> ucast (clk k - t)"
    proof -
      have "n = j - Suc i" "Suc i \<le> j" using Suc.hyps(2) by simp_all
      then show ?thesis using Suc.hyps(1) [of "Suc i"] Suc.prems(1) that by blast
    qed
    then show ?thesis using False by (subst wait_loop.simps) (auto simp: Let_def intro: exI [of _ k])
  qed
qed

lemma cpu_wait_returns:
  assumes "1 \<le> j" and "ms \<le> ucast (clk j - clk 0)"
  shows "\<exists>k. cpu_wait clk ms = Inr (Suc k) \<and> 1 \<le> k \<and> k \<le> j \<and> ms \<le> ucast (clk k - clk 0)"
  using wait_loop_returns [of ms clk j "clk 0" 1] assms by (auto simp: cpu_wait_def returns_def)

end
