(* ===== verification/Gates.thy ===== *)
theory Gates
  imports Apic
begin

text \<open>
  Descriptor tables and the registration of interrupt handlers: the first half of \<^verbatim>\<open>cpu.c\<close> and
  \<^verbatim>\<open>interrupt.c\<close>. The addresses of the assembly entry points of \<^verbatim>\<open>isr.S\<close> are chosen by the linker
  (\<open>entry_points\<close>). A function pointer to a handler is one of the three functions whose address the
  program takes, or null.
\<close>

record entry_points =
  trap_stub :: "nat \<Rightarrow> u64"
  isr_spurious :: u64
  irq_stub :: "nat \<Rightarrow> u64"
  lint_stub :: "nat \<Rightarrow> u64"

record segment_desc_t =
  sd_limit :: u16
  sd_base :: u64

record idt_entry_t =
  ie_offset0 :: u16
  ie_selector :: u16
  ie_type :: u16
  ie_offset1 :: u16
  ie_offset2 :: u32
  ie_reserved :: u32

record gdt_table_t =
  gd_unused :: u64
  gd_kernel_code :: u64
  gd_kernel_data :: u64
  gd_user_code :: u64
  gd_user_data :: u64

definition IDT_TABLE :: u64 where "IDT_TABLE = KERNEL_BASE OR 0x0F000"
definition IDT_INTERRUPT_GATE :: u16 where "IDT_INTERRUPT_GATE = 0x8e00"
definition IDT_TRAP_GATE :: u16 where "IDT_TRAP_GATE = 0x8f00"
definition sizeof_idt_entry_t :: u64 where "sizeof_idt_entry_t = 16"

datatype interrupt_handler_fn = Timer_handler | Lapic_handler | Keyboard_handler | Ata_handler

record interrupt_t =
  it_handler :: "interrupt_handler_fn option"
  it_vector :: u8

text \<open>\<open>gdt_addr\<close> is where the linker put the table \<^verbatim>\<open>gdt\<close>; the two registers are per processor.\<close>

record gates =
  ga_idt :: "idt_entry_t list"
  ga_idtr :: segment_desc_t
  ga_gdt :: gdt_table_t
  ga_gdt_addr :: u64
  ga_gdtr :: segment_desc_t
  irq_handlers :: "interrupt_t list"
  lint_handlers :: "interrupt_t list"
  intr_lock :: u32

subsection \<open>The interrupt descriptor table\<close>

definition idt_gate :: "u16 \<Rightarrow> u64 \<Rightarrow> idt_entry_t" where
  "idt_gate type base = \<lparr>ie_offset0 = ucast base, ie_selector = 0x08, ie_type = type, ie_offset1 = ucast (drop_bit 16 base),
     ie_offset2 = ucast (drop_bit 32 base), ie_reserved = 0\<rparr>"

definition idt_set :: "u32 \<Rightarrow> u16 \<Rightarrow> u64 \<Rightarrow> gates \<Rightarrow> gates outcome" where
  "idt_set index type handler g =
     rbind (arr_set (ga_idt g) (unat index) (idt_gate type handler)) (\<lambda>tab. Inr (g\<lparr>ga_idt := tab\<rparr>))"

definition idt_load :: "gates \<Rightarrow> gates" where
  "idt_load g = g\<lparr>ga_idtr := \<lparr>sd_limit = ucast (256 * sizeof_idt_entry_t - 1), sd_base = IDT_TABLE\<rparr>\<rparr>"

definition cpu_exceptions :: "entry_points \<Rightarrow> u64 list" where
  "cpu_exceptions ep =
     [trap_stub ep 0, trap_stub ep 1, trap_stub ep 2, trap_stub ep 3, trap_stub ep 4, trap_stub ep 5, trap_stub ep 6,
      trap_stub ep 7, trap_stub ep 8, trap_stub ep 9, trap_stub ep 10, trap_stub ep 11, trap_stub ep 12, trap_stub ep 13,
      trap_stub ep 14, isr_spurious ep, trap_stub ep 16, trap_stub ep 17, trap_stub ep 18, trap_stub ep 19, trap_stub ep 20,
      isr_spurious ep, isr_spurious ep, isr_spurious ep, isr_spurious ep, isr_spurious ep, isr_spurious ep, isr_spurious ep,
      isr_spurious ep, isr_spurious ep, trap_stub ep 30, isr_spurious ep]"

definition idt_init :: "entry_points \<Rightarrow> gates \<Rightarrow> gates outcome" where
  "idt_init ep g =
     rbind (for_up 0 32 (\<lambda>i g. rbind (arr_get (cpu_exceptions ep) (unat i)) (\<lambda>h. idt_set i IDT_TRAP_GATE h g)) g) (\<lambda>g.
     rbind (for_up 32 256 (\<lambda>i g. idt_set i IDT_INTERRUPT_GATE (isr_spurious ep) g) g) (\<lambda>g.
     Inr (idt_load g)))"

definition cpu_interrupt_set :: "u8 \<Rightarrow> u64 \<Rightarrow> gates \<Rightarrow> gates outcome" where
  "cpu_interrupt_set vector handler g = idt_set (ucast vector) IDT_INTERRUPT_GATE handler g"

definition cpu_interrupt_unset :: "entry_points \<Rightarrow> u8 \<Rightarrow> gates \<Rightarrow> gates outcome" where
  "cpu_interrupt_unset ep vector g = idt_set (ucast vector) IDT_INTERRUPT_GATE (isr_spurious ep) g"

subsection \<open>The segment descriptor table\<close>

definition GDT_ACCESS_RW :: u64 where "GDT_ACCESS_RW = push_bit 41 1"
definition GDT_ACCESS_EXEC :: u64 where "GDT_ACCESS_EXEC = push_bit 43 1"
definition GDT_ACCESS_SET :: u64 where "GDT_ACCESS_SET = push_bit 44 1"
definition GDT_ACCESS_USER :: u64 where "GDT_ACCESS_USER = push_bit 46 1"
definition GDT_ACCESS_PRESENT :: u64 where "GDT_ACCESS_PRESENT = push_bit 47 1"
definition GDT_FLAGS_X86_64 :: u64 where "GDT_FLAGS_X86_64 = push_bit 53 1"

definition gdt_load :: "gates \<Rightarrow> gates" where
  "gdt_load g = g\<lparr>ga_gdtr := \<lparr>sd_limit = 5 * 8 - 1, sd_base = ga_gdt_addr g\<rparr>\<rparr>"

definition gdt_init :: "gates \<Rightarrow> gates" where
  "gdt_init g =
     (let base = GDT_ACCESS_RW OR GDT_ACCESS_SET OR GDT_ACCESS_PRESENT OR GDT_FLAGS_X86_64;
          g = g\<lparr>ga_gdt := (ga_gdt g)\<lparr>gd_kernel_code := base OR GDT_ACCESS_EXEC, gd_kernel_data := base,
                  gd_user_code := base OR GDT_ACCESS_USER OR GDT_ACCESS_EXEC, gd_user_data := base OR GDT_ACCESS_USER\<rparr>\<rparr> in
      gdt_load g)"

definition cpu_boot_init :: "entry_points \<Rightarrow> gates \<Rightarrow> gates outcome" where
  "cpu_boot_init ep g = idt_init ep (gdt_init g)"

subsection \<open>Registration of handlers\<close>

definition IRQ_BASE :: u8 where "IRQ_BASE = 0x40"
definition IRQ_MAX :: nat where "IRQ_MAX = 0x16"
definition LINT_MAX :: nat where "LINT_MAX = 8"
definition IRQ_TIMER :: u8 where "IRQ_TIMER = 0x00"
definition IRQ_KEYBOARD :: u8 where "IRQ_KEYBOARD = 0x01"

text \<open>\<^verbatim>\<open>irq_stubs\<close> has 22 elements, of which the initialiser gives 16; the others are null.\<close>

definition irq_stubs :: "entry_points \<Rightarrow> u64 list" where
  "irq_stubs ep =
     [irq_stub ep 0, irq_stub ep 1, irq_stub ep 2, irq_stub ep 3, irq_stub ep 4, irq_stub ep 5, irq_stub ep 6, irq_stub ep 7,
      irq_stub ep 8, irq_stub ep 9, irq_stub ep 10, irq_stub ep 11, irq_stub ep 12, irq_stub ep 13, irq_stub ep 14,
      irq_stub ep 15] @ replicate (IRQ_MAX - 16) 0"

definition lint_stubs :: "entry_points \<Rightarrow> u64 list" where
  "lint_stubs ep =
     [lint_stub ep 0, lint_stub ep 1, lint_stub ep 2, lint_stub ep 3, lint_stub ep 4, lint_stub ep 5, lint_stub ep 6,
      lint_stub ep 7]"

definition intr_init :: "gates \<Rightarrow> gates" where
  "intr_init g = g"

definition intr_register_irq_handler ::
  "entry_points \<Rightarrow> u8 \<Rightarrow> interrupt_handler_fn \<Rightarrow> u64 \<Rightarrow> gates \<Rightarrow> (u64 \<times> gates) outcome" where
  "intr_register_irq_handler ep irq handler rflags g =
     rbind (spinlock_lock_splhi (intr_lock g) rflags) (\<lambda>(spl, k, rflags).
     let g = g\<lparr>intr_lock := k\<rparr>; vector = IRQ_BASE + irq in
     rbind (arr_set (irq_handlers g) (unat irq) \<lparr>it_handler = Some handler, it_vector = vector\<rparr>) (\<lambda>tab.
     let g = g\<lparr>irq_handlers := tab\<rparr> in
     rbind (arr_get (irq_stubs ep) (unat irq)) (\<lambda>stub.
     rbind (cpu_interrupt_set vector stub g) (\<lambda>g.
     case spinlock_unlock_splx (intr_lock g) spl rflags of (k, rflags) \<Rightarrow>
     Inr (rflags, g\<lparr>intr_lock := k\<rparr>)))))"

definition intr_register_local_irq_handler ::
  "entry_points \<Rightarrow> u8 \<Rightarrow> u8 \<Rightarrow> interrupt_handler_fn \<Rightarrow> u64 \<Rightarrow> gates \<Rightarrow> (u64 \<times> gates) outcome" where
  "intr_register_local_irq_handler ep irq vector handler rflags g =
     rbind (spinlock_lock_splhi (intr_lock g) rflags) (\<lambda>(spl, k, rflags).
     let g = g\<lparr>intr_lock := k\<rparr> in
     rbind (arr_set (lint_handlers g) (unat irq) \<lparr>it_handler = Some handler, it_vector = vector\<rparr>) (\<lambda>tab.
     let g = g\<lparr>lint_handlers := tab\<rparr> in
     rbind (arr_get (lint_stubs ep) (unat irq)) (\<lambda>stub.
     rbind (cpu_interrupt_set vector stub g) (\<lambda>g.
     case spinlock_unlock_splx (intr_lock g) spl rflags of (k, rflags) \<Rightarrow>
     Inr (rflags, g\<lparr>intr_lock := k\<rparr>)))))"

definition intr_irq_enable :: "u8 \<Rightarrow> u8 \<Rightarrow> u64 \<Rightarrow> gates \<Rightarrow> apics \<Rightarrow> (u64 \<times> apics) outcome" where
  "intr_irq_enable irq cpu_mask rflags g ap =
     rbind (arr_get (irq_handlers g) (unat irq)) (\<lambda>i. io_apic_enable_irq irq (it_vector i) cpu_mask rflags ap)"

definition intr_irq_disable :: "device \<Rightarrow> u8 \<Rightarrow> u64 \<Rightarrow> apics \<Rightarrow> (u64 \<times> apics) outcome" where
  "intr_irq_disable dev irq rflags ap = io_apic_disable_irq dev irq rflags ap"

subsection \<open>What the processor reads from the table\<close>

definition gate_target :: "idt_entry_t \<Rightarrow> u64" where
  "gate_target e = ucast (ie_offset0 e) OR push_bit 16 (ucast (ie_offset1 e)) OR push_bit 32 (ucast (ie_offset2 e))"

lemma gate_target_idt_gate [simp]: "gate_target (idt_gate t base) = base"
proof (rule bit_word_eqI)
  fix n assume "n < LENGTH(64)"
  then consider "n < 16" | "16 \<le> n" "n < 32" | "32 \<le> n" "n < 64" by fastforce
  then show "bit (gate_target (idt_gate t base)) n \<longleftrightarrow> bit base n"
    by cases (auto simp: gate_target_def idt_gate_def bit_or_iff bit_push_bit_iff bit_ucast_iff bit_drop_bit_eq)
qed

definition gates_ok :: "gates \<Rightarrow> bool" where
  "gates_ok g \<longleftrightarrow> length (ga_idt g) = 256 \<and> length (irq_handlers g) = IRQ_MAX \<and> length (lint_handlers g) = LINT_MAX \<and>
     intr_lock g = 0"

lemma length_tables [simp]: "length (cpu_exceptions ep) = 32" "length (irq_stubs ep) = IRQ_MAX" "length (lint_stubs ep) = LINT_MAX"
  by (simp_all add: cpu_exceptions_def irq_stubs_def lint_stubs_def IRQ_MAX_def LINT_MAX_def)

lemma irq_stubs_nth:
  assumes "i < 16"
  shows "irq_stubs ep ! i = irq_stub ep i"
proof -
  have "irq_stubs ep = map (irq_stub ep) [0..<16] @ replicate (IRQ_MAX - 16) 0"
    by (simp add: irq_stubs_def upt_rec numeral_eq_Suc)
  then show ?thesis using assms by (simp add: nth_append)
qed

lemma idt_set_in:
  "unat i < length (ga_idt g) \<Longrightarrow> idt_set i t h g = Inr (g\<lparr>ga_idt := (ga_idt g)[unat i := idt_gate t h]\<rparr>)"
  by (simp add: idt_set_def)

text \<open>A loop that sets the gates from \<open>a\<close> below \<open>b\<close>.\<close>

lemma idt_fill:
  fixes a b :: u32
  assumes "a \<le> b" and "unat b \<le> length (ga_idt g)"
  shows "\<exists>tab. for_up a b (\<lambda>i g. idt_set i t (f i) g) g = Inr (g\<lparr>ga_idt := tab\<rparr>) \<and> length tab = length (ga_idt g) \<and>
    (\<forall>j<length tab. tab ! j = (if unat a \<le> j \<and> j < unat b then idt_gate t (f (of_nat j)) else ga_idt g ! j))"
proof -
  let ?P = "\<lambda>i g'. \<exists>tab. g' = g\<lparr>ga_idt := tab\<rparr> \<and> length tab = length (ga_idt g) \<and>
    (\<forall>j<length tab. tab ! j = (if unat a \<le> j \<and> j < unat i then idt_gate t (f (of_nat j)) else ga_idt g ! j))"
  have "\<exists>g'. for_up a b (\<lambda>i g. idt_set i t (f i) g) g = Inr g' \<and> ?P b g'"
  proof (rule for_up_rule)
    show "?P a g" by (intro exI [of _ "ga_idt g"]) auto
    show "a \<le> b" by (rule assms(1))
    fix i g' assume i: "a \<le> i" "i < b" and "?P i g'"
    then obtain tab where tab: "g' = g\<lparr>ga_idt := tab\<rparr>" "length tab = length (ga_idt g)"
      "\<forall>j<length tab. tab ! j = (if unat a \<le> j \<and> j < unat i then idt_gate t (f (of_nat j)) else ga_idt g ! j)" by blast
    have lt: "unat i < length tab" "unat (i + 1) = Suc (unat i)" "unat a \<le> unat i"
      using i assms(2) tab(2) by (auto simp: unat_plus1 unat_less_iff unat_le_iff)
    then show "\<exists>t'. idt_set i t (f i) g' = Inr t' \<and> ?P (i + 1) t'"
      using tab by (auto simp: idt_set_in less_Suc_eq nth_list_update intro!: exI [of _ "tab[unat i := idt_gate t (f i)]"])
  qed
  then show ?thesis by blast
qed

lemma idt_fill_exceptions:
  assumes "b \<le> 32"
  shows "for_up a b (\<lambda>i g. rbind (arr_get (cpu_exceptions ep) (unat i)) (\<lambda>h. idt_set i t h g)) g =
    for_up a b (\<lambda>i g. idt_set i t (cpu_exceptions ep ! unat i) g) g"
  using assms
proof (induction "unat b - unat a" arbitrary: a g)
  case 0
  then show ?case by (simp add: unat_le_iff)
next
  case (Suc n)
  then have lt: "a < b" by (simp add: unat_less_iff)
  moreover have "unat a < 32" using lt Suc.prems by (simp add: unat_less_iff unat_le_iff)
  moreover have "for_up (a + 1) b (\<lambda>i g. rbind (arr_get (cpu_exceptions ep) (unat i)) (\<lambda>h. idt_set i t h g)) =
    for_up (a + 1) b (\<lambda>i g. idt_set i t (cpu_exceptions ep ! unat i) g)"
    using Suc.hyps(1) [of "a + 1"] Suc.hyps(2) Suc.prems lt by (simp add: fun_eq_iff unat_plus1)
  ultimately show ?case by (simp add: for_up_step)
qed

lemma idt_init_result:
  assumes "length (ga_idt g) = 256"
  obtains tab where "idt_init ep g = Inr (idt_load (g\<lparr>ga_idt := tab\<rparr>))" "length tab = 256"
    "\<forall>j<256. tab ! j = (if j < 32 then idt_gate IDT_TRAP_GATE (cpu_exceptions ep ! j)
       else idt_gate IDT_INTERRUPT_GATE (isr_spurious ep))"
proof -
  obtain t1 where 1: "for_up 0 32 (\<lambda>i g. idt_set i IDT_TRAP_GATE (cpu_exceptions ep ! unat i) g) g = Inr (g\<lparr>ga_idt := t1\<rparr>)"
    "length t1 = 256"
    "\<forall>j<256. t1 ! j = (if j < 32 then idt_gate IDT_TRAP_GATE (cpu_exceptions ep ! unat (of_nat j :: u32)) else ga_idt g ! j)"
    using idt_fill [of 0 32 g IDT_TRAP_GATE "\<lambda>i. cpu_exceptions ep ! unat i"] assms by auto
  obtain t2 where 2: "for_up 32 256 (\<lambda>i g. idt_set i IDT_INTERRUPT_GATE (isr_spurious ep) g) (g\<lparr>ga_idt := t1\<rparr>) =
      Inr (g\<lparr>ga_idt := t2\<rparr>)" "length t2 = 256"
    "\<forall>j<256. t2 ! j = (if 32 \<le> j \<and> j < 256 then idt_gate IDT_INTERRUPT_GATE (isr_spurious ep) else t1 ! j)"
    using idt_fill [of 32 256 "g\<lparr>ga_idt := t1\<rparr>" IDT_INTERRUPT_GATE "\<lambda>_. isr_spurious ep"] 1(2) by auto
  have j: "unat (of_nat j :: u32) = j" if "j < 32" for j using that by (intro unat_of_nat_lt) simp
  show ?thesis
  proof (rule that)
    show "idt_init ep g = Inr (idt_load (g\<lparr>ga_idt := t2\<rparr>))"
      using 1(1) 2(1) idt_fill_exceptions [of 32 0 ep IDT_TRAP_GATE g] by (simp add: idt_init_def)
  qed (use 1 2 j in auto)
qed


definition demo_gates :: gates where
  "demo_gates = \<lparr>ga_idt = replicate 256 (idt_gate 0 0), ga_idtr = \<lparr>sd_limit = 0, sd_base = 0\<rparr>,
     ga_gdt = \<lparr>gd_unused = 0, gd_kernel_code = 0, gd_kernel_data = 0, gd_user_code = 0, gd_user_data = 0\<rparr>, ga_gdt_addr = 0x1000,
     ga_gdtr = \<lparr>sd_limit = 0, sd_base = 0\<rparr>, irq_handlers = replicate IRQ_MAX \<lparr>it_handler = None, it_vector = 0\<rparr>,
     lint_handlers = replicate LINT_MAX \<lparr>it_handler = None, it_vector = 0\<rparr>, intr_lock = 0\<rparr>"

definition demo_entries :: entry_points where
  "demo_entries = \<lparr>trap_stub = (\<lambda>n. 0x100000 + 64 * of_nat n), isr_spurious = 0x200000, irq_stub = (\<lambda>n. 0x300000 + 64 * of_nat n),
     lint_stub = (\<lambda>n. 0x400000 + 64 * of_nat n)\<rparr>"


subsection \<open>Routing an interrupt line\<close>

lemma irq_vector:
  assumes "irq < 16"
  shows "unat (IRQ_BASE + irq) = 64 + unat irq"
  using assms by (subst unat_plus_lt) (simp_all add: IRQ_BASE_def unat_less_iff)

lemma intr_register_irq_handler_result:
  assumes "gates_ok g" and "irq < 16"
  obtains g' where "intr_register_irq_handler ep irq h rflags g = Inr (rflags, g')" "gates_ok g'"
    "irq_handlers g' = (irq_handlers g)[unat irq := \<lparr>it_handler = Some h, it_vector = IRQ_BASE + irq\<rparr>]"
    "ga_idt g' = (ga_idt g)[64 + unat irq := idt_gate IDT_INTERRUPT_GATE (irq_stub ep (unat irq))]"
proof -
  have i: "unat irq < 16" "unat irq < IRQ_MAX" "unat irq < length (irq_handlers g)"
    using assms by (simp_all add: gates_ok_def IRQ_MAX_def unat_less_iff)
  have v: "unat (ucast (IRQ_BASE + irq) :: u32) = 64 + unat irq" using irq_vector [OF assms(2)] by simp
  let ?g' = "g\<lparr>irq_handlers := (irq_handlers g)[unat irq := \<lparr>it_handler = Some h, it_vector = IRQ_BASE + irq\<rparr>],
    ga_idt := (ga_idt g)[64 + unat irq := idt_gate IDT_INTERRUPT_GATE (irq_stub ep (unat irq))]\<rparr>"
  have l: "intr_lock g = 0" "64 + unat irq < length (ga_idt g)" using assms i by (simp_all add: gates_ok_def)
  have "intr_register_irq_handler ep irq h rflags g = Inr (rflags, ?g')"
    using i v l splx_splhi [of rflags]
    by (simp add: intr_register_irq_handler_def spinlock_lock_splhi_def spinlock_unlock_splx_def split_beta Let_def
        cpu_interrupt_set_def idt_set_in irq_stubs_nth)
  then show ?thesis by (rule that) (use assms in \<open>simp_all add: gates_ok_def\<close>)
qed

text \<open>
  C22. Registering a handler for a line below 16 and enabling the line: the redirection entry of the
  line carries a vector whose gate leads to the entry point of exactly this line, and the table behind
  that entry point holds the handler. All other gates, handlers and redirection entries stay as they
  were.
\<close>

theorem intr_route_spec:
  assumes "gates_ok g" and "irq < 16" and "iovr_ok ap" and "ia_lock (io_apic ap) = 0" and "route ap irq < 120"
  shows "\<exists>g' ap' e. intr_register_irq_handler ep irq h rflags g = Inr (rflags, g') \<and>
    intr_irq_enable irq m rflags g' ap = Inr (rflags, ap') \<and>
    redtbl ap' (route ap irq) = Some e \<and> \<not> rt_masked e \<and> rt_dest e = m \<and>
    gate_target (ga_idt g' ! unat (rt_vector e)) = irq_stub ep (unat irq) \<and>
    ie_type (ga_idt g' ! unat (rt_vector e)) = IDT_INTERRUPT_GATE \<and>
    it_handler (irq_handlers g' ! unat irq) = Some h \<and>
    (\<forall>v<256. v \<noteq> unat (rt_vector e) \<longrightarrow> ga_idt g' ! v = ga_idt g ! v) \<and>
    (\<forall>i<IRQ_MAX. i \<noteq> unat irq \<longrightarrow> irq_handlers g' ! i = irq_handlers g ! i) \<and>
    (\<forall>j<120. j \<noteq> route ap irq \<longrightarrow> redtbl ap' j = redtbl ap j) \<and> gates_ok g'"
proof -
  obtain g' where g': "intr_register_irq_handler ep irq h rflags g = Inr (rflags, g')" "gates_ok g'"
    "irq_handlers g' = (irq_handlers g)[unat irq := \<lparr>it_handler = Some h, it_vector = IRQ_BASE + irq\<rparr>]"
    "ga_idt g' = (ga_idt g)[64 + unat irq := idt_gate IDT_INTERRUPT_GATE (irq_stub ep (unat irq))]"
    by (rule intr_register_irq_handler_result [OF assms(1,2)])
  obtain ap' where ap': "io_apic_enable_irq irq (IRQ_BASE + irq) m rflags ap = Inr (rflags, ap')"
    "redtbl ap' (route ap irq) = Some (on_entry (IRQ_BASE + irq) m)" "\<forall>j<120. j \<noteq> route ap irq \<longrightarrow> redtbl ap' j = redtbl ap j"
    by (rule io_apic_enable_irq_result [OF assms(3-5)])
  have i: "unat irq < 16" "unat irq < length (irq_handlers g)" "64 + unat irq < length (ga_idt g)"
    using assms(1,2) by (simp_all add: gates_ok_def IRQ_MAX_def unat_less_iff)
  have "intr_irq_enable irq m rflags g' ap = Inr (rflags, ap')" using i ap'(1) g'(3) by (simp add: intr_irq_enable_def)
  moreover have "ie_type (idt_gate t b) = t" for t b by (simp add: idt_gate_def)
  ultimately show ?thesis
    by (intro exI [of _ g'] exI [of _ ap'] exI [of _ "on_entry (IRQ_BASE + irq) m"])
      (use g' ap' i on_entry_fields irq_vector [OF assms(2)] in simp)
qed

theorem intr_route_spec_witness:
  "\<exists>g' ap' e. intr_register_irq_handler demo_entries 1 Keyboard_handler 0x202 demo_gates = Inr (0x202, g') \<and>
     intr_irq_enable 1 1 0x202 g' demo_apics = Inr (0x202, ap') \<and> redtbl ap' 1 = Some e \<and>
     gate_target (ga_idt g' ! unat (rt_vector e)) = 0x300040 \<and> it_handler (irq_handlers g' ! 1) = Some Keyboard_handler"
proof -
  have "gates_ok demo_gates" by (simp add: gates_ok_def demo_gates_def)
  from intr_route_spec [OF this, of 1 demo_apics demo_entries Keyboard_handler "0x202" 1] demo_apics_ok show ?thesis
    by (auto simp: demo_entries_def)
qed

end
