(* ===== verification/Keyboard.thy ===== *)
theory Keyboard
  imports Sync CString Gates
begin

text \<open>
  The keyboard driver \<^verbatim>\<open>kbd_8042.c\<close>: the interrupt handler stores scan codes in a ring of 16 bytes,
  \<^verbatim>\<open>kbd_read\<close> waits for codes, takes all of them out and decodes them through the two key maps.
  Characters are bytes. \<open>irq_handler_code\<close> is the handler after it has read the scan code from port 0x60.
\<close>

definition KBD_BUFSIZE :: nat where "KBD_BUFSIZE = 16"

record keyboard_t =
  kb_lock :: u32
  kb_cond :: condition_t
  kb_read_pos :: u32
  kb_write_pos :: u32
  kb_buf :: "u8 list"
  kb_shift :: bool
  kb_ctrl :: bool
  kb_alt :: bool
  kb_caps :: bool
  kb_num :: bool

definition ch :: "char \<Rightarrow> u8" where
  "ch c = of_char c"

definition normal :: "u8 list" where
  "normal =
     [0x00, 0x1B] @ map ch ''1234567890-='' @ [8, 9] @
     map ch ''qwertyuiop[]'' @ [0x0D, 0x80] @
     map ch ''asdfghjkl;'' @ [39, 96, 0x80] @
     [92] @ map ch ''zxcvbnm,./'' @ [0x80] @
     map ch ''*'' @ [0x80] @ map ch '' '' @ [0x80, 0x80, 0x80, 0x80, 0x80, 0x80, 0x80, 0x80, 0x80] @
     [0x80, 0x80, 0x80, 0x80, 0x80, 0x80, 0x80, 0x80, 0x80, 0x80, 0x80, 0x80] @
     [0x80, 0x80, 0x80] @ map ch ''0'' @ [127]"

definition shifted :: "u8 list" where
  "shifted =
     [0, 27] @ map ch ''!@#$%^&*()_+'' @ [8, 9] @
     map ch ''QWERTYUIOP{}'' @ [13, 0x80] @
     map ch ''ASDFGHJKL:'' @ [34, 126, 0x80] @
     map ch ''|ZXCVBNM<>?'' @ [0x80] @
     map ch ''*'' @ [0x80] @ map ch '' '' @ [0x80, 0x80, 0x80, 0x80, 0x80, 0x80, 0x80, 0x80, 0x80] @
     [0x80, 0x80, 0x80, 0x80] @ map ch ''789'' @ [0x80] @ map ch ''456'' @ [0x80] @
     map ch ''1230'' @ [177]"

definition kbd_decode :: "keyboard_t \<Rightarrow> u8 \<Rightarrow> u8 outcome" where
  "kbd_decode kbd code =
     (if code = 72 then Inr (ch CHR ''*'')
      else if kb_caps kbd then
        rbind (arr_get normal (unat code)) (\<lambda>tmp.
        if tmp \<ge> ch CHR ''a'' \<and> tmp \<le> ch CHR ''z'' then
          (if kb_shift kbd then arr_get normal (unat code) else arr_get shifted (unat code))
        else
          (if kb_shift kbd then arr_get shifted (unat code) else arr_get normal (unat code)))
      else if kb_shift kbd then arr_get shifted (unat code)
      else arr_get normal (unat code))"

definition kbd_check_special :: "u8 \<Rightarrow> keyboard_t \<Rightarrow> bool \<times> keyboard_t" where
  "kbd_check_special key kbd =
     (if key = 0x36 \<or> key = 0x2A then (True, kbd\<lparr>kb_shift := True\<rparr>)
      else if key = 0xB6 \<or> key = 0xAA then (True, kbd\<lparr>kb_shift := False\<rparr>)
      else if key = 0x1D then (True, kbd\<lparr>kb_ctrl := True\<rparr>)
      else if key = 0x9D then (True, kbd\<lparr>kb_ctrl := False\<rparr>)
      else if key = 0x38 then (True, kbd\<lparr>kb_alt := True\<rparr>)
      else if key = 0xB8 then (True, kbd\<lparr>kb_alt := False\<rparr>)
      else if key = 0x3A \<or> key = 0x45 then (True, kbd)
      else if key = 0xBA then (True, kbd\<lparr>kb_caps := \<not> kb_caps kbd\<rparr>)
      else if key = 0xC5 then (True, kbd\<lparr>kb_num := \<not> kb_num kbd\<rparr>)
      else if key = 0xE0 then (True, kbd)
      else (False, kbd))"

definition irq_handler_code :: "u8 \<Rightarrow> keyboard_t \<Rightarrow> system \<Rightarrow> (keyboard_t \<times> system) outcome" where
  "irq_handler_code code kbd st =
     (case kbd_check_special code kbd of (special, kbd) \<Rightarrow>
      if special \<or> code AND 0x80 \<noteq> 0 then Inr (kbd, st)
      else
        rbind (spinlock_lock (kb_lock kbd)) (\<lambda>k.
        let kbd = kbd\<lparr>kb_lock := k\<rparr> in
        rbind (arr_set (kb_buf kbd) (unat (kb_write_pos kbd) mod KBD_BUFSIZE) code) (\<lambda>buf.
        let kbd = kbd\<lparr>kb_buf := buf, kb_write_pos := kb_write_pos kbd + 1\<rparr> in
        rbind (cond_signal (kb_cond kbd) st) (\<lambda>(cv, st).
        Inr (kbd\<lparr>kb_cond := cv, kb_lock := spinlock_unlock (kb_lock kbd)\<rparr>, st)))))"

definition irq_handler :: "device \<Rightarrow> keyboard_t \<Rightarrow> history \<Rightarrow> system \<Rightarrow> (keyboard_t \<times> history \<times> system) outcome" where
  "irq_handler dev kbd io st =
     (case inb dev 0x60 io of (code, io) \<Rightarrow>
      rbind (irq_handler_code code kbd st) (\<lambda>(kbd, st). Inr (kbd, io, st)))"

definition kbd_8042_init ::
  "entry_points \<Rightarrow> device \<Rightarrow> keyboard_t \<Rightarrow> u64 \<Rightarrow> gates \<Rightarrow> apics \<Rightarrow> (keyboard_t \<times> u64 \<times> gates \<times> apics) outcome" where
  "kbd_8042_init ep dev kbd rflags g ap =
     (let kbd = kbd\<lparr>kb_lock := spinlock_init (kb_lock kbd), kb_cond := cond_init (kb_cond kbd)\<rparr> in
      case local_apic_id dev rflags ap of (apic_id, rflags, ap) \<Rightarrow>
      rbind (intr_register_irq_handler ep IRQ_KEYBOARD Keyboard_handler rflags g) (\<lambda>(rflags, g).
      rbind (shl_int (unat apic_id)) (\<lambda>b.
      rbind (intr_irq_enable IRQ_KEYBOARD (ucast b) rflags g ap) (\<lambda>(rflags, ap).
      Inr (kbd, rflags, g, ap)))))"

text \<open>
  \<^verbatim>\<open>kbd_read\<close> first waits while the ring is empty. Waiting gives up the processor in \<^verbatim>\<open>cond_wait\<close>:
  then the reader has stopped (flag set) and \<open>kbd_read_resume\<close> is what it does when it is switched
  to again. The copy loop fills the local array \<open>buf\<close> of 16 bytes; \<open>n\<close> is the number of codes copied.
\<close>

definition kbd_must_wait :: "keyboard_t \<Rightarrow> bool" where
  "kbd_must_wait kbd \<longleftrightarrow> kb_read_pos kbd \<ge> kb_write_pos kbd"

partial_function (option) kbd_wait :: "keyboard_t \<Rightarrow> system \<Rightarrow> (bool \<times> keyboard_t \<times> system) outcome option" where
  "kbd_wait kbd st =
     (if kbd_must_wait kbd then
        case cond_wait (kb_cond kbd) (kb_lock kbd) st of
          Inl e \<Rightarrow> Some (Inl e)
        | Inr (switched, cv, lock, st') \<Rightarrow>
            if switched then Some (Inr (True, kbd\<lparr>kb_cond := cv, kb_lock := lock\<rparr>, st'))
            else kbd_wait (kbd\<lparr>kb_cond := cv, kb_lock := lock\<rparr>) st'
      else Some (Inr (False, kbd, st)))"

function kbd_take :: "u8 list \<Rightarrow> nat \<Rightarrow> keyboard_t \<Rightarrow> (u8 list \<times> nat \<times> keyboard_t) outcome" where
  "kbd_take buf n kbd =
     (if kb_read_pos kbd < kb_write_pos kbd then
        rbind (arr_get (kb_buf kbd) (unat (kb_read_pos kbd) mod KBD_BUFSIZE)) (\<lambda>code.
        rbind (arr_set buf n code) (\<lambda>buf.
        kbd_take buf (n + 1) (kbd\<lparr>kb_read_pos := kb_read_pos kbd + 1\<rparr>)))
      else Inr (buf, n, kbd))"
  by pat_completeness auto
termination
  by (relation "measure (\<lambda>(_, _, kbd). unat (kb_write_pos kbd) - unat (kb_read_pos kbd))")
    (auto simp: unat_plus1 unat_less_iff)

declare kbd_take.simps [simp del]

primrec kbd_decode_all :: "keyboard_t \<Rightarrow> u8 list \<Rightarrow> u8 list outcome" where
  "kbd_decode_all kbd [] = Inr []"
| "kbd_decode_all kbd (c # cs) =
     rbind (kbd_decode kbd c) (\<lambda>x. rbind (kbd_decode_all kbd cs) (\<lambda>xs. Inr (x # xs)))"

definition kbd_read_rest :: "u32 \<Rightarrow> keyboard_t \<Rightarrow> system \<Rightarrow> (u8 list option \<times> keyboard_t \<times> system) outcome" where
  "kbd_read_rest spl kbd st =
     rbind (returns (kbd_wait kbd st)) (\<lambda>(stopped, kbd, st).
     if stopped then Inr (None, kbd, st)
     else
       rbind (kbd_take (replicate KBD_BUFSIZE 0) 0 kbd) (\<lambda>(buf, n, kbd).
       case spinlock_unlock_splx (kb_lock kbd) spl (sy_rflags st) of (k, rflags) \<Rightarrow>
       let kbd = kbd\<lparr>kb_lock := k\<rparr>; st = st\<lparr>sy_rflags := rflags\<rparr> in
       rbind (kbd_decode_all kbd (take n buf)) (\<lambda>out.
       Inr (Some out, kbd, st))))"

definition kbd_read :: "keyboard_t \<Rightarrow> system \<Rightarrow> (u8 list option \<times> keyboard_t \<times> system) outcome" where
  "kbd_read kbd st =
     rbind (spinlock_lock_splhi (kb_lock kbd) (sy_rflags st)) (\<lambda>(spl, k, rflags).
     kbd_read_rest spl (kbd\<lparr>kb_lock := k\<rparr>) (st\<lparr>sy_rflags := rflags\<rparr>))"

definition kbd_read_resume ::
  "nat \<Rightarrow> u32 \<Rightarrow> keyboard_t \<Rightarrow> system \<Rightarrow> (u8 list option \<times> keyboard_t \<times> system) outcome" where
  "kbd_read_resume c spl kbd st =
     rbind (cond_wait_rest c (kb_lock kbd) st) (\<lambda>(k, st).
     kbd_read_rest spl (kbd\<lparr>kb_lock := k\<rparr>) st)"

subsection \<open>The ring of scan codes\<close>

definition kbd_queue :: "keyboard_t \<Rightarrow> u8 list \<Rightarrow> bool" where
  "kbd_queue kbd cs \<longleftrightarrow> length (kb_buf kbd) = KBD_BUFSIZE \<and> length cs \<le> KBD_BUFSIZE \<and>
     unat (kb_write_pos kbd) = unat (kb_read_pos kbd) + length cs \<and>
     (\<forall>i<length cs. kb_buf kbd ! ((unat (kb_read_pos kbd) + i) mod KBD_BUFSIZE) = cs ! i)"

lemma slot_inj:
  fixes r i j n :: nat
  assumes "i < n" and "j < n" and "(r + i) mod n = (r + j) mod n"
  shows "i = j"
  using assms
proof (induction i j rule: linorder_wlog)
  case (le a b)
  then have "n dvd (r + b) - (r + a)" by (metis add_le_cancel_left mod_eq_dvd_iff_nat)
  then have "n dvd b - a" by simp
  then show ?case using le dvd_imp_le [of n "b - a"] by linarith
next
  case (sym a b)
  then show ?case by metis
qed

lemma if_special: "fst y \<or> y = z \<Longrightarrow> fst (if b then (True, x) else y) \<or> (if b then (True, x) else y) = z"
  by simp

lemma kbd_check_special_plain: "fst (kbd_check_special key kbd) \<or> kbd_check_special key kbd = (False, kbd)"
  unfolding kbd_check_special_def by (rule if_special)+ simp

text \<open>The handler appends an ordinary code while there is room.\<close>

lemma irq_handler_store:
  assumes q: "kbd_queue kbd cs" and room: "length cs < KBD_BUFSIZE" and nw: "unat (kb_write_pos kbd) < 2 ^ 32 - 1"
    and k: "kb_lock kbd = 0" and plain: "fst (kbd_check_special code kbd) = False" "code AND 0x80 = 0"
    and sig: "cond_signal (kb_cond kbd) st = Inr (cv, st')"
  obtains kbd' where "irq_handler_code code kbd st = Inr (kbd', st')" "kbd_queue kbd' (cs @ [code])" "kb_lock kbd' = 0"
    "kb_cond kbd' = cv" "kb_shift kbd' = kb_shift kbd" "kb_caps kbd' = kb_caps kbd" "kb_read_pos kbd' = kb_read_pos kbd"
proof -
  have sp: "kbd_check_special code kbd = (False, kbd)" using plain(1) kbd_check_special_plain [of code kbd] by simp
  let ?w = "unat (kb_write_pos kbd)" and ?r = "unat (kb_read_pos kbd)"
  have q': "length (kb_buf kbd) = KBD_BUFSIZE" "?w = ?r + length cs"
    "\<And>i. i < length cs \<Longrightarrow> kb_buf kbd ! ((?r + i) mod KBD_BUFSIZE) = cs ! i" using q by (auto simp: kbd_queue_def)
  have lt: "?w mod KBD_BUFSIZE < length (kb_buf kbd)" by (simp add: q'(1) KBD_BUFSIZE_def)
  have w1: "unat (kb_write_pos kbd + 1) = Suc ?w" using unat_plus_lt [of "kb_write_pos kbd" 1] nw by simp
  define kbd' where "kbd' = kbd\<lparr>kb_buf := (kb_buf kbd)[?w mod KBD_BUFSIZE := code], kb_write_pos := kb_write_pos kbd + 1, kb_cond := cv\<rparr>"
  have lk: "kbd\<lparr>kb_lock := 0\<rparr> = kbd" using k by simp
  have "irq_handler_code code kbd st = Inr ((kbd\<lparr>kb_lock := 0\<rparr>)\<lparr>kb_buf := (kb_buf kbd)[?w mod KBD_BUFSIZE := code],
      kb_write_pos := kb_write_pos kbd + 1, kb_cond := cv\<rparr>, st')"
    using k plain(2) sig lt by (simp add: irq_handler_code_def sp Let_def)
  then have "irq_handler_code code kbd st = Inr (kbd', st')" unfolding lk kbd'_def .
  moreover have "kbd_queue kbd' (cs @ [code])"
  proof -
    have "(kb_buf kbd)[?w mod KBD_BUFSIZE := code] ! ((?r + i) mod KBD_BUFSIZE) = (cs @ [code]) ! i" if "i < Suc (length cs)" for i
    proof (cases "i = length cs")
      case True
      then show ?thesis using q'(2) lt by simp
    next
      case False
      then have i: "i < length cs" using that by simp
      then have "(?r + i) mod KBD_BUFSIZE \<noteq> (?r + length cs) mod KBD_BUFSIZE"
        using slot_inj [of i KBD_BUFSIZE "length cs" ?r] room by auto
      then show ?thesis using q'(2,3) i by (simp add: nth_append)
    qed
    then show ?thesis using q' room w1 by (simp add: kbd_queue_def kbd'_def)
  qed
  ultimately show ?thesis using k that [of kbd'] by (simp add: kbd'_def)
qed

text \<open>The reader takes the codes out in order.\<close>

lemma kbd_take_queue:
  assumes "kbd_queue kbd cs" and "n + length cs \<le> length buf"
  shows "\<exists>buf' kbd'. kbd_take buf n kbd = Inr (buf', n + length cs, kbd') \<and> take (n + length cs) buf' = take n buf @ cs \<and>
    kbd_queue kbd' [] \<and> kbd' = kbd\<lparr>kb_read_pos := kb_write_pos kbd\<rparr>"
  using assms
proof (induction cs arbitrary: buf n kbd)
  case Nil
  then have "kb_read_pos kbd = kb_write_pos kbd" by (simp add: kbd_queue_def)
  then show ?case using Nil by (subst kbd_take.simps) simp
next
  case (Cons c cs)
  let ?r = "unat (kb_read_pos kbd)" and ?k = "kbd\<lparr>kb_read_pos := kb_read_pos kbd + 1\<rparr>"
  have lt: "kb_read_pos kbd < kb_write_pos kbd" using Cons.prems(1) by (simp add: kbd_queue_def unat_less_iff)
  have r1: "unat (kb_read_pos kbd + 1) = Suc ?r" by (rule unat_plus1 [OF lt])
  have at: "kb_buf kbd ! (?r mod KBD_BUFSIZE) = c" "?r mod KBD_BUFSIZE < length (kb_buf kbd)"
    using Cons.prems(1) unfolding kbd_queue_def by (auto simp: KBD_BUFSIZE_def dest: spec [of _ 0])
  have "kb_buf kbd ! ((Suc ?r + i) mod KBD_BUFSIZE) = cs ! i" if "i < length cs" for i
    using Cons.prems(1) that unfolding kbd_queue_def by (auto dest: spec [of _ "Suc i"])
  then have q: "kbd_queue ?k cs" using Cons.prems(1) r1 by (simp add: kbd_queue_def)
  have n: "n < length buf" "Suc n + length cs \<le> length (buf[n := c])" using Cons.prems(2) by simp_all
  have "kbd_take buf n kbd = kbd_take (buf[n := c]) (Suc n) ?k" using lt at n by (subst kbd_take.simps) simp
  moreover have "take (Suc n) (buf[n := c]) = take n buf @ [c]" using n(1) by (simp add: take_Suc_conv_app_nth)
  ultimately show ?case using Cons.IH [OF q n(2)] by simp
qed

lemma key_maps [simp]: "length normal = 84" "length shifted = 84"
  by (simp_all add: normal_def shifted_def)

lemma kbd_decode_total: "unat code < 84 \<Longrightarrow> \<exists>x. kbd_decode kbd code = Inr x"
  by (simp add: kbd_decode_def)

lemma kbd_decode_out: "84 \<le> unat code \<Longrightarrow> kbd_decode kbd code = Inl OutOfBounds"
  by (auto simp: kbd_decode_def arr_get_def)

lemma kbd_decode_cong:
  "kb_caps k = kb_caps k' \<Longrightarrow> kb_shift k = kb_shift k' \<Longrightarrow> kbd_decode k = kbd_decode k'"
  by (simp add: fun_eq_iff kbd_decode_def)

lemma kbd_decode_all_result:
  "\<forall>c\<in>set cs. unat c < 84 \<Longrightarrow> \<exists>out. kbd_decode_all kbd cs = Inr out \<and> map (kbd_decode kbd) cs = map Inr out"
proof (induction cs)
  case (Cons c cs)
  then show ?case using kbd_decode_total [of c kbd] by auto
qed simp

text \<open>Keys pressed one after the other.\<close>

primrec type_keys :: "u8 list \<Rightarrow> keyboard_t \<Rightarrow> system \<Rightarrow> (keyboard_t \<times> system) outcome" where
  "type_keys [] kbd st = Inr (kbd, st)"
| "type_keys (c # cs) kbd st = rbind (irq_handler_code c kbd st) (\<lambda>(kbd, st). type_keys cs kbd st)"

definition plain_key :: "u8 \<Rightarrow> bool" where
  "plain_key c \<longleftrightarrow> unat c < 84 \<and> c \<notin> {0x36, 0x2A, 0x1D, 0x38, 0x3A, 0x45}"

lemma plain_key_stored:
  assumes "plain_key c"
  shows "fst (kbd_check_special c kbd) = False" and "c AND 0x80 = 0"
proof -
  have u: "unat c < 84" using assms by (simp add: plain_key_def)
  have ne: "c \<noteq> k" if "84 \<le> unat k" for k using u that by auto
  then have "c \<noteq> 0xB6" "c \<noteq> 0xAA" "c \<noteq> 0x9D" "c \<noteq> 0xB8" "c \<noteq> 0xBA" "c \<noteq> 0xC5" "c \<noteq> 0xE0" by simp_all
  moreover have "c \<noteq> 0x36" "c \<noteq> 0x2A" "c \<noteq> 0x1D" "c \<noteq> 0x38" "c \<noteq> 0x3A" "c \<noteq> 0x45" using assms by (auto simp: plain_key_def)
  ultimately show "fst (kbd_check_special c kbd) = False" unfolding kbd_check_special_def by simp
  have "unat (take_bit 7 c) = unat c" using u unsigned_take_bit_eq [of 7 c, where 'a = nat] by (simp add: take_bit_eq_mod)
  then have "take_bit 7 c = c" by simp
  then have "\<not> bit c 7" by (metis bit_take_bit_iff less_irrefl)
  moreover have "(0x80 :: u8) = 2 ^ 7" by simp
  ultimately show "c AND 0x80 = 0" by (intro bit_word_eqI) (auto simp only: bit_and_iff bit_exp_iff bit_0_eq)
qed

lemma type_keys_queue:
  assumes "kbd_queue kbd cs" and "length cs + length ks \<le> KBD_BUFSIZE" and "unat (kb_write_pos kbd) + length ks < 2 ^ 32"
    and "kb_lock kbd = 0" and "\<forall>c\<in>set ks. plain_key c" and "thread_list_empty (cn_threads (kb_cond kbd))"
  shows "\<exists>kbd'. type_keys ks kbd st = Inr (kbd', st) \<and> kbd_queue kbd' (cs @ ks) \<and> kb_lock kbd' = 0 \<and>
    kb_cond kbd' = kb_cond kbd \<and> kb_shift kbd' = kb_shift kbd \<and> kb_caps kbd' = kb_caps kbd"
  using assms
proof (induction ks arbitrary: kbd cs)
  case (Cons c ks)
  have sig: "cond_signal (kb_cond kbd) st = Inr (kb_cond kbd, st)" using Cons.prems(6) by (simp add: cond_signal_def)
  have p: "plain_key c" using Cons.prems(5) by simp
  obtain kbd1 where 1: "irq_handler_code c kbd st = Inr (kbd1, st)" "kbd_queue kbd1 (cs @ [c])" "kb_lock kbd1 = 0"
    "kb_cond kbd1 = kb_cond kbd" "kb_shift kbd1 = kb_shift kbd" "kb_caps kbd1 = kb_caps kbd" "kb_read_pos kbd1 = kb_read_pos kbd"
    by (rule irq_handler_store [OF Cons.prems(1) _ _ Cons.prems(4) plain_key_stored [OF p] sig]) (use Cons.prems in simp_all)
  have "unat (kb_write_pos kbd) = unat (kb_read_pos kbd) + length cs" using Cons.prems(1) by (simp add: kbd_queue_def)
  moreover have "unat (kb_write_pos kbd1) = unat (kb_read_pos kbd1) + Suc (length cs)" using 1(2) by (simp add: kbd_queue_def)
  ultimately have "unat (kb_write_pos kbd1) + length ks < 2 ^ 32" using Cons.prems(3) 1(7) by simp
  then show ?case using Cons.IH [OF 1(2)] Cons.prems 1 by simp
qed simp

lemma kbd_read_queue:
  assumes q: "kbd_queue kbd cs" and ne: "cs \<noteq> []" and k: "kb_lock kbd = 0" and c: "\<forall>c\<in>set cs. unat c < 84"
  obtains out kbd' where "kbd_read kbd st = Inr (Some out, kbd', st)" "map (kbd_decode kbd) cs = map Inr out"
    "kbd_queue kbd' []" "kb_lock kbd' = 0"
proof -
  obtain spl rf where sp: "cpu_splhi (sy_rflags st) = (spl, rf)" by fastforce
  let ?kbd = "kbd\<lparr>kb_lock := 1\<rparr>" and ?st = "st\<lparr>sy_rflags := rf\<rparr>"
  have q1: "kbd_queue ?kbd cs" using q by (simp add: kbd_queue_def)
  have lt: "kb_read_pos kbd < kb_write_pos kbd" using q ne by (simp add: kbd_queue_def unat_less_iff)
  have w: "kbd_wait ?kbd ?st = Some (Inr (False, ?kbd, ?st))" using lt by (subst kbd_wait.simps) (simp add: kbd_must_wait_def not_le [symmetric])
  let ?kbd2 = "?kbd\<lparr>kb_read_pos := kb_write_pos ?kbd\<rparr>"
  obtain buf where t: "kbd_take (replicate KBD_BUFSIZE 0) 0 ?kbd = Inr (buf, length cs, ?kbd2)" "take (length cs) buf = cs"
    using kbd_take_queue [OF q1, of 0 "replicate KBD_BUFSIZE 0"] q by (auto simp: kbd_queue_def)
  let ?kbd3 = "kbd\<lparr>kb_read_pos := kb_write_pos kbd, kb_lock := 0\<rparr>"
  obtain out where o: "kbd_decode_all ?kbd3 cs = Inr out" "map (kbd_decode ?kbd3) cs = map Inr out"
    using kbd_decode_all_result [OF c] by blast
  have d: "kbd_decode ?kbd3 = kbd_decode kbd" by (rule kbd_decode_cong) simp_all
  have fl: "cpu_splx spl rf = sy_rflags st" using splx_splhi [of "sy_rflags st"] by (simp add: sp)
  have "kbd_read kbd st = Inr (Some out, ?kbd3, st)"
    using k fl by (simp add: kbd_read_def spinlock_lock_splhi_def sp kbd_read_rest_def w returns_def t spinlock_unlock_splx_def o Let_def)
  moreover have "kbd_queue ?kbd3 []" using q by (simp add: kbd_queue_def)
  ultimately show ?thesis by (rule that [of out ?kbd3, OF _ o(2) [unfolded d]]) simp
qed

text \<open>
  C26. Typing and reading: up to 16 ordinary keys pressed while the ring is empty and nobody waits are
  what the next \<^verbatim>\<open>kbd_read\<close> returns, decoded, in the order they were pressed; afterwards the ring is empty
  again, the lock is free and the processor state is as before.
\<close>

theorem kbd_fifo:
  assumes "kbd_queue kbd []" and "ks \<noteq> []" and "length ks \<le> KBD_BUFSIZE" and "unat (kb_write_pos kbd) + length ks < 2 ^ 32"
    and "kb_lock kbd = 0" and "\<forall>c\<in>set ks. plain_key c" and "thread_list_empty (cn_threads (kb_cond kbd))"
  shows "\<exists>kbd1 kbd2 out. type_keys ks kbd st = Inr (kbd1, st) \<and> kbd_read kbd1 st = Inr (Some out, kbd2, st) \<and>
    map (kbd_decode kbd) ks = map Inr out \<and> kbd_queue kbd2 [] \<and> kb_lock kbd2 = 0"
proof -
  obtain kbd1 where 1: "type_keys ks kbd st = Inr (kbd1, st)" "kbd_queue kbd1 ks" "kb_lock kbd1 = 0"
    "kb_shift kbd1 = kb_shift kbd" "kb_caps kbd1 = kb_caps kbd"
    using type_keys_queue [OF assms(1) _ assms(4-7), of st] assms(3) by auto
  have "\<forall>c\<in>set ks. unat c < 84" using assms(6) by (auto simp: plain_key_def)
  from kbd_read_queue [OF 1(2) assms(2) 1(3) this, of st] obtain out kbd2 where
    "kbd_read kbd1 st = Inr (Some out, kbd2, st)" "map (kbd_decode kbd1) ks = map Inr out" "kbd_queue kbd2 []" "kb_lock kbd2 = 0"
    by blast
  then show ?thesis using 1 kbd_decode_cong [of kbd1 kbd] by auto
qed

definition demo_kbd :: keyboard_t where
  "demo_kbd = \<lparr>kb_lock = 0, kb_cond = \<lparr>cn_threads = thread_list_init\<rparr>, kb_read_pos = 14, kb_write_pos = 14,
     kb_buf = replicate 16 0, kb_shift = False, kb_ctrl = False, kb_alt = False, kb_caps = False, kb_num = False\<rparr>"

lemma demo_kbd_empty: "kbd_queue demo_kbd []" "kb_lock demo_kbd = 0" "thread_list_empty (cn_threads (kb_cond demo_kbd))"
  "unat (kb_write_pos demo_kbd) = 14"
  by (simp_all add: kbd_queue_def demo_kbd_def KBD_BUFSIZE_def thread_list_empty_def thread_list_init_def)

text \<open>The codes of the keys p and s, across the end of the ring.\<close>

theorem kbd_fifo_witness:
  "\<exists>kbd1 kbd2. type_keys [25, 31, 28] demo_kbd demo_system = Inr (kbd1, demo_system) \<and>
     kbd_read kbd1 demo_system = Inr (Some [112, 115, 13], kbd2, demo_system)"
proof -
  have "\<forall>c\<in>set [25, 31, 28]. plain_key c" by (simp add: plain_key_def)
  from kbd_fifo [OF demo_kbd_empty(1) _ _ _ demo_kbd_empty(2) this demo_kbd_empty(3), of demo_system]
  obtain kbd1 kbd2 out where 1: "type_keys [25, 31, 28] demo_kbd demo_system = Inr (kbd1, demo_system)"
    "kbd_read kbd1 demo_system = Inr (Some out, kbd2, demo_system)" "map (kbd_decode demo_kbd) [25, 31, 28] = map Inr out"
    using demo_kbd_empty(4) by (auto simp: KBD_BUFSIZE_def)
  have "kbd_decode demo_kbd 25 = Inr 112" "kbd_decode demo_kbd 31 = Inr 115" "kbd_decode demo_kbd 28 = Inr 13"
    by (simp_all add: kbd_decode_def demo_kbd_def normal_def ch_def)
  with 1(3) have "out = [112, 115, 13]" by (auto simp: map_eq_Cons_conv)
  with 1 show ?thesis by blast
qed

lemma kbd_take_overrun:
  assumes "length (kb_buf kbd) = KBD_BUFSIZE" and "unat (kb_read_pos kbd) + (length buf - n) < unat (kb_write_pos kbd)"
  shows "kbd_take buf n kbd = Inl OutOfBounds"
  using assms
proof (induction "length buf - n" arbitrary: buf n kbd)
  case 0
  then have "kb_read_pos kbd < kb_write_pos kbd" "length buf \<le> n" by (simp_all add: unat_less_iff)
  then show ?case using "0.prems"(1) by (subst kbd_take.simps) (simp add: arr_set_out KBD_BUFSIZE_def)
next
  case (Suc m)
  have lt: "kb_read_pos kbd < kb_write_pos kbd" using Suc.prems(2) by (simp add: unat_less_iff)
  have n: "n < length buf" using Suc.hyps(2) by simp
  let ?kbd = "kbd\<lparr>kb_read_pos := kb_read_pos kbd + 1\<rparr>"
  have "kbd_take (buf[n := c]) (Suc n) ?kbd = Inl OutOfBounds" for c
    by (rule Suc.hyps(1)) (use Suc.hyps(2) Suc.prems unat_plus1 [OF lt] n in simp_all)
  then show ?case using lt n Suc.prems(1) by (subst kbd_take.simps) (simp add: KBD_BUFSIZE_def)
qed

text \<open>
  C40. With more than 16 codes unread, \<^verbatim>\<open>kbd_read\<close> copies all of them into its local array of 16 bytes
  and so writes past its end.
\<close>

theorem kbd_read_overrun:
  assumes "length (kb_buf kbd) = KBD_BUFSIZE" and "kb_lock kbd = 0"
    and "unat (kb_read_pos kbd) + KBD_BUFSIZE < unat (kb_write_pos kbd)"
  shows "kbd_read kbd st = Inl OutOfBounds"
proof -
  obtain spl rf where sp: "cpu_splhi (sy_rflags st) = (spl, rf)" by fastforce
  let ?kbd = "kbd\<lparr>kb_lock := 1\<rparr>" and ?st = "st\<lparr>sy_rflags := rf\<rparr>"
  have "kb_read_pos kbd < kb_write_pos kbd" using assms(3) by (simp add: unat_less_iff)
  then have w: "kbd_wait ?kbd ?st = Some (Inr (False, ?kbd, ?st))" by (subst kbd_wait.simps) (simp add: kbd_must_wait_def not_le [symmetric])
  have "kbd_take (replicate KBD_BUFSIZE 0) 0 ?kbd = Inl OutOfBounds" by (rule kbd_take_overrun) (use assms in simp_all)
  then show ?thesis using assms(2) by (simp add: kbd_read_def spinlock_lock_splhi_def sp kbd_read_rest_def w returns_def)
qed

theorem kbd_read_overrun_witness:
  "kbd_read (demo_kbd\<lparr>kb_write_pos := 31\<rparr>) demo_system = Inl OutOfBounds"
  using kbd_read_overrun [of "demo_kbd\<lparr>kb_write_pos := 31\<rparr>" demo_system] by (simp add: demo_kbd_def KBD_BUFSIZE_def)

end
