(* ===== verification/Ata.thy ===== *)
theory Ata
  imports Gates Threads
begin

text \<open>
  The disk driver \<^verbatim>\<open>ata.c\<close>: the fields of the identification block, the interrupt handler, and the start-up
  that identifies the drive and issues one read. The driver's variable is \<^verbatim>\<open>int_skip\<close>; \<open>io\<close> is the history of
  port accesses and \<open>dev\<close> answers reads. What is printed is a value.
\<close>

definition ATA_PRIMARY_IO :: u32 where "ATA_PRIMARY_IO = 0x1f0"
definition ATA_REG_DATA :: u32 where "ATA_REG_DATA = 0x00"
definition ATA_REG_ERROR :: u32 where "ATA_REG_ERROR = 0x01"
definition ATA_REG_SECTOR_COUNT :: u32 where "ATA_REG_SECTOR_COUNT = 0x02"
definition ATA_REG_LBA_LOW :: u32 where "ATA_REG_LBA_LOW = 0x03"
definition ATA_REG_LBA_MID :: u32 where "ATA_REG_LBA_MID = 0x04"
definition ATA_REG_LBA_HIGH :: u32 where "ATA_REG_LBA_HIGH = 0x05"
definition ATA_REG_DEVICE :: u32 where "ATA_REG_DEVICE = 0x06"
definition ATA_REG_STATUS :: u32 where "ATA_REG_STATUS = 0x07"
definition ATA_REG_COMMAND :: u32 where "ATA_REG_COMMAND = 0x07"
definition ATA_REG_DEVICE_CONTROL :: u32 where "ATA_REG_DEVICE_CONTROL = 0x206"
definition ATA_CMD_PIO_READ_EXT :: u8 where "ATA_CMD_PIO_READ_EXT = 0x24"
definition ATA_CMD_ATA_IDENTIFY :: u8 where "ATA_CMD_ATA_IDENTIFY = 0xec"
definition ATA_STATUS_ERROR :: u8 where "ATA_STATUS_ERROR = 0x01"
definition ATA_STATUS_DRQ :: u8 where "ATA_STATUS_DRQ = 0x08"
definition ATA_STATUS_DSC :: u8 where "ATA_STATUS_DSC = 0x10"
definition ATA_STATUS_READY :: u8 where "ATA_STATUS_READY = 0x40"
definition ATA_STATUS_BUSY :: u8 where "ATA_STATUS_BUSY = 0x80"
definition ATA_CTL_4_HEAD_BITS :: u8 where "ATA_CTL_4_HEAD_BITS = 0x08"
definition ATA_DRIVE_MASTER :: u8 where "ATA_DRIVE_MASTER = 0x00"
definition ATA_DRIVE_LBA :: u8 where "ATA_DRIVE_LBA = 0x40"
definition ATA_DRIVE_512_SECTOR :: u8 where "ATA_DRIVE_512_SECTOR = 0xa0"
definition ATA_ID_CONFIG :: nat where "ATA_ID_CONFIG = 0"
definition ATA_ID_CYLS :: nat where "ATA_ID_CYLS = 1"
definition ATA_ID_HEADS :: nat where "ATA_ID_HEADS = 3"
definition ATA_ID_SECTORS :: nat where "ATA_ID_SECTORS = 6"
definition ATA_ID_MAX_MULTSECT :: nat where "ATA_ID_MAX_MULTSECT = 47"
definition ATA_ID_CAPABILITY :: nat where "ATA_ID_CAPABILITY = 49"
definition ATA_ID_MULTSECT :: nat where "ATA_ID_MULTSECT = 59"
definition ATA_ID_LBA_CAPACITY :: nat where "ATA_ID_LBA_CAPACITY = 60"
definition ATA_ID_COMMAND_SET_2 :: nat where "ATA_ID_COMMAND_SET_2 = 83"
definition ATA_ID_CFS_ENABLE_2 :: nat where "ATA_ID_CFS_ENABLE_2 = 86"
definition ATA_ID_CSF_DEFAULT :: nat where "ATA_ID_CSF_DEFAULT = 87"
definition ATA_ID_LBA_CAPACITY_2 :: nat where "ATA_ID_LBA_CAPACITY_2 = 100"

subsection \<open>The identification block\<close>

text \<open>The block has 256 words; every index the code uses is below that.\<close>

definition ata_id_has_lba :: "u16 list \<Rightarrow> bool" where
  "ata_id_has_lba ident \<longleftrightarrow> ident ! ATA_ID_CAPABILITY AND push_bit 9 1 \<noteq> 0"

definition ata_id_u32 :: "u16 list \<Rightarrow> nat \<Rightarrow> u32" where
  "ata_id_u32 ident n = push_bit 16 (ucast (ident ! (n + 1))) OR ucast (ident ! n)"

definition ata_id_u64 :: "u16 list \<Rightarrow> nat \<Rightarrow> u64" where
  "ata_id_u64 ident n =
     push_bit 48 (ucast (ident ! (n + 3))) OR push_bit 32 (ucast (ident ! (n + 2))) OR push_bit 16 (ucast (ident ! (n + 1))) OR ucast (ident ! (n + 0))"

definition ata_id_has_lba48 :: "u16 list \<Rightarrow> bool" where
  "ata_id_has_lba48 ident =
     (if ident ! ATA_ID_COMMAND_SET_2 AND 0xc000 \<noteq> 0x4000 then False
      else if ata_id_u64 ident ATA_ID_LBA_CAPACITY_2 = 0 then False
      else ident ! ATA_ID_COMMAND_SET_2 AND push_bit 10 1 \<noteq> 0)"

definition ata_id_lba48_enabled :: "u16 list \<Rightarrow> bool" where
  "ata_id_lba48_enabled ident =
     (if \<not> ata_id_has_lba48 ident then False
      else if ident ! ATA_ID_CSF_DEFAULT AND 0xc000 \<noteq> 0x4000 then False
      else ident ! ATA_ID_CFS_ENABLE_2 AND push_bit 10 1 \<noteq> 0)"

datatype ata_capacity = Lba48 u64 | Lba u32 | Chs u32

record ata_report =
  ar_config :: u16
  ar_cyls :: u16
  ar_heads :: u16
  ar_sectors :: u16
  ar_caps :: u16
  ar_lba_words :: "u16 \<times> u16"
  ar_capacity :: ata_capacity
  ar_max_multi :: u16
  ar_multi :: u16

definition ata_report_of :: "u16 list \<Rightarrow> ata_report" where
  "ata_report_of buf =
     \<lparr>ar_config = buf ! ATA_ID_CONFIG, ar_cyls = buf ! ATA_ID_CYLS, ar_heads = buf ! ATA_ID_HEADS, ar_sectors = buf ! ATA_ID_SECTORS,
      ar_caps = buf ! ATA_ID_CAPABILITY, ar_lba_words = (buf ! ATA_ID_LBA_CAPACITY, buf ! (ATA_ID_LBA_CAPACITY + 1)),
      ar_capacity =
        (if ata_id_lba48_enabled buf then Lba48 (ata_id_u64 buf ATA_ID_LBA_CAPACITY_2)
         else if ata_id_has_lba buf then Lba (ata_id_u32 buf ATA_ID_LBA_CAPACITY)
         else Chs (ucast (buf ! ATA_ID_CYLS) * ucast (buf ! ATA_ID_HEADS) * ucast (buf ! ATA_ID_SECTORS))),
      ar_max_multi = buf ! ATA_ID_MAX_MULTSECT,
      ar_multi = (if buf ! ATA_ID_MULTSECT \<noteq> 0 then 1 else 0)\<rparr>"

subsection \<open>Transfers\<close>

primrec read_words :: "device \<Rightarrow> nat \<Rightarrow> history \<Rightarrow> u16 list \<times> history" where
  "read_words dev 0 io = ([], io)"
| "read_words dev (Suc n) io =
     (case inw dev (ATA_PRIMARY_IO + ATA_REG_DATA) io of (w, io) \<Rightarrow>
      case read_words dev n io of (ws, io) \<Rightarrow> (w # ws, io))"

text \<open>What an interrupt was: an error with its code, data, or something else.\<close>

datatype ata_event = Ata_error u8 | Ata_data | Ata_weird u8

definition ata_interrupt :: "device \<Rightarrow> bool \<Rightarrow> history \<Rightarrow> ata_event \<times> history" where
  "ata_interrupt dev int_skip io =
     (let io_base = ATA_PRIMARY_IO in
      case inb dev (io_base + ATA_REG_STATUS) io of (status, io) \<Rightarrow>
      if status AND ATA_STATUS_ERROR \<noteq> 0 then
        (case inb dev (io_base + ATA_REG_ERROR) io of (err, io) \<Rightarrow> (Ata_error err, io))
      else
        let msk = ATA_STATUS_READY OR ATA_STATUS_DRQ OR ATA_STATUS_DSC in
        if status AND ATA_STATUS_BUSY = 0 \<and> status AND msk = msk then
          (if int_skip then (Ata_data, io) else (Ata_data, snd (read_words dev 256 io)))
        else (Ata_weird status, io))"

text \<open>The loop that waits for the identification block; the result tells whether the drive reported an error.\<close>

partial_function (option) ata_wait :: "device \<Rightarrow> history \<Rightarrow> (bool \<times> history) option" where
  "ata_wait dev io =
     (case inb dev (ATA_PRIMARY_IO + ATA_REG_STATUS) io of (status, io) \<Rightarrow>
      if status AND ATA_STATUS_ERROR \<noteq> 0 then Some (True, io)
      else if status AND ATA_STATUS_BUSY = 0 \<and> status AND ATA_STATUS_DRQ \<noteq> 0 then Some (False, io)
      else ata_wait dev io)"

definition ata_identify :: "history \<Rightarrow> history" where
  "ata_identify io =
     (let io_base = ATA_PRIMARY_IO;
          io = outb (io_base + ATA_REG_DEVICE_CONTROL) ATA_CTL_4_HEAD_BITS io;
          io = outb (io_base + ATA_REG_DEVICE) (ATA_DRIVE_512_SECTOR OR ATA_DRIVE_MASTER) io;
          io = outb (io_base + ATA_REG_SECTOR_COUNT) 0 io;
          io = outb (io_base + ATA_REG_LBA_LOW) 0 io;
          io = outb (io_base + ATA_REG_LBA_MID) 0 io;
          io = outb (io_base + ATA_REG_LBA_HIGH) 0 io in
      outb (io_base + ATA_REG_COMMAND) ATA_CMD_ATA_IDENTIFY io)"

text \<open>The read of one sector: the high halves of count and address first, then the low halves.\<close>

definition ata_read_sector :: "u32 \<Rightarrow> history \<Rightarrow> history" where
  "ata_read_sector lba_addr io =
     (let io_base = ATA_PRIMARY_IO;
          lba = [ucast (lba_addr AND 0x000000FF), ucast (drop_bit 8 (lba_addr AND 0x0000FF00)),
                 ucast (drop_bit 16 (lba_addr AND 0x00FF0000)), ucast (drop_bit 24 (lba_addr AND 0xFF000000)), 0, 0];
          io = outb (io_base + ATA_REG_DEVICE) (ATA_DRIVE_LBA OR ATA_DRIVE_MASTER) io;
          io = outb (io_base + ATA_REG_SECTOR_COUNT) 0 io;
          io = outb (io_base + ATA_REG_LBA_LOW) (lba ! 3) io;
          io = outb (io_base + ATA_REG_LBA_MID) (lba ! 4) io;
          io = outb (io_base + ATA_REG_LBA_HIGH) (lba ! 5) io;
          io = outb (io_base + ATA_REG_SECTOR_COUNT) 1 io;
          io = outb (io_base + ATA_REG_LBA_LOW) (lba ! 0) io;
          io = outb (io_base + ATA_REG_LBA_MID) (lba ! 1) io;
          io = outb (io_base + ATA_REG_LBA_HIGH) (lba ! 2) io in
      outb (io_base + ATA_REG_COMMAND) ATA_CMD_PIO_READ_EXT io)"

text \<open>
  \<^verbatim>\<open>ata_init\<close>: \<open>apic_id\<close> is that of the running processor. The result has the new value of \<^verbatim>\<open>int_skip\<close> and the
  report, if the drive identified itself.
\<close>

record ata_state =
  at_int_skip :: bool
  at_rflags :: u64
  at_gates :: gates
  at_apics :: apics

definition put_io :: "history \<Rightarrow> ata_state \<Rightarrow> ata_state" where
  "put_io io st = st\<lparr>at_apics := (at_apics st)\<lparr>ap_io := io\<rparr>\<rparr>"

definition ata_probe :: "device \<Rightarrow> ata_state \<Rightarrow> (ata_report option \<times> ata_state) option" where
  "ata_probe dev st =
     (let io = ata_identify (ap_io (at_apics st)) in
      case inb dev (ATA_PRIMARY_IO + ATA_REG_STATUS) io of (status, io) \<Rightarrow>
      if status \<noteq> 0 then
        (case ata_wait dev io of
           None \<Rightarrow> None
         | Some (err, io) \<Rightarrow>
             if err then Some (None, put_io io st)
             else
               case cpu_splhi (at_rflags st) of (s, rflags) \<Rightarrow>
               case read_words dev 256 io of (buf, io) \<Rightarrow>
               let st = st\<lparr>at_rflags := cpu_splx s rflags, at_int_skip := False\<rparr> in
               Some (Some (ata_report_of buf), put_io (ata_read_sector (419430400 - 1) io) st))
      else Some (None, put_io io st))"

definition ata_init :: "entry_points \<Rightarrow> device \<Rightarrow> u32 \<Rightarrow> ata_state \<Rightarrow> (ata_report option \<times> ata_state) outcome option" where
  "ata_init ep dev apic_id st =
     (case rbind (intr_register_irq_handler ep 14 Ata_handler (at_rflags st) (at_gates st)) (\<lambda>(rflags, g).
           rbind (shl_int (unat apic_id)) (\<lambda>b.
           rbind (intr_irq_enable 14 (ucast b) rflags g (at_apics st)) (\<lambda>(rflags, ap).
           Inr (st\<lparr>at_rflags := rflags, at_gates := g, at_apics := ap, at_int_skip := True\<rparr>)))) of
        Inl e \<Rightarrow> Some (Inl e)
      | Inr st \<Rightarrow> map_option Inr (ata_probe dev st))"

subsection \<open>The handler and the wait\<close>

lemma read_words_length: "length (fst (read_words dev n io)) = n"
proof (induction n arbitrary: io)
  case (Suc n)
  then show ?case by (simp add: inw_def split_beta)
qed simp

lemma read_words_history: "snd (read_words dev n io) = io @ replicate n (In16 0x1f0)"
proof (induction n arbitrary: io)
  case (Suc n)
  then show ?case by (simp add: inw_def split_beta ATA_PRIMARY_IO_def ATA_REG_DATA_def)
qed simp

text \<open>The status that the drive shows after \<open>k\<close> more polls.\<close>

definition status_after :: "device \<Rightarrow> history \<Rightarrow> nat \<Rightarrow> u8" where
  "status_after dev io k = ucast (dev (io @ replicate k (In8 0x1f7)) (In8 0x1f7))"

definition poll_done :: "u8 \<Rightarrow> bool" where
  "poll_done s \<longleftrightarrow> s AND ATA_STATUS_ERROR \<noteq> 0 \<or> (s AND ATA_STATUS_BUSY = 0 \<and> s AND ATA_STATUS_DRQ \<noteq> 0)"

text \<open>
  The wait ends with the first poll that shows an error or, when the drive is not busy, a data request; a drive
  that never shows either keeps the processor in the loop.
\<close>

lemma ata_wait_returns:
  assumes "poll_done (status_after dev io k)" and "\<forall>j<k. \<not> poll_done (status_after dev io j)"
  shows "ata_wait dev io = Some (status_after dev io k AND ATA_STATUS_ERROR \<noteq> 0, io @ replicate (Suc k) (In8 0x1f7))"
  using assms
proof (induction k arbitrary: io)
  case 0
  then show ?case
    by (subst ata_wait.simps) (auto simp: inb_def ATA_PRIMARY_IO_def ATA_REG_STATUS_def status_after_def poll_done_def)
next
  case (Suc k)
  have sh: "status_after dev (io @ [In8 0x1f7]) j = status_after dev io (Suc j)" for j by (simp add: status_after_def)
  have "\<not> poll_done (status_after dev io 0)" using Suc.prems(2) by blast
  then have "ata_wait dev io = ata_wait dev (io @ [In8 0x1f7])"
    by (subst ata_wait.simps) (auto simp: inb_def ATA_PRIMARY_IO_def ATA_REG_STATUS_def status_after_def poll_done_def)
  also have "\<dots> = Some (status_after dev (io @ [In8 0x1f7]) k AND ATA_STATUS_ERROR \<noteq> 0, (io @ [In8 0x1f7]) @ replicate (Suc k) (In8 0x1f7))"
    using Suc.prems by (intro Suc.IH) (auto simp: sh)
  finally show ?case by (simp add: sh)
qed

end
