(* ===== verification/Smp.thy ===== *)
theory Smp
  imports Keyboard Ata
begin

text \<open>
  Bringing up the processors and dispatching interrupts: the second half of \<^verbatim>\<open>cpu.c\<close>, the entry
  points of \<^verbatim>\<open>interrupt.c\<close> and \<^verbatim>\<open>cpu_exception.c\<close>. \<open>kernel\<close> puts together the state of the components
  these use. Console messages are left out.

  What happens meanwhile on other processors is visible to the boot processor in two places only: the
  tick counter that \<^verbatim>\<open>cpu_wait\<close> polls and the counter \<^verbatim>\<open>num_cpus\<close>. Both are arguments: \<open>clk c i\<close> is read
  \<open>i\<close> of the ticks in call \<open>c\<close> of \<^verbatim>\<open>cpu_wait\<close>, \<open>online i\<close> is read \<open>i\<close> of \<^verbatim>\<open>num_cpus\<close>.
\<close>

record kernel =
  kn_sys :: system
  kn_apics :: apics
  kn_gates :: gates
  kn_kbd :: keyboard_t
  kn_int_skip :: bool
  num_cpus :: u32

definition sys_kernel :: "system \<Rightarrow> kstate" where
  "sys_kernel st = sh_kernel (km_heap (sy_km st))"

definition put_sys_kernel :: "kstate \<Rightarrow> system \<Rightarrow> system" where
  "put_sys_kernel ks st = st\<lparr>sy_km := (sy_km st)\<lparr>km_heap := (km_heap (sy_km st))\<lparr>sh_kernel := ks\<rparr>\<rparr>\<rparr>"

definition put_vm :: "vm_boot \<Rightarrow> system \<Rightarrow> system" where
  "put_vm vm st = put_sys_kernel ((sys_kernel st)\<lparr>ks_vm := vm\<rparr>) st"

subsection \<open>Interrupts and exceptions\<close>

text \<open>A handler tells whether it switched to another thread.\<close>

definition lapic_irq_handler :: "kernel \<Rightarrow> (bool \<times> kernel) outcome" where
  "lapic_irq_handler k = rbind (arr_get (sy_cpus (kn_sys k)) (get_cpu (kn_sys k))) (\<lambda>_. Inr (False, k))"

definition call_handler :: "device \<Rightarrow> interrupt_handler_fn \<Rightarrow> kernel \<Rightarrow> (bool \<times> kernel) outcome" where
  "call_handler dev h k =
     (case h of
        Timer_handler \<Rightarrow>
          rbind (timer_irq_handler (kn_sys k)) (\<lambda>(switched, st). Inr (switched, k\<lparr>kn_sys := st\<rparr>))
      | Lapic_handler \<Rightarrow> lapic_irq_handler k
      | Keyboard_handler \<Rightarrow>
          rbind (irq_handler dev (kn_kbd k) (ap_io (kn_apics k)) (kn_sys k)) (\<lambda>(kbd, io, st).
          Inr (False, k\<lparr>kn_kbd := kbd, kn_apics := (kn_apics k)\<lparr>ap_io := io\<rparr>, kn_sys := st\<rparr>))
      | Ata_handler \<Rightarrow>
          (case ata_interrupt dev (kn_int_skip k) (ap_io (kn_apics k)) of (_, io) \<Rightarrow>
           Inr (False, k\<lparr>kn_apics := (kn_apics k)\<lparr>ap_io := io\<rparr>\<rparr>)))"

definition cpu_interrupt :: "device \<Rightarrow> isr_frame_t \<Rightarrow> kernel \<Rightarrow> (bool \<times> kernel) outcome" where
  "cpu_interrupt dev frame k =
     (let k = k\<lparr>kn_apics := local_apic_eoi (kn_apics k)\<rparr>; irq_num = ucast (fr_trap_num frame) :: u32 in
      rbind (arr_get (irq_handlers (kn_gates k)) (unat irq_num)) (\<lambda>i.
      case it_handler i of Some h \<Rightarrow> call_handler dev h k | None \<Rightarrow> Inr (False, k)))"

definition cpu_local_interrupt :: "device \<Rightarrow> isr_frame_t \<Rightarrow> kernel \<Rightarrow> (bool \<times> kernel) outcome" where
  "cpu_local_interrupt dev frame k =
     (let k = k\<lparr>kn_apics := local_apic_eoi (kn_apics k)\<rparr>; irq_num = ucast (fr_trap_num frame) :: u32 in
      rbind (arr_get (lint_handlers (kn_gates k)) (unat irq_num)) (\<lambda>i.
      case it_handler i of Some h \<Rightarrow> call_handler dev h k | None \<Rightarrow> Inr (False, k)))"

definition EXCEPTION_BREAKPOINT :: u64 where "EXCEPTION_BREAKPOINT = 0x3"
definition EXCEPTION_PAGE_FAULT :: u64 where "EXCEPTION_PAGE_FAULT = 0xE"

text \<open>
  How an exception ends: it returns to the interrupted code, or the processor stops in \<^verbatim>\<open>hlt\<close>, which an
  interrupt ends when interrupts are enabled.
\<close>

datatype trap_end = Resumed | Halted

definition handle_page_fault :: "system \<Rightarrow> trap_end \<times> system" where
  "handle_page_fault st = (Halted, st\<lparr>sy_rflags := cpu_disable_interrupts (sy_rflags st)\<rparr>)"

definition cpu_exception :: "isr_frame_t \<Rightarrow> system \<Rightarrow> (trap_end \<times> system) outcome" where
  "cpu_exception frame st =
     rbind (arr_get (sy_cpus st) (get_cpu st)) (\<lambda>cpu.
     if fr_trap_num frame = EXCEPTION_BREAKPOINT then Inr (Resumed, st)
     else if fr_trap_num frame = EXCEPTION_PAGE_FAULT then Inr (handle_page_fault st)
     else Inr (Halted, st))"

subsection \<open>Bringing up the processors\<close>

definition cpu_init_desc :: "device \<Rightarrow> kernel \<Rightarrow> kernel outcome" where
  "cpu_init_desc dev k =
     (case local_apic_id dev (sy_rflags (kn_sys k)) (kn_apics k) of (apic_id, rflags, ap) \<Rightarrow>
      rbind (upd_cpu (unat apic_id) (\<lambda>d. d\<lparr>cd_apic_id := apic_id\<rparr>) ((kn_sys k)\<lparr>sy_rflags := rflags\<rparr>)) (\<lambda>st.
      Inr (k\<lparr>kn_sys := st\<lparr>sy_this := unat apic_id\<rparr>, kn_apics := ap\<rparr>)))"

text \<open>
  \<^verbatim>\<open>cpu_init_ap\<close> up to the point where it enters \<^verbatim>\<open>idle_loop\<close>, which never returns; the \<^verbatim>\<open>int $3\<close> before
  it goes through \<^verbatim>\<open>cpu_exception\<close>.
\<close>

definition breakpoint_frame :: isr_frame_t where
  "breakpoint_frame = \<lparr>fr_r11 = 0, fr_r10 = 0, fr_r9 = 0, fr_r8 = 0, fr_rdx = 0, fr_rcx = 0, fr_rax = 0, fr_trap_num = 3,
     fr_trap_err = 0, fr_rip = 0, fr_cs = 0x08, fr_rflags = 0, fr_rsp = 0, fr_ss = 0x10\<rparr>"

definition cpu_init_ap :: "device \<Rightarrow> kernel \<Rightarrow> kernel outcome" where
  "cpu_init_ap dev k =
     (let k = k\<lparr>num_cpus := snd (fetch_and_add_32 (num_cpus k) 1)\<rparr>;
          k = k\<lparr>kn_gates := idt_load (gdt_load (kn_gates k))\<rparr> in
      rbind (local_apic_init dev (ks_vm (sys_kernel (kn_sys k))) (kn_apics k)) (\<lambda>(vm, ap).
      let k = k\<lparr>kn_sys := put_vm vm (kn_sys k), kn_apics := ap\<rparr> in
      rbind (cpu_init_desc dev k) (\<lambda>k.
      let c = get_cpu (kn_sys k) in
      rbind (upd_cpu c (\<lambda>d. d\<lparr>cd_flags := CPU_FLAGS_ACTIVE\<rparr>) (kn_sys k)) (\<lambda>st.
      rbind (sched_init_cpu c st) (\<lambda>st.
      let st = st\<lparr>sy_rflags := cpu_enable_interrupts (sy_rflags st)\<rparr> in
      rbind (cpu_exception breakpoint_frame st) (\<lambda>(_, st).
      Inr (k\<lparr>kn_sys := st\<rparr>)))))))"

definition boot_enable_ap :: "kernel \<Rightarrow> kernel" where
  "boot_enable_ap k =
     (let ks = sys_kernel (kn_sys k) in
      k\<lparr>kn_sys := put_sys_kernel (ks\<lparr>ks_boot := (ks_boot ks)\<lparr>bi_boot_ap := 1\<rparr>\<rparr>) (kn_sys k)\<rparr>)"

text \<open>The two loops over the processors the firmware reported, and the wait until all are online.\<close>

definition send_init :: "device \<Rightarrow> u32 \<Rightarrow> u32 \<Rightarrow> u8 \<times> u64 \<times> apics \<Rightarrow> (u8 \<times> u64 \<times> apics) outcome" where
  "send_init dev bsp i s =
     (case s of (cpu_mask, rflags, ap) \<Rightarrow>
      rbind (arr_get (la_cpus (local_apic ap)) (unat i)) (\<lambda>c.
      let apic_id = ucast (lc_apic_id c) in
      if apic_id \<noteq> bsp then
        rbind (local_apic_ipi_init dev apic_id rflags ap) (\<lambda>(rflags, ap).
        rbind (shl_int (unat apic_id)) (\<lambda>b.
        Inr (cpu_mask OR ucast b, rflags, ap)))
      else Inr (cpu_mask, rflags, ap)))"

definition send_start :: "device \<Rightarrow> u32 \<Rightarrow> u32 \<Rightarrow> u64 \<times> apics \<Rightarrow> (u64 \<times> apics) outcome" where
  "send_start dev bsp i s =
     (case s of (rflags, ap) \<Rightarrow>
      rbind (arr_get (la_cpus (local_apic ap)) (unat i)) (\<lambda>c.
      let apic_id = ucast (lc_apic_id c) in
      if apic_id \<noteq> bsp then local_apic_ipi_start dev apic_id rflags ap else Inr (rflags, ap)))"

partial_function (option) online_loop ::
  "(nat \<Rightarrow> nat \<Rightarrow> u64) \<Rightarrow> (nat \<Rightarrow> u32) \<Rightarrow> u32 \<Rightarrow> nat \<Rightarrow> nat outcome option" where
  "online_loop clk online target i =
     (if online i \<noteq> target then
        case cpu_wait (clk (i + 2)) 1 of
          Inl e \<Rightarrow> Some (Inl e)
        | Inr _ \<Rightarrow> online_loop clk online target (Suc i)
      else Some (Inr i))"

definition cpu_smp_init :: "device \<Rightarrow> (nat \<Rightarrow> nat \<Rightarrow> u64) \<Rightarrow> (nat \<Rightarrow> u32) \<Rightarrow> kernel \<Rightarrow> kernel outcome" where
  "cpu_smp_init dev clk online k =
     (let k = boot_enable_ap (k\<lparr>num_cpus := 1\<rparr>) in
      case local_apic_id dev (sy_rflags (kn_sys k)) (kn_apics k) of (bsp, rflags, ap) \<Rightarrow>
      rbind (shl_int (unat bsp)) (\<lambda>b.
      let n = la_num_cpus (local_apic ap) in
      rbind (for_up 0 n (send_init dev bsp) (ucast b, rflags, ap)) (\<lambda>(cpu_mask, rflags, ap).
      rbind (cpu_wait (clk 0) 10) (\<lambda>_.
      rbind (for_up 0 n (send_start dev bsp) (rflags, ap)) (\<lambda>(rflags, ap).
      rbind (cpu_wait (clk 1) 200) (\<lambda>_.
      rbind (returns (online_loop clk online (la_num_cpus (local_apic ap)) 0)) (\<lambda>i.
      let k = k\<lparr>num_cpus := online i\<rparr> in
      rbind (intr_irq_enable IRQ_TIMER cpu_mask rflags (kn_gates k) ap) (\<lambda>(rflags, ap).
      rbind (cpu_wait (clk (i + 2)) 10) (\<lambda>_.
      Inr (k\<lparr>kn_sys := (kn_sys k)\<lparr>sy_rflags := rflags\<rparr>, kn_apics := ap\<rparr>))))))))))"

text \<open>\<open>tclk\<close> is the tick counter as \<^verbatim>\<open>local_apic_timer_init\<close> polls it.\<close>

definition cpu_init ::
  "entry_points \<Rightarrow> device \<Rightarrow> (nat \<Rightarrow> u64) \<Rightarrow> (nat \<Rightarrow> nat \<Rightarrow> u64) \<Rightarrow> (nat \<Rightarrow> u32) \<Rightarrow> kernel \<Rightarrow> kernel outcome" where
  "cpu_init ep dev tclk clk online k =
     rbind (io_apic_init dev (ks_vm (sys_kernel (kn_sys k))) (kn_apics k)) (\<lambda>(vm, ap).
     rbind (local_apic_init dev vm ap) (\<lambda>(vm, ap).
     let k = k\<lparr>kn_sys := put_vm vm (kn_sys k), kn_apics := ap, kn_gates := intr_init (kn_gates k)\<rparr> in
     rbind (cpu_init_desc dev k) (\<lambda>k.
     let c = get_cpu (kn_sys k) in
     rbind (upd_cpu c (\<lambda>d. d\<lparr>cd_flags := CPU_FLAGS_ACTIVE OR CPU_FLAGS_BSP\<rparr>) (kn_sys k)) (\<lambda>st.
     rbind (sched_init_cpu c st) (\<lambda>st.
     rbind (intr_register_local_irq_handler ep 0 0xf0 Lapic_handler (sy_rflags st) (kn_gates k)) (\<lambda>(rflags, g).
     rbind (intr_register_irq_handler ep IRQ_TIMER Timer_handler rflags g) (\<lambda>(rflags, g).
     rbind (arr_get (sy_cpus st) c) (\<lambda>cpu.
     rbind (shl_int (unat (cd_apic_id cpu))) (\<lambda>b.
     rbind (intr_irq_enable IRQ_TIMER (ucast b) rflags g (kn_apics k)) (\<lambda>(rflags, ap).
     rbind (local_apic_timer_init dev tclk (cpu_enable_interrupts rflags) ap) (\<lambda>(_, rflags, ap).
     cpu_smp_init dev clk online (k\<lparr>kn_sys := st\<lparr>sy_rflags := rflags\<rparr>, kn_gates := g, kn_apics := ap\<rparr>))))))))))))"

text \<open>What \<^verbatim>\<open>cpu_show_cmd\<close> prints for a processor: flags, ticks, and id, state and ticks of each thread.\<close>

definition cpu_show_one :: "u32 \<Rightarrow> system \<Rightarrow> ((u32 \<times> u64 \<times> (u32 \<times> u32 \<times> u64) list) \<times> system) outcome" where
  "cpu_show_one i st =
     rbind (cpu_lock_smp i st) (\<lambda>(c, st).
     rbind (arr_get (sy_cpus st) c) (\<lambda>cpu.
     let t = cd_threads cpu in
     rbind (returns (ring_loop (\<lambda>p out.
       rbind (get_thread p st) (\<lambda>th. Inr (th_next th, out @ [(th_id th, th_state th, th_ticks th)]))) t t [])) (\<lambda>out.
     rbind (cpu_unlock_smp c st) (\<lambda>st.
     Inr ((cd_flags cpu, cd_ticks cpu, out), st)))))"

definition cpu_show_cmd :: "kernel \<Rightarrow> ((u32 \<times> u64 \<times> (u32 \<times> u32 \<times> u64) list) list \<times> kernel) outcome" where
  "cpu_show_cmd k =
     rbind (for_up 0 (num_cpus k) (\<lambda>i (out, st).
       rbind (cpu_show_one i st) (\<lambda>(o1, st). Inr (out @ [o1], st))) ([], kn_sys k)) (\<lambda>(out, st).
     Inr (out, k\<lparr>kn_sys := st\<rparr>))"

subsection \<open>Commands to the other processors\<close>

definition icr_writes :: "u64 \<Rightarrow> history \<Rightarrow> (u64 \<times> u32) list" where
  "icr_writes base io = concat (map (\<lambda>e. case e of
     MmioWrite p d \<Rightarrow> if p = base + 0x300 \<or> p = base + 0x310 then [(p, d)] else [] | _ \<Rightarrow> []) io)"

definition lapic :: "apics \<Rightarrow> u64" where
  "lapic ap = local_apic_addr (local_apic ap)"

definition ipi :: "apics \<Rightarrow> u32 \<Rightarrow> u32 \<Rightarrow> (u64 \<times> u32) list" where
  "ipi ap cmd dest = [(lapic ap + 0x310, push_bit 24 dest), (lapic ap + 0x300, cmd)]"

definition delivers :: "device \<Rightarrow> bool" where
  "delivers dev \<longleftrightarrow> (\<forall>ap. \<exists>n. \<not> pending_after dev ap n)"

text \<open>Everything but the history is as before.\<close>

definition same_tables :: "apics \<Rightarrow> apics \<Rightarrow> bool" where
  "same_tables ap ap' \<longleftrightarrow> (\<exists>io. ap' = ap\<lparr>ap_io := io\<rparr>)"

lemma same_tables_simps:
  assumes "same_tables ap ap'"
  shows "local_apic ap' = local_apic ap" "io_apic ap' = io_apic ap" "io_apic_iovr ap' = io_apic_iovr ap"
    "io_apic_num_iovr ap' = io_apic_num_iovr ap" "lapic ap' = lapic ap" "ipi ap' = ipi ap" "iovr_ok ap' = iovr_ok ap"
    "route ap' = route ap"
  using assms by (auto simp: same_tables_def lapic_def ipi_def fun_eq_iff iovr_ok_def route_def)

lemma same_tables_refl [simp]: "same_tables ap ap"
  by (auto simp: same_tables_def intro: exI [of _ "ap_io ap"])

lemma same_tables_trans: "same_tables a b \<Longrightarrow> same_tables b c \<Longrightarrow> same_tables a c"
  by (auto simp: same_tables_def)

lemma icr_writes_append [simp]: "icr_writes base (io @ io') = icr_writes base io @ icr_writes base io'"
  by (simp add: icr_writes_def)

lemma icr_writes_reads [simp]: "icr_writes base (replicate n (MmioRead p)) = []"
  by (induction n) (simp_all add: icr_writes_def)

text \<open>Sending one command: the two writes and then only reads.\<close>

lemma icr_command:
  assumes "delivers dev"
  obtains ap' where "returns (map_option Inr (icr_wait dev (ipi_sent hi lo ap))) = Inr ap'" "same_tables ap ap'"
    "icr_writes (lapic ap) (ap_io ap') = icr_writes (lapic ap) (ap_io ap) @ [(lapic ap + 0x310, hi), (lapic ap + 0x300, lo)]"
proof -
  let ?ap = "ipi_sent hi lo ap"
  obtain n where "icr_wait dev ?ap = Some (?ap\<lparr>ap_io := ap_io ?ap @ replicate (Suc n) (icr_read ?ap)\<rparr>)"
    by (rule icr_wait_least [of dev ?ap]) (use assms in \<open>auto simp: delivers_def\<close>)
  then have "returns (map_option Inr (icr_wait dev ?ap)) = Inr (?ap\<lparr>ap_io := ap_io ?ap @ replicate (Suc n) (icr_read ?ap)\<rparr>)"
    by (simp add: returns_def)
  then show ?thesis
  proof (rule that)
    show "same_tables ap (?ap\<lparr>ap_io := ap_io ?ap @ replicate (Suc n) (icr_read ?ap)\<rparr>)" by (auto simp: same_tables_def ipi_sent_def)
    have "icr_writes (lapic ap) (replicate (Suc n) (icr_read ?ap)) = []" unfolding icr_read_def by (rule icr_writes_reads)
    moreover have "icr_writes (lapic ap) (ap_io ?ap) =
      icr_writes (lapic ap) (ap_io ap) @ [(lapic ap + 0x310, hi), (lapic ap + 0x300, lo)]"
      by (simp add: ipi_sent_def lapic_def) (simp add: icr_writes_def)
    ultimately show "icr_writes (lapic ap) (ap_io (?ap\<lparr>ap_io := ap_io ?ap @ replicate (Suc n) (icr_read ?ap)\<rparr>)) =
      icr_writes (lapic ap) (ap_io ap) @ [(lapic ap + 0x310, hi), (lapic ap + 0x300, lo)]" by simp
  qed
qed

lemma local_apic_ipi_init_sends:
  "local_apic_ipi_init dev apic_id rflags ap =
     rbind (returns (map_option Inr (icr_wait dev (ipi_sent (push_bit 24 apic_id) 0x4500 ap)))) (\<lambda>ap'. Inr (rflags, ap'))"
  using splx_splhi [of rflags]
  by (simp add: local_apic_ipi_init_def split_beta Let_def local_apic_write_def mmio_write_u32_def ipi_sent_def LAPIC_ICRHI_def
      LAPIC_ICRLO_def ICR_DESTINATION_SHIFT_def ICR_INIT_def ICR_PHYSICAL_def ICR_ASSERT_def ICR_EDGE_def ICR_NO_SHORTHAND_def)

definition ids :: "apics \<Rightarrow> nat \<Rightarrow> u32 list" where
  "ids ap n = map (\<lambda>c. ucast (lc_apic_id c)) (take n (la_cpus (local_apic ap)))"

lemma ids_Suc: "n < length (la_cpus (local_apic ap)) \<Longrightarrow> ids ap (Suc n) = ids ap n @ [ucast (lc_apic_id (la_cpus (local_apic ap) ! n))]"
  by (simp add: ids_def take_Suc_conv_app_nth)

lemma ids_cong: "same_tables ap ap' \<Longrightarrow> ids ap' = ids ap"
  by (simp add: ids_def fun_eq_iff same_tables_simps)

definition others :: "u32 \<Rightarrow> u32 list \<Rightarrow> u32 list" where
  "others bsp xs = filter (\<lambda>x. x \<noteq> bsp) xs"

definition commands :: "apics \<Rightarrow> u32 \<Rightarrow> u32 list \<Rightarrow> (u64 \<times> u32) list" where
  "commands ap cmd xs = concat (map (ipi ap cmd) xs)"

lemma commands_cong: "same_tables ap ap' \<Longrightarrow> commands ap' = commands ap"
  by (simp add: commands_def fun_eq_iff same_tables_simps)

lemma bit_shl_byte: "n < 32 \<Longrightarrow> b < 8 \<Longrightarrow> bit (ucast (push_bit n 1 :: u32) :: u8) b \<longleftrightarrow> b = n"
  by (auto simp: bit_ucast_iff bit_push_bit_iff bit_1_iff simp del: push_bit_of_1 push_bit_numeral)

lemma send_init_result:
  assumes "delivers dev" and "unat i < length (la_cpus (local_apic ap))" and "x = ucast (lc_apic_id (la_cpus (local_apic ap) ! unat i))"
    and "unat x < 32"
  obtains mask' ap' where "send_init dev bsp i (m0, rflags, ap) = Inr (mask', rflags, ap')" "same_tables ap ap'"
    "icr_writes (lapic ap) (ap_io ap') = icr_writes (lapic ap) (ap_io ap) @ commands ap 0x4500 (others bsp [x])"
    "\<forall>b<8. bit mask' b \<longleftrightarrow> bit m0 b \<or> (x \<noteq> bsp \<and> b = unat x)"
proof (cases "x = bsp")
  case True
  show ?thesis by (rule that [of m0 ap]) (use assms True in \<open>simp_all add: send_init_def others_def commands_def Let_def\<close>)
next
  case False
  obtain ap' where ap': "returns (map_option Inr (icr_wait dev (ipi_sent (push_bit 24 x) 0x4500 ap))) = Inr ap'" "same_tables ap ap'"
    "icr_writes (lapic ap) (ap_io ap') = icr_writes (lapic ap) (ap_io ap) @ [(lapic ap + 0x310, push_bit 24 x), (lapic ap + 0x300, 0x4500)]"
    by (rule icr_command [OF assms(1)])
  show ?thesis
    by (rule that [of "m0 OR ucast (push_bit (unat x) 1 :: u32)" ap'])
      (use assms False ap' in \<open>simp_all add: send_init_def others_def commands_def ipi_def Let_def local_apic_ipi_init_sends
        shl_int_small bit_or_iff bit_shl_byte del: push_bit_of_1\<close>)
qed

lemma send_start_result:
  assumes "delivers dev" and "unat i < length (la_cpus (local_apic ap))" and "x = ucast (lc_apic_id (la_cpus (local_apic ap) ! unat i))"
  obtains ap' where "send_start dev bsp i (rflags, ap) = Inr (rflags, ap')" "same_tables ap ap'"
    "icr_writes (lapic ap) (ap_io ap') = icr_writes (lapic ap) (ap_io ap) @ commands ap 0x4608 (others bsp [x])"
proof (cases "x = bsp")
  case True
  show ?thesis by (rule that [of ap]) (use assms True in \<open>simp_all add: send_start_def others_def commands_def Let_def\<close>)
next
  case False
  obtain ap' where ap': "returns (map_option Inr (icr_wait dev (ipi_sent (push_bit 24 x) 0x4608 ap))) = Inr ap'" "same_tables ap ap'"
    "icr_writes (lapic ap) (ap_io ap') = icr_writes (lapic ap) (ap_io ap) @ [(lapic ap + 0x310, push_bit 24 x), (lapic ap + 0x300, 0x4608)]"
    by (rule icr_command [OF assms(1)])
  show ?thesis
    by (rule that [of ap'])
      (use assms False ap' in \<open>simp_all add: send_start_def others_def commands_def ipi_def Let_def local_apic_ipi_start_sends\<close>)
qed

lemma commands_snoc: "commands ap cmd (others bsp (xs @ [x])) = commands ap cmd (others bsp xs) @ commands ap cmd (others bsp [x])"
  by (simp add: commands_def others_def)

lemma init_loop:
  assumes "delivers dev" and n: "unat n \<le> length (la_cpus (local_apic ap))" and small: "\<forall>x\<in>set (ids ap (unat n)). unat x < 32"
    and m: "\<forall>b<8. bit m0 b \<longleftrightarrow> b = unat bsp"
  obtains mask' ap' where "for_up 0 n (send_init dev bsp) (m0, rflags, ap) = Inr (mask', rflags, ap')" "same_tables ap ap'"
    "icr_writes (lapic ap) (ap_io ap') = icr_writes (lapic ap) (ap_io ap) @ commands ap 0x4500 (others bsp (ids ap (unat n)))"
    "\<forall>b<8. bit mask' b \<longleftrightarrow> b = unat bsp \<or> b \<in> unat ` set (ids ap (unat n))"
proof -
  let ?P = "\<lambda>i s. \<exists>(mask' :: u8) ap'. s = (mask', rflags, ap') \<and> same_tables ap ap' \<and>
    icr_writes (lapic ap) (ap_io ap') = icr_writes (lapic ap) (ap_io ap) @ commands ap 0x4500 (others bsp (ids ap (unat i))) \<and>
    (\<forall>b<8. bit mask' b \<longleftrightarrow> b = unat bsp \<or> b \<in> unat ` set (ids ap (unat i)))"
  have "\<exists>s'. for_up 0 n (send_init dev bsp) (m0, rflags, ap) = Inr s' \<and> ?P n s'"
  proof (rule for_up_rule)
    show "?P 0 (m0, rflags, ap)" using m by (auto simp: ids_def commands_def others_def)
    fix i s assume i: "i < n" and "?P i s"
    then obtain mask1 :: u8 and ap1 where s: "s = (mask1, rflags, ap1)" "same_tables ap ap1"
      "icr_writes (lapic ap) (ap_io ap1) = icr_writes (lapic ap) (ap_io ap) @ commands ap 0x4500 (others bsp (ids ap (unat i)))"
      "\<forall>b<8. bit mask1 b \<longleftrightarrow> b = unat bsp \<or> b \<in> unat ` set (ids ap (unat i))" by blast
    have lt: "unat i < unat n" using i by (simp add: unat_less_iff)
    then have l: "unat i < length (la_cpus (local_apic ap1))" using n s(2) by (simp add: same_tables_simps)
    define x where "x = (ucast (lc_apic_id (la_cpus (local_apic ap1) ! unat i)) :: u32)"
    have x: "x = ucast (lc_apic_id (la_cpus (local_apic ap) ! unat i))" by (simp add: x_def same_tables_simps [OF s(2)])
    have suc: "ids ap (unat (i + 1)) = ids ap (unat i) @ [x]"
      using ids_Suc [of "unat i" ap] lt n unat_plus1 [OF i] by (simp add: x)
    have "la_cpus (local_apic ap) ! unat i \<in> set (take (unat n) (la_cpus (local_apic ap)))"
      using lt n by (auto simp: in_set_conv_nth intro!: exI [of _ "unat i"])
    then have "x \<in> set (ids ap (unat n))" unfolding x ids_def set_map by (rule imageI)
    then have "unat x < 32" using small by blast
    from send_init_result [OF assms(1) l x_def this, of bsp mask1 rflags] obtain mask2 ap2 where
      2: "send_init dev bsp i (mask1, rflags, ap1) = Inr (mask2, rflags, ap2)" "same_tables ap1 ap2"
      "icr_writes (lapic ap1) (ap_io ap2) = icr_writes (lapic ap1) (ap_io ap1) @ commands ap1 0x4500 (others bsp [x])"
      "\<forall>b<8. bit mask2 b \<longleftrightarrow> bit mask1 b \<or> (x \<noteq> bsp \<and> b = unat x)" by blast
    have "icr_writes (lapic ap) (ap_io ap2) = icr_writes (lapic ap) (ap_io ap) @ commands ap 0x4500 (others bsp (ids ap (unat (i + 1))))"
      using 2(3) s(3) by (simp only: same_tables_simps(5) [OF s(2)] commands_cong [OF s(2)] suc commands_snoc append_assoc)
    moreover have "\<forall>b<8. bit mask2 b \<longleftrightarrow> b = unat bsp \<or> b \<in> unat ` set (ids ap (unat (i + 1)))"
      using 2(4) s(4) by (auto simp: suc)
    ultimately show "\<exists>t'. send_init dev bsp i s = Inr t' \<and> ?P (i + 1) t'" using 2(1) s(1) same_tables_trans [OF s(2) 2(2)] by blast
  qed simp
  then show ?thesis using that by blast
qed

lemma start_loop:
  assumes "delivers dev" and n: "unat n \<le> length (la_cpus (local_apic ap))"
  obtains ap' where "for_up 0 n (send_start dev bsp) (rflags, ap) = Inr (rflags, ap')" "same_tables ap ap'"
    "icr_writes (lapic ap) (ap_io ap') = icr_writes (lapic ap) (ap_io ap) @ commands ap 0x4608 (others bsp (ids ap (unat n)))"
proof -
  let ?P = "\<lambda>i s. \<exists>ap'. s = (rflags, ap') \<and> same_tables ap ap' \<and>
    icr_writes (lapic ap) (ap_io ap') = icr_writes (lapic ap) (ap_io ap) @ commands ap 0x4608 (others bsp (ids ap (unat i)))"
  have "\<exists>s'. for_up 0 n (send_start dev bsp) (rflags, ap) = Inr s' \<and> ?P n s'"
  proof (rule for_up_rule)
    show "?P 0 (rflags, ap)" by (auto simp: ids_def commands_def others_def)
    fix i s assume i: "i < n" and "?P i s"
    then obtain ap1 where s: "s = (rflags, ap1)" "same_tables ap ap1"
      "icr_writes (lapic ap) (ap_io ap1) = icr_writes (lapic ap) (ap_io ap) @ commands ap 0x4608 (others bsp (ids ap (unat i)))" by blast
    have lt: "unat i < unat n" using i by (simp add: unat_less_iff)
    then have l: "unat i < length (la_cpus (local_apic ap1))" using n s(2) by (simp add: same_tables_simps)
    define x where "x = (ucast (lc_apic_id (la_cpus (local_apic ap1) ! unat i)) :: u32)"
    have suc: "ids ap (unat (i + 1)) = ids ap (unat i) @ [x]"
      using ids_Suc [of "unat i" ap] lt n unat_plus1 [OF i] by (simp add: x_def same_tables_simps [OF s(2)])
    from send_start_result [OF assms(1) l x_def, of bsp rflags] obtain ap2 where
      2: "send_start dev bsp i (rflags, ap1) = Inr (rflags, ap2)" "same_tables ap1 ap2"
      "icr_writes (lapic ap1) (ap_io ap2) = icr_writes (lapic ap1) (ap_io ap1) @ commands ap1 0x4608 (others bsp [x])" by blast
    have "icr_writes (lapic ap) (ap_io ap2) = icr_writes (lapic ap) (ap_io ap) @ commands ap 0x4608 (others bsp (ids ap (unat (i + 1))))"
      using 2(3) s(3) by (simp only: same_tables_simps(5) [OF s(2)] commands_cong [OF s(2)] suc commands_snoc append_assoc)
    then show "\<exists>t'. send_start dev bsp i s = Inr t' \<and> ?P (i + 1) t'" using 2(1) s(1) same_tables_trans [OF s(2) 2(2)] by blast
  qed simp
  then show ?thesis using that by blast
qed

lemma online_loop_returns:
  assumes "\<forall>c ms. ms \<le> 200 \<longrightarrow> (\<exists>j. cpu_wait (clk c) ms = Inr j)" and "online j = target" and "i \<le> j"
  shows "\<exists>k. online_loop clk online target i = Some (Inr k) \<and> online k = target"
  using assms(3)
proof (induction "j - i" arbitrary: i)
  case 0
  then have "i = j" by simp
  then show ?case using assms(2) by (subst online_loop.simps) simp
next
  case (Suc n)
  have "n = j - Suc i" "Suc i \<le> j" using Suc.hyps(2) by simp_all
  note IH = Suc.hyps(1) [OF this]
  obtain w where "cpu_wait (clk (i + 2)) 1 = Inr w" using assms(1) by fastforce
  then show ?case using IH by (cases "online i = target") (subst online_loop.simps, simp)+
qed

lemma io_apic_redtbl_set_icr:
  assumes "{io_apic_addr (io_apic ap), io_apic_addr (io_apic ap) + 16} \<inter> {base + 0x300, base + 0x310} = {}"
  shows "icr_writes base (ap_io (io_apic_redtbl_set i e ap)) = icr_writes base (ap_io ap)"
  using assms
  by (auto simp: io_apic_redtbl_set_def io_apic_write_def mmio_write_u32_def Let_def icr_writes_def)

lemma io_apic_enable_irq_icr:
  assumes "io_apic_enable_irq irq v m rf ap = Inr (rf', ap')"
    and "{io_apic_addr (io_apic ap), io_apic_addr (io_apic ap) + 16} \<inter> {base + 0x300, base + 0x310} = {}"
  shows "icr_writes base (ap_io ap') = icr_writes base (ap_io ap)"
proof -
  obtain x e l where "ap_io ap' = ap_io (io_apic_redtbl_set x e (ap\<lparr>io_apic := (io_apic ap)\<lparr>ia_lock := l\<rparr>\<rparr>))"
    using assms(1) by (auto simp: io_apic_enable_irq_def outcome Let_def split_beta)
  then show ?thesis using io_apic_redtbl_set_icr [of "ap\<lparr>io_apic := (io_apic ap)\<lparr>ia_lock := l\<rparr>\<rparr>" base x e] assms(2) by simp
qed

text \<open>Both rounds of commands, after the read of the processor's own number.\<close>

lemma bring_up_commands:
  fixes ap :: apics
  defines "ap0 \<equiv> ap\<lparr>ap_io := ap_io ap @ [MmioRead (lapic ap + 0x20)]\<rparr>"
  assumes dev: "delivers dev" and tab: "unat n \<le> length (la_cpus (local_apic ap))" "\<forall>x\<in>set (ids ap (unat n)). unat x < 32" "unat bsp < 32"
  obtains m1 ap1 ap2 where
    "for_up 0 n (send_init dev bsp) (ucast (push_bit (unat bsp) 1 :: u32), rf, ap0) = Inr (m1, rf, ap1)"
    "for_up 0 n (send_start dev bsp) (rf, ap1) = Inr (rf, ap2)" "same_tables ap ap0" "same_tables ap ap2"
    "icr_writes (lapic ap) (ap_io ap2) = icr_writes (lapic ap) (ap_io ap) @
       commands ap 0x4500 (others bsp (ids ap (unat n))) @ commands ap 0x4608 (others bsp (ids ap (unat n)))"
    "\<forall>b<8. bit m1 b \<longleftrightarrow> b = unat bsp \<or> b \<in> unat ` set (ids ap (unat n))"
proof -
  have t0: "same_tables ap ap0" by (auto simp: same_tables_def ap0_def)
  have w0: "icr_writes (lapic ap) (ap_io ap0) = icr_writes (lapic ap) (ap_io ap)" by (simp add: ap0_def) (simp add: icr_writes_def)
  note c0 = same_tables_simps [OF t0] ids_cong [OF t0]
  obtain m1 ap1 where 1: "for_up 0 n (send_init dev bsp) (ucast (push_bit (unat bsp) 1 :: u32), rf, ap0) = Inr (m1, rf, ap1)"
    "same_tables ap0 ap1"
    "icr_writes (lapic ap0) (ap_io ap1) = icr_writes (lapic ap0) (ap_io ap0) @ commands ap0 0x4500 (others bsp (ids ap0 (unat n)))"
    "\<forall>b<8. bit m1 b \<longleftrightarrow> b = unat bsp \<or> b \<in> unat ` set (ids ap0 (unat n))"
    by (rule init_loop [OF dev, of n ap0 "ucast (push_bit (unat bsp) 1 :: u32)" bsp])
      (use tab c0 bit_shl_byte [OF tab(3)] in simp_all)
  have t1: "same_tables ap ap1" using t0 1(2) by (rule same_tables_trans)
  note c1 = same_tables_simps [OF t1] ids_cong [OF t1]
  obtain ap2 where 2: "for_up 0 n (send_start dev bsp) (rf, ap1) = Inr (rf, ap2)" "same_tables ap1 ap2"
    "icr_writes (lapic ap1) (ap_io ap2) = icr_writes (lapic ap1) (ap_io ap1) @ commands ap1 0x4608 (others bsp (ids ap1 (unat n)))"
    by (rule start_loop [OF dev, of n ap1 bsp rf]) (use tab c1 in simp)
  note cm = commands_cong [OF t0] commands_cong [OF t1]
  have "icr_writes (lapic ap) (ap_io ap2) = icr_writes (lapic ap) (ap_io ap) @
      commands ap 0x4500 (others bsp (ids ap (unat n))) @ commands ap 0x4608 (others bsp (ids ap (unat n)))"
    using 1(3) 2(3) w0 by (simp only: c0 c1 cm append_assoc)
  then show ?thesis using that 1(1,4) 2(1) t0 same_tables_trans [OF t1 2(2)] by (simp add: c0)
qed


definition demo_kernel :: kernel where
  "demo_kernel = \<lparr>kn_sys = demo_system,
     kn_apics = demo_apics\<lparr>local_apic := \<lparr>local_apic_addr = 0xFEE00000, la_num_cpus = 2,
       la_cpus = map (\<lambda>i. \<lparr>lc_apic_id = of_nat i, lc_flags = 0\<rparr>) [0..<MAX_CPUS]\<rparr>\<rparr>,
     kn_gates = demo_gates, kn_kbd = demo_kbd, kn_int_skip = False, num_cpus = 0\<rparr>"

definition fast_clock :: "nat \<Rightarrow> nat \<Rightarrow> u64" where
  "fast_clock c i = of_nat (200 * i)"

lemma fast_clock_waits: "ms \<le> 200 \<Longrightarrow> \<exists>j. cpu_wait (fast_clock c) ms = Inr j"
  using cpu_wait_returns [of 1 ms "fast_clock c"] by (auto simp: fast_clock_def)




text \<open>A page fault stops the processor for good; another unexpected exception only until the next interrupt.\<close>

lemma cpu_exception_ends:
  assumes "sy_this st < length (sy_cpus st)"
  shows "fr_trap_num f = EXCEPTION_PAGE_FAULT \<Longrightarrow>
      \<exists>st'. cpu_exception f st = Inr (Halted, st') \<and> sy_rflags st' AND RFLAGS_IF = 0"
    and "fr_trap_num f \<notin> {EXCEPTION_BREAKPOINT, EXCEPTION_PAGE_FAULT} \<Longrightarrow> cpu_exception f st = Inr (Halted, st)"
proof -
  have "cpu_disable_interrupts rf AND RFLAGS_IF = 0" for rf using splhi_mask [of rf] by (simp add: cpu_splhi_def)
  then show "fr_trap_num f = EXCEPTION_PAGE_FAULT \<Longrightarrow>
      \<exists>st'. cpu_exception f st = Inr (Halted, st') \<and> sy_rflags st' AND RFLAGS_IF = 0"
    using assms by (simp add: cpu_exception_def get_cpu_def handle_page_fault_def EXCEPTION_PAGE_FAULT_def EXCEPTION_BREAKPOINT_def)
  show "fr_trap_num f \<notin> {EXCEPTION_BREAKPOINT, EXCEPTION_PAGE_FAULT} \<Longrightarrow> cpu_exception f st = Inr (Halted, st)"
    using assms by (simp add: cpu_exception_def get_cpu_def)
qed

end
