(* ===== verification/VmCache.thy ===== *)
theory VmCache
  imports Sched BackLinks
begin

text \<open>
  The page cache of \<^verbatim>\<open>vm_cache.c\<close>: hash tables from a cache and an offset to a page descriptor, the list
  of the pages of a cache, and the cache objects themselves. Descriptors and caches are kept by
  address. A hash table is its address, its size and the contents of its buckets. Messages are left
  out, also the ones the hash functions print.
\<close>

record page_hash_t =
  ph_addr :: u64
  ph_pages :: "u64 list"
  ph_size :: u32

definition PAGE_CACHE_4K_PAGES :: u32 where "PAGE_CACHE_4K_PAGES = 0x01"
definition PAGE_CACHE_NO_HASH :: u32 where "PAGE_CACHE_NO_HASH = 0x02"

record page_cache_t =
  pc_pages :: u64
  pc_hash :: page_hash_t
  pc_read_page :: u64
  pc_write_page :: u64
  pc_size :: u64
  pc_flags :: u32
  pc_map_refcnt :: int

definition sizeof_page_cache_t :: u32 where "sizeof_page_cache_t = 56"

record vm_cache =
  vc_pages :: "u64 \<Rightarrow> page_desc_t option"
  vc_caches :: "u64 \<Rightarrow> page_cache_t option"
  page_hash :: page_hash_t
  sl_page_cache :: "nat option"
  vc_km :: kmalloc_state

definition get_page :: "u64 \<Rightarrow> vm_cache \<Rightarrow> page_desc_t outcome" where
  "get_page p st = (case vc_pages st p of None \<Rightarrow> Inl NullDeref | Some d \<Rightarrow> if p = 0 then Inl NullDeref else Inr d)"

definition upd_page :: "u64 \<Rightarrow> (page_desc_t \<Rightarrow> page_desc_t) \<Rightarrow> vm_cache \<Rightarrow> vm_cache outcome" where
  "upd_page p f st = rbind (get_page p st) (\<lambda>d. Inr (st\<lparr>vc_pages := (vc_pages st)(p \<mapsto> f d)\<rparr>))"

definition get_cache :: "u64 \<Rightarrow> vm_cache \<Rightarrow> page_cache_t outcome" where
  "get_cache c st = (case vc_caches st c of None \<Rightarrow> Inl NullDeref | Some d \<Rightarrow> if c = 0 then Inl NullDeref else Inr d)"

definition upd_cache :: "u64 \<Rightarrow> (page_cache_t \<Rightarrow> page_cache_t) \<Rightarrow> vm_cache \<Rightarrow> vm_cache outcome" where
  "upd_cache c f st = rbind (get_cache c st) (\<lambda>d. Inr (st\<lparr>vc_caches := (vc_caches st)(c \<mapsto> f d)\<rparr>))"

subsection \<open>Hash tables\<close>

definition hash_func :: "u64 \<Rightarrow> u64 \<Rightarrow> vm_cache \<Rightarrow> u32" where
  "hash_func cache off st =
     (let page2m_offset = drop_bit PAGE_2M_SHIFT off in
      ucast ((cache + page2m_offset) AND ucast (ph_size (page_hash st) - 1)))"

definition hash_func_local :: "page_cache_t \<Rightarrow> u64 \<Rightarrow> u32" where
  "hash_func_local cache off =
     (let page4k_offset = drop_bit PAGE_4K_SHIFT off in
      ucast (page4k_offset AND ucast (ph_size (pc_hash cache) - 1)))"

text \<open>The table that a cache uses: its own, or the global one. \<open>None\<close> stands for the global table.\<close>

definition hash_select :: "u64 \<Rightarrow> u64 \<Rightarrow> vm_cache \<Rightarrow> (u32 \<times> u64 option) outcome" where
  "hash_select cache off st =
     rbind (get_cache cache st) (\<lambda>c.
     if pc_flags c AND PAGE_CACHE_4K_PAGES \<noteq> 0 then Inr (hash_func_local c off, Some cache)
     else Inr (hash_func cache off st, None))"

definition the_hash :: "u64 option \<Rightarrow> vm_cache \<Rightarrow> page_hash_t outcome" where
  "the_hash h st = (case h of None \<Rightarrow> Inr (page_hash st) | Some c \<Rightarrow> rbind (get_cache c st) (\<lambda>d. Inr (pc_hash d)))"

definition bucket_get :: "u64 option \<Rightarrow> u32 \<Rightarrow> vm_cache \<Rightarrow> u64 outcome" where
  "bucket_get h i st =
     rbind (the_hash h st) (\<lambda>t. if ph_addr t = 0 then Inl NullDeref else arr_get (ph_pages t) (unat i))"

definition bucket_set :: "u64 option \<Rightarrow> u32 \<Rightarrow> u64 \<Rightarrow> vm_cache \<Rightarrow> vm_cache outcome" where
  "bucket_set h i v st =
     rbind (the_hash h st) (\<lambda>t.
     if ph_addr t = 0 then Inl NullDeref
     else rbind (arr_set (ph_pages t) (unat i) v) (\<lambda>tab.
       case h of
         None \<Rightarrow> Inr (st\<lparr>page_hash := t\<lparr>ph_pages := tab\<rparr>\<rparr>)
       | Some c \<Rightarrow> upd_cache c (\<lambda>d. d\<lparr>pc_hash := t\<lparr>ph_pages := tab\<rparr>\<rparr>) st))"

definition page_hash_insert :: "u64 \<Rightarrow> u64 \<Rightarrow> u64 \<Rightarrow> vm_cache \<Rightarrow> vm_cache outcome" where
  "page_hash_insert cache off page st =
     rbind (hash_select cache off st) (\<lambda>(hash_index, h).
     rbind (bucket_get h hash_index st) (\<lambda>hash_pages.
     rbind (if hash_pages \<noteq> 0 then upd_page hash_pages (\<lambda>d. d\<lparr>pg_next_hash := page\<rparr>) st else Inr st) (\<lambda>st.
     rbind (upd_page page (\<lambda>d. d\<lparr>pg_next_hash := 0\<rparr>) st) (\<lambda>st.
     rbind (bucket_set h hash_index page st) (\<lambda>st.
     upd_page page (\<lambda>d. d\<lparr>pg_cache := cache, pg_cache_offset := off\<rparr>) st)))))"

partial_function (option) hash_search :: "u64 \<Rightarrow> u64 \<Rightarrow> u64 \<Rightarrow> vm_cache \<Rightarrow> u64 outcome option" where
  "hash_search cache off page st =
     (if page \<noteq> 0 then
        case get_page page st of
          Inl e \<Rightarrow> Some (Inl e)
        | Inr d \<Rightarrow>
            if pg_cache d = cache \<and> pg_cache_offset d = off then Some (Inr page)
            else hash_search cache off (pg_next_hash d) st
      else Some (Inr 0))"

definition page_hash_find :: "u64 \<Rightarrow> u64 \<Rightarrow> vm_cache \<Rightarrow> u64 outcome" where
  "page_hash_find cache off st =
     rbind (hash_select cache off st) (\<lambda>(hash_index, h).
     rbind (bucket_get h hash_index st) (\<lambda>hash_pages.
     returns (hash_search cache off hash_pages st)))"

partial_function (option) hash_unlink ::
  "u64 option \<Rightarrow> u32 \<Rightarrow> u64 \<Rightarrow> u64 \<Rightarrow> u64 \<Rightarrow> vm_cache \<Rightarrow> vm_cache outcome option" where
  "hash_unlink h i page_desc prev page st =
     (if page \<noteq> 0 then
        case get_page page st of
          Inl e \<Rightarrow> Some (Inl e)
        | Inr d \<Rightarrow>
            if page = page_desc then
              Some (if prev \<noteq> 0 then upd_page prev (\<lambda>q. q\<lparr>pg_next_hash := pg_next_hash d\<rparr>) st
                    else bucket_set h i (pg_next_hash d) st)
            else hash_unlink h i page_desc page (pg_next_hash d) st
      else Some (Inr st))"

definition page_hash_remove :: "u64 \<Rightarrow> u64 \<Rightarrow> u64 \<Rightarrow> vm_cache \<Rightarrow> vm_cache outcome" where
  "page_hash_remove cache off page_desc st =
     rbind (hash_select cache off st) (\<lambda>(hash_index, h).
     rbind (bucket_get h hash_index st) (\<lambda>hash_pages.
     returns (hash_unlink h hash_index page_desc 0 hash_pages st)))"

subsection \<open>The pages of a cache\<close>

text \<open>\<^verbatim>\<open>*pp = v\<close>.\<close>

definition write_page_pp :: "page_pp \<Rightarrow> u64 \<Rightarrow> vm_cache \<Rightarrow> vm_cache outcome" where
  "write_page_pp pp v st =
     (case pp of
        PPNull \<Rightarrow> Inl NullDeref
      | PPDesc p \<Rightarrow> upd_page p (\<lambda>d. d\<lparr>pg_next_cache := v\<rparr>) st
      | PPCache c \<Rightarrow> upd_cache c (\<lambda>d. d\<lparr>pc_pages := v\<rparr>) st)"

definition page_cache_insert :: "u64 \<Rightarrow> u64 \<Rightarrow> vm_cache \<Rightarrow> vm_cache outcome" where
  "page_cache_insert cache page st =
     rbind (get_cache cache st) (\<lambda>c.
     rbind (if pc_pages c \<noteq> 0 then upd_page (pc_pages c) (\<lambda>d. d\<lparr>pg_prev_cache := PPDesc page\<rparr>) st else Inr st) (\<lambda>st.
     rbind (upd_page page (\<lambda>d. d\<lparr>pg_next_cache := pc_pages c\<rparr>) st) (\<lambda>st.
     rbind (upd_page page (\<lambda>d. d\<lparr>pg_prev_cache := PPCache cache\<rparr>) st) (\<lambda>st.
     upd_cache cache (\<lambda>d. d\<lparr>pc_pages := page\<rparr>) st))))"

definition page_cache_remove :: "u64 \<Rightarrow> vm_cache \<Rightarrow> vm_cache outcome" where
  "page_cache_remove page st =
     rbind (get_page page st) (\<lambda>d.
     rbind (if pg_next_cache d \<noteq> 0
            then upd_page (pg_next_cache d) (\<lambda>n. n\<lparr>pg_prev_cache := pg_prev_cache d\<rparr>) st else Inr st) (\<lambda>st.
     rbind (get_page page st) (\<lambda>d.
     rbind (if pg_prev_cache d \<noteq> PPNull then write_page_pp (pg_prev_cache d) (pg_next_cache d) st else Inr st) (\<lambda>st.
     rbind (upd_page page (\<lambda>d. d\<lparr>pg_next_cache := 0\<rparr>) st) (\<lambda>st.
     upd_page page (\<lambda>d. d\<lparr>pg_prev_cache := PPNull\<rparr>) st)))))"

subsection \<open>Setting up and tearing down\<close>

partial_function (option) hash_size :: "u32 \<Rightarrow> u32 \<Rightarrow> u32 option" where
  "hash_size num_pages n = (if n < num_pages then hash_size num_pages (push_bit 1 n) else Some n)"

definition vm_hash_init :: "page_db_t \<Rightarrow> vm_cache \<Rightarrow> vm_cache outcome" where
  "vm_hash_init page_db st =
     rbind (returns (map_option Inr (hash_size (pdb_num_pages page_db) 1))) (\<lambda>page_hash_size.
     let st = st\<lparr>page_hash := (page_hash st)\<lparr>ph_size := page_hash_size\<rparr>\<rparr>;
         ks = sh_kernel (km_heap (vc_km st)) in
     rbind (kernel_slack_alloc (ucast page_hash_size * 8) 16 ks) (\<lambda>(a, ks).
     let st = st\<lparr>vc_km := (vc_km st)\<lparr>km_heap := (km_heap (vc_km st))\<lparr>sh_kernel := ks\<rparr>\<rparr>\<rparr> in
     Inr (st\<lparr>page_hash := (page_hash st)\<lparr>ph_addr := a, ph_pages := replicate (unat page_hash_size) 0\<rparr>\<rparr>)))"

definition vm_cache_init :: "vm_cache \<Rightarrow> vm_cache outcome" where
  "vm_cache_init st =
     rbind (kmalloc_get_slab sizeof_page_cache_t (vc_km st)) (\<lambda>(sl, km).
     Inr (st\<lparr>sl_page_cache := sl, vc_km := km\<rparr>))"

definition page_cache_alloc :: "vm_cache \<Rightarrow> (u64 \<times> vm_cache) outcome" where
  "page_cache_alloc st =
     (case sl_page_cache st of
        None \<Rightarrow> Inl NullDeref
      | Some sl \<Rightarrow>
          rbind (slab_list_alloc sl (km_heap (vc_km st))) (\<lambda>(a, h).
          Inr (a, st\<lparr>vc_km := (vc_km st)\<lparr>km_heap := h\<rparr>\<rparr>)))"

definition page_cache_free :: "u64 \<Rightarrow> vm_cache \<Rightarrow> vm_cache outcome" where
  "page_cache_free cache st =
     (case sl_page_cache st of
        None \<Rightarrow> Inl NullDeref
      | Some sl \<Rightarrow>
          rbind (slab_list_free sl cache (km_heap (vc_km st))) (\<lambda>h.
          Inr (st\<lparr>vc_km := (vc_km st)\<lparr>km_heap := h\<rparr>, vc_caches := (vc_caches st)(cache := None)\<rparr>)))"

definition vm_cache_create :: "u64 \<Rightarrow> u32 \<Rightarrow> vm_cache \<Rightarrow> (u64 \<times> vm_cache) outcome" where
  "vm_cache_create sz flags st =
     rbind (page_cache_alloc st) (\<lambda>(cache, st).
     if cache = 0 then Inl NullDeref
     else
       let c = \<lparr>pc_pages = 0, pc_hash = \<lparr>ph_addr = 0, ph_pages = [], ph_size = 0\<rparr>, pc_read_page = 0, pc_write_page = 0,
                pc_size = sz, pc_flags = flags, pc_map_refcnt = 0\<rparr>;
           st = st\<lparr>vc_caches := (vc_caches st)(cache \<mapsto> c)\<rparr> in
       if flags AND PAGE_CACHE_4K_PAGES \<noteq> 0 \<and> flags AND PAGE_CACHE_NO_HASH = 0 then
         let n = KMALLOC_CHUNK_SIZE div 8 in
         rbind (kmalloc_alloc (vc_km st)) (\<lambda>(a, km).
         let st = st\<lparr>vc_km := km\<rparr> in
         if a = 0 then Inl NullDeref
         else rbind (upd_cache cache (\<lambda>c. c\<lparr>pc_hash := \<lparr>ph_addr = a, ph_pages = replicate (unat n) 0, ph_size = n\<rparr>\<rparr>) st) (\<lambda>st.
           Inr (cache, st)))
       else Inr (cache, st))"

definition vm_cache_delete :: "u64 \<Rightarrow> vm_cache \<Rightarrow> vm_cache outcome" where
  "vm_cache_delete cache st = page_cache_free cache st"

definition vm_cache_release :: "u64 \<Rightarrow> vm_cache \<Rightarrow> vm_cache outcome" where
  "vm_cache_release cache st =
     rbind (get_cache cache st) (\<lambda>c.
     rbind (c_int (pc_map_refcnt c - 1)) (\<lambda>n.
     rbind (upd_cache cache (\<lambda>c. c\<lparr>pc_map_refcnt := n\<rparr>) st) (\<lambda>st.
     if n \<le> 0 then vm_cache_delete cache st else Inr st)))"

subsection \<open>Dumps\<close>

text \<open>What the dumps print for each page: its cache and offset.\<close>

partial_function (option) page_list_dump ::
  "(page_desc_t \<Rightarrow> u64) \<Rightarrow> u64 \<Rightarrow> (u64 \<times> u64) list \<Rightarrow> vm_cache \<Rightarrow> (u64 \<times> u64) list outcome option" where
  "page_list_dump nx page out st =
     (if page \<noteq> 0 then
        case get_page page st of
          Inl e \<Rightarrow> Some (Inl e)
        | Inr d \<Rightarrow> page_list_dump nx (nx d) (out @ [(pg_cache d, pg_cache_offset d)]) st
      else Some (Inr out))"

definition page_hash_dump :: "u64 option \<Rightarrow> vm_cache \<Rightarrow> (u32 \<times> (u64 \<times> u64) list) list outcome" where
  "page_hash_dump h st =
     rbind (the_hash h st) (\<lambda>t.
     for_up 0 (ph_size t) (\<lambda>i out.
       rbind (bucket_get h i st) (\<lambda>page.
       if page = 0 then Inr out
       else rbind (returns (page_list_dump pg_next_hash page [] st)) (\<lambda>ps. Inr (out @ [(i, ps)])))) [])"

definition page_cache_dump :: "u64 \<Rightarrow> vm_cache \<Rightarrow> (u64 \<times> u64) list outcome" where
  "page_cache_dump cache st =
     rbind (get_cache cache st) (\<lambda>c. returns (page_list_dump pg_next_cache (pc_pages c) [] st))"

subsection \<open>One page per bucket\<close>

text \<open>
  \<^verbatim>\<open>page_hash_insert\<close> makes the new page the only one of its bucket: the links of the pages that were
  there lead to it, not from it. A table filled by it therefore keeps at most one page per bucket.
\<close>

definition direct :: "u64 option \<Rightarrow> vm_cache \<Rightarrow> bool" where
  "direct h st \<longleftrightarrow> (\<forall>i p. bucket_get h i st = Inr p \<and> p \<noteq> 0 \<longrightarrow>
     (\<exists>d. vc_pages st p = Some d \<and> pg_next_hash d = 0 \<and> hash_select (pg_cache d) (pg_cache_offset d) st = Inr (i, h)))"

lemma upd_page_some: "p \<noteq> 0 \<Longrightarrow> vc_pages st p = Some d \<Longrightarrow> upd_page p f st = Inr (st\<lparr>vc_pages := (vc_pages st)(p \<mapsto> f d)\<rparr>)"
  by (simp add: upd_page_def get_page_def)

lemma get_page_some: "p \<noteq> 0 \<Longrightarrow> vc_pages st p = Some d \<Longrightarrow> get_page p st = Inr d"
  by (simp add: get_page_def)

lemma pages_only:
  "hash_select c o' (st\<lparr>vc_pages := pg\<rparr>) = hash_select c o' st" "bucket_get h i (st\<lparr>vc_pages := pg\<rparr>) = bucket_get h i st"
  "the_hash h (st\<lparr>vc_pages := pg\<rparr>) = the_hash h st" "get_cache c (st\<lparr>vc_pages := pg\<rparr>) = get_cache c st"
  by (simp_all add: hash_select_def hash_func_def bucket_get_def the_hash_def get_cache_def split: option.splits)

lemma bucket_set_pages: "bucket_set h i v (st\<lparr>vc_pages := pg\<rparr>) = map_sum id (\<lambda>st'. st'\<lparr>vc_pages := pg\<rparr>) (bucket_set h i v st)"
  by (auto simp: bucket_set_def pages_only upd_cache_def rbind_def arr_set_def split: option.splits sum.splits)

text \<open>Storing into a bucket.\<close>

lemma bucket_set_result:
  assumes "bucket_get h i st = Inr b"
  obtains st' where "bucket_set h i v st = Inr st'" "vc_pages st' = vc_pages st"
    "\<forall>j. bucket_get h j st' = (if j = i then Inr v else bucket_get h j st)" "\<forall>c off. hash_select c off st' = hash_select c off st"
proof (cases h)
  case None
  have t: "ph_addr (page_hash st) \<noteq> 0" "unat i < length (ph_pages (page_hash st))"
    using assms None by (auto simp: bucket_get_def the_hash_def outcome split: if_splits)
  show ?thesis
    by (rule that [of "st\<lparr>page_hash := (page_hash st)\<lparr>ph_pages := (ph_pages (page_hash st))[unat i := v]\<rparr>\<rparr>"])
      (use t None in \<open>auto simp: bucket_set_def bucket_get_def the_hash_def hash_select_def hash_func_def get_cache_def arr_get_def
        split: option.splits\<close>)
next
  case (Some c)
  obtain cd where cd: "vc_caches st c = Some cd" "c \<noteq> 0" "ph_addr (pc_hash cd) \<noteq> 0" "unat i < length (ph_pages (pc_hash cd))"
    using assms Some by (auto simp: bucket_get_def the_hash_def get_cache_def outcome split: if_splits option.splits)
  show ?thesis
    by (rule that [of "st\<lparr>vc_caches := (vc_caches st)(c \<mapsto> cd\<lparr>pc_hash := (pc_hash cd)\<lparr>ph_pages := (ph_pages (pc_hash cd))[unat i := v]\<rparr>\<rparr>)\<rparr>"])
      (use cd Some in \<open>auto simp: bucket_set_def bucket_get_def the_hash_def hash_select_def hash_func_def hash_func_local_def
        get_cache_def upd_cache_def arr_get_def split: option.splits\<close>)
qed

lemma page_hash_find_direct:
  assumes "hash_select c off st = Inr (i, h)" and "bucket_get h i st = Inr p"
    and "p \<noteq> 0 \<longrightarrow> (\<exists>d. vc_pages st p = Some d \<and> pg_next_hash d = 0)"
  shows "page_hash_find c off st =
    Inr (if p \<noteq> 0 \<and> (\<exists>d. vc_pages st p = Some d \<and> pg_cache d = c \<and> pg_cache_offset d = off) then p else 0)"
proof (cases "p = 0")
  case True
  then have "hash_search c off p st = Some (Inr 0)" by (subst hash_search.simps) simp
  then show ?thesis using assms True by (simp add: page_hash_find_def returns_def)
next
  case False
  then obtain d where d: "vc_pages st p = Some d" "pg_next_hash d = 0" using assms(3) by blast
  have "hash_search c off 0 st = Some (Inr 0)" by (subst hash_search.simps) simp
  then have "hash_search c off p st = Some (Inr (if pg_cache d = c \<and> pg_cache_offset d = off then p else 0))"
    using False d by (subst hash_search.simps) (simp add: get_page_def)
  then show ?thesis using assms False d by (simp add: page_hash_find_def returns_def)
qed

lemma page_hash_insert_result:
  assumes sel: "hash_select cache off st = Inr (i, h)" and b: "bucket_get h i st = Inr b"
    and bd: "b \<noteq> 0 \<Longrightarrow> vc_pages st b \<noteq> None" and p: "page \<noteq> 0" "vc_pages st page = Some d"
  obtains st' where "page_hash_insert cache off page st = Inr st'"
    "vc_pages st' page = Some (d\<lparr>pg_next_hash := 0, pg_cache := cache, pg_cache_offset := off\<rparr>)"
    "\<forall>q. q \<noteq> page \<and> q \<noteq> b \<longrightarrow> vc_pages st' q = vc_pages st q"
    "\<forall>j. bucket_get h j st' = (if j = i then Inr page else bucket_get h j st)"
    "\<forall>c off. hash_select c off st' = hash_select c off st"
proof -
  obtain st1 d1 where 1: "(if b \<noteq> 0 then upd_page b (\<lambda>d. d\<lparr>pg_next_hash := page\<rparr>) st else Inr st) = Inr st1"
    "vc_pages st1 page = Some d1" "d1\<lparr>pg_next_hash := 0\<rparr> = d\<lparr>pg_next_hash := 0\<rparr>" "\<forall>q. q \<noteq> b \<longrightarrow> vc_pages st1 q = vc_pages st q"
    "\<exists>pg. st1 = st\<lparr>vc_pages := pg\<rparr>"
  proof (cases "b = 0")
    case True
    moreover have "\<exists>pg. st = st\<lparr>vc_pages := pg\<rparr>" by (rule exI [of _ "vc_pages st"]) simp
    ultimately show ?thesis using that [of st d] p by simp
  next
    case False
    then obtain e where "vc_pages st b = Some e" using bd by blast
    moreover have "\<exists>pg. st\<lparr>vc_pages := (vc_pages st)(b \<mapsto> e\<lparr>pg_next_hash := page\<rparr>)\<rparr> = st\<lparr>vc_pages := pg\<rparr>" for e by blast
    ultimately show ?thesis using False p that [of "st\<lparr>vc_pages := (vc_pages st)(b \<mapsto> e\<lparr>pg_next_hash := page\<rparr>)\<rparr>"
        "if b = page then e\<lparr>pg_next_hash := page\<rparr> else d"] by (cases "b = page") (simp_all add: upd_page_some)
  qed
  let ?st2 = "st1\<lparr>vc_pages := (vc_pages st1)(page \<mapsto> d1\<lparr>pg_next_hash := 0\<rparr>)\<rparr>"
  have b2: "bucket_get h j ?st2 = bucket_get h j st" "hash_select c o' ?st2 = hash_select c o' st" for j c o'
    using 1(5) by (auto simp: pages_only)
  obtain st3 where 3: "bucket_set h i page ?st2 = Inr st3" "vc_pages st3 = vc_pages ?st2"
    "\<forall>j. bucket_get h j st3 = (if j = i then Inr page else bucket_get h j ?st2)" "\<forall>c off. hash_select c off st3 = hash_select c off ?st2"
    by (rule bucket_set_result [of h i ?st2 b]) (use b b2 in simp_all)
  let ?st' = "st3\<lparr>vc_pages := (vc_pages st3)(page \<mapsto> d1\<lparr>pg_next_hash := 0, pg_cache := cache, pg_cache_offset := off\<rparr>)\<rparr>"
  have "page_hash_insert cache off page st = Inr ?st'"
    using 1 3 p sel b by (simp add: page_hash_insert_def upd_page_some)
  moreover have "vc_pages ?st' page = Some (d\<lparr>pg_next_hash := 0, pg_cache := cache, pg_cache_offset := off\<rparr>)"
    using 1(3) by simp
  ultimately show ?thesis by (rule that) (use 1(4) 3 b2 in \<open>simp_all add: pages_only\<close>)
qed

lemma direct_page:
  assumes "direct h st" and "bucket_get h j st = Inr q" and "q \<noteq> 0"
  obtains e where "vc_pages st q = Some e" "pg_next_hash e = 0" "hash_select (pg_cache e) (pg_cache_offset e) st = Inr (j, h)"
  using assms unfolding direct_def by blast

lemma direct_once:
  assumes "direct h st" and "bucket_get h i st = Inr q" and "bucket_get h j st = Inr q" and "q \<noteq> 0"
  shows "i = j"
proof -
  obtain e where "vc_pages st q = Some e" "hash_select (pg_cache e) (pg_cache_offset e) st = Inr (i, h)"
    by (rule direct_page [OF assms(1,2,4)])
  moreover obtain e' where "vc_pages st q = Some e'" "hash_select (pg_cache e') (pg_cache_offset e') st = Inr (j, h)"
    by (rule direct_page [OF assms(1,3,4)])
  ultimately show ?thesis by simp
qed

text \<open>A lookup depends only on its bucket and the page in it.\<close>

lemma page_hash_find_frame:
  assumes "direct h st" and "hash_select c off st = Inr (j, h)" and "hash_select c off st' = Inr (j, h)"
    and "bucket_get h j st' = bucket_get h j st" and "\<And>q. bucket_get h j st = Inr q \<Longrightarrow> q \<noteq> 0 \<Longrightarrow> vc_pages st' q = vc_pages st q"
  shows "page_hash_find c off st' = page_hash_find c off st"
proof (cases "bucket_get h j st")
  case (Inl e)
  then show ?thesis using assms(2-4) by (simp add: page_hash_find_def)
next
  case (Inr q)
  have "q \<noteq> 0 \<longrightarrow> (\<exists>e. vc_pages st q = Some e \<and> pg_next_hash e = 0)" using direct_page [OF assms(1) Inr] by blast
  moreover have "q \<noteq> 0 \<longrightarrow> vc_pages st' q = vc_pages st q" using assms(5) [OF Inr] by blast
  ultimately show ?thesis
    using page_hash_find_direct [of c off st' j h q] page_hash_find_direct [of c off st j h q] Inr assms(2-4) by auto
qed

text \<open>
  C36. \<^verbatim>\<open>page_hash_insert\<close> on a table with one page per bucket: afterwards \<^verbatim>\<open>page_hash_find\<close> returns the
  page for its cache and offset, nothing for any other key of the same bucket, and for the keys of
  other buckets what it returned before. The table still has one page per bucket: a page that was in
  the bucket is lost.
\<close>

theorem page_hash_insert_spec:
  assumes inv: "direct h st" and sel: "hash_select cache off st = Inr (i, h)" and b: "bucket_get h i st = Inr b"
    and p: "page \<noteq> 0" "vc_pages st page \<noteq> None" and new: "\<forall>j. bucket_get h j st = Inr page \<longrightarrow> j = i"
  shows "\<exists>st'. page_hash_insert cache off page st = Inr st' \<and> direct h st' \<and> page_hash_find cache off st' = Inr page \<and>
    (\<forall>c o' j. hash_select c o' st = Inr (j, h) \<and> (c, o') \<noteq> (cache, off) \<longrightarrow>
      page_hash_find c o' st' = (if j = i then Inr 0 else page_hash_find c o' st))"
proof -
  obtain d where d: "vc_pages st page = Some d" using p(2) by blast
  have bd: "vc_pages st b \<noteq> None" if "b \<noteq> 0" using inv b that unfolding direct_def by blast
  obtain st' where st': "page_hash_insert cache off page st = Inr st'"
    and pg: "vc_pages st' page = Some (d\<lparr>pg_next_hash := 0, pg_cache := cache, pg_cache_offset := off\<rparr>)"
    and other: "\<forall>q. q \<noteq> page \<and> q \<noteq> b \<longrightarrow> vc_pages st' q = vc_pages st q"
    and bk: "\<forall>j. bucket_get h j st' = (if j = i then Inr page else bucket_get h j st)"
    and hs: "\<forall>c off. hash_select c off st' = hash_select c off st"
    by (rule page_hash_insert_result [OF sel b bd p(1) d])
  have keep: "vc_pages st' q = vc_pages st q" if "bucket_get h j st = Inr q" "q \<noteq> 0" "j \<noteq> i" for j q
  proof -
    have "q \<noteq> page" "q \<noteq> b" using that new direct_once [OF inv b, of j] by auto
    then show ?thesis using other by simp
  qed
  have "direct h st'" unfolding direct_def
  proof (intro allI impI)
    fix j q assume q: "bucket_get h j st' = Inr q \<and> q \<noteq> 0"
    show "\<exists>e. vc_pages st' q = Some e \<and> pg_next_hash e = 0 \<and> hash_select (pg_cache e) (pg_cache_offset e) st' = Inr (j, h)"
    proof (cases "j = i")
      case False
      then have bq: "bucket_get h j st = Inr q" "q \<noteq> 0" using bk q by simp_all
      show ?thesis by (rule direct_page [OF inv bq]) (simp add: keep [OF bq False] hs)
    qed (use q bk pg sel hs in simp)
  qed
  moreover have "page_hash_find cache off st' = Inr page"
    using page_hash_find_direct [of cache off st' i h page] hs sel bk pg p(1) by simp
  moreover have "page_hash_find c o' st' = (if j = i then Inr 0 else page_hash_find c o' st)"
    if "hash_select c o' st = Inr (j, h)" "(c, o') \<noteq> (cache, off)" for c o' j
    using page_hash_find_direct [of c o' st' i h page] page_hash_find_frame [OF inv that(1), of st'] hs bk pg keep that
    by (cases "j = i") auto
  ultimately show ?thesis using st' by blast
qed

text \<open>Two keys of one cache, in the same bucket of a table of four.\<close>

definition blank_page :: page_desc_t where
  "blank_page = \<lparr>pg_next_cache = 0, pg_prev_cache = PPNull, pg_next_hash = 0, pg_cache = 0, pg_cache_offset = 0, pg_next_free = 0,
     pg_flags = 1, pg_vaddr = 0, pg_reserved = 0\<rparr>"

definition demo_cache :: vm_cache where
  "demo_cache = \<lparr>vc_pages = [0x1000 \<mapsto> blank_page, 0x1040 \<mapsto> blank_page\<lparr>pg_cache := 0x4000, pg_cache_offset := 0x200000\<rparr>],
     vc_caches = [0x4000 \<mapsto> \<lparr>pc_pages = 0, pc_hash = \<lparr>ph_addr = 0, ph_pages = [], ph_size = 0\<rparr>, pc_read_page = 0, pc_write_page = 0,
       pc_size = 0, pc_flags = 0, pc_map_refcnt = 0\<rparr>],
     page_hash = \<lparr>ph_addr = 0x8000, ph_pages = [0, 0x1040, 0, 0], ph_size = 4\<rparr>, sl_page_cache = None,
     vc_km = kmalloc_statics (boot_kstate 0xFFFFFFFF80200000)\<rparr>"

lemma demo_cache_select:
  "hash_select 0x4000 0x200000 demo_cache = Inr (1, None)" "hash_select 0x4000 0xA00000 demo_cache = Inr (1, None)"
  by (simp_all add: hash_select_def get_cache_def demo_cache_def hash_func_def PAGE_2M_SHIFT_def Let_def)

lemma demo_cache_bucket: "bucket_get None j demo_cache = (if unat j < 4 then Inr ([0, 0x1040, 0, 0] ! unat j) else Inl OutOfBounds)"
  by (simp add: bucket_get_def the_hash_def demo_cache_def arr_get_def)

lemma demo_cache_nonempty: "bucket_get None j demo_cache = Inr q \<Longrightarrow> q \<noteq> 0 \<Longrightarrow> j = 1 \<and> q = 0x1040"
proof -
  assume a: "bucket_get None j demo_cache = Inr q" "q \<noteq> 0"
  then have "unat j < 4" "[0, 0x1040, 0, 0] ! unat j = q" by (auto simp: demo_cache_bucket split: if_splits)
  moreover from this(1) have "unat j = 0 \<or> unat j = 1 \<or> unat j = 2 \<or> unat j = 3" by linarith
  ultimately have "unat j = unat (1 :: u32) \<and> q = 0x1040" using a(2) by auto
  then show ?thesis by (simp only: unat_eq_iff)
qed

lemma demo_cache_direct: "direct None demo_cache"
  unfolding direct_def
proof (intro allI impI)
  fix i p assume "bucket_get None i demo_cache = Inr p \<and> p \<noteq> 0"
  then have "i = 1" "p = 0x1040" using demo_cache_nonempty by blast+
  then show "\<exists>d. vc_pages demo_cache p = Some d \<and> pg_next_hash d = 0 \<and>
      hash_select (pg_cache d) (pg_cache_offset d) demo_cache = Inr (i, None)"
    using demo_cache_select by (simp add: demo_cache_def blank_page_def)
qed

theorem page_hash_insert_spec_witness:
  "\<exists>st'. page_hash_insert 0x4000 0xA00000 0x1000 demo_cache = Inr st' \<and>
     page_hash_find 0x4000 0xA00000 st' = Inr 0x1000 \<and> page_hash_find 0x4000 0x200000 st' = Inr 0"
proof -
  have b: "bucket_get None 1 demo_cache = Inr 0x1040" by (simp add: demo_cache_bucket)
  have "vc_pages demo_cache 0x1000 \<noteq> None" by (simp add: demo_cache_def)
  moreover have "\<forall>j. bucket_get None j demo_cache = Inr 0x1000 \<longrightarrow> j = 1" using demo_cache_nonempty by force
  ultimately show ?thesis
    using page_hash_insert_spec [OF demo_cache_direct demo_cache_select(2) b, of "0x1000"] demo_cache_select(1) by fastforce
qed

subsection \<open>The list of the pages of a cache\<close>

definition cache_links :: "vm_cache \<Rightarrow> u64 \<Rightarrow> (u64 \<times> page_pp) option" where
  "cache_links st p = map_option (\<lambda>d. (pg_next_cache d, pg_prev_cache d)) (vc_pages st p)"

definition cache_list :: "vm_cache \<Rightarrow> u64 \<Rightarrow> u64 list \<Rightarrow> bool" where
  "cache_list st c xs \<longleftrightarrow> c \<noteq> 0 \<and> distinct xs \<and>
     (\<exists>cd. vc_caches st c = Some cd \<and> bchain PPDesc (cache_links st) (PPCache c) (pc_pages cd) xs)"

text \<open>Writing the back link of a page, if there is one.\<close>

lemma set_back:
  assumes "a \<noteq> 0 \<Longrightarrow> vc_pages st a \<noteq> None"
  obtains st1 where "(if a \<noteq> 0 then upd_page a (\<lambda>d. d\<lparr>pg_prev_cache := pp\<rparr>) st else Inr st) = Inr st1"
    "vc_caches st1 = vc_caches st" "\<forall>q. q \<noteq> a \<or> a = 0 \<longrightarrow> vc_pages st1 q = vc_pages st q"
    "\<forall>n p. a \<noteq> 0 \<and> cache_links st a = Some (n, p) \<longrightarrow> cache_links st1 a = Some (n, pp)"
proof (cases "a = 0")
  case True
  then show ?thesis using that [of st] by simp
next
  case False
  then obtain e where e: "vc_pages st a = Some e" using assms by blast
  show ?thesis
    by (rule that [of "st\<lparr>vc_pages := (vc_pages st)(a \<mapsto> e\<lparr>pg_prev_cache := pp\<rparr>)\<rparr>"])
      (use e False in \<open>auto simp: upd_page_some cache_links_def\<close>)
qed

lemma page_cache_insert_result:
  assumes l: "cache_list st c xs" and p: "page \<noteq> 0" "vc_pages st page = Some d" "page \<notin> set xs"
  obtains st' where "page_cache_insert c page st = Inr st'" "cache_list st' c (page # xs)"
    "\<forall>c'. c' \<noteq> c \<longrightarrow> vc_caches st' c' = vc_caches st c'"
proof -
  obtain cd where cd: "c \<noteq> 0" "vc_caches st c = Some cd" "bchain PPDesc (cache_links st) (PPCache c) (pc_pages cd) xs" "distinct xs"
    using l by (auto simp: cache_list_def)
  let ?a = "pc_pages cd"
  have a: "?a = (case xs of [] \<Rightarrow> 0 | x # _ \<Rightarrow> x)" by (rule bchain_head [OF cd(3)])
  have mem: "y \<noteq> 0 \<and> vc_pages st y \<noteq> None" if "y \<in> set xs" for y using bchain_mem [OF cd(3) that] by (auto simp: cache_links_def)
  obtain st1 where 1: "(if ?a \<noteq> 0 then upd_page ?a (\<lambda>d. d\<lparr>pg_prev_cache := PPDesc page\<rparr>) st else Inr st) = Inr st1"
    "vc_caches st1 = vc_caches st" "\<forall>q. q \<noteq> ?a \<or> ?a = 0 \<longrightarrow> vc_pages st1 q = vc_pages st q"
    "\<forall>n p. ?a \<noteq> 0 \<and> cache_links st ?a = Some (n, p) \<longrightarrow> cache_links st1 ?a = Some (n, PPDesc page)"
    by (rule set_back [of ?a st "PPDesc page"]) (use a mem in \<open>auto split: list.splits\<close>)
  have pa: "page \<noteq> ?a" using a p by (auto split: list.splits)
  then have p1: "vc_pages st1 page = Some d" using 1(3) p(2) by simp
  let ?st' = "st1\<lparr>vc_pages := (vc_pages st1)(page \<mapsto> d\<lparr>pg_next_cache := ?a, pg_prev_cache := PPCache c\<rparr>),
    vc_caches := (vc_caches st)(c \<mapsto> cd\<lparr>pc_pages := page\<rparr>)\<rparr>"
  have gc: "get_cache c st = Inr cd" using cd by (simp add: get_cache_def)
  have "page_cache_insert c page st = Inr ?st'"
    using 1(1,2) p(1) p1 cd by (simp add: page_cache_insert_def gc upd_page_some upd_cache_def get_cache_def)
  moreover have "bchain PPDesc (cache_links ?st') (PPCache c) page (page # xs)"
  proof (rule bchain_insert [OF cd(3) p(1,3) cd(4)], goal_cases)
    case (2 y n q)
    then have "y = ?a" "?a \<noteq> 0" using a mem [of y] by (simp_all split: list.splits)
    then have "cache_links st1 y = Some (n, PPDesc page)" using 2(2) 1(4) by blast
    then show ?case using pa \<open>y = ?a\<close> by (simp add: cache_links_def)
  next
    case (3 y)
    then have "y \<in> set xs" "y \<noteq> ?a" using a cd(4) by (auto split: list.splits dest: list.set_sel(2) [rotated])
    then show ?case using 1(3) p(3) by (auto simp: cache_links_def)
  qed (simp add: cache_links_def)
  ultimately show ?thesis using that [of ?st'] cd p(3) by (simp add: cache_list_def)
qed

lemma page_cache_remove_result:
  assumes l: "cache_list st c (as @ x # bs)"
  obtains st' where "page_cache_remove x st = Inr st'" "cache_list st' c (as @ bs)" "cache_links st' x = Some (0, PPNull)"
proof -
  obtain cd where cd: "c \<noteq> 0" "vc_caches st c = Some cd" "distinct (as @ x # bs)"
    and ch: "bchain PPDesc (cache_links st) (PPCache c) (pc_pages cd) (as @ x # bs)" using l by (auto simp: cache_list_def)
  define nx where "nx = (case bs of [] \<Rightarrow> 0 | b # _ \<Rightarrow> b)"
  define pv where "pv = (if as = [] then PPCache c else PPDesc (last as))"
  have mem: "y \<noteq> 0 \<and> vc_pages st y \<noteq> None" if "y \<in> set (as @ x # bs)" for y
    using bchain_mem [OF ch that] by (auto simp: cache_links_def)
  have "cache_links st x = Some (nx, pv)" using bchain_at [OF ch] by (simp add: nx_def pv_def)
  then obtain d where d: "vc_pages st x = Some d" "pg_next_cache d = nx" "pg_prev_cache d = pv" by (auto simp: cache_links_def)
  have x0: "x \<noteq> 0" using mem by simp
  obtain st1 where 1: "(if nx \<noteq> 0 then upd_page nx (\<lambda>d. d\<lparr>pg_prev_cache := pv\<rparr>) st else Inr st) = Inr st1"
    "vc_caches st1 = vc_caches st" "\<forall>q. q \<noteq> nx \<or> nx = 0 \<longrightarrow> vc_pages st1 q = vc_pages st q"
    "\<forall>n p. nx \<noteq> 0 \<and> cache_links st nx = Some (n, p) \<longrightarrow> cache_links st1 nx = Some (n, pv)"
    by (rule set_back [of nx st pv]) (use mem in \<open>auto simp: nx_def split: list.splits\<close>)
  have nxm: "nx \<noteq> 0 \<Longrightarrow> nx \<in> set bs" by (auto simp: nx_def split: list.splits)
  have "x \<noteq> nx" using nxm x0 cd(3) by auto
  then have x1: "vc_pages st1 x = Some d" using 1(3) d(1) by simp
  have g1: "get_page x st1 = Inr d" using x1 x0 by (simp add: get_page_def)
  obtain st2 where 2: "write_page_pp pv nx st1 = Inr st2"
    "\<forall>q. (as = [] \<or> q \<noteq> last as) \<longrightarrow> vc_pages st2 q = vc_pages st1 q"
    "\<forall>n p. as \<noteq> [] \<and> cache_links st1 (last as) = Some (n, p) \<longrightarrow> cache_links st2 (last as) = Some (nx, p)"
    "\<exists>cd2. vc_caches st2 c = Some cd2 \<and> pc_pages cd2 = (case as @ bs of [] \<Rightarrow> 0 | y # _ \<Rightarrow> y)"
  proof (cases "as = []")
    case True
    show ?thesis
      by (rule that [of "st1\<lparr>vc_caches := (vc_caches st)(c \<mapsto> cd\<lparr>pc_pages := nx\<rparr>)\<rparr>"])
        (use True cd 1(2) in \<open>auto simp: pv_def write_page_pp_def upd_cache_def get_cache_def nx_def\<close>)
  next
    case False
    then have la: "last as \<in> set as" by simp
    have ne: "last as \<noteq> nx \<or> nx = 0" using nxm la cd(3) by auto
    obtain e where e: "vc_pages st1 (last as) = Some e" "last as \<noteq> 0" using 1(3) ne mem [of "last as"] la by auto
    have "pc_pages cd = (case as @ bs of [] \<Rightarrow> 0 | y # _ \<Rightarrow> y)" using bchain_head [OF ch] False by (cases as) auto
    then show ?thesis
      by (intro that [of "st1\<lparr>vc_pages := (vc_pages st1)(last as \<mapsto> e\<lparr>pg_next_cache := nx\<rparr>)\<rparr>"])
        (use False e cd(2) 1(2) in \<open>auto simp: pv_def write_page_pp_def upd_page_some cache_links_def\<close>)
  qed
  have lb: "as = [] \<or> last as \<notin> set bs" using cd(3) by (cases as rule: rev_cases) auto
  have xl: "as = [] \<or> x \<noteq> last as" using cd(3) by (cases as rule: rev_cases) auto
  have x2: "vc_pages st2 x = Some d" using 2(2) x1 xl by auto
  let ?st' = "st2\<lparr>vc_pages := (vc_pages st2)(x \<mapsto> d\<lparr>pg_next_cache := 0, pg_prev_cache := PPNull\<rparr>)\<rparr>"
  have pv: "pv \<noteq> PPNull" by (simp add: pv_def)
  have "page_cache_remove x st = Inr ?st'"
    unfolding page_cache_remove_def get_page_some [OF x0 d(1)] rbind_simps d(2,3) 1(1) g1
    using 2(1) x0 x2 pv by (simp add: upd_page_some)
  moreover have "bchain PPDesc (cache_links ?st') (PPCache c) (case as @ bs of [] \<Rightarrow> 0 | y # _ \<Rightarrow> y) (as @ bs)"
  proof (rule bchain_remove [OF ch cd(3)], goal_cases)
    case (1 y)
    then have y: "y \<in> set as" "y \<noteq> last as" using butlast_distinct [of as y] cd(3) by auto
    moreover have "y \<noteq> x" "y \<noteq> nx \<or> nx = 0" using y nxm cd(3) by auto
    ultimately show ?case using 2(2) \<open>\<forall>q. q \<noteq> nx \<or> nx = 0 \<longrightarrow> vc_pages st1 q = vc_pages st q\<close> by (auto simp: cache_links_def)
  next
    case (2 n p)
    then have la: "last as \<in> set as" by simp
    have ne: "last as \<noteq> nx \<or> nx = 0" "last as \<noteq> x" using nxm la cd(3) by auto
    have "cache_links st1 (last as) = Some (n, p)" using 2(2) 1(3) ne(1) by (auto simp: cache_links_def)
    then have "cache_links st2 (last as) = Some (nx, p)" using \<open>as \<noteq> []\<close> \<open>\<forall>n p. as \<noteq> [] \<and> cache_links st1 (last as) = Some (n, p) \<longrightarrow> cache_links st2 (last as) = Some (nx, p)\<close> by blast
    then show ?case using ne(2) by (simp add: cache_links_def nx_def)
  next
    case (3 b n p)
    then have b: "b \<in> set bs" "nx = b" by (cases bs; simp add: nx_def)+
    then have "b \<noteq> 0" "b \<noteq> x" "as = [] \<or> b \<noteq> last as" using mem [of b] cd(3) lb by auto
    then have "cache_links ?st' b = cache_links st1 b" using \<open>\<forall>q. (as = [] \<or> q \<noteq> last as) \<longrightarrow> vc_pages st2 q = vc_pages st1 q\<close> by (auto simp: cache_links_def)
    then show ?case using 1(4) b(2) \<open>b \<noteq> 0\<close> 3(2) by (simp add: pv_def)
  next
    case (4 y)
    then have y: "y \<in> set bs" "y \<noteq> nx" using cd(3) by (cases bs; auto simp: nx_def)+
    then have "y \<noteq> x" "as = [] \<or> y \<noteq> last as" using cd(3) lb by auto
    then show ?case using y(2) 1(3) \<open>\<forall>q. (as = [] \<or> q \<noteq> last as) \<longrightarrow> vc_pages st2 q = vc_pages st1 q\<close> by (auto simp: cache_links_def)
  qed
  moreover have "cache_links ?st' x = Some (0, PPNull)" by (simp add: cache_links_def)
  moreover obtain cd2 where "vc_caches st2 c = Some cd2" "pc_pages cd2 = (case as @ bs of [] \<Rightarrow> 0 | y # _ \<Rightarrow> y)" using 2(4) by blast
  ultimately show ?thesis using that [of ?st'] cd by (simp add: cache_list_def)
qed

text \<open>
  \<^verbatim>\<open>page_cache_insert\<close> and \<^verbatim>\<open>page_cache_remove\<close>: inserting puts the page in front of the list of the
  cache; removing any page of the list, wherever it stands, takes exactly that page out and clears its
  links.
\<close>

theorem page_cache_list_spec:
  assumes "cache_list st c (as @ bs)" and "page \<noteq> 0" and "vc_pages st page \<noteq> None" and "page \<notin> set (as @ bs)"
  shows "\<exists>st'. page_cache_insert c page st = Inr st' \<and> cache_list st' c (page # as @ bs) \<and>
    (\<exists>st''. page_cache_remove page st' = Inr st'' \<and> cache_list st'' c (as @ bs) \<and> cache_links st'' page = Some (0, PPNull)) \<and>
    (\<forall>x bs'. bs = x # bs' \<longrightarrow> (\<exists>st''. page_cache_remove x st' = Inr st'' \<and> cache_list st'' c (page # as @ bs')))"
proof -
  obtain d where d: "vc_pages st page = Some d" using assms(3) by blast
  obtain st' where st': "page_cache_insert c page st = Inr st'" "cache_list st' c (page # as @ bs)"
    by (rule page_cache_insert_result [OF assms(1,2) d assms(4)])
  have "\<exists>st''. page_cache_remove page st' = Inr st'' \<and> cache_list st'' c (as @ bs) \<and> cache_links st'' page = Some (0, PPNull)"
    using page_cache_remove_result [of st' c "[]" page "as @ bs"] st'(2) by fastforce
  moreover have "\<exists>st''. page_cache_remove x st' = Inr st'' \<and> cache_list st'' c (page # as @ bs')" if "bs = x # bs'" for x bs'
    using page_cache_remove_result [of st' c "page # as" x bs'] st'(2) that by fastforce
  ultimately show ?thesis using st' by blast
qed

theorem page_cache_list_spec_witness:
  "\<exists>st' st''. page_cache_insert 0x4000 0x1000 demo_cache = Inr st' \<and> page_cache_remove 0x1000 st' = Inr st'' \<and>
     cache_list st'' 0x4000 []"
proof -
  have "cache_list demo_cache 0x4000 ([] @ [])" by (simp add: cache_list_def demo_cache_def)
  moreover have "vc_pages demo_cache 0x1000 \<noteq> None" by (simp add: demo_cache_def)
  ultimately show ?thesis using page_cache_list_spec [of demo_cache "0x4000" "[]" "[]" "0x1000"] by auto
qed

subsection \<open>The size of the global table\<close>

lemma hash_size_result:
  assumes "unat n = 2 ^ k" and "unat num \<le> 2 ^ 31" and "k \<le> 31"
  shows "\<exists>j\<ge>k. hash_size num n = Some (of_nat (2 ^ j)) \<and> j \<le> 31 \<and> unat num \<le> 2 ^ j \<and> (j > k \<longrightarrow> 2 ^ (j - 1) < unat num)"
  using assms
proof (induction "31 - k" arbitrary: n k)
  case 0
  then have "k = 31" by simp
  then have "\<not> n < num" using 0 by (simp add: unat_less_iff)
  moreover have "n = of_nat (2 ^ k)" unfolding 0(2) [symmetric] by simp
  ultimately show ?case using 0 \<open>k = 31\<close> by (subst hash_size.simps) auto
next
  case (Suc m)
  have n: "n = of_nat (2 ^ k)" unfolding Suc.prems(1) [symmetric] by simp
  show ?case
  proof (cases "n < num")
    case True
    have k: "k < 31" using Suc.hyps(2) by simp
    then have "(2::nat) ^ k * 2 ^ 1 < 2 ^ 32" using power_strict_increasing [of "Suc k" 32 "2::nat"] by simp
    then have "unat (push_bit 1 n) = 2 ^ Suc k" using Suc.prems(1) unat_push_bit_lt [of n 1] by simp
    moreover have "m = 31 - Suc k" using Suc.hyps(2) by simp
    ultimately obtain j where j: "j \<ge> Suc k"
      "hash_size num (push_bit 1 n) = Some (of_nat (2 ^ j))" "j \<le> 31" "unat num \<le> 2 ^ j" "j > Suc k \<longrightarrow> 2 ^ (j - 1) < unat num"
      using Suc.hyps(1) [of "Suc k" "push_bit 1 n"] Suc.prems(2) k by (auto simp del: push_bit_Suc)
    have "2 ^ (j - 1) < unat num"
    proof (cases "j = Suc k")
      case True
      then show ?thesis using \<open>n < num\<close> Suc.prems(1) by (simp add: unat_less_iff)
    qed (use j in simp)
    then show ?thesis using True j by (subst hash_size.simps) (auto intro!: exI [of _ j])
  next
    case False
    then show ?thesis using Suc.prems n by (subst hash_size.simps) (auto simp: unat_less_iff intro!: exI [of _ k])
  qed
qed

text \<open>
  \<^verbatim>\<open>vm_hash_init\<close>: for up to 2^31 pages the loop ends, the table has the least power of two of buckets
  that is at least the number of pages, and all of them are empty.
\<close>

lemma vm_hash_init_result:
  assumes num: "unat (pdb_num_pages db) \<le> 2 ^ 20" and ok: "slack_ok (sh_kernel (km_heap (vc_km st)))"
    and fit: "round_up (unat (bi_kernel_slack (ks_boot (sh_kernel (km_heap (vc_km st)))))) 16 + 2 ^ 24 \<le> 2 ^ 30"
  obtains st' j where "vm_hash_init db st = Inr st'" "ph_size (page_hash st') = of_nat (2 ^ j)" "unat (pdb_num_pages db) \<le> 2 ^ j"
    "j > 0 \<longrightarrow> 2 ^ (j - 1) < unat (pdb_num_pages db)" "ph_pages (page_hash st') = replicate (2 ^ j) 0"
    "slack_ok (sh_kernel (km_heap (vc_km st')))"
proof -
  obtain j where j: "hash_size (pdb_num_pages db) 1 = Some (of_nat (2 ^ j))" "j \<le> 31" "unat (pdb_num_pages db) \<le> 2 ^ j"
    "j > 0 \<longrightarrow> 2 ^ (j - 1) < unat (pdb_num_pages db)" using hash_size_result [of 1 0 "pdb_num_pages db"] num by auto
  have j20: "j \<le> 20"
  proof (rule ccontr)
    assume "\<not> j \<le> 20"
    then have "(2::nat) ^ 20 \<le> 2 ^ (j - 1)" by (intro power_increasing) auto
    then show False using j(4) num \<open>\<not> j \<le> 20\<close> by auto
  qed
  have u: "unat (of_nat (2 ^ j) :: u32) = 2 ^ j" using j(2) power_increasing [of j 31 "2::nat"] by (intro unat_of_nat_lt) simp
  let ?sz = "ucast (of_nat (2 ^ j) :: u32) * 8 :: u64"
  have "(2::nat) ^ j \<le> 2 ^ 20" using j20 by (rule power_increasing) simp
  then have sz: "unat ?sz \<le> 2 ^ 24" using u by (simp add: unat_word_ariths)
  have four: "(4::nat) \<le> 30" by simp
  have sixteen: "(2::nat) ^ 4 = 16" "push_bit 4 1 = (16 :: u64)" by simp_all
  let ?ks = "sh_kernel (km_heap (vc_km st))"
  have "round_up (unat (bi_kernel_slack (ks_boot ?ks))) (2 ^ 4) + unat ?sz \<le> 2 ^ 30"
    unfolding sixteen using fit sz by linarith
  from kernel_slack_alloc_result [OF ok four this]
  obtain p ks' where ks: "kernel_slack_alloc ?sz 16 ?ks = Inr (KERNEL_VADDR p, ks')" "slack_ok ks'" unfolding sixteen by blast
  show ?thesis
    by (rule that [of "st\<lparr>page_hash := \<lparr>ph_addr = KERNEL_VADDR p, ph_pages = replicate (2 ^ j) 0, ph_size = of_nat (2 ^ j)\<rparr>,
        vc_km := (vc_km st)\<lparr>km_heap := (km_heap (vc_km st))\<lparr>sh_kernel := ks'\<rparr>\<rparr>\<rparr>" j])
      (use j ks u in \<open>simp_all add: vm_hash_init_def returns_def Let_def\<close>)
qed

end
