(* ===== verification/Firmware.thy ===== *)
theory Firmware
  imports VmBoot
begin

text \<open>
  Tables that the firmware and the boot loader leave in memory, read by \<^verbatim>\<open>imps.c\<close>, \<^verbatim>\<open>multiboot.c\<close> and
  \<^verbatim>\<open>acpi.c\<close>. The tables are packed little-endian structures, so memory is read by bytes here: a function
  from virtual addresses to bytes. The kernel does not write to these tables. Encoding of integers as
  bytes and the relation \<open>holds\<close> (memory holds these bytes from that address on) are what the round-trip
  lemmas of the parsers speak about.
\<close>

type_synonym bmem = "u64 \<Rightarrow> u8"

primrec rd_le :: "nat \<Rightarrow> bmem \<Rightarrow> u64 \<Rightarrow> 'w::len word" where
  "rd_le 0 m a = 0"
| "rd_le (Suc n) m a = ucast (m a) OR push_bit 8 (rd_le n m (a + 1))"

definition rd16 :: "bmem \<Rightarrow> u64 \<Rightarrow> u16" where "rd16 m a = rd_le 2 m a"
definition rd32 :: "bmem \<Rightarrow> u64 \<Rightarrow> u32" where "rd32 m a = rd_le 4 m a"
definition rd64 :: "bmem \<Rightarrow> u64 \<Rightarrow> u64" where "rd64 m a = rd_le 8 m a"

text \<open>\<open>n\<close> bytes from an address on, as an array.\<close>

primrec rd_bytes :: "nat \<Rightarrow> bmem \<Rightarrow> u64 \<Rightarrow> u8 list" where
  "rd_bytes 0 m a = []"
| "rd_bytes (Suc n) m a = m a # rd_bytes n m (a + 1)"

text \<open>The checksum loops: the sum of \<open>n\<close> bytes in a variable of the width of the result.\<close>

primrec sum_bytes :: "nat \<Rightarrow> bmem \<Rightarrow> u64 \<Rightarrow> 'w::len word \<Rightarrow> 'w word" where
  "sum_bytes 0 m a s = s"
| "sum_bytes (Suc n) m a s = sum_bytes n m (a + 1) (s + ucast (m a))"

text \<open>The paragraphs that a scan of \<open>k\<close> paragraphs from an address looks at.\<close>

definition paragraphs :: "u64 \<Rightarrow> nat \<Rightarrow> u64 list" where
  "paragraphs addr k = map (\<lambda>i. addr + 16 * of_nat i) [0..<k]"

lemma paragraphs_Suc: "paragraphs addr (Suc k) = addr # paragraphs (addr + 16) k"
  unfolding paragraphs_def
  by (subst upt_conv_Cons, simp, subst map_Suc_upt [symmetric]) (simp add: comp_def algebra_simps del: upt_Suc)

lemma find_append: "find P (xs @ ys) = (case find P xs of None \<Rightarrow> find P ys | Some x \<Rightarrow> Some x)"
  by (induction xs) simp_all

subsection \<open>What memory holds\<close>

primrec holds :: "bmem \<Rightarrow> u64 \<Rightarrow> u8 list \<Rightarrow> bool" where
  "holds m a [] \<longleftrightarrow> True"
| "holds m a (b # bs) \<longleftrightarrow> m a = b \<and> holds m (a + 1) bs"

primrec le_bytes :: "nat \<Rightarrow> 'w::len word \<Rightarrow> u8 list" where
  "le_bytes 0 x = []"
| "le_bytes (Suc n) x = ucast x # le_bytes n (drop_bit 8 x)"

definition le16 :: "u16 \<Rightarrow> u8 list" where "le16 x = le_bytes 2 x"
definition le32 :: "u32 \<Rightarrow> u8 list" where "le32 x = le_bytes 4 x"
definition le64 :: "u64 \<Rightarrow> u8 list" where "le64 x = le_bytes 8 x"

lemma length_le_bytes [simp]: "length (le_bytes n x) = n"
  by (induction n arbitrary: x) simp_all

lemma length_le [simp]: "length (le16 x) = 2" "length (le32 y) = 4" "length (le64 z) = 8"
  by (simp_all add: le16_def le32_def le64_def)

lemma holds_append [simp]: "holds m a (xs @ ys) \<longleftrightarrow> holds m a xs \<and> holds m (a + of_nat (length xs)) ys"
  by (induction xs arbitrary: a) (auto simp: algebra_simps)

lemma rd_le_holds:
  assumes "holds m a (le_bytes n x)"
  shows "rd_le n m a = take_bit (8 * n) x"
  using assms
proof (induction n arbitrary: a x)
  case (Suc n)
  then have IH: "rd_le n m (a + 1) = take_bit (8 * n) (drop_bit 8 x)" and m: "m a = ucast x" by simp_all
  show ?case
  proof (rule bit_word_eqI)
    fix i assume i: "i < LENGTH('a)"
    show "bit (rd_le (Suc n) m a :: 'a word) i = bit (take_bit (8 * Suc n) x) i"
      using i by (cases "i < 8") (auto simp: IH m bit_simps)
  qed
qed simp

lemma rd_holds:
  "holds m a (le16 x) \<Longrightarrow> rd16 m a = x"
  "holds m a (le32 y) \<Longrightarrow> rd32 m a = y"
  "holds m a (le64 z) \<Longrightarrow> rd64 m a = z"
proof -
  have "take_bit 16 x = x" "take_bit 32 y = y" "take_bit 64 z = z" by (rule bit_word_eqI; simp add: bit_simps)+
  then show "holds m a (le16 x) \<Longrightarrow> rd16 m a = x" "holds m a (le32 y) \<Longrightarrow> rd32 m a = y"
    "holds m a (le64 z) \<Longrightarrow> rd64 m a = z"
    by (simp_all add: rd16_def rd32_def rd64_def le16_def le32_def le64_def rd_le_holds)
qed

lemma rd_bytes_holds: "holds m a bs \<Longrightarrow> rd_bytes (length bs) m a = bs"
  by (induction bs arbitrary: a) simp_all

lemma length_rd_bytes [simp]: "length (rd_bytes n m a) = n"
  by (induction n arbitrary: a) simp_all

text \<open>A memory that holds given bytes from an address on; for concrete instances.\<close>

definition mem_of :: "u64 \<Rightarrow> u8 list \<Rightarrow> bmem" where
  "mem_of base bs = (\<lambda>a. if unat (a - base) < length bs then bs ! unat (a - base) else 0)"

lemma holds_mem_of_drop:
  assumes "length bs < 2 ^ 64" and "n \<le> length bs"
  shows "holds (mem_of base bs) (base + of_nat n) (drop n bs)"
  using assms(2)
proof (induction "length bs - n" arbitrary: n)
  case 0
  then show ?case by simp
next
  case (Suc k)
  then have lt: "n < length bs" by simp
  then have d: "drop n bs = bs ! n # drop (Suc n) bs" by (simp add: Cons_nth_drop_Suc)
  have "unat (of_nat n :: u64) = n" using lt assms(1) by (intro unat_of_nat_lt) simp
  then have "mem_of base bs (base + of_nat n) = bs ! n" using lt by (simp add: mem_of_def)
  moreover have "holds (mem_of base bs) (base + of_nat (Suc n)) (drop (Suc n) bs)"
    using Suc by (intro Suc.hyps(1)) simp_all
  ultimately show ?case unfolding d by (simp add: algebra_simps)
qed

lemma holds_mem_of: "length bs < 2 ^ 64 \<Longrightarrow> holds (mem_of base bs) base bs"
  using holds_mem_of_drop [of bs 0 base] by simp

subsection \<open>Walks over records\<close>

text \<open>
  The tables are sequences of records of different lengths, and each parser is a loop that reads the record at a
  position, acts on its state and moves on. They differ in how they find the end (a terminating record, an end
  address, a count). What they share: a position with records ahead of it (\<open>ahead\<close>), a move over a record
  (\<open>skip\<close>), the effect of a record on the state, which may fault, and the way a result is returned (\<open>ret\<close>). A loop
  that obeys the two laws performs the effects of the records ahead of it, in order, up to the first fault; that
  it returns is part of the statement.
\<close>

locale record_walk =
  fixes walk :: "'p \<Rightarrow> 's \<Rightarrow> 'r" and ahead :: "'p \<Rightarrow> 't list \<Rightarrow> bool" and fits :: "'t list \<Rightarrow> 's \<Rightarrow> bool"
    and skip :: "'t \<Rightarrow> 'p \<Rightarrow> 'p" and effect :: "'t \<Rightarrow> 's \<Rightarrow> 's outcome" and ret :: "'s outcome \<Rightarrow> 'r"
  assumes walk_end: "ahead p [] \<Longrightarrow> walk p s = ret (Inr s)"
    and walk_step: "ahead p (t # ts) \<Longrightarrow> fits (t # ts) s \<Longrightarrow>
      walk p s = (case effect t s of Inl e \<Rightarrow> ret (Inl e) | Inr s' \<Rightarrow> walk (skip t p) s')"
    and ahead_skip: "ahead p (t # ts) \<Longrightarrow> ahead (skip t p) ts"
    and fits_effect: "fits (t # ts) s \<Longrightarrow> effect t s = Inr s' \<Longrightarrow> fits ts s'"
begin

lemma walk_result: "ahead p ts \<Longrightarrow> fits ts s \<Longrightarrow> walk p s = ret (fold_outcome effect ts s)"
proof (induction ts arbitrary: p s)
  case (Cons t ts)
  show ?case
  proof (cases "effect t s")
    case (Inr s')
    then show ?thesis using Cons.IH [of "skip t p" s'] Cons.prems ahead_skip fits_effect by (simp add: walk_step)
  qed (use Cons.prems in \<open>simp add: walk_step\<close>)
qed (simp add: walk_end)

end

text \<open>Moving over a block of bytes that stays inside the address space.\<close>

lemma unat_plus_of_nat:
  assumes "unat (a :: u64) + n < 2 ^ 64"
  shows "unat (a + of_nat n) = unat a + n"
proof -
  have "unat (of_nat n :: u64) = n" using assms by (intro unat_of_nat_lt) simp
  then show ?thesis using assms by (subst unat_plus_lt) simp_all
qed

end
