(* ===== verification/Imps.thy ===== *)
theory Imps
  imports Firmware CString
begin

text \<open>
  The Intel multiprocessor tables of \<^verbatim>\<open>imps.c\<close>: the search for the floating pointer structure and the
  listing of the configuration table. What the code prints is a list of lines. \<open>m\<close> is the memory that
  holds the tables.
\<close>

definition IMPS_FPS_SIGNATURE :: u32 where
  "IMPS_FPS_SIGNATURE = 0x5f OR push_bit 8 0x4d OR push_bit 16 0x50 OR push_bit 24 0x5f"

definition IMPS_CTH_ENTRY_PROCESSOR :: u8 where "IMPS_CTH_ENTRY_PROCESSOR = 0"
definition IMPS_CTH_ENTRY_BUS :: u8 where "IMPS_CTH_ENTRY_BUS = 1"
definition IMPS_CTH_ENTRY_IO_APIC :: u8 where "IMPS_CTH_ENTRY_IO_APIC = 2"
definition IMPS_CTH_ENTRY_IO_INTERRUPT :: u8 where "IMPS_CTH_ENTRY_IO_INTERRUPT = 3"
definition IMPS_CTH_ENTRY_LOCAL_INTERRUPT :: u8 where "IMPS_CTH_ENTRY_LOCAL_INTERRUPT = 4"

text \<open>Structures are read through their field offsets: \<^verbatim>\<open>imps_fps_t\<close> has 16 bytes.\<close>

definition fps_signature :: "bmem \<Rightarrow> u64 \<Rightarrow> u32" where "fps_signature m fps = rd32 m fps"
definition fps_config_table_addr :: "bmem \<Rightarrow> u64 \<Rightarrow> u32" where "fps_config_table_addr m fps = rd32 m (fps + 4)"
definition fps_length :: "bmem \<Rightarrow> u64 \<Rightarrow> u8" where "fps_length m fps = m (fps + 8)"
definition fps_spec_rev :: "bmem \<Rightarrow> u64 \<Rightarrow> u8" where "fps_spec_rev m fps = m (fps + 9)"

definition sizeof_imps_fps_t :: nat where "sizeof_imps_fps_t = 16"
definition sizeof_imps_cth_t :: u64 where "sizeof_imps_cth_t = 44"

definition imps_checksum :: "bmem \<Rightarrow> u64 \<Rightarrow> nat \<Rightarrow> u32" where
  "imps_checksum m base len = sum_bytes len m base 0 AND 0xFF"

definition imps_check_fps :: "bmem \<Rightarrow> u64 \<Rightarrow> bool" where
  "imps_check_fps m fps \<longleftrightarrow>
     fps_signature m fps = IMPS_FPS_SIGNATURE \<and> fps_length m fps = 1 \<and>
     (fps_spec_rev m fps = 1 \<or> fps_spec_rev m fps = 4) \<and> imps_checksum m fps sizeof_imps_fps_t = 0"

text \<open>The loop counts down in steps of 16 and ends only at zero.\<close>

partial_function (option) imps_scan :: "bmem \<Rightarrow> u64 \<Rightarrow> u32 \<Rightarrow> u64 option option" where
  "imps_scan m addr len =
     (if len > 0 then
        if imps_check_fps m addr then Some (Some addr)
        else imps_scan m (addr + 16) (len - 16)
      else Some None)"

definition imps_find :: "bmem \<Rightarrow> u64 option option" where
  "imps_find m =
     (let ebda_addr = push_bit 4 (ucast (rd16 m (KERNEL_VADDR 0x40E))) in
      case imps_scan m (KERNEL_VADDR ebda_addr) 1024 of
        None \<Rightarrow> None
      | Some (Some fps) \<Rightarrow> Some (Some fps)
      | Some None \<Rightarrow>
          (case imps_scan m (KERNEL_VADDR (639 * 1024)) 1024 of
             None \<Rightarrow> None
           | Some (Some fps) \<Rightarrow> Some (Some fps)
           | Some None \<Rightarrow>
               (case imps_scan m (KERNEL_VADDR 0xF0000) 0x10000 of
                  None \<Rightarrow> None
                | Some (Some fps) \<Rightarrow> Some (Some fps)
                | Some None \<Rightarrow> Some None)))"

subsection \<open>The configuration table\<close>

datatype imps_line =
    Imps_none
  | Imps_spec u8
  | Imps_oem "u8 list" "u8 list"
  | Imps_processor u8 u32
  | Imps_bus u8 "u8 list"
  | Imps_io_apic u8 u32
  | Imps_io_interrupt u8 u8 u8 u8 u8
  | Imps_local_interrupt u8 u8 u8 u8 u8

text \<open>
  A character array of a table as a terminated string: \<^verbatim>\<open>c_strncpy\<close> into a local array of one more
  element, all of whose elements it writes.
\<close>

definition field_string :: "bmem \<Rightarrow> u64 \<Rightarrow> nat \<Rightarrow> u8 list outcome" where
  "field_string m addr len = c_strncpy (replicate (len + 1) 0) (rd_bytes len m addr) len"

definition imps_read_processor :: "bmem \<Rightarrow> u64 \<Rightarrow> imps_line" where
  "imps_read_processor m cpu = Imps_processor (m (cpu + 1)) (rd32 m (cpu + 4))"

definition imps_read_bus :: "bmem \<Rightarrow> u64 \<Rightarrow> imps_line outcome" where
  "imps_read_bus m bus = rbind (field_string m (bus + 2) 6) (\<lambda>bus_type. Inr (Imps_bus (m (bus + 1)) bus_type))"

definition imps_read_io_apic :: "bmem \<Rightarrow> u64 \<Rightarrow> imps_line" where
  "imps_read_io_apic m io_apic = Imps_io_apic (m (io_apic + 1)) (rd32 m (io_apic + 4))"

definition imps_read_io_interrupt :: "bmem \<Rightarrow> u64 \<Rightarrow> imps_line" where
  "imps_read_io_interrupt m io_int =
     Imps_io_interrupt (m (io_int + 1)) (m (io_int + 4)) (m (io_int + 5)) (m (io_int + 6)) (m (io_int + 7))"

definition imps_read_local_interrupt :: "bmem \<Rightarrow> u64 \<Rightarrow> imps_line" where
  "imps_read_local_interrupt m local_int =
     Imps_local_interrupt (m (local_int + 1)) (m (local_int + 4)) (m (local_int + 5)) (m (local_int + 6)) (m (local_int + 7))"

primrec imps_entries :: "nat \<Rightarrow> bmem \<Rightarrow> u64 \<Rightarrow> imps_line list \<Rightarrow> imps_line list outcome" where
  "imps_entries 0 m addr out = Inr out"
| "imps_entries (Suc entry_count) m addr out =
     (let entry_type = m addr in
      if entry_type = IMPS_CTH_ENTRY_PROCESSOR then
        imps_entries entry_count m (addr + 12 + 8) (out @ [imps_read_processor m addr])
      else if entry_type = IMPS_CTH_ENTRY_BUS then
        rbind (imps_read_bus m addr) (\<lambda>l. imps_entries entry_count m (addr + 8) (out @ [l]))
      else if entry_type = IMPS_CTH_ENTRY_IO_APIC then
        imps_entries entry_count m (addr + 8) (out @ [imps_read_io_apic m addr])
      else if entry_type = IMPS_CTH_ENTRY_IO_INTERRUPT then
        imps_entries entry_count m (addr + 8) (out @ [imps_read_io_interrupt m addr])
      else if entry_type = IMPS_CTH_ENTRY_LOCAL_INTERRUPT then
        imps_entries entry_count m (addr + 8) (out @ [imps_read_local_interrupt m addr])
      else imps_entries entry_count m (addr + 8) out)"

definition imps_read_config_table :: "bmem \<Rightarrow> u64 \<Rightarrow> imps_line list outcome" where
  "imps_read_config_table m addr =
     rbind (field_string m (addr + 8) 8) (\<lambda>oem_id.
     rbind (field_string m (addr + 16) 12) (\<lambda>product_id.
     let entry_count = unat (rd16 m (addr + 34)) in
     imps_entries entry_count m (addr + sizeof_imps_cth_t) [Imps_oem oem_id product_id]))"

definition imps_init :: "bmem \<Rightarrow> imps_line list outcome option" where
  "imps_init m =
     (case imps_find m of
        None \<Rightarrow> None
      | Some None \<Rightarrow> Some (Inr [Imps_none])
      | Some (Some fps) \<Rightarrow>
          Some (if fps_config_table_addr m fps \<noteq> 0
                then rbind (imps_read_config_table m (KERNEL_VADDR (ucast (fps_config_table_addr m fps)))) (\<lambda>out.
                  Inr (Imps_spec (fps_spec_rev m fps) # out))
                else Inr [Imps_spec (fps_spec_rev m fps)]))"

definition imps_show_cmd :: "bmem \<Rightarrow> imps_line list outcome option" where
  "imps_show_cmd m = imps_init m"

subsection \<open>The search\<close>

text \<open>The paragraphs that the whole search looks at.\<close>

definition fps_candidates :: "bmem \<Rightarrow> u64 list" where
  "fps_candidates m =
     paragraphs (KERNEL_VADDR (push_bit 4 (ucast (rd16 m (KERNEL_VADDR 0x40E))))) 64 @
     paragraphs (KERNEL_VADDR (639 * 1024)) 64 @ paragraphs (KERNEL_VADDR 0xF0000) 4096"

lemma imps_scan_result:
  assumes "k < 2 ^ 28"
  shows "imps_scan m addr (of_nat (16 * k)) = Some (find (imps_check_fps m) (paragraphs addr k))"
  using assms
proof (induction k arbitrary: addr)
  case 0
  then show ?case by (subst imps_scan.simps) (simp add: paragraphs_def)
next
  case (Suc k)
  have "unat (of_nat (16 * Suc k) :: u32) = 16 * Suc k" using Suc.prems by (intro unat_of_nat_lt) simp
  then have pos: "(of_nat (16 * Suc k) :: u32) > 0" by (simp add: unat_less_iff)
  have dec: "(of_nat (16 * Suc k) :: u32) - 16 = of_nat (16 * k)" by (simp add: algebra_simps)
  show ?case
    using pos Suc.IH [of "addr + 16"] Suc.prems unfolding paragraphs_Suc
    by (subst imps_scan.simps) (simp only: dec if_True find.simps Suc_lessD split: if_split, simp)
qed

text \<open>
  C37. The search for the multiprocessor structure always ends, although its scan loops count an unsigned
  length down by 16 and stop only at exactly zero, and it returns the first paragraph, in the order extended
  BIOS data area, top of base memory, BIOS ROM, that passes the signature, length, revision and checksum
  tests; or nothing when none does.
\<close>

theorem imps_find_first: "imps_find m = Some (find (imps_check_fps m) (fps_candidates m))"
proof -
  have s: "imps_scan m a 1024 = Some (find (imps_check_fps m) (paragraphs a 64))"
    "imps_scan m a 0x10000 = Some (find (imps_check_fps m) (paragraphs a 4096))" for a
    using imps_scan_result [of 64 m a] imps_scan_result [of 4096 m a] by simp_all
  show ?thesis by (simp add: imps_find_def fps_candidates_def find_append Let_def s split: option.split)
qed

subsection \<open>The listing of a configuration table\<close>

text \<open>A table entry with the fields that are printed, and its bytes; the fields that are skipped are arguments.\<close>

datatype imps_entry =
    E_processor u8 u32 u8 u8 u32 u64
  | E_bus u8 "u8 list"
  | E_io_apic u8 u32 u8 u8
  | E_io_interrupt u8 u8 u8 u8 u8 u16
  | E_local_interrupt u8 u8 u8 u8 u8 u16

fun entry_bytes :: "imps_entry \<Rightarrow> u8 list" where
  "entry_bytes (E_processor n sig ver flags features reserved) =
     [0, n, ver, flags] @ le32 sig @ le32 features @ le64 reserved"
| "entry_bytes (E_bus n name) = [1, n] @ name"
| "entry_bytes (E_io_apic n addr ver flags) = [2, n, ver, flags] @ le32 addr"
| "entry_bytes (E_io_interrupt ty bus irq dst pin flags) = [3, ty] @ le16 flags @ [bus, irq, dst, pin]"
| "entry_bytes (E_local_interrupt ty bus irq dst pin flags) = [4, ty] @ le16 flags @ [bus, irq, dst, pin]"

fun entry_line :: "imps_entry \<Rightarrow> imps_line" where
  "entry_line (E_processor n sig _ _ _ _) = Imps_processor n sig"
| "entry_line (E_bus n name) = Imps_bus n (name @ [0])"
| "entry_line (E_io_apic n addr _ _) = Imps_io_apic n addr"
| "entry_line (E_io_interrupt ty bus irq dst pin _) = Imps_io_interrupt ty bus irq dst pin"
| "entry_line (E_local_interrupt ty bus irq dst pin _) = Imps_local_interrupt ty bus irq dst pin"

fun entry_ok :: "imps_entry \<Rightarrow> bool" where
  "entry_ok (E_bus _ name) \<longleftrightarrow> length name = 6"
| "entry_ok _ \<longleftrightarrow> True"

lemma field_string_holds: "holds m a s \<Longrightarrow> length s = n \<Longrightarrow> field_string m a n = Inr (s @ [0])"
  using rd_bytes_holds [of m a s] c_strncpy_spec [of n "rd_bytes n m a" "replicate (n + 1) 0"]
  by (simp add: field_string_def)

lemmas imps_entry_defs = Let_def imps_read_processor_def imps_read_bus_def imps_read_io_apic_def imps_read_io_interrupt_def
  imps_read_local_interrupt_def IMPS_CTH_ENTRY_PROCESSOR_def IMPS_CTH_ENTRY_BUS_def IMPS_CTH_ENTRY_IO_APIC_def
  IMPS_CTH_ENTRY_IO_INTERRUPT_def IMPS_CTH_ENTRY_LOCAL_INTERRUPT_def

lemma imps_entries_step:
  assumes "holds m addr (entry_bytes e)" and "entry_ok e"
  shows "imps_entries (Suc k) m addr out = imps_entries k m (addr + of_nat (length (entry_bytes e))) (out @ [entry_line e])"
proof (cases e)
  case (E_processor n sig ver flags features reserved)
  then have "m addr = 0" "m (addr + 1) = n" "holds m (addr + 4) (le32 sig)" using assms(1) by (simp_all add: add.assoc)
  then show ?thesis using E_processor rd_holds(2) [of m "addr + 4" sig] by (simp add: imps_entry_defs add.assoc)
next
  case (E_bus n name)
  then have h: "m addr = 1" "m (addr + 1) = n" "holds m (addr + 2) name" using assms(1) by (simp_all add: add.assoc)
  have "field_string m (addr + 2) 6 = Inr (name @ [0])" using field_string_holds [OF h(3)] assms(2) E_bus by simp
  then show ?thesis using E_bus h assms(2) by (simp add: imps_entry_defs)
next
  case (E_io_apic n ad ver flags)
  then have "m addr = 2" "m (addr + 1) = n" "holds m (addr + 4) (le32 ad)" using assms(1) by (simp_all add: add.assoc)
  then show ?thesis using E_io_apic rd_holds(2) [of m "addr + 4" ad] by (simp add: imps_entry_defs)
qed (use assms in \<open>simp_all add: imps_entry_defs add.assoc\<close>)

fun entries_ahead :: "nat \<times> bmem \<times> u64 \<Rightarrow> imps_entry list \<Rightarrow> bool" where
  "entries_ahead (n, m, addr) es \<longleftrightarrow> n = length es \<and> holds m addr (concat (map entry_bytes es)) \<and> list_all entry_ok es"

interpretation imps_walk: record_walk "\<lambda>(n, m, addr). imps_entries n m addr" entries_ahead "\<lambda>_ _. True"
  "\<lambda>e (n, m, addr). (n - 1, m, addr + of_nat (length (entry_bytes e)))" "\<lambda>e out. Inr (out @ [entry_line e])" "\<lambda>r. r"
proof (unfold_locales, goal_cases)
  case (2 p e es s)
  then show ?case using imps_entries_step [of "fst (snd p)" "snd (snd p)" e "length es" s] by (cases p) simp
qed auto

lemma fold_entry_line: "fold (\<lambda>e out. out @ [entry_line e]) es out = out @ map entry_line es"
  by (induction es arbitrary: out) simp_all

lemma imps_entries_result:
  assumes "holds m addr (concat (map entry_bytes es))" and "list_all entry_ok es"
  shows "imps_entries (length es) m addr out = Inr (out @ map entry_line es)"
  using imps_walk.walk_result [of "(length es, m, addr)" es out] assms by (simp add: fold_outcome_Inr fold_entry_line)

text \<open>
  The bytes of a table: eight bytes of signature, length, revision and checksum, the two identifiers, the
  OEM table pointer and size, the number of entries, eight more header bytes, and the entries.
\<close>

definition table_bytes :: "u8 list \<Rightarrow> u8 list \<Rightarrow> u8 list \<Rightarrow> u8 list \<Rightarrow> u8 list \<Rightarrow> imps_entry list \<Rightarrow> u8 list" where
  "table_bytes pre oem product mid post es =
     pre @ oem @ product @ mid @ le16 (of_nat (length es)) @ post @ concat (map entry_bytes es)"

text \<open>
  Round trip of the configuration table: memory that holds the bytes of a table is listed as its identifiers
  followed by one line for each entry, in order.
\<close>

lemma imps_read_config_table_roundtrip:
  assumes "holds m addr (table_bytes pre oem product mid post es)"
    and "length pre = 8" "length oem = 8" "length product = 12" "length mid = 6" "length post = 8"
    and "length es < 2 ^ 16" and "list_all entry_ok es"
  shows "imps_read_config_table m addr = Inr (Imps_oem (oem @ [0]) (product @ [0]) # map entry_line es)"
proof -
  have h: "holds m (addr + 8) oem" "holds m (addr + 16) product" "holds m (addr + 34) (le16 (of_nat (length es)))"
    "holds m (addr + 44) (concat (map entry_bytes es))"
    using assms(1-6) by (simp_all add: table_bytes_def add.assoc)
  have "unat (rd16 m (addr + 34)) = length es" using rd_holds(1) [OF h(3)] assms(7) by (simp add: unat_of_nat_lt)
  then show ?thesis
    using field_string_holds [OF h(1) assms(3)] field_string_holds [OF h(2) assms(4)] imps_entries_result [OF h(4) assms(8)]
    by (simp add: imps_read_config_table_def sizeof_imps_cth_t_def)
qed

end
