(* ===== verification/Listings.thy ===== *)
theory Listings
  imports VmBoot Slab
begin

text \<open>
  The listings that the terminal prints for debugging: the runs of the free list
  (\<^verbatim>\<open>page_db_dump_free_list\<close> of \<^verbatim>\<open>vm_page.c\<close>) and the three levels of page tables (\<^verbatim>\<open>pml4_dump\<close> and
  \<^verbatim>\<open>vm_boot_dump\<close> of \<^verbatim>\<open>vm_boot.c\<close>), and the slabs of a slab list (\<^verbatim>\<open>slab_list_dump\<close> of \<^verbatim>\<open>slab.c\<close>). A printed line is a value: the numbers that are formatted. The
  lemmas relate what is listed to the state of the two components: the runs are the free list, and the
  pages listed at the last level are those that \<^verbatim>\<open>vm_boot_sync\<close> reserves.
\<close>

subsection \<open>The free list\<close>

function run_last :: "u32 \<Rightarrow> page_desc_t list \<Rightarrow> u32 outcome" where
  "run_last index ps =
     rbind (arr_get ps (unat index)) (\<lambda>p.
     if pg_next_free p \<noteq> 0 \<and> pg_next_free p = index + 1 then run_last (index + 1) ps else Inr index)"
  by pat_completeness auto
termination
proof (relation "measure (\<lambda>(index, ps). length ps - unat index)", simp, goal_cases)
  case (1 index ps p)
  then have "index + 1 \<noteq> 0" "unat index < length ps" by (auto simp: arr_get_Inr_iff)
  then have "unat (index + 1) = Suc (unat index)" by (metis Suc_eq_plus1 add.commute unatSuc)
  then show ?case using \<open>unat index < length ps\<close> by simp
qed

declare run_last.simps [simp del]

text \<open>A line \<^verbatim>\<open>[s:n]\<close>.\<close>

partial_function (option) dump_free_loop ::
  "u32 \<Rightarrow> page_desc_t list \<Rightarrow> (u32 \<times> u32) list \<Rightarrow> (u32 \<times> u32) list outcome option" where
  "dump_free_loop index ps out =
     (if index > 0 then
        (case run_last index ps of
           Inl e \<Rightarrow> Some (Inl e)
         | Inr l \<Rightarrow>
             let n = (l + 1) - index;
                 out' = (if n \<noteq> 0 then out @ [(index, n)] else out) in
             (case arr_get ps (unat l) of
                Inl e \<Rightarrow> Some (Inl e)
              | Inr p \<Rightarrow> dump_free_loop (pg_next_free p) ps out'))
      else Some (Inr out))"

definition page_db_dump_free_list :: "page_db_t \<Rightarrow> (u32 \<times> u32) list outcome option" where
  "page_db_dump_free_list pdb = dump_free_loop (pdb_free_list pdb) (pdb_pages pdb) []"

subsection \<open>The page tables\<close>

text \<open>
  A line for an entry of one of the three levels: the index, the address in the entry, the virtual
  address it translates, and the flag bits.
\<close>

datatype pml4_line =
    Pml_line u32 u64 u64 u32
  | Pdp_line u32 u64 u64 u32
  | Pd_line u32 u64 u64 u32

definition pml4_dump :: "u64 \<Rightarrow> vm_boot \<Rightarrow> pml4_line list outcome" where
  "pml4_dump pml4_addr st =
     for_up 0 512 (\<lambda>pml4_index out.
       let pdp_entry = vb_mem st (entry_addr pml4_addr pml4_index) in
       if pdp_entry \<noteq> 0 then
         let pdp_addr = PDIR_ADDR pdp_entry;
             out = out @ [Pml_line pml4_index pdp_addr (push_bit PML_SHIFT (ucast pml4_index)) (ucast (pdp_entry AND 0x1FF))] in
         for_up 0 512 (\<lambda>pdp_index out.
           let pd_entry = vb_mem st (entry_addr pdp_addr pdp_index) in
           if pd_entry \<noteq> 0 then
             let pd_addr = PDIR_ADDR pd_entry;
                 pdp_vaddr = push_bit PML_SHIFT (ucast pml4_index) + push_bit PDP_SHIFT (ucast pdp_index);
                 out = out @ [Pdp_line pdp_index pd_addr pdp_vaddr (ucast (pd_entry AND 0x1FF))] in
             for_up 0 512 (\<lambda>pd_index out.
               let pt_entry = vb_mem st (entry_addr pd_addr pd_index) in
               if pt_entry \<noteq> 0 then
                 let pt_addr = PDIR_ADDR pt_entry;
                     pt_vaddr = push_bit PML_SHIFT (ucast pml4_index) + push_bit PDP_SHIFT (ucast pdp_index)
                              + push_bit PAGE_2M_SHIFT (ucast pd_index) in
                 Inr (out @ [Pd_line pd_index pt_addr pt_vaddr (ucast (pt_entry AND 0x1FF))])
               else Inr out) out
           else Inr out) out
       else Inr out) []"

definition vm_boot_dump :: "vm_boot \<Rightarrow> pml4_line list outcome" where
  "vm_boot_dump st = pml4_dump BOOT_PML4 st"

subsection \<open>The runs are the free list\<close>

text \<open>The pages of a run.\<close>

definition run_pages :: "u32 \<times> u32 \<Rightarrow> u32 list" where
  "run_pages r = map (\<lambda>k. fst r + of_nat k) [0..<unat (snd r)]"

lemma run_last_chain:
  assumes "chain (pg_nx ps) index (index # xs)" and "\<forall>i\<in>set (index # xs). unat i < length ps"
  shows "\<exists>l ys k. run_last index ps = Inr l \<and> index # xs = map (\<lambda>j. index + of_nat j) [0..<Suc k] @ ys \<and>
    l = index + of_nat k \<and> unat l = unat index + k \<and> chain (pg_nx ps) (pg_nx ps l) ys"
  using assms
proof (induction index ps arbitrary: xs rule: run_last.induct)
  case (1 index ps)
  have il: "unat index < length ps" using "1.prems"(2) by simp
  let ?n = "pg_next_free (ps ! unat index)"
  show ?case
  proof (cases "?n \<noteq> 0 \<and> ?n = index + 1")
    case True
    then obtain zs where xs: "xs = (index + 1) # zs" using "1.prems"(1) by (cases xs) (auto simp: pg_nx_def)
    have sub: "chain (pg_nx ps) (index + 1) ((index + 1) # zs)" using "1.prems"(1) by (simp add: xs)
    have un: "unat (index + 1) = Suc (unat index)" using True by (metis Suc_eq_plus1 add.commute unatSuc)
    have bnd: "\<forall>i\<in>set ((index + 1) # zs). unat i < length ps" using "1.prems"(2) by (simp add: xs)
    have g: "arr_get ps (unat index) = Inr (ps ! unat index)" using il by simp
    obtain l ys k where r: "run_last (index + 1) ps = Inr l"
      "(index + 1) # zs = map (\<lambda>j. index + 1 + of_nat j) [0..<Suc k] @ ys" "l = index + 1 + of_nat k"
      "unat l = unat (index + 1) + k" "chain (pg_nx ps) (pg_nx ps l) ys"
      using "1.IH" [OF g True sub bnd] by blast
    have "run_last index ps = Inr l" using r(1) True il by (subst run_last.simps) auto
    moreover have "index # xs = map (\<lambda>j. index + of_nat j) [0..<Suc (Suc k)] @ ys"
      unfolding xs r(2) by (subst upt_conv_Cons, simp, subst map_Suc_upt [symmetric]) (simp add: comp_def algebra_simps del: upt_Suc)
    ultimately show ?thesis using r(3-5) un
      by (intro exI [of _ l] exI [of _ ys] exI [of _ "Suc k"]) (simp add: algebra_simps)
  next
    case False
    then have "run_last index ps = Inr index" using il by (subst run_last.simps) auto
    then show ?thesis using "1.prems"(1) by (intro exI [of _ index] exI [of _ xs] exI [of _ 0]) simp
  qed
qed

lemma dump_free_result:
  assumes "chain (pg_nx ps) index xs" and "\<forall>i\<in>set xs. unat i < length ps"
  shows "\<exists>rs. dump_free_loop index ps out = Some (Inr (out @ rs)) \<and> concat (map run_pages rs) = xs \<and>
    (\<forall>r\<in>set rs. snd r \<noteq> 0)"
  using assms
proof (induction "length xs" arbitrary: index xs out rule: less_induct)
  case less
  show ?case
  proof (cases xs)
    case Nil
    then show ?thesis using less.prems by (subst dump_free_loop.simps) simp
  next
    case (Cons x zs)
    then have x: "x = index" "index \<noteq> 0" using less.prems(1) by auto
    obtain l ys k where r: "run_last index ps = Inr l" "xs = map (\<lambda>j. index + of_nat j) [0..<Suc k] @ ys"
      "l = index + of_nat k" "unat l = unat index + k" "chain (pg_nx ps) (pg_nx ps l) ys"
      using run_last_chain [of ps index zs] less.prems Cons x(1) by auto
    have shorter: "length ys < length xs" unfolding r(2) by simp
    have "l \<in> set xs" unfolding r(2) r(3) by auto
    then have ll: "unat l < length ps" using less.prems(2) by blast
    have "unat l < 2 ^ 32" using unsigned_less [of l] by simp
    then have k: "Suc k < 2 ^ 32" using r(4) x(2) unat_gt_0 [of index] by linarith
    have n: "(l + 1) - index = of_nat (Suc k)" unfolding r(3) by simp
    have un: "unat (of_nat (Suc k) :: u32) = Suc k" using k by (intro unat_of_nat_lt) simp
    then have nz: "(of_nat (Suc k) :: u32) \<noteq> 0" by (metis unat_0 nat.distinct(1))
    have "\<forall>i\<in>set ys. unat i < length ps" using less.prems(2) by (simp add: r(2))
    from less.hyps [OF shorter r(5) this] obtain rs where
      rs: "dump_free_loop (pg_nx ps l) ps (out @ [(index, of_nat (Suc k))]) = Some (Inr ((out @ [(index, of_nat (Suc k))]) @ rs))"
      "concat (map run_pages rs) = ys" "\<forall>r\<in>set rs. snd r \<noteq> 0" by blast
    have "dump_free_loop index ps out = dump_free_loop (pg_nx ps l) ps (out @ [(index, of_nat (Suc k))])"
      using x(2) ll nz unfolding n [symmetric]
      by (subst dump_free_loop.simps) (simp add: r(1) word_gt_0_iff_neq pg_nx_def Let_def)
    then show ?thesis using rs nz un r(2)
      by (intro exI [of _ "(index, of_nat (Suc k)) # rs"]) (simp add: run_pages_def)
  qed
qed

text \<open>
  \<^verbatim>\<open>page_db_dump_free_list\<close> returns on every well-formed database, and the runs it prints, none of them
  empty, are the free list in its order.
\<close>

lemma page_db_dump_free_list_result:
  assumes "pdb_invar pdb"
  shows "\<exists>rs. page_db_dump_free_list pdb = Some (Inr rs) \<and> concat (map run_pages rs) = free_pages pdb \<and>
    (\<forall>r\<in>set rs. snd r \<noteq> 0)"
proof -
  have "\<forall>i\<in>set (free_pages pdb). unat i < length (pdb_pages pdb)"
    using free_pages_mem [OF assms] pdb_invar_len [OF assms] by auto
  from dump_free_result [OF pdb_invar_chain [OF assms] this, of "[]"] show ?thesis
    by (simp add: page_db_dump_free_list_def)
qed

subsection \<open>The listed pages are the reserved pages\<close>

text \<open>The physical pages of the last-level lines, in order, and the reservation of a list of pages.\<close>

fun line_page :: "pml4_line \<Rightarrow> u32 option" where
  "line_page (Pd_line _ pt_addr _ _) = Some (ucast (drop_bit PAGE_2M_SHIFT pt_addr))"
| "line_page _ = None"

definition listed_pages :: "pml4_line list \<Rightarrow> u32 list" where
  "listed_pages out = List.map_filter line_page out"

primrec reserve_pages :: "u32 list \<Rightarrow> page_db_t \<Rightarrow> page_db_t outcome" where
  "reserve_pages [] pdb = Inr pdb"
| "reserve_pages (i # is) pdb = rbind (page_db_reserve_page pdb i) (reserve_pages is)"

lemma listed_pages_simps [simp]:
  "listed_pages [] = []"
  "listed_pages (xs @ ys) = listed_pages xs @ listed_pages ys"
  "listed_pages [Pml_line a b c d] = []"
  "listed_pages [Pdp_line a b c d] = []"
  "listed_pages [Pd_line i p v f] = [ucast (drop_bit PAGE_2M_SHIFT p)]"
  by (simp_all add: listed_pages_def List.map_filter_def)

lemma reserve_pages_append: "reserve_pages (xs @ ys) pdb = rbind (reserve_pages xs pdb) (reserve_pages ys)"
proof (induction xs arbitrary: pdb)
  case (Cons i xs)
  then show ?case by (cases "page_db_reserve_page pdb i") simp_all
qed simp

text \<open>
  Two loops over the same indices: one appends lines to its output, the other reserves pages. They agree
  if every round of the first lists the pages that the round of the second reserves.
\<close>

lemma for_up_listing:
  fixes a b :: "'w::len word"
  assumes "\<And>i out. \<exists>new. body i out = Inr (out @ new) \<and> (\<forall>pdb. body' i pdb = reserve_pages (listed_pages new) pdb)"
  shows "\<exists>new. for_up a b body out = Inr (out @ new) \<and> (\<forall>pdb. for_up a b body' pdb = reserve_pages (listed_pages new) pdb)"
  using assms
proof (induction a b body out rule: for_up.induct)
  case (1 a b body out)
  show ?case
  proof (cases "a < b")
    case True
    obtain new where n: "body a out = Inr (out @ new)" "\<forall>pdb. body' a pdb = reserve_pages (listed_pages new) pdb"
      using "1.prems" [of a out] by blast
    obtain more where m: "for_up (a + 1) b body (out @ new) = Inr ((out @ new) @ more)"
      "\<forall>pdb. for_up (a + 1) b body' pdb = reserve_pages (listed_pages more) pdb"
      using "1.IH" [OF True n(1) "1.prems"] by blast
    have "for_up a b body' pdb = reserve_pages (listed_pages (new @ more)) pdb" for pdb
      using True n(2) m(2) by (simp add: for_up_step reserve_pages_append cong: rbind_cong)
    then show ?thesis using True n(1) m(1) by (intro exI [of _ "new @ more"]) (simp add: for_up_step)
  next
    case False
    then show ?thesis by (intro exI [of _ "[]"]) (simp add: not_less)
  qed
qed

text \<open>The loop of one table: a line for the entry itself, then the lines of what it points to.\<close>

lemma listing_entry:
  assumes "listed_pages [line] = []"
    and "\<And>out. \<exists>new. inner out = Inr (out @ new) \<and> (\<forall>pdb. inner' pdb = reserve_pages (listed_pages new) pdb)"
  shows "\<exists>new. (if c then inner (out @ [line]) else Inr out) = Inr (out @ new) \<and>
    (\<forall>pdb. (if c then inner' pdb else Inr pdb) = reserve_pages (listed_pages new) pdb)"
proof (cases c)
  case True
  obtain new where n: "inner (out @ [line]) = Inr ((out @ [line]) @ new)"
    "\<forall>pdb. inner' pdb = reserve_pages (listed_pages new) pdb" using assms(2) by blast
  have "listed_pages (line # new) = listed_pages new"
    using assms(1) listed_pages_simps(2) [of "[line]" new] by simp
  then show ?thesis using n True by (intro exI [of _ "line # new"]) simp
qed (intro exI [of _ "[]"], simp)

text \<open>
  The page-table listing and \<^verbatim>\<open>vm_boot_sync\<close> walk the same tables: the listing always returns, and
  synchronising the page database with the boot tables is reserving exactly the pages listed at the last
  level, in the order of the listing.
\<close>

theorem vm_boot_sync_reserves_listed:
  "\<exists>out. vm_boot_dump st = Inr out \<and> vm_boot_sync st pdb = reserve_pages (listed_pages out) pdb"
proof -
  have "\<exists>new. vm_boot_dump st = Inr ([] @ new) \<and> (\<forall>pdb. vm_boot_sync st pdb = reserve_pages (listed_pages new) pdb)"
    unfolding vm_boot_dump_def pml4_dump_def vm_boot_sync_def Let_def
  proof (rule for_up_listing, rule listing_entry, simp, rule for_up_listing, rule listing_entry, simp, rule for_up_listing, goal_cases)
    case (1 i _ _ j _ _ k _)
    let ?e = "vb_mem st (entry_addr (PDIR_ADDR (vb_mem st (entry_addr (PDIR_ADDR (vb_mem st (entry_addr BOOT_PML4 i))) j))) k)"
    show ?case
      by (rule exI [of _ "if ?e \<noteq> 0 then [Pd_line k (PDIR_ADDR ?e) (push_bit PML_SHIFT (ucast i) + push_bit PDP_SHIFT (ucast j)
        + push_bit PAGE_2M_SHIFT (ucast k)) (ucast (?e AND 0x1FF))] else []"]) (cases "?e = 0"; simp add: rbind_def split: sum.split)
  qed
  then show ?thesis by auto
qed

subsection \<open>The slabs of a list\<close>

text \<open>A line for a slab: its address and its number of free chunks.\<close>

partial_function (option) dump_slabs :: "slab_heap \<Rightarrow> u64 \<Rightarrow> (u64 \<times> u16) list \<Rightarrow> (u64 \<times> u16) list outcome option" where
  "dump_slabs h s out =
     (if s \<noteq> 0 then
        (case get_slab h s of
           Inl e \<Rightarrow> Some (Inl e)
         | Inr sb \<Rightarrow> dump_slabs h (sb_next sb) (out @ [(s, sb_num_free sb)]))
      else Some (Inr out))"

record slab_listing =
  sd_owner :: "nat option"
  sd_chunk_size :: u32
  sd_size :: u32
  sd_free :: "(u64 \<times> u16) list"
  sd_used :: "(u64 \<times> u16) list"

definition slab_list_dump :: "nat \<Rightarrow> slab_heap \<Rightarrow> slab_listing outcome option" where
  "slab_list_dump l h =
     (case arr_get (sh_lists h) l of
        Inl e \<Rightarrow> Some (Inl e)
      | Inr sl \<Rightarrow>
          (case dump_slabs h (sl_free_slabs sl) [] of
             Some (Inr free) \<Rightarrow>
               (case dump_slabs h (sl_used_slabs sl) [] of
                  Some (Inr used) \<Rightarrow>
                    Some (Inr \<lparr>sd_owner = sl_owner sl, sd_chunk_size = push_bit (unat (sl_chunk_shift sl)) 1,
                      sd_size = push_bit (unat (sl_size_shift sl)) 1, sd_free = free, sd_used = used\<rparr>)
                | Some (Inl e) \<Rightarrow> Some (Inl e)
                | None \<Rightarrow> None)
           | Some (Inl e) \<Rightarrow> Some (Inl e)
           | None \<Rightarrow> None))"

definition slab_line :: "slab_heap \<Rightarrow> u64 \<Rightarrow> u64 \<times> u16" where
  "slab_line h a = (a, case sh_slabs h a of Some s \<Rightarrow> sb_num_free s | None \<Rightarrow> 0)"

lemma dump_slabs_chain: "pchain (links h) pp a xs \<Longrightarrow> dump_slabs h a out = Some (Inr (out @ map (slab_line h) xs))"
proof (induction xs arbitrary: pp a out)
  case Nil
  then show ?case by (simp add: dump_slabs.simps)
next
  case (Cons x xs)
  then obtain s where s: "a = x" "x \<noteq> 0" "sh_slabs h x = Some s" "pchain (links h) (SPSlab x) (sb_next s) xs"
    by (cases "sh_slabs h x") (auto simp: links_def [of h x])
  then show ?case using Cons.IH [OF s(4)] by (subst dump_slabs.simps) (simp add: get_slab_def slab_line_def)
qed

text \<open>On a slab list in order the listing returns and shows every slab of the two lists with its free chunks.\<close>

lemma slab_list_dump_lists:
  assumes "slab_list_rep h l fs us"
  shows "\<exists>d. slab_list_dump l h = Some (Inr d) \<and> sd_free d = map (slab_line h) fs \<and> sd_used d = map (slab_line h) us"
proof -
  have "l < length (sh_lists h)" "pchain (links h) (SPFree l) (sl_free_slabs (sh_lists h ! l)) fs"
    "pchain (links h) (SPUsed l) (sl_used_slabs (sh_lists h ! l)) us"
    using assms by (simp_all add: slab_list_rep_def two_lists_def head_get_def)
  then show ?thesis using dump_slabs_chain [of h _ _ fs "[]"] dump_slabs_chain [of h _ _ us "[]"] by (simp add: slab_list_dump_def)
qed

end
