(* ===== verification/Terminal.thy ===== *)
theory Terminal
  imports Smp Imps Listings
begin

text \<open>
  The kernel terminal \<^verbatim>\<open>kterm.c\<close>: the table of commands, the splitting of a command line into
  arguments, the commands, and the line editor that the terminal thread runs over the keyboard. Strings
  are byte lists that contain their terminator. Messages are left out; a command's effect is its effect
  on the kernel state. The listings take the page database and the memory with the firmware tables.
\<close>

definition cstring :: "string \<Rightarrow> u8 list" where
  "cstring s = map ch s @ [0]"

datatype kterm_cmd_fn =
    Cpu_show_cmd | Pmap_show_cmd | Io_apic_show_cmd | Ipi_test_cmd | Imps_show_cmd | Vm_boot_dump_cmd | Vm_page_dump_cmd
  | Fb_info_cmd

record kterm_cmd_t =
  kc_name :: "u8 list"
  kc_cmd_fn :: kterm_cmd_fn

definition MAX_KTERM_CMDS :: nat where "MAX_KTERM_CMDS = 16"

record kterm =
  commands :: "kterm_cmd_t list"
  num_commands :: u32

definition kterm_add_cmd :: "string \<Rightarrow> kterm_cmd_fn \<Rightarrow> kterm \<Rightarrow> kterm outcome" where
  "kterm_add_cmd name fn kt =
     check (unat (num_commands kt) < MAX_KTERM_CMDS) ''num_commands < MAX_KTERM_CMDS'' (
     rbind (arr_set (commands kt) (unat (num_commands kt)) \<lparr>kc_name = cstring name, kc_cmd_fn = fn\<rparr>) (\<lambda>tab.
     Inr (kt\<lparr>commands := tab, num_commands := num_commands kt + 1\<rparr>)))"

subsection \<open>Splitting a command line\<close>

text \<open>Positions in the array \<open>tmp\<close> stand for the pointers into it; \<open>args\<close> has 32 elements.\<close>

function skip_spaces :: "u8 list \<Rightarrow> nat \<Rightarrow> (u8 list \<times> nat) outcome" where
  "skip_spaces tmp p =
     (if p < length tmp then
        if tmp ! p \<noteq> 0 \<and> tmp ! p = 32 then skip_spaces (tmp[p := 0]) (p + 1) else Inr (tmp, p)
      else Inl OutOfBounds)"
  by pat_completeness auto
termination
  by (relation "measure (\<lambda>(tmp, p). length tmp - p)") auto

function skip_word :: "u8 list \<Rightarrow> nat \<Rightarrow> nat outcome" where
  "skip_word tmp p =
     (if p < length tmp then
        if tmp ! p \<noteq> 0 \<and> tmp ! p \<noteq> 32 then skip_word tmp (p + 1) else Inr p
      else Inl OutOfBounds)"
  by pat_completeness auto
termination
  by (relation "measure (\<lambda>(tmp, p). length tmp - p)") auto

declare skip_spaces.simps [simp del] skip_word.simps [simp del]

lemma skip_spaces_mono: "skip_spaces tmp p = Inr (tmp', p') \<Longrightarrow> length tmp' = length tmp \<and> p \<le> p' \<and> p' < length tmp \<and>
    (tmp ! p = 32 \<longrightarrow> p < p') \<and> (tmp ! p \<noteq> 32 \<longrightarrow> tmp' = tmp \<and> p' = p)"
proof (induction tmp p arbitrary: tmp' p' rule: skip_spaces.induct)
  case (1 tmp p)
  show ?case
  proof (cases "p < length tmp \<and> tmp ! p = 32")
    case True
    then have "skip_spaces (tmp[p := 0]) (p + 1) = Inr (tmp', p')" using "1.prems" by (subst (asm) skip_spaces.simps) simp
    from "1.IH" [OF _ _ this] True show ?thesis by auto
  next
    case False
    then show ?thesis using "1.prems" by (subst (asm) skip_spaces.simps) (auto split: if_splits)
  qed
qed

lemma skip_word_mono: "skip_word tmp p = Inr p' \<Longrightarrow> p \<le> p' \<and> (tmp ! p \<noteq> 0 \<and> tmp ! p \<noteq> 32 \<longrightarrow> p < p')"
proof (induction tmp p arbitrary: p' rule: skip_word.induct)
  case (1 tmp p)
  show ?case
  proof (cases "p < length tmp \<and> tmp ! p \<noteq> 0 \<and> tmp ! p \<noteq> 32")
    case True
    then have "skip_word tmp (p + 1) = Inr p'" using "1.prems" by (subst (asm) skip_word.simps) simp
    from "1.IH" [OF _ _ this] True show ?thesis by auto
  next
    case False
    then show ?thesis using "1.prems" by (subst (asm) skip_word.simps) (auto split: if_splits)
  qed
qed

definition MAX_ARGS :: nat where "MAX_ARGS = 32"

function kterm_split :: "u8 list \<Rightarrow> nat \<Rightarrow> nat list \<Rightarrow> (u8 list \<times> nat list) outcome" where
  "kterm_split tmp p args =
     rbind (arr_get tmp p) (\<lambda>c.
     if c \<noteq> 0 then
       rbind (skip_spaces tmp p) (\<lambda>(tmp', p1).
       if length args < MAX_ARGS then
         rbind (skip_word tmp' p1) (\<lambda>p2. kterm_split tmp' p2 (args @ [p1]))
       else Inl OutOfBounds)
     else Inr (tmp, args))"
  by pat_completeness auto
termination
proof (relation "measure (\<lambda>(tmp, p, _). length tmp - p)", simp, goal_cases)
  case (1 tmp p args c x tmp' p1 p2)
  then have c: "p < length tmp" "c = tmp ! p" by (simp_all add: arr_get_Inr_iff)
  have s: "length tmp' = length tmp" "p \<le> p1" "tmp ! p = 32 \<longrightarrow> p < p1" "tmp ! p \<noteq> 32 \<longrightarrow> tmp' = tmp \<and> p1 = p"
    using 1 skip_spaces_mono [of tmp p tmp' p1] by auto
  have "p1 \<le> p2" "tmp' ! p1 \<noteq> 0 \<and> tmp' ! p1 \<noteq> 32 \<longrightarrow> p1 < p2" using 1 skip_word_mono [of tmp' p1 p2] by auto
  then have "p < p2" using s 1(2) c(2) by (cases "tmp ! p = 32") auto
  then show ?case using s(1) c(1) by simp
qed

declare kterm_split.simps [simp del]

text \<open>\<^verbatim>\<open>strcmp(name, tmp + a)\<close>.\<close>

definition str_eq :: "u8 list \<Rightarrow> u8 list \<Rightarrow> nat \<Rightarrow> bool outcome" where
  "str_eq name tmp a = rbind (strcmp name (drop a tmp)) (\<lambda>k. Inr (k = 0))"

function kterm_lookup :: "kterm \<Rightarrow> u32 \<Rightarrow> u8 list \<Rightarrow> nat \<Rightarrow> kterm_cmd_fn option outcome" where
  "kterm_lookup kt i tmp a =
     (if i < num_commands kt then
        rbind (arr_get (commands kt) (unat i)) (\<lambda>cmd.
        rbind (str_eq (kc_name cmd) tmp a) (\<lambda>eq.
        if eq then Inr (Some (kc_cmd_fn cmd)) else kterm_lookup kt (i + 1) tmp a))
      else Inr None)"
  by pat_completeness auto
termination
  by (relation "measure (\<lambda>(kt, i, _). unat (num_commands kt) - unat i)") (auto simp: unat_plus1 unat_less_iff)

declare kterm_lookup.simps [simp del]

text \<open>
  What \<^verbatim>\<open>kterm_exec\<close> calls: the command with the array and the positions of its arguments, or nothing
  when it only prints that the command is unknown. \<open>tmp\<close> is the local array as it is found.
\<close>

definition kterm_parse :: "u8 list \<Rightarrow> u8 list \<Rightarrow> kterm \<Rightarrow> (kterm_cmd_fn \<times> u8 list \<times> nat list) option outcome" where
  "kterm_parse tmp str kt =
     rbind (strcpy tmp str) (\<lambda>tmp.
     rbind (kterm_split tmp 0 []) (\<lambda>(tmp, args).
     case args of
       [] \<Rightarrow> Inr None
     | a # _ \<Rightarrow> rbind (kterm_lookup kt 0 tmp a) (\<lambda>r. Inr (map_option (\<lambda>fn. (fn, tmp, args)) r))))"

subsection \<open>The commands\<close>

definition pmap_show_cmd :: "kernel \<Rightarrow> (u64 \<times> u64 \<times> u32) list outcome" where
  "pmap_show_cmd k =
     (let boot_info = ks_boot (sys_kernel (kn_sys k)) in
      for_up 0 (bi_num_mmap boot_info) (\<lambda>i out.
        rbind (arr_get (bi_mmap boot_info) (unat i)) (\<lambda>m. Inr (out @ [(mm_addr m, mm_size m, mm_flags m)]))) [])"

definition io_apic_show_cmd :: "kernel \<Rightarrow> u64 \<times> u32 \<times> u32 \<times> u32 \<times> u32" where
  "io_apic_show_cmd k =
     (let a = io_apic (kn_apics k) in (io_apic_addr a, ia_id a, ia_ver a, num_redtbl a, gsi_base a))"

definition local_apic_show_cmd :: "kernel \<Rightarrow> kernel" where
  "local_apic_show_cmd k = k"

definition ipi_test_cmd :: "device \<Rightarrow> u8 list \<Rightarrow> nat list \<Rightarrow> kernel \<Rightarrow> kernel outcome" where
  "ipi_test_cmd dev tmp argv k =
     (if length argv > 1 then
        rbind (str_eq (cstring ''-self'') tmp (argv ! 1)) (\<lambda>self.
        rbind (if self then Inr (Some ICR_SELF)
               else rbind (str_eq (cstring ''-bcast'') tmp (argv ! 1)) (\<lambda>bcast.
                 if bcast then Inr (Some ICR_ALL_EXCLUDING_SELF)
                 else rbind (str_eq (cstring ''-all'') tmp (argv ! 1)) (\<lambda>all.
                   Inr (if all then Some ICR_ALL_INCLUDING_SELF else None)))) (\<lambda>shorthand.
        case shorthand of
          None \<Rightarrow> Inr k
        | Some s \<Rightarrow>
            rbind (if s = ICR_SELF then local_apic_ipi_self dev 0xf0 (sy_rflags (kn_sys k)) (kn_apics k)
                   else if s = ICR_ALL_EXCLUDING_SELF
                     then local_apic_ipi_broadcast dev 0xf0 (sy_rflags (kn_sys k)) (kn_apics k)
                   else local_apic_ipi_all dev 0xf0 (sy_rflags (kn_sys k)) (kn_apics k)) (\<lambda>(rflags, ap).
            Inr (k\<lparr>kn_sys := (kn_sys k)\<lparr>sy_rflags := rflags\<rparr>, kn_apics := ap\<rparr>))))
      else Inr k)"

text \<open>A listing that does not end keeps the terminal thread busy for ever.\<close>

definition listing :: "'a outcome option \<Rightarrow> kernel \<Rightarrow> kernel outcome" where
  "listing r k = (case r of None \<Rightarrow> Inl Spin | Some r \<Rightarrow> rbind r (\<lambda>_. Inr k))"

definition vm_boot_dump_cmd :: "kernel \<Rightarrow> pml4_line list outcome" where
  "vm_boot_dump_cmd k = vm_boot_dump (ks_vm (sys_kernel (kn_sys k)))"

definition vm_page_dump_cmd :: "page_db_t \<Rightarrow> u8 list \<Rightarrow> nat list \<Rightarrow> kernel \<Rightarrow> kernel outcome" where
  "vm_page_dump_cmd pdb tmp argv k =
     (if length argv > 1 then
        rbind (str_eq (cstring ''-r'') tmp (argv ! 1)) (\<lambda>r.
        if r then listing (page_db_dump_ranges pdb) k
        else rbind (str_eq (cstring ''-f'') tmp (argv ! 1)) (\<lambda>f.
          if f then listing (page_db_dump_free_list pdb) k else Inr k))
      else Inr k)"

definition fb_info_cmd :: "kernel \<Rightarrow> u64 \<times> u32 \<times> u32 \<times> u32 \<times> u32" where
  "fb_info_cmd k =
     (let b = ks_boot (sys_kernel (kn_sys k)) in (bi_fb_addr b, bi_fb_pitch b, bi_fb_width b, bi_fb_height b, bi_fb_bpp b))"

text \<open>What the commands read besides the kernel state: the page database and the memory of the firmware tables.\<close>

record cmd_env =
  ce_page_db :: page_db_t
  ce_memory :: bmem

definition kterm_call :: "cmd_env \<Rightarrow> device \<Rightarrow> kterm_cmd_fn \<Rightarrow> u8 list \<Rightarrow> nat list \<Rightarrow> kernel \<Rightarrow> kernel outcome" where
  "kterm_call env dev fn tmp args k =
     (case fn of
        Cpu_show_cmd \<Rightarrow> rbind (cpu_show_cmd k) (\<lambda>(_, k). Inr k)
      | Pmap_show_cmd \<Rightarrow> rbind (pmap_show_cmd k) (\<lambda>_. Inr k)
      | Io_apic_show_cmd \<Rightarrow> Inr k
      | Ipi_test_cmd \<Rightarrow> ipi_test_cmd dev tmp args k
      | Imps_show_cmd \<Rightarrow> listing (imps_show_cmd (ce_memory env)) k
      | Vm_boot_dump_cmd \<Rightarrow> rbind (vm_boot_dump_cmd k) (\<lambda>_. Inr k)
      | Vm_page_dump_cmd \<Rightarrow> vm_page_dump_cmd (ce_page_db env) tmp args k
      | Fb_info_cmd \<Rightarrow> Inr k)"

definition kterm_exec :: "cmd_env \<Rightarrow> device \<Rightarrow> u8 list \<Rightarrow> u8 list \<Rightarrow> kterm \<Rightarrow> kernel \<Rightarrow> kernel outcome" where
  "kterm_exec env dev tmp str kt k =
     rbind (kterm_parse tmp str kt) (\<lambda>r.
     case r of None \<Rightarrow> Inr k | Some (fn, tmp, args) \<Rightarrow> kterm_call env dev fn tmp args k)"

text \<open>\<open>run\<close>, \<open>isr_ret\<close> and \<open>start\<close> are the addresses of \<^verbatim>\<open>kterm_run\<close>, \<^verbatim>\<open>_isr_ret\<close> and \<^verbatim>\<open>thread_start\<close>.\<close>

definition kterm_start :: "u64 \<Rightarrow> u64 \<Rightarrow> u64 \<Rightarrow> kterm \<Rightarrow> kernel \<Rightarrow> (kterm \<times> kernel) outcome" where
  "kterm_start isr_ret start run kt k =
     rbind (kterm_add_cmd ''cpu'' Cpu_show_cmd kt) (\<lambda>kt.
     rbind (kterm_add_cmd ''pmap'' Pmap_show_cmd kt) (\<lambda>kt.
     rbind (kterm_add_cmd ''io_apic'' Io_apic_show_cmd kt) (\<lambda>kt.
     rbind (kterm_add_cmd ''ipi'' Ipi_test_cmd kt) (\<lambda>kt.
     rbind (kterm_add_cmd ''imps'' Imps_show_cmd kt) (\<lambda>kt.
     rbind (kterm_add_cmd ''vm_boot'' Vm_boot_dump_cmd kt) (\<lambda>kt.
     rbind (kterm_add_cmd ''vm_page'' Vm_page_dump_cmd kt) (\<lambda>kt.
     rbind (kterm_add_cmd ''fb_info'' Fb_info_cmd kt) (\<lambda>kt.
     rbind (thread_create isr_ret start run 0x4000 1 (kn_sys k)) (\<lambda>(_, st).
     Inr (kt, k\<lparr>kn_sys := st\<rparr>))))))))))"

subsection \<open>The line editor\<close>

definition MAX_CMD_LINE :: nat where "MAX_CMD_LINE = 256"
definition MAX_TEMP_BUF :: nat where "MAX_TEMP_BUF = 64"

text \<open>The local variables of \<^verbatim>\<open>kterm_run\<close>; \<open>ln_p\<close> is \<^verbatim>\<open>p - tmp\<close>.\<close>

record line =
  cmd_line :: "u8 list"
  cmd_pos :: nat
  ln_tmp :: "u8 list"
  ln_p :: nat

definition kterm_char ::
  "cmd_env \<Rightarrow> device \<Rightarrow> u8 list \<Rightarrow> kterm \<Rightarrow> u8 \<Rightarrow> line \<times> kernel \<Rightarrow> (line \<times> kernel) outcome" where
  "kterm_char env dev junk kt c s =
     (case s of (ln, k) \<Rightarrow>
      if c = 13 then
        if cmd_pos ln > 0 then
          rbind (arr_set (cmd_line ln) (cmd_pos ln) 0) (\<lambda>buf.
          rbind (kterm_exec env dev junk buf kt k) (\<lambda>k.
          Inr (ln\<lparr>cmd_line := buf, cmd_pos := 0, ln_p := 0\<rparr>, k)))
        else Inr (ln\<lparr>ln_p := 0\<rparr>, k)
      else if c = 8 then
        if cmd_pos ln > 0 then
          rbind (arr_set (cmd_line ln) (cmd_pos ln - 1) 0) (\<lambda>buf.
          Inr (ln\<lparr>cmd_line := buf, cmd_pos := cmd_pos ln - 1\<rparr>, k))
        else Inr (ln, k)
      else
        rbind (arr_set (ln_tmp ln) (ln_p ln) c) (\<lambda>tmp.
        rbind (arr_set (cmd_line ln) (cmd_pos ln) c) (\<lambda>buf.
        Inr (ln\<lparr>ln_tmp := tmp, ln_p := ln_p ln + 1, cmd_line := buf, cmd_pos := cmd_pos ln + 1\<rparr>, k))))"

primrec kterm_chars ::
  "cmd_env \<Rightarrow> device \<Rightarrow> u8 list \<Rightarrow> kterm \<Rightarrow> u8 list \<Rightarrow> line \<times> kernel \<Rightarrow> (line \<times> kernel) outcome" where
  "kterm_chars env dev junk kt [] s = Inr s"
| "kterm_chars env dev junk kt (c # cs) s = rbind (kterm_char env dev junk kt c s) (kterm_chars env dev junk kt cs)"

text \<open>
  One round of the loop of \<^verbatim>\<open>kterm_run\<close>. The flag tells that the thread has stopped in \<^verbatim>\<open>kbd_read\<close>; with
  characters, it handles them and terminates the echoed text.
\<close>

definition kterm_round ::
  "cmd_env \<Rightarrow> device \<Rightarrow> u8 list \<Rightarrow> kterm \<Rightarrow> line \<times> kernel \<Rightarrow> (bool \<times> line \<times> kernel) outcome" where
  "kterm_round env dev junk kt s =
     (case s of (ln, k) \<Rightarrow>
      rbind (kbd_read (kn_kbd k) (kn_sys k)) (\<lambda>(out, kbd, st).
      let k = k\<lparr>kn_kbd := kbd, kn_sys := st\<rparr> in
      case out of
        None \<Rightarrow> Inr (True, ln, k)
      | Some cs \<Rightarrow>
          rbind (kterm_chars env dev junk kt cs (ln\<lparr>ln_p := 0\<rparr>, k)) (\<lambda>(ln, k).
          rbind (if ln_p ln > 0 then arr_set (ln_tmp ln) (ln_p ln) 0 else Inr (ln_tmp ln)) (\<lambda>tmp.
          Inr (False, ln\<lparr>ln_tmp := tmp\<rparr>, k)))))"

definition kterm_run_start :: "u8 list \<Rightarrow> line" where
  "kterm_run_start junk = \<lparr>cmd_line = replicate MAX_CMD_LINE 0, cmd_pos = 0, ln_tmp = junk, ln_p = 0\<rparr>"

subsection \<open>Tokens\<close>

text \<open>
  The tokens of a line as the code cuts it: after each run of spaces a maximal run of other characters,
  also when the line ends there. \<open>words\<close> is the usual notion.
\<close>

function tokens :: "u8 list \<Rightarrow> u8 list list" where
  "tokens s =
     (if s = [] then []
      else let t = dropWhile (\<lambda>c. c = 32) s in takeWhile (\<lambda>c. c \<noteq> 32) t # tokens (dropWhile (\<lambda>c. c \<noteq> 32) t))"
  by pat_completeness auto
termination
proof (relation "measure length", simp, goal_cases)
  case (1 s t)
  show ?case
  proof (cases "hd s = 32")
    case True
    then have "length t < length s" using 1 length_dropWhile_le [of "\<lambda>c. c = 32" "tl s"] by (cases s) auto
    then show ?thesis using length_dropWhile_le [of "\<lambda>c. c \<noteq> 32" t] by simp
  next
    case False
    then show ?thesis using 1 length_dropWhile_le [of "\<lambda>c. c \<noteq> 32" "tl s"] by (cases s) auto
  qed
qed

declare tokens.simps [simp del]

function words :: "u8 list \<Rightarrow> u8 list list" where
  "words s =
     (let t = dropWhile (\<lambda>c. c = 32) s in
      if t = [] then [] else takeWhile (\<lambda>c. c \<noteq> 32) t # words (dropWhile (\<lambda>c. c \<noteq> 32) t))"
  by pat_completeness auto
termination
proof (relation "measure length", simp, goal_cases)
  case (1 s t)
  then have "hd t \<noteq> 32" using hd_dropWhile [of "\<lambda>c. c = 32" s] by auto
  then have "length (dropWhile (\<lambda>c. c \<noteq> 32) t) < length t"
    using 1(2) length_dropWhile_le [of "\<lambda>c. c \<noteq> 32" "tl t"] by (cases t) auto
  then show ?case using 1(1) length_dropWhile_le [of "\<lambda>c. c = 32" s] by simp
qed

declare words.simps [simp del]

lemma tokens_Nil [simp]: "tokens [] = []"
  by (subst tokens.simps) simp

lemma last_dropWhile: "dropWhile P xs \<noteq> [] \<Longrightarrow> last (dropWhile P xs) = last xs"
  by (induction xs) auto

lemma dropWhile_Nil_last: "dropWhile P xs = [] \<Longrightarrow> xs \<noteq> [] \<Longrightarrow> P (last xs)"
  by (auto simp: dropWhile_eq_Nil_conv)

definition after_spaces :: "u8 list \<Rightarrow> u8 list" where
  "after_spaces s = dropWhile (\<lambda>c. c = 32) s"

definition after_word :: "u8 list \<Rightarrow> u8 list" where
  "after_word s = dropWhile (\<lambda>c. c \<noteq> 32) s"

lemma tokens_step: "s \<noteq> [] \<Longrightarrow> tokens s = takeWhile (\<lambda>c. c \<noteq> 32) (after_spaces s) # tokens (after_word (after_spaces s))"
  by (subst tokens.simps) (simp add: Let_def after_spaces_def after_word_def)

lemma words_step:
  "words s = (if after_spaces s = [] then [] else takeWhile (\<lambda>c. c \<noteq> 32) (after_spaces s) # words (after_word (after_spaces s)))"
  unfolding after_spaces_def after_word_def by (subst words.simps) (simp only: Let_def)

lemma tokens_cases [case_names Nil Step]:
  assumes "s = [] \<Longrightarrow> P" and "s \<noteq> [] \<Longrightarrow> length (after_word (after_spaces s)) < length s \<Longrightarrow> P"
  shows P
proof (cases s)
  case (Cons c cs)
  have "length (after_word (after_spaces s)) < length s"
  proof (cases "c = 32")
    case True
    then show ?thesis using Cons length_dropWhile_le [of "\<lambda>c. c = 32" cs] length_dropWhile_le [of "\<lambda>c. c \<noteq> 32" "after_spaces cs"]
      by (simp add: after_spaces_def after_word_def)
  next
    case False
    then show ?thesis using Cons length_dropWhile_le [of "\<lambda>c. c \<noteq> 32" cs] by (simp add: after_spaces_def after_word_def)
  qed
  then show ?thesis using assms(2) Cons by simp
qed (use assms in simp)

lemma after_word_shape: "after_word t = [] \<or> hd (after_word t) = 32"
  unfolding after_word_def using hd_dropWhile [of "\<lambda>c. c \<noteq> 32" t] by blast

lemma after_spaces_shape: "after_spaces s = [] \<or> hd (after_spaces s) \<noteq> 32"
  unfolding after_spaces_def using hd_dropWhile [of "\<lambda>c. c = 32" s] by blast

lemma last_after:
  "after_spaces s = [] \<Longrightarrow> s \<noteq> [] \<Longrightarrow> last s = 32" "after_spaces s \<noteq> [] \<Longrightarrow> last (after_spaces s) = last s"
  "after_word t = [] \<Longrightarrow> t \<noteq> [] \<Longrightarrow> last t \<noteq> 32" "after_word t \<noteq> [] \<Longrightarrow> last (after_word t) = last t"
  unfolding after_spaces_def after_word_def
  using dropWhile_Nil_last [of "\<lambda>c. c = 32" s] last_dropWhile [of "\<lambda>c. c = 32" s]
    dropWhile_Nil_last [of "\<lambda>c. c \<noteq> 32" t] last_dropWhile [of "\<lambda>c. c \<noteq> 32" t] by blast+

lemma tokens_words: "tokens s = words s @ (if s \<noteq> [] \<and> last s = 32 then [[]] else [])"
proof (induction "length s" arbitrary: s rule: less_induct)
  case less
  show ?case
  proof (cases s rule: tokens_cases)
    case Nil
    then show ?thesis by (simp add: words_step after_spaces_def)
  next
    case Step
    let ?t = "after_spaces s" and ?u = "after_word (after_spaces s)"
    have IH: "tokens ?u = words ?u @ (if ?u \<noteq> [] \<and> last ?u = 32 then [[]] else [])" by (rule less [OF Step(2)])
    show ?thesis
    proof (cases "?t = []")
      case True
      then have "tokens s = [[]]" using tokens_step [OF Step(1)] by (simp add: after_word_def)
      then show ?thesis using True last_after(1) [OF True Step(1)] Step(1) by (simp add: words_step)
    next
      case False
      have "(?u \<noteq> [] \<and> last ?u = 32) = (s \<noteq> [] \<and> last s = 32)"
        using last_after(2) [OF False] last_after(3,4) [of ?t] False Step(1) by (cases "?u = []") simp_all
      then show ?thesis using IH False tokens_step [OF Step(1)] by (simp add: words_step [of s])
    qed
  qed
qed

lemma tokens_length: "2 * length (tokens s) \<le> length s + 2 \<and> (s \<noteq> [] \<and> hd s = 32 \<longrightarrow> 2 * length (tokens s) \<le> length s + 1)"
proof (induction "length s" arbitrary: s rule: less_induct)
  case less
  show ?case
  proof (cases s rule: tokens_cases)
    case Step
    let ?t = "after_spaces s" and ?u = "after_word (after_spaces s)"
    have eq: "length (tokens s) = Suc (length (tokens ?u))" using tokens_step [OF Step(1)] by simp
    have ts: "length ?t \<le> length s" "hd s = 32 \<longrightarrow> length ?t < length s"
      using Step(1) length_dropWhile_le [of "\<lambda>c. c = 32" s] length_dropWhile_le [of "\<lambda>c. c = 32" "tl s"]
      by (cases s; simp add: after_spaces_def)+
    show ?thesis
    proof (cases "?u = []")
      case True
      have "1 \<le> length s" using Step(1) by (cases s) simp_all
      then show ?thesis using eq True by simp
    next
      case False
      then have "2 * length (tokens ?u) \<le> length ?u + 1" using less [OF Step(2)] after_word_shape [of ?t] by blast
      moreover have t: "?t \<noteq> []" using False by (auto simp: after_word_def)
      moreover have "length ?u < length ?t"
        using t after_spaces_shape [of s] length_dropWhile_le [of "\<lambda>c. c \<noteq> 32" "tl ?t"] by (cases ?t) (simp_all add: after_word_def)
      ultimately show ?thesis using eq ts by linarith
    qed
  qed simp
qed

text \<open>The string at a position: what a C routine reads there.\<close>

definition cstr :: "u8 list \<Rightarrow> nat \<Rightarrow> u8 list" where
  "cstr buf a = takeWhile (\<lambda>c. c \<noteq> 0) (drop a buf)"

definition terminated :: "u8 list \<Rightarrow> nat \<Rightarrow> bool" where
  "terminated buf a \<longleftrightarrow> (\<exists>b. a \<le> b \<and> b < length buf \<and> buf ! b = 0)"

lemma skip_spaces_result:
  assumes "drop p tmp = sp @ t" and "\<forall>c\<in>set sp. c = 32" and "t \<noteq> []" and "hd t \<noteq> 32"
  shows "skip_spaces tmp p = Inr (take p tmp @ replicate (length sp) 0 @ t, p + length sp)"
  using assms
proof (induction sp arbitrary: tmp p)
  case Nil
  then have "p < length tmp" by (metis append_Nil drop_eq_Nil leI)
  moreover have "tmp ! p = hd t" using Nil calculation by (metis append_Nil hd_drop_conv_nth)
  moreover have "take p tmp @ t = tmp" using Nil by (metis append_Nil append_take_drop_id)
  ultimately show ?case using Nil by (subst skip_spaces.simps) simp
next
  case (Cons c sp)
  have lt: "p < length tmp" using Cons.prems(1) by (metis append_Cons drop_eq_Nil leI list.distinct(1))
  have c: "tmp ! p = 32" using Cons.prems(1,2) lt by (metis append_Cons hd_drop_conv_nth list.sel(1) list.set_intros(1))
  have "drop (Suc p) tmp = sp @ t" using Cons.prems(1) by (metis append_Cons drop_Suc list.sel(3) tl_drop)
  then have d: "drop (Suc p) (tmp[p := 0]) = sp @ t" by simp
  have "skip_spaces tmp p = skip_spaces (tmp[p := 0]) (Suc p)" using lt c by (subst skip_spaces.simps) simp
  also have "\<dots> = Inr (take (Suc p) (tmp[p := 0]) @ replicate (length sp) 0 @ t, Suc p + length sp)"
    by (rule Cons.IH [OF d]) (use Cons.prems in simp_all)
  also have "take (Suc p) (tmp[p := 0]) = take p tmp @ [0]" using lt by (simp add: take_Suc_conv_app_nth)
  finally show ?case by simp
qed

lemma skip_word_result:
  assumes "drop p tmp = w @ t" and "\<forall>c\<in>set w. c \<noteq> 0 \<and> c \<noteq> 32" and "t \<noteq> []" and "hd t = 0 \<or> hd t = 32"
  shows "skip_word tmp p = Inr (p + length w)"
  using assms
proof (induction w arbitrary: p)
  case Nil
  then have "p < length tmp" by (metis append_Nil drop_eq_Nil leI)
  moreover have "tmp ! p = hd t" using Nil calculation by (metis append_Nil hd_drop_conv_nth)
  ultimately show ?case using Nil by (subst skip_word.simps) auto
next
  case (Cons c w)
  have lt: "p < length tmp" using Cons.prems(1) by (metis append_Cons drop_eq_Nil leI list.distinct(1))
  have c: "tmp ! p \<noteq> 0" "tmp ! p \<noteq> 32"
    using Cons.prems(1,2) lt by (metis append_Cons hd_drop_conv_nth list.sel(1) list.set_intros(1))+
  have d: "drop (Suc p) tmp = w @ t" using Cons.prems(1) by (metis append_Cons drop_Suc list.sel(3) tl_drop)
  have "skip_word tmp p = skip_word tmp (Suc p)" using lt c by (subst skip_word.simps) simp
  also have "\<dots> = Inr (Suc p + length w)" by (rule Cons.IH [OF d]) (use Cons.prems in simp_all)
  finally show ?case by simp
qed

lemma cstr_prefix:
  assumes "take q buf = take q buf'" and "buf' = pre @ w @ rest" and "length pre = a" and "q = a + length w" and "0 \<notin> set w"
    and "q < length buf" and "buf ! q = 0"
  shows "cstr buf a = w"
proof -
  have "take q buf = pre @ w" using assms by simp
  then have "buf = pre @ w @ drop q buf" by (metis append_assoc append_take_drop_id)
  moreover have "drop q buf = 0 # drop (Suc q) buf" using assms(6,7) by (metis Cons_nth_drop_Suc)
  ultimately have "drop a buf = w @ 0 # drop (Suc q) buf" using assms(3) by (metis append_eq_conv_conj)
  then show ?thesis using assms(5) unfolding cstr_def by (simp add: takeWhile_append)
qed

lemma split_line: "s = replicate (length s - length (after_spaces s)) 32 @ takeWhile (\<lambda>c. c \<noteq> 32) (after_spaces s) @ after_word (after_spaces s)"
proof -
  have "s = takeWhile (\<lambda>c. c = 32) s @ after_spaces s" by (simp add: after_spaces_def)
  moreover have "takeWhile (\<lambda>c. c = 32) s = replicate (length (takeWhile (\<lambda>c. c = 32) s)) 32"
    by (rule replicate_eqI) (auto dest: set_takeWhileD)
  moreover have "length (takeWhile (\<lambda>c. c = 32) s) = length s - length (after_spaces s)"
    using calculation(1) by (metis add_diff_cancel_right' length_append)
  moreover have "after_spaces s = takeWhile (\<lambda>c. c \<noteq> 32) (after_spaces s) @ after_word (after_spaces s)" by (simp add: after_word_def)
  ultimately show ?thesis by metis
qed

lemma drop_terminated: "drop p tmp = s @ 0 # r \<Longrightarrow> p < length tmp \<and> tmp ! p = hd (s @ [0])"
proof -
  assume d: "drop p tmp = s @ 0 # r"
  then have lt: "p < length tmp" by (cases "p < length tmp") simp_all
  have "tmp ! p = hd (drop p tmp)" using lt by (simp add: hd_drop_conv_nth)
  then show ?thesis using lt d by (cases s) simp_all
qed

lemma kterm_split_step:
  assumes d0: "drop p tmp = s @ 0 # r" and z: "0 \<notin> set s" and ne: "s \<noteq> []" and room: "length args < MAX_ARGS"
  obtains n w u where "tokens s = w # tokens u" "length u < length s" "0 \<notin> set w" "0 \<notin> set u" "u = [] \<or> hd u = 32"
    "length (take p tmp @ replicate n 0 @ w @ u @ 0 # r) = length tmp" "hd s = 32 \<longrightarrow> n \<noteq> 0"
    "kterm_split tmp p args =
       kterm_split (take p tmp @ replicate n 0 @ w @ u @ 0 # r) (p + n + length w) (args @ [p + n])"
proof -
  define n where "n = length s - length (after_spaces s)"
  define w where "w = takeWhile (\<lambda>c. c \<noteq> 32) (after_spaces s)"
  define u where "u = after_word (after_spaces s)"
  have s: "s = replicate n 32 @ w @ u" unfolding n_def w_def u_def by (rule split_line)
  have w32: "\<forall>c\<in>set w. c \<noteq> 32" unfolding w_def by (auto dest: set_takeWhileD)
  have zs: "0 \<notin> set w" "0 \<notin> set u" using z unfolding s by simp_all
  have u: "u = [] \<or> hd u = 32" unfolding u_def by (rule after_word_shape)
  have w0: "w = [] \<Longrightarrow> u = []"
    using after_spaces_shape [of s] unfolding w_def u_def after_word_def by (cases "after_spaces s") auto
  have lu: "length u < length s" using ne by (cases s rule: tokens_cases) (simp_all add: u_def)
  let ?t1 = "take p tmp @ replicate n 0 @ w @ u @ 0 # r"
  have lt: "p < length tmp" and at: "tmp ! p = hd (s @ [0])" using drop_terminated [OF d0] by simp_all
  have d: "drop p tmp = replicate n 32 @ (w @ u @ 0 # r)" unfolding d0 by (subst s) simp
  have h: "hd (w @ u @ 0 # r) \<noteq> 32" using w0 w32 by (cases w) auto
  have sk: "skip_spaces tmp p = Inr (?t1, p + n)" using skip_spaces_result [OF d _ _ h] by simp
  have l1: "length ?t1 = length tmp" using arg_cong [OF d, of length] lt by simp
  have d1: "drop (p + n) ?t1 = w @ (u @ 0 # r)" using lt by simp
  have h1: "hd (u @ 0 # r) = 0 \<or> hd (u @ 0 # r) = 32" using u by (cases u) auto
  have w1: "\<forall>c\<in>set w. c \<noteq> 0 \<and> c \<noteq> 32" using w32 zs(1) by auto
  have wd: "skip_word ?t1 (p + n) = Inr (p + n + length w)" by (rule skip_word_result [OF d1 w1 _ h1]) simp
  have c0: "tmp ! p \<noteq> 0" using at ne z by (cases s) auto
  have "kterm_split tmp p args = kterm_split ?t1 (p + n + length w) (args @ [p + n])"
    using lt c0 room by (subst kterm_split.simps) (simp only: arr_get_in rbind_simps if_True not_False_eq_True simp_thms sk prod.case wd)
  moreover have "tokens s = w # tokens u" using tokens_step [OF ne] by (simp add: w_def u_def)
  moreover have "n \<noteq> 0" if "hd s = 32"
  proof
    assume n: "n = 0"
    then have "w \<noteq> []" using s ne w0 by auto
    then have "hd s \<in> set w" using s n by (cases w) simp_all
    then show False using that w32 by auto
  qed
  ultimately show ?thesis using that [of w u n] lu zs u l1 by blast
qed

lemma kterm_split_result:
  assumes "drop p tmp = s @ 0 # r" and "0 \<notin> set s" and "length args + length (tokens s) \<le> MAX_ARGS"
  shows "\<exists>tmp' offs. kterm_split tmp p args = Inr (tmp', args @ offs) \<and> length tmp' = length tmp \<and> take p tmp' = take p tmp \<and>
    map (cstr tmp') offs = tokens s \<and> (\<forall>a\<in>set offs. terminated tmp' a) \<and> (s = [] \<or> hd s = 32 \<longrightarrow> tmp' ! p = 0)"
  using assms
proof (induction "length s" arbitrary: s p tmp args rule: less_induct)
  case less
  have lt: "p < length tmp" and at: "tmp ! p = hd (s @ [0])" using drop_terminated [OF less.prems(1)] by simp_all
  show ?case
  proof (cases "s = []")
    case True
    then show ?thesis using lt at by (subst kterm_split.simps) simp
  next
    case ne: False
    have "tokens s \<noteq> []" using tokens_step [OF ne] by simp
    then have room: "length args < MAX_ARGS" using less.prems(3) by (cases "tokens s") simp_all
    obtain n w u where st: "tokens s = w # tokens u" "length u < length s" "0 \<notin> set w" "0 \<notin> set u" "u = [] \<or> hd u = 32"
      "length (take p tmp @ replicate n 0 @ w @ u @ 0 # r) = length tmp" "hd s = 32 \<longrightarrow> n \<noteq> 0"
      "kterm_split tmp p args = kterm_split (take p tmp @ replicate n 0 @ w @ u @ 0 # r) (p + n + length w) (args @ [p + n])"
      by (rule kterm_split_step [OF less.prems(1,2) ne room])
    define t1 where "t1 = take p tmp @ replicate n 0 @ w @ u @ 0 # r"
    define q where "q = p + n + length w"
    have d2: "drop q t1 = u @ 0 # r" using lt by (simp add: t1_def q_def)
    have "length (args @ [p + n]) + length (tokens u) \<le> MAX_ARGS" using less.prems(3) st(1) by simp
    from less.hyps [OF st(2) d2 st(4) this] obtain tmp' offs where IH: "kterm_split t1 q (args @ [p + n]) = Inr (tmp', (args @ [p + n]) @ offs)"
      "length tmp' = length t1" "take q tmp' = take q t1" "map (cstr tmp') offs = tokens u" "\<forall>a\<in>set offs. terminated tmp' a"
      "u = [] \<or> hd u = 32 \<longrightarrow> tmp' ! q = 0" by blast
    have l1: "length tmp' = length tmp" using IH(2) st(6) by (simp add: t1_def)
    have q: "q < length tmp'" using IH(2) drop_terminated [OF d2] by simp
    have "cstr tmp' (p + n) = w"
      by (rule cstr_prefix [OF IH(3), of "take p tmp @ replicate n 0" w "u @ 0 # r"])
        (use lt st(3,5) q IH(6) in \<open>simp_all add: t1_def q_def\<close>)
    moreover have same: "tmp' ! i = t1 ! i" if "i < q" for i using nth_take [OF that, of tmp'] nth_take [OF that, of t1] IH(3) by simp
    have "take p tmp' = take p tmp"
    proof (rule nth_equalityI)
      fix i assume "i < length (take p tmp')"
      then have "i < p" "i < q" by (simp_all add: q_def)
      then show "take p tmp' ! i = take p tmp ! i" using same [of i] lt by (simp add: t1_def nth_append)
    qed (use l1 in simp)
    moreover have "tmp' ! p = 0" if "hd s = 32" using st(7) that same [of p] lt by (simp add: t1_def q_def nth_append)
    moreover have "terminated tmp' (p + n)" using q IH(6) st(5) unfolding terminated_def by (intro exI [of _ q]) (simp add: q_def)
    moreover have "kterm_split tmp p args = Inr (tmp', args @ (p + n) # offs)" using st(8) IH(1) by (simp add: t1_def q_def)
    ultimately show ?thesis using IH(4,5) st(1) l1 ne by (intro exI [of _ tmp'] exI [of _ "(p + n) # offs"]) simp
  qed
qed

subsection \<open>Looking a command up\<close>

lemma terminated_cstr:
  assumes "terminated buf a"
  shows "\<exists>r. drop a buf = cstr buf a @ 0 # r \<and> 0 \<notin> set (cstr buf a)"
proof -
  let ?d = "dropWhile (\<lambda>c. c \<noteq> 0) (drop a buf)"
  obtain b where b: "a \<le> b" "b < length buf" "buf ! b = 0" using assms by (auto simp: terminated_def)
  then have "drop a buf ! (b - a) = 0" "b - a < length (drop a buf)" by simp_all
  then have "0 \<in> set (drop a buf)" by (metis nth_mem)
  then have ne: "?d \<noteq> []" by (simp add: dropWhile_eq_Nil_conv)
  have "hd ?d = 0" using hd_dropWhile [OF ne] by simp
  then have "?d = 0 # tl ?d" using list.collapse [OF ne] by simp
  moreover have "drop a buf = cstr buf a @ ?d" unfolding cstr_def by simp
  ultimately have "drop a buf = cstr buf a @ 0 # tl ?d" by simp
  moreover have "0 \<notin> set (cstr buf a)" unfolding cstr_def by (auto dest: set_takeWhileD)
  ultimately show ?thesis by blast
qed

lemma str_eq_cstr:
  assumes "terminated name 0" and "terminated buf a"
  shows "str_eq name buf a = Inr (cstr name 0 = cstr buf a)"
proof -
  obtain r q where "name = cstr name 0 @ 0 # r" "0 \<notin> set (cstr name 0)" "drop a buf = cstr buf a @ 0 # q" "0 \<notin> set (cstr buf a)"
    using terminated_cstr [OF assms(1)] terminated_cstr [OF assms(2)] by auto
  then have "\<exists>k. strcmp name (drop a buf) = Inr k \<and> (k = 0 \<longleftrightarrow> cstr name 0 = cstr buf a)"
    using strcmp_cstr [of "cstr name 0" "cstr buf a" r q] by auto
  then show ?thesis by (auto simp: str_eq_def)
qed

text \<open>The registered commands as an association list.\<close>

definition command_table :: "kterm \<Rightarrow> (u8 list \<times> kterm_cmd_fn) list" where
  "command_table kt = map (\<lambda>c. (cstr (kc_name c) 0, kc_cmd_fn c)) (take (unat (num_commands kt)) (commands kt))"

definition kterm_wf :: "kterm \<Rightarrow> bool" where
  "kterm_wf kt \<longleftrightarrow> unat (num_commands kt) \<le> MAX_KTERM_CMDS \<and> length (commands kt) = MAX_KTERM_CMDS \<and>
     (\<forall>c\<in>set (take (unat (num_commands kt)) (commands kt)). terminated (kc_name c) 0)"

lemma kterm_lookup_result:
  assumes "kterm_wf kt" and "terminated tmp a"
  shows "kterm_lookup kt i tmp a = Inr (map_of (drop (unat i) (command_table kt)) (cstr tmp a))"
  using assms
proof (induction kt i tmp a rule: kterm_lookup.induct)
  case (1 kt i tmp a)
  show ?case
  proof (cases "i < num_commands kt")
    case True
    let ?c = "commands kt ! unat i"
    have il: "unat i < unat (num_commands kt)" "unat i < length (commands kt)"
      using True "1.prems"(1) by (simp_all add: unat_less_iff kterm_wf_def)
    have mem: "?c \<in> set (take (unat (num_commands kt)) (commands kt))"
      using il by (auto simp: in_set_conv_nth intro!: exI [of _ "unat i"])
    then have eq: "str_eq (kc_name ?c) tmp a = Inr (cstr (kc_name ?c) 0 = cstr tmp a)"
      using "1.prems" by (intro str_eq_cstr) (auto simp: kterm_wf_def)
    have d: "drop (unat i) (command_table kt) = (cstr (kc_name ?c) 0, kc_cmd_fn ?c) # drop (Suc (unat i)) (command_table kt)"
      using il unfolding command_table_def by (subst Cons_nth_drop_Suc [symmetric]) simp_all
    have u: "unat (i + 1) = Suc (unat i)" using True by (rule unat_plus1)
    have g: "arr_get (commands kt) (unat i) = Inr ?c" using il by simp
    show ?thesis
    proof (cases "cstr (kc_name ?c) 0 = cstr tmp a")
      case same: True
      then show ?thesis using True eq g unfolding d by (subst kterm_lookup.simps) simp
    next
      case other: False
      from "1.IH" [OF True g eq this "1.prems"] show ?thesis
        using True eq g other unfolding d u by (subst kterm_lookup.simps) simp
    qed
  next
    case False
    then have "length (command_table kt) \<le> unat i" by (simp add: command_table_def unat_less_iff min.coboundedI2)
    then show ?thesis using False by (subst kterm_lookup.simps) simp
  qed
qed

text \<open>
  C28. The command interpreter: a line of fewer than 64 characters is split into its tokens without running
  over the 64-byte copy or the 32 argument slots, every argument is terminated and reads as its token, and
  the command called is the first registered one whose name is the first token; a line with no such command
  calls nothing. A longer line overruns the copy.
\<close>

theorem kterm_parse_spec:
  assumes "kterm_wf kt" and "length tmp = 64" and "0 \<notin> set s"
  shows "if length s < 64
    then \<exists>tmp' args. map (cstr tmp') args = tokens s \<and> (\<forall>a\<in>set args. terminated tmp' a) \<and> length args \<le> MAX_ARGS \<and>
      kterm_parse tmp (s @ 0 # r) kt =
        Inr (if s = [] then None else map_option (\<lambda>fn. (fn, tmp', args)) (map_of (command_table kt) (hd (tokens s))))
    else kterm_parse tmp (s @ 0 # r) kt = Inl OutOfBounds"
proof (cases "length s < 64")
  case True
  let ?t = "s @ 0 # drop (Suc (length s)) tmp"
  have cp: "strcpy tmp (s @ 0 # r) = Inr ?t" using strcpy_fits [OF assms(3)] True assms(2) by simp
  have len: "length (tokens s) \<le> MAX_ARGS" using tokens_length [of s] True by (simp add: MAX_ARGS_def)
  then obtain tmp' args where sp: "kterm_split ?t 0 [] = Inr (tmp', args)" "map (cstr tmp') args = tokens s"
    "\<forall>a\<in>set args. terminated tmp' a"
    using kterm_split_result [of 0 ?t s "drop (Suc (length s)) tmp" "[]"] assms(3) by auto
  have l: "length args \<le> MAX_ARGS" using len arg_cong [OF sp(2), of length] by simp
  have "kterm_parse tmp (s @ 0 # r) kt =
      Inr (if s = [] then None else map_option (\<lambda>fn. (fn, tmp', args)) (map_of (command_table kt) (hd (tokens s))))"
  proof (cases args)
    case Nil
    then have "tokens s = []" using sp(2) by simp
    then have "s = []" using tokens_step [of s] by (cases "s = []") simp_all
    then show ?thesis using cp sp(1) Nil by (simp add: kterm_parse_def)
  next
    case (Cons a as)
    then have a: "terminated tmp' a" "cstr tmp' a = hd (tokens s)" "s \<noteq> []" using sp(2) [symmetric] sp(3) by auto
    have "kterm_lookup kt 0 tmp' a = Inr (map_of (command_table kt) (hd (tokens s)))"
      using kterm_lookup_result [OF assms(1) a(1), of 0] a(2) by simp
    then show ?thesis using cp sp(1) Cons a(3) by (simp add: kterm_parse_def)
  qed
  then show ?thesis using True sp l by auto
next
  case False
  then show ?thesis using strcpy_overflows [OF assms(3), of tmp r] assms(2) by (simp add: kterm_parse_def)
qed

definition demo_kterm :: kterm where
  "demo_kterm = \<lparr>commands = [\<lparr>kc_name = cstring ''cpu'', kc_cmd_fn = Cpu_show_cmd\<rparr>, \<lparr>kc_name = cstring ''ipi'', kc_cmd_fn = Ipi_test_cmd\<rparr>] @
     replicate 14 \<lparr>kc_name = [], kc_cmd_fn = Cpu_show_cmd\<rparr>, num_commands = 2\<rparr>"

lemma demo_kterm_wf: "kterm_wf demo_kterm"
proof -
  have "terminated (cstring ''cpu'') 0" "terminated (cstring ''ipi'') 0"
    unfolding terminated_def cstring_def by (rule exI [of _ 3], simp)+
  then show ?thesis by (simp add: kterm_wf_def demo_kterm_def MAX_KTERM_CMDS_def)
qed

lemma demo_kterm_table: "map_of (command_table demo_kterm) [105, 112, 105] = Some Ipi_test_cmd"
  by (simp add: command_table_def demo_kterm_def cstring_def cstr_def ch_def)

lemma demo_tokens: "tokens [105, 112, 105, 32, 45, 97] = [[105, 112, 105], [45, 97]]"
  by (simp add: tokens_step after_spaces_def after_word_def)

theorem kterm_parse_spec_witness:
  "\<exists>tmp' args. map (cstr tmp') args = [[105, 112, 105], [45, 97]] \<and>
     kterm_parse (replicate 64 0) [105, 112, 105, 32, 45, 97, 0] demo_kterm = Inr (Some (Ipi_test_cmd, tmp', args))"
proof -
  have h: "length (replicate 64 (0 :: u8)) = 64" "0 \<notin> set [105, 112, 105, 32, 45, 97 :: u8]" by simp_all
  show ?thesis using kterm_parse_spec [OF demo_kterm_wf h, of "[]"] by (auto simp: demo_tokens demo_kterm_table)
qed

subsection \<open>The line editor\<close>

text \<open>
  The editor without arrays: the line typed so far and the lines that have been entered. A carriage return
  enters a line that is not empty, a backspace takes the last character away.
\<close>

definition type_char :: "u8 list \<times> u8 list list \<Rightarrow> u8 \<Rightarrow> u8 list \<times> u8 list list" where
  "type_char s c =
     (case s of (l, entered) \<Rightarrow>
      if c = 13 then (if l = [] then (l, entered) else ([], entered @ [l]))
      else if c = 8 then (butlast l, entered)
      else (l @ [c], entered))"

primrec exec_lines :: "cmd_env \<Rightarrow> device \<Rightarrow> u8 list \<Rightarrow> kterm \<Rightarrow> u8 list list \<Rightarrow> kernel \<Rightarrow> kernel outcome" where
  "exec_lines env dev junk kt [] k = Inr k"
| "exec_lines env dev junk kt (s # ss) k = rbind (kterm_exec env dev junk (s @ [0]) kt k) (exec_lines env dev junk kt ss)"

definition line_is :: "line \<Rightarrow> u8 list \<Rightarrow> bool" where
  "line_is ln l \<longleftrightarrow> length (cmd_line ln) = MAX_CMD_LINE \<and> length (ln_tmp ln) = MAX_TEMP_BUF \<and>
     cmd_pos ln = length l \<and> take (length l) (cmd_line ln) = l \<and> 0 \<notin> set l"

lemma type_char_acc: "foldl type_char (l, es) cs = (fst (foldl type_char (l, []) cs), es @ snd (foldl type_char (l, []) cs))"
proof (induction cs arbitrary: l es)
  case (Cons c cs)
  have "type_char (l, es) c = (fst (type_char (l, []) c), es @ snd (type_char (l, []) c))" by (simp add: type_char_def)
  then show ?case
    using Cons [of "fst (type_char (l, []) c)" "es @ snd (type_char (l, []) c)"]
      Cons [of "fst (type_char (l, []) c)" "snd (type_char (l, []) c)"] by simp
qed simp

lemma strcpy_rest:
  assumes "0 \<notin> set s"
  shows "strcpy tmp (s @ 0 # r) = strcpy tmp (s @ [0])"
  using strcpy_fits [OF assms] strcpy_overflows [OF assms] by (cases "length s < length tmp") (simp_all add: not_less)

lemma kterm_exec_line:
  assumes "line_is ln l" and "length l < MAX_CMD_LINE"
  shows "kterm_exec env dev junk ((cmd_line ln)[length l := 0]) kt k = kterm_exec env dev junk (l @ [0]) kt k"
proof -
  have "(cmd_line ln)[length l := 0] = take (length l) (cmd_line ln) @ 0 # drop (Suc (length l)) (cmd_line ln)"
    using assms by (intro upd_conv_take_nth_drop) (simp add: line_is_def)
  then have "(cmd_line ln)[length l := 0] = l @ 0 # drop (Suc (length l)) (cmd_line ln)" using assms by (simp add: line_is_def)
  then show ?thesis using strcpy_rest [of l junk "drop (Suc (length l)) (cmd_line ln)"] assms(1) by (simp add: kterm_exec_def kterm_parse_def line_is_def)
qed

lemma kterm_char_step:
  assumes "line_is ln l" and "length l + 1 < MAX_CMD_LINE" and "ln_p ln < MAX_TEMP_BUF" and "c \<noteq> 0"
  shows "\<exists>ln'. line_is ln' (fst (type_char (l, []) c)) \<and> ln_p ln' \<le> ln_p ln + 1 \<and>
    kterm_char env dev junk kt c (ln, k) =
      rbind (exec_lines env dev junk kt (snd (type_char (l, []) c)) k) (\<lambda>k. Inr (ln', k))"
proof -
  have li: "length (cmd_line ln) = MAX_CMD_LINE" "length (ln_tmp ln) = MAX_TEMP_BUF" "cmd_pos ln = length l"
    "take (length l) (cmd_line ln) = l" "0 \<notin> set l" using assms(1) by (simp_all add: line_is_def)
  consider (enter) "c = 13" "l \<noteq> []" | (empty) "c = 13" "l = []" | (bs) "c = 8" "l \<noteq> []" | (none) "c = 8" "l = []"
    | (char) "c \<noteq> 13" "c \<noteq> 8" by blast
  then show ?thesis
  proof cases
    case enter
    let ?ln = "ln\<lparr>cmd_line := (cmd_line ln)[length l := 0], cmd_pos := 0, ln_p := 0\<rparr>"
    have "line_is ?ln []" using li by (simp add: line_is_def)
    moreover have "kterm_char env dev junk kt c (ln, k) = rbind (kterm_exec env dev junk (l @ [0]) kt k) (\<lambda>k. Inr (?ln, k))"
      using enter li assms(2) kterm_exec_line [OF assms(1)] by (simp add: kterm_char_def)
    ultimately show ?thesis using enter
      by (intro exI [of _ ?ln]) (cases "kterm_exec env dev junk (l @ [0]) kt k"; simp add: type_char_def)
  next
    case empty
    then show ?thesis using li by (intro exI [of _ "ln\<lparr>ln_p := 0\<rparr>"]) (simp add: kterm_char_def type_char_def line_is_def)
  next
    case bs
    let ?ln = "ln\<lparr>cmd_line := (cmd_line ln)[length l - 1 := 0], cmd_pos := length l - 1\<rparr>"
    have "take (length l - 1) (cmd_line ln) = butlast l" using li(4) by (metis butlast_conv_take min.absorb1 diff_le_self take_take)
    moreover have "0 \<notin> set (butlast l)" using li(5) by (meson in_set_butlastD)
    ultimately have "line_is ?ln (butlast l)" using li by (simp add: line_is_def)
    then show ?thesis using bs li assms(2) by (intro exI [of _ ?ln]) (simp add: kterm_char_def type_char_def)
  next
    case none
    then show ?thesis using li assms(1) by (intro exI [of _ ln]) (simp add: kterm_char_def type_char_def)
  next
    case char
    let ?ln = "ln\<lparr>ln_tmp := (ln_tmp ln)[ln_p ln := c], ln_p := ln_p ln + 1, cmd_line := (cmd_line ln)[length l := c], cmd_pos := length l + 1\<rparr>"
    have "line_is ?ln (l @ [c])" using li assms(2,4) by (simp add: line_is_def take_Suc_conv_app_nth)
    then show ?thesis using char li assms(2,3) by (intro exI [of _ ?ln]) (simp add: kterm_char_def type_char_def)
  qed
qed

lemma type_char_length: "length (fst (type_char (l, []) c)) \<le> length l + 1"
  by (auto simp: type_char_def)

lemma exec_lines_append: "exec_lines env dev junk kt (xs @ ys) k = rbind (exec_lines env dev junk kt xs k) (exec_lines env dev junk kt ys)"
proof (induction xs arbitrary: k)
  case (Cons s xs)
  then show ?case by (cases "kterm_exec env dev junk (s @ [0]) kt k") simp_all
qed simp

lemma kterm_chars_result:
  assumes "line_is ln l" and "length l + length cs < MAX_CMD_LINE" and "ln_p ln + length cs \<le> n" and "n < MAX_TEMP_BUF" and "0 \<notin> set cs"
  shows "\<exists>ln'. line_is ln' (fst (foldl type_char (l, []) cs)) \<and> ln_p ln' \<le> n \<and>
    kterm_chars env dev junk kt cs (ln, k) =
      rbind (exec_lines env dev junk kt (snd (foldl type_char (l, []) cs)) k) (\<lambda>k. Inr (ln', k))"
  using assms
proof (induction cs arbitrary: ln l k)
  case (Cons c cs)
  let ?l = "fst (type_char (l, []) c)" and ?e = "snd (type_char (l, []) c)"
  have fl: "foldl type_char (l, []) (c # cs) = (fst (foldl type_char (?l, []) cs), ?e @ snd (foldl type_char (?l, []) cs))"
    using type_char_acc [of ?l ?e cs] by simp
  have "\<exists>ln'. line_is ln' ?l \<and> ln_p ln' \<le> ln_p ln + 1 \<and>
      kterm_char env dev junk kt c (ln, k) = rbind (exec_lines env dev junk kt ?e k) (\<lambda>k. Inr (ln', k))"
    by (rule kterm_char_step [OF Cons.prems(1)]) (use Cons.prems in simp_all)
  then obtain ln1 where s1: "line_is ln1 ?l" "ln_p ln1 \<le> ln_p ln + 1"
    "kterm_char env dev junk kt c (ln, k) = rbind (exec_lines env dev junk kt ?e k) (\<lambda>k. Inr (ln1, k))" by blast
  have len: "length ?l + length cs < MAX_CMD_LINE" "ln_p ln1 + length cs \<le> n" "0 \<notin> set cs"
    using Cons.prems(2,3,5) type_char_length [of l c] s1(2) by simp_all
  note IH = Cons.IH [OF s1(1) len(1,2) Cons.prems(4) len(3)]
  show ?case
  proof (cases "exec_lines env dev junk kt ?e k")
    case (Inl f)
    then show ?thesis using IH [of k] s1(3) unfolding fl by (auto simp: exec_lines_append)
  next
    case (Inr k1)
    then show ?thesis using IH [of k1] s1(3) unfolding fl by (auto simp: exec_lines_append)
  qed
qed auto


definition typed_kbd :: keyboard_t where
  "typed_kbd = demo_kbd\<lparr>kb_write_pos := 16, kb_buf := (replicate KBD_BUFSIZE 0)[14 := 25, 15 := 28]\<rparr>"

lemma typed_kbd_queue: "kbd_queue typed_kbd [25, 28]" "kb_lock typed_kbd = 0"
proof -
  have "kb_buf typed_kbd ! ((14 + i) mod KBD_BUFSIZE) = [25, 28] ! i" if "i < 2" for i
  proof -
    have "i = 0 \<or> i = 1" using that by auto
    then show ?thesis by (auto simp: typed_kbd_def KBD_BUFSIZE_def)
  qed
  then show "kbd_queue typed_kbd [25, 28]" "kb_lock typed_kbd = 0"
    by (simp_all add: kbd_queue_def typed_kbd_def demo_kbd_def KBD_BUFSIZE_def)
qed

lemma typed_kbd_decode: "kbd_decode typed_kbd 25 = Inr 112" "kbd_decode typed_kbd 28 = Inr 13"
  by (simp_all add: kbd_decode_def typed_kbd_def demo_kbd_def normal_def ch_def)


end
