(* ===== verification/Multiboot.thy ===== *)
theory Multiboot
  imports Firmware
begin

text \<open>
  The boot information that the boot loader passes (\<^verbatim>\<open>multiboot.c\<close>): a sequence of tags in memory, from
  which \<^verbatim>\<open>multiboot_init\<close> fills the fields of \<^verbatim>\<open>boot_info_t\<close> and which \<^verbatim>\<open>multiboot_show\<close> lists. Tags are
  read by field offset. The command line is copied to the characters that follow the structure; the length
  of \<^verbatim>\<open>cmd_line\<close> is the room there. The walk over the tags ends at the end tag or never, the walk over the
  memory map ends because at most 32 regions are accepted.
\<close>

definition MULTIBOOT2_BOOTLOADER_MAGIC :: u32 where "MULTIBOOT2_BOOTLOADER_MAGIC = 0x36d76289"
definition MULTIBOOT_TAG_TYPE_END :: u32 where "MULTIBOOT_TAG_TYPE_END = 0"
definition MULTIBOOT_TAG_TYPE_CMDLINE :: u32 where "MULTIBOOT_TAG_TYPE_CMDLINE = 1"
definition MULTIBOOT_TAG_TYPE_BOOT_LOADER_NAME :: u32 where "MULTIBOOT_TAG_TYPE_BOOT_LOADER_NAME = 2"
definition MULTIBOOT_TAG_TYPE_BASIC_MEMINFO :: u32 where "MULTIBOOT_TAG_TYPE_BASIC_MEMINFO = 4"
definition MULTIBOOT_TAG_TYPE_MMAP :: u32 where "MULTIBOOT_TAG_TYPE_MMAP = 6"
definition MULTIBOOT_TAG_TYPE_FRAMEBUFFER :: u32 where "MULTIBOOT_TAG_TYPE_FRAMEBUFFER = 8"
definition MULTIBOOT_MEMORY_AVAILABLE :: u32 where "MULTIBOOT_MEMORY_AVAILABLE = 1"

lemmas multiboot_consts = MULTIBOOT2_BOOTLOADER_MAGIC_def MULTIBOOT_TAG_TYPE_END_def MULTIBOOT_TAG_TYPE_CMDLINE_def
  MULTIBOOT_TAG_TYPE_BOOT_LOADER_NAME_def MULTIBOOT_TAG_TYPE_BASIC_MEMINFO_def MULTIBOOT_TAG_TYPE_MMAP_def
  MULTIBOOT_TAG_TYPE_FRAMEBUFFER_def MULTIBOOT_MEMORY_AVAILABLE_def

text \<open>The fields of the tags.\<close>

definition tag_type :: "bmem \<Rightarrow> u64 \<Rightarrow> u32" where "tag_type m tag = rd32 m tag"
definition tag_size :: "bmem \<Rightarrow> u64 \<Rightarrow> u32" where "tag_size m tag = rd32 m (tag + 4)"
definition tag_string :: "u64 \<Rightarrow> u64" where "tag_string tag = tag + 8"
definition mmap_entry_size :: "bmem \<Rightarrow> u64 \<Rightarrow> u32" where "mmap_entry_size m tag = rd32 m (tag + 8)"
definition mmap_entries :: "u64 \<Rightarrow> u64" where "mmap_entries tag = tag + 16"

definition next_tag :: "bmem \<Rightarrow> u64 \<Rightarrow> u64" where
  "next_tag m tag = tag + ucast ((tag_size m tag + 7) AND NOT 7)"

subsection \<open>The listing\<close>

text \<open>A printed line; strings are printed from their address.\<close>

datatype mb_line =
    Mb_size u32
  | Mb_tag u32 u32
  | Mb_cmd_line u64
  | Mb_bootloader u64
  | Mb_meminfo u32 u32
  | Mb_fb u64 u32 u32 u8 u32 u8
  | Mb_region u64 u64 u32

definition multiboot_show_fb :: "bmem \<Rightarrow> u64 \<Rightarrow> mb_line" where
  "multiboot_show_fb m fb_tag =
     Mb_fb (rd64 m (fb_tag + 8)) (rd32 m (fb_tag + 20)) (rd32 m (fb_tag + 24)) (m (fb_tag + 28)) (rd32 m (fb_tag + 16)) (m (fb_tag + 29))"

partial_function (option) show_mmap_loop :: "bmem \<Rightarrow> u64 \<Rightarrow> u64 \<Rightarrow> mb_line list \<Rightarrow> mb_line list option" where
  "show_mmap_loop m mmap e out =
     (if e < mmap + ucast (tag_size m mmap) then
        show_mmap_loop m mmap (e + ucast (mmap_entry_size m mmap)) (out @ [Mb_region (rd64 m e) (rd64 m (e + 8)) (rd32 m (e + 16))])
      else Some out)"

definition multiboot_show_mmap :: "bmem \<Rightarrow> u64 \<Rightarrow> mb_line list \<Rightarrow> mb_line list option" where
  "multiboot_show_mmap m mmap out = show_mmap_loop m mmap (mmap_entries mmap) out"

definition show_tag :: "bmem \<Rightarrow> u64 \<Rightarrow> mb_line list \<Rightarrow> mb_line list option" where
  "show_tag m tag out =
     (let ty = tag_type m tag in
      if ty = MULTIBOOT_TAG_TYPE_CMDLINE then Some (out @ [Mb_cmd_line (tag_string tag)])
      else if ty = MULTIBOOT_TAG_TYPE_BOOT_LOADER_NAME then Some (out @ [Mb_bootloader (tag_string tag)])
      else if ty = MULTIBOOT_TAG_TYPE_BASIC_MEMINFO then Some (out @ [Mb_meminfo (rd32 m (tag + 8)) (rd32 m (tag + 12))])
      else if ty = MULTIBOOT_TAG_TYPE_FRAMEBUFFER then Some (out @ [multiboot_show_fb m tag])
      else if ty = MULTIBOOT_TAG_TYPE_MMAP then multiboot_show_mmap m tag out
      else Some out)"

partial_function (option) show_tags :: "bmem \<Rightarrow> u64 \<Rightarrow> mb_line list \<Rightarrow> mb_line list option" where
  "show_tags m tag out =
     (if tag_type m tag \<noteq> MULTIBOOT_TAG_TYPE_END then
        (case show_tag m tag (out @ [Mb_tag (tag_type m tag) (tag_size m tag)]) of
           None \<Rightarrow> None
         | Some out' \<Rightarrow> show_tags m (next_tag m tag) out')
      else Some out)"

definition multiboot_show :: "bmem \<Rightarrow> boot_info_t \<Rightarrow> mb_line list option" where
  "multiboot_show m bi =
     (if bi_mb_magic bi = MULTIBOOT2_BOOTLOADER_MAGIC then
        let mb_size = rd32 m (KERNEL_VADDR (ucast (bi_mb_addr bi))) in
        show_tags m (KERNEL_VADDR (ucast (bi_mb_addr bi + 8))) [Mb_size mb_size]
      else Some [])"

subsection \<open>Filling the boot information\<close>

definition byte_char :: "u8 \<Rightarrow> char" where
  "byte_char b = char_of (unat b)"

function copy_cmdline :: "bmem \<Rightarrow> u64 \<Rightarrow> nat \<Rightarrow> string \<Rightarrow> string outcome" where
  "copy_cmdline m s p buf =
     (if m s \<noteq> 0 then rbind (arr_set buf p (byte_char (m s))) (\<lambda>buf. copy_cmdline m (s + 1) (p + 1) buf)
      else arr_set buf p (byte_char 0))"
  by pat_completeness auto
termination
  by (relation "measure (\<lambda>(_, _, p, buf). length buf - p)") (auto simp: arr_set_Inr_iff)

declare copy_cmdline.simps [simp del]

definition multiboot_cmdline :: "bmem \<Rightarrow> u64 \<Rightarrow> boot_info_t \<Rightarrow> boot_info_t outcome" where
  "multiboot_cmdline m str bi =
     rbind (copy_cmdline m (tag_string str) 0 (bi_cmd_line bi)) (\<lambda>buf. Inr (bi\<lparr>bi_cmd_line := buf\<rparr>))"

definition multiboot_framebuffer :: "bmem \<Rightarrow> u64 \<Rightarrow> boot_info_t \<Rightarrow> boot_info_t" where
  "multiboot_framebuffer m fb bi =
     bi\<lparr>bi_fb_addr := rd64 m (fb + 8), bi_fb_pitch := rd32 m (fb + 16), bi_fb_width := rd32 m (fb + 20),
        bi_fb_height := rd32 m (fb + 24), bi_fb_bpp := ucast (m (fb + 28)), bi_fb_type := ucast (m (fb + 29))\<rparr>"

definition multiboot_meminfo :: "bmem \<Rightarrow> u64 \<Rightarrow> boot_info_t \<Rightarrow> boot_info_t" where
  "multiboot_meminfo m meminfo bi =
     (let mem_lower = ucast (rd32 m (meminfo + 8)) * 1024;
          mem_upper = ucast (rd32 m (meminfo + 12)) * 1024 in
      bi\<lparr>bi_memory_size := mem_lower + mem_upper\<rparr>)"

lemma check_cong [fundef_cong]: "b = b' \<Longrightarrow> (b' \<Longrightarrow> k = k') \<Longrightarrow> check b msg k = check b' msg k'"
  by (cases b') simp_all

function mmap_loop :: "bmem \<Rightarrow> u64 \<Rightarrow> u64 \<Rightarrow> boot_info_t \<Rightarrow> boot_info_t outcome" where
  "mmap_loop m mmap e bi =
     (if e < mmap + ucast (tag_size m mmap) then
        check (unat (bi_num_mmap bi) < BOOT_INFO_MMAP_MAX) ''boot_info->num_mmap < BOOT_INFO_MMAP_MAX'' (
        let addr = rd64 m e; len = rd64 m (e + 8); available = (rd32 m (e + 16) = MULTIBOOT_MEMORY_AVAILABLE) in
        rbind (arr_set (bi_mmap bi) (unat (bi_num_mmap bi)) \<lparr>mm_addr = addr, mm_size = len, mm_flags = (if available then 1 else 0)\<rparr>) (\<lambda>tab.
        mmap_loop m mmap (e + ucast (mmap_entry_size m mmap))
          (bi\<lparr>bi_num_mmap := bi_num_mmap bi + 1, bi_mmap := tab,
              bi_mmap_top := (if available \<and> addr + len > bi_mmap_top bi then addr + len else bi_mmap_top bi)\<rparr>)))
      else Inr bi)"
  by pat_completeness auto
termination
proof (relation "measure (\<lambda>(_, _, _, bi). BOOT_INFO_MMAP_MAX - unat (bi_num_mmap bi))", simp, goal_cases)
  case (1 m mmap e bi x xa xb xc)
  then have lt: "unat (bi_num_mmap bi) < 32" by (simp add: BOOT_INFO_MMAP_MAX_def)
  then have "bi_num_mmap bi < 32" by (simp add: unat_less_iff)
  then have "unat (bi_num_mmap bi + 1) = Suc (unat (bi_num_mmap bi))" by (rule unat_plus1)
  then show ?case using lt by (simp add: BOOT_INFO_MMAP_MAX_def)
qed

declare mmap_loop.simps [simp del]

definition multiboot_mmap :: "bmem \<Rightarrow> u64 \<Rightarrow> boot_info_t \<Rightarrow> boot_info_t outcome" where
  "multiboot_mmap m mmap bi = mmap_loop m mmap (mmap_entries mmap) (bi\<lparr>bi_num_mmap := 0, bi_mmap_top := 0\<rparr>)"

definition multiboot_tag :: "bmem \<Rightarrow> u64 \<Rightarrow> boot_info_t \<Rightarrow> boot_info_t outcome" where
  "multiboot_tag m tag bi =
     (let ty = tag_type m tag in
      if ty = MULTIBOOT_TAG_TYPE_CMDLINE then multiboot_cmdline m tag bi
      else if ty = MULTIBOOT_TAG_TYPE_BASIC_MEMINFO then Inr (multiboot_meminfo m tag bi)
      else if ty = MULTIBOOT_TAG_TYPE_FRAMEBUFFER then Inr (multiboot_framebuffer m tag bi)
      else if ty = MULTIBOOT_TAG_TYPE_MMAP then multiboot_mmap m tag bi
      else Inr bi)"

partial_function (option) multiboot_tags :: "bmem \<Rightarrow> u64 \<Rightarrow> boot_info_t \<Rightarrow> boot_info_t outcome option" where
  "multiboot_tags m tag bi =
     (if tag_type m tag \<noteq> MULTIBOOT_TAG_TYPE_END then
        (case multiboot_tag m tag bi of
           Inl e \<Rightarrow> Some (Inl e)
         | Inr bi' \<Rightarrow> multiboot_tags m (next_tag m tag) bi')
      else Some (Inr bi))"

definition multiboot_init :: "bmem \<Rightarrow> boot_info_t \<Rightarrow> (bool \<times> boot_info_t) outcome option" where
  "multiboot_init m bi =
     (if bi_mb_magic bi \<noteq> MULTIBOOT2_BOOTLOADER_MAGIC then Some (Inr (False, bi))
      else
        (case multiboot_tags m (KERNEL_VADDR (ucast (bi_mb_addr bi + 8))) bi of
           None \<Rightarrow> None
         | Some r \<Rightarrow> Some (rbind r (\<lambda>bi. Inr (True, bi)))))"

subsection \<open>Tags and their bytes\<close>

datatype mb_tag =
    Cmdline "u8 list"
  | Meminfo u32 u32
  | Framebuffer u64 u32 u32 u32 u8 u8
  | Mmap "(u64 \<times> u64 \<times> u32) list"
  | Other u32 "u8 list"

fun region_bytes :: "u64 \<times> u64 \<times> u32 \<Rightarrow> u8 list" where
  "region_bytes (addr, len, ty) = le64 addr @ le64 len @ le32 ty @ le32 0"

fun tag_code :: "mb_tag \<Rightarrow> u32" where
  "tag_code (Cmdline _) = 1"
| "tag_code (Meminfo _ _) = 4"
| "tag_code (Framebuffer _ _ _ _ _ _) = 8"
| "tag_code (Mmap _) = 6"
| "tag_code (Other ty _) = ty"

fun payload :: "mb_tag \<Rightarrow> u8 list" where
  "payload (Cmdline s) = s @ [0]"
| "payload (Meminfo lower upper) = le32 lower @ le32 upper"
| "payload (Framebuffer addr pitch width height bpp ty) = le64 addr @ le32 pitch @ le32 width @ le32 height @ [bpp, ty, 0]"
| "payload (Mmap es) = le32 24 @ le32 0 @ concat (map region_bytes es)"
| "payload (Other _ bs) = bs"

definition tag_bytes :: "mb_tag \<Rightarrow> u8 list" where
  "tag_bytes t =
     (let n = 8 + length (payload t) in
      le32 (tag_code t) @ le32 (of_nat n) @ payload t @ replicate ((n + 7) div 8 * 8 - n) 0)"

definition info_bytes :: "mb_tag list \<Rightarrow> u8 list" where
  "info_bytes ts = concat (map tag_bytes ts) @ le32 0 @ le32 8"

fun tag_ok :: "nat \<Rightarrow> mb_tag \<Rightarrow> bool" where
  "tag_ok cap (Cmdline s) \<longleftrightarrow> 0 \<notin> set s \<and> length s < cap"
| "tag_ok cap (Mmap es) \<longleftrightarrow> length es \<le> BOOT_INFO_MMAP_MAX"
| "tag_ok cap (Other ty _) \<longleftrightarrow> ty \<notin> {0, 1, 4, 6, 8}"
| "tag_ok cap _ \<longleftrightarrow> True"

text \<open>What a tag means: the boot information after it.\<close>

fun region_entry :: "u64 \<times> u64 \<times> u32 \<Rightarrow> boot_info_mmap_t" where
  "region_entry (addr, len, ty) = \<lparr>mm_addr = addr, mm_size = len, mm_flags = (if ty = 1 then 1 else 0)\<rparr>"

definition mmap_top :: "(u64 \<times> u64 \<times> u32) list \<Rightarrow> u64" where
  "mmap_top es = fold max (map (\<lambda>(addr, len, _). addr + len) (filter (\<lambda>(_, _, ty). ty = 1) es)) 0"

fun apply_tag :: "mb_tag \<Rightarrow> boot_info_t \<Rightarrow> boot_info_t" where
  "apply_tag (Cmdline s) bi = bi\<lparr>bi_cmd_line := map byte_char (s @ [0]) @ drop (Suc (length s)) (bi_cmd_line bi)\<rparr>"
| "apply_tag (Meminfo lower upper) bi = bi\<lparr>bi_memory_size := (ucast lower + ucast upper) * 1024\<rparr>"
| "apply_tag (Framebuffer addr pitch width height bpp ty) bi =
     bi\<lparr>bi_fb_addr := addr, bi_fb_pitch := pitch, bi_fb_width := width, bi_fb_height := height,
        bi_fb_bpp := ucast bpp, bi_fb_type := ucast ty\<rparr>"
| "apply_tag (Mmap es) bi =
     bi\<lparr>bi_num_mmap := of_nat (length es), bi_mmap := map region_entry es @ drop (length es) (bi_mmap bi),
        bi_mmap_top := mmap_top es\<rparr>"
| "apply_tag (Other _ _) bi = bi"

subsection \<open>Reading the tags\<close>

lemma copy_cmdline_result:
  assumes "holds m a (s @ [0])" and "0 \<notin> set s" and "p + length s < length buf"
  shows "copy_cmdline m a p buf = Inr (take p buf @ map byte_char (s @ [0]) @ drop (Suc (p + length s)) buf)"
  using assms
proof (induction s arbitrary: a p buf)
  case Nil
  then show ?case by (subst copy_cmdline.simps) (simp add: upd_conv_take_nth_drop)
next
  case (Cons c s)
  then have c: "m a = c" "c \<noteq> 0" "p < length buf" by auto
  have "copy_cmdline m a p buf = copy_cmdline m (a + 1) (Suc p) (buf[p := byte_char c])"
    using c by (subst copy_cmdline.simps) simp
  also have "\<dots> = Inr (take (Suc p) (buf[p := byte_char c]) @ map byte_char (s @ [0]) @ drop (Suc (Suc p + length s)) (buf[p := byte_char c]))"
    using Cons.prems by (intro Cons.IH) (simp_all add: algebra_simps)
  finally show ?case using c(3) by (simp add: take_Suc_conv_app_nth)
qed

lemma length_region_bytes [simp]: "length (region_bytes r) = 24"
  by (cases r) simp

lemma length_regions [simp]: "length (concat (map region_bytes es)) = 24 * length es"
  by (induction es) simp_all

definition add_regions :: "(u64 \<times> u64 \<times> u32) list \<Rightarrow> boot_info_t \<Rightarrow> boot_info_t" where
  "add_regions es bi =
     (let n = unat (bi_num_mmap bi) in
      bi\<lparr>bi_num_mmap := of_nat (n + length es), bi_mmap := take n (bi_mmap bi) @ map region_entry es @ drop (n + length es) (bi_mmap bi),
         bi_mmap_top := fold max (map (\<lambda>(addr, len, _). addr + len) (filter (\<lambda>(_, _, ty). ty = 1) es)) (bi_mmap_top bi)\<rparr>)"

lemma add_regions_Nil [simp]: "add_regions [] bi = bi"
  by (simp add: add_regions_def)

lemma add_regions_Cons:
  assumes "unat (bi_num_mmap bi) + length (r # es) \<le> length (bi_mmap bi)" and "unat (bi_num_mmap bi) + 1 < 2 ^ 32"
  shows "add_regions (r # es) bi =
    add_regions es (bi\<lparr>bi_num_mmap := bi_num_mmap bi + 1, bi_mmap := (bi_mmap bi)[unat (bi_num_mmap bi) := region_entry r],
      bi_mmap_top := (case r of (addr, len, ty) \<Rightarrow> if ty = 1 then max (addr + len) (bi_mmap_top bi) else bi_mmap_top bi)\<rparr>)"
proof -
  have "unat (bi_num_mmap bi + 1) = Suc (unat (bi_num_mmap bi))" using assms(2) by (simp add: unat_plus_lt)
  then show ?thesis using assms(1) by (cases r) (simp add: add_regions_def Let_def take_Suc_conv_app_nth)
qed

lemma mmap_loop_result:
  assumes "holds m e (concat (map region_bytes es))" and "mmap + ucast (tag_size m mmap) = e + of_nat (24 * length es)"
    and "unat e + 24 * length es < 2 ^ 64" and "mmap_entry_size m mmap = 24"
    and "unat (bi_num_mmap bi) + length es \<le> BOOT_INFO_MMAP_MAX" and "length (bi_mmap bi) = BOOT_INFO_MMAP_MAX"
  shows "mmap_loop m mmap e bi = Inr (add_regions es bi)"
  using assms
proof (induction es arbitrary: e bi)
  case Nil
  then show ?case by (subst mmap_loop.simps) simp
next
  case (Cons r es)
  obtain addr len ty where r: "r = (addr, len, ty)" by (cases r)
  have h: "holds m e (le64 addr)" "holds m (e + 8) (le64 len)" "holds m (e + 16) (le32 ty)" "holds m (e + 24) (concat (map region_bytes es))"
    using Cons.prems(1) by (simp_all add: r add.assoc)
  note rd = rd_holds(3) [OF h(1)] rd_holds(3) [OF h(2)] rd_holds(2) [OF h(3)]
  have len: "unat (of_nat (24 * length (r # es)) :: u64) = 24 * length (r # es)" using Cons.prems(3) by (intro unat_of_nat_lt) simp
  then have "unat (e + of_nat (24 * length (r # es))) = unat e + 24 * length (r # es)" using Cons.prems(3) by (subst unat_plus_lt) simp_all
  then have lt: "e < mmap + ucast (tag_size m mmap)" unfolding Cons.prems(2) by (simp add: unat_less_iff)
  have n: "unat (bi_num_mmap bi) < BOOT_INFO_MMAP_MAX" "unat (bi_num_mmap bi) + 1 < 2 ^ 32"
    using Cons.prems(5) by (simp_all add: BOOT_INFO_MMAP_MAX_def)
  let ?bi = "bi\<lparr>bi_num_mmap := bi_num_mmap bi + 1, bi_mmap := (bi_mmap bi)[unat (bi_num_mmap bi) := region_entry r],
      bi_mmap_top := (case r of (addr, len, ty) \<Rightarrow> if ty = 1 then max (addr + len) (bi_mmap_top bi) else bi_mmap_top bi)\<rparr>"
  have top: "(if ty = 1 \<and> bi_mmap_top bi < addr + len then addr + len else bi_mmap_top bi)
      = (if ty = 1 then max (addr + len) (bi_mmap_top bi) else bi_mmap_top bi)" by (auto simp: max_def)
  have "mmap_loop m mmap e bi = mmap_loop m mmap (e + 24) ?bi"
    using lt n Cons.prems(4,6) top by (subst mmap_loop.simps) (simp add: rd r MULTIBOOT_MEMORY_AVAILABLE_def)
  also have "\<dots> = Inr (add_regions es ?bi)"
  proof (rule Cons.IH [OF h(4)])
    have e24: "unat (e + 24) = unat e + 24" using Cons.prems(3) by (subst unat_plus_lt) simp_all
    show "mmap + ucast (tag_size m mmap) = e + 24 + of_nat (24 * length es)" unfolding Cons.prems(2) by simp
    show "unat (e + 24) + 24 * length es < 2 ^ 64" using Cons.prems(3) e24 by simp
    show "unat (bi_num_mmap ?bi) + length es \<le> BOOT_INFO_MMAP_MAX" using Cons.prems(5) n(2) by (simp add: unat_plus_lt)
  qed (use Cons.prems in simp_all)
  also have "\<dots> = Inr (add_regions (r # es) bi)" using add_regions_Cons [of bi r es] n(2) Cons.prems(5,6) by simp
  finally show ?case .
qed

lemma mmap_tag_result:
  assumes "holds m a (tag_bytes (Mmap es))" and "tag_ok cap (Mmap es)" and "unat a + length (tag_bytes (Mmap es)) < 2 ^ 64"
    and "length (bi_mmap bi) = BOOT_INFO_MMAP_MAX"
  shows "multiboot_mmap m a bi = Inr (apply_tag (Mmap es) bi)"
proof -
  have n: "length es \<le> 32" using assms(2) by (simp add: BOOT_INFO_MMAP_MAX_def)
  have h: "holds m (a + 4) (le32 (of_nat (16 + 24 * length es)))" "holds m (a + 8) (le32 24)"
    "holds m (a + 16) (concat (map region_bytes es))"
    using assms(1) by (simp_all add: tag_bytes_def Let_def add.assoc)
  have ts: "tag_size m a = of_nat (16 + 24 * length es)" using rd_holds(2) [OF h(1)] by (simp add: tag_size_def)
  have len: "16 + 24 * length es \<le> length (tag_bytes (Mmap es))" by (simp add: tag_bytes_def Let_def)
  have "unat (of_nat (16 + 24 * length es) :: u32) = 16 + 24 * length es" using n by (intro unat_of_nat_lt) simp
  moreover have "unat (of_nat (16 + 24 * length es) :: u64) = 16 + 24 * length es" using n by (intro unat_of_nat_lt) simp
  ultimately have "unat (ucast (tag_size m a) :: u64) = unat (of_nat (16 + 24 * length es) :: u64)"
    unfolding ts by (simp only: unat_ucast_up) simp
  then have sz: "(ucast (tag_size m a) :: u64) = of_nat (16 + 24 * length es)" by (simp only: unat_eq_iff)
  have a16: "unat (a + 16) = unat a + 16" using assms(3) len by (subst unat_plus_lt) simp_all
  let ?bi = "bi\<lparr>bi_num_mmap := 0, bi_mmap_top := 0\<rparr>"
  have "mmap_loop m a (a + 16) ?bi = Inr (add_regions es ?bi)"
    by (rule mmap_loop_result [OF h(3)])
      (use sz a16 assms(3,4) len n rd_holds(2) [OF h(2)] in \<open>simp_all add: mmap_entry_size_def BOOT_INFO_MMAP_MAX_def\<close>)
  then show ?thesis by (simp add: multiboot_mmap_def mmap_entries_def add_regions_def Let_def mmap_top_def)
qed

lemma multiboot_tag_result:
  assumes "holds m a (tag_bytes t)" and "tag_ok (length (bi_cmd_line bi)) t" and "unat a + length (tag_bytes t) < 2 ^ 64"
    and "length (bi_mmap bi) = BOOT_INFO_MMAP_MAX"
  shows "multiboot_tag m a bi = Inr (apply_tag t bi) \<and> tag_type m a = tag_code t"
proof -
  have ty: "tag_type m a = tag_code t" using assms(1) rd_holds(2) [of m a] by (simp add: tag_bytes_def Let_def tag_type_def)
  have p: "holds m (a + 8) (payload t)" using assms(1) by (simp add: tag_bytes_def Let_def add.assoc)
  have "multiboot_tag m a bi = Inr (apply_tag t bi)"
  proof (cases t)
    case (Cmdline s)
    then have "copy_cmdline m (a + 8) 0 (bi_cmd_line bi) = Inr (map byte_char (s @ [0]) @ drop (Suc (length s)) (bi_cmd_line bi))"
      using copy_cmdline_result [of m "a + 8" s 0] p assms(2) by simp
    then show ?thesis using Cmdline ty by (simp add: multiboot_tag_def multiboot_consts multiboot_cmdline_def tag_string_def)
  next
    case (Meminfo lower upper)
    then have "holds m (a + 8) (le32 lower)" "holds m (a + 12) (le32 upper)" using p by (simp_all add: add.assoc)
    then have "rd32 m (a + 8) = lower" "rd32 m (a + 12) = upper" by (simp_all add: rd_holds)
    then show ?thesis using Meminfo ty
      by (simp add: multiboot_tag_def multiboot_consts multiboot_meminfo_def Let_def distrib_right)
  next
    case (Framebuffer addr pitch width height bpp fty)
    then have "holds m (a + 8) (le64 addr)" "holds m (a + 16) (le32 pitch)" "holds m (a + 20) (le32 width)" "holds m (a + 24) (le32 height)"
      "m (a + 28) = bpp" "m (a + 29) = fty" using p by (simp_all add: add.assoc)
    then have "rd64 m (a + 8) = addr" "rd32 m (a + 16) = pitch" "rd32 m (a + 20) = width" "rd32 m (a + 24) = height"
      "m (a + 28) = bpp" "m (a + 29) = fty" by (simp_all add: rd_holds)
    then show ?thesis using Framebuffer ty by (simp add: multiboot_tag_def multiboot_consts multiboot_framebuffer_def)
  next
    case (Mmap es)
    then show ?thesis using mmap_tag_result [of m a es] assms ty by (simp add: multiboot_tag_def multiboot_consts)
  next
    case (Other code bs)
    then show ?thesis using ty assms(2) by (simp add: multiboot_tag_def multiboot_consts)
  qed
  then show ?thesis using ty by simp
qed

lemma next_tag_result:
  assumes "holds m a (tag_bytes t)" and "length (tag_bytes t) < 2 ^ 32"
  shows "next_tag m a = a + of_nat (length (tag_bytes t))"
proof -
  define n where "n = 8 + length (payload t)"
  have len: "length (tag_bytes t) = (n + 7) div 8 * 8" by (simp add: tag_bytes_def Let_def n_def)
  have le: "n \<le> (n + 7) div 8 * 8" by simp
  have "(n + 7) div 8 < 2 ^ 29" using assms(2) len by simp
  then have lt: "n + 7 < 2 ^ 32" using le by (simp add: div_less_iff_less_mult)
  have "holds m (a + 4) (le32 (of_nat n))" using assms(1) by (simp add: tag_bytes_def Let_def n_def)
  then have ts: "tag_size m a = of_nat n" by (simp add: tag_size_def rd_holds)
  have "unat (of_nat n + 7 :: u32) = n + 7" using lt by (subst unat_plus_lt) (simp_all add: unat_of_nat_lt)
  moreover have "(7 :: u32) = mask 3" by (simp add: mask_eq_exp_minus_1)
  ultimately have "unat ((tag_size m a + 7) AND NOT 7) = (n + 7) div 8 * 8"
    unfolding ts using unat_and_not_mask [of "of_nat n + 7 :: u32" 3] by simp
  moreover have "unat (of_nat ((n + 7) div 8 * 8) :: u64) = (n + 7) div 8 * 8" using assms(2) len by (intro unat_of_nat_lt) simp
  ultimately have "unat (ucast ((tag_size m a + 7) AND NOT 7) :: u64) = unat (of_nat ((n + 7) div 8 * 8) :: u64)"
    by (simp only: unat_ucast_up) simp
  then have "(ucast ((tag_size m a + 7) AND NOT 7) :: u64) = of_nat ((n + 7) div 8 * 8)" by (simp only: unat_eq_iff)
  then show ?thesis by (simp add: next_tag_def len)
qed

lemma apply_tag_keeps:
  assumes "tag_ok (length (bi_cmd_line bi)) t" and "length (bi_mmap bi) = BOOT_INFO_MMAP_MAX"
  shows "length (bi_cmd_line (apply_tag t bi)) = length (bi_cmd_line bi)" "length (bi_mmap (apply_tag t bi)) = BOOT_INFO_MMAP_MAX"
  using assms by (cases t; auto)+

lemma tag_code_nonzero: "tag_ok cap t \<Longrightarrow> tag_code t \<noteq> 0"
  by (cases t) auto

fun tags_ahead :: "bmem \<times> u64 \<Rightarrow> mb_tag list \<Rightarrow> bool" where
  "tags_ahead (m, a) ts \<longleftrightarrow> holds m a (info_bytes ts) \<and> unat a + length (info_bytes ts) < 2 ^ 64 \<and> length (info_bytes ts) < 2 ^ 32"

definition tags_fit :: "mb_tag list \<Rightarrow> boot_info_t \<Rightarrow> bool" where
  "tags_fit ts bi \<longleftrightarrow> list_all (tag_ok (length (bi_cmd_line bi))) ts \<and> length (bi_mmap bi) = BOOT_INFO_MMAP_MAX"

lemma info_bytes_Cons: "info_bytes (t # ts) = tag_bytes t @ info_bytes ts"
  by (simp add: info_bytes_def)

interpretation tag_walk: record_walk "\<lambda>(m, a). multiboot_tags m a" tags_ahead tags_fit
  "\<lambda>t (m, a). (m, a + of_nat (length (tag_bytes t)))" "\<lambda>t bi. Inr (apply_tag t bi)" Some
proof (unfold_locales, goal_cases)
  case (1 p s)
  then have "tag_type (fst p) (snd p) = 0" by (cases p) (simp add: info_bytes_def tag_type_def rd_holds)
  then show ?case by (cases p) (simp add: multiboot_tags.simps MULTIBOOT_TAG_TYPE_END_def)
next
  case (2 p t ts bi)
  obtain m a where p: "p = (m, a)" by (cases p)
  have h: "holds m a (tag_bytes t)" "unat a + length (tag_bytes t) < 2 ^ 64" "length (tag_bytes t) < 2 ^ 32"
    using 2(1) by (simp_all add: p info_bytes_Cons)
  have ok: "tag_ok (length (bi_cmd_line bi)) t" "length (bi_mmap bi) = BOOT_INFO_MMAP_MAX" using 2(2) by (simp_all add: tags_fit_def)
  have tg: "multiboot_tag m a bi = Inr (apply_tag t bi)" "tag_type m a = tag_code t"
    using multiboot_tag_result [OF h(1) ok(1) h(2) ok(2)] by simp_all
  show ?case using tg next_tag_result [OF h(1,3)] tag_code_nonzero [OF ok(1)] p
    by (subst p, simp only: prod.case, subst multiboot_tags.simps) (simp add: MULTIBOOT_TAG_TYPE_END_def)
next
  case (3 p t ts)
  then show ?case by (cases p) (simp add: info_bytes_Cons unat_plus_of_nat)
next
  case (4 t ts bi bi')
  then show ?case using apply_tag_keeps [of bi t] by (auto simp: tags_fit_def)
qed

lemma multiboot_tags_result:
  assumes "holds m a (info_bytes ts)" and "unat a + length (info_bytes ts) < 2 ^ 64" and "length (info_bytes ts) < 2 ^ 32"
    and "list_all (tag_ok (length (bi_cmd_line bi))) ts" and "length (bi_mmap bi) = BOOT_INFO_MMAP_MAX"
  shows "multiboot_tags m a bi = Some (Inr (fold apply_tag ts bi))"
  using tag_walk.walk_result [of "(m, a)" ts bi] assms by (simp add: fold_outcome_Inr tags_fit_def)

text \<open>
  C30. Round trip of the boot information: when memory holds the bytes of a list of tags that fit (the command
  line in its room, at most 32 memory regions), \<^verbatim>\<open>multiboot_init\<close> returns true and the boot information is what
  the tags say, applied in order: command line, memory size, frame buffer, and the memory map with the highest
  end of an available region. With another magic number it returns false and changes nothing.
\<close>

theorem multiboot_init_roundtrip:
  assumes "holds m (KERNEL_VADDR (ucast (bi_mb_addr bi + 8))) (info_bytes ts)"
    and "unat (KERNEL_VADDR (ucast (bi_mb_addr bi + 8))) + length (info_bytes ts) < 2 ^ 64" and "length (info_bytes ts) < 2 ^ 32"
    and "list_all (tag_ok (length (bi_cmd_line bi))) ts" and "length (bi_mmap bi) = BOOT_INFO_MMAP_MAX"
  shows "multiboot_init m bi =
    Some (Inr (if bi_mb_magic bi = MULTIBOOT2_BOOTLOADER_MAGIC then (True, fold apply_tag ts bi) else (False, bi)))"
  using multiboot_tags_result [OF assms] by (simp add: multiboot_init_def)

definition demo_tags :: "mb_tag list" where
  "demo_tags = [Cmdline [97, 98], Meminfo 640 64512, Mmap [(0, 0x9fc00, 1), (0x100000, 0x3f00000, 1), (0xfec00000, 0x1000, 2)]]"

definition demo_boot_info :: boot_info_t where
  "demo_boot_info = \<lparr>bi_mb_magic = 0x36d76289, bi_mb_addr = 0x20000, bi_mb_size = 0, bi_boot_ap = 0, bi_kernel_end = 0,
     bi_kernel_top = 0, bi_kernel_slack = 0, bi_mmap = replicate 32 \<lparr>mm_addr = 0, mm_size = 0, mm_flags = 0\<rparr>,
     bi_num_mmap = 0, bi_mmap_top = 0, bi_memory_size = 0, bi_fb_addr = 0, bi_fb_pitch = 0, bi_fb_width = 0, bi_fb_height = 0,
     bi_fb_bpp = 0, bi_fb_type = 0, bi_cmd_line = replicate 16 CHR 0x20\<rparr>"

lemma demo_tags_length: "length (info_bytes demo_tags) = 128"
  by (simp add: info_bytes_def demo_tags_def tag_bytes_def Let_def)

theorem multiboot_init_roundtrip_witness:
  "\<exists>bi. multiboot_init (mem_of (KERNEL_VADDR 0x20008) (info_bytes demo_tags)) demo_boot_info = Some (Inr (True, bi)) \<and>
     bi_num_mmap bi = 3 \<and> bi_mmap_top bi = 0x4000000 \<and> bi_memory_size bi = 65152 * 1024"
proof -
  let ?m = "mem_of (KERNEL_VADDR 0x20008) (info_bytes demo_tags)"
  have a: "KERNEL_VADDR (ucast (bi_mb_addr demo_boot_info + 8)) = KERNEL_VADDR 0x20008" by (simp add: demo_boot_info_def)
  have v: "KERNEL_VADDR 0x20008 = 0xFFFFFFFF80020008" by (simp add: KERNEL_VADDR_def KERNEL_BASE_def)
  have h: "holds ?m (KERNEL_VADDR (ucast (bi_mb_addr demo_boot_info + 8))) (info_bytes demo_tags)"
    "unat (KERNEL_VADDR (ucast (bi_mb_addr demo_boot_info + 8))) + length (info_bytes demo_tags) < 2 ^ 64"
    "length (info_bytes demo_tags) < 2 ^ 32" "list_all (tag_ok (length (bi_cmd_line demo_boot_info))) demo_tags"
    "length (bi_mmap demo_boot_info) = BOOT_INFO_MMAP_MAX"
    unfolding a using holds_mem_of [of "info_bytes demo_tags"]
    by (simp_all add: demo_tags_length v) (simp_all add: demo_tags_def demo_boot_info_def BOOT_INFO_MMAP_MAX_def)
  show ?thesis using multiboot_init_roundtrip [OF h]
    by (simp add: demo_tags_def demo_boot_info_def multiboot_consts mmap_top_def)
qed

text \<open>A tag of size zero does not move the walk on.\<close>

lemma next_tag_zero: "tag_size m tag = 0 \<Longrightarrow> next_tag m tag = tag"
  by (simp add: next_tag_def)

end
