(* ===== verification/Acpi.thy ===== *)
theory Acpi
  imports Firmware Apic
begin

text \<open>
  The ACPI tables of \<^verbatim>\<open>acpi.c\<close>: the search for the root pointer, the checksums, and the walk from the root
  table to the interrupt controller table, whose entries are registered with the local APIC and the I/O APIC.
  Tables are read by field offset from byte memory \<open>m\<close>, which is addressed by the identity mapping that the code
  sets up for the root table. The walk over the entries of the interrupt controller table does not end at an
  entry of length zero.
\<close>

definition ACPI_RSDP_SIGNATURE :: u64 where "ACPI_RSDP_SIGNATURE = 0x2052545020445352"
definition ACPI_APIC_SIGNATURE :: u32 where "ACPI_APIC_SIGNATURE = 0x43495041"
definition APIC_TYPE_LOCAL_APIC :: u8 where "APIC_TYPE_LOCAL_APIC = 0x00"
definition APIC_TYPE_IO_APIC :: u8 where "APIC_TYPE_IO_APIC = 0x01"
definition APIC_TYPE_INTERRUPT_OVERRIDE :: u8 where "APIC_TYPE_INTERRUPT_OVERRIDE = 0x02"

definition sizeof_acpi_rsdp_t :: nat where "sizeof_acpi_rsdp_t = 20"
definition sizeof_acpi_sdt_header_t :: u64 where "sizeof_acpi_sdt_header_t = 36"
definition sizeof_acpi_madt_t :: u64 where "sizeof_acpi_madt_t = 44"

definition rsdp_revision :: "bmem \<Rightarrow> u64 \<Rightarrow> u8" where "rsdp_revision m rsdp = m (rsdp + 15)"
definition rsdp_rsdt_addr :: "bmem \<Rightarrow> u64 \<Rightarrow> u32" where "rsdp_rsdt_addr m rsdp = rd32 m (rsdp + 16)"
definition rsdp_v2_length :: "bmem \<Rightarrow> u64 \<Rightarrow> u32" where "rsdp_v2_length m rsdp = rd32 m (rsdp + 20)"
definition rsdp_v2_xsdt_addr :: "bmem \<Rightarrow> u64 \<Rightarrow> u64" where "rsdp_v2_xsdt_addr m rsdp = rd64 m (rsdp + 24)"
definition sdt_signature :: "bmem \<Rightarrow> u64 \<Rightarrow> u32" where "sdt_signature m hdr = rd32 m hdr"
definition sdt_length :: "bmem \<Rightarrow> u64 \<Rightarrow> u32" where "sdt_length m hdr = rd32 m (hdr + 4)"
definition madt_local_ctrl_addr :: "bmem \<Rightarrow> u64 \<Rightarrow> u32" where "madt_local_ctrl_addr m madt = rd32 m (madt + 36)"

definition RSDP_START :: u64 where "RSDP_START = KERNEL_BASE OR 0xe0000"
definition RSDP_END :: u64 where "RSDP_END = KERNEL_BASE OR 0xfffff"

function rsdp_search :: "bmem \<Rightarrow> u64 \<Rightarrow> u64 option" where
  "rsdp_search m ptr =
     (if ptr < RSDP_END then
        if rd64 m ptr = ACPI_RSDP_SIGNATURE then
          (if sum_bytes sizeof_acpi_rsdp_t m ptr 0 = (0 :: u8) then Some ptr else None)
        else rsdp_search m (ptr + 16)
      else None)"
  by pat_completeness auto
termination
proof (relation "measure (\<lambda>(_, ptr). unat RSDP_END - unat ptr)", simp, goal_cases)
  case (1 m ptr)
  then have "unat ptr < unat RSDP_END" by (simp add: unat_less_iff)
  moreover have "unat RSDP_END = 0xFFFFFFFF800FFFFF" by (simp add: RSDP_END_def KERNEL_BASE_def)
  ultimately have "unat (ptr + 16) = unat ptr + 16" "unat ptr < unat RSDP_END" by (simp_all add: unat_plus_lt)
  then show ?case by simp
qed

declare rsdp_search.simps [simp del]

definition acpi_find_rsdp :: "bmem \<Rightarrow> u64 option" where
  "acpi_find_rsdp m = rsdp_search m RSDP_START"

definition acpi_sdt_check :: "bmem \<Rightarrow> u64 \<Rightarrow> bool" where
  "acpi_sdt_check m hdr \<longleftrightarrow> sum_bytes (unat (sdt_length m hdr)) m hdr 0 = (0 :: u8)"

definition madt_entry :: "bmem \<Rightarrow> u64 \<Rightarrow> apics \<Rightarrow> apics outcome" where
  "madt_entry m ptr ap =
     (let ty = m ptr in
      if ty = APIC_TYPE_LOCAL_APIC then local_apic_add_cpu (m (ptr + 3)) ap
      else if ty = APIC_TYPE_IO_APIC then Inr (io_apic_register (ucast (rd32 m (ptr + 4))) (rd32 m (ptr + 8)) ap)
      else if ty = APIC_TYPE_INTERRUPT_OVERRIDE then io_apic_add_iovr (m (ptr + 2)) (m (ptr + 3)) (rd32 m (ptr + 4)) ap
      else Inr ap)"

partial_function (option) madt_loop :: "bmem \<Rightarrow> u64 \<Rightarrow> u64 \<Rightarrow> apics \<Rightarrow> apics outcome option" where
  "madt_loop m ptr end_addr ap =
     (if ptr < end_addr then
        (case madt_entry m ptr ap of
           Inl e \<Rightarrow> Some (Inl e)
         | Inr ap' \<Rightarrow> madt_loop m (ptr + ucast (m (ptr + 1))) end_addr ap')
      else Some (Inr ap))"

definition acpi_parse_madt :: "bmem \<Rightarrow> u64 \<Rightarrow> apics \<Rightarrow> apics outcome option" where
  "acpi_parse_madt m madt ap =
     (let ap = local_apic_register (ucast (madt_local_ctrl_addr m madt)) ap in
      madt_loop m (madt + sizeof_acpi_madt_t) (madt + ucast (sdt_length m madt)) ap)"

definition acpi_parse_sdt :: "bmem \<Rightarrow> u64 \<Rightarrow> apics \<Rightarrow> apics outcome option" where
  "acpi_parse_sdt m sdt ap =
     (if sdt_signature m sdt = ACPI_APIC_SIGNATURE then acpi_parse_madt m sdt ap else Some (Inr ap))"

text \<open>The loop over the table addresses that a root table lists.\<close>

primrec parse_sdts :: "bmem \<Rightarrow> u64 list \<Rightarrow> apics \<Rightarrow> apics outcome option" where
  "parse_sdts m [] ap = Some (Inr ap)"
| "parse_sdts m (a # as) ap =
     (case acpi_parse_sdt m a ap of
        None \<Rightarrow> None
      | Some (Inl e) \<Rightarrow> Some (Inl e)
      | Some (Inr ap') \<Rightarrow> parse_sdts m as ap')"

definition acpi_parse_rsdt :: "bmem \<Rightarrow> u64 \<Rightarrow> apics \<Rightarrow> apics outcome option" where
  "acpi_parse_rsdt m rsdt ap =
     (let num_sdt = ucast (drop_bit 2 (ucast (sdt_length m rsdt) - sizeof_acpi_sdt_header_t)) :: u32 in
      parse_sdts m (map (\<lambda>i. ucast (rd32 m (rsdt + sizeof_acpi_sdt_header_t + 4 * of_nat i))) [0..<unat num_sdt]) ap)"

definition acpi_parse_xsdt :: "bmem \<Rightarrow> u64 \<Rightarrow> apics \<Rightarrow> apics outcome option" where
  "acpi_parse_xsdt m xsdt ap =
     (let num_sdt = ucast (drop_bit 3 (ucast (sdt_length m xsdt) - sizeof_acpi_sdt_header_t)) :: u32 in
      parse_sdts m (map (\<lambda>i. rd64 m (xsdt + sizeof_acpi_sdt_header_t + 8 * of_nat i)) [0..<unat num_sdt]) ap)"

text \<open>
  The part that the two revisions share: map the header, then the whole table, parse it if its checksum is
  right, and unmap it.
\<close>

definition acpi_root :: "bmem \<Rightarrow> u64 \<Rightarrow> (apics \<Rightarrow> apics outcome option) \<Rightarrow> vm_boot \<times> apics \<Rightarrow> (vm_boot \<times> apics) outcome option" where
  "acpi_root m addr parse s =
     (case s of (vm, ap) \<Rightarrow>
      case rbind (vm_boot_map_range addr addr sizeof_acpi_sdt_header_t vm) (vm_boot_map_range addr addr (ucast (sdt_length m addr))) of
        Inl e \<Rightarrow> Some (Inl e)
      | Inr vm \<Rightarrow>
          (case (if acpi_sdt_check m addr then parse ap else Some (Inr ap)) of
             None \<Rightarrow> None
           | Some (Inl e) \<Rightarrow> Some (Inl e)
           | Some (Inr ap) \<Rightarrow> Some (rbind (vm_boot_unmap_range addr (ucast (sdt_length m addr)) vm) (\<lambda>vm. Inr (vm, ap)))))"

definition acpi_init :: "bmem \<Rightarrow> vm_boot \<times> apics \<Rightarrow> (bool \<times> vm_boot \<times> apics) outcome option" where
  "acpi_init m s =
     (case acpi_find_rsdp m of
        None \<Rightarrow> Some (Inr (False, s))
      | Some rsdp \<Rightarrow>
          map_option (\<lambda>r. rbind r (\<lambda>s. Inr (True, s)))
            (if rsdp_revision m rsdp = 0 then
               let rsdt_addr = ucast (rsdp_rsdt_addr m rsdp) in acpi_root m rsdt_addr (acpi_parse_rsdt m rsdt_addr) s
             else if rsdp_revision m rsdp = 2 then
               (if sum_bytes (unat (rsdp_v2_length m rsdp)) m rsdp 0 = (0 :: u8) then
                  let xsdt_addr = rsdp_v2_xsdt_addr m rsdp in acpi_root m xsdt_addr (acpi_parse_xsdt m xsdt_addr) s
                else Some (Inr s))
             else Some (Inr s)))"

subsection \<open>Entries and their bytes\<close>

datatype madt_item =
    Local_apic u8 u8 u32
  | Io_apic u8 u32 u32
  | Override u8 u8 u32 u16
  | Other_item u8 "u8 list"

fun item_bytes :: "madt_item \<Rightarrow> u8 list" where
  "item_bytes (Local_apic processor apic flags) = [0, 8, processor, apic] @ le32 flags"
| "item_bytes (Io_apic n addr gsi) = [1, 12, n, 0] @ le32 addr @ le32 gsi"
| "item_bytes (Override bus irq gsi flags) = [2, 10, bus, irq] @ le32 gsi @ le16 flags"
| "item_bytes (Other_item ty bs) = [ty, of_nat (2 + length bs)] @ bs"

fun item_ok :: "madt_item \<Rightarrow> bool" where
  "item_ok (Other_item ty bs) \<longleftrightarrow> ty \<notin> {0, 1, 2} \<and> 2 + length bs < 256"
| "item_ok _ \<longleftrightarrow> True"

fun register_item :: "madt_item \<Rightarrow> apics \<Rightarrow> apics outcome" where
  "register_item (Local_apic _ apic _) ap = local_apic_add_cpu apic ap"
| "register_item (Io_apic _ addr gsi) ap = Inr (io_apic_register (ucast addr) gsi ap)"
| "register_item (Override bus irq gsi _) ap = io_apic_add_iovr bus irq gsi ap"
| "register_item (Other_item _ _) ap = Inr ap"

abbreviation register_items :: "madt_item list \<Rightarrow> apics \<Rightarrow> apics outcome" where
  "register_items \<equiv> fold_outcome register_item"

text \<open>The bytes of a table: \<open>rest\<close> are the header fields between the length and the controller address.\<close>

definition madt_bytes :: "u8 list \<Rightarrow> u32 \<Rightarrow> u32 \<Rightarrow> madt_item list \<Rightarrow> u8 list" where
  "madt_bytes rest ctrl flags is =
     (let body = concat (map item_bytes is) in
      le32 ACPI_APIC_SIGNATURE @ le32 (of_nat (44 + length body)) @ rest @ le32 ctrl @ le32 flags @ body)"

lemma madt_entry_result:
  assumes "holds m ptr (item_bytes i)" and "item_ok i"
  shows "madt_entry m ptr ap = register_item i ap"
proof (cases i)
  case (Local_apic processor apic flags)
  then show ?thesis using assms(1) by (simp add: madt_entry_def APIC_TYPE_LOCAL_APIC_def add.assoc)
next
  case (Io_apic n addr gsi)
  then have "holds m (ptr + 4) (le32 addr)" "holds m (ptr + 8) (le32 gsi)" "m ptr = 1" using assms(1) by (simp_all add: add.assoc)
  then show ?thesis using Io_apic by (simp add: madt_entry_def APIC_TYPE_LOCAL_APIC_def APIC_TYPE_IO_APIC_def rd_holds)
next
  case (Override bus irq gsi flags)
  then have "holds m (ptr + 4) (le32 gsi)" "m ptr = 2" "m (ptr + 2) = bus" "m (ptr + 3) = irq" using assms(1) by (simp_all add: add.assoc)
  then show ?thesis using Override
    by (simp add: madt_entry_def APIC_TYPE_LOCAL_APIC_def APIC_TYPE_IO_APIC_def APIC_TYPE_INTERRUPT_OVERRIDE_def rd_holds)
next
  case (Other_item ty bs)
  then show ?thesis using assms
    by (simp add: madt_entry_def APIC_TYPE_LOCAL_APIC_def APIC_TYPE_IO_APIC_def APIC_TYPE_INTERRUPT_OVERRIDE_def)
qed

lemma item_length:
  assumes "holds m ptr (item_bytes i)" and "item_ok i"
  shows "(ucast (m (ptr + 1)) :: u64) = of_nat (length (item_bytes i))" "0 < length (item_bytes i)"
proof -
  have "unat (m (ptr + 1)) = length (item_bytes i)"
  proof (cases i)
    case (Other_item ty bs)
    then have "m (ptr + 1) = of_nat (2 + length bs)" using assms(1) by simp
    moreover have "unat (of_nat (2 + length bs) :: u8) = 2 + length bs" using assms(2) Other_item by (intro unat_of_nat_lt) simp
    ultimately show ?thesis using Other_item by simp
  qed (use assms(1) in simp_all)
  moreover have "(ucast x :: u64) = of_nat (unat x)" for x :: u8 by simp
  ultimately show "(ucast (m (ptr + 1)) :: u64) = of_nat (length (item_bytes i))" by metis
  show "0 < length (item_bytes i)" by (cases i) simp_all
qed

text \<open>The position of the loop: the entries, which fill memory up to the end address.\<close>

fun items_ahead :: "bmem \<times> u64 \<times> u64 \<Rightarrow> madt_item list \<Rightarrow> bool" where
  "items_ahead (m, ptr, end_addr) is \<longleftrightarrow> holds m ptr (concat (map item_bytes is)) \<and> list_all item_ok is \<and>
     end_addr = ptr + of_nat (length (concat (map item_bytes is))) \<and> unat ptr + length (concat (map item_bytes is)) < 2 ^ 64"

interpretation madt_walk: record_walk "\<lambda>(m, ptr, end_addr). madt_loop m ptr end_addr" items_ahead "\<lambda>_ _. True"
  "\<lambda>i (m, ptr, end_addr). (m, ptr + of_nat (length (item_bytes i)), end_addr)" register_item Some
proof (unfold_locales, goal_cases)
  case (1 p s)
  then show ?case by (cases p) (simp add: madt_loop.simps)
next
  case (2 p i "is" s)
  obtain m ptr end_addr where p: "p = (m, ptr, end_addr)" by (cases p)
  let ?n = "length (concat (map item_bytes (i # is)))"
  have h: "holds m ptr (item_bytes i)" "item_ok i" "end_addr = ptr + of_nat ?n" "unat ptr + ?n < 2 ^ 64"
    using 2(1) p by simp_all
  have "ptr < end_addr" unfolding h(3) unat_less_iff unat_plus_of_nat [OF h(4)] using item_length(2) [OF h(1,2)] by simp
  then show ?case using p madt_entry_result [OF h(1,2)] item_length(1) [OF h(1,2)]
    by (subst p, simp only: prod.case, subst madt_loop.simps) (simp split: sum.split)
next
  case (3 p i "is")
  then show ?case by (cases p) (simp add: unat_plus_of_nat add.assoc)
qed simp

text \<open>
  C31. Round trip of the interrupt controller table: when memory holds the bytes of a table, parsing it returns,
  registers the local controller address and then every processor, I/O APIC and interrupt override it lists, in
  order, skipping entries of other types; registering more than 16 processors or overrides panics.
\<close>

theorem acpi_parse_madt_roundtrip:
  assumes "holds m madt (madt_bytes rest ctrl flags is)" and "length rest = 28" and "list_all item_ok is"
    and "unat madt + length (madt_bytes rest ctrl flags is) < 2 ^ 64" and "length (madt_bytes rest ctrl flags is) < 2 ^ 32"
  shows "acpi_parse_sdt m madt ap = Some (register_items is (local_apic_register (ucast ctrl) ap))"
proof -
  let ?b = "concat (map item_bytes is)"
  have h: "holds m madt (le32 ACPI_APIC_SIGNATURE)" "holds m (madt + 4) (le32 (of_nat (44 + length ?b)))" "holds m (madt + 36) (le32 ctrl)"
    "holds m (madt + 44) ?b"
    using assms(1,2) by (simp_all add: madt_bytes_def Let_def add.assoc)
  have len: "length (madt_bytes rest ctrl flags is) = 44 + length ?b" using assms(2) by (simp add: madt_bytes_def Let_def)
  have "unat (of_nat (44 + length ?b) :: u32) = 44 + length ?b" using assms(5) len by (intro unat_of_nat_lt) simp
  moreover have "unat (of_nat (44 + length ?b) :: u64) = 44 + length ?b" using assms(5) len by (intro unat_of_nat_lt) simp
  ultimately have "unat (ucast (sdt_length m madt) :: u64) = unat (of_nat (44 + length ?b) :: u64)"
    unfolding sdt_length_def rd_holds(2) [OF h(2)] by (simp only: unat_ucast_up) simp
  then have sl: "(ucast (sdt_length m madt) :: u64) = of_nat (44 + length ?b)" by (simp only: unat_eq_iff)
  have m44: "unat (madt + 44) = unat madt + 44" using assms(4) len by (subst unat_plus_lt) simp_all
  have "madt_loop m (madt + 44) (madt + of_nat (44 + length ?b)) (local_apic_register (ucast ctrl) ap)
      = Some (register_items is (local_apic_register (ucast ctrl) ap))"
    using madt_walk.walk_result [of "(m, madt + 44, madt + of_nat (44 + length ?b))" "is" "local_apic_register (ucast ctrl) ap"]
      h(4) assms(3,4) len m44 by simp
  then show ?thesis
    by (simp only: acpi_parse_sdt_def acpi_parse_madt_def sdt_signature_def rd_holds(2) [OF h(1)] Let_def sl
        madt_local_ctrl_addr_def rd_holds(2) [OF h(3)] sizeof_acpi_madt_t_def simp_thms if_True)
qed

definition demo_items :: "madt_item list" where
  "demo_items = [Local_apic 0 0 1, Local_apic 1 2 1, Io_apic 1 0xfec00000 0, Override 0 0 2 0, Other_item 4 [255, 0, 0, 1]]"

definition demo_madt :: bmem where
  "demo_madt = mem_of 0x7fe0000 (madt_bytes (replicate 28 0) 0xfee00000 1 demo_items)"

lemma demo_madt_length: "length (madt_bytes (replicate 28 0) 0xfee00000 1 demo_items) = 88"
  by (simp add: madt_bytes_def demo_items_def Let_def)

theorem acpi_parse_madt_roundtrip_witness:
  "acpi_parse_sdt demo_madt 0x7fe0000 demo_apics = Some (register_items demo_items (local_apic_register 0xfee00000 demo_apics))"
proof -
  have "holds demo_madt 0x7fe0000 (madt_bytes (replicate 28 0) 0xfee00000 1 demo_items)"
    unfolding demo_madt_def by (rule holds_mem_of) (simp add: demo_madt_length)
  moreover have "list_all item_ok demo_items" by (simp add: demo_items_def)
  ultimately show ?thesis
    using acpi_parse_madt_roundtrip [of demo_madt "0x7fe0000" "replicate 28 0" "0xfee00000" 1 demo_items demo_apics]
    by (simp add: demo_madt_length)
qed

subsection \<open>The search for the root pointer\<close>

lemma rsdp_search_result:
  assumes "unat ptr + 16 * k = 0xFFFFFFFF80100000"
  shows "rsdp_search m ptr =
    (case find (\<lambda>p. rd64 m p = ACPI_RSDP_SIGNATURE) (paragraphs ptr k) of
       None \<Rightarrow> None
     | Some p \<Rightarrow> if sum_bytes sizeof_acpi_rsdp_t m p 0 = (0 :: u8) then Some p else None)"
  using assms
proof (induction k arbitrary: ptr)
  case 0
  then have "\<not> ptr < RSDP_END" by (simp add: unat_less_iff RSDP_END_def KERNEL_BASE_def)
  then show ?case by (subst rsdp_search.simps) (simp add: paragraphs_def)
next
  case (Suc k)
  have lt: "ptr < RSDP_END" using Suc.prems by (simp add: unat_less_iff RSDP_END_def KERNEL_BASE_def)
  have "unat (ptr + 16) = unat ptr + 16" using Suc.prems by (subst unat_plus_lt) simp_all
  then have "unat (ptr + 16) + 16 * k = 0xFFFFFFFF80100000" using Suc.prems by simp
  then show ?case using Suc.IH lt unfolding paragraphs_Suc by (subst rsdp_search.simps) simp
qed

text \<open>
  The root pointer that \<^verbatim>\<open>acpi_find_rsdp\<close> returns is the first paragraph of the BIOS area with the signature,
  if its checksum is right; a wrong checksum ends the search even when a valid structure follows.
\<close>

lemma acpi_find_rsdp_result:
  "acpi_find_rsdp m =
    (case find (\<lambda>p. rd64 m p = ACPI_RSDP_SIGNATURE) (paragraphs RSDP_START 8192) of
       None \<Rightarrow> None
     | Some p \<Rightarrow> if sum_bytes sizeof_acpi_rsdp_t m p 0 = (0 :: u8) then Some p else None)"
  unfolding acpi_find_rsdp_def by (rule rsdp_search_result) (simp add: RSDP_START_def KERNEL_BASE_def)

end
