(* ===== verification/Font.thy ===== *)
theory Font
  imports Prelude
begin

text \<open>
  The font of the frame buffer console, \<^verbatim>\<open>fb_font.c\<close>: a table of 96 glyphs of 16 rows of 9 bytes, the first for
  character 31. A byte is 0xFF for a pixel of the character, 0xbb for its outline and 0 for a pixel that is left
  as it is.
\<close>

subsection \<open>The glyphs\<close>

definition glyph_31 :: "u8 list" where
  "glyph_31 =
    [0x00, 0x00, 0x00, 0x00, 0x00, 0x00, 0x00, 0x00, 0x00,
     0x00, 0x00, 0x00, 0x00, 0x00, 0x00, 0x00, 0x00, 0x00,
     0x00, 0x00, 0x00, 0x00, 0x00, 0x00, 0x00, 0x00, 0x00,
     0x00, 0x00, 0x00, 0x00, 0x00, 0x00, 0x00, 0x00, 0x00,
     0x00, 0x00, 0x00, 0x00, 0x00, 0x00, 0x00, 0x00, 0x00,
     0x00, 0x00, 0x00, 0x00, 0x00, 0x00, 0x00, 0x00, 0x00,
     0x00, 0x00, 0x00, 0x00, 0x00, 0x00, 0x00, 0x00, 0x00,
     0x00, 0x00, 0xbb, 0xbb, 0xbb, 0xbb, 0xbb, 0x00, 0x00,
     0x00, 0x00, 0xbb, 0xFF, 0xFF, 0xFF, 0xbb, 0x00, 0x00,
     0x00, 0x00, 0xbb, 0xbb, 0xbb, 0xbb, 0xbb, 0x00, 0x00,
     0x00, 0x00, 0x00, 0x00, 0x00, 0x00, 0x00, 0x00, 0x00,
     0x00, 0x00, 0x00, 0x00, 0x00, 0x00, 0x00, 0x00, 0x00,
     0x00, 0x00, 0x00, 0x00, 0x00, 0x00, 0x00, 0x00, 0x00,
     0x00, 0x00, 0x00, 0x00, 0x00, 0x00, 0x00, 0x00, 0x00,
     0x00, 0x00, 0x00, 0x00, 0x00, 0x00, 0x00, 0x00, 0x00,
     0x00, 0x00, 0x00, 0x00, 0x00, 0x00, 0x00, 0x00, 0x00]"

definition glyph_32 :: "u8 list" where
  "glyph_32 =
    [0x00, 0x00, 0x00, 0x00, 0x00, 0x00, 0x00, 0x00, 0x00,
     0x00, 0x00, 0x00, 0x00, 0x00, 0x00, 0x00, 0x00, 0x00,
     0x00, 0x00, 0x00, 0x00, 0x00, 0x00, 0x00, 0x00, 0x00,
     0x00, 0x00, 0x00, 0x00, 0x00, 0x00, 0x00, 0x00, 0x00,
     0x00, 0x00, 0x00, 0x00, 0x00, 0x00, 0x00, 0x00, 0x00,
     0x00, 0x00, 0x00, 0x00, 0x00, 0x00, 0x00, 0x00, 0x00,
     0x00, 0x00, 0x00, 0x00, 0x00, 0x00, 0x00, 0x00, 0x00,
     0x00, 0x00, 0x00, 0x00, 0x00, 0x00, 0x00, 0x00, 0x00,
     0x00, 0x00, 0x00, 0x00, 0x00, 0x00, 0x00, 0x00, 0x00,
     0x00, 0x00, 0x00, 0x00, 0x00, 0x00, 0x00, 0x00, 0x00,
     0x00, 0x00, 0x00, 0x00, 0x00, 0x00, 0x00, 0x00, 0x00,
     0x00, 0x00, 0x00, 0x00, 0x00, 0x00, 0x00, 0x00, 0x00,
     0x00, 0x00, 0x00, 0x00, 0x00, 0x00, 0x00, 0x00, 0x00,
     0x00, 0x00, 0x00, 0x00, 0x00, 0x00, 0x00, 0x00, 0x00,
     0x00, 0x00, 0x00, 0x00, 0x00, 0x00, 0x00, 0x00, 0x00,
     0x00, 0x00, 0x00, 0x00, 0x00, 0x00, 0x00, 0x00, 0x00]"

definition glyph_33 :: "u8 list" where
  "glyph_33 =
    [0x00, 0x00, 0x00, 0x00, 0x00, 0x00, 0x00, 0x00, 0x00,
     0x00, 0x00, 0x00, 0x00, 0x00, 0x00, 0x00, 0x00, 0x00,
     0x00, 0x00, 0x00, 0x00, 0x00, 0x00, 0x00, 0x00, 0x00,
     0x00, 0x00, 0x00, 0xbb, 0xbb, 0xbb, 0x00, 0x00, 0x00,
     0x00, 0x00, 0x00, 0xbb, 0xFF, 0xbb, 0x00, 0x00, 0x00,
     0x00, 0x00, 0x00, 0xbb, 0xFF, 0xbb, 0x00, 0x00, 0x00,
     0x00, 0x00, 0x00, 0xbb, 0xFF, 0xbb, 0x00, 0x00, 0x00,
     0x00, 0x00, 0x00, 0xbb, 0xFF, 0xbb, 0x00, 0x00, 0x00,
     0x00, 0x00, 0x00, 0xbb, 0xFF, 0xbb, 0x00, 0x00, 0x00,
     0x00, 0x00, 0x00, 0xbb, 0xFF, 0xbb, 0x00, 0x00, 0x00,
     0x00, 0x00, 0x00, 0xbb, 0xbb, 0xbb, 0x00, 0x00, 0x00,
     0x00, 0x00, 0x00, 0xbb, 0xFF, 0xbb, 0x00, 0x00, 0x00,
     0x00, 0x00, 0x00, 0xbb, 0xbb, 0xbb, 0x00, 0x00, 0x00,
     0x00, 0x00, 0x00, 0x00, 0x00, 0x00, 0x00, 0x00, 0x00,
     0x00, 0x00, 0x00, 0x00, 0x00, 0x00, 0x00, 0x00, 0x00,
     0x00, 0x00, 0x00, 0x00, 0x00, 0x00, 0x00, 0x00, 0x00]"

definition glyph_34 :: "u8 list" where
  "glyph_34 =
    [0x00, 0x00, 0x00, 0x00, 0x00, 0x00, 0x00, 0x00, 0x00,
     0x00, 0x00, 0x00, 0x00, 0x00, 0x00, 0x00, 0x00, 0x00,
     0x00, 0x00, 0xbb, 0xbb, 0xbb, 0xbb, 0xbb, 0x00, 0x00,
     0x00, 0x00, 0xbb, 0xFF, 0xbb, 0xFF, 0xbb, 0x00, 0x00,
     0x00, 0x00, 0xbb, 0xFF, 0xbb, 0xFF, 0xbb, 0x00, 0x00,
     0x00, 0x00, 0xbb, 0xFF, 0xbb, 0xFF, 0xbb, 0x00, 0x00,
     0x00, 0x00, 0xbb, 0xbb, 0xbb, 0xbb, 0xbb, 0x00, 0x00,
     0x00, 0x00, 0x00, 0x00, 0x00, 0x00, 0x00, 0x00, 0x00,
     0x00, 0x00, 0x00, 0x00, 0x00, 0x00, 0x00, 0x00, 0x00,
     0x00, 0x00, 0x00, 0x00, 0x00, 0x00, 0x00, 0x00, 0x00,
     0x00, 0x00, 0x00, 0x00, 0x00, 0x00, 0x00, 0x00, 0x00,
     0x00, 0x00, 0x00, 0x00, 0x00, 0x00, 0x00, 0x00, 0x00,
     0x00, 0x00, 0x00, 0x00, 0x00, 0x00, 0x00, 0x00, 0x00,
     0x00, 0x00, 0x00, 0x00, 0x00, 0x00, 0x00, 0x00, 0x00,
     0x00, 0x00, 0x00, 0x00, 0x00, 0x00, 0x00, 0x00, 0x00,
     0x00, 0x00, 0x00, 0x00, 0x00, 0x00, 0x00, 0x00, 0x00]"

definition glyph_35 :: "u8 list" where
  "glyph_35 =
    [0x00, 0x00, 0x00, 0x00, 0x00, 0x00, 0x00, 0x00, 0x00,
     0x00, 0x00, 0x00, 0x00, 0x00, 0x00, 0x00, 0x00, 0x00,
     0x00, 0x00, 0x00, 0x00, 0x00, 0x00, 0x00, 0x00, 0x00,
     0x00, 0x00, 0xbb, 0xbb, 0xbb, 0xbb, 0xbb, 0x00, 0x00,
     0x00, 0x00, 0xbb, 0xFF, 0xbb, 0xFF, 0xbb, 0x00, 0x00,
     0x00, 0xbb, 0xbb, 0xFF, 0xbb, 0xFF, 0xbb, 0xbb, 0x00,
     0x00, 0xbb, 0xFF, 0xFF, 0xFF, 0xFF, 0xFF, 0xbb, 0x00,
     0x00, 0xbb, 0xbb, 0xFF, 0xbb, 0xFF, 0xbb, 0xbb, 0x00,
     0x00, 0xbb, 0xbb, 0xFF, 0xbb, 0xFF, 0xbb, 0xbb, 0x00,
     0x00, 0xbb, 0xFF, 0xFF, 0xFF, 0xFF, 0xFF, 0xbb, 0x00,
     0x00, 0xbb, 0xbb, 0xFF, 0xbb, 0xFF, 0xbb, 0xbb, 0x00,
     0x00, 0x00, 0xbb, 0xFF, 0xbb, 0xFF, 0xbb, 0x00, 0x00,
     0x00, 0x00, 0xbb, 0xbb, 0xbb, 0xbb, 0xbb, 0x00, 0x00,
     0x00, 0x00, 0x00, 0x00, 0x00, 0x00, 0x00, 0x00, 0x00,
     0x00, 0x00, 0x00, 0x00, 0x00, 0x00, 0x00, 0x00, 0x00,
     0x00, 0x00, 0x00, 0x00, 0x00, 0x00, 0x00, 0x00, 0x00]"

definition glyph_36 :: "u8 list" where
  "glyph_36 =
    [0x00, 0x00, 0x00, 0x00, 0x00, 0x00, 0x00, 0x00, 0x00,
     0x00, 0x00, 0x00, 0x00, 0x00, 0x00, 0x00, 0x00, 0x00,
     0x00, 0x00, 0x00, 0xbb, 0xbb, 0xbb, 0x00, 0x00, 0x00,
     0x00, 0x00, 0xbb, 0xbb, 0xFF, 0xbb, 0xbb, 0x00, 0x00,
     0x00, 0xbb, 0xbb, 0xFF, 0xFF, 0xFF, 0xbb, 0xbb, 0x00,
     0x00, 0xbb, 0xFF, 0xbb, 0xFF, 0xbb, 0xFF, 0xbb, 0x00,
     0x00, 0xbb, 0xFF, 0xbb, 0xFF, 0xbb, 0xbb, 0xbb, 0x00,
     0x00, 0xbb, 0xbb, 0xFF, 0xFF, 0xFF, 0xbb, 0xbb, 0x00,
     0x00, 0x00, 0xbb, 0xbb, 0xFF, 0xbb, 0xFF, 0xbb, 0x00,
     0x00, 0xbb, 0xbb, 0xbb, 0xFF, 0xbb, 0xFF, 0xbb, 0x00,
     0x00, 0xbb, 0xFF, 0xbb, 0xFF, 0xbb, 0xFF, 0xbb, 0x00,
     0x00, 0xbb, 0xbb, 0xFF, 0xFF, 0xFF, 0xbb, 0xbb, 0x00,
     0x00, 0x00, 0xbb, 0xbb, 0xFF, 0xbb, 0xbb, 0x00, 0x00,
     0x00, 0x00, 0x00, 0xbb, 0xbb, 0xbb, 0x00, 0x00, 0x00,
     0x00, 0x00, 0x00, 0x00, 0x00, 0x00, 0x00, 0x00, 0x00,
     0x00, 0x00, 0x00, 0x00, 0x00, 0x00, 0x00, 0x00, 0x00]"

definition glyph_37 :: "u8 list" where
  "glyph_37 =
    [0x00, 0x00, 0x00, 0x00, 0x00, 0x00, 0x00, 0x00, 0x00,
     0x00, 0x00, 0x00, 0x00, 0x00, 0x00, 0x00, 0x00, 0x00,
     0x00, 0x00, 0x00, 0x00, 0x00, 0x00, 0x00, 0x00, 0x00,
     0x00, 0x00, 0xbb, 0xbb, 0xbb, 0x00, 0x00, 0x00, 0x00,
     0x00, 0xbb, 0xbb, 0xFF, 0xbb, 0xbb, 0x00, 0x00, 0x00,
     0x00, 0xbb, 0xFF, 0xbb, 0xFF, 0xbb, 0xbb, 0xbb, 0x00,
     0x00, 0xbb, 0xbb, 0xFF, 0xbb, 0xbb, 0xFF, 0xbb, 0x00,
     0x00, 0x00, 0xbb, 0xbb, 0xbb, 0xFF, 0xbb, 0xbb, 0x00,
     0x00, 0x00, 0xbb, 0xbb, 0xFF, 0xbb, 0xbb, 0x00, 0x00,
     0x00, 0xbb, 0xbb, 0xFF, 0xbb, 0xbb, 0xbb, 0x00, 0x00,
     0x00, 0xbb, 0xFF, 0xbb, 0xbb, 0xFF, 0xbb, 0xbb, 0x00,
     0x00, 0xbb, 0xbb, 0xbb, 0xFF, 0xbb, 0xFF, 0xbb, 0x00,
     0x00, 0x00, 0x00, 0xbb, 0xbb, 0xFF, 0xbb, 0xbb, 0x00,
     0x00, 0x00, 0x00, 0x00, 0xbb, 0xbb, 0xbb, 0x00, 0x00,
     0x00, 0x00, 0x00, 0x00, 0x00, 0x00, 0x00, 0x00, 0x00,
     0x00, 0x00, 0x00, 0x00, 0x00, 0x00, 0x00, 0x00, 0x00]"

definition glyph_38 :: "u8 list" where
  "glyph_38 =
    [0x00, 0x00, 0x00, 0x00, 0x00, 0x00, 0x00, 0x00, 0x00,
     0x00, 0x00, 0x00, 0x00, 0x00, 0x00, 0x00, 0x00, 0x00,
     0x00, 0x00, 0x00, 0x00, 0x00, 0x00, 0x00, 0x00, 0x00,
     0x00, 0x00, 0xbb, 0xbb, 0xbb, 0x00, 0x00, 0x00, 0x00,
     0x00, 0xbb, 0xbb, 0xFF, 0xbb, 0xbb, 0x00, 0x00, 0x00,
     0x00, 0xbb, 0xFF, 0xbb, 0xFF, 0xbb, 0x00, 0x00, 0x00,
     0x00, 0xbb, 0xFF, 0xbb, 0xFF, 0xbb, 0x00, 0x00, 0x00,
     0x00, 0xbb, 0xbb, 0xFF, 0xbb, 0xbb, 0xbb, 0xbb, 0x00,
     0x00, 0xbb, 0xFF, 0xbb, 0xFF, 0xbb, 0xFF, 0xbb, 0x00,
     0x00, 0xbb, 0xFF, 0xbb, 0xbb, 0xFF, 0xbb, 0xbb, 0x00,
     0x00, 0xbb, 0xFF, 0xbb, 0xbb, 0xFF, 0xbb, 0xbb, 0x00,
     0x00, 0xbb, 0xbb, 0xFF, 0xFF, 0xbb, 0xFF, 0xbb, 0x00,
     0x00, 0x00, 0xbb, 0xbb, 0xbb, 0xbb, 0xbb, 0xbb, 0x00,
     0x00, 0x00, 0x00, 0x00, 0x00, 0x00, 0x00, 0x00, 0x00,
     0x00, 0x00, 0x00, 0x00, 0x00, 0x00, 0x00, 0x00, 0x00,
     0x00, 0x00, 0x00, 0x00, 0x00, 0x00, 0x00, 0x00, 0x00]"

definition glyph_39 :: "u8 list" where
  "glyph_39 =
    [0x00, 0x00, 0x00, 0x00, 0x00, 0x00, 0x00, 0x00, 0x00,
     0x00, 0x00, 0x00, 0x00, 0x00, 0x00, 0x00, 0x00, 0x00,
     0x00, 0x00, 0x00, 0xbb, 0xbb, 0xbb, 0x00, 0x00, 0x00,
     0x00, 0x00, 0x00, 0xbb, 0xFF, 0xbb, 0x00, 0x00, 0x00,
     0x00, 0x00, 0x00, 0xbb, 0xFF, 0xbb, 0x00, 0x00, 0x00,
     0x00, 0x00, 0x00, 0xbb, 0xFF, 0xbb, 0x00, 0x00, 0x00,
     0x00, 0x00, 0x00, 0xbb, 0xbb, 0xbb, 0x00, 0x00, 0x00,
     0x00, 0x00, 0x00, 0x00, 0x00, 0x00, 0x00, 0x00, 0x00,
     0x00, 0x00, 0x00, 0x00, 0x00, 0x00, 0x00, 0x00, 0x00,
     0x00, 0x00, 0x00, 0x00, 0x00, 0x00, 0x00, 0x00, 0x00,
     0x00, 0x00, 0x00, 0x00, 0x00, 0x00, 0x00, 0x00, 0x00,
     0x00, 0x00, 0x00, 0x00, 0x00, 0x00, 0x00, 0x00, 0x00,
     0x00, 0x00, 0x00, 0x00, 0x00, 0x00, 0x00, 0x00, 0x00,
     0x00, 0x00, 0x00, 0x00, 0x00, 0x00, 0x00, 0x00, 0x00,
     0x00, 0x00, 0x00, 0x00, 0x00, 0x00, 0x00, 0x00, 0x00,
     0x00, 0x00, 0x00, 0x00, 0x00, 0x00, 0x00, 0x00, 0x00]"

definition glyph_40 :: "u8 list" where
  "glyph_40 =
    [0x00, 0x00, 0x00, 0x00, 0x00, 0x00, 0x00, 0x00, 0x00,
     0x00, 0x00, 0x00, 0x00, 0x00, 0x00, 0x00, 0x00, 0x00,
     0x00, 0x00, 0x00, 0x00, 0xbb, 0xbb, 0xbb, 0x00, 0x00,
     0x00, 0x00, 0x00, 0xbb, 0xbb, 0xFF, 0xbb, 0x00, 0x00,
     0x00, 0x00, 0x00, 0xbb, 0xFF, 0xbb, 0xbb, 0x00, 0x00,
     0x00, 0x00, 0xbb, 0xbb, 0xFF, 0xbb, 0x00, 0x00, 0x00,
     0x00, 0x00, 0xbb, 0xFF, 0xbb, 0xbb, 0x00, 0x00, 0x00,
     0x00, 0x00, 0xbb, 0xFF, 0xbb, 0x00, 0x00, 0x00, 0x00,
     0x00, 0x00, 0xbb, 0xFF, 0xbb, 0x00, 0x00, 0x00, 0x00,
     0x00, 0x00, 0xbb, 0xFF, 0xbb, 0x00, 0x00, 0x00, 0x00,
     0x00, 0x00, 0xbb, 0xFF, 0xbb, 0xbb, 0x00, 0x00, 0x00,
     0x00, 0x00, 0xbb, 0xbb, 0xFF, 0xbb, 0x00, 0x00, 0x00,
     0x00, 0x00, 0x00, 0xbb, 0xFF, 0xbb, 0xbb, 0x00, 0x00,
     0x00, 0x00, 0x00, 0xbb, 0xbb, 0xFF, 0xbb, 0x00, 0x00,
     0x00, 0x00, 0x00, 0x00, 0xbb, 0xbb, 0xbb, 0x00, 0x00,
     0x00, 0x00, 0x00, 0x00, 0x00, 0x00, 0x00, 0x00, 0x00]"

definition glyph_41 :: "u8 list" where
  "glyph_41 =
    [0x00, 0x00, 0x00, 0x00, 0x00, 0x00, 0x00, 0x00, 0x00,
     0x00, 0x00, 0x00, 0x00, 0x00, 0x00, 0x00, 0x00, 0x00,
     0x00, 0x00, 0xbb, 0xbb, 0xbb, 0x00, 0x00, 0x00, 0x00,
     0x00, 0x00, 0xbb, 0xFF, 0xbb, 0xbb, 0x00, 0x00, 0x00,
     0x00, 0x00, 0xbb, 0xbb, 0xFF, 0xbb, 0x00, 0x00, 0x00,
     0x00, 0x00, 0x00, 0xbb, 0xFF, 0xbb, 0xbb, 0x00, 0x00,
     0x00, 0x00, 0x00, 0xbb, 0xbb, 0xFF, 0xbb, 0x00, 0x00,
     0x00, 0x00, 0x00, 0x00, 0xbb, 0xFF, 0xbb, 0x00, 0x00,
     0x00, 0x00, 0x00, 0x00, 0xbb, 0xFF, 0xbb, 0x00, 0x00,
     0x00, 0x00, 0x00, 0x00, 0xbb, 0xFF, 0xbb, 0x00, 0x00,
     0x00, 0x00, 0x00, 0xbb, 0xbb, 0xFF, 0xbb, 0x00, 0x00,
     0x00, 0x00, 0x00, 0xbb, 0xFF, 0xbb, 0xbb, 0x00, 0x00,
     0x00, 0x00, 0xbb, 0xbb, 0xFF, 0xbb, 0x00, 0x00, 0x00,
     0x00, 0x00, 0xbb, 0xFF, 0xbb, 0xbb, 0x00, 0x00, 0x00,
     0x00, 0x00, 0xbb, 0xbb, 0xbb, 0x00, 0x00, 0x00, 0x00,
     0x00, 0x00, 0x00, 0x00, 0x00, 0x00, 0x00, 0x00, 0x00]"

definition glyph_42 :: "u8 list" where
  "glyph_42 =
    [0x00, 0x00, 0x00, 0x00, 0x00, 0x00, 0x00, 0x00, 0x00,
     0x00, 0x00, 0x00, 0x00, 0x00, 0x00, 0x00, 0x00, 0x00,
     0x00, 0x00, 0x00, 0x00, 0x00, 0x00, 0x00, 0x00, 0x00,
     0x00, 0x00, 0x00, 0x00, 0x00, 0x00, 0x00, 0x00, 0x00,
     0x00, 0x00, 0x00, 0x00, 0x00, 0x00, 0x00, 0x00, 0x00,
     0x00, 0x00, 0xbb, 0xbb, 0xbb, 0xbb, 0xbb, 0x00, 0x00,
     0x00, 0x00, 0xbb, 0xFF, 0xbb, 0xFF, 0xbb, 0x00, 0x00,
     0x00, 0xbb, 0xbb, 0xbb, 0xFF, 0xbb, 0xbb, 0xbb, 0x00,
     0x00, 0xbb, 0xFF, 0xFF, 0xFF, 0xFF, 0xFF, 0xbb, 0x00,
     0x00, 0xbb, 0xbb, 0xbb, 0xFF, 0xbb, 0xbb, 0xbb, 0x00,
     0x00, 0x00, 0xbb, 0xFF, 0xbb, 0xFF, 0xbb, 0x00, 0x00,
     0x00, 0x00, 0xbb, 0xbb, 0xbb, 0xbb, 0xbb, 0x00, 0x00,
     0x00, 0x00, 0x00, 0x00, 0x00, 0x00, 0x00, 0x00, 0x00,
     0x00, 0x00, 0x00, 0x00, 0x00, 0x00, 0x00, 0x00, 0x00,
     0x00, 0x00, 0x00, 0x00, 0x00, 0x00, 0x00, 0x00, 0x00,
     0x00, 0x00, 0x00, 0x00, 0x00, 0x00, 0x00, 0x00, 0x00]"

definition glyph_43 :: "u8 list" where
  "glyph_43 =
    [0x00, 0x00, 0x00, 0x00, 0x00, 0x00, 0x00, 0x00, 0x00,
     0x00, 0x00, 0x00, 0x00, 0x00, 0x00, 0x00, 0x00, 0x00,
     0x00, 0x00, 0x00, 0x00, 0x00, 0x00, 0x00, 0x00, 0x00,
     0x00, 0x00, 0x00, 0x00, 0x00, 0x00, 0x00, 0x00, 0x00,
     0x00, 0x00, 0x00, 0x00, 0x00, 0x00, 0x00, 0x00, 0x00,
     0x00, 0x00, 0x00, 0xbb, 0xbb, 0xbb, 0x00, 0x00, 0x00,
     0x00, 0x00, 0x00, 0xbb, 0xFF, 0xbb, 0x00, 0x00, 0x00,
     0x00, 0xbb, 0xbb, 0xbb, 0xFF, 0xbb, 0xbb, 0xbb, 0x00,
     0x00, 0xbb, 0xFF, 0xFF, 0xFF, 0xFF, 0xFF, 0xbb, 0x00,
     0x00, 0xbb, 0xbb, 0xbb, 0xFF, 0xbb, 0xbb, 0xbb, 0x00,
     0x00, 0x00, 0x00, 0xbb, 0xFF, 0xbb, 0x00, 0x00, 0x00,
     0x00, 0x00, 0x00, 0xbb, 0xbb, 0xbb, 0x00, 0x00, 0x00,
     0x00, 0x00, 0x00, 0x00, 0x00, 0x00, 0x00, 0x00, 0x00,
     0x00, 0x00, 0x00, 0x00, 0x00, 0x00, 0x00, 0x00, 0x00,
     0x00, 0x00, 0x00, 0x00, 0x00, 0x00, 0x00, 0x00, 0x00,
     0x00, 0x00, 0x00, 0x00, 0x00, 0x00, 0x00, 0x00, 0x00]"

definition glyph_44 :: "u8 list" where
  "glyph_44 =
    [0x00, 0x00, 0x00, 0x00, 0x00, 0x00, 0x00, 0x00, 0x00,
     0x00, 0x00, 0x00, 0x00, 0x00, 0x00, 0x00, 0x00, 0x00,
     0x00, 0x00, 0x00, 0x00, 0x00, 0x00, 0x00, 0x00, 0x00,
     0x00, 0x00, 0x00, 0x00, 0x00, 0x00, 0x00, 0x00, 0x00,
     0x00, 0x00, 0x00, 0x00, 0x00, 0x00, 0x00, 0x00, 0x00,
     0x00, 0x00, 0x00, 0x00, 0x00, 0x00, 0x00, 0x00, 0x00,
     0x00, 0x00, 0x00, 0x00, 0x00, 0x00, 0x00, 0x00, 0x00,
     0x00, 0x00, 0x00, 0x00, 0x00, 0x00, 0x00, 0x00, 0x00,
     0x00, 0x00, 0x00, 0x00, 0x00, 0x00, 0x00, 0x00, 0x00,
     0x00, 0x00, 0x00, 0xbb, 0xbb, 0xbb, 0x00, 0x00, 0x00,
     0x00, 0x00, 0x00, 0xbb, 0xFF, 0xbb, 0x00, 0x00, 0x00,
     0x00, 0x00, 0x00, 0xbb, 0xFF, 0xbb, 0x00, 0x00, 0x00,
     0x00, 0x00, 0xbb, 0xbb, 0xFF, 0xbb, 0x00, 0x00, 0x00,
     0x00, 0x00, 0xbb, 0xFF, 0xbb, 0xbb, 0x00, 0x00, 0x00,
     0x00, 0x00, 0xbb, 0xbb, 0xbb, 0x00, 0x00, 0x00, 0x00,
     0x00, 0x00, 0x00, 0x00, 0x00, 0x00, 0x00, 0x00, 0x00]"

definition glyph_45 :: "u8 list" where
  "glyph_45 =
    [0x00, 0x00, 0x00, 0x00, 0x00, 0x00, 0x00, 0x00, 0x00,
     0x00, 0x00, 0x00, 0x00, 0x00, 0x00, 0x00, 0x00, 0x00,
     0x00, 0x00, 0x00, 0x00, 0x00, 0x00, 0x00, 0x00, 0x00,
     0x00, 0x00, 0x00, 0x00, 0x00, 0x00, 0x00, 0x00, 0x00,
     0x00, 0x00, 0x00, 0x00, 0x00, 0x00, 0x00, 0x00, 0x00,
     0x00, 0x00, 0x00, 0x00, 0x00, 0x00, 0x00, 0x00, 0x00,
     0x00, 0x00, 0x00, 0x00, 0x00, 0x00, 0x00, 0x00, 0x00,
     0x00, 0xbb, 0xbb, 0xbb, 0xbb, 0xbb, 0xbb, 0xbb, 0x00,
     0x00, 0xbb, 0xFF, 0xFF, 0xFF, 0xFF, 0xFF, 0xbb, 0x00,
     0x00, 0xbb, 0xbb, 0xbb, 0xbb, 0xbb, 0xbb, 0xbb, 0x00,
     0x00, 0x00, 0x00, 0x00, 0x00, 0x00, 0x00, 0x00, 0x00,
     0x00, 0x00, 0x00, 0x00, 0x00, 0x00, 0x00, 0x00, 0x00,
     0x00, 0x00, 0x00, 0x00, 0x00, 0x00, 0x00, 0x00, 0x00,
     0x00, 0x00, 0x00, 0x00, 0x00, 0x00, 0x00, 0x00, 0x00,
     0x00, 0x00, 0x00, 0x00, 0x00, 0x00, 0x00, 0x00, 0x00,
     0x00, 0x00, 0x00, 0x00, 0x00, 0x00, 0x00, 0x00, 0x00]"

definition glyph_46 :: "u8 list" where
  "glyph_46 =
    [0x00, 0x00, 0x00, 0x00, 0x00, 0x00, 0x00, 0x00, 0x00,
     0x00, 0x00, 0x00, 0x00, 0x00, 0x00, 0x00, 0x00, 0x00,
     0x00, 0x00, 0x00, 0x00, 0x00, 0x00, 0x00, 0x00, 0x00,
     0x00, 0x00, 0x00, 0x00, 0x00, 0x00, 0x00, 0x00, 0x00,
     0x00, 0x00, 0x00, 0x00, 0x00, 0x00, 0x00, 0x00, 0x00,
     0x00, 0x00, 0x00, 0x00, 0x00, 0x00, 0x00, 0x00, 0x00,
     0x00, 0x00, 0x00, 0x00, 0x00, 0x00, 0x00, 0x00, 0x00,
     0x00, 0x00, 0x00, 0x00, 0x00, 0x00, 0x00, 0x00, 0x00,
     0x00, 0x00, 0x00, 0x00, 0x00, 0x00, 0x00, 0x00, 0x00,
     0x00, 0x00, 0x00, 0xbb, 0xbb, 0xbb, 0x00, 0x00, 0x00,
     0x00, 0x00, 0x00, 0xbb, 0xFF, 0xbb, 0x00, 0x00, 0x00,
     0x00, 0x00, 0x00, 0xbb, 0xFF, 0xbb, 0x00, 0x00, 0x00,
     0x00, 0x00, 0x00, 0xbb, 0xbb, 0xbb, 0x00, 0x00, 0x00,
     0x00, 0x00, 0x00, 0x00, 0x00, 0x00, 0x00, 0x00, 0x00,
     0x00, 0x00, 0x00, 0x00, 0x00, 0x00, 0x00, 0x00, 0x00,
     0x00, 0x00, 0x00, 0x00, 0x00, 0x00, 0x00, 0x00, 0x00]"

definition glyph_47 :: "u8 list" where
  "glyph_47 =
    [0x00, 0x00, 0x00, 0x00, 0x00, 0x00, 0x00, 0x00, 0x00,
     0x00, 0x00, 0x00, 0x00, 0x00, 0x00, 0x00, 0x00, 0x00,
     0x00, 0x00, 0x00, 0x00, 0x00, 0xbb, 0xbb, 0xbb, 0x00,
     0x00, 0x00, 0x00, 0x00, 0x00, 0xbb, 0xFF, 0xbb, 0x00,
     0x00, 0x00, 0x00, 0x00, 0xbb, 0xbb, 0xFF, 0xbb, 0x00,
     0x00, 0x00, 0x00, 0x00, 0xbb, 0xFF, 0xbb, 0xbb, 0x00,
     0x00, 0x00, 0x00, 0xbb, 0xbb, 0xFF, 0xbb, 0x00, 0x00,
     0x00, 0x00, 0x00, 0xbb, 0xFF, 0xbb, 0xbb, 0x00, 0x00,
     0x00, 0x00, 0xbb, 0xbb, 0xFF, 0xbb, 0x00, 0x00, 0x00,
     0x00, 0x00, 0xbb, 0xFF, 0xbb, 0xbb, 0x00, 0x00, 0x00,
     0x00, 0xbb, 0xbb, 0xFF, 0xbb, 0x00, 0x00, 0x00, 0x00,
     0x00, 0xbb, 0xFF, 0xbb, 0xbb, 0x00, 0x00, 0x00, 0x00,
     0x00, 0xbb, 0xFF, 0xbb, 0x00, 0x00, 0x00, 0x00, 0x00,
     0x00, 0xbb, 0xbb, 0xbb, 0x00, 0x00, 0x00, 0x00, 0x00,
     0x00, 0x00, 0x00, 0x00, 0x00, 0x00, 0x00, 0x00, 0x00,
     0x00, 0x00, 0x00, 0x00, 0x00, 0x00, 0x00, 0x00, 0x00]"

definition glyph_48 :: "u8 list" where
  "glyph_48 =
    [0x00, 0x00, 0x00, 0x00, 0x00, 0x00, 0x00, 0x00, 0x00,
     0x00, 0x00, 0x00, 0x00, 0x00, 0x00, 0x00, 0x00, 0x00,
     0x00, 0x00, 0x00, 0x00, 0x00, 0x00, 0x00, 0x00, 0x00,
     0x00, 0x00, 0xbb, 0xbb, 0xbb, 0xbb, 0xbb, 0x00, 0x00,
     0x00, 0xbb, 0xbb, 0xFF, 0xFF, 0xFF, 0xbb, 0xbb, 0x00,
     0x00, 0xbb, 0xFF, 0xbb, 0xbb, 0xbb, 0xFF, 0xbb, 0x00,
     0x00, 0xbb, 0xFF, 0xbb, 0xbb, 0xFF, 0xFF, 0xbb, 0x00,
     0x00, 0xbb, 0xFF, 0xbb, 0xFF, 0xbb, 0xFF, 0xbb, 0x00,
     0x00, 0xbb, 0xFF, 0xbb, 0xFF, 0xbb, 0xFF, 0xbb, 0x00,
     0x00, 0xbb, 0xFF, 0xFF, 0xbb, 0xbb, 0xFF, 0xbb, 0x00,
     0x00, 0xbb, 0xFF, 0xbb, 0xbb, 0xbb, 0xFF, 0xbb, 0x00,
     0x00, 0xbb, 0xbb, 0xFF, 0xFF, 0xFF, 0xbb, 0xbb, 0x00,
     0x00, 0x00, 0xbb, 0xbb, 0xbb, 0xbb, 0xbb, 0x00, 0x00,
     0x00, 0x00, 0x00, 0x00, 0x00, 0x00, 0x00, 0x00, 0x00,
     0x00, 0x00, 0x00, 0x00, 0x00, 0x00, 0x00, 0x00, 0x00,
     0x00, 0x00, 0x00, 0x00, 0x00, 0x00, 0x00, 0x00, 0x00]"

definition glyph_49 :: "u8 list" where
  "glyph_49 =
    [0x00, 0x00, 0x00, 0x00, 0x00, 0x00, 0x00, 0x00, 0x00,
     0x00, 0x00, 0x00, 0x00, 0x00, 0x00, 0x00, 0x00, 0x00,
     0x00, 0x00, 0x00, 0x00, 0x00, 0x00, 0x00, 0x00, 0x00,
     0x00, 0x00, 0x00, 0xbb, 0xbb, 0xbb, 0x00, 0x00, 0x00,
     0x00, 0x00, 0xbb, 0xbb, 0xFF, 0xbb, 0x00, 0x00, 0x00,
     0x00, 0xbb, 0xbb, 0xFF, 0xFF, 0xbb, 0x00, 0x00, 0x00,
     0x00, 0xbb, 0xFF, 0xbb, 0xFF, 0xbb, 0x00, 0x00, 0x00,
     0x00, 0xbb, 0xbb, 0xbb, 0xFF, 0xbb, 0x00, 0x00, 0x00,
     0x00, 0x00, 0x00, 0xbb, 0xFF, 0xbb, 0x00, 0x00, 0x00,
     0x00, 0x00, 0x00, 0xbb, 0xFF, 0xbb, 0x00, 0x00, 0x00,
     0x00, 0xbb, 0xbb, 0xbb, 0xFF, 0xbb, 0xbb, 0xbb, 0x00,
     0x00, 0xbb, 0xFF, 0xFF, 0xFF, 0xFF, 0xFF, 0xbb, 0x00,
     0x00, 0xbb, 0xbb, 0xbb, 0xbb, 0xbb, 0xbb, 0xbb, 0x00,
     0x00, 0x00, 0x00, 0x00, 0x00, 0x00, 0x00, 0x00, 0x00,
     0x00, 0x00, 0x00, 0x00, 0x00, 0x00, 0x00, 0x00, 0x00,
     0x00, 0x00, 0x00, 0x00, 0x00, 0x00, 0x00, 0x00, 0x00]"

definition glyph_50 :: "u8 list" where
  "glyph_50 =
    [0x00, 0x00, 0x00, 0x00, 0x00, 0x00, 0x00, 0x00, 0x00,
     0x00, 0x00, 0x00, 0x00, 0x00, 0x00, 0x00, 0x00, 0x00,
     0x00, 0x00, 0x00, 0x00, 0x00, 0x00, 0x00, 0x00, 0x00,
     0x00, 0x00, 0xbb, 0xbb, 0xbb, 0xbb, 0xbb, 0x00, 0x00,
     0x00, 0xbb, 0xbb, 0xFF, 0xFF, 0xFF, 0xbb, 0xbb, 0x00,
     0x00, 0xbb, 0xFF, 0xbb, 0xbb, 0xbb, 0xFF, 0xbb, 0x00,
     0x00, 0xbb, 0xbb, 0xbb, 0xbb, 0xbb, 0xFF, 0xbb, 0x00,
     0x00, 0x00, 0x00, 0xbb, 0xbb, 0xFF, 0xbb, 0xbb, 0x00,
     0x00, 0x00, 0xbb, 0xbb, 0xFF, 0xbb, 0xbb, 0x00, 0x00,
     0x00, 0xbb, 0xbb, 0xFF, 0xbb, 0xbb, 0x00, 0x00, 0x00,
     0x00, 0xbb, 0xFF, 0xbb, 0xbb, 0xbb, 0xbb, 0xbb, 0x00,
     0x00, 0xbb, 0xFF, 0xFF, 0xFF, 0xFF, 0xFF, 0xbb, 0x00,
     0x00, 0xbb, 0xbb, 0xbb, 0xbb, 0xbb, 0xbb, 0xbb, 0x00,
     0x00, 0x00, 0x00, 0x00, 0x00, 0x00, 0x00, 0x00, 0x00,
     0x00, 0x00, 0x00, 0x00, 0x00, 0x00, 0x00, 0x00, 0x00,
     0x00, 0x00, 0x00, 0x00, 0x00, 0x00, 0x00, 0x00, 0x00]"

definition glyph_51 :: "u8 list" where
  "glyph_51 =
    [0x00, 0x00, 0x00, 0x00, 0x00, 0x00, 0x00, 0x00, 0x00,
     0x00, 0x00, 0x00, 0x00, 0x00, 0x00, 0x00, 0x00, 0x00,
     0x00, 0x00, 0x00, 0x00, 0x00, 0x00, 0x00, 0x00, 0x00,
     0x00, 0x00, 0xbb, 0xbb, 0xbb, 0xbb, 0xbb, 0x00, 0x00,
     0x00, 0xbb, 0xbb, 0xFF, 0xFF, 0xFF, 0xbb, 0xbb, 0x00,
     0x00, 0xbb, 0xFF, 0xbb, 0xbb, 0xbb, 0xFF, 0xbb, 0x00,
     0x00, 0xbb, 0xbb, 0xbb, 0xbb, 0xbb, 0xFF, 0xbb, 0x00,
     0x00, 0x00, 0x00, 0xbb, 0xFF, 0xFF, 0xbb, 0xbb, 0x00,
     0x00, 0x00, 0x00, 0xbb, 0xbb, 0xbb, 0xFF, 0xbb, 0x00,
     0x00, 0xbb, 0xbb, 0xbb, 0x00, 0xbb, 0xFF, 0xbb, 0x00,
     0x00, 0xbb, 0xFF, 0xbb, 0xbb, 0xbb, 0xFF, 0xbb, 0x00,
     0x00, 0xbb, 0xbb, 0xFF, 0xFF, 0xFF, 0xbb, 0xbb, 0x00,
     0x00, 0x00, 0xbb, 0xbb, 0xbb, 0xbb, 0xbb, 0x00, 0x00,
     0x00, 0x00, 0x00, 0x00, 0x00, 0x00, 0x00, 0x00, 0x00,
     0x00, 0x00, 0x00, 0x00, 0x00, 0x00, 0x00, 0x00, 0x00,
     0x00, 0x00, 0x00, 0x00, 0x00, 0x00, 0x00, 0x00, 0x00]"

definition glyph_52 :: "u8 list" where
  "glyph_52 =
    [0x00, 0x00, 0x00, 0x00, 0x00, 0x00, 0x00, 0x00, 0x00,
     0x00, 0x00, 0x00, 0x00, 0x00, 0x00, 0x00, 0x00, 0x00,
     0x00, 0x00, 0x00, 0x00, 0x00, 0x00, 0x00, 0x00, 0x00,
     0x00, 0x00, 0x00, 0x00, 0x00, 0xbb, 0xbb, 0xbb, 0x00,
     0x00, 0x00, 0x00, 0x00, 0xbb, 0xbb, 0xFF, 0xbb, 0x00,
     0x00, 0x00, 0x00, 0xbb, 0xbb, 0xFF, 0xFF, 0xbb, 0x00,
     0x00, 0x00, 0xbb, 0xbb, 0xFF, 0xbb, 0xFF, 0xbb, 0x00,
     0x00, 0xbb, 0xbb, 0xFF, 0xbb, 0xbb, 0xFF, 0xbb, 0x00,
     0x00, 0xbb, 0xFF, 0xbb, 0xbb, 0xbb, 0xFF, 0xbb, 0xbb,
     0x00, 0xbb, 0xFF, 0xFF, 0xFF, 0xFF, 0xFF, 0xFF, 0xbb,
     0x00, 0xbb, 0xbb, 0xbb, 0xbb, 0xbb, 0xFF, 0xbb, 0xbb,
     0x00, 0x00, 0x00, 0x00, 0x00, 0xbb, 0xFF, 0xbb, 0x00,
     0x00, 0x00, 0x00, 0x00, 0x00, 0xbb, 0xbb, 0xbb, 0x00,
     0x00, 0x00, 0x00, 0x00, 0x00, 0x00, 0x00, 0x00, 0x00,
     0x00, 0x00, 0x00, 0x00, 0x00, 0x00, 0x00, 0x00, 0x00,
     0x00, 0x00, 0x00, 0x00, 0x00, 0x00, 0x00, 0x00, 0x00]"

definition glyph_53 :: "u8 list" where
  "glyph_53 =
    [0x00, 0x00, 0x00, 0x00, 0x00, 0x00, 0x00, 0x00, 0x00,
     0x00, 0x00, 0x00, 0x00, 0x00, 0x00, 0x00, 0x00, 0x00,
     0x00, 0x00, 0x00, 0x00, 0x00, 0x00, 0x00, 0x00, 0x00,
     0x00, 0xbb, 0xbb, 0xbb, 0xbb, 0xbb, 0xbb, 0xbb, 0x00,
     0x00, 0xbb, 0xFF, 0xFF, 0xFF, 0xFF, 0xFF, 0xbb, 0x00,
     0x00, 0xbb, 0xFF, 0xbb, 0xbb, 0xbb, 0xbb, 0xbb, 0x00,
     0x00, 0xbb, 0xFF, 0xbb, 0xbb, 0xbb, 0xbb, 0x00, 0x00,
     0x00, 0xbb, 0xFF, 0xFF, 0xFF, 0xFF, 0xbb, 0xbb, 0x00,
     0x00, 0xbb, 0xbb, 0xbb, 0xbb, 0xbb, 0xFF, 0xbb, 0x00,
     0x00, 0xbb, 0xbb, 0xbb, 0x00, 0xbb, 0xFF, 0xbb, 0x00,
     0x00, 0xbb, 0xFF, 0xbb, 0xbb, 0xbb, 0xFF, 0xbb, 0x00,
     0x00, 0xbb, 0xbb, 0xFF, 0xFF, 0xFF, 0xbb, 0xbb, 0x00,
     0x00, 0x00, 0xbb, 0xbb, 0xbb, 0xbb, 0xbb, 0x00, 0x00,
     0x00, 0x00, 0x00, 0x00, 0x00, 0x00, 0x00, 0x00, 0x00,
     0x00, 0x00, 0x00, 0x00, 0x00, 0x00, 0x00, 0x00, 0x00,
     0x00, 0x00, 0x00, 0x00, 0x00, 0x00, 0x00, 0x00, 0x00]"

definition glyph_54 :: "u8 list" where
  "glyph_54 =
    [0x00, 0x00, 0x00, 0x00, 0x00, 0x00, 0x00, 0x00, 0x00,
     0x00, 0x00, 0x00, 0x00, 0x00, 0x00, 0x00, 0x00, 0x00,
     0x00, 0x00, 0x00, 0x00, 0x00, 0x00, 0x00, 0x00, 0x00,
     0x00, 0x00, 0x00, 0xbb, 0xbb, 0xbb, 0xbb, 0x00, 0x00,
     0x00, 0x00, 0xbb, 0xbb, 0xFF, 0xFF, 0xbb, 0x00, 0x00,
     0x00, 0xbb, 0xbb, 0xFF, 0xbb, 0xbb, 0xbb, 0x00, 0x00,
     0x00, 0xbb, 0xFF, 0xbb, 0xbb, 0xbb, 0xbb, 0x00, 0x00,
     0x00, 0xbb, 0xFF, 0xFF, 0xFF, 0xFF, 0xbb, 0xbb, 0x00,
     0x00, 0xbb, 0xFF, 0xbb, 0xbb, 0xbb, 0xFF, 0xbb, 0x00,
     0x00, 0xbb, 0xFF, 0xbb, 0x00, 0xbb, 0xFF, 0xbb, 0x00,
     0x00, 0xbb, 0xFF, 0xbb, 0xbb, 0xbb, 0xFF, 0xbb, 0x00,
     0x00, 0xbb, 0xbb, 0xFF, 0xFF, 0xFF, 0xbb, 0xbb, 0x00,
     0x00, 0x00, 0xbb, 0xbb, 0xbb, 0xbb, 0xbb, 0x00, 0x00,
     0x00, 0x00, 0x00, 0x00, 0x00, 0x00, 0x00, 0x00, 0x00,
     0x00, 0x00, 0x00, 0x00, 0x00, 0x00, 0x00, 0x00, 0x00,
     0x00, 0x00, 0x00, 0x00, 0x00, 0x00, 0x00, 0x00, 0x00]"

definition glyph_55 :: "u8 list" where
  "glyph_55 =
    [0x00, 0x00, 0x00, 0x00, 0x00, 0x00, 0x00, 0x00, 0x00,
     0x00, 0x00, 0x00, 0x00, 0x00, 0x00, 0x00, 0x00, 0x00,
     0x00, 0x00, 0x00, 0x00, 0x00, 0x00, 0x00, 0x00, 0x00,
     0x00, 0xbb, 0xbb, 0xbb, 0xbb, 0xbb, 0xbb, 0xbb, 0x00,
     0x00, 0xbb, 0xFF, 0xFF, 0xFF, 0xFF, 0xFF, 0xbb, 0x00,
     0x00, 0xbb, 0xbb, 0xbb, 0xbb, 0xbb, 0xFF, 0xbb, 0x00,
     0x00, 0x00, 0x00, 0x00, 0xbb, 0xFF, 0xbb, 0xbb, 0x00,
     0x00, 0x00, 0x00, 0xbb, 0xbb, 0xFF, 0xbb, 0x00, 0x00,
     0x00, 0x00, 0x00, 0xbb, 0xFF, 0xbb, 0xbb, 0x00, 0x00,
     0x00, 0x00, 0xbb, 0xbb, 0xFF, 0xbb, 0x00, 0x00, 0x00,
     0x00, 0x00, 0xbb, 0xFF, 0xbb, 0xbb, 0x00, 0x00, 0x00,
     0x00, 0x00, 0xbb, 0xFF, 0xbb, 0x00, 0x00, 0x00, 0x00,
     0x00, 0x00, 0xbb, 0xbb, 0xbb, 0x00, 0x00, 0x00, 0x00,
     0x00, 0x00, 0x00, 0x00, 0x00, 0x00, 0x00, 0x00, 0x00,
     0x00, 0x00, 0x00, 0x00, 0x00, 0x00, 0x00, 0x00, 0x00,
     0x00, 0x00, 0x00, 0x00, 0x00, 0x00, 0x00, 0x00, 0x00]"

definition glyph_56 :: "u8 list" where
  "glyph_56 =
    [0x00, 0x00, 0x00, 0x00, 0x00, 0x00, 0x00, 0x00, 0x00,
     0x00, 0x00, 0x00, 0x00, 0x00, 0x00, 0x00, 0x00, 0x00,
     0x00, 0x00, 0x00, 0x00, 0x00, 0x00, 0x00, 0x00, 0x00,
     0x00, 0x00, 0xbb, 0xbb, 0xbb, 0xbb, 0xbb, 0x00, 0x00,
     0x00, 0xbb, 0xbb, 0xFF, 0xFF, 0xFF, 0xbb, 0xbb, 0x00,
     0x00, 0xbb, 0xFF, 0xbb, 0xbb, 0xbb, 0xFF, 0xbb, 0x00,
     0x00, 0xbb, 0xFF, 0xbb, 0xbb, 0xbb, 0xFF, 0xbb, 0x00,
     0x00, 0xbb, 0xbb, 0xFF, 0xFF, 0xFF, 0xbb, 0xbb, 0x00,
     0x00, 0xbb, 0xFF, 0xbb, 0xbb, 0xbb, 0xFF, 0xbb, 0x00,
     0x00, 0xbb, 0xFF, 0xbb, 0x00, 0xbb, 0xFF, 0xbb, 0x00,
     0x00, 0xbb, 0xFF, 0xbb, 0xbb, 0xbb, 0xFF, 0xbb, 0x00,
     0x00, 0xbb, 0xbb, 0xFF, 0xFF, 0xFF, 0xbb, 0xbb, 0x00,
     0x00, 0x00, 0xbb, 0xbb, 0xbb, 0xbb, 0xbb, 0x00, 0x00,
     0x00, 0x00, 0x00, 0x00, 0x00, 0x00, 0x00, 0x00, 0x00,
     0x00, 0x00, 0x00, 0x00, 0x00, 0x00, 0x00, 0x00, 0x00,
     0x00, 0x00, 0x00, 0x00, 0x00, 0x00, 0x00, 0x00, 0x00]"

definition glyph_57 :: "u8 list" where
  "glyph_57 =
    [0x00, 0x00, 0x00, 0x00, 0x00, 0x00, 0x00, 0x00, 0x00,
     0x00, 0x00, 0x00, 0x00, 0x00, 0x00, 0x00, 0x00, 0x00,
     0x00, 0x00, 0x00, 0x00, 0x00, 0x00, 0x00, 0x00, 0x00,
     0x00, 0x00, 0xbb, 0xbb, 0xbb, 0xbb, 0xbb, 0x00, 0x00,
     0x00, 0xbb, 0xbb, 0xFF, 0xFF, 0xFF, 0xbb, 0xbb, 0x00,
     0x00, 0xbb, 0xFF, 0xbb, 0xbb, 0xbb, 0xFF, 0xbb, 0x00,
     0x00, 0xbb, 0xFF, 0xbb, 0x00, 0xbb, 0xFF, 0xbb, 0x00,
     0x00, 0xbb, 0xFF, 0xbb, 0xbb, 0xbb, 0xFF, 0xbb, 0x00,
     0x00, 0xbb, 0xbb, 0xFF, 0xFF, 0xFF, 0xFF, 0xbb, 0x00,
     0x00, 0x00, 0xbb, 0xbb, 0xbb, 0xbb, 0xFF, 0xbb, 0x00,
     0x00, 0x00, 0xbb, 0xbb, 0xbb, 0xFF, 0xbb, 0xbb, 0x00,
     0x00, 0x00, 0xbb, 0xFF, 0xFF, 0xbb, 0xbb, 0x00, 0x00,
     0x00, 0x00, 0xbb, 0xbb, 0xbb, 0xbb, 0x00, 0x00, 0x00,
     0x00, 0x00, 0x00, 0x00, 0x00, 0x00, 0x00, 0x00, 0x00,
     0x00, 0x00, 0x00, 0x00, 0x00, 0x00, 0x00, 0x00, 0x00,
     0x00, 0x00, 0x00, 0x00, 0x00, 0x00, 0x00, 0x00, 0x00]"

definition glyph_58 :: "u8 list" where
  "glyph_58 =
    [0x00, 0x00, 0x00, 0x00, 0x00, 0x00, 0x00, 0x00, 0x00,
     0x00, 0x00, 0x00, 0x00, 0x00, 0x00, 0x00, 0x00, 0x00,
     0x00, 0x00, 0x00, 0x00, 0x00, 0x00, 0x00, 0x00, 0x00,
     0x00, 0x00, 0x00, 0x00, 0x00, 0x00, 0x00, 0x00, 0x00,
     0x00, 0x00, 0x00, 0x00, 0x00, 0x00, 0x00, 0x00, 0x00,
     0x00, 0x00, 0x00, 0xbb, 0xbb, 0xbb, 0x00, 0x00, 0x00,
     0x00, 0x00, 0x00, 0xbb, 0xFF, 0xbb, 0x00, 0x00, 0x00,
     0x00, 0x00, 0x00, 0xbb, 0xFF, 0xbb, 0x00, 0x00, 0x00,
     0x00, 0x00, 0x00, 0xbb, 0xbb, 0xbb, 0x00, 0x00, 0x00,
     0x00, 0x00, 0x00, 0xbb, 0xbb, 0xbb, 0x00, 0x00, 0x00,
     0x00, 0x00, 0x00, 0xbb, 0xFF, 0xbb, 0x00, 0x00, 0x00,
     0x00, 0x00, 0x00, 0xbb, 0xFF, 0xbb, 0x00, 0x00, 0x00,
     0x00, 0x00, 0x00, 0xbb, 0xbb, 0xbb, 0x00, 0x00, 0x00,
     0x00, 0x00, 0x00, 0x00, 0x00, 0x00, 0x00, 0x00, 0x00,
     0x00, 0x00, 0x00, 0x00, 0x00, 0x00, 0x00, 0x00, 0x00,
     0x00, 0x00, 0x00, 0x00, 0x00, 0x00, 0x00, 0x00, 0x00]"

definition glyph_59 :: "u8 list" where
  "glyph_59 =
    [0x00, 0x00, 0x00, 0x00, 0x00, 0x00, 0x00, 0x00, 0x00,
     0x00, 0x00, 0x00, 0x00, 0x00, 0x00, 0x00, 0x00, 0x00,
     0x00, 0x00, 0x00, 0x00, 0x00, 0x00, 0x00, 0x00, 0x00,
     0x00, 0x00, 0x00, 0x00, 0x00, 0x00, 0x00, 0x00, 0x00,
     0x00, 0x00, 0x00, 0x00, 0x00, 0x00, 0x00, 0x00, 0x00,
     0x00, 0x00, 0x00, 0xbb, 0xbb, 0xbb, 0x00, 0x00, 0x00,
     0x00, 0x00, 0x00, 0xbb, 0xFF, 0xbb, 0x00, 0x00, 0x00,
     0x00, 0x00, 0x00, 0xbb, 0xFF, 0xbb, 0x00, 0x00, 0x00,
     0x00, 0x00, 0x00, 0xbb, 0xbb, 0xbb, 0x00, 0x00, 0x00,
     0x00, 0x00, 0x00, 0xbb, 0xbb, 0xbb, 0x00, 0x00, 0x00,
     0x00, 0x00, 0x00, 0xbb, 0xFF, 0xbb, 0x00, 0x00, 0x00,
     0x00, 0x00, 0x00, 0xbb, 0xFF, 0xbb, 0x00, 0x00, 0x00,
     0x00, 0x00, 0xbb, 0xbb, 0xFF, 0xbb, 0x00, 0x00, 0x00,
     0x00, 0x00, 0xbb, 0xFF, 0xbb, 0xbb, 0x00, 0x00, 0x00,
     0x00, 0x00, 0xbb, 0xbb, 0xbb, 0x00, 0x00, 0x00, 0x00,
     0x00, 0x00, 0x00, 0x00, 0x00, 0x00, 0x00, 0x00, 0x00]"

definition glyph_60 :: "u8 list" where
  "glyph_60 =
    [0x00, 0x00, 0x00, 0x00, 0x00, 0x00, 0x00, 0x00, 0x00,
     0x00, 0x00, 0x00, 0x00, 0x00, 0x00, 0x00, 0x00, 0x00,
     0x00, 0x00, 0x00, 0x00, 0x00, 0x00, 0x00, 0x00, 0x00,
     0x00, 0x00, 0x00, 0x00, 0x00, 0x00, 0x00, 0x00, 0x00,
     0x00, 0x00, 0x00, 0x00, 0x00, 0xbb, 0xbb, 0xbb, 0x00,
     0x00, 0x00, 0x00, 0x00, 0xbb, 0xbb, 0xFF, 0xbb, 0x00,
     0x00, 0x00, 0x00, 0xbb, 0xbb, 0xFF, 0xbb, 0xbb, 0x00,
     0x00, 0x00, 0xbb, 0xbb, 0xFF, 0xbb, 0xbb, 0x00, 0x00,
     0x00, 0x00, 0xbb, 0xFF, 0xbb, 0xbb, 0x00, 0x00, 0x00,
     0x00, 0x00, 0xbb, 0xbb, 0xFF, 0xbb, 0xbb, 0x00, 0x00,
     0x00, 0x00, 0x00, 0xbb, 0xbb, 0xFF, 0xbb, 0xbb, 0x00,
     0x00, 0x00, 0x00, 0x00, 0xbb, 0xbb, 0xFF, 0xbb, 0x00,
     0x00, 0x00, 0x00, 0x00, 0x00, 0xbb, 0xbb, 0xbb, 0x00,
     0x00, 0x00, 0x00, 0x00, 0x00, 0x00, 0x00, 0x00, 0x00,
     0x00, 0x00, 0x00, 0x00, 0x00, 0x00, 0x00, 0x00, 0x00,
     0x00, 0x00, 0x00, 0x00, 0x00, 0x00, 0x00, 0x00, 0x00]"

definition glyph_61 :: "u8 list" where
  "glyph_61 =
    [0x00, 0x00, 0x00, 0x00, 0x00, 0x00, 0x00, 0x00, 0x00,
     0x00, 0x00, 0x00, 0x00, 0x00, 0x00, 0x00, 0x00, 0x00,
     0x00, 0x00, 0x00, 0x00, 0x00, 0x00, 0x00, 0x00, 0x00,
     0x00, 0x00, 0x00, 0x00, 0x00, 0x00, 0x00, 0x00, 0x00,
     0x00, 0x00, 0x00, 0x00, 0x00, 0x00, 0x00, 0x00, 0x00,
     0x00, 0x00, 0x00, 0x00, 0x00, 0x00, 0x00, 0x00, 0x00,
     0x00, 0xbb, 0xbb, 0xbb, 0xbb, 0xbb, 0xbb, 0xbb, 0x00,
     0x00, 0xbb, 0xFF, 0xFF, 0xFF, 0xFF, 0xFF, 0xbb, 0x00,
     0x00, 0xbb, 0xbb, 0xbb, 0xbb, 0xbb, 0xbb, 0xbb, 0x00,
     0x00, 0xbb, 0xFF, 0xFF, 0xFF, 0xFF, 0xFF, 0xbb, 0x00,
     0x00, 0xbb, 0xbb, 0xbb, 0xbb, 0xbb, 0xbb, 0xbb, 0x00,
     0x00, 0x00, 0x00, 0x00, 0x00, 0x00, 0x00, 0x00, 0x00,
     0x00, 0x00, 0x00, 0x00, 0x00, 0x00, 0x00, 0x00, 0x00,
     0x00, 0x00, 0x00, 0x00, 0x00, 0x00, 0x00, 0x00, 0x00,
     0x00, 0x00, 0x00, 0x00, 0x00, 0x00, 0x00, 0x00, 0x00,
     0x00, 0x00, 0x00, 0x00, 0x00, 0x00, 0x00, 0x00, 0x00]"

definition glyph_62 :: "u8 list" where
  "glyph_62 =
    [0x00, 0x00, 0x00, 0x00, 0x00, 0x00, 0x00, 0x00, 0x00,
     0x00, 0x00, 0x00, 0x00, 0x00, 0x00, 0x00, 0x00, 0x00,
     0x00, 0x00, 0x00, 0x00, 0x00, 0x00, 0x00, 0x00, 0x00,
     0x00, 0x00, 0x00, 0x00, 0x00, 0x00, 0x00, 0x00, 0x00,
     0x00, 0xbb, 0xbb, 0xbb, 0x00, 0x00, 0x00, 0x00, 0x00,
     0x00, 0xbb, 0xFF, 0xbb, 0xbb, 0x00, 0x00, 0x00, 0x00,
     0x00, 0xbb, 0xbb, 0xFF, 0xbb, 0xbb, 0x00, 0x00, 0x00,
     0x00, 0x00, 0xbb, 0xbb, 0xFF, 0xbb, 0xbb, 0x00, 0x00,
     0x00, 0x00, 0x00, 0xbb, 0xbb, 0xFF, 0xbb, 0x00, 0x00,
     0x00, 0x00, 0xbb, 0xbb, 0xFF, 0xbb, 0xbb, 0x00, 0x00,
     0x00, 0xbb, 0xbb, 0xFF, 0xbb, 0xbb, 0x00, 0x00, 0x00,
     0x00, 0xbb, 0xFF, 0xbb, 0xbb, 0x00, 0x00, 0x00, 0x00,
     0x00, 0xbb, 0xbb, 0xbb, 0x00, 0x00, 0x00, 0x00, 0x00,
     0x00, 0x00, 0x00, 0x00, 0x00, 0x00, 0x00, 0x00, 0x00,
     0x00, 0x00, 0x00, 0x00, 0x00, 0x00, 0x00, 0x00, 0x00,
     0x00, 0x00, 0x00, 0x00, 0x00, 0x00, 0x00, 0x00, 0x00]"

definition glyph_63 :: "u8 list" where
  "glyph_63 =
    [0x00, 0x00, 0x00, 0x00, 0x00, 0x00, 0x00, 0x00, 0x00,
     0x00, 0x00, 0x00, 0x00, 0x00, 0x00, 0x00, 0x00, 0x00,
     0x00, 0x00, 0x00, 0x00, 0x00, 0x00, 0x00, 0x00, 0x00,
     0x00, 0x00, 0xbb, 0xbb, 0xbb, 0xbb, 0xbb, 0x00, 0x00,
     0x00, 0xbb, 0xbb, 0xFF, 0xFF, 0xFF, 0xbb, 0xbb, 0x00,
     0x00, 0xbb, 0xFF, 0xbb, 0xbb, 0xbb, 0xFF, 0xbb, 0x00,
     0x00, 0xbb, 0xbb, 0xbb, 0xbb, 0xbb, 0xFF, 0xbb, 0x00,
     0x00, 0x00, 0x00, 0xbb, 0xbb, 0xFF, 0xbb, 0xbb, 0x00,
     0x00, 0x00, 0x00, 0xbb, 0xFF, 0xbb, 0xbb, 0x00, 0x00,
     0x00, 0x00, 0x00, 0xbb, 0xFF, 0xbb, 0x00, 0x00, 0x00,
     0x00, 0x00, 0x00, 0xbb, 0xbb, 0xbb, 0x00, 0x00, 0x00,
     0x00, 0x00, 0x00, 0xbb, 0xFF, 0xbb, 0x00, 0x00, 0x00,
     0x00, 0x00, 0x00, 0xbb, 0xbb, 0xbb, 0x00, 0x00, 0x00,
     0x00, 0x00, 0x00, 0x00, 0x00, 0x00, 0x00, 0x00, 0x00,
     0x00, 0x00, 0x00, 0x00, 0x00, 0x00, 0x00, 0x00, 0x00,
     0x00, 0x00, 0x00, 0x00, 0x00, 0x00, 0x00, 0x00, 0x00]"

definition glyph_64 :: "u8 list" where
  "glyph_64 =
    [0x00, 0x00, 0x00, 0x00, 0x00, 0x00, 0x00, 0x00, 0x00,
     0x00, 0x00, 0x00, 0x00, 0x00, 0x00, 0x00, 0x00, 0x00,
     0x00, 0x00, 0x00, 0x00, 0x00, 0x00, 0x00, 0x00, 0x00,
     0x00, 0x00, 0xbb, 0xbb, 0xbb, 0xbb, 0xbb, 0x00, 0x00,
     0x00, 0xbb, 0xbb, 0xFF, 0xFF, 0xFF, 0xbb, 0xbb, 0x00,
     0x00, 0xbb, 0xFF, 0xbb, 0xbb, 0xbb, 0xFF, 0xbb, 0x00,
     0x00, 0xbb, 0xFF, 0xbb, 0xbb, 0xFF, 0xFF, 0xbb, 0x00,
     0x00, 0xbb, 0xFF, 0xbb, 0xFF, 0xbb, 0xFF, 0xbb, 0x00,
     0x00, 0xbb, 0xFF, 0xbb, 0xFF, 0xbb, 0xFF, 0xbb, 0x00,
     0x00, 0xbb, 0xFF, 0xbb, 0xbb, 0xFF, 0xFF, 0xbb, 0x00,
     0x00, 0xbb, 0xFF, 0xbb, 0xbb, 0xbb, 0xbb, 0xbb, 0x00,
     0x00, 0xbb, 0xbb, 0xFF, 0xFF, 0xFF, 0xFF, 0xbb, 0x00,
     0x00, 0x00, 0xbb, 0xbb, 0xbb, 0xbb, 0xbb, 0xbb, 0x00,
     0x00, 0x00, 0x00, 0x00, 0x00, 0x00, 0x00, 0x00, 0x00,
     0x00, 0x00, 0x00, 0x00, 0x00, 0x00, 0x00, 0x00, 0x00,
     0x00, 0x00, 0x00, 0x00, 0x00, 0x00, 0x00, 0x00, 0x00]"

definition glyph_65 :: "u8 list" where
  "glyph_65 =
    [0x00, 0x00, 0x00, 0x00, 0x00, 0x00, 0x00, 0x00, 0x00,
     0x00, 0x00, 0x00, 0x00, 0x00, 0x00, 0x00, 0x00, 0x00,
     0x00, 0x00, 0x00, 0x00, 0x00, 0x00, 0x00, 0x00, 0x00,
     0x00, 0x00, 0x00, 0xbb, 0xbb, 0xbb, 0x00, 0x00, 0x00,
     0x00, 0x00, 0x00, 0xbb, 0xFF, 0xbb, 0x00, 0x00, 0x00,
     0x00, 0x00, 0xbb, 0xbb, 0xFF, 0xbb, 0xbb, 0x00, 0x00,
     0x00, 0x00, 0xbb, 0xFF, 0xbb, 0xFF, 0xbb, 0x00, 0x00,
     0x00, 0x00, 0xbb, 0xFF, 0xbb, 0xFF, 0xbb, 0x00, 0x00,
     0x00, 0xbb, 0xbb, 0xFF, 0xFF, 0xFF, 0xbb, 0xbb, 0x00,
     0x00, 0xbb, 0xFF, 0xbb, 0xbb, 0xbb, 0xFF, 0xbb, 0x00,
     0x00, 0xbb, 0xFF, 0xbb, 0x00, 0xbb, 0xFF, 0xbb, 0x00,
     0x00, 0xbb, 0xFF, 0xbb, 0x00, 0xbb, 0xFF, 0xbb, 0x00,
     0x00, 0xbb, 0xbb, 0xbb, 0x00, 0xbb, 0xbb, 0xbb, 0x00,
     0x00, 0x00, 0x00, 0x00, 0x00, 0x00, 0x00, 0x00, 0x00,
     0x00, 0x00, 0x00, 0x00, 0x00, 0x00, 0x00, 0x00, 0x00,
     0x00, 0x00, 0x00, 0x00, 0x00, 0x00, 0x00, 0x00, 0x00]"

definition glyph_66 :: "u8 list" where
  "glyph_66 =
    [0x00, 0x00, 0x00, 0x00, 0x00, 0x00, 0x00, 0x00, 0x00,
     0x00, 0x00, 0x00, 0x00, 0x00, 0x00, 0x00, 0x00, 0x00,
     0x00, 0x00, 0x00, 0x00, 0x00, 0x00, 0x00, 0x00, 0x00,
     0x00, 0xbb, 0xbb, 0xbb, 0xbb, 0xbb, 0xbb, 0x00, 0x00,
     0x00, 0xbb, 0xFF, 0xFF, 0xFF, 0xFF, 0xbb, 0xbb, 0x00,
     0x00, 0xbb, 0xFF, 0xbb, 0xbb, 0xbb, 0xFF, 0xbb, 0x00,
     0x00, 0xbb, 0xFF, 0xbb, 0xbb, 0xbb, 0xFF, 0xbb, 0x00,
     0x00, 0xbb, 0xFF, 0xFF, 0xFF, 0xFF, 0xbb, 0xbb, 0x00,
     0x00, 0xbb, 0xFF, 0xbb, 0xbb, 0xbb, 0xFF, 0xbb, 0x00,
     0x00, 0xbb, 0xFF, 0xbb, 0x00, 0xbb, 0xFF, 0xbb, 0x00,
     0x00, 0xbb, 0xFF, 0xbb, 0xbb, 0xbb, 0xFF, 0xbb, 0x00,
     0x00, 0xbb, 0xFF, 0xFF, 0xFF, 0xFF, 0xbb, 0xbb, 0x00,
     0x00, 0xbb, 0xbb, 0xbb, 0xbb, 0xbb, 0xbb, 0x00, 0x00,
     0x00, 0x00, 0x00, 0x00, 0x00, 0x00, 0x00, 0x00, 0x00,
     0x00, 0x00, 0x00, 0x00, 0x00, 0x00, 0x00, 0x00, 0x00,
     0x00, 0x00, 0x00, 0x00, 0x00, 0x00, 0x00, 0x00, 0x00]"

definition glyph_67 :: "u8 list" where
  "glyph_67 =
    [0x00, 0x00, 0x00, 0x00, 0x00, 0x00, 0x00, 0x00, 0x00,
     0x00, 0x00, 0x00, 0x00, 0x00, 0x00, 0x00, 0x00, 0x00,
     0x00, 0x00, 0x00, 0x00, 0x00, 0x00, 0x00, 0x00, 0x00,
     0x00, 0x00, 0xbb, 0xbb, 0xbb, 0xbb, 0xbb, 0x00, 0x00,
     0x00, 0xbb, 0xbb, 0xFF, 0xFF, 0xFF, 0xbb, 0xbb, 0x00,
     0x00, 0xbb, 0xFF, 0xbb, 0xbb, 0xbb, 0xFF, 0xbb, 0x00,
     0x00, 0xbb, 0xFF, 0xbb, 0x00, 0xbb, 0xbb, 0xbb, 0x00,
     0x00, 0xbb, 0xFF, 0xbb, 0x00, 0x00, 0x00, 0x00, 0x00,
     0x00, 0xbb, 0xFF, 0xbb, 0x00, 0x00, 0x00, 0x00, 0x00,
     0x00, 0xbb, 0xFF, 0xbb, 0x00, 0xbb, 0xbb, 0xbb, 0x00,
     0x00, 0xbb, 0xFF, 0xbb, 0xbb, 0xbb, 0xFF, 0xbb, 0x00,
     0x00, 0xbb, 0xbb, 0xFF, 0xFF, 0xFF, 0xbb, 0xbb, 0x00,
     0x00, 0x00, 0xbb, 0xbb, 0xbb, 0xbb, 0xbb, 0x00, 0x00,
     0x00, 0x00, 0x00, 0x00, 0x00, 0x00, 0x00, 0x00, 0x00,
     0x00, 0x00, 0x00, 0x00, 0x00, 0x00, 0x00, 0x00, 0x00,
     0x00, 0x00, 0x00, 0x00, 0x00, 0x00, 0x00, 0x00, 0x00]"

definition glyph_68 :: "u8 list" where
  "glyph_68 =
    [0x00, 0x00, 0x00, 0x00, 0x00, 0x00, 0x00, 0x00, 0x00,
     0x00, 0x00, 0x00, 0x00, 0x00, 0x00, 0x00, 0x00, 0x00,
     0x00, 0x00, 0x00, 0x00, 0x00, 0x00, 0x00, 0x00, 0x00,
     0x00, 0xbb, 0xbb, 0xbb, 0xbb, 0xbb, 0x00, 0x00, 0x00,
     0x00, 0xbb, 0xFF, 0xFF, 0xFF, 0xbb, 0xbb, 0x00, 0x00,
     0x00, 0xbb, 0xFF, 0xbb, 0xbb, 0xFF, 0xbb, 0xbb, 0x00,
     0x00, 0xbb, 0xFF, 0xbb, 0xbb, 0xbb, 0xFF, 0xbb, 0x00,
     0x00, 0xbb, 0xFF, 0xbb, 0x00, 0xbb, 0xFF, 0xbb, 0x00,
     0x00, 0xbb, 0xFF, 0xbb, 0x00, 0xbb, 0xFF, 0xbb, 0x00,
     0x00, 0xbb, 0xFF, 0xbb, 0xbb, 0xbb, 0xFF, 0xbb, 0x00,
     0x00, 0xbb, 0xFF, 0xbb, 0xbb, 0xFF, 0xbb, 0xbb, 0x00,
     0x00, 0xbb, 0xFF, 0xFF, 0xFF, 0xbb, 0xbb, 0x00, 0x00,
     0x00, 0xbb, 0xbb, 0xbb, 0xbb, 0xbb, 0x00, 0x00, 0x00,
     0x00, 0x00, 0x00, 0x00, 0x00, 0x00, 0x00, 0x00, 0x00,
     0x00, 0x00, 0x00, 0x00, 0x00, 0x00, 0x00, 0x00, 0x00,
     0x00, 0x00, 0x00, 0x00, 0x00, 0x00, 0x00, 0x00, 0x00]"

definition glyph_69 :: "u8 list" where
  "glyph_69 =
    [0x00, 0x00, 0x00, 0x00, 0x00, 0x00, 0x00, 0x00, 0x00,
     0x00, 0x00, 0x00, 0x00, 0x00, 0x00, 0x00, 0x00, 0x00,
     0x00, 0x00, 0x00, 0x00, 0x00, 0x00, 0x00, 0x00, 0x00,
     0x00, 0xbb, 0xbb, 0xbb, 0xbb, 0xbb, 0xbb, 0xbb, 0x00,
     0x00, 0xbb, 0xFF, 0xFF, 0xFF, 0xFF, 0xFF, 0xbb, 0x00,
     0x00, 0xbb, 0xFF, 0xbb, 0xbb, 0xbb, 0xbb, 0xbb, 0x00,
     0x00, 0xbb, 0xFF, 0xbb, 0xbb, 0xbb, 0xbb, 0x00, 0x00,
     0x00, 0xbb, 0xFF, 0xFF, 0xFF, 0xFF, 0xbb, 0x00, 0x00,
     0x00, 0xbb, 0xFF, 0xbb, 0xbb, 0xbb, 0xbb, 0x00, 0x00,
     0x00, 0xbb, 0xFF, 0xbb, 0x00, 0x00, 0x00, 0x00, 0x00,
     0x00, 0xbb, 0xFF, 0xbb, 0xbb, 0xbb, 0xbb, 0xbb, 0x00,
     0x00, 0xbb, 0xFF, 0xFF, 0xFF, 0xFF, 0xFF, 0xbb, 0x00,
     0x00, 0xbb, 0xbb, 0xbb, 0xbb, 0xbb, 0xbb, 0xbb, 0x00,
     0x00, 0x00, 0x00, 0x00, 0x00, 0x00, 0x00, 0x00, 0x00,
     0x00, 0x00, 0x00, 0x00, 0x00, 0x00, 0x00, 0x00, 0x00,
     0x00, 0x00, 0x00, 0x00, 0x00, 0x00, 0x00, 0x00, 0x00]"

definition glyph_70 :: "u8 list" where
  "glyph_70 =
    [0x00, 0x00, 0x00, 0x00, 0x00, 0x00, 0x00, 0x00, 0x00,
     0x00, 0x00, 0x00, 0x00, 0x00, 0x00, 0x00, 0x00, 0x00,
     0x00, 0x00, 0x00, 0x00, 0x00, 0x00, 0x00, 0x00, 0x00,
     0x00, 0xbb, 0xbb, 0xbb, 0xbb, 0xbb, 0xbb, 0xbb, 0x00,
     0x00, 0xbb, 0xFF, 0xFF, 0xFF, 0xFF, 0xFF, 0xbb, 0x00,
     0x00, 0xbb, 0xFF, 0xbb, 0xbb, 0xbb, 0xbb, 0xbb, 0x00,
     0x00, 0xbb, 0xFF, 0xbb, 0xbb, 0xbb, 0xbb, 0x00, 0x00,
     0x00, 0xbb, 0xFF, 0xFF, 0xFF, 0xFF, 0xbb, 0x00, 0x00,
     0x00, 0xbb, 0xFF, 0xbb, 0xbb, 0xbb, 0xbb, 0x00, 0x00,
     0x00, 0xbb, 0xFF, 0xbb, 0x00, 0x00, 0x00, 0x00, 0x00,
     0x00, 0xbb, 0xFF, 0xbb, 0x00, 0x00, 0x00, 0x00, 0x00,
     0x00, 0xbb, 0xFF, 0xbb, 0x00, 0x00, 0x00, 0x00, 0x00,
     0x00, 0xbb, 0xbb, 0xbb, 0x00, 0x00, 0x00, 0x00, 0x00,
     0x00, 0x00, 0x00, 0x00, 0x00, 0x00, 0x00, 0x00, 0x00,
     0x00, 0x00, 0x00, 0x00, 0x00, 0x00, 0x00, 0x00, 0x00,
     0x00, 0x00, 0x00, 0x00, 0x00, 0x00, 0x00, 0x00, 0x00]"

definition glyph_71 :: "u8 list" where
  "glyph_71 =
    [0x00, 0x00, 0x00, 0x00, 0x00, 0x00, 0x00, 0x00, 0x00,
     0x00, 0x00, 0x00, 0x00, 0x00, 0x00, 0x00, 0x00, 0x00,
     0x00, 0x00, 0x00, 0x00, 0x00, 0x00, 0x00, 0x00, 0x00,
     0x00, 0x00, 0xbb, 0xbb, 0xbb, 0xbb, 0xbb, 0x00, 0x00,
     0x00, 0xbb, 0xbb, 0xFF, 0xFF, 0xFF, 0xbb, 0xbb, 0x00,
     0x00, 0xbb, 0xFF, 0xbb, 0xbb, 0xbb, 0xFF, 0xbb, 0x00,
     0x00, 0xbb, 0xFF, 0xbb, 0x00, 0xbb, 0xbb, 0xbb, 0x00,
     0x00, 0xbb, 0xFF, 0xbb, 0xbb, 0xbb, 0xbb, 0xbb, 0x00,
     0x00, 0xbb, 0xFF, 0xbb, 0xbb, 0xFF, 0xFF, 0xbb, 0x00,
     0x00, 0xbb, 0xFF, 0xbb, 0xbb, 0xbb, 0xFF, 0xbb, 0x00,
     0x00, 0xbb, 0xFF, 0xbb, 0xbb, 0xbb, 0xFF, 0xbb, 0x00,
     0x00, 0xbb, 0xbb, 0xFF, 0xFF, 0xFF, 0xbb, 0xbb, 0x00,
     0x00, 0x00, 0xbb, 0xbb, 0xbb, 0xbb, 0xbb, 0x00, 0x00,
     0x00, 0x00, 0x00, 0x00, 0x00, 0x00, 0x00, 0x00, 0x00,
     0x00, 0x00, 0x00, 0x00, 0x00, 0x00, 0x00, 0x00, 0x00,
     0x00, 0x00, 0x00, 0x00, 0x00, 0x00, 0x00, 0x00, 0x00]"

definition glyph_72 :: "u8 list" where
  "glyph_72 =
    [0x00, 0x00, 0x00, 0x00, 0x00, 0x00, 0x00, 0x00, 0x00,
     0x00, 0x00, 0x00, 0x00, 0x00, 0x00, 0x00, 0x00, 0x00,
     0x00, 0x00, 0x00, 0x00, 0x00, 0x00, 0x00, 0x00, 0x00,
     0x00, 0xbb, 0xbb, 0xbb, 0x00, 0xbb, 0xbb, 0xbb, 0x00,
     0x00, 0xbb, 0xFF, 0xbb, 0x00, 0xbb, 0xFF, 0xbb, 0x00,
     0x00, 0xbb, 0xFF, 0xbb, 0x00, 0xbb, 0xFF, 0xbb, 0x00,
     0x00, 0xbb, 0xFF, 0xbb, 0xbb, 0xbb, 0xFF, 0xbb, 0x00,
     0x00, 0xbb, 0xFF, 0xFF, 0xFF, 0xFF, 0xFF, 0xbb, 0x00,
     0x00, 0xbb, 0xFF, 0xbb, 0xbb, 0xbb, 0xFF, 0xbb, 0x00,
     0x00, 0xbb, 0xFF, 0xbb, 0x00, 0xbb, 0xFF, 0xbb, 0x00,
     0x00, 0xbb, 0xFF, 0xbb, 0x00, 0xbb, 0xFF, 0xbb, 0x00,
     0x00, 0xbb, 0xFF, 0xbb, 0x00, 0xbb, 0xFF, 0xbb, 0x00,
     0x00, 0xbb, 0xbb, 0xbb, 0x00, 0xbb, 0xbb, 0xbb, 0x00,
     0x00, 0x00, 0x00, 0x00, 0x00, 0x00, 0x00, 0x00, 0x00,
     0x00, 0x00, 0x00, 0x00, 0x00, 0x00, 0x00, 0x00, 0x00,
     0x00, 0x00, 0x00, 0x00, 0x00, 0x00, 0x00, 0x00, 0x00]"

definition glyph_73 :: "u8 list" where
  "glyph_73 =
    [0x00, 0x00, 0x00, 0x00, 0x00, 0x00, 0x00, 0x00, 0x00,
     0x00, 0x00, 0x00, 0x00, 0x00, 0x00, 0x00, 0x00, 0x00,
     0x00, 0x00, 0x00, 0x00, 0x00, 0x00, 0x00, 0x00, 0x00,
     0x00, 0x00, 0xbb, 0xbb, 0xbb, 0xbb, 0xbb, 0x00, 0x00,
     0x00, 0x00, 0xbb, 0xFF, 0xFF, 0xFF, 0xbb, 0x00, 0x00,
     0x00, 0x00, 0xbb, 0xbb, 0xFF, 0xbb, 0xbb, 0x00, 0x00,
     0x00, 0x00, 0x00, 0xbb, 0xFF, 0xbb, 0x00, 0x00, 0x00,
     0x00, 0x00, 0x00, 0xbb, 0xFF, 0xbb, 0x00, 0x00, 0x00,
     0x00, 0x00, 0x00, 0xbb, 0xFF, 0xbb, 0x00, 0x00, 0x00,
     0x00, 0x00, 0x00, 0xbb, 0xFF, 0xbb, 0x00, 0x00, 0x00,
     0x00, 0x00, 0xbb, 0xbb, 0xFF, 0xbb, 0xbb, 0x00, 0x00,
     0x00, 0x00, 0xbb, 0xFF, 0xFF, 0xFF, 0xbb, 0x00, 0x00,
     0x00, 0x00, 0xbb, 0xbb, 0xbb, 0xbb, 0xbb, 0x00, 0x00,
     0x00, 0x00, 0x00, 0x00, 0x00, 0x00, 0x00, 0x00, 0x00,
     0x00, 0x00, 0x00, 0x00, 0x00, 0x00, 0x00, 0x00, 0x00,
     0x00, 0x00, 0x00, 0x00, 0x00, 0x00, 0x00, 0x00, 0x00]"

definition glyph_74 :: "u8 list" where
  "glyph_74 =
    [0x00, 0x00, 0x00, 0x00, 0x00, 0x00, 0x00, 0x00, 0x00,
     0x00, 0x00, 0x00, 0x00, 0x00, 0x00, 0x00, 0x00, 0x00,
     0x00, 0x00, 0x00, 0x00, 0x00, 0x00, 0x00, 0x00, 0x00,
     0x00, 0x00, 0x00, 0xbb, 0xbb, 0xbb, 0xbb, 0xbb, 0x00,
     0x00, 0x00, 0x00, 0xbb, 0xFF, 0xFF, 0xFF, 0xbb, 0x00,
     0x00, 0x00, 0x00, 0xbb, 0xbb, 0xbb, 0xFF, 0xbb, 0x00,
     0x00, 0x00, 0x00, 0x00, 0x00, 0xbb, 0xFF, 0xbb, 0x00,
     0x00, 0x00, 0x00, 0x00, 0x00, 0xbb, 0xFF, 0xbb, 0x00,
     0x00, 0xbb, 0xbb, 0xbb, 0x00, 0xbb, 0xFF, 0xbb, 0x00,
     0x00, 0xbb, 0xFF, 0xbb, 0x00, 0xbb, 0xFF, 0xbb, 0x00,
     0x00, 0xbb, 0xFF, 0xbb, 0xbb, 0xbb, 0xFF, 0xbb, 0x00,
     0x00, 0xbb, 0xbb, 0xFF, 0xFF, 0xFF, 0xbb, 0xbb, 0x00,
     0x00, 0x00, 0xbb, 0xbb, 0xbb, 0xbb, 0xbb, 0x00, 0x00,
     0x00, 0x00, 0x00, 0x00, 0x00, 0x00, 0x00, 0x00, 0x00,
     0x00, 0x00, 0x00, 0x00, 0x00, 0x00, 0x00, 0x00, 0x00,
     0x00, 0x00, 0x00, 0x00, 0x00, 0x00, 0x00, 0x00, 0x00]"

definition glyph_75 :: "u8 list" where
  "glyph_75 =
    [0x00, 0x00, 0x00, 0x00, 0x00, 0x00, 0x00, 0x00, 0x00,
     0x00, 0x00, 0x00, 0x00, 0x00, 0x00, 0x00, 0x00, 0x00,
     0x00, 0x00, 0x00, 0x00, 0x00, 0x00, 0x00, 0x00, 0x00,
     0x00, 0xbb, 0xbb, 0xbb, 0x00, 0xbb, 0xbb, 0xbb, 0x00,
     0x00, 0xbb, 0xFF, 0xbb, 0xbb, 0xbb, 0xFF, 0xbb, 0x00,
     0x00, 0xbb, 0xFF, 0xbb, 0xbb, 0xFF, 0xbb, 0xbb, 0x00,
     0x00, 0xbb, 0xFF, 0xbb, 0xFF, 0xbb, 0xbb, 0x00, 0x00,
     0x00, 0xbb, 0xFF, 0xFF, 0xFF, 0xbb, 0xbb, 0x00, 0x00,
     0x00, 0xbb, 0xFF, 0xbb, 0xbb, 0xFF, 0xbb, 0x00, 0x00,
     0x00, 0xbb, 0xFF, 0xbb, 0xbb, 0xFF, 0xbb, 0xbb, 0x00,
     0x00, 0xbb, 0xFF, 0xbb, 0xbb, 0xbb, 0xFF, 0xbb, 0x00,
     0x00, 0xbb, 0xFF, 0xbb, 0x00, 0xbb, 0xFF, 0xbb, 0x00,
     0x00, 0xbb, 0xbb, 0xbb, 0x00, 0xbb, 0xbb, 0xbb, 0x00,
     0x00, 0x00, 0x00, 0x00, 0x00, 0x00, 0x00, 0x00, 0x00,
     0x00, 0x00, 0x00, 0x00, 0x00, 0x00, 0x00, 0x00, 0x00,
     0x00, 0x00, 0x00, 0x00, 0x00, 0x00, 0x00, 0x00, 0x00]"

definition glyph_76 :: "u8 list" where
  "glyph_76 =
    [0x00, 0x00, 0x00, 0x00, 0x00, 0x00, 0x00, 0x00, 0x00,
     0x00, 0x00, 0x00, 0x00, 0x00, 0x00, 0x00, 0x00, 0x00,
     0x00, 0x00, 0x00, 0x00, 0x00, 0x00, 0x00, 0x00, 0x00,
     0x00, 0xbb, 0xbb, 0xbb, 0x00, 0x00, 0x00, 0x00, 0x00,
     0x00, 0xbb, 0xFF, 0xbb, 0x00, 0x00, 0x00, 0x00, 0x00,
     0x00, 0xbb, 0xFF, 0xbb, 0x00, 0x00, 0x00, 0x00, 0x00,
     0x00, 0xbb, 0xFF, 0xbb, 0x00, 0x00, 0x00, 0x00, 0x00,
     0x00, 0xbb, 0xFF, 0xbb, 0x00, 0x00, 0x00, 0x00, 0x00,
     0x00, 0xbb, 0xFF, 0xbb, 0x00, 0x00, 0x00, 0x00, 0x00,
     0x00, 0xbb, 0xFF, 0xbb, 0x00, 0x00, 0x00, 0x00, 0x00,
     0x00, 0xbb, 0xFF, 0xbb, 0xbb, 0xbb, 0xbb, 0xbb, 0x00,
     0x00, 0xbb, 0xFF, 0xFF, 0xFF, 0xFF, 0xFF, 0xbb, 0x00,
     0x00, 0xbb, 0xbb, 0xbb, 0xbb, 0xbb, 0xbb, 0xbb, 0x00,
     0x00, 0x00, 0x00, 0x00, 0x00, 0x00, 0x00, 0x00, 0x00,
     0x00, 0x00, 0x00, 0x00, 0x00, 0x00, 0x00, 0x00, 0x00,
     0x00, 0x00, 0x00, 0x00, 0x00, 0x00, 0x00, 0x00, 0x00]"

definition glyph_77 :: "u8 list" where
  "glyph_77 =
    [0x00, 0x00, 0x00, 0x00, 0x00, 0x00, 0x00, 0x00, 0x00,
     0x00, 0x00, 0x00, 0x00, 0x00, 0x00, 0x00, 0x00, 0x00,
     0x00, 0x00, 0x00, 0x00, 0x00, 0x00, 0x00, 0x00, 0x00,
     0x00, 0xbb, 0xbb, 0xbb, 0x00, 0xbb, 0xbb, 0xbb, 0x00,
     0x00, 0xbb, 0xFF, 0xbb, 0xbb, 0xbb, 0xFF, 0xbb, 0x00,
     0x00, 0xbb, 0xFF, 0xFF, 0xbb, 0xFF, 0xFF, 0xbb, 0x00,
     0x00, 0xbb, 0xFF, 0xbb, 0xFF, 0xbb, 0xFF, 0xbb, 0x00,
     0x00, 0xbb, 0xFF, 0xbb, 0xFF, 0xbb, 0xFF, 0xbb, 0x00,
     0x00, 0xbb, 0xFF, 0xbb, 0xbb, 0xbb, 0xFF, 0xbb, 0x00,
     0x00, 0xbb, 0xFF, 0xbb, 0x00, 0xbb, 0xFF, 0xbb, 0x00,
     0x00, 0xbb, 0xFF, 0xbb, 0x00, 0xbb, 0xFF, 0xbb, 0x00,
     0x00, 0xbb, 0xFF, 0xbb, 0x00, 0xbb, 0xFF, 0xbb, 0x00,
     0x00, 0xbb, 0xbb, 0xbb, 0x00, 0xbb, 0xbb, 0xbb, 0x00,
     0x00, 0x00, 0x00, 0x00, 0x00, 0x00, 0x00, 0x00, 0x00,
     0x00, 0x00, 0x00, 0x00, 0x00, 0x00, 0x00, 0x00, 0x00,
     0x00, 0x00, 0x00, 0x00, 0x00, 0x00, 0x00, 0x00, 0x00]"

definition glyph_78 :: "u8 list" where
  "glyph_78 =
    [0x00, 0x00, 0x00, 0x00, 0x00, 0x00, 0x00, 0x00, 0x00,
     0x00, 0x00, 0x00, 0x00, 0x00, 0x00, 0x00, 0x00, 0x00,
     0x00, 0x00, 0x00, 0x00, 0x00, 0x00, 0x00, 0x00, 0x00,
     0x00, 0xbb, 0xbb, 0xbb, 0x00, 0xbb, 0xbb, 0xbb, 0x00,
     0x00, 0xbb, 0xFF, 0xbb, 0xbb, 0xbb, 0xFF, 0xbb, 0x00,
     0x00, 0xbb, 0xFF, 0xFF, 0xbb, 0xbb, 0xFF, 0xbb, 0x00,
     0x00, 0xbb, 0xFF, 0xbb, 0xFF, 0xbb, 0xFF, 0xbb, 0x00,
     0x00, 0xbb, 0xFF, 0xbb, 0xFF, 0xbb, 0xFF, 0xbb, 0x00,
     0x00, 0xbb, 0xFF, 0xbb, 0xbb, 0xFF, 0xFF, 0xbb, 0x00,
     0x00, 0xbb, 0xFF, 0xbb, 0xbb, 0xbb, 0xFF, 0xbb, 0x00,
     0x00, 0xbb, 0xFF, 0xbb, 0x00, 0xbb, 0xFF, 0xbb, 0x00,
     0x00, 0xbb, 0xFF, 0xbb, 0x00, 0xbb, 0xFF, 0xbb, 0x00,
     0x00, 0xbb, 0xbb, 0xbb, 0x00, 0xbb, 0xbb, 0xbb, 0x00,
     0x00, 0x00, 0x00, 0x00, 0x00, 0x00, 0x00, 0x00, 0x00,
     0x00, 0x00, 0x00, 0x00, 0x00, 0x00, 0x00, 0x00, 0x00,
     0x00, 0x00, 0x00, 0x00, 0x00, 0x00, 0x00, 0x00, 0x00]"

definition glyph_79 :: "u8 list" where
  "glyph_79 =
    [0x00, 0x00, 0x00, 0x00, 0x00, 0x00, 0x00, 0x00, 0x00,
     0x00, 0x00, 0x00, 0x00, 0x00, 0x00, 0x00, 0x00, 0x00,
     0x00, 0x00, 0x00, 0x00, 0x00, 0x00, 0x00, 0x00, 0x00,
     0x00, 0x00, 0xbb, 0xbb, 0xbb, 0xbb, 0xbb, 0x00, 0x00,
     0x00, 0xbb, 0xbb, 0xFF, 0xFF, 0xFF, 0xbb, 0xbb, 0x00,
     0x00, 0xbb, 0xFF, 0xbb, 0xbb, 0xbb, 0xFF, 0xbb, 0x00,
     0x00, 0xbb, 0xFF, 0xbb, 0x00, 0xbb, 0xFF, 0xbb, 0x00,
     0x00, 0xbb, 0xFF, 0xbb, 0x00, 0xbb, 0xFF, 0xbb, 0x00,
     0x00, 0xbb, 0xFF, 0xbb, 0x00, 0xbb, 0xFF, 0xbb, 0x00,
     0x00, 0xbb, 0xFF, 0xbb, 0x00, 0xbb, 0xFF, 0xbb, 0x00,
     0x00, 0xbb, 0xFF, 0xbb, 0xbb, 0xbb, 0xFF, 0xbb, 0x00,
     0x00, 0xbb, 0xbb, 0xFF, 0xFF, 0xFF, 0xbb, 0xbb, 0x00,
     0x00, 0x00, 0xbb, 0xbb, 0xbb, 0xbb, 0xbb, 0x00, 0x00,
     0x00, 0x00, 0x00, 0x00, 0x00, 0x00, 0x00, 0x00, 0x00,
     0x00, 0x00, 0x00, 0x00, 0x00, 0x00, 0x00, 0x00, 0x00,
     0x00, 0x00, 0x00, 0x00, 0x00, 0x00, 0x00, 0x00, 0x00]"

definition glyph_80 :: "u8 list" where
  "glyph_80 =
    [0x00, 0x00, 0x00, 0x00, 0x00, 0x00, 0x00, 0x00, 0x00,
     0x00, 0x00, 0x00, 0x00, 0x00, 0x00, 0x00, 0x00, 0x00,
     0x00, 0x00, 0x00, 0x00, 0x00, 0x00, 0x00, 0x00, 0x00,
     0x00, 0xbb, 0xbb, 0xbb, 0xbb, 0xbb, 0xbb, 0x00, 0x00,
     0x00, 0xbb, 0xFF, 0xFF, 0xFF, 0xFF, 0xbb, 0xbb, 0x00,
     0x00, 0xbb, 0xFF, 0xbb, 0xbb, 0xbb, 0xFF, 0xbb, 0x00,
     0x00, 0xbb, 0xFF, 0xbb, 0x00, 0xbb, 0xFF, 0xbb, 0x00,
     0x00, 0xbb, 0xFF, 0xbb, 0xbb, 0xbb, 0xFF, 0xbb, 0x00,
     0x00, 0xbb, 0xFF, 0xFF, 0xFF, 0xFF, 0xbb, 0xbb, 0x00,
     0x00, 0xbb, 0xFF, 0xbb, 0xbb, 0xbb, 0xbb, 0x00, 0x00,
     0x00, 0xbb, 0xFF, 0xbb, 0x00, 0x00, 0x00, 0x00, 0x00,
     0x00, 0xbb, 0xFF, 0xbb, 0x00, 0x00, 0x00, 0x00, 0x00,
     0x00, 0xbb, 0xbb, 0xbb, 0x00, 0x00, 0x00, 0x00, 0x00,
     0x00, 0x00, 0x00, 0x00, 0x00, 0x00, 0x00, 0x00, 0x00,
     0x00, 0x00, 0x00, 0x00, 0x00, 0x00, 0x00, 0x00, 0x00,
     0x00, 0x00, 0x00, 0x00, 0x00, 0x00, 0x00, 0x00, 0x00]"

definition glyph_81 :: "u8 list" where
  "glyph_81 =
    [0x00, 0x00, 0x00, 0x00, 0x00, 0x00, 0x00, 0x00, 0x00,
     0x00, 0x00, 0x00, 0x00, 0x00, 0x00, 0x00, 0x00, 0x00,
     0x00, 0x00, 0x00, 0x00, 0x00, 0x00, 0x00, 0x00, 0x00,
     0x00, 0x00, 0xbb, 0xbb, 0xbb, 0xbb, 0xbb, 0x00, 0x00,
     0x00, 0xbb, 0xbb, 0xFF, 0xFF, 0xFF, 0xbb, 0xbb, 0x00,
     0x00, 0xbb, 0xFF, 0xbb, 0xbb, 0xbb, 0xFF, 0xbb, 0x00,
     0x00, 0xbb, 0xFF, 0xbb, 0x00, 0xbb, 0xFF, 0xbb, 0x00,
     0x00, 0xbb, 0xFF, 0xbb, 0x00, 0xbb, 0xFF, 0xbb, 0x00,
     0x00, 0xbb, 0xFF, 0xbb, 0x00, 0xbb, 0xFF, 0xbb, 0x00,
     0x00, 0xbb, 0xFF, 0xbb, 0xbb, 0xbb, 0xFF, 0xbb, 0x00,
     0x00, 0xbb, 0xFF, 0xbb, 0xbb, 0xFF, 0xbb, 0xbb, 0x00,
     0x00, 0xbb, 0xbb, 0xFF, 0xFF, 0xbb, 0xFF, 0xbb, 0x00,
     0x00, 0x00, 0xbb, 0xbb, 0xbb, 0xbb, 0xFF, 0xbb, 0x00,
     0x00, 0x00, 0x00, 0x00, 0x00, 0xbb, 0xbb, 0xbb, 0x00,
     0x00, 0x00, 0x00, 0x00, 0x00, 0x00, 0x00, 0x00, 0x00,
     0x00, 0x00, 0x00, 0x00, 0x00, 0x00, 0x00, 0x00, 0x00]"

definition glyph_82 :: "u8 list" where
  "glyph_82 =
    [0x00, 0x00, 0x00, 0x00, 0x00, 0x00, 0x00, 0x00, 0x00,
     0x00, 0x00, 0x00, 0x00, 0x00, 0x00, 0x00, 0x00, 0x00,
     0x00, 0x00, 0x00, 0x00, 0x00, 0x00, 0x00, 0x00, 0x00,
     0x00, 0xbb, 0xbb, 0xbb, 0xbb, 0xbb, 0xbb, 0x00, 0x00,
     0x00, 0xbb, 0xFF, 0xFF, 0xFF, 0xFF, 0xbb, 0xbb, 0x00,
     0x00, 0xbb, 0xFF, 0xbb, 0xbb, 0xbb, 0xFF, 0xbb, 0x00,
     0x00, 0xbb, 0xFF, 0xbb, 0xbb, 0xbb, 0xFF, 0xbb, 0x00,
     0x00, 0xbb, 0xFF, 0xFF, 0xFF, 0xFF, 0xbb, 0xbb, 0x00,
     0x00, 0xbb, 0xFF, 0xbb, 0xbb, 0xFF, 0xbb, 0xbb, 0x00,
     0x00, 0xbb, 0xFF, 0xbb, 0xbb, 0xbb, 0xFF, 0xbb, 0x00,
     0x00, 0xbb, 0xFF, 0xbb, 0x00, 0xbb, 0xFF, 0xbb, 0x00,
     0x00, 0xbb, 0xFF, 0xbb, 0x00, 0xbb, 0xFF, 0xbb, 0x00,
     0x00, 0xbb, 0xbb, 0xbb, 0x00, 0xbb, 0xbb, 0xbb, 0x00,
     0x00, 0x00, 0x00, 0x00, 0x00, 0x00, 0x00, 0x00, 0x00,
     0x00, 0x00, 0x00, 0x00, 0x00, 0x00, 0x00, 0x00, 0x00,
     0x00, 0x00, 0x00, 0x00, 0x00, 0x00, 0x00, 0x00, 0x00]"

definition glyph_83 :: "u8 list" where
  "glyph_83 =
    [0x00, 0x00, 0x00, 0x00, 0x00, 0x00, 0x00, 0x00, 0x00,
     0x00, 0x00, 0x00, 0x00, 0x00, 0x00, 0x00, 0x00, 0x00,
     0x00, 0x00, 0x00, 0x00, 0x00, 0x00, 0x00, 0x00, 0x00,
     0x00, 0x00, 0xbb, 0xbb, 0xbb, 0xbb, 0xbb, 0x00, 0x00,
     0x00, 0xbb, 0xbb, 0xFF, 0xFF, 0xFF, 0xbb, 0xbb, 0x00,
     0x00, 0xbb, 0xFF, 0xbb, 0xbb, 0xbb, 0xFF, 0xbb, 0x00,
     0x00, 0xbb, 0xFF, 0xbb, 0xbb, 0xbb, 0xbb, 0xbb, 0x00,
     0x00, 0xbb, 0xbb, 0xFF, 0xFF, 0xFF, 0xbb, 0xbb, 0x00,
     0x00, 0x00, 0xbb, 0xbb, 0xbb, 0xbb, 0xFF, 0xbb, 0x00,
     0x00, 0xbb, 0xbb, 0xbb, 0x00, 0xbb, 0xFF, 0xbb, 0x00,
     0x00, 0xbb, 0xFF, 0xbb, 0xbb, 0xbb, 0xFF, 0xbb, 0x00,
     0x00, 0xbb, 0xbb, 0xFF, 0xFF, 0xFF, 0xbb, 0xbb, 0x00,
     0x00, 0x00, 0xbb, 0xbb, 0xbb, 0xbb, 0xbb, 0x00, 0x00,
     0x00, 0x00, 0x00, 0x00, 0x00, 0x00, 0x00, 0x00, 0x00,
     0x00, 0x00, 0x00, 0x00, 0x00, 0x00, 0x00, 0x00, 0x00,
     0x00, 0x00, 0x00, 0x00, 0x00, 0x00, 0x00, 0x00, 0x00]"

definition glyph_84 :: "u8 list" where
  "glyph_84 =
    [0x00, 0x00, 0x00, 0x00, 0x00, 0x00, 0x00, 0x00, 0x00,
     0x00, 0x00, 0x00, 0x00, 0x00, 0x00, 0x00, 0x00, 0x00,
     0x00, 0x00, 0x00, 0x00, 0x00, 0x00, 0x00, 0x00, 0x00,
     0x00, 0xbb, 0xbb, 0xbb, 0xbb, 0xbb, 0xbb, 0xbb, 0x00,
     0x00, 0xbb, 0xFF, 0xFF, 0xFF, 0xFF, 0xFF, 0xbb, 0x00,
     0x00, 0xbb, 0xbb, 0xbb, 0xFF, 0xbb, 0xbb, 0xbb, 0x00,
     0x00, 0x00, 0x00, 0xbb, 0xFF, 0xbb, 0x00, 0x00, 0x00,
     0x00, 0x00, 0x00, 0xbb, 0xFF, 0xbb, 0x00, 0x00, 0x00,
     0x00, 0x00, 0x00, 0xbb, 0xFF, 0xbb, 0x00, 0x00, 0x00,
     0x00, 0x00, 0x00, 0xbb, 0xFF, 0xbb, 0x00, 0x00, 0x00,
     0x00, 0x00, 0x00, 0xbb, 0xFF, 0xbb, 0x00, 0x00, 0x00,
     0x00, 0x00, 0x00, 0xbb, 0xFF, 0xbb, 0x00, 0x00, 0x00,
     0x00, 0x00, 0x00, 0xbb, 0xbb, 0xbb, 0x00, 0x00, 0x00,
     0x00, 0x00, 0x00, 0x00, 0x00, 0x00, 0x00, 0x00, 0x00,
     0x00, 0x00, 0x00, 0x00, 0x00, 0x00, 0x00, 0x00, 0x00,
     0x00, 0x00, 0x00, 0x00, 0x00, 0x00, 0x00, 0x00, 0x00]"

definition glyph_85 :: "u8 list" where
  "glyph_85 =
    [0x00, 0x00, 0x00, 0x00, 0x00, 0x00, 0x00, 0x00, 0x00,
     0x00, 0x00, 0x00, 0x00, 0x00, 0x00, 0x00, 0x00, 0x00,
     0x00, 0x00, 0x00, 0x00, 0x00, 0x00, 0x00, 0x00, 0x00,
     0x00, 0xbb, 0xbb, 0xbb, 0x00, 0xbb, 0xbb, 0xbb, 0x00,
     0x00, 0xbb, 0xFF, 0xbb, 0x00, 0xbb, 0xFF, 0xbb, 0x00,
     0x00, 0xbb, 0xFF, 0xbb, 0x00, 0xbb, 0xFF, 0xbb, 0x00,
     0x00, 0xbb, 0xFF, 0xbb, 0x00, 0xbb, 0xFF, 0xbb, 0x00,
     0x00, 0xbb, 0xFF, 0xbb, 0x00, 0xbb, 0xFF, 0xbb, 0x00,
     0x00, 0xbb, 0xFF, 0xbb, 0x00, 0xbb, 0xFF, 0xbb, 0x00,
     0x00, 0xbb, 0xFF, 0xbb, 0x00, 0xbb, 0xFF, 0xbb, 0x00,
     0x00, 0xbb, 0xFF, 0xbb, 0xbb, 0xbb, 0xFF, 0xbb, 0x00,
     0x00, 0xbb, 0xbb, 0xFF, 0xFF, 0xFF, 0xbb, 0xbb, 0x00,
     0x00, 0x00, 0xbb, 0xbb, 0xbb, 0xbb, 0xbb, 0x00, 0x00,
     0x00, 0x00, 0x00, 0x00, 0x00, 0x00, 0x00, 0x00, 0x00,
     0x00, 0x00, 0x00, 0x00, 0x00, 0x00, 0x00, 0x00, 0x00,
     0x00, 0x00, 0x00, 0x00, 0x00, 0x00, 0x00, 0x00, 0x00]"

definition glyph_86 :: "u8 list" where
  "glyph_86 =
    [0x00, 0x00, 0x00, 0x00, 0x00, 0x00, 0x00, 0x00, 0x00,
     0x00, 0x00, 0x00, 0x00, 0x00, 0x00, 0x00, 0x00, 0x00,
     0x00, 0x00, 0x00, 0x00, 0x00, 0x00, 0x00, 0x00, 0x00,
     0x00, 0xbb, 0xbb, 0xbb, 0x00, 0xbb, 0xbb, 0xbb, 0x00,
     0x00, 0xbb, 0xFF, 0xbb, 0x00, 0xbb, 0xFF, 0xbb, 0x00,
     0x00, 0xbb, 0xFF, 0xbb, 0x00, 0xbb, 0xFF, 0xbb, 0x00,
     0x00, 0xbb, 0xFF, 0xbb, 0xbb, 0xbb, 0xFF, 0xbb, 0x00,
     0x00, 0xbb, 0xbb, 0xFF, 0xbb, 0xFF, 0xbb, 0xbb, 0x00,
     0x00, 0x00, 0xbb, 0xFF, 0xbb, 0xFF, 0xbb, 0x00, 0x00,
     0x00, 0x00, 0xbb, 0xFF, 0xbb, 0xFF, 0xbb, 0x00, 0x00,
     0x00, 0x00, 0xbb, 0xbb, 0xFF, 0xbb, 0xbb, 0x00, 0x00,
     0x00, 0x00, 0x00, 0xbb, 0xFF, 0xbb, 0x00, 0x00, 0x00,
     0x00, 0x00, 0x00, 0xbb, 0xbb, 0xbb, 0x00, 0x00, 0x00,
     0x00, 0x00, 0x00, 0x00, 0x00, 0x00, 0x00, 0x00, 0x00,
     0x00, 0x00, 0x00, 0x00, 0x00, 0x00, 0x00, 0x00, 0x00,
     0x00, 0x00, 0x00, 0x00, 0x00, 0x00, 0x00, 0x00, 0x00]"

definition glyph_87 :: "u8 list" where
  "glyph_87 =
    [0x00, 0x00, 0x00, 0x00, 0x00, 0x00, 0x00, 0x00, 0x00,
     0x00, 0x00, 0x00, 0x00, 0x00, 0x00, 0x00, 0x00, 0x00,
     0x00, 0x00, 0x00, 0x00, 0x00, 0x00, 0x00, 0x00, 0x00,
     0x00, 0xbb, 0xbb, 0xbb, 0x00, 0xbb, 0xbb, 0xbb, 0x00,
     0x00, 0xbb, 0xFF, 0xbb, 0x00, 0xbb, 0xFF, 0xbb, 0x00,
     0x00, 0xbb, 0xFF, 0xbb, 0x00, 0xbb, 0xFF, 0xbb, 0x00,
     0x00, 0xbb, 0xFF, 0xbb, 0xbb, 0xbb, 0xFF, 0xbb, 0x00,
     0x00, 0xbb, 0xFF, 0xbb, 0xFF, 0xbb, 0xFF, 0xbb, 0x00,
     0x00, 0xbb, 0xFF, 0xbb, 0xFF, 0xbb, 0xFF, 0xbb, 0x00,
     0x00, 0xbb, 0xbb, 0xFF, 0xFF, 0xFF, 0xbb, 0xbb, 0x00,
     0x00, 0x00, 0xbb, 0xFF, 0xbb, 0xFF, 0xbb, 0x00, 0x00,
     0x00, 0x00, 0xbb, 0xFF, 0xbb, 0xFF, 0xbb, 0x00, 0x00,
     0x00, 0x00, 0xbb, 0xbb, 0xbb, 0xbb, 0xbb, 0x00, 0x00,
     0x00, 0x00, 0x00, 0x00, 0x00, 0x00, 0x00, 0x00, 0x00,
     0x00, 0x00, 0x00, 0x00, 0x00, 0x00, 0x00, 0x00, 0x00,
     0x00, 0x00, 0x00, 0x00, 0x00, 0x00, 0x00, 0x00, 0x00]"

definition glyph_88 :: "u8 list" where
  "glyph_88 =
    [0x00, 0x00, 0x00, 0x00, 0x00, 0x00, 0x00, 0x00, 0x00,
     0x00, 0x00, 0x00, 0x00, 0x00, 0x00, 0x00, 0x00, 0x00,
     0x00, 0x00, 0x00, 0x00, 0x00, 0x00, 0x00, 0x00, 0x00,
     0x00, 0xbb, 0xbb, 0xbb, 0x00, 0xbb, 0xbb, 0xbb, 0x00,
     0x00, 0xbb, 0xFF, 0xbb, 0x00, 0xbb, 0xFF, 0xbb, 0x00,
     0x00, 0xbb, 0xFF, 0xbb, 0xbb, 0xbb, 0xFF, 0xbb, 0x00,
     0x00, 0xbb, 0xbb, 0xFF, 0xbb, 0xFF, 0xbb, 0xbb, 0x00,
     0x00, 0x00, 0xbb, 0xbb, 0xFF, 0xbb, 0xbb, 0x00, 0x00,
     0x00, 0x00, 0xbb, 0xbb, 0xFF, 0xbb, 0xbb, 0x00, 0x00,
     0x00, 0xbb, 0xbb, 0xFF, 0xbb, 0xFF, 0xbb, 0xbb, 0x00,
     0x00, 0xbb, 0xFF, 0xbb, 0xbb, 0xbb, 0xFF, 0xbb, 0x00,
     0x00, 0xbb, 0xFF, 0xbb, 0x00, 0xbb, 0xFF, 0xbb, 0x00,
     0x00, 0xbb, 0xbb, 0xbb, 0x00, 0xbb, 0xbb, 0xbb, 0x00,
     0x00, 0x00, 0x00, 0x00, 0x00, 0x00, 0x00, 0x00, 0x00,
     0x00, 0x00, 0x00, 0x00, 0x00, 0x00, 0x00, 0x00, 0x00,
     0x00, 0x00, 0x00, 0x00, 0x00, 0x00, 0x00, 0x00, 0x00]"

definition glyph_89 :: "u8 list" where
  "glyph_89 =
    [0x00, 0x00, 0x00, 0x00, 0x00, 0x00, 0x00, 0x00, 0x00,
     0x00, 0x00, 0x00, 0x00, 0x00, 0x00, 0x00, 0x00, 0x00,
     0x00, 0x00, 0x00, 0x00, 0x00, 0x00, 0x00, 0x00, 0x00,
     0x00, 0xbb, 0xbb, 0xbb, 0x00, 0xbb, 0xbb, 0xbb, 0x00,
     0x00, 0xbb, 0xFF, 0xbb, 0x00, 0xbb, 0xFF, 0xbb, 0x00,
     0x00, 0xbb, 0xFF, 0xbb, 0x00, 0xbb, 0xFF, 0xbb, 0x00,
     0x00, 0xbb, 0xFF, 0xbb, 0xbb, 0xbb, 0xFF, 0xbb, 0x00,
     0x00, 0xbb, 0xbb, 0xFF, 0xbb, 0xFF, 0xbb, 0xbb, 0x00,
     0x00, 0x00, 0xbb, 0xbb, 0xFF, 0xbb, 0xbb, 0x00, 0x00,
     0x00, 0x00, 0x00, 0xbb, 0xFF, 0xbb, 0x00, 0x00, 0x00,
     0x00, 0x00, 0x00, 0xbb, 0xFF, 0xbb, 0x00, 0x00, 0x00,
     0x00, 0x00, 0x00, 0xbb, 0xFF, 0xbb, 0x00, 0x00, 0x00,
     0x00, 0x00, 0x00, 0xbb, 0xbb, 0xbb, 0x00, 0x00, 0x00,
     0x00, 0x00, 0x00, 0x00, 0x00, 0x00, 0x00, 0x00, 0x00,
     0x00, 0x00, 0x00, 0x00, 0x00, 0x00, 0x00, 0x00, 0x00,
     0x00, 0x00, 0x00, 0x00, 0x00, 0x00, 0x00, 0x00, 0x00]"

definition glyph_90 :: "u8 list" where
  "glyph_90 =
    [0x00, 0x00, 0x00, 0x00, 0x00, 0x00, 0x00, 0x00, 0x00,
     0x00, 0x00, 0x00, 0x00, 0x00, 0x00, 0x00, 0x00, 0x00,
     0x00, 0x00, 0x00, 0x00, 0x00, 0x00, 0x00, 0x00, 0x00,
     0x00, 0xbb, 0xbb, 0xbb, 0xbb, 0xbb, 0xbb, 0xbb, 0x00,
     0x00, 0xbb, 0xFF, 0xFF, 0xFF, 0xFF, 0xFF, 0xbb, 0x00,
     0x00, 0xbb, 0xbb, 0xbb, 0xbb, 0xFF, 0xbb, 0xbb, 0x00,
     0x00, 0x00, 0x00, 0xbb, 0xFF, 0xbb, 0xbb, 0x00, 0x00,
     0x00, 0x00, 0xbb, 0xbb, 0xFF, 0xbb, 0x00, 0x00, 0x00,
     0x00, 0x00, 0xbb, 0xFF, 0xbb, 0xbb, 0x00, 0x00, 0x00,
     0x00, 0xbb, 0xbb, 0xFF, 0xbb, 0x00, 0x00, 0x00, 0x00,
     0x00, 0xbb, 0xFF, 0xbb, 0xbb, 0xbb, 0xbb, 0xbb, 0x00,
     0x00, 0xbb, 0xFF, 0xFF, 0xFF, 0xFF, 0xFF, 0xbb, 0x00,
     0x00, 0xbb, 0xbb, 0xbb, 0xbb, 0xbb, 0xbb, 0xbb, 0x00,
     0x00, 0x00, 0x00, 0x00, 0x00, 0x00, 0x00, 0x00, 0x00,
     0x00, 0x00, 0x00, 0x00, 0x00, 0x00, 0x00, 0x00, 0x00,
     0x00, 0x00, 0x00, 0x00, 0x00, 0x00, 0x00, 0x00, 0x00]"

definition glyph_91 :: "u8 list" where
  "glyph_91 =
    [0x00, 0x00, 0x00, 0x00, 0x00, 0x00, 0x00, 0x00, 0x00,
     0x00, 0x00, 0x00, 0x00, 0x00, 0x00, 0x00, 0x00, 0x00,
     0x00, 0x00, 0xbb, 0xbb, 0xbb, 0xbb, 0xbb, 0x00, 0x00,
     0x00, 0x00, 0xbb, 0xFF, 0xFF, 0xFF, 0xbb, 0x00, 0x00,
     0x00, 0x00, 0xbb, 0xFF, 0xbb, 0xbb, 0xbb, 0x00, 0x00,
     0x00, 0x00, 0xbb, 0xFF, 0xbb, 0x00, 0x00, 0x00, 0x00,
     0x00, 0x00, 0xbb, 0xFF, 0xbb, 0x00, 0x00, 0x00, 0x00,
     0x00, 0x00, 0xbb, 0xFF, 0xbb, 0x00, 0x00, 0x00, 0x00,
     0x00, 0x00, 0xbb, 0xFF, 0xbb, 0x00, 0x00, 0x00, 0x00,
     0x00, 0x00, 0xbb, 0xFF, 0xbb, 0x00, 0x00, 0x00, 0x00,
     0x00, 0x00, 0xbb, 0xFF, 0xbb, 0x00, 0x00, 0x00, 0x00,
     0x00, 0x00, 0xbb, 0xFF, 0xbb, 0x00, 0x00, 0x00, 0x00,
     0x00, 0x00, 0xbb, 0xFF, 0xbb, 0xbb, 0xbb, 0x00, 0x00,
     0x00, 0x00, 0xbb, 0xFF, 0xFF, 0xFF, 0xbb, 0x00, 0x00,
     0x00, 0x00, 0xbb, 0xbb, 0xbb, 0xbb, 0xbb, 0x00, 0x00,
     0x00, 0x00, 0x00, 0x00, 0x00, 0x00, 0x00, 0x00, 0x00]"

definition glyph_92 :: "u8 list" where
  "glyph_92 =
    [0x00, 0x00, 0x00, 0x00, 0x00, 0x00, 0x00, 0x00, 0x00,
     0x00, 0x00, 0x00, 0x00, 0x00, 0x00, 0x00, 0x00, 0x00,
     0x00, 0xbb, 0xbb, 0xbb, 0x00, 0x00, 0x00, 0x00, 0x00,
     0x00, 0xbb, 0xFF, 0xbb, 0x00, 0x00, 0x00, 0x00, 0x00,
     0x00, 0xbb, 0xFF, 0xbb, 0xbb, 0x00, 0x00, 0x00, 0x00,
     0x00, 0xbb, 0xbb, 0xFF, 0xbb, 0x00, 0x00, 0x00, 0x00,
     0x00, 0x00, 0xbb, 0xFF, 0xbb, 0xbb, 0x00, 0x00, 0x00,
     0x00, 0x00, 0xbb, 0xbb, 0xFF, 0xbb, 0x00, 0x00, 0x00,
     0x00, 0x00, 0x00, 0xbb, 0xFF, 0xbb, 0xbb, 0x00, 0x00,
     0x00, 0x00, 0x00, 0xbb, 0xbb, 0xFF, 0xbb, 0x00, 0x00,
     0x00, 0x00, 0x00, 0x00, 0xbb, 0xFF, 0xbb, 0xbb, 0x00,
     0x00, 0x00, 0x00, 0x00, 0xbb, 0xbb, 0xFF, 0xbb, 0x00,
     0x00, 0x00, 0x00, 0x00, 0x00, 0xbb, 0xFF, 0xbb, 0x00,
     0x00, 0x00, 0x00, 0x00, 0x00, 0xbb, 0xbb, 0xbb, 0x00,
     0x00, 0x00, 0x00, 0x00, 0x00, 0x00, 0x00, 0x00, 0x00,
     0x00, 0x00, 0x00, 0x00, 0x00, 0x00, 0x00, 0x00, 0x00]"

definition glyph_93 :: "u8 list" where
  "glyph_93 =
    [0x00, 0x00, 0x00, 0x00, 0x00, 0x00, 0x00, 0x00, 0x00,
     0x00, 0x00, 0x00, 0x00, 0x00, 0x00, 0x00, 0x00, 0x00,
     0x00, 0x00, 0xbb, 0xbb, 0xbb, 0xbb, 0xbb, 0x00, 0x00,
     0x00, 0x00, 0xbb, 0xFF, 0xFF, 0xFF, 0xbb, 0x00, 0x00,
     0x00, 0x00, 0xbb, 0xbb, 0xbb, 0xFF, 0xbb, 0x00, 0x00,
     0x00, 0x00, 0x00, 0x00, 0xbb, 0xFF, 0xbb, 0x00, 0x00,
     0x00, 0x00, 0x00, 0x00, 0xbb, 0xFF, 0xbb, 0x00, 0x00,
     0x00, 0x00, 0x00, 0x00, 0xbb, 0xFF, 0xbb, 0x00, 0x00,
     0x00, 0x00, 0x00, 0x00, 0xbb, 0xFF, 0xbb, 0x00, 0x00,
     0x00, 0x00, 0x00, 0x00, 0xbb, 0xFF, 0xbb, 0x00, 0x00,
     0x00, 0x00, 0x00, 0x00, 0xbb, 0xFF, 0xbb, 0x00, 0x00,
     0x00, 0x00, 0x00, 0x00, 0xbb, 0xFF, 0xbb, 0x00, 0x00,
     0x00, 0x00, 0xbb, 0xbb, 0xbb, 0xFF, 0xbb, 0x00, 0x00,
     0x00, 0x00, 0xbb, 0xFF, 0xFF, 0xFF, 0xbb, 0x00, 0x00,
     0x00, 0x00, 0xbb, 0xbb, 0xbb, 0xbb, 0xbb, 0x00, 0x00,
     0x00, 0x00, 0x00, 0x00, 0x00, 0x00, 0x00, 0x00, 0x00]"

definition glyph_94 :: "u8 list" where
  "glyph_94 =
    [0x00, 0x00, 0x00, 0x00, 0x00, 0x00, 0x00, 0x00, 0x00,
     0x00, 0x00, 0x00, 0x00, 0x00, 0x00, 0x00, 0x00, 0x00,
     0x00, 0x00, 0x00, 0xbb, 0xbb, 0xbb, 0x00, 0x00, 0x00,
     0x00, 0x00, 0x00, 0xbb, 0xFF, 0xbb, 0x00, 0x00, 0x00,
     0x00, 0x00, 0xbb, 0xbb, 0xFF, 0xbb, 0xbb, 0x00, 0x00,
     0x00, 0x00, 0xbb, 0xFF, 0xbb, 0xFF, 0xbb, 0x00, 0x00,
     0x00, 0xbb, 0xbb, 0xFF, 0xbb, 0xFF, 0xbb, 0xbb, 0x00,
     0x00, 0xbb, 0xFF, 0xbb, 0xbb, 0xbb, 0xFF, 0xbb, 0x00,
     0x00, 0xbb, 0xFF, 0xbb, 0x00, 0xbb, 0xFF, 0xbb, 0x00,
     0x00, 0xbb, 0xbb, 0xbb, 0x00, 0xbb, 0xbb, 0xbb, 0x00,
     0x00, 0x00, 0x00, 0x00, 0x00, 0x00, 0x00, 0x00, 0x00,
     0x00, 0x00, 0x00, 0x00, 0x00, 0x00, 0x00, 0x00, 0x00,
     0x00, 0x00, 0x00, 0x00, 0x00, 0x00, 0x00, 0x00, 0x00,
     0x00, 0x00, 0x00, 0x00, 0x00, 0x00, 0x00, 0x00, 0x00,
     0x00, 0x00, 0x00, 0x00, 0x00, 0x00, 0x00, 0x00, 0x00,
     0x00, 0x00, 0x00, 0x00, 0x00, 0x00, 0x00, 0x00, 0x00]"

definition glyph_95 :: "u8 list" where
  "glyph_95 =
    [0x00, 0x00, 0x00, 0x00, 0x00, 0x00, 0x00, 0x00, 0x00,
     0x00, 0x00, 0x00, 0x00, 0x00, 0x00, 0x00, 0x00, 0x00,
     0x00, 0x00, 0x00, 0x00, 0x00, 0x00, 0x00, 0x00, 0x00,
     0x00, 0x00, 0x00, 0x00, 0x00, 0x00, 0x00, 0x00, 0x00,
     0x00, 0x00, 0x00, 0x00, 0x00, 0x00, 0x00, 0x00, 0x00,
     0x00, 0x00, 0x00, 0x00, 0x00, 0x00, 0x00, 0x00, 0x00,
     0x00, 0x00, 0x00, 0x00, 0x00, 0x00, 0x00, 0x00, 0x00,
     0x00, 0x00, 0x00, 0x00, 0x00, 0x00, 0x00, 0x00, 0x00,
     0x00, 0x00, 0x00, 0x00, 0x00, 0x00, 0x00, 0x00, 0x00,
     0x00, 0x00, 0x00, 0x00, 0x00, 0x00, 0x00, 0x00, 0x00,
     0x00, 0x00, 0x00, 0x00, 0x00, 0x00, 0x00, 0x00, 0x00,
     0xbb, 0xbb, 0xbb, 0xbb, 0xbb, 0xbb, 0xbb, 0xbb, 0xbb,
     0xbb, 0xFF, 0xFF, 0xFF, 0xFF, 0xFF, 0xFF, 0xFF, 0xbb,
     0xbb, 0xbb, 0xbb, 0xbb, 0xbb, 0xbb, 0xbb, 0xbb, 0xbb,
     0x00, 0x00, 0x00, 0x00, 0x00, 0x00, 0x00, 0x00, 0x00,
     0x00, 0x00, 0x00, 0x00, 0x00, 0x00, 0x00, 0x00, 0x00]"

definition glyph_96 :: "u8 list" where
  "glyph_96 =
    [0x00, 0x00, 0x00, 0x00, 0x00, 0x00, 0x00, 0x00, 0x00,
     0x00, 0x00, 0x00, 0x00, 0x00, 0x00, 0x00, 0x00, 0x00,
     0x00, 0x00, 0xbb, 0xbb, 0xbb, 0x00, 0x00, 0x00, 0x00,
     0x00, 0x00, 0xbb, 0xFF, 0xbb, 0xbb, 0x00, 0x00, 0x00,
     0x00, 0x00, 0xbb, 0xbb, 0xFF, 0xbb, 0x00, 0x00, 0x00,
     0x00, 0x00, 0x00, 0xbb, 0xbb, 0xbb, 0x00, 0x00, 0x00,
     0x00, 0x00, 0x00, 0x00, 0x00, 0x00, 0x00, 0x00, 0x00,
     0x00, 0x00, 0x00, 0x00, 0x00, 0x00, 0x00, 0x00, 0x00,
     0x00, 0x00, 0x00, 0x00, 0x00, 0x00, 0x00, 0x00, 0x00,
     0x00, 0x00, 0x00, 0x00, 0x00, 0x00, 0x00, 0x00, 0x00,
     0x00, 0x00, 0x00, 0x00, 0x00, 0x00, 0x00, 0x00, 0x00,
     0x00, 0x00, 0x00, 0x00, 0x00, 0x00, 0x00, 0x00, 0x00,
     0x00, 0x00, 0x00, 0x00, 0x00, 0x00, 0x00, 0x00, 0x00,
     0x00, 0x00, 0x00, 0x00, 0x00, 0x00, 0x00, 0x00, 0x00,
     0x00, 0x00, 0x00, 0x00, 0x00, 0x00, 0x00, 0x00, 0x00,
     0x00, 0x00, 0x00, 0x00, 0x00, 0x00, 0x00, 0x00, 0x00]"

definition glyph_97 :: "u8 list" where
  "glyph_97 =
    [0x00, 0x00, 0x00, 0x00, 0x00, 0x00, 0x00, 0x00, 0x00,
     0x00, 0x00, 0x00, 0x00, 0x00, 0x00, 0x00, 0x00, 0x00,
     0x00, 0x00, 0x00, 0x00, 0x00, 0x00, 0x00, 0x00, 0x00,
     0x00, 0x00, 0x00, 0x00, 0x00, 0x00, 0x00, 0x00, 0x00,
     0x00, 0x00, 0x00, 0x00, 0x00, 0x00, 0x00, 0x00, 0x00,
     0x00, 0x00, 0xbb, 0xbb, 0xbb, 0xbb, 0xbb, 0x00, 0x00,
     0x00, 0x00, 0xbb, 0xFF, 0xFF, 0xFF, 0xbb, 0xbb, 0x00,
     0x00, 0x00, 0xbb, 0xbb, 0xbb, 0xbb, 0xFF, 0xbb, 0x00,
     0x00, 0xbb, 0xbb, 0xFF, 0xFF, 0xFF, 0xFF, 0xbb, 0x00,
     0x00, 0xbb, 0xFF, 0xbb, 0xbb, 0xbb, 0xFF, 0xbb, 0x00,
     0x00, 0xbb, 0xFF, 0xbb, 0xbb, 0xbb, 0xFF, 0xbb, 0x00,
     0x00, 0xbb, 0xbb, 0xFF, 0xFF, 0xFF, 0xFF, 0xbb, 0x00,
     0x00, 0x00, 0xbb, 0xbb, 0xbb, 0xbb, 0xbb, 0xbb, 0x00,
     0x00, 0x00, 0x00, 0x00, 0x00, 0x00, 0x00, 0x00, 0x00,
     0x00, 0x00, 0x00, 0x00, 0x00, 0x00, 0x00, 0x00, 0x00,
     0x00, 0x00, 0x00, 0x00, 0x00, 0x00, 0x00, 0x00, 0x00]"

definition glyph_98 :: "u8 list" where
  "glyph_98 =
    [0x00, 0x00, 0x00, 0x00, 0x00, 0x00, 0x00, 0x00, 0x00,
     0x00, 0x00, 0x00, 0x00, 0x00, 0x00, 0x00, 0x00, 0x00,
     0x00, 0xbb, 0xbb, 0xbb, 0x00, 0x00, 0x00, 0x00, 0x00,
     0x00, 0xbb, 0xFF, 0xbb, 0x00, 0x00, 0x00, 0x00, 0x00,
     0x00, 0xbb, 0xFF, 0xbb, 0x00, 0x00, 0x00, 0x00, 0x00,
     0x00, 0xbb, 0xFF, 0xbb, 0xbb, 0xbb, 0xbb, 0x00, 0x00,
     0x00, 0xbb, 0xFF, 0xFF, 0xFF, 0xFF, 0xbb, 0xbb, 0x00,
     0x00, 0xbb, 0xFF, 0xbb, 0xbb, 0xbb, 0xFF, 0xbb, 0x00,
     0x00, 0xbb, 0xFF, 0xbb, 0x00, 0xbb, 0xFF, 0xbb, 0x00,
     0x00, 0xbb, 0xFF, 0xbb, 0x00, 0xbb, 0xFF, 0xbb, 0x00,
     0x00, 0xbb, 0xFF, 0xbb, 0xbb, 0xbb, 0xFF, 0xbb, 0x00,
     0x00, 0xbb, 0xFF, 0xFF, 0xFF, 0xFF, 0xbb, 0xbb, 0x00,
     0x00, 0xbb, 0xbb, 0xbb, 0xbb, 0xbb, 0xbb, 0x00, 0x00,
     0x00, 0x00, 0x00, 0x00, 0x00, 0x00, 0x00, 0x00, 0x00,
     0x00, 0x00, 0x00, 0x00, 0x00, 0x00, 0x00, 0x00, 0x00,
     0x00, 0x00, 0x00, 0x00, 0x00, 0x00, 0x00, 0x00, 0x00]"

definition glyph_99 :: "u8 list" where
  "glyph_99 =
    [0x00, 0x00, 0x00, 0x00, 0x00, 0x00, 0x00, 0x00, 0x00,
     0x00, 0x00, 0x00, 0x00, 0x00, 0x00, 0x00, 0x00, 0x00,
     0x00, 0x00, 0x00, 0x00, 0x00, 0x00, 0x00, 0x00, 0x00,
     0x00, 0x00, 0x00, 0x00, 0x00, 0x00, 0x00, 0x00, 0x00,
     0x00, 0x00, 0x00, 0x00, 0x00, 0x00, 0x00, 0x00, 0x00,
     0x00, 0x00, 0xbb, 0xbb, 0xbb, 0xbb, 0xbb, 0x00, 0x00,
     0x00, 0xbb, 0xbb, 0xFF, 0xFF, 0xFF, 0xbb, 0xbb, 0x00,
     0x00, 0xbb, 0xFF, 0xbb, 0xbb, 0xbb, 0xFF, 0xbb, 0x00,
     0x00, 0xbb, 0xFF, 0xbb, 0x00, 0xbb, 0xbb, 0xbb, 0x00,
     0x00, 0xbb, 0xFF, 0xbb, 0x00, 0xbb, 0xbb, 0xbb, 0x00,
     0x00, 0xbb, 0xFF, 0xbb, 0xbb, 0xbb, 0xFF, 0xbb, 0x00,
     0x00, 0xbb, 0xbb, 0xFF, 0xFF, 0xFF, 0xbb, 0xbb, 0x00,
     0x00, 0x00, 0xbb, 0xbb, 0xbb, 0xbb, 0xbb, 0x00, 0x00,
     0x00, 0x00, 0x00, 0x00, 0x00, 0x00, 0x00, 0x00, 0x00,
     0x00, 0x00, 0x00, 0x00, 0x00, 0x00, 0x00, 0x00, 0x00,
     0x00, 0x00, 0x00, 0x00, 0x00, 0x00, 0x00, 0x00, 0x00]"

definition glyph_100 :: "u8 list" where
  "glyph_100 =
    [0x00, 0x00, 0x00, 0x00, 0x00, 0x00, 0x00, 0x00, 0x00,
     0x00, 0x00, 0x00, 0x00, 0x00, 0x00, 0x00, 0x00, 0x00,
     0x00, 0x00, 0x00, 0x00, 0x00, 0xbb, 0xbb, 0xbb, 0x00,
     0x00, 0x00, 0x00, 0x00, 0x00, 0xbb, 0xFF, 0xbb, 0x00,
     0x00, 0x00, 0x00, 0x00, 0x00, 0xbb, 0xFF, 0xbb, 0x00,
     0x00, 0x00, 0xbb, 0xbb, 0xbb, 0xbb, 0xFF, 0xbb, 0x00,
     0x00, 0xbb, 0xbb, 0xFF, 0xFF, 0xFF, 0xFF, 0xbb, 0x00,
     0x00, 0xbb, 0xFF, 0xbb, 0xbb, 0xbb, 0xFF, 0xbb, 0x00,
     0x00, 0xbb, 0xFF, 0xbb, 0x00, 0xbb, 0xFF, 0xbb, 0x00,
     0x00, 0xbb, 0xFF, 0xbb, 0x00, 0xbb, 0xFF, 0xbb, 0x00,
     0x00, 0xbb, 0xFF, 0xbb, 0xbb, 0xbb, 0xFF, 0xbb, 0x00,
     0x00, 0xbb, 0xbb, 0xFF, 0xFF, 0xFF, 0xFF, 0xbb, 0x00,
     0x00, 0x00, 0xbb, 0xbb, 0xbb, 0xbb, 0xbb, 0xbb, 0x00,
     0x00, 0x00, 0x00, 0x00, 0x00, 0x00, 0x00, 0x00, 0x00,
     0x00, 0x00, 0x00, 0x00, 0x00, 0x00, 0x00, 0x00, 0x00,
     0x00, 0x00, 0x00, 0x00, 0x00, 0x00, 0x00, 0x00, 0x00]"

definition glyph_101 :: "u8 list" where
  "glyph_101 =
    [0x00, 0x00, 0x00, 0x00, 0x00, 0x00, 0x00, 0x00, 0x00,
     0x00, 0x00, 0x00, 0x00, 0x00, 0x00, 0x00, 0x00, 0x00,
     0x00, 0x00, 0x00, 0x00, 0x00, 0x00, 0x00, 0x00, 0x00,
     0x00, 0x00, 0x00, 0x00, 0x00, 0x00, 0x00, 0x00, 0x00,
     0x00, 0x00, 0x00, 0x00, 0x00, 0x00, 0x00, 0x00, 0x00,
     0x00, 0x00, 0xbb, 0xbb, 0xbb, 0xbb, 0xbb, 0x00, 0x00,
     0x00, 0xbb, 0xbb, 0xFF, 0xFF, 0xFF, 0xbb, 0xbb, 0x00,
     0x00, 0xbb, 0xFF, 0xbb, 0xbb, 0xbb, 0xFF, 0xbb, 0x00,
     0x00, 0xbb, 0xFF, 0xFF, 0xFF, 0xFF, 0xFF, 0xbb, 0x00,
     0x00, 0xbb, 0xFF, 0xbb, 0xbb, 0xbb, 0xbb, 0xbb, 0x00,
     0x00, 0xbb, 0xFF, 0xbb, 0xbb, 0xbb, 0xFF, 0xbb, 0x00,
     0x00, 0xbb, 0xbb, 0xFF, 0xFF, 0xFF, 0xbb, 0xbb, 0x00,
     0x00, 0x00, 0xbb, 0xbb, 0xbb, 0xbb, 0xbb, 0x00, 0x00,
     0x00, 0x00, 0x00, 0x00, 0x00, 0x00, 0x00, 0x00, 0x00,
     0x00, 0x00, 0x00, 0x00, 0x00, 0x00, 0x00, 0x00, 0x00,
     0x00, 0x00, 0x00, 0x00, 0x00, 0x00, 0x00, 0x00, 0x00]"

definition glyph_102 :: "u8 list" where
  "glyph_102 =
    [0x00, 0x00, 0x00, 0x00, 0x00, 0x00, 0x00, 0x00, 0x00,
     0x00, 0x00, 0x00, 0x00, 0x00, 0x00, 0x00, 0x00, 0x00,
     0x00, 0x00, 0x00, 0xbb, 0xbb, 0xbb, 0xbb, 0xbb, 0x00,
     0x00, 0x00, 0xbb, 0xbb, 0xFF, 0xFF, 0xFF, 0xbb, 0x00,
     0x00, 0x00, 0xbb, 0xFF, 0xbb, 0xbb, 0xbb, 0xbb, 0x00,
     0x00, 0xbb, 0xbb, 0xFF, 0xbb, 0xbb, 0xbb, 0x00, 0x00,
     0x00, 0xbb, 0xFF, 0xFF, 0xFF, 0xFF, 0xbb, 0x00, 0x00,
     0x00, 0xbb, 0xbb, 0xFF, 0xbb, 0xbb, 0xbb, 0x00, 0x00,
     0x00, 0x00, 0xbb, 0xFF, 0xbb, 0x00, 0x00, 0x00, 0x00,
     0x00, 0x00, 0xbb, 0xFF, 0xbb, 0x00, 0x00, 0x00, 0x00,
     0x00, 0x00, 0xbb, 0xFF, 0xbb, 0x00, 0x00, 0x00, 0x00,
     0x00, 0x00, 0xbb, 0xFF, 0xbb, 0x00, 0x00, 0x00, 0x00,
     0x00, 0x00, 0xbb, 0xbb, 0xbb, 0x00, 0x00, 0x00, 0x00,
     0x00, 0x00, 0x00, 0x00, 0x00, 0x00, 0x00, 0x00, 0x00,
     0x00, 0x00, 0x00, 0x00, 0x00, 0x00, 0x00, 0x00, 0x00,
     0x00, 0x00, 0x00, 0x00, 0x00, 0x00, 0x00, 0x00, 0x00]"

definition glyph_103 :: "u8 list" where
  "glyph_103 =
    [0x00, 0x00, 0x00, 0x00, 0x00, 0x00, 0x00, 0x00, 0x00,
     0x00, 0x00, 0x00, 0x00, 0x00, 0x00, 0x00, 0x00, 0x00,
     0x00, 0x00, 0x00, 0x00, 0x00, 0x00, 0x00, 0x00, 0x00,
     0x00, 0x00, 0x00, 0x00, 0x00, 0x00, 0x00, 0x00, 0x00,
     0x00, 0x00, 0x00, 0x00, 0x00, 0x00, 0x00, 0x00, 0x00,
     0x00, 0x00, 0xbb, 0xbb, 0xbb, 0xbb, 0xbb, 0xbb, 0x00,
     0x00, 0xbb, 0xbb, 0xFF, 0xFF, 0xFF, 0xFF, 0xbb, 0x00,
     0x00, 0xbb, 0xFF, 0xbb, 0xbb, 0xbb, 0xFF, 0xbb, 0x00,
     0x00, 0xbb, 0xFF, 0xbb, 0x00, 0xbb, 0xFF, 0xbb, 0x00,
     0x00, 0xbb, 0xFF, 0xbb, 0x00, 0xbb, 0xFF, 0xbb, 0x00,
     0x00, 0xbb, 0xFF, 0xbb, 0xbb, 0xbb, 0xFF, 0xbb, 0x00,
     0x00, 0xbb, 0xbb, 0xFF, 0xFF, 0xFF, 0xFF, 0xbb, 0x00,
     0x00, 0x00, 0xbb, 0xbb, 0xbb, 0xbb, 0xFF, 0xbb, 0x00,
     0x00, 0x00, 0xbb, 0xbb, 0xbb, 0xbb, 0xFF, 0xbb, 0x00,
     0x00, 0x00, 0xbb, 0xFF, 0xFF, 0xFF, 0xbb, 0xbb, 0x00,
     0x00, 0x00, 0xbb, 0xbb, 0xbb, 0xbb, 0xbb, 0x00, 0x00]"

definition glyph_104 :: "u8 list" where
  "glyph_104 =
    [0x00, 0x00, 0x00, 0x00, 0x00, 0x00, 0x00, 0x00, 0x00,
     0x00, 0x00, 0x00, 0x00, 0x00, 0x00, 0x00, 0x00, 0x00,
     0x00, 0xbb, 0xbb, 0xbb, 0x00, 0x00, 0x00, 0x00, 0x00,
     0x00, 0xbb, 0xFF, 0xbb, 0x00, 0x00, 0x00, 0x00, 0x00,
     0x00, 0xbb, 0xFF, 0xbb, 0x00, 0x00, 0x00, 0x00, 0x00,
     0x00, 0xbb, 0xFF, 0xbb, 0xbb, 0xbb, 0xbb, 0x00, 0x00,
     0x00, 0xbb, 0xFF, 0xFF, 0xFF, 0xFF, 0xbb, 0xbb, 0x00,
     0x00, 0xbb, 0xFF, 0xbb, 0xbb, 0xbb, 0xFF, 0xbb, 0x00,
     0x00, 0xbb, 0xFF, 0xbb, 0x00, 0xbb, 0xFF, 0xbb, 0x00,
     0x00, 0xbb, 0xFF, 0xbb, 0x00, 0xbb, 0xFF, 0xbb, 0x00,
     0x00, 0xbb, 0xFF, 0xbb, 0x00, 0xbb, 0xFF, 0xbb, 0x00,
     0x00, 0xbb, 0xFF, 0xbb, 0x00, 0xbb, 0xFF, 0xbb, 0x00,
     0x00, 0xbb, 0xbb, 0xbb, 0x00, 0xbb, 0xbb, 0xbb, 0x00,
     0x00, 0x00, 0x00, 0x00, 0x00, 0x00, 0x00, 0x00, 0x00,
     0x00, 0x00, 0x00, 0x00, 0x00, 0x00, 0x00, 0x00, 0x00,
     0x00, 0x00, 0x00, 0x00, 0x00, 0x00, 0x00, 0x00, 0x00]"

definition glyph_105 :: "u8 list" where
  "glyph_105 =
    [0x00, 0x00, 0x00, 0x00, 0x00, 0x00, 0x00, 0x00, 0x00,
     0x00, 0x00, 0x00, 0x00, 0x00, 0x00, 0x00, 0x00, 0x00,
     0x00, 0x00, 0x00, 0xbb, 0xbb, 0xbb, 0x00, 0x00, 0x00,
     0x00, 0x00, 0x00, 0xbb, 0xFF, 0xbb, 0x00, 0x00, 0x00,
     0x00, 0x00, 0x00, 0xbb, 0xFF, 0xbb, 0x00, 0x00, 0x00,
     0x00, 0x00, 0xbb, 0xbb, 0xbb, 0xbb, 0x00, 0x00, 0x00,
     0x00, 0x00, 0xbb, 0xFF, 0xFF, 0xbb, 0x00, 0x00, 0x00,
     0x00, 0x00, 0xbb, 0xbb, 0xFF, 0xbb, 0x00, 0x00, 0x00,
     0x00, 0x00, 0x00, 0xbb, 0xFF, 0xbb, 0x00, 0x00, 0x00,
     0x00, 0x00, 0x00, 0xbb, 0xFF, 0xbb, 0x00, 0x00, 0x00,
     0x00, 0x00, 0xbb, 0xbb, 0xFF, 0xbb, 0xbb, 0x00, 0x00,
     0x00, 0x00, 0xbb, 0xFF, 0xFF, 0xFF, 0xbb, 0x00, 0x00,
     0x00, 0x00, 0xbb, 0xbb, 0xbb, 0xbb, 0xbb, 0x00, 0x00,
     0x00, 0x00, 0x00, 0x00, 0x00, 0x00, 0x00, 0x00, 0x00,
     0x00, 0x00, 0x00, 0x00, 0x00, 0x00, 0x00, 0x00, 0x00,
     0x00, 0x00, 0x00, 0x00, 0x00, 0x00, 0x00, 0x00, 0x00]"

definition glyph_106 :: "u8 list" where
  "glyph_106 =
    [0x00, 0x00, 0x00, 0x00, 0x00, 0x00, 0x00, 0x00, 0x00,
     0x00, 0x00, 0x00, 0x00, 0x00, 0x00, 0x00, 0x00, 0x00,
     0x00, 0x00, 0x00, 0x00, 0xbb, 0xbb, 0xbb, 0x00, 0x00,
     0x00, 0x00, 0x00, 0x00, 0xbb, 0xFF, 0xbb, 0x00, 0x00,
     0x00, 0x00, 0x00, 0x00, 0xbb, 0xFF, 0xbb, 0x00, 0x00,
     0x00, 0x00, 0x00, 0xbb, 0xbb, 0xbb, 0xbb, 0x00, 0x00,
     0x00, 0x00, 0x00, 0xbb, 0xFF, 0xFF, 0xbb, 0x00, 0x00,
     0x00, 0x00, 0x00, 0xbb, 0xbb, 0xFF, 0xbb, 0x00, 0x00,
     0x00, 0x00, 0x00, 0x00, 0xbb, 0xFF, 0xbb, 0x00, 0x00,
     0x00, 0x00, 0x00, 0x00, 0xbb, 0xFF, 0xbb, 0x00, 0x00,
     0x00, 0x00, 0x00, 0x00, 0xbb, 0xFF, 0xbb, 0x00, 0x00,
     0x00, 0x00, 0x00, 0x00, 0xbb, 0xFF, 0xbb, 0x00, 0x00,
     0x00, 0xbb, 0xbb, 0xbb, 0xbb, 0xFF, 0xbb, 0x00, 0x00,
     0x00, 0xbb, 0xFF, 0xFF, 0xFF, 0xbb, 0xbb, 0x00, 0x00,
     0x00, 0xbb, 0xbb, 0xbb, 0xbb, 0xbb, 0x00, 0x00, 0x00,
     0x00, 0x00, 0x00, 0x00, 0x00, 0x00, 0x00, 0x00, 0x00]"

definition glyph_107 :: "u8 list" where
  "glyph_107 =
    [0x00, 0x00, 0x00, 0x00, 0x00, 0x00, 0x00, 0x00, 0x00,
     0x00, 0x00, 0x00, 0x00, 0x00, 0x00, 0x00, 0x00, 0x00,
     0x00, 0xbb, 0xbb, 0xbb, 0x00, 0x00, 0x00, 0x00, 0x00,
     0x00, 0xbb, 0xFF, 0xbb, 0x00, 0x00, 0x00, 0x00, 0x00,
     0x00, 0xbb, 0xFF, 0xbb, 0x00, 0x00, 0x00, 0x00, 0x00,
     0x00, 0xbb, 0xFF, 0xbb, 0x00, 0xbb, 0xbb, 0xbb, 0x00,
     0x00, 0xbb, 0xFF, 0xbb, 0xbb, 0xbb, 0xFF, 0xbb, 0x00,
     0x00, 0xbb, 0xFF, 0xbb, 0xbb, 0xFF, 0xbb, 0xbb, 0x00,
     0x00, 0xbb, 0xFF, 0xbb, 0xFF, 0xbb, 0xbb, 0x00, 0x00,
     0x00, 0xbb, 0xFF, 0xFF, 0xFF, 0xbb, 0xbb, 0x00, 0x00,
     0x00, 0xbb, 0xFF, 0xbb, 0xbb, 0xFF, 0xbb, 0xbb, 0x00,
     0x00, 0xbb, 0xFF, 0xbb, 0xbb, 0xbb, 0xFF, 0xbb, 0x00,
     0x00, 0xbb, 0xbb, 0xbb, 0x00, 0xbb, 0xbb, 0xbb, 0x00,
     0x00, 0x00, 0x00, 0x00, 0x00, 0x00, 0x00, 0x00, 0x00,
     0x00, 0x00, 0x00, 0x00, 0x00, 0x00, 0x00, 0x00, 0x00,
     0x00, 0x00, 0x00, 0x00, 0x00, 0x00, 0x00, 0x00, 0x00]"

definition glyph_108 :: "u8 list" where
  "glyph_108 =
    [0x00, 0x00, 0x00, 0x00, 0x00, 0x00, 0x00, 0x00, 0x00,
     0x00, 0x00, 0x00, 0x00, 0x00, 0x00, 0x00, 0x00, 0x00,
     0x00, 0x00, 0xbb, 0xbb, 0xbb, 0xbb, 0x00, 0x00, 0x00,
     0x00, 0x00, 0xbb, 0xFF, 0xFF, 0xbb, 0x00, 0x00, 0x00,
     0x00, 0x00, 0xbb, 0xbb, 0xFF, 0xbb, 0x00, 0x00, 0x00,
     0x00, 0x00, 0x00, 0xbb, 0xFF, 0xbb, 0x00, 0x00, 0x00,
     0x00, 0x00, 0x00, 0xbb, 0xFF, 0xbb, 0x00, 0x00, 0x00,
     0x00, 0x00, 0x00, 0xbb, 0xFF, 0xbb, 0x00, 0x00, 0x00,
     0x00, 0x00, 0x00, 0xbb, 0xFF, 0xbb, 0x00, 0x00, 0x00,
     0x00, 0x00, 0x00, 0xbb, 0xFF, 0xbb, 0x00, 0x00, 0x00,
     0x00, 0x00, 0x00, 0xbb, 0xFF, 0xbb, 0xbb, 0x00, 0x00,
     0x00, 0x00, 0x00, 0xbb, 0xFF, 0xFF, 0xbb, 0x00, 0x00,
     0x00, 0x00, 0x00, 0xbb, 0xbb, 0xbb, 0xbb, 0x00, 0x00,
     0x00, 0x00, 0x00, 0x00, 0x00, 0x00, 0x00, 0x00, 0x00,
     0x00, 0x00, 0x00, 0x00, 0x00, 0x00, 0x00, 0x00, 0x00,
     0x00, 0x00, 0x00, 0x00, 0x00, 0x00, 0x00, 0x00, 0x00]"

definition glyph_109 :: "u8 list" where
  "glyph_109 =
    [0x00, 0x00, 0x00, 0x00, 0x00, 0x00, 0x00, 0x00, 0x00,
     0x00, 0x00, 0x00, 0x00, 0x00, 0x00, 0x00, 0x00, 0x00,
     0x00, 0x00, 0x00, 0x00, 0x00, 0x00, 0x00, 0x00, 0x00,
     0x00, 0x00, 0x00, 0x00, 0x00, 0x00, 0x00, 0x00, 0x00,
     0x00, 0x00, 0x00, 0x00, 0x00, 0x00, 0x00, 0x00, 0x00,
     0x00, 0xbb, 0xbb, 0xbb, 0xbb, 0xbb, 0xbb, 0x00, 0x00,
     0x00, 0xbb, 0xFF, 0xFF, 0xbb, 0xFF, 0xbb, 0xbb, 0x00,
     0x00, 0xbb, 0xFF, 0xbb, 0xFF, 0xbb, 0xFF, 0xbb, 0x00,
     0x00, 0xbb, 0xFF, 0xbb, 0xFF, 0xbb, 0xFF, 0xbb, 0x00,
     0x00, 0xbb, 0xFF, 0xbb, 0xFF, 0xbb, 0xFF, 0xbb, 0x00,
     0x00, 0xbb, 0xFF, 0xbb, 0xFF, 0xbb, 0xFF, 0xbb, 0x00,
     0x00, 0xbb, 0xFF, 0xbb, 0xFF, 0xbb, 0xFF, 0xbb, 0x00,
     0x00, 0xbb, 0xbb, 0xbb, 0xbb, 0xbb, 0xbb, 0xbb, 0x00,
     0x00, 0x00, 0x00, 0x00, 0x00, 0x00, 0x00, 0x00, 0x00,
     0x00, 0x00, 0x00, 0x00, 0x00, 0x00, 0x00, 0x00, 0x00,
     0x00, 0x00, 0x00, 0x00, 0x00, 0x00, 0x00, 0x00, 0x00]"

definition glyph_110 :: "u8 list" where
  "glyph_110 =
    [0x00, 0x00, 0x00, 0x00, 0x00, 0x00, 0x00, 0x00, 0x00,
     0x00, 0x00, 0x00, 0x00, 0x00, 0x00, 0x00, 0x00, 0x00,
     0x00, 0x00, 0x00, 0x00, 0x00, 0x00, 0x00, 0x00, 0x00,
     0x00, 0x00, 0x00, 0x00, 0x00, 0x00, 0x00, 0x00, 0x00,
     0x00, 0x00, 0x00, 0x00, 0x00, 0x00, 0x00, 0x00, 0x00,
     0x00, 0xbb, 0xbb, 0xbb, 0xbb, 0xbb, 0xbb, 0x00, 0x00,
     0x00, 0xbb, 0xFF, 0xFF, 0xFF, 0xFF, 0xbb, 0xbb, 0x00,
     0x00, 0xbb, 0xFF, 0xbb, 0xbb, 0xbb, 0xFF, 0xbb, 0x00,
     0x00, 0xbb, 0xFF, 0xbb, 0x00, 0xbb, 0xFF, 0xbb, 0x00,
     0x00, 0xbb, 0xFF, 0xbb, 0x00, 0xbb, 0xFF, 0xbb, 0x00,
     0x00, 0xbb, 0xFF, 0xbb, 0x00, 0xbb, 0xFF, 0xbb, 0x00,
     0x00, 0xbb, 0xFF, 0xbb, 0x00, 0xbb, 0xFF, 0xbb, 0x00,
     0x00, 0xbb, 0xbb, 0xbb, 0x00, 0xbb, 0xbb, 0xbb, 0x00,
     0x00, 0x00, 0x00, 0x00, 0x00, 0x00, 0x00, 0x00, 0x00,
     0x00, 0x00, 0x00, 0x00, 0x00, 0x00, 0x00, 0x00, 0x00,
     0x00, 0x00, 0x00, 0x00, 0x00, 0x00, 0x00, 0x00, 0x00]"

definition glyph_111 :: "u8 list" where
  "glyph_111 =
    [0x00, 0x00, 0x00, 0x00, 0x00, 0x00, 0x00, 0x00, 0x00,
     0x00, 0x00, 0x00, 0x00, 0x00, 0x00, 0x00, 0x00, 0x00,
     0x00, 0x00, 0x00, 0x00, 0x00, 0x00, 0x00, 0x00, 0x00,
     0x00, 0x00, 0x00, 0x00, 0x00, 0x00, 0x00, 0x00, 0x00,
     0x00, 0x00, 0x00, 0x00, 0x00, 0x00, 0x00, 0x00, 0x00,
     0x00, 0x00, 0xbb, 0xbb, 0xbb, 0xbb, 0xbb, 0x00, 0x00,
     0x00, 0xbb, 0xbb, 0xFF, 0xFF, 0xFF, 0xbb, 0xbb, 0x00,
     0x00, 0xbb, 0xFF, 0xbb, 0xbb, 0xbb, 0xFF, 0xbb, 0x00,
     0x00, 0xbb, 0xFF, 0xbb, 0x00, 0xbb, 0xFF, 0xbb, 0x00,
     0x00, 0xbb, 0xFF, 0xbb, 0x00, 0xbb, 0xFF, 0xbb, 0x00,
     0x00, 0xbb, 0xFF, 0xbb, 0xbb, 0xbb, 0xFF, 0xbb, 0x00,
     0x00, 0xbb, 0xbb, 0xFF, 0xFF, 0xFF, 0xbb, 0xbb, 0x00,
     0x00, 0x00, 0xbb, 0xbb, 0xbb, 0xbb, 0xbb, 0x00, 0x00,
     0x00, 0x00, 0x00, 0x00, 0x00, 0x00, 0x00, 0x00, 0x00,
     0x00, 0x00, 0x00, 0x00, 0x00, 0x00, 0x00, 0x00, 0x00,
     0x00, 0x00, 0x00, 0x00, 0x00, 0x00, 0x00, 0x00, 0x00]"

definition glyph_112 :: "u8 list" where
  "glyph_112 =
    [0x00, 0x00, 0x00, 0x00, 0x00, 0x00, 0x00, 0x00, 0x00,
     0x00, 0x00, 0x00, 0x00, 0x00, 0x00, 0x00, 0x00, 0x00,
     0x00, 0x00, 0x00, 0x00, 0x00, 0x00, 0x00, 0x00, 0x00,
     0x00, 0x00, 0x00, 0x00, 0x00, 0x00, 0x00, 0x00, 0x00,
     0x00, 0x00, 0x00, 0x00, 0x00, 0x00, 0x00, 0x00, 0x00,
     0x00, 0xbb, 0xbb, 0xbb, 0xbb, 0xbb, 0xbb, 0x00, 0x00,
     0x00, 0xbb, 0xFF, 0xFF, 0xFF, 0xFF, 0xbb, 0xbb, 0x00,
     0x00, 0xbb, 0xFF, 0xbb, 0xbb, 0xbb, 0xFF, 0xbb, 0x00,
     0x00, 0xbb, 0xFF, 0xbb, 0x00, 0xbb, 0xFF, 0xbb, 0x00,
     0x00, 0xbb, 0xFF, 0xbb, 0x00, 0xbb, 0xFF, 0xbb, 0x00,
     0x00, 0xbb, 0xFF, 0xbb, 0xbb, 0xbb, 0xFF, 0xbb, 0x00,
     0x00, 0xbb, 0xFF, 0xFF, 0xFF, 0xFF, 0xbb, 0xbb, 0x00,
     0x00, 0xbb, 0xFF, 0xbb, 0xbb, 0xbb, 0xbb, 0x00, 0x00,
     0x00, 0xbb, 0xFF, 0xbb, 0x00, 0x00, 0x00, 0x00, 0x00,
     0x00, 0xbb, 0xFF, 0xbb, 0x00, 0x00, 0x00, 0x00, 0x00,
     0x00, 0xbb, 0xbb, 0xbb, 0x00, 0x00, 0x00, 0x00, 0x00]"

definition glyph_113 :: "u8 list" where
  "glyph_113 =
    [0x00, 0x00, 0x00, 0x00, 0x00, 0x00, 0x00, 0x00, 0x00,
     0x00, 0x00, 0x00, 0x00, 0x00, 0x00, 0x00, 0x00, 0x00,
     0x00, 0x00, 0x00, 0x00, 0x00, 0x00, 0x00, 0x00, 0x00,
     0x00, 0x00, 0x00, 0x00, 0x00, 0x00, 0x00, 0x00, 0x00,
     0x00, 0x00, 0x00, 0x00, 0x00, 0x00, 0x00, 0x00, 0x00,
     0x00, 0x00, 0xbb, 0xbb, 0xbb, 0xbb, 0xbb, 0xbb, 0x00,
     0x00, 0xbb, 0xbb, 0xFF, 0xFF, 0xFF, 0xFF, 0xbb, 0x00,
     0x00, 0xbb, 0xFF, 0xbb, 0xbb, 0xbb, 0xFF, 0xbb, 0x00,
     0x00, 0xbb, 0xFF, 0xbb, 0x00, 0xbb, 0xFF, 0xbb, 0x00,
     0x00, 0xbb, 0xFF, 0xbb, 0x00, 0xbb, 0xFF, 0xbb, 0x00,
     0x00, 0xbb, 0xFF, 0xbb, 0xbb, 0xbb, 0xFF, 0xbb, 0x00,
     0x00, 0xbb, 0xbb, 0xFF, 0xFF, 0xFF, 0xFF, 0xbb, 0x00,
     0x00, 0x00, 0xbb, 0xbb, 0xbb, 0xbb, 0xFF, 0xbb, 0x00,
     0x00, 0x00, 0x00, 0x00, 0x00, 0xbb, 0xFF, 0xbb, 0x00,
     0x00, 0x00, 0x00, 0x00, 0x00, 0xbb, 0xFF, 0xbb, 0x00,
     0x00, 0x00, 0x00, 0x00, 0x00, 0xbb, 0xbb, 0xbb, 0x00]"

definition glyph_114 :: "u8 list" where
  "glyph_114 =
    [0x00, 0x00, 0x00, 0x00, 0x00, 0x00, 0x00, 0x00, 0x00,
     0x00, 0x00, 0x00, 0x00, 0x00, 0x00, 0x00, 0x00, 0x00,
     0x00, 0x00, 0x00, 0x00, 0x00, 0x00, 0x00, 0x00, 0x00,
     0x00, 0x00, 0x00, 0x00, 0x00, 0x00, 0x00, 0x00, 0x00,
     0x00, 0x00, 0x00, 0x00, 0x00, 0x00, 0x00, 0x00, 0x00,
     0x00, 0xbb, 0xbb, 0xbb, 0xbb, 0xbb, 0xbb, 0x00, 0x00,
     0x00, 0xbb, 0xFF, 0xbb, 0xFF, 0xFF, 0xbb, 0xbb, 0x00,
     0x00, 0xbb, 0xFF, 0xFF, 0xbb, 0xbb, 0xFF, 0xbb, 0x00,
     0x00, 0xbb, 0xFF, 0xbb, 0xbb, 0xbb, 0xbb, 0xbb, 0x00,
     0x00, 0xbb, 0xFF, 0xbb, 0x00, 0x00, 0x00, 0x00, 0x00,
     0x00, 0xbb, 0xFF, 0xbb, 0x00, 0x00, 0x00, 0x00, 0x00,
     0x00, 0xbb, 0xFF, 0xbb, 0x00, 0x00, 0x00, 0x00, 0x00,
     0x00, 0xbb, 0xbb, 0xbb, 0x00, 0x00, 0x00, 0x00, 0x00,
     0x00, 0x00, 0x00, 0x00, 0x00, 0x00, 0x00, 0x00, 0x00,
     0x00, 0x00, 0x00, 0x00, 0x00, 0x00, 0x00, 0x00, 0x00,
     0x00, 0x00, 0x00, 0x00, 0x00, 0x00, 0x00, 0x00, 0x00]"

definition glyph_115 :: "u8 list" where
  "glyph_115 =
    [0x00, 0x00, 0x00, 0x00, 0x00, 0x00, 0x00, 0x00, 0x00,
     0x00, 0x00, 0x00, 0x00, 0x00, 0x00, 0x00, 0x00, 0x00,
     0x00, 0x00, 0x00, 0x00, 0x00, 0x00, 0x00, 0x00, 0x00,
     0x00, 0x00, 0x00, 0x00, 0x00, 0x00, 0x00, 0x00, 0x00,
     0x00, 0x00, 0x00, 0x00, 0x00, 0x00, 0x00, 0x00, 0x00,
     0x00, 0x00, 0xbb, 0xbb, 0xbb, 0xbb, 0xbb, 0x00, 0x00,
     0x00, 0xbb, 0xbb, 0xFF, 0xFF, 0xFF, 0xbb, 0xbb, 0x00,
     0x00, 0xbb, 0xFF, 0xbb, 0xbb, 0xbb, 0xFF, 0xbb, 0x00,
     0x00, 0xbb, 0xbb, 0xFF, 0xFF, 0xFF, 0xbb, 0xbb, 0x00,
     0x00, 0xbb, 0xbb, 0xbb, 0xbb, 0xbb, 0xFF, 0xbb, 0x00,
     0x00, 0xbb, 0xFF, 0xbb, 0xbb, 0xbb, 0xFF, 0xbb, 0x00,
     0x00, 0xbb, 0xbb, 0xFF, 0xFF, 0xFF, 0xbb, 0xbb, 0x00,
     0x00, 0x00, 0xbb, 0xbb, 0xbb, 0xbb, 0xbb, 0x00, 0x00,
     0x00, 0x00, 0x00, 0x00, 0x00, 0x00, 0x00, 0x00, 0x00,
     0x00, 0x00, 0x00, 0x00, 0x00, 0x00, 0x00, 0x00, 0x00,
     0x00, 0x00, 0x00, 0x00, 0x00, 0x00, 0x00, 0x00, 0x00]"

definition glyph_116 :: "u8 list" where
  "glyph_116 =
    [0x00, 0x00, 0x00, 0x00, 0x00, 0x00, 0x00, 0x00, 0x00,
     0x00, 0x00, 0x00, 0x00, 0x00, 0x00, 0x00, 0x00, 0x00,
     0x00, 0x00, 0x00, 0x00, 0x00, 0x00, 0x00, 0x00, 0x00,
     0x00, 0x00, 0xbb, 0xbb, 0xbb, 0x00, 0x00, 0x00, 0x00,
     0x00, 0x00, 0xbb, 0xFF, 0xbb, 0x00, 0x00, 0x00, 0x00,
     0x00, 0xbb, 0xbb, 0xFF, 0xbb, 0xbb, 0xbb, 0x00, 0x00,
     0x00, 0xbb, 0xFF, 0xFF, 0xFF, 0xFF, 0xbb, 0x00, 0x00,
     0x00, 0xbb, 0xbb, 0xFF, 0xbb, 0xbb, 0xbb, 0x00, 0x00,
     0x00, 0x00, 0xbb, 0xFF, 0xbb, 0x00, 0x00, 0x00, 0x00,
     0x00, 0x00, 0xbb, 0xFF, 0xbb, 0x00, 0x00, 0x00, 0x00,
     0x00, 0x00, 0xbb, 0xFF, 0xbb, 0xbb, 0xbb, 0xbb, 0x00,
     0x00, 0x00, 0xbb, 0xbb, 0xFF, 0xFF, 0xFF, 0xbb, 0x00,
     0x00, 0x00, 0x00, 0xbb, 0xbb, 0xbb, 0xbb, 0xbb, 0x00,
     0x00, 0x00, 0x00, 0x00, 0x00, 0x00, 0x00, 0x00, 0x00,
     0x00, 0x00, 0x00, 0x00, 0x00, 0x00, 0x00, 0x00, 0x00,
     0x00, 0x00, 0x00, 0x00, 0x00, 0x00, 0x00, 0x00, 0x00]"

definition glyph_117 :: "u8 list" where
  "glyph_117 =
    [0x00, 0x00, 0x00, 0x00, 0x00, 0x00, 0x00, 0x00, 0x00,
     0x00, 0x00, 0x00, 0x00, 0x00, 0x00, 0x00, 0x00, 0x00,
     0x00, 0x00, 0x00, 0x00, 0x00, 0x00, 0x00, 0x00, 0x00,
     0x00, 0x00, 0x00, 0x00, 0x00, 0x00, 0x00, 0x00, 0x00,
     0x00, 0x00, 0x00, 0x00, 0x00, 0x00, 0x00, 0x00, 0x00,
     0x00, 0xbb, 0xbb, 0xbb, 0x00, 0xbb, 0xbb, 0xbb, 0x00,
     0x00, 0xbb, 0xFF, 0xbb, 0x00, 0xbb, 0xFF, 0xbb, 0x00,
     0x00, 0xbb, 0xFF, 0xbb, 0x00, 0xbb, 0xFF, 0xbb, 0x00,
     0x00, 0xbb, 0xFF, 0xbb, 0x00, 0xbb, 0xFF, 0xbb, 0x00,
     0x00, 0xbb, 0xFF, 0xbb, 0x00, 0xbb, 0xFF, 0xbb, 0x00,
     0x00, 0xbb, 0xFF, 0xbb, 0xbb, 0xbb, 0xFF, 0xbb, 0x00,
     0x00, 0xbb, 0xbb, 0xFF, 0xFF, 0xFF, 0xFF, 0xbb, 0x00,
     0x00, 0x00, 0xbb, 0xbb, 0xbb, 0xbb, 0xbb, 0xbb, 0x00,
     0x00, 0x00, 0x00, 0x00, 0x00, 0x00, 0x00, 0x00, 0x00,
     0x00, 0x00, 0x00, 0x00, 0x00, 0x00, 0x00, 0x00, 0x00,
     0x00, 0x00, 0x00, 0x00, 0x00, 0x00, 0x00, 0x00, 0x00]"

definition glyph_118 :: "u8 list" where
  "glyph_118 =
    [0x00, 0x00, 0x00, 0x00, 0x00, 0x00, 0x00, 0x00, 0x00,
     0x00, 0x00, 0x00, 0x00, 0x00, 0x00, 0x00, 0x00, 0x00,
     0x00, 0x00, 0x00, 0x00, 0x00, 0x00, 0x00, 0x00, 0x00,
     0x00, 0x00, 0x00, 0x00, 0x00, 0x00, 0x00, 0x00, 0x00,
     0x00, 0x00, 0x00, 0x00, 0x00, 0x00, 0x00, 0x00, 0x00,
     0x00, 0xbb, 0xbb, 0xbb, 0x00, 0xbb, 0xbb, 0xbb, 0x00,
     0x00, 0xbb, 0xFF, 0xbb, 0x00, 0xbb, 0xFF, 0xbb, 0x00,
     0x00, 0xbb, 0xFF, 0xbb, 0xbb, 0xbb, 0xFF, 0xbb, 0x00,
     0x00, 0xbb, 0xbb, 0xFF, 0xbb, 0xFF, 0xbb, 0xbb, 0x00,
     0x00, 0x00, 0xbb, 0xFF, 0xbb, 0xFF, 0xbb, 0x00, 0x00,
     0x00, 0x00, 0xbb, 0xbb, 0xFF, 0xbb, 0xbb, 0x00, 0x00,
     0x00, 0x00, 0x00, 0xbb, 0xFF, 0xbb, 0x00, 0x00, 0x00,
     0x00, 0x00, 0x00, 0xbb, 0xbb, 0xbb, 0x00, 0x00, 0x00,
     0x00, 0x00, 0x00, 0x00, 0x00, 0x00, 0x00, 0x00, 0x00,
     0x00, 0x00, 0x00, 0x00, 0x00, 0x00, 0x00, 0x00, 0x00,
     0x00, 0x00, 0x00, 0x00, 0x00, 0x00, 0x00, 0x00, 0x00]"

definition glyph_119 :: "u8 list" where
  "glyph_119 =
    [0x00, 0x00, 0x00, 0x00, 0x00, 0x00, 0x00, 0x00, 0x00,
     0x00, 0x00, 0x00, 0x00, 0x00, 0x00, 0x00, 0x00, 0x00,
     0x00, 0x00, 0x00, 0x00, 0x00, 0x00, 0x00, 0x00, 0x00,
     0x00, 0x00, 0x00, 0x00, 0x00, 0x00, 0x00, 0x00, 0x00,
     0x00, 0x00, 0x00, 0x00, 0x00, 0x00, 0x00, 0x00, 0x00,
     0x00, 0xbb, 0xbb, 0xbb, 0x00, 0xbb, 0xbb, 0xbb, 0x00,
     0x00, 0xbb, 0xFF, 0xbb, 0x00, 0xbb, 0xFF, 0xbb, 0x00,
     0x00, 0xbb, 0xFF, 0xbb, 0xbb, 0xbb, 0xFF, 0xbb, 0x00,
     0x00, 0xbb, 0xFF, 0xbb, 0xFF, 0xbb, 0xFF, 0xbb, 0x00,
     0x00, 0xbb, 0xFF, 0xbb, 0xFF, 0xbb, 0xFF, 0xbb, 0x00,
     0x00, 0xbb, 0xbb, 0xFF, 0xbb, 0xFF, 0xbb, 0xbb, 0x00,
     0x00, 0x00, 0xbb, 0xFF, 0xbb, 0xFF, 0xbb, 0x00, 0x00,
     0x00, 0x00, 0xbb, 0xbb, 0xbb, 0xbb, 0xbb, 0x00, 0x00,
     0x00, 0x00, 0x00, 0x00, 0x00, 0x00, 0x00, 0x00, 0x00,
     0x00, 0x00, 0x00, 0x00, 0x00, 0x00, 0x00, 0x00, 0x00,
     0x00, 0x00, 0x00, 0x00, 0x00, 0x00, 0x00, 0x00, 0x00]"

definition glyph_120 :: "u8 list" where
  "glyph_120 =
    [0x00, 0x00, 0x00, 0x00, 0x00, 0x00, 0x00, 0x00, 0x00,
     0x00, 0x00, 0x00, 0x00, 0x00, 0x00, 0x00, 0x00, 0x00,
     0x00, 0x00, 0x00, 0x00, 0x00, 0x00, 0x00, 0x00, 0x00,
     0x00, 0x00, 0x00, 0x00, 0x00, 0x00, 0x00, 0x00, 0x00,
     0x00, 0x00, 0x00, 0x00, 0x00, 0x00, 0x00, 0x00, 0x00,
     0x00, 0xbb, 0xbb, 0xbb, 0x00, 0xbb, 0xbb, 0xbb, 0x00,
     0x00, 0xbb, 0xFF, 0xbb, 0xbb, 0xbb, 0xFF, 0xbb, 0x00,
     0x00, 0xbb, 0xbb, 0xFF, 0xbb, 0xFF, 0xbb, 0xbb, 0x00,
     0x00, 0x00, 0xbb, 0xbb, 0xFF, 0xbb, 0xbb, 0x00, 0x00,
     0x00, 0x00, 0xbb, 0xbb, 0xFF, 0xbb, 0xbb, 0x00, 0x00,
     0x00, 0xbb, 0xbb, 0xFF, 0xbb, 0xFF, 0xbb, 0xbb, 0x00,
     0x00, 0xbb, 0xFF, 0xbb, 0xbb, 0xbb, 0xFF, 0xbb, 0x00,
     0x00, 0xbb, 0xbb, 0xbb, 0x00, 0xbb, 0xbb, 0xbb, 0x00,
     0x00, 0x00, 0x00, 0x00, 0x00, 0x00, 0x00, 0x00, 0x00,
     0x00, 0x00, 0x00, 0x00, 0x00, 0x00, 0x00, 0x00, 0x00,
     0x00, 0x00, 0x00, 0x00, 0x00, 0x00, 0x00, 0x00, 0x00]"

definition glyph_121 :: "u8 list" where
  "glyph_121 =
    [0x00, 0x00, 0x00, 0x00, 0x00, 0x00, 0x00, 0x00, 0x00,
     0x00, 0x00, 0x00, 0x00, 0x00, 0x00, 0x00, 0x00, 0x00,
     0x00, 0x00, 0x00, 0x00, 0x00, 0x00, 0x00, 0x00, 0x00,
     0x00, 0x00, 0x00, 0x00, 0x00, 0x00, 0x00, 0x00, 0x00,
     0x00, 0x00, 0x00, 0x00, 0x00, 0x00, 0x00, 0x00, 0x00,
     0x00, 0xbb, 0xbb, 0xbb, 0x00, 0xbb, 0xbb, 0xbb, 0x00,
     0x00, 0xbb, 0xFF, 0xbb, 0x00, 0xbb, 0xFF, 0xbb, 0x00,
     0x00, 0xbb, 0xFF, 0xbb, 0x00, 0xbb, 0xFF, 0xbb, 0x00,
     0x00, 0xbb, 0xFF, 0xbb, 0x00, 0xbb, 0xFF, 0xbb, 0x00,
     0x00, 0xbb, 0xFF, 0xbb, 0x00, 0xbb, 0xFF, 0xbb, 0x00,
     0x00, 0xbb, 0xFF, 0xbb, 0xbb, 0xbb, 0xFF, 0xbb, 0x00,
     0x00, 0xbb, 0xbb, 0xFF, 0xFF, 0xFF, 0xFF, 0xbb, 0x00,
     0x00, 0x00, 0xbb, 0xbb, 0xbb, 0xbb, 0xFF, 0xbb, 0x00,
     0x00, 0x00, 0xbb, 0xbb, 0xbb, 0xbb, 0xFF, 0xbb, 0x00,
     0x00, 0x00, 0xbb, 0xFF, 0xFF, 0xFF, 0xbb, 0xbb, 0x00,
     0x00, 0x00, 0xbb, 0xbb, 0xbb, 0xbb, 0xbb, 0x00, 0x00]"

definition glyph_122 :: "u8 list" where
  "glyph_122 =
    [0x00, 0x00, 0x00, 0x00, 0x00, 0x00, 0x00, 0x00, 0x00,
     0x00, 0x00, 0x00, 0x00, 0x00, 0x00, 0x00, 0x00, 0x00,
     0x00, 0x00, 0x00, 0x00, 0x00, 0x00, 0x00, 0x00, 0x00,
     0x00, 0x00, 0x00, 0x00, 0x00, 0x00, 0x00, 0x00, 0x00,
     0x00, 0x00, 0x00, 0x00, 0x00, 0x00, 0x00, 0x00, 0x00,
     0x00, 0xbb, 0xbb, 0xbb, 0xbb, 0xbb, 0xbb, 0xbb, 0x00,
     0x00, 0xbb, 0xFF, 0xFF, 0xFF, 0xFF, 0xFF, 0xbb, 0x00,
     0x00, 0xbb, 0xbb, 0xbb, 0xbb, 0xFF, 0xbb, 0xbb, 0x00,
     0x00, 0x00, 0xbb, 0xbb, 0xFF, 0xbb, 0xbb, 0x00, 0x00,
     0x00, 0xbb, 0xbb, 0xFF, 0xbb, 0xbb, 0x00, 0x00, 0x00,
     0x00, 0xbb, 0xFF, 0xbb, 0xbb, 0xbb, 0xbb, 0xbb, 0x00,
     0x00, 0xbb, 0xFF, 0xFF, 0xFF, 0xFF, 0xFF, 0xbb, 0x00,
     0x00, 0xbb, 0xbb, 0xbb, 0xbb, 0xbb, 0xbb, 0xbb, 0x00,
     0x00, 0x00, 0x00, 0x00, 0x00, 0x00, 0x00, 0x00, 0x00,
     0x00, 0x00, 0x00, 0x00, 0x00, 0x00, 0x00, 0x00, 0x00,
     0x00, 0x00, 0x00, 0x00, 0x00, 0x00, 0x00, 0x00, 0x00]"

definition glyph_123 :: "u8 list" where
  "glyph_123 =
    [0x00, 0x00, 0x00, 0x00, 0x00, 0x00, 0x00, 0x00, 0x00,
     0x00, 0x00, 0x00, 0x00, 0x00, 0x00, 0x00, 0x00, 0x00,
     0x00, 0x00, 0x00, 0x00, 0xbb, 0xbb, 0xbb, 0xbb, 0x00,
     0x00, 0x00, 0x00, 0xbb, 0xbb, 0xFF, 0xFF, 0xbb, 0x00,
     0x00, 0x00, 0x00, 0xbb, 0xFF, 0xbb, 0xbb, 0xbb, 0x00,
     0x00, 0x00, 0x00, 0xbb, 0xFF, 0xbb, 0x00, 0x00, 0x00,
     0x00, 0x00, 0x00, 0xbb, 0xFF, 0xbb, 0x00, 0x00, 0x00,
     0x00, 0xbb, 0xbb, 0xbb, 0xFF, 0xbb, 0x00, 0x00, 0x00,
     0x00, 0xbb, 0xFF, 0xFF, 0xbb, 0xbb, 0x00, 0x00, 0x00,
     0x00, 0xbb, 0xbb, 0xbb, 0xFF, 0xbb, 0x00, 0x00, 0x00,
     0x00, 0x00, 0x00, 0xbb, 0xFF, 0xbb, 0x00, 0x00, 0x00,
     0x00, 0x00, 0x00, 0xbb, 0xFF, 0xbb, 0x00, 0x00, 0x00,
     0x00, 0x00, 0x00, 0xbb, 0xFF, 0xbb, 0xbb, 0xbb, 0x00,
     0x00, 0x00, 0x00, 0xbb, 0xbb, 0xFF, 0xFF, 0xbb, 0x00,
     0x00, 0x00, 0x00, 0x00, 0xbb, 0xbb, 0xbb, 0xbb, 0x00,
     0x00, 0x00, 0x00, 0x00, 0x00, 0x00, 0x00, 0x00, 0x00]"

definition glyph_124 :: "u8 list" where
  "glyph_124 =
    [0x00, 0x00, 0x00, 0x00, 0x00, 0x00, 0x00, 0x00, 0x00,
     0x00, 0x00, 0x00, 0x00, 0x00, 0x00, 0x00, 0x00, 0x00,
     0x00, 0x00, 0x00, 0xbb, 0xbb, 0xbb, 0x00, 0x00, 0x00,
     0x00, 0x00, 0x00, 0xbb, 0xFF, 0xbb, 0x00, 0x00, 0x00,
     0x00, 0x00, 0x00, 0xbb, 0xFF, 0xbb, 0x00, 0x00, 0x00,
     0x00, 0x00, 0x00, 0xbb, 0xFF, 0xbb, 0x00, 0x00, 0x00,
     0x00, 0x00, 0x00, 0xbb, 0xFF, 0xbb, 0x00, 0x00, 0x00,
     0x00, 0x00, 0x00, 0xbb, 0xFF, 0xbb, 0x00, 0x00, 0x00,
     0x00, 0x00, 0x00, 0xbb, 0xFF, 0xbb, 0x00, 0x00, 0x00,
     0x00, 0x00, 0x00, 0xbb, 0xFF, 0xbb, 0x00, 0x00, 0x00,
     0x00, 0x00, 0x00, 0xbb, 0xFF, 0xbb, 0x00, 0x00, 0x00,
     0x00, 0x00, 0x00, 0xbb, 0xFF, 0xbb, 0x00, 0x00, 0x00,
     0x00, 0x00, 0x00, 0xbb, 0xFF, 0xbb, 0x00, 0x00, 0x00,
     0x00, 0x00, 0x00, 0xbb, 0xFF, 0xbb, 0x00, 0x00, 0x00,
     0x00, 0x00, 0x00, 0xbb, 0xbb, 0xbb, 0x00, 0x00, 0x00,
     0x00, 0x00, 0x00, 0x00, 0x00, 0x00, 0x00, 0x00, 0x00]"

definition glyph_125 :: "u8 list" where
  "glyph_125 =
    [0x00, 0x00, 0x00, 0x00, 0x00, 0x00, 0x00, 0x00, 0x00,
     0x00, 0x00, 0x00, 0x00, 0x00, 0x00, 0x00, 0x00, 0x00,
     0x00, 0xbb, 0xbb, 0xbb, 0xbb, 0x00, 0x00, 0x00, 0x00,
     0x00, 0xbb, 0xFF, 0xFF, 0xbb, 0xbb, 0x00, 0x00, 0x00,
     0x00, 0xbb, 0xbb, 0xbb, 0xFF, 0xbb, 0x00, 0x00, 0x00,
     0x00, 0x00, 0x00, 0xbb, 0xFF, 0xbb, 0x00, 0x00, 0x00,
     0x00, 0x00, 0x00, 0xbb, 0xFF, 0xbb, 0x00, 0x00, 0x00,
     0x00, 0x00, 0x00, 0xbb, 0xFF, 0xbb, 0xbb, 0xbb, 0x00,
     0x00, 0x00, 0x00, 0xbb, 0xbb, 0xFF, 0xFF, 0xbb, 0x00,
     0x00, 0x00, 0x00, 0xbb, 0xFF, 0xbb, 0xbb, 0xbb, 0x00,
     0x00, 0x00, 0x00, 0xbb, 0xFF, 0xbb, 0x00, 0x00, 0x00,
     0x00, 0x00, 0x00, 0xbb, 0xFF, 0xbb, 0x00, 0x00, 0x00,
     0x00, 0xbb, 0xbb, 0xbb, 0xFF, 0xbb, 0x00, 0x00, 0x00,
     0x00, 0xbb, 0xFF, 0xFF, 0xbb, 0xbb, 0x00, 0x00, 0x00,
     0x00, 0xbb, 0xbb, 0xbb, 0xbb, 0x00, 0x00, 0x00, 0x00,
     0x00, 0x00, 0x00, 0x00, 0x00, 0x00, 0x00, 0x00, 0x00]"

definition glyph_126 :: "u8 list" where
  "glyph_126 =
    [0x00, 0x00, 0x00, 0x00, 0x00, 0x00, 0x00, 0x00, 0x00,
     0x00, 0x00, 0x00, 0x00, 0x00, 0x00, 0x00, 0x00, 0x00,
     0x00, 0x00, 0x00, 0x00, 0x00, 0x00, 0x00, 0x00, 0x00,
     0x00, 0x00, 0x00, 0x00, 0x00, 0x00, 0x00, 0x00, 0x00,
     0x00, 0x00, 0x00, 0x00, 0x00, 0x00, 0x00, 0x00, 0x00,
     0x00, 0x00, 0x00, 0x00, 0x00, 0x00, 0x00, 0x00, 0x00,
     0x00, 0x00, 0xbb, 0xbb, 0xbb, 0xbb, 0xbb, 0xbb, 0x00,
     0x00, 0xbb, 0xbb, 0xFF, 0xbb, 0xbb, 0xFF, 0xbb, 0x00,
     0x00, 0xbb, 0xFF, 0xbb, 0xFF, 0xbb, 0xFF, 0xbb, 0x00,
     0x00, 0xbb, 0xFF, 0xbb, 0xbb, 0xFF, 0xbb, 0xbb, 0x00,
     0x00, 0xbb, 0xbb, 0xbb, 0xbb, 0xbb, 0xbb, 0x00, 0x00,
     0x00, 0x00, 0x00, 0x00, 0x00, 0x00, 0x00, 0x00, 0x00,
     0x00, 0x00, 0x00, 0x00, 0x00, 0x00, 0x00, 0x00, 0x00,
     0x00, 0x00, 0x00, 0x00, 0x00, 0x00, 0x00, 0x00, 0x00,
     0x00, 0x00, 0x00, 0x00, 0x00, 0x00, 0x00, 0x00, 0x00,
     0x00, 0x00, 0x00, 0x00, 0x00, 0x00, 0x00, 0x00, 0x00]"

subsection \<open>The table\<close>

definition glyphs :: "u8 list list" where
  "glyphs =
    [glyph_31, glyph_32, glyph_33, glyph_34, glyph_35, glyph_36, glyph_37, glyph_38,
     glyph_39, glyph_40, glyph_41, glyph_42, glyph_43, glyph_44, glyph_45, glyph_46,
     glyph_47, glyph_48, glyph_49, glyph_50, glyph_51, glyph_52, glyph_53, glyph_54,
     glyph_55, glyph_56, glyph_57, glyph_58, glyph_59, glyph_60, glyph_61, glyph_62,
     glyph_63, glyph_64, glyph_65, glyph_66, glyph_67, glyph_68, glyph_69, glyph_70,
     glyph_71, glyph_72, glyph_73, glyph_74, glyph_75, glyph_76, glyph_77, glyph_78,
     glyph_79, glyph_80, glyph_81, glyph_82, glyph_83, glyph_84, glyph_85, glyph_86,
     glyph_87, glyph_88, glyph_89, glyph_90, glyph_91, glyph_92, glyph_93, glyph_94,
     glyph_95, glyph_96, glyph_97, glyph_98, glyph_99, glyph_100, glyph_101, glyph_102,
     glyph_103, glyph_104, glyph_105, glyph_106, glyph_107, glyph_108, glyph_109, glyph_110,
     glyph_111, glyph_112, glyph_113, glyph_114, glyph_115, glyph_116, glyph_117, glyph_118,
     glyph_119, glyph_120, glyph_121, glyph_122, glyph_123, glyph_124, glyph_125, glyph_126]"

lemmas glyph_defs =
  glyph_31_def glyph_32_def glyph_33_def glyph_34_def glyph_35_def glyph_36_def glyph_37_def glyph_38_def
  glyph_39_def glyph_40_def glyph_41_def glyph_42_def glyph_43_def glyph_44_def glyph_45_def glyph_46_def
  glyph_47_def glyph_48_def glyph_49_def glyph_50_def glyph_51_def glyph_52_def glyph_53_def glyph_54_def
  glyph_55_def glyph_56_def glyph_57_def glyph_58_def glyph_59_def glyph_60_def glyph_61_def glyph_62_def
  glyph_63_def glyph_64_def glyph_65_def glyph_66_def glyph_67_def glyph_68_def glyph_69_def glyph_70_def
  glyph_71_def glyph_72_def glyph_73_def glyph_74_def glyph_75_def glyph_76_def glyph_77_def glyph_78_def
  glyph_79_def glyph_80_def glyph_81_def glyph_82_def glyph_83_def glyph_84_def glyph_85_def glyph_86_def
  glyph_87_def glyph_88_def glyph_89_def glyph_90_def glyph_91_def glyph_92_def glyph_93_def glyph_94_def
  glyph_95_def glyph_96_def glyph_97_def glyph_98_def glyph_99_def glyph_100_def glyph_101_def glyph_102_def
  glyph_103_def glyph_104_def glyph_105_def glyph_106_def glyph_107_def glyph_108_def glyph_109_def glyph_110_def
  glyph_111_def glyph_112_def glyph_113_def glyph_114_def glyph_115_def glyph_116_def glyph_117_def glyph_118_def
  glyph_119_def glyph_120_def glyph_121_def glyph_122_def glyph_123_def glyph_124_def glyph_125_def glyph_126_def

lemma glyphs_length [simp]: "length glyphs = 96"
  by (simp add: glyphs_def)

lemma glyph_length: "g \<in> set glyphs \<Longrightarrow> length g = 144"
proof -
  have "list_all (\<lambda>g. length g = 144) glyphs" by (simp add: glyphs_def glyph_defs)
  then show "g \<in> set glyphs \<Longrightarrow> length g = 144" by (simp add: list_all_iff)
qed

text \<open>Every byte is one of the three kinds of pixel, and the space draws nothing.\<close>

definition pixel :: "u8 \<Rightarrow> bool" where
  "pixel b \<longleftrightarrow> b \<in> {0, 0xbb, 0xFF}"

lemma pixel_simps: "pixel 0" "pixel 0xbb" "pixel 0xFF"
  by (simp_all add: pixel_def)

lemma glyph_pixel: "g \<in> set glyphs \<Longrightarrow> b \<in> set g \<Longrightarrow> b \<in> {0, 0xbb, 0xFF}"
proof -
  have "list_all (list_all pixel) glyphs" by (simp only: glyphs_def glyph_defs list.pred_inject pixel_simps simp_thms)
  then show "g \<in> set glyphs \<Longrightarrow> b \<in> set g \<Longrightarrow> b \<in> {0, 0xbb, 0xFF}" unfolding list_all_iff pixel_def by blast
qed

lemma glyph_space: "set (glyphs ! (32 - 31)) = {0}"
  by (simp add: glyphs_def glyph_32_def)

end
