(* ===== verification/Console.thy ===== *)
theory Console
  imports VmBoot Font
begin

text \<open>
  The console: the frame buffer (\<^verbatim>\<open>fb_cons.c\<close>) and VGA text (\<^verbatim>\<open>vga_cons.c\<close>) devices and the locked front end
  of \<^verbatim>\<open>console.c\<close> with its message ring. The frame buffer is the array of bytes at \<^verbatim>\<open>fb_addr\<close>, the VGA buffer an
  array of 16-bit cells; a store outside is \<open>OutOfBounds\<close>. The font is that of
  \<^verbatim>\<open>fb_font.c\<close>.
\<close>

subsection \<open>Byte copies and pixel stores\<close>

text \<open>\<^verbatim>\<open>memcpy\<close> is \<^verbatim>\<open>rep movsb\<close> going upwards, here within one array.\<close>

primrec movsb :: "nat \<Rightarrow> nat \<Rightarrow> nat \<Rightarrow> 'a list \<Rightarrow> 'a list outcome" where
  "movsb 0 dst src buf = Inr buf"
| "movsb (Suc n) dst src buf =
     rbind (arr_get buf src) (\<lambda>b. rbind (arr_set buf dst b) (\<lambda>buf. movsb n (dst + 1) (src + 1) buf))"

definition put16 :: "nat \<Rightarrow> u16 \<Rightarrow> u8 list \<Rightarrow> u8 list outcome" where
  "put16 off v fb = rbind (arr_set fb off (ucast v)) (\<lambda>fb. arr_set fb (off + 1) (ucast (drop_bit 8 v)))"

primrec fill16 :: "nat \<Rightarrow> nat \<Rightarrow> u16 \<Rightarrow> u8 list \<Rightarrow> u8 list outcome" where
  "fill16 0 off v fb = Inr fb"
| "fill16 (Suc n) off v fb = rbind (put16 off v fb) (fill16 n (off + 2) v)"

subsection \<open>The frame buffer console\<close>

definition RED_MASK :: u32 where "RED_MASK = 0xf800"
definition GREEN_MASK :: u32 where "GREEN_MASK = 0x7e00"

definition RGB_565 :: "u32 \<Rightarrow> u32 \<Rightarrow> u32 \<Rightarrow> u32" where
  "RGB_565 r g b = drop_bit 3 b OR (push_bit 3 g AND GREEN_MASK) OR (push_bit 8 r AND RED_MASK)"

record fb_cons_t =
  fc_fb_addr :: u64
  fc_pitch :: u16
  fc_width :: u16
  fc_height :: u16
  fc_x_pos :: u16
  fc_y_pos :: u16
  fc_font_width :: u16
  fc_font_height :: u16
  fc_clear_color :: u16
  fc_bytes :: "u8 list"

definition fb_cons_init :: "boot_info_t \<Rightarrow> vm_boot \<Rightarrow> fb_cons_t \<Rightarrow> (vm_boot \<times> fb_cons_t) outcome" where
  "fb_cons_init bi vm cons =
     (let fb_addr = bi_fb_addr bi; fb_size = ucast (bi_fb_pitch bi * bi_fb_height bi) in
      rbind (vm_boot_map_range fb_addr fb_addr fb_size vm) (\<lambda>vm.
      Inr (vm, cons\<lparr>fc_fb_addr := bi_fb_addr bi, fc_pitch := ucast (bi_fb_pitch bi), fc_width := ucast (bi_fb_width bi),
        fc_height := ucast (bi_fb_height bi), fc_x_pos := 0, fc_y_pos := 0, fc_font_width := 8, fc_font_height := 16,
        fc_clear_color := ucast (RGB_565 0 0 0xAA)\<rparr>)))"

text \<open>Rows of \<open>w\<close> pixels in the background colour, from a byte offset on.\<close>

definition clear_rows :: "u32 \<Rightarrow> nat \<Rightarrow> nat \<Rightarrow> fb_cons_t \<Rightarrow> fb_cons_t outcome" where
  "clear_rows rows off w cons =
     rbind (for_up 0 rows (\<lambda>y fb. fill16 w (off + unat y * unat (fc_pitch cons)) (fc_clear_color cons) fb) (fc_bytes cons)) (\<lambda>fb.
     Inr (cons\<lparr>fc_bytes := fb\<rparr>))"

definition fb_cons_clear :: "fb_cons_t \<Rightarrow> fb_cons_t outcome" where
  "fb_cons_clear cons = clear_rows (ucast (fc_height cons)) 0 (unat (fc_width cons)) cons"

text \<open>A product of two 16-bit fields is computed in \<^verbatim>\<open>int\<close>.\<close>

definition int_mult :: "u16 \<Rightarrow> u16 \<Rightarrow> nat outcome" where
  "int_mult a b = rbind (c_int (int (unat a) * int (unat b))) (\<lambda>v. Inr (nat v))"

definition fb_draw_char :: "u8 \<Rightarrow> fb_cons_t \<Rightarrow> fb_cons_t outcome" where
  "fb_draw_char ch cons =
     rbind (int_mult (fc_y_pos cons) (fc_pitch cons)) (\<lambda>row.
     let ptr = row + unat (fc_x_pos cons) * 2 in
     rbind (arr_get glyphs (unat ch - 31)) (\<lambda>glyph.
     rbind (for_up (0 :: u32) 16 (\<lambda>y. for_up (0 :: u32) 8 (\<lambda>x fb.
       let p = ptr + unat y * unat (fc_pitch cons) + 2 * unat x in
       rbind (arr_get glyph (unat y * 9 + unat x)) (\<lambda>g.
       if g = 0xFF then put16 p 0xFFFF fb else if g = 0xbb then put16 p 0 fb else Inr fb))) (fc_bytes cons)) (\<lambda>fb.
     Inr (cons\<lparr>fc_bytes := fb\<rparr>))))"

definition fb_clear_char :: "u16 \<Rightarrow> u32 \<Rightarrow> fb_cons_t \<Rightarrow> fb_cons_t outcome" where
  "fb_clear_char x num cons =
     rbind (int_mult (fc_y_pos cons) (fc_pitch cons)) (\<lambda>row.
     rbind (c_int (int (unat x) * int (unat (fc_font_width cons)) * 2)) (\<lambda>col.
     let w = num * ucast (fc_font_width cons) in
     clear_rows 16 (row + nat col) (unat w) cons))"

definition fb_cons_clear_char :: "u32 \<Rightarrow> fb_cons_t \<Rightarrow> fb_cons_t outcome" where
  "fb_cons_clear_char num cons =
     (if fc_font_width cons = 0 then Inl Undefined else
      let x = fc_x_pos cons div fc_font_width cons;
          x_pos = (if num > ucast x then 0 else ucast (ucast x - num)) :: u16;
          n_clear = ucast x - ucast x_pos :: u32 in
      if n_clear = 0 then Inr cons
      else rbind (fb_clear_char x_pos n_clear cons) (\<lambda>cons. Inr (cons\<lparr>fc_x_pos := x_pos * fc_font_width cons\<rparr>)))"

definition fb_cons_clear_line :: "fb_cons_t \<Rightarrow> fb_cons_t outcome" where
  "fb_cons_clear_line cons =
     (let n_clear = ucast (fc_x_pos cons) :: u32 in
      if n_clear = 0 then Inr cons
      else rbind (fb_clear_char 0 n_clear cons) (\<lambda>cons. Inr (cons\<lparr>fc_x_pos := 0\<rparr>)))"

text \<open>
  The scroll of \<^verbatim>\<open>fb_cons_putchar\<close>; the size of the copy is an \<^verbatim>\<open>int\<close> that becomes a huge number when it is
  negative.
\<close>

definition fb_scroll :: "fb_cons_t \<Rightarrow> fb_cons_t outcome" where
  "fb_scroll cons =
     rbind (int_mult (fc_pitch cons) (fc_font_height cons)) (\<lambda>src.
     rbind (c_int (int (unat (fc_pitch cons)) * (int (unat (fc_height cons)) - int (unat (fc_font_height cons))))) (\<lambda>sz.
     if sz < 0 then Inl OutOfBounds
     else rbind (movsb (nat sz) 0 src (fc_bytes cons)) (\<lambda>fb.
       let cons = cons\<lparr>fc_bytes := fb, fc_y_pos := fc_height cons - fc_font_height cons\<rparr> in
       rbind (int_mult (fc_y_pos cons) (fc_pitch cons)) (\<lambda>off.
       clear_rows (ucast (fc_font_height cons)) off (unat (fc_width cons)) cons))))"

definition fb_cons_putchar :: "u8 \<Rightarrow> fb_cons_t \<Rightarrow> fb_cons_t outcome" where
  "fb_cons_putchar ch cons =
     (let cons = (if fc_x_pos cons \<ge> fc_width cons
                  then cons\<lparr>fc_x_pos := 0, fc_y_pos := fc_y_pos cons + fc_font_height cons\<rparr> else cons) in
      if ch = 9 then Inr (cons\<lparr>fc_x_pos := fc_x_pos cons + 4 * fc_font_width cons\<rparr>)
      else if ch = 8 then fb_cons_clear_char 1 cons
      else if ch = 10 \<or> ch = 13 then Inr (cons\<lparr>fc_x_pos := 0, fc_y_pos := fc_y_pos cons + fc_font_height cons\<rparr>)
      else
        rbind (if fc_y_pos cons \<ge> fc_height cons then fb_scroll cons else Inr cons) (\<lambda>cons.
        if ch \<ge> 32 then
          rbind (fb_draw_char ch cons) (\<lambda>cons. Inr (cons\<lparr>fc_x_pos := fc_x_pos cons + fc_font_width cons\<rparr>))
        else Inr cons))"

subsection \<open>The VGA text console\<close>

datatype vga_color =
    VGA_COLOR_BLACK | VGA_COLOR_BLUE | VGA_COLOR_GREEN | VGA_COLOR_CYAN | VGA_COLOR_RED | VGA_COLOR_MAGENTA
  | VGA_COLOR_BROWN | VGA_COLOR_LIGHT_GREY | VGA_COLOR_DARK_GREY | VGA_COLOR_LIGHT_BLUE | VGA_COLOR_LIGHT_GREEN
  | VGA_COLOR_LIGHT_CYAN | VGA_COLOR_LIGHT_RED | VGA_COLOR_LIGHT_MAGENTA | VGA_COLOR_LIGHT_BROWN | VGA_COLOR_WHITE

primrec color_code :: "vga_color \<Rightarrow> u8" where
  "color_code VGA_COLOR_BLACK = 0"
| "color_code VGA_COLOR_BLUE = 1"
| "color_code VGA_COLOR_GREEN = 2"
| "color_code VGA_COLOR_CYAN = 3"
| "color_code VGA_COLOR_RED = 4"
| "color_code VGA_COLOR_MAGENTA = 5"
| "color_code VGA_COLOR_BROWN = 6"
| "color_code VGA_COLOR_LIGHT_GREY = 7"
| "color_code VGA_COLOR_DARK_GREY = 8"
| "color_code VGA_COLOR_LIGHT_BLUE = 9"
| "color_code VGA_COLOR_LIGHT_GREEN = 10"
| "color_code VGA_COLOR_LIGHT_CYAN = 11"
| "color_code VGA_COLOR_LIGHT_RED = 12"
| "color_code VGA_COLOR_LIGHT_MAGENTA = 13"
| "color_code VGA_COLOR_LIGHT_BROWN = 14"
| "color_code VGA_COLOR_WHITE = 15"

definition vga_entry_color :: "vga_color \<Rightarrow> vga_color \<Rightarrow> u8" where
  "vga_entry_color fg bg = color_code fg OR push_bit 4 (color_code bg)"

definition vga_entry :: "u8 \<Rightarrow> u8 \<Rightarrow> u16" where
  "vga_entry uc color = ucast uc OR push_bit 8 (ucast color)"

record vga_console_t =
  vc_fb_addr :: u64
  vc_x_pos :: u16
  vc_y_pos :: u16
  vc_width :: u16
  vc_height :: u16
  vc_color :: u8
  vc_cells :: "u16 list"

definition vga_cons_init :: "vga_console_t \<Rightarrow> vga_console_t" where
  "vga_cons_init console =
     console\<lparr>vc_fb_addr := KERNEL_BASE OR 0xB8000, vc_x_pos := 0, vc_y_pos := 0, vc_width := 80, vc_height := 25,
       vc_color := vga_entry_color VGA_COLOR_LIGHT_GREY VGA_COLOR_BLACK\<rparr>"

definition vga_scroll :: "vga_console_t \<Rightarrow> vga_console_t outcome" where
  "vga_scroll console =
     rbind (c_int (int (unat (vc_width console)) * (int (unat (vc_height console)) - 1))) (\<lambda>sz.
     if sz < 0 then Inl OutOfBounds
     else rbind (movsb (nat sz) 0 (unat (vc_width console)) (vc_cells console)) (\<lambda>fb.
       let console = console\<lparr>vc_cells := fb, vc_y_pos := vc_height console - 1\<rparr> in
       rbind (int_mult (vc_y_pos console) (vc_width console)) (\<lambda>p.
       rbind (for_up 0 (ucast (vc_width console) :: u32) (\<lambda>i fb. arr_set fb (p + unat i) 0) (vc_cells console)) (\<lambda>fb.
       Inr (console\<lparr>vc_cells := fb\<rparr>)))))"

definition vga_draw_char :: "u8 \<Rightarrow> vga_console_t \<Rightarrow> vga_console_t outcome" where
  "vga_draw_char ch console =
     rbind (int_mult (vc_y_pos console) (vc_width console)) (\<lambda>row.
     rbind (c_int (int row + int (unat (vc_x_pos console)))) (\<lambda>i.
     rbind (arr_set (vc_cells console) (nat i) (vga_entry ch (vc_color console))) (\<lambda>fb.
     Inr (console\<lparr>vc_cells := fb, vc_x_pos := vc_x_pos console + 1\<rparr>))))"

definition vga_cons_putchar :: "u8 \<Rightarrow> vga_console_t \<Rightarrow> vga_console_t outcome" where
  "vga_cons_putchar ch console =
     (let console = (if vc_x_pos console \<ge> vc_width console
                     then console\<lparr>vc_x_pos := 0, vc_y_pos := vc_y_pos console + 1\<rparr> else console);
          console = (if ch = 9 then console\<lparr>vc_x_pos := vc_x_pos console + 4\<rparr> else console);
          console = (if ch = 10 then console\<lparr>vc_x_pos := 0, vc_y_pos := vc_y_pos console + 1\<rparr> else console) in
      rbind (if vc_y_pos console \<ge> vc_height console then vga_scroll console else Inr console) (\<lambda>console.
      if ch \<ge> 32 then vga_draw_char ch console else Inr console))"

definition vga_cons_clear :: "vga_console_t \<Rightarrow> vga_console_t" where
  "vga_cons_clear console = console"

subsection \<open>The front end\<close>

text \<open>The functions that \<^verbatim>\<open>console_init\<close> installs are those of the frame buffer; before it they are null.\<close>

record console =
  con_ready :: bool
  con_lock :: u32
  con_fb :: fb_cons_t

definition console_init :: "boot_info_t \<Rightarrow> vm_boot \<Rightarrow> console \<Rightarrow> (vm_boot \<times> console) outcome" where
  "console_init bi vm con =
     rbind (fb_cons_init bi vm (con_fb con)) (\<lambda>(vm, fb).
     rbind (fb_cons_clear fb) (\<lambda>fb.
     Inr (vm, con\<lparr>con_fb := fb, con_ready := True\<rparr>)))"

text \<open>A call of an installed function, under the lock with interrupts masked.\<close>

definition console_locked :: "(console \<Rightarrow> console outcome) \<Rightarrow> u64 \<Rightarrow> console \<Rightarrow> (u64 \<times> console) outcome" where
  "console_locked body rflags con =
     (case cpu_splhi rflags of (spl, rflags) \<Rightarrow>
      rbind (spinlock_lock (con_lock con)) (\<lambda>l.
      rbind (body (con\<lparr>con_lock := l\<rparr>)) (\<lambda>con.
      Inr (cpu_splx spl rflags, con\<lparr>con_lock := spinlock_unlock (con_lock con)\<rparr>))))"

definition call_fn :: "(fb_cons_t \<Rightarrow> fb_cons_t outcome) \<Rightarrow> console \<Rightarrow> console outcome" where
  "call_fn f con =
     (if con_ready con then rbind (f (con_fb con)) (\<lambda>fb. Inr (con\<lparr>con_fb := fb\<rparr>)) else Inl NullDeref)"

text \<open>The loop over a string calls the installed function for every character up to the final 0.\<close>

primrec put_chars :: "(u8 \<Rightarrow> 'c \<Rightarrow> 'c outcome) \<Rightarrow> u8 list \<Rightarrow> 'c \<Rightarrow> 'c outcome" where
  "put_chars putchar_fn [] con = Inl OutOfBounds"
| "put_chars putchar_fn (c # cs) con =
     (if c \<noteq> 0 then rbind (putchar_fn c con) (put_chars putchar_fn cs) else Inr con)"

definition console_putchar_fn :: "u8 \<Rightarrow> console \<Rightarrow> console outcome" where
  "console_putchar_fn ch = call_fn (fb_cons_putchar ch)"

definition console_putstr :: "u8 list \<Rightarrow> u64 \<Rightarrow> console \<Rightarrow> (u64 \<times> console) outcome" where
  "console_putstr str = console_locked (put_chars console_putchar_fn str)"

definition console_putchar :: "u8 \<Rightarrow> u64 \<Rightarrow> console \<Rightarrow> (u64 \<times> console) outcome" where
  "console_putchar ch = console_locked (console_putchar_fn ch)"

definition console_clear_char :: "u32 \<Rightarrow> u64 \<Rightarrow> console \<Rightarrow> (u64 \<times> console) outcome" where
  "console_clear_char num = console_locked (call_fn (fb_cons_clear_char num))"

definition console_clear_line :: "u64 \<Rightarrow> console \<Rightarrow> (u64 \<times> console) outcome" where
  "console_clear_line = console_locked (call_fn fb_cons_clear_line)"

subsection \<open>The message ring\<close>

definition MAX_CONSOLE_BUF :: u32 where "MAX_CONSOLE_BUF = 65536"
definition MAX_MSG_QUEUE :: u32 where "MAX_MSG_QUEUE = 32"

record cons_msg_t =
  cm_pos :: u32
  cm_size :: u32

record cons_msgs =
  cb_pos :: u32
  cb_buf :: "u8 list"
  mq_msg :: "cons_msg_t list"
  mq_write_pos :: u32
  mq_read_pos :: u32
  mq_run_lock :: u32
  mq_lock :: u32

definition cons_buffer_alloc :: "u32 \<Rightarrow> cons_msgs \<Rightarrow> (u32 \<times> cons_msgs) outcome" where
  "cons_buffer_alloc sz q =
     (if cb_pos q + sz \<le> MAX_CONSOLE_BUF then Inr (cb_pos q, q\<lparr>cb_pos := cb_pos q + sz\<rparr>)
      else check (sz < MAX_CONSOLE_BUF) ''size < MAX_CONSOLE_BUF'' (Inr (0, q\<lparr>cb_pos := 0\<rparr>)))"

definition cons_msg_push :: "u32 \<Rightarrow> u32 \<Rightarrow> cons_msgs \<Rightarrow> cons_msgs outcome" where
  "cons_msg_push pos sz q =
     (let write_pos = mq_write_pos q; q = q\<lparr>mq_write_pos := write_pos + 1\<rparr>; index = write_pos AND (MAX_MSG_QUEUE - 1) in
      rbind (arr_set (mq_msg q) (unat index) \<lparr>cm_pos = pos, cm_size = sz\<rparr>) (\<lambda>ms. Inr (q\<lparr>mq_msg := ms\<rparr>)))"

definition cons_msg_pop :: "cons_msgs \<Rightarrow> (cons_msg_t option \<times> cons_msgs) outcome" where
  "cons_msg_pop q =
     (if mq_read_pos q < mq_write_pos q then
        let read_pos = mq_read_pos q; q = q\<lparr>mq_read_pos := read_pos + 1\<rparr>; index = read_pos AND (MAX_MSG_QUEUE - 1) in
        rbind (arr_get (mq_msg q) (unat index)) (\<lambda>m. Inr (Some m, q))
      else Inr (None, q))"

primrec copy_in :: "u8 list \<Rightarrow> nat \<Rightarrow> u8 list \<Rightarrow> u8 list outcome" where
  "copy_in [] dst buf = Inr buf"
| "copy_in (b # bs) dst buf = rbind (arr_set buf dst b) (copy_in bs (dst + 1))"

definition cons_msg_putstr :: "u8 list \<Rightarrow> cons_msgs \<Rightarrow> cons_msgs outcome" where
  "cons_msg_putstr str q =
     rbind (cons_buffer_alloc (of_nat (length str)) q) (\<lambda>(pos, q).
     rbind (copy_in str (unat pos) (cb_buf q)) (\<lambda>buf.
     cons_msg_push pos (of_nat (length str)) (q\<lparr>cb_buf := buf\<rparr>)))"

text \<open>The loop that takes the messages out; drawing them is not written yet in the code. \<open>spl\<close> is the caller's level.\<close>

function cons_drain :: "u32 \<Rightarrow> u64 \<Rightarrow> cons_msgs \<Rightarrow> (u64 \<times> cons_msgs) outcome" where
  "cons_drain spl rflags q =
     (case cpu_splhi rflags of (s, rflags) \<Rightarrow>
      rbind (spinlock_lock (mq_lock q)) (\<lambda>l.
      rbind (cons_msg_pop (q\<lparr>mq_lock := l\<rparr>)) (\<lambda>(msg, q').
      case msg of
        None \<Rightarrow> Inr (cpu_splx spl rflags,
          q'\<lparr>mq_run_lock := snd (compare_and_swap_32 (mq_run_lock q') 1 0), mq_lock := spinlock_unlock (mq_lock q')\<rparr>)
      | Some m \<Rightarrow> cons_drain spl (cpu_splx s rflags) (q'\<lparr>mq_lock := spinlock_unlock (mq_lock q')\<rparr>))))"
  by pat_completeness auto
termination
  by (relation "measure (\<lambda>(_, _, q). unat (mq_write_pos q) - unat (mq_read_pos q))")
    (auto simp: cons_msg_pop_def Let_def rbind_Inr_iff unat_plus1 unat_less_iff split: if_splits)

declare cons_drain.simps [simp del]

definition cons_putstr :: "u8 list \<Rightarrow> u64 \<Rightarrow> cons_msgs \<Rightarrow> (u64 \<times> cons_msgs) outcome" where
  "cons_putstr str rflags q =
     (case cpu_splhi rflags of (spl, rflags) \<Rightarrow>
      rbind (spinlock_lock (mq_lock q)) (\<lambda>l.
      rbind (cons_msg_putstr str (q\<lparr>mq_lock := l\<rparr>)) (\<lambda>q.
      let q = q\<lparr>mq_lock := spinlock_unlock (mq_lock q)\<rparr>; rflags = cpu_splx spl rflags in
      case compare_and_swap_32 (mq_run_lock q) 0 1 of (prev, rl) \<Rightarrow>
      if prev \<noteq> 0 then Inr (rflags, q\<lparr>mq_run_lock := rl\<rparr>)
      else cons_drain spl (if spl = 0 then cpu_enable_interrupts rflags else rflags) (q\<lparr>mq_run_lock := rl\<rparr>))))"

subsection \<open>The interface of a character device\<close>

text \<open>
  The front end drives a device through a function pointer. A device keeps its invariant when it is given a
  character it can show; then it can be given any string of such characters.
\<close>

locale char_device =
  fixes putc :: "u8 \<Rightarrow> 'c \<Rightarrow> 'c outcome" and ok :: "'c \<Rightarrow> bool" and shown :: "u8 \<Rightarrow> bool"
  assumes putc_ok: "ok d \<Longrightarrow> shown c \<Longrightarrow> \<exists>d'. putc c d = Inr d' \<and> ok d'"
begin

lemma put_string:
  assumes "ok d" and "\<forall>c\<in>set s. c \<noteq> 0 \<and> shown c"
  shows "\<exists>d'. put_chars putc (s @ 0 # r) d = Inr d' \<and> ok d'"
  using assms
proof (induction s arbitrary: d)
  case (Cons c s)
  then obtain d' where "putc c d = Inr d'" "ok d'" using putc_ok [of d c] by auto
  then show ?case using Cons.IH [of d'] Cons.prems by simp
qed simp

end

subsection \<open>Stores inside an array\<close>

lemma movsb_result:
  assumes "dst \<le> src" and "src + n \<le> length buf"
  shows "movsb n dst src buf = Inr (take dst buf @ take n (drop src buf) @ drop (dst + n) buf)"
  using assms
proof (induction n arbitrary: dst src buf)
  case (Suc n)
  let ?b = "buf[dst := buf ! src]"
  have "movsb (Suc n) dst src buf = movsb n (dst + 1) (src + 1) ?b" using Suc.prems by simp
  also have "\<dots> = Inr (take (dst + 1) ?b @ take n (drop (src + 1) ?b) @ drop (dst + 1 + n) ?b)"
    using Suc.prems by (intro Suc.IH) simp_all
  also have "take (dst + 1) ?b = take dst buf @ [buf ! src]" using Suc.prems by (simp add: take_Suc_conv_app_nth)
  also have "drop (src + 1) ?b = drop (src + 1) buf" using Suc.prems by simp
  also have "drop (dst + 1 + n) ?b = drop (dst + Suc n) buf" by simp
  also have "(take dst buf @ [buf ! src]) @ take n (drop (src + 1) buf) @ drop (dst + Suc n) buf
      = take dst buf @ take (Suc n) (drop src buf) @ drop (dst + Suc n) buf"
    using Suc.prems by (simp add: Cons_nth_drop_Suc [symmetric])
  finally show ?case .
qed simp

text \<open>A store that succeeds and keeps the size of the array.\<close>

definition keeps :: "nat \<Rightarrow> 'a list outcome \<Rightarrow> bool" where
  "keeps n r \<longleftrightarrow> (\<exists>fb. r = Inr fb \<and> length fb = n)"

lemma keepsI [intro]: "length fb = n \<Longrightarrow> keeps n (Inr fb)"
  by (simp add: keeps_def)

lemma keeps_rbind: "keeps n r \<Longrightarrow> (\<And>fb. length fb = n \<Longrightarrow> keeps n' (f fb)) \<Longrightarrow> keeps n' (rbind r f)"
  by (auto simp: keeps_def)

lemma keeps_put16: "length fb = n \<Longrightarrow> off + 2 \<le> n \<Longrightarrow> keeps n (put16 off v fb)"
  by (auto simp: put16_def)

lemma keeps_fill16: "length fb = n \<Longrightarrow> off + 2 * w \<le> n \<Longrightarrow> keeps n (fill16 w off v fb)"
proof (induction w arbitrary: off fb)
  case (Suc w)
  then show ?case by (auto intro!: keeps_rbind [OF keeps_put16] Suc.IH)
qed auto

lemma keeps_for_up:
  fixes b :: "'w::len word"
  assumes "\<And>i fb. unat i < unat b \<Longrightarrow> length fb = n \<Longrightarrow> keeps n (body i fb)" and "length fb = n"
  shows "keeps n (for_up 0 b body fb)"
proof -
  have "\<exists>fb'. for_up 0 b body fb = Inr fb' \<and> length fb' = n"
    by (rule for_up_rule [where P = "\<lambda>_ t. length t = n"]) (use assms in \<open>auto simp: keeps_def unat_less_iff\<close>)
  then show ?thesis by (simp add: keeps_def)
qed

subsection \<open>The geometry of the frame buffer\<close>

definition fb_geometry :: "fb_cons_t \<Rightarrow> bool" where
  "fb_geometry c \<longleftrightarrow> fc_font_width c = 8 \<and> fc_font_height c = 16 \<and> 8 \<le> unat (fc_width c) \<and> unat (fc_width c) mod 8 = 0 \<and>
     16 \<le> unat (fc_height c) \<and> unat (fc_height c) mod 16 = 0 \<and> 2 * unat (fc_width c) \<le> unat (fc_pitch c) \<and>
     unat (fc_pitch c) * unat (fc_height c) < 2 ^ 31 \<and> length (fc_bytes c) = unat (fc_pitch c) * unat (fc_height c)"

text \<open>
  The cursor: on a character cell, in a row of the screen unless it is at the start of a line. After a new
  line on the last row it is below the screen, and the next character scrolls.
\<close>

definition fb_cursor :: "fb_cons_t \<Rightarrow> bool" where
  "fb_cursor c \<longleftrightarrow> unat (fc_x_pos c) mod 8 = 0 \<and> unat (fc_x_pos c) \<le> unat (fc_width c) \<and> unat (fc_y_pos c) mod 16 = 0 \<and>
     (fc_x_pos c = 0 \<or> unat (fc_y_pos c) + 16 \<le> unat (fc_height c))"

definition fb_ok :: "fb_cons_t \<Rightarrow> bool" where
  "fb_ok c \<longleftrightarrow> fb_geometry c \<and> fb_cursor c"

text \<open>A row of \<open>w\<close> pixels from column \<open>x\<close> of pixel row \<open>y\<close> lies inside the buffer.\<close>

lemma fb_inside:
  assumes "fb_geometry c" and "y < unat (fc_height c)" and "x + w \<le> unat (fc_width c)"
  shows "y * unat (fc_pitch c) + 2 * x + 2 * w \<le> unat (fc_pitch c) * unat (fc_height c)"
proof -
  have "2 * x + 2 * w \<le> unat (fc_pitch c)" using assms(1,3) by (simp add: fb_geometry_def)
  then have "y * unat (fc_pitch c) + 2 * x + 2 * w \<le> (y + 1) * unat (fc_pitch c)" by simp
  also have "\<dots> \<le> unat (fc_height c) * unat (fc_pitch c)" using assms(2) by (intro mult_le_mono1) simp
  finally show ?thesis by (simp add: mult.commute)
qed

lemma c_int_nat: "n < 2 ^ 31 \<Longrightarrow> c_int (int n) = Inr (int n)"
  by (simp add: c_int_def)

lemma int_mult_ok: "unat a * unat b < 2 ^ 31 \<Longrightarrow> int_mult a b = Inr (unat a * unat b)"
  unfolding int_mult_def of_nat_mult [symmetric] by (simp only: c_int_nat rbind_simps nat_int)

lemma row_offset:
  assumes "fb_geometry c" and "unat (fc_y_pos c) \<le> unat (fc_height c)"
  shows "int_mult (fc_y_pos c) (fc_pitch c) = Inr (unat (fc_y_pos c) * unat (fc_pitch c))"
proof (rule int_mult_ok)
  have "unat (fc_y_pos c) * unat (fc_pitch c) \<le> unat (fc_height c) * unat (fc_pitch c)" using assms(2) by (rule mult_le_mono1)
  also have "\<dots> < 2 ^ 31" using assms(1) by (simp add: fb_geometry_def mult.commute)
  finally show "unat (fc_y_pos c) * unat (fc_pitch c) < 2 ^ 31" .
qed

lemma clear_rows_ok:
  assumes "length (fc_bytes c) = n" and "\<And>y. y < unat rows \<Longrightarrow> off + y * unat (fc_pitch c) + 2 * w \<le> n"
  shows "\<exists>fb. clear_rows rows off w c = Inr (c\<lparr>fc_bytes := fb\<rparr>) \<and> length fb = n"
proof -
  have "keeps n (for_up 0 rows (\<lambda>y fb. fill16 w (off + unat y * unat (fc_pitch c)) (fc_clear_color c) fb) (fc_bytes c))"
    by (rule keeps_for_up) (use assms in \<open>auto intro!: keeps_fill16\<close>)
  then show ?thesis by (auto simp: clear_rows_def keeps_def)
qed

lemma fb_draw_char_ok:
  assumes g: "fb_geometry c" and ch: "32 \<le> unat ch" "unat ch < 127"
    and x: "unat (fc_x_pos c) + 8 \<le> unat (fc_width c)" and y: "unat (fc_y_pos c) + 16 \<le> unat (fc_height c)"
  shows "\<exists>fb. fb_draw_char ch c = Inr (c\<lparr>fc_bytes := fb\<rparr>) \<and> length fb = length (fc_bytes c)"
proof -
  define n where "n = length (fc_bytes c)"
  let ?g = "glyphs ! (unat ch - 31)" and ?P = "unat (fc_pitch c)"
  let ?ptr = "unat (fc_y_pos c) * ?P + unat (fc_x_pos c) * 2"
  have gi: "unat ch - 31 < length glyphs" using ch by simp
  then have lg: "length ?g = 144" by (simp add: glyph_length)
  have "keeps n (for_up (0 :: u32) 16 (\<lambda>y. for_up (0 :: u32) 8 (\<lambda>x fb.
       let p = ?ptr + unat y * ?P + 2 * unat x in
       rbind (arr_get ?g (unat y * 9 + unat x)) (\<lambda>g.
       if g = 0xFF then put16 p 0xFFFF fb else if g = 0xbb then put16 p 0 fb else Inr fb))) (fc_bytes c))"
  proof (rule keeps_for_up, rule keeps_for_up, goal_cases)
    case (1 i fb j fb')
    then have ij: "unat i < 16" "unat j < 8" by simp_all
    have "(unat (fc_y_pos c) + unat i) * ?P + 2 * (unat (fc_x_pos c) + unat j) + 2 * 1 \<le> ?P * unat (fc_height c)"
      using x y ij by (intro fb_inside [OF g]) simp_all
    then have "?ptr + unat i * ?P + 2 * unat j + 2 \<le> n" using g by (simp add: fb_geometry_def n_def algebra_simps)
    then show ?case using ij lg 1 by (auto simp: Let_def intro!: keeps_put16)
  qed (simp_all add: n_def)
  then show ?thesis using row_offset [OF g] y gi by (auto simp: fb_draw_char_def keeps_def n_def)
qed

lemma fb_clear_char_ok:
  assumes g: "fb_geometry c" and y: "unat (fc_y_pos c) + 16 \<le> unat (fc_height c)" and w: "8 * (unat x + unat num) \<le> unat (fc_width c)"
  shows "\<exists>fb. fb_clear_char x num c = Inr (c\<lparr>fc_bytes := fb\<rparr>) \<and> length fb = length (fc_bytes c)"
proof -
  have wl: "unat (fc_width c) < 2 ^ 16" using unsigned_less [of "fc_width c"] by simp
  have fw: "fc_font_width c = 8" using g by (simp add: fb_geometry_def)
  have nw: "unat (num * ucast (fc_font_width c)) = 8 * unat num" using w wl by (simp add: fw unat_word_ariths)
  have col: "c_int (int (unat x) * int (unat (fc_font_width c)) * 2) = Inr (int (16 * unat x))"
  proof -
    have "16 * unat x < 2 ^ 31" using w wl by simp
    then have "c_int (int (16 * unat x)) = Inr (int (16 * unat x))" by (rule c_int_nat)
    moreover have "int (unat x) * int (unat (fc_font_width c)) * 2 = int (16 * unat x)" by (simp add: fw)
    ultimately show ?thesis by (simp only:)
  qed
  have "\<exists>fb. clear_rows 16 (unat (fc_y_pos c) * unat (fc_pitch c) + 16 * unat x) (8 * unat num) c = Inr (c\<lparr>fc_bytes := fb\<rparr>) \<and>
      length fb = unat (fc_pitch c) * unat (fc_height c)"
  proof (rule clear_rows_ok)
    fix i assume "i < unat (16 :: u32)"
    then have "(unat (fc_y_pos c) + i) * unat (fc_pitch c) + 2 * (8 * unat x) + 2 * (8 * unat num) \<le> unat (fc_pitch c) * unat (fc_height c)"
      using y w by (intro fb_inside [OF g]) simp_all
    then show "unat (fc_y_pos c) * unat (fc_pitch c) + 16 * unat x + i * unat (fc_pitch c) + 2 * (8 * unat num)
        \<le> unat (fc_pitch c) * unat (fc_height c)" by (simp add: algebra_simps)
  qed (use g in \<open>simp add: fb_geometry_def\<close>)
  moreover have "fb_clear_char x num c = clear_rows 16 (unat (fc_y_pos c) * unat (fc_pitch c) + 16 * unat x) (8 * unat num) c"
    using row_offset [OF g] y by (simp only: fb_clear_char_def nw col Let_def rbind_simps nat_int)
  ultimately show ?thesis using g by (simp add: fb_geometry_def)
qed

lemma fb_geometry_cong [simp]:
  "fb_geometry (c\<lparr>fc_x_pos := x\<rparr>) = fb_geometry c" "fb_geometry (c\<lparr>fc_y_pos := y\<rparr>) = fb_geometry c"
  "length fb = length (fc_bytes c) \<Longrightarrow> fb_geometry (c\<lparr>fc_bytes := fb\<rparr>) = fb_geometry c"
  by (simp_all add: fb_geometry_def)

lemma fb_backspace_ok:
  assumes "fb_ok c"
  shows "\<exists>c'. fb_cons_clear_char 1 c = Inr c' \<and> fb_ok c'"
proof (cases "fc_x_pos c = 0")
  case True
  have "fc_font_width c = 8" using assms by (simp add: fb_ok_def fb_geometry_def)
  then show ?thesis using True assms by (simp add: fb_cons_clear_char_def)
next
  case False
  have g: "fb_geometry c" and cu: "unat (fc_x_pos c) mod 8 = 0" "unat (fc_x_pos c) \<le> unat (fc_width c)" "unat (fc_y_pos c) mod 16 = 0"
    "unat (fc_y_pos c) + 16 \<le> unat (fc_height c)" using assms False by (auto simp: fb_ok_def fb_cursor_def)
  have fw: "fc_font_width c = 8" using g by (simp add: fb_geometry_def)
  define k where "k = unat (fc_x_pos c) div 8"
  have xk: "unat (fc_x_pos c) = 8 * k" using cu(1) unfolding k_def by (metis add_0_right mult_div_mod_eq)
  have k0: "0 < k" using False xk by (metis mult_0_right neq0_conv unat_eq_zero)
  have kl: "8 * k < 2 ^ 16" using xk unsigned_less [of "fc_x_pos c", where 'a = nat] by simp
  define x where "x = fc_x_pos c div 8"
  have ux: "unat x = k" by (simp add: x_def unat_div xk)
  have ge: "\<not> (1 :: u32) > ucast x" using k0 ux by (simp add: unat_less_iff)
  let ?p = "ucast (ucast x - (1 :: u32)) :: u16"
  have "unat (ucast x - (1 :: u32)) = k - 1" using k0 ux by (subst unat_minus_le) (simp_all add: unat_le_iff)
  then have up: "unat ?p = k - 1" using kl by (subst unat_ucast_down) simp_all
  have n1: "(ucast x - ucast ?p :: u32) = 1"
    by (rule unat_eq_iff [THEN iffD1], subst unat_minus_le) (use ux up k0 in \<open>simp_all add: unat_le_iff\<close>)
  obtain fb where fb: "fb_clear_char ?p 1 c = Inr (c\<lparr>fc_bytes := fb\<rparr>)" "length fb = length (fc_bytes c)"
    using fb_clear_char_ok [OF g cu(4), of ?p 1] up xk cu(2) k0 by auto
  let ?c = "c\<lparr>fc_bytes := fb, fc_x_pos := ?p * 8\<rparr>"
  have ur: "unat (?p * 8) = 8 * (k - 1)" using up kl by (simp add: unat_word_ariths)
  have "fb_cons_clear_char 1 c = (let n_clear = ucast x - ucast ?p :: u32 in
      if n_clear = 0 then Inr c else rbind (fb_clear_char ?p n_clear c) (\<lambda>c. Inr (c\<lparr>fc_x_pos := ?p * fc_font_width c\<rparr>)))"
    using fw ge by (simp add: fb_cons_clear_char_def x_def Let_def)
  then have "fb_cons_clear_char 1 c = Inr ?c" using fw fb(1) unfolding n1 by simp
  moreover have "fb_ok ?c" using g fb(2) cu xk ur by (simp add: fb_ok_def fb_cursor_def)
  ultimately show ?thesis by blast
qed

lemma fb_scroll_ok:
  assumes g: "fb_geometry c"
  shows "\<exists>fb. fb_scroll c = Inr (c\<lparr>fc_bytes := fb, fc_y_pos := fc_height c - 16\<rparr>) \<and> length fb = length (fc_bytes c)"
proof -
  let ?P = "unat (fc_pitch c)" and ?H = "unat (fc_height c)"
  have gm: "16 \<le> ?H" "?P * ?H < 2 ^ 31" "length (fc_bytes c) = ?P * ?H" "fc_font_height c = 16" using g by (simp_all add: fb_geometry_def)
  have "?P * 16 \<le> ?P * ?H" using gm(1) by (rule mult_le_mono2)
  then have "?P * 16 < 2 ^ 31" using gm(2) by linarith
  then have src: "int_mult (fc_pitch c) 16 = Inr (?P * 16)" using int_mult_ok [of "fc_pitch c" 16] by simp
  define Z where "Z = ?P * (?H - 16)"
  have zs: "?P * 16 + Z = ?P * ?H" using gm(1) by (simp add: Z_def add_mult_distrib2 [symmetric])
  then have "Z < 2 ^ 31" using gm(2) by linarith
  then have "c_int (int Z) = Inr (int Z)" by (rule c_int_nat)
  moreover have "int ?P * (int ?H - int (unat (16 :: u16))) = int Z" using gm(1) by (simp add: Z_def of_nat_diff)
  ultimately have sz: "c_int (int ?P * (int ?H - int (unat (16 :: u16)))) = Inr (int Z)" by (simp only:)
  have mv: "movsb Z 0 (?P * 16) (fc_bytes c) = Inr (drop (?P * 16) (fc_bytes c) @ drop Z (fc_bytes c))" (is "_ = Inr ?b")
    using movsb_result [of 0 "?P * 16" Z "fc_bytes c"] gm(3) zs by simp
  let ?c = "c\<lparr>fc_bytes := ?b, fc_y_pos := fc_height c - 16\<rparr>"
  have lb: "length ?b = ?P * ?H" using gm(3) zs by simp
  have g': "fb_geometry ?c" using g lb gm(3) by (simp add: fb_geometry_def)
  have uy: "unat (fc_height c - 16) = ?H - 16" using gm(1) by (subst unat_minus_le) (simp_all add: unat_le_iff)
  have row: "int_mult (fc_y_pos ?c) (fc_pitch ?c) = Inr ((?H - 16) * ?P)" using row_offset [OF g'] uy by simp
  have "\<exists>fb. clear_rows (ucast (fc_font_height ?c)) ((?H - 16) * ?P) (unat (fc_width ?c)) ?c = Inr (?c\<lparr>fc_bytes := fb\<rparr>) \<and> length fb = ?P * ?H"
  proof (rule clear_rows_ok)
    fix i assume "i < unat (ucast (fc_font_height ?c) :: u32)"
    then have i: "?H - 16 + i < ?H" using gm(1,4) by simp
    show "(?H - 16) * ?P + i * unat (fc_pitch ?c) + 2 * unat (fc_width ?c) \<le> ?P * ?H"
      using fb_inside [OF g i, of 0 "unat (fc_width c)"] by (simp add: algebra_simps)
  qed (use lb in simp)
  then obtain fb where "clear_rows (ucast (fc_font_height ?c)) ((?H - 16) * ?P) (unat (fc_width ?c)) ?c = Inr (?c\<lparr>fc_bytes := fb\<rparr>)"
    "length fb = ?P * ?H" by blast
  moreover have "fb_scroll c = clear_rows (ucast (fc_font_height ?c)) ((?H - 16) * ?P) (unat (fc_width ?c)) ?c"
    unfolding fb_scroll_def gm(4) src rbind_simps sz using mv row by (simp add: Let_def gm(4))
  ultimately show ?thesis using gm(3) by (intro exI [of _ fb]) simp
qed

lemma cell_multiple_step:
  fixes a b k :: nat
  assumes "a mod k = 0" and "b mod k = 0" and "a < b"
  shows "a + k \<le> b"
proof -
  obtain i j where "a = k * i" "b = k * j" using assms(1,2) by (metis mult_div_mod_eq add_0_right)
  then show ?thesis using assms(3) by (metis Suc_leI mult_Suc_right mult_le_mono2 mult_less_cancel1 add.commute)
qed

text \<open>A new line, also where the row counter wraps around.\<close>

definition newline :: "fb_cons_t \<Rightarrow> fb_cons_t" where
  "newline c = c\<lparr>fc_x_pos := 0, fc_y_pos := fc_y_pos c + fc_font_height c\<rparr>"

lemma newline_ok: "fb_ok c \<Longrightarrow> fb_ok (newline c)"
proof -
  assume a: "fb_ok c"
  have "unat (fc_y_pos c + 16) = (unat (fc_y_pos c) + 16) mod 65536" by (simp add: unat_word_ariths)
  moreover have "(unat (fc_y_pos c) + 16) mod 65536 mod 16 = (unat (fc_y_pos c) + 16) mod 16" by (rule mod_mod_cancel) simp
  ultimately show ?thesis using a by (simp add: fb_ok_def fb_cursor_def fb_geometry_def newline_def)
qed

definition wrap_line :: "fb_cons_t \<Rightarrow> fb_cons_t" where
  "wrap_line c = (if fc_x_pos c \<ge> fc_width c then newline c else c)"

lemma wrap_line_ok:
  assumes "fb_ok c"
  shows "fb_ok (wrap_line c)" "unat (fc_x_pos (wrap_line c)) + 8 \<le> unat (fc_width (wrap_line c))"
proof -
  show "fb_ok (wrap_line c)" using assms newline_ok by (simp add: wrap_line_def)
  have "8 \<le> unat (fc_width c)" "unat (fc_width c) mod 8 = 0" "unat (fc_x_pos c) mod 8 = 0"
    using assms by (simp_all add: fb_ok_def fb_geometry_def fb_cursor_def)
  then show "unat (fc_x_pos (wrap_line c)) + 8 \<le> unat (fc_width (wrap_line c))"
    using cell_multiple_step [of "unat (fc_x_pos c)" 8 "unat (fc_width c)"]
    by (cases "fc_width c \<le> fc_x_pos c") (simp_all add: wrap_line_def newline_def not_le unat_less_iff)
qed

text \<open>The row on which a character is drawn, after scrolling if the cursor was below the screen.\<close>

lemma scrolled_ok:
  assumes "fb_ok c"
  shows "\<exists>c'. (if fc_y_pos c \<ge> fc_height c then fb_scroll c else Inr c) = Inr c' \<and> fb_ok c' \<and> fc_x_pos c' = fc_x_pos c \<and>
    fc_width c' = fc_width c \<and> unat (fc_y_pos c') + 16 \<le> unat (fc_height c')"
proof (cases "fc_y_pos c \<ge> fc_height c")
  case True
  have g: "fb_geometry c" and cu: "unat (fc_x_pos c) mod 8 = 0" "unat (fc_x_pos c) \<le> unat (fc_width c)"
    using assms by (simp_all add: fb_ok_def fb_cursor_def)
  have h: "16 \<le> unat (fc_height c)" "unat (fc_height c) mod 16 = 0" using g by (simp_all add: fb_geometry_def)
  have uy: "unat (fc_height c - 16) = unat (fc_height c) - 16" using h(1) by (subst unat_minus_le) (simp_all add: unat_le_iff)
  have "(unat (fc_height c) - 16) mod 16 = 0" using h by (simp add: mod_eq_0_iff_dvd dvd_diff_nat)
  moreover obtain fb where "fb_scroll c = Inr (c\<lparr>fc_bytes := fb, fc_y_pos := fc_height c - 16\<rparr>)" "length fb = length (fc_bytes c)"
    using fb_scroll_ok [OF g] by blast
  ultimately show ?thesis using True g cu uy h by (simp add: fb_ok_def fb_cursor_def)
next
  case False
  then have "unat (fc_y_pos c) + 16 \<le> unat (fc_height c)" using assms
    by (intro cell_multiple_step) (simp_all add: fb_ok_def fb_cursor_def fb_geometry_def not_le unat_less_iff)
  then show ?thesis using False assms by simp
qed

lemma fb_cons_putchar_eq:
  assumes "ch \<noteq> 9"
  shows "fb_cons_putchar ch c =
    (if ch = 8 then fb_cons_clear_char 1 (wrap_line c) else if ch = 10 \<or> ch = 13 then Inr (newline (wrap_line c))
     else rbind (if fc_y_pos (wrap_line c) \<ge> fc_height (wrap_line c) then fb_scroll (wrap_line c) else Inr (wrap_line c)) (\<lambda>c.
       if ch \<ge> 32 then rbind (fb_draw_char ch c) (\<lambda>c. Inr (c\<lparr>fc_x_pos := fc_x_pos c + fc_font_width c\<rparr>)) else Inr c))"
  using assms by (simp add: fb_cons_putchar_def wrap_line_def newline_def Let_def)

lemma fb_cons_putchar_ok:
  assumes "fb_ok c" and "ch \<noteq> 9" and "unat ch < 127"
  shows "\<exists>c'. fb_cons_putchar ch c = Inr c' \<and> fb_ok c'"
proof -
  let ?c = "wrap_line c"
  have w: "fb_ok ?c" "unat (fc_x_pos ?c) + 8 \<le> unat (fc_width ?c)" using wrap_line_ok [OF assms(1)] by simp_all
  note pc = fb_cons_putchar_eq [OF assms(2)]
  consider "ch = 8" | "ch = 10 \<or> ch = 13" | "ch \<noteq> 8" "\<not> (ch = 10 \<or> ch = 13)" by blast
  then show ?thesis
  proof cases
    case 1
    then show ?thesis using fb_backspace_ok [OF w(1)] unfolding pc by simp
  next
    case 2
    then show ?thesis using newline_ok [OF w(1)] unfolding pc by auto
  next
    case 3
    obtain c2 where c2: "(if fc_y_pos ?c \<ge> fc_height ?c then fb_scroll ?c else Inr ?c) = Inr c2" "fb_ok c2"
      "fc_x_pos c2 = fc_x_pos ?c" "fc_width c2 = fc_width ?c" "unat (fc_y_pos c2) + 16 \<le> unat (fc_height c2)"
      using scrolled_ok [OF w(1)] by blast
    show ?thesis
    proof (cases "ch \<ge> 32")
      case True
      have g: "fb_geometry c2" and cu: "fb_cursor c2" using c2(2) by (simp_all add: fb_ok_def)
      obtain fb where fb: "fb_draw_char ch c2 = Inr (c2\<lparr>fc_bytes := fb\<rparr>)" "length fb = length (fc_bytes c2)"
        using fb_draw_char_ok [OF g _ assms(3) _ c2(5)] True w(2) c2(3,4) by (auto simp: unat_le_iff)
      have fw: "fc_font_width c2 = 8" using g by (simp add: fb_geometry_def)
      have ux: "unat (fc_x_pos c2 + 8) = unat (fc_x_pos c2) + 8"
        using w(2) c2(3,4) unsigned_less [of "fc_width c2", where 'a = nat] by (subst unat_plus_lt) simp_all
      have "fb_ok (c2\<lparr>fc_bytes := fb, fc_x_pos := fc_x_pos c2 + 8\<rparr>)"
        using g cu fb(2) ux w(2) c2(3-5) by (simp add: fb_ok_def fb_cursor_def)
      then show ?thesis using 3 c2(1) fb(1) fw True unfolding pc by simp
    next
      case False
      then show ?thesis using 3 c2(1,2) unfolding pc by simp
    qed
  qed
qed

text \<open>The frame buffer console behind the front end, with everything but the frame buffer kept.\<close>

definition fb_console_ok :: "console \<Rightarrow> console \<Rightarrow> bool" where
  "fb_console_ok con0 con \<longleftrightarrow> con_ready con \<and> fb_ok (con_fb con) \<and> con\<lparr>con_fb := con_fb con0\<rparr> = con0"

interpretation fb_device: char_device console_putchar_fn "fb_console_ok con0" "\<lambda>c. c \<noteq> 9 \<and> unat c < 127" for con0
proof
  fix con and c :: u8
  assume "fb_console_ok con0 con" and "c \<noteq> 9 \<and> unat c < 127"
  then obtain fb where "fb_cons_putchar c (con_fb con) = Inr fb" "fb_ok fb"
    using fb_cons_putchar_ok [of "con_fb con" c] by (auto simp: fb_console_ok_def)
  then show "\<exists>con'. console_putchar_fn c con = Inr con' \<and> fb_console_ok con0 con'"
    using \<open>fb_console_ok con0 con\<close> by (simp add: console_putchar_fn_def call_fn_def fb_console_ok_def)
qed

text \<open>
  C29. Printing is memory safe: on an initialised console whose frame buffer is made of whole character cells,
  any string of characters below 127 without tabs, of any length and with any mix of line feeds, carriage
  returns and backspaces, is printed without a store outside the frame buffer or a read outside the font; the
  call returns with the lock free, interrupts as before, and the cursor in a valid place again.
\<close>

theorem console_putstr_safe:
  assumes "con_ready con" and "con_lock con = 0" and "fb_ok (con_fb con)"
    and "\<forall>c\<in>set s. c \<noteq> 0 \<and> c \<noteq> 9 \<and> unat c < 127"
  shows "\<exists>fb. console_putstr (s @ 0 # r) rflags con = Inr (rflags, con\<lparr>con_fb := fb\<rparr>) \<and> fb_ok fb"
proof -
  obtain spl rf where sp: "cpu_splhi rflags = (spl, rf)" by fastforce
  have fl: "cpu_splx spl rf = rflags" using splx_splhi [of rflags] by (simp add: sp)
  have "fb_console_ok (con\<lparr>con_lock := 1\<rparr>) (con\<lparr>con_lock := 1\<rparr>)" using assms by (simp add: fb_console_ok_def)
  then obtain con' where c: "put_chars console_putchar_fn (s @ 0 # r) (con\<lparr>con_lock := 1\<rparr>) = Inr con'"
    "fb_console_ok (con\<lparr>con_lock := 1\<rparr>) con'"
    using fb_device.put_string [of _ _ s r] assms(4) by blast
  then have e: "con' = con\<lparr>con_lock := 1, con_fb := con_fb con'\<rparr>" by (cases con'; cases con) (simp add: fb_console_ok_def)
  have l: "con_lock con' = 1" by (subst e) simp
  have "con'\<lparr>con_lock := 0\<rparr> = con\<lparr>con_fb := con_fb con'\<rparr>" using assms(2) by (subst e) simp
  then show ?thesis using c l fl assms(2)
    by (intro exI [of _ "con_fb con'"]) (simp add: console_putstr_def console_locked_def sp fb_console_ok_def)
qed

definition demo_fb :: fb_cons_t where
  "demo_fb = \<lparr>fc_fb_addr = 0xfd000000, fc_pitch = 80, fc_width = 40, fc_height = 32, fc_x_pos = 32, fc_y_pos = 16,
     fc_font_width = 8, fc_font_height = 16, fc_clear_color = 21, fc_bytes = replicate 2560 0\<rparr>"

lemma demo_console_ok: "fb_ok demo_fb"
  by (simp add: fb_ok_def fb_geometry_def fb_cursor_def demo_fb_def)

theorem console_putstr_safe_witness:
  "\<exists>fb. console_putstr [104, 105, 10, 8, 33, 0] 0x202 \<lparr>con_ready = True, con_lock = 0, con_fb = demo_fb\<rparr> =
     Inr (0x202, \<lparr>con_ready = True, con_lock = 0, con_fb = fb\<rparr>) \<and> fb_ok fb"
proof -
  let ?con = "\<lparr>con_ready = True, con_lock = 0, con_fb = demo_fb\<rparr>"
  have h: "con_ready ?con" "con_lock ?con = 0" "fb_ok (con_fb ?con)" "\<forall>c\<in>set [104, 105, 10, 8, 33 :: u8]. c \<noteq> 0 \<and> c \<noteq> 9 \<and> unat c < 127"
    using demo_console_ok by simp_all
  show ?thesis using console_putstr_safe [OF h, of "[]" "0x202"] by simp
qed

subsection \<open>What is not safe\<close>

text \<open>
  The font ends at character 126; every character above it is looked up outside. The keyboard map produces
  such characters for function keys.
\<close>

lemma fb_cons_putchar_above_font:
  assumes "fb_ok c" and "127 \<le> unat ch"
  shows "fb_cons_putchar ch c = Inl OutOfBounds"
proof -
  let ?c = "wrap_line c"
  have w: "fb_ok ?c" using wrap_line_ok [OF assms(1)] by simp
  obtain c2 where c2: "(if fc_y_pos ?c \<ge> fc_height ?c then fb_scroll ?c else Inr ?c) = Inr c2" "fb_ok c2"
    "unat (fc_y_pos c2) + 16 \<le> unat (fc_height c2)" using scrolled_ok [OF w] by blast
  have ne: "ch \<noteq> 9" "ch \<noteq> 8" "ch \<noteq> 10" "ch \<noteq> 13" "32 \<le> ch" using assms(2) by (auto simp: unat_le_iff)
  have "fb_draw_char ch c2 = Inl OutOfBounds"
    using row_offset [of c2] c2(2,3) assms(2) by (simp add: fb_draw_char_def fb_ok_def arr_get_out)
  then show ?thesis unfolding fb_cons_putchar_eq [OF ne(1)] using c2(1) ne by simp
qed

text \<open>After a line feed on the last row, a tab leaves the start of the line and a backspace then clears below the screen.\<close>

lemma fb_tab_backspace_overruns:
  "rbind (rbind (fb_cons_putchar 10 demo_fb) (fb_cons_putchar 9)) (fb_cons_putchar 8) = Inl OutOfBounds"
proof -
  have "fill16 8 (2560 + 48) 21 (replicate 2560 0) = Inl OutOfBounds" by (simp add: put16_def arr_set_out eval_nat_numeral(2,3))
  then show ?thesis
    by (simp add: demo_fb_def fb_cons_putchar_def Let_def fb_cons_clear_char_def fb_clear_char_def int_mult_def c_int_def clear_rows_def for_up_step)
qed

subsection \<open>The VGA console stays inside its buffer\<close>

definition vga_ok :: "vga_console_t \<Rightarrow> bool" where
  "vga_ok c \<longleftrightarrow> vc_width c = 80 \<and> vc_height c = 25 \<and> length (vc_cells c) = 2000 \<and> unat (vc_y_pos c) < 25 \<and> unat (vc_x_pos c) \<le> 83"

lemma vga_cons_init_ok: "length (vc_cells c) = 2000 \<Longrightarrow> vga_ok (vga_cons_init c)"
  by (simp add: vga_ok_def vga_cons_init_def)

lemma vga_scroll_ok:
  assumes "vc_width c = 80" "vc_height c = 25" "length (vc_cells c) = 2000" "unat (vc_x_pos c) \<le> 83"
  shows "\<exists>c'. vga_scroll c = Inr c' \<and> vga_ok c' \<and> vc_x_pos c' = vc_x_pos c"
proof -
  obtain fb where fb: "movsb 1920 0 80 (vc_cells c) = Inr fb" "length fb = 2000" using movsb_result [of 0 80 1920 "vc_cells c"] assms(3) by simp
  have "keeps 2000 (for_up 0 (80 :: u32) (\<lambda>i fb. arr_set fb (1920 + unat i) 0) fb)"
    by (rule keeps_for_up) (use fb(2) in auto)
  then obtain fb' where "for_up 0 (80 :: u32) (\<lambda>i fb. arr_set fb (1920 + unat i) 0) fb = Inr fb'" "length fb' = 2000" by (auto simp: keeps_def)
  then show ?thesis using assms fb by (simp add: vga_scroll_def Let_def vga_ok_def c_int_def int_mult_def)
qed

lemma vga_draw_char_ok:
  assumes "vga_ok c" and x: "unat (vc_x_pos c) < 80"
  shows "\<exists>c'. vga_draw_char ch c = Inr c' \<and> vga_ok c'"
proof -
  have c: "vc_width c = 80" "vc_height c = 25" "length (vc_cells c) = 2000" "unat (vc_y_pos c) < 25" using assms(1) by (simp_all add: vga_ok_def)
  have row: "int_mult (vc_y_pos c) (vc_width c) = Inr (unat (vc_y_pos c) * 80)"
    using c int_mult_ok [of "vc_y_pos c" "vc_width c"] by simp
  have i: "unat (vc_y_pos c) * 80 + unat (vc_x_pos c) < 2000" using c(4) x by simp
  then have "c_int (int (unat (vc_y_pos c) * 80) + int (unat (vc_x_pos c))) = Inr (int (unat (vc_y_pos c) * 80 + unat (vc_x_pos c)))"
    unfolding of_nat_add [symmetric] by (intro c_int_nat) simp
  moreover have "unat (vc_x_pos c + 1) = unat (vc_x_pos c) + 1" using x by (subst unat_plus_lt) simp_all
  moreover have "nat (uint (vc_y_pos c) * 80 + uint (vc_x_pos c)) = unat (vc_y_pos c) * 80 + unat (vc_x_pos c)"
    by (simp add: nat_add_distrib nat_mult_distrib)
  ultimately show ?thesis using c i x row by (simp add: vga_draw_char_def vga_ok_def)
qed

lemma vga_cons_putchar_ok:
  assumes "vga_ok c"
  shows "\<exists>c'. vga_cons_putchar ch c = Inr c' \<and> vga_ok c'"
proof -
  have c: "vc_width c = 80" "vc_height c = 25" "length (vc_cells c) = 2000" "unat (vc_y_pos c) < 25" "unat (vc_x_pos c) \<le> 83"
    using assms by (simp_all add: vga_ok_def)
  define c1 where "c1 = (if vc_x_pos c \<ge> vc_width c then c\<lparr>vc_x_pos := 0, vc_y_pos := vc_y_pos c + 1\<rparr> else c)"
  have 1: "vc_width c1 = 80" "vc_height c1 = 25" "length (vc_cells c1) = 2000" "unat (vc_x_pos c1) < 80"
    using c by (auto simp: c1_def unat_le_iff)
  define c2 where "c2 = (if ch = 9 then c1\<lparr>vc_x_pos := vc_x_pos c1 + 4\<rparr> else c1)"
  have x2: "unat (vc_x_pos c1 + 4) = unat (vc_x_pos c1) + 4" using 1(4) by (subst unat_plus_lt) simp_all
  define c3 where "c3 = (if ch = 10 then c2\<lparr>vc_x_pos := 0, vc_y_pos := vc_y_pos c2 + 1\<rparr> else c2)"
  have 3: "vc_width c3 = 80" "vc_height c3 = 25" "length (vc_cells c3) = 2000" "unat (vc_x_pos c3) \<le> 83" "ch \<ge> 32 \<longrightarrow> unat (vc_x_pos c3) < 80"
    using 1 x2 by (auto simp: c3_def c2_def)
  have "\<exists>c4. (if vc_y_pos c3 \<ge> vc_height c3 then vga_scroll c3 else Inr c3) = Inr c4 \<and> vga_ok c4 \<and> vc_x_pos c4 = vc_x_pos c3"
    using vga_scroll_ok [OF 3(1-4)] 3 by (auto simp: vga_ok_def unat_le_iff)
  then obtain c4 where 4: "vga_cons_putchar ch c = (if ch \<ge> 32 then vga_draw_char ch c4 else Inr c4)" "vga_ok c4" "vc_x_pos c4 = vc_x_pos c3"
    unfolding vga_cons_putchar_def c1_def [symmetric] Let_def c2_def [symmetric] c3_def [symmetric] by (elim exE conjE) simp
  then show ?thesis using vga_draw_char_ok [OF 4(2)] 3(5) by (cases "ch \<ge> 32") simp_all
qed

interpretation vga_device: char_device vga_cons_putchar vga_ok "\<lambda>_. True"
  by unfold_locales (rule vga_cons_putchar_ok)

text \<open>The text console shows any string, from its initial state on.\<close>

lemma vga_cons_string:
  assumes "length (vc_cells c) = 2000" and "0 \<notin> set s"
  shows "\<exists>c'. put_chars vga_cons_putchar (s @ 0 # r) (vga_cons_init c) = Inr c' \<and> vga_ok c'"
  using vga_device.put_string [OF vga_cons_init_ok [OF assms(1)], of s r] assms(2) by auto

subsection \<open>The message buffer\<close>

text \<open>An allocation that does not fit starts again at 0 but leaves 0 free: the next one gets the same place.\<close>

lemma cons_buffer_alloc_overlaps:
  assumes "cb_pos q + a > MAX_CONSOLE_BUF" and "a < MAX_CONSOLE_BUF" and "b < MAX_CONSOLE_BUF"
  shows "\<exists>q' q''. cons_buffer_alloc a q = Inr (0, q') \<and> cons_buffer_alloc b q' = Inr (0, q'')"
proof -
  have "\<not> cb_pos q + a \<le> MAX_CONSOLE_BUF" "b \<le> MAX_CONSOLE_BUF" using assms by simp_all
  then show ?thesis using assms(2) by (simp add: cons_buffer_alloc_def)
qed

end
