(* ===== verification/Pci.thy ===== *)
theory Pci
  imports Ports Spinlock
begin

text \<open>
  The PCI bus (\<^verbatim>\<open>pci.c\<close>): configuration reads and writes through the two ports, the sizing of base address
  registers, and the enumeration of \<^verbatim>\<open>pci_init\<close>. The state is the table of devices, the history of port accesses
  and the flags of the processor; \<open>dev\<close> answers the reads.
\<close>

definition PCI_MAX_BUS :: u32 where "PCI_MAX_BUS = 256"
definition PCI_MAX_DEV :: u32 where "PCI_MAX_DEV = 32"
definition PCI_MAX_FUNC :: u32 where "PCI_MAX_FUNC = 8"
definition PCI_CONFIG_ADDR :: u32 where "PCI_CONFIG_ADDR = 0xcf8"
definition PCI_CONFIG_DATA :: u32 where "PCI_CONFIG_DATA = 0xcfc"
definition PCI_TYPE_MULTIFUNC :: u8 where "PCI_TYPE_MULTIFUNC = 0x80"
definition PCI_TYPE_GENERIC :: u8 where "PCI_TYPE_GENERIC = 0x00"
definition PCI_CONFIG_VENDOR_ID :: u32 where "PCI_CONFIG_VENDOR_ID = 0x00"
definition PCI_CONFIG_DEVICE_ID :: u32 where "PCI_CONFIG_DEVICE_ID = 0x02"
definition PCI_CONFIG_PROG_INTF :: u32 where "PCI_CONFIG_PROG_INTF = 0x09"
definition PCI_CONFIG_SUBCLASS :: u32 where "PCI_CONFIG_SUBCLASS = 0x0a"
definition PCI_CONFIG_CLASS_CODE :: u32 where "PCI_CONFIG_CLASS_CODE = 0x0b"
definition PCI_CONFIG_HEADER_TYPE :: u32 where "PCI_CONFIG_HEADER_TYPE = 0x0e"
definition PCI_CONFIG_BAR_0 :: u32 where "PCI_CONFIG_BAR_0 = 0x10"
definition PCI_CONFIG_INTERRUPT_LINE :: u32 where "PCI_CONFIG_INTERRUPT_LINE = 0x3c"
definition PCI_CONFIG_INTERRUPT_PIN :: u32 where "PCI_CONFIG_INTERRUPT_PIN = 0x3d"
definition PCI_CONFIG_BAR_SIZE :: u32 where "PCI_CONFIG_BAR_SIZE = 0x04"
definition PCI_BAR_IO :: u32 where "PCI_BAR_IO = 0x1"
definition PCI_BAR_IO_MASK :: u32 where "PCI_BAR_IO_MASK = 0xfffffffc"
definition PCI_BAR_MEM_MASK :: u32 where "PCI_BAR_MEM_MASK = 0xfffffff0"
definition PCI_MEMBAR_TYPE :: u32 where "PCI_MEMBAR_TYPE = push_bit 1 3"
definition PCI_MEMBAR_32_BIT :: u32 where "PCI_MEMBAR_32_BIT = 0x0"
definition PCI_MEMBAR_64_BIT :: u32 where "PCI_MEMBAR_64_BIT = 0x4"
definition PCI_MAX_DEVICES :: nat where "PCI_MAX_DEVICES = 32"
definition PCI_MAX_BARS :: nat where "PCI_MAX_BARS = 6"
definition PCI_MAX_CAPS :: nat where "PCI_MAX_CAPS = 16"

definition PCI_MAKE_ID :: "u32 \<Rightarrow> u32 \<Rightarrow> u32 \<Rightarrow> u32" where
  "PCI_MAKE_ID bus dev func = push_bit 16 bus OR push_bit 11 dev OR push_bit 8 func"

record pci_bar_t =
  pb_bar :: u32
  pb_pio_base :: u32
  pb_mmio_size :: u32
  pb_mmio_base32 :: u32
  pb_mmio_base64 :: u64

record pci_device_t =
  pd_bus :: u8
  pd_dev :: u8
  pd_func :: u8
  pd_header_type :: u8
  pd_vendor_id :: u16
  pd_device_id :: u16
  pd_class :: u8
  pd_subclass :: u8
  pd_prog_intf :: u8
  pd_int_line :: u8
  pd_int_pin :: u8
  pd_num_bars :: u8
  pd_num_caps :: u8
  pd_bars :: "pci_bar_t list"
  pd_caps :: "u8 list"

record pci =
  pci_devices :: "pci_device_t list"
  pci_num_devices :: u32
  pci_io :: history
  pci_rflags :: u64

definition config_addr :: "u32 \<Rightarrow> u32 \<Rightarrow> u32" where
  "config_addr n reg = 0x80000000 OR n OR (reg AND 0xfc)"

definition pci_read_8 :: "device \<Rightarrow> u32 \<Rightarrow> u32 \<Rightarrow> pci \<Rightarrow> u8 \<times> pci" where
  "pci_read_8 dev n reg st =
     (let addr = config_addr n reg in
      case cpu_splhi (pci_rflags st) of (spl, rflags) \<Rightarrow>
      let io = outl PCI_CONFIG_ADDR addr (pci_io st) in
      case inb dev (PCI_CONFIG_DATA + (reg AND 0x03)) io of (val, io) \<Rightarrow>
      (val, st\<lparr>pci_io := io, pci_rflags := cpu_splx spl rflags\<rparr>))"

definition pci_read_16 :: "device \<Rightarrow> u32 \<Rightarrow> u32 \<Rightarrow> pci \<Rightarrow> u16 \<times> pci" where
  "pci_read_16 dev n reg st =
     (let addr = config_addr n reg in
      case cpu_splhi (pci_rflags st) of (spl, rflags) \<Rightarrow>
      let io = outl PCI_CONFIG_ADDR addr (pci_io st) in
      case inw dev (PCI_CONFIG_DATA + (reg AND 0x02)) io of (val, io) \<Rightarrow>
      (val, st\<lparr>pci_io := io, pci_rflags := cpu_splx spl rflags\<rparr>))"

definition pci_read_32 :: "device \<Rightarrow> u32 \<Rightarrow> u32 \<Rightarrow> pci \<Rightarrow> u32 \<times> pci" where
  "pci_read_32 dev n reg st =
     (let addr = config_addr n reg in
      case cpu_splhi (pci_rflags st) of (spl, rflags) \<Rightarrow>
      let io = outl PCI_CONFIG_ADDR addr (pci_io st) in
      case inl dev (PCI_CONFIG_DATA + reg) io of (val, io) \<Rightarrow>
      (val, st\<lparr>pci_io := io, pci_rflags := cpu_splx spl rflags\<rparr>))"

definition pci_write_32 :: "u32 \<Rightarrow> u32 \<Rightarrow> u32 \<Rightarrow> pci \<Rightarrow> pci" where
  "pci_write_32 n reg val st =
     (let addr = config_addr n reg in
      case cpu_splhi (pci_rflags st) of (spl, rflags) \<Rightarrow>
      let io = outl PCI_CONFIG_ADDR addr (pci_io st); io = outl PCI_CONFIG_DATA val io in
      st\<lparr>pci_io := io, pci_rflags := cpu_splx spl rflags\<rparr>)"

definition PCI_DEVICE_ID :: "pci_device_t \<Rightarrow> u32" where
  "PCI_DEVICE_ID d = PCI_MAKE_ID (ucast (pd_bus d)) (ucast (pd_dev d)) (ucast (pd_func d))"

definition pci_read_caps :: "pci_device_t \<Rightarrow> pci_device_t" where
  "pci_read_caps d = d"

definition pci_bar_size :: "device \<Rightarrow> u32 \<Rightarrow> u32 \<Rightarrow> pci \<Rightarrow> u32 \<times> pci" where
  "pci_bar_size dev n bar st =
     (let bar_reg = PCI_CONFIG_BAR_0 + bar * PCI_CONFIG_BAR_SIZE in
      case pci_read_32 dev n bar_reg st of (cur_val, st) \<Rightarrow>
      let st = pci_write_32 n bar_reg 0xFFFFFFFF st in
      case pci_read_32 dev n bar_reg st of (val, st) \<Rightarrow>
      let val = NOT (val AND PCI_BAR_MEM_MASK) + 1 in
      (val, pci_write_32 n bar_reg cur_val st))"

text \<open>The loop over the base address registers; a 64-bit register takes two slots.\<close>

function read_bars_loop :: "device \<Rightarrow> u32 \<Rightarrow> nat \<Rightarrow> pci_device_t \<times> pci \<Rightarrow> (pci_device_t \<times> pci) outcome" where
  "read_bars_loop dev n i s =
     (if i < PCI_MAX_BARS then
        (case s of (d, st) \<Rightarrow>
         case pci_read_32 dev n (PCI_CONFIG_BAR_0 + of_nat i * PCI_CONFIG_BAR_SIZE) st of (bar, st) \<Rightarrow>
         if bar = 0 then read_bars_loop dev n (i + 1) (d, st)
         else
           rbind (arr_get (pd_bars d) i) (\<lambda>b.
           let b = b\<lparr>pb_bar := bar\<rparr> in
           if bar AND PCI_BAR_IO \<noteq> 0 then
             read_bars_loop dev n (i + 1) (d\<lparr>pd_bars := (pd_bars d)[i := b\<lparr>pb_pio_base := bar AND PCI_BAR_IO_MASK\<rparr>]\<rparr>, st)
           else if bar AND PCI_MEMBAR_TYPE = PCI_MEMBAR_32_BIT then
             let b = b\<lparr>pb_mmio_base32 := bar AND PCI_BAR_MEM_MASK\<rparr> in
             (case pci_bar_size dev n (of_nat i) st of (sz, st) \<Rightarrow>
              read_bars_loop dev n (i + 1) (d\<lparr>pd_bars := (pd_bars d)[i := b\<lparr>pb_mmio_size := sz\<rparr>]\<rparr>, st))
           else if bar AND PCI_MEMBAR_TYPE = PCI_MEMBAR_64_BIT then
             (case pci_read_32 dev n (PCI_CONFIG_BAR_0 + (of_nat i + 1) * PCI_CONFIG_BAR_SIZE) st of (next_bar, st) \<Rightarrow>
              let b = b\<lparr>pb_mmio_base64 := ucast (bar AND PCI_BAR_MEM_MASK)\<rparr>;
                  b = b\<lparr>pb_mmio_base64 := push_bit 32 (ucast next_bar)\<rparr> in
              case pci_bar_size dev n (of_nat i) st of (sz, st) \<Rightarrow>
              read_bars_loop dev n (i + 2) (d\<lparr>pd_bars := (pd_bars d)[i := b\<lparr>pb_mmio_size := sz\<rparr>]\<rparr>, st))
           else read_bars_loop dev n (i + 1) (d\<lparr>pd_bars := (pd_bars d)[i := b]\<rparr>, st)))
      else Inr s)"
  by pat_completeness auto
termination
  by (relation "measure (\<lambda>(_, _, i, _). PCI_MAX_BARS - i)") auto

declare read_bars_loop.simps [simp del]

definition pci_read_bars :: "device \<Rightarrow> pci_device_t \<times> pci \<Rightarrow> (pci_device_t \<times> pci) outcome" where
  "pci_read_bars dev s =
     (case s of (d, st) \<Rightarrow>
      if pd_header_type d = PCI_TYPE_GENERIC then read_bars_loop dev (PCI_DEVICE_ID d) 0 (d, st) else Inr (d, st))"

text \<open>The body of the innermost loop of \<^verbatim>\<open>pci_init\<close>.\<close>

definition probe_func :: "device \<Rightarrow> u32 \<Rightarrow> u32 \<Rightarrow> u8 \<Rightarrow> u32 \<Rightarrow> pci \<Rightarrow> pci outcome" where
  "probe_func device bus dev header_type func st =
     (let n = PCI_MAKE_ID bus dev func in
      case pci_read_16 device n PCI_CONFIG_VENDOR_ID st of (vendor_id, st) \<Rightarrow>
      if vendor_id = 0xFFFF then Inr st
      else
        let slot = unat (pci_num_devices st); st = st\<lparr>pci_num_devices := pci_num_devices st + 1\<rparr> in
        rbind (arr_get (pci_devices st) slot) (\<lambda>d.
        case pci_read_16 device n PCI_CONFIG_DEVICE_ID st of (device_id, st) \<Rightarrow>
        case pci_read_8 device n PCI_CONFIG_CLASS_CODE st of (class_code, st) \<Rightarrow>
        case pci_read_8 device n PCI_CONFIG_SUBCLASS st of (subclass, st) \<Rightarrow>
        case pci_read_8 device n PCI_CONFIG_PROG_INTF st of (prog_intf, st) \<Rightarrow>
        case pci_read_8 device n PCI_CONFIG_INTERRUPT_LINE st of (int_line, st) \<Rightarrow>
        case pci_read_8 device n PCI_CONFIG_INTERRUPT_PIN st of (int_pin, st) \<Rightarrow>
        let d = d\<lparr>pd_bus := ucast bus, pd_dev := ucast dev, pd_func := ucast func, pd_header_type := header_type AND 0x7F,
              pd_vendor_id := vendor_id, pd_device_id := device_id, pd_class := class_code, pd_subclass := subclass,
              pd_prog_intf := prog_intf, pd_int_line := int_line, pd_int_pin := int_pin\<rparr> in
        rbind (pci_read_bars device (d, st)) (\<lambda>(d, st).
        rbind (arr_set (pci_devices st) slot (pci_read_caps d)) (\<lambda>tab.
        Inr (st\<lparr>pci_devices := tab\<rparr>)))))"

definition probe_dev :: "device \<Rightarrow> u32 \<Rightarrow> u32 \<Rightarrow> pci \<Rightarrow> pci outcome" where
  "probe_dev device bus dev st =
     (let base_id = PCI_MAKE_ID bus dev 0 in
      case pci_read_8 device base_id PCI_CONFIG_HEADER_TYPE st of (header_type, st) \<Rightarrow>
      let n_func = (if header_type AND PCI_TYPE_MULTIFUNC \<noteq> 0 then PCI_MAX_FUNC else 1) in
      for_up 0 n_func (probe_func device bus dev header_type) st)"

definition pci_init :: "device \<Rightarrow> pci \<Rightarrow> pci outcome" where
  "pci_init device = for_up 0 PCI_MAX_BUS (\<lambda>bus. for_up 0 PCI_MAX_DEV (probe_dev device bus))"

subsection \<open>Configuration space\<close>

text \<open>
  The documented access mechanism: after the address of a register has been written to the address port, a
  read of one or two bytes in the data window returns the bytes of that register. \<open>cfg8\<close> and \<open>cfg16\<close> are the
  contents of configuration space by function and register.
\<close>

definition config_space :: "device \<Rightarrow> (u32 \<Rightarrow> u32 \<Rightarrow> u8) \<Rightarrow> (u32 \<Rightarrow> u32 \<Rightarrow> u16) \<Rightarrow> bool" where
  "config_space dev cfg8 cfg16 \<longleftrightarrow>
     (\<forall>io n reg. dev (io @ [Out32 0xcf8 (config_addr n reg)]) (In8 (ucast (0xcfc + (reg AND 3)))) = ucast (cfg8 n reg)) \<and>
     (\<forall>io n reg. dev (io @ [Out32 0xcf8 (config_addr n reg)]) (In16 (ucast (0xcfc + (reg AND 2)))) = ucast (cfg16 n reg))"

text \<open>A configuration access changes only the history of accesses.\<close>

definition same_table :: "pci \<Rightarrow> pci \<Rightarrow> bool" where
  "same_table st st' \<longleftrightarrow> pci_devices st' = pci_devices st \<and> pci_num_devices st' = pci_num_devices st \<and> pci_rflags st' = pci_rflags st"

lemma same_table_refl [simp]: "same_table st st"
  by (simp add: same_table_def)

lemma same_table_trans [trans]: "same_table a b \<Longrightarrow> same_table b c \<Longrightarrow> same_table a c"
  by (simp add: same_table_def)

lemma pci_read_8_result:
  "config_space dev cfg8 cfg16 \<Longrightarrow> \<exists>st'. pci_read_8 dev n reg st = (cfg8 n reg, st') \<and> same_table st st'"
  using splx_splhi [of "pci_rflags st"]
  by (auto simp: pci_read_8_def Let_def same_table_def inb_def outl_def PCI_CONFIG_ADDR_def PCI_CONFIG_DATA_def config_space_def split: prod.splits)

lemma pci_read_16_result:
  "config_space dev cfg8 cfg16 \<Longrightarrow> \<exists>st'. pci_read_16 dev n reg st = (cfg16 n reg, st') \<and> same_table st st'"
  using splx_splhi [of "pci_rflags st"]
  by (auto simp: pci_read_16_def Let_def same_table_def inw_def outl_def PCI_CONFIG_ADDR_def PCI_CONFIG_DATA_def config_space_def split: prod.splits)

lemma pci_read_32_table: "\<exists>v st'. pci_read_32 dev n reg st = (v, st') \<and> same_table st st'"
  using splx_splhi [of "pci_rflags st"] by (auto simp: pci_read_32_def Let_def same_table_def inl_def split: prod.splits)

lemma pci_write_32_table: "same_table st (pci_write_32 n reg v st)"
  using splx_splhi [of "pci_rflags st"] by (auto simp: pci_write_32_def Let_def same_table_def split: prod.splits)

lemma pci_bar_size_table: "\<exists>v st'. pci_bar_size dev n bar st = (v, st') \<and> same_table st st'"
proof -
  let ?reg = "PCI_CONFIG_BAR_0 + bar * PCI_CONFIG_BAR_SIZE"
  obtain v st1 where 1: "pci_read_32 dev n ?reg st = (v, st1)" "same_table st st1" using pci_read_32_table by blast
  let ?st2 = "pci_write_32 n ?reg 0xFFFFFFFF st1"
  obtain w st3 where 3: "pci_read_32 dev n ?reg ?st2 = (w, st3)" "same_table ?st2 st3" using pci_read_32_table by blast
  note 1(2) also note pci_write_32_table also note 3(2) also note pci_write_32_table
  finally show ?thesis using 1(1) 3(1) by (simp add: pci_bar_size_def Let_def)
qed

lemma read_bars_result:
  assumes "length (pd_bars d) = PCI_MAX_BARS"
  shows "\<exists>bs st'. read_bars_loop dev n i (d, st) = Inr (d\<lparr>pd_bars := bs\<rparr>, st') \<and> length bs = PCI_MAX_BARS \<and> same_table st st'"
  using assms
proof (induction "PCI_MAX_BARS - i" arbitrary: i d st rule: less_induct)
  case less
  show ?case
  proof (cases "i < PCI_MAX_BARS")
    case True
    have step: "\<exists>bs st'. read_bars_loop dev n j (d\<lparr>pd_bars := bs0\<rparr>, st1) = Inr (d\<lparr>pd_bars := bs\<rparr>, st') \<and> length bs = PCI_MAX_BARS \<and> same_table st st'"
      if "i < j" "length bs0 = PCI_MAX_BARS" "same_table st st1" for j bs0 st1
    proof -
      have "PCI_MAX_BARS - j < PCI_MAX_BARS - i" using True that(1) by simp
      from less.hyps [OF this, of "d\<lparr>pd_bars := bs0\<rparr>" st1] that(2,3) show ?thesis using same_table_trans by fastforce
    qed
    obtain bar st1 where 1: "pci_read_32 dev n (PCI_CONFIG_BAR_0 + of_nat i * PCI_CONFIG_BAR_SIZE) st = (bar, st1)" "same_table st st1"
      using pci_read_32_table by blast
    obtain nb st2 where 2: "pci_read_32 dev n (PCI_CONFIG_BAR_0 + (of_nat i + 1) * PCI_CONFIG_BAR_SIZE) st1 = (nb, st2)" "same_table st1 st2"
      using pci_read_32_table by blast
    obtain z1 st3 where 3: "pci_bar_size dev n (of_nat i) st1 = (z1, st3)" "same_table st1 st3" using pci_bar_size_table by blast
    obtain z2 st4 where 4: "pci_bar_size dev n (of_nat i) st2 = (z2, st4)" "same_table st2 st4" using pci_bar_size_table by blast
    note t = 1(2) same_table_trans [OF 1(2) 3(2)] same_table_trans [OF same_table_trans [OF 1(2) 2(2)] 4(2)]
    have il: "i < length (pd_bars d)" using True less.prems by simp
    define b where "b = (pd_bars d ! i)\<lparr>pb_bar := bar\<rparr>"
    let ?b1 = "(pd_bars d)[i := b\<lparr>pb_pio_base := bar AND PCI_BAR_IO_MASK\<rparr>]"
    let ?b2 = "(pd_bars d)[i := b\<lparr>pb_mmio_base32 := bar AND PCI_BAR_MEM_MASK, pb_mmio_size := z1\<rparr>]"
    let ?b3 = "(pd_bars d)[i := b\<lparr>pb_mmio_base64 := push_bit 32 (ucast nb), pb_mmio_size := z2\<rparr>]"
    let ?b4 = "(pd_bars d)[i := b]"
    have eq: "read_bars_loop dev n i (d, st) =
        (if bar = 0 then read_bars_loop dev n (i + 1) (d\<lparr>pd_bars := pd_bars d\<rparr>, st1)
         else if bar AND PCI_BAR_IO \<noteq> 0 then read_bars_loop dev n (i + 1) (d\<lparr>pd_bars := ?b1\<rparr>, st1)
         else if bar AND PCI_MEMBAR_TYPE = PCI_MEMBAR_32_BIT then read_bars_loop dev n (i + 1) (d\<lparr>pd_bars := ?b2\<rparr>, st3)
         else if bar AND PCI_MEMBAR_TYPE = PCI_MEMBAR_64_BIT then read_bars_loop dev n (i + 2) (d\<lparr>pd_bars := ?b3\<rparr>, st4)
         else read_bars_loop dev n (i + 1) (d\<lparr>pd_bars := ?b4\<rparr>, st1))"
      using True il by (subst read_bars_loop.simps) (simp add: 1(1) 2(1) 3(1) 4(1) Let_def b_def)
    show ?thesis unfolding eq
      by (simp only: split: if_split, intro conjI impI; rule step) (use t less.prems in simp_all)
  next
    case False
    then show ?thesis using less.prems by (subst read_bars_loop.simps) (intro exI [of _ "pd_bars d"] exI [of _ st], simp)
  qed
qed

lemma pci_read_bars_result:
  assumes "length (pd_bars d) = PCI_MAX_BARS"
  shows "\<exists>bs st'. pci_read_bars dev (d, st) = Inr (d\<lparr>pd_bars := bs\<rparr>, st') \<and> length bs = PCI_MAX_BARS \<and> same_table st st'"
proof (cases "pd_header_type d = PCI_TYPE_GENERIC")
  case True
  then show ?thesis using read_bars_result [OF assms] by (simp add: pci_read_bars_def)
next
  case False
  then show ?thesis using assms by (intro exI [of _ "pd_bars d"] exI [of _ st]) (simp add: pci_read_bars_def)
qed

subsection \<open>Enumeration\<close>

text \<open>What the table records of a function besides its base address registers.\<close>

type_synonym pci_ident = "(u8 \<times> u8 \<times> u8) \<times> u8 \<times> (u16 \<times> u16) \<times> (u8 \<times> u8 \<times> u8) \<times> (u8 \<times> u8)"

definition ident :: "pci_device_t \<Rightarrow> pci_ident" where
  "ident d = ((pd_bus d, pd_dev d, pd_func d), pd_header_type d, (pd_vendor_id d, pd_device_id d),
     (pd_class d, pd_subclass d, pd_prog_intf d), (pd_int_line d, pd_int_pin d))"

definition func_ident :: "(u32 \<Rightarrow> u32 \<Rightarrow> u8) \<Rightarrow> (u32 \<Rightarrow> u32 \<Rightarrow> u16) \<Rightarrow> u32 \<Rightarrow> u32 \<Rightarrow> u32 \<Rightarrow> pci_ident" where
  "func_ident cfg8 cfg16 bus dev func =
     (let n = PCI_MAKE_ID bus dev func in
      ((ucast bus, ucast dev, ucast func), cfg8 (PCI_MAKE_ID bus dev 0) 0x0e AND 0x7F, (cfg16 n 0, cfg16 n 2),
       (cfg8 n 0x0b, cfg8 n 0x0a, cfg8 n 0x09), (cfg8 n 0x3c, cfg8 n 0x3d)))"

text \<open>The functions that exist, in the order of the bus.\<close>

definition func_list :: "(u32 \<Rightarrow> u32 \<Rightarrow> u8) \<Rightarrow> (u32 \<Rightarrow> u32 \<Rightarrow> u16) \<Rightarrow> u32 \<Rightarrow> u32 \<Rightarrow> u32 \<Rightarrow> pci_ident list" where
  "func_list cfg8 cfg16 bus dev func =
     (if cfg16 (PCI_MAKE_ID bus dev func) 0 = 0xFFFF then [] else [func_ident cfg8 cfg16 bus dev func])"

definition dev_list :: "(u32 \<Rightarrow> u32 \<Rightarrow> u8) \<Rightarrow> (u32 \<Rightarrow> u32 \<Rightarrow> u16) \<Rightarrow> u32 \<Rightarrow> u32 \<Rightarrow> pci_ident list" where
  "dev_list cfg8 cfg16 bus dev =
     concat (map (\<lambda>f. func_list cfg8 cfg16 bus dev (of_nat f))
       [0..<(if cfg8 (PCI_MAKE_ID bus dev 0) 0x0e AND 0x80 \<noteq> 0 then 8 else 1)])"

definition bus_list :: "(u32 \<Rightarrow> u32 \<Rightarrow> u8) \<Rightarrow> (u32 \<Rightarrow> u32 \<Rightarrow> u16) \<Rightarrow> u32 \<Rightarrow> pci_ident list" where
  "bus_list cfg8 cfg16 bus = concat (map (\<lambda>d. dev_list cfg8 cfg16 bus (of_nat d)) [0..<32])"

definition pci_list :: "(u32 \<Rightarrow> u32 \<Rightarrow> u8) \<Rightarrow> (u32 \<Rightarrow> u32 \<Rightarrow> u16) \<Rightarrow> pci_ident list" where
  "pci_list cfg8 cfg16 = concat (map (\<lambda>b. bus_list cfg8 cfg16 (of_nat b)) [0..<256])"

definition found :: "u64 \<Rightarrow> pci \<Rightarrow> pci_ident list \<Rightarrow> bool" where
  "found rf st fs \<longleftrightarrow> pci_rflags st = rf \<and> length (pci_devices st) = PCI_MAX_DEVICES \<and> length fs \<le> PCI_MAX_DEVICES \<and>
     unat (pci_num_devices st) = length fs \<and> map ident (take (length fs) (pci_devices st)) = fs \<and>
     (\<forall>d\<in>set (pci_devices st). length (pd_bars d) = PCI_MAX_BARS)"

lemma found_same: "found rf st fs \<Longrightarrow> same_table st st' \<Longrightarrow> found rf st' fs"
  by (simp add: found_def same_table_def)

text \<open>A loop whose rounds append pieces of a list.\<close>

lemma for_up_pieces:
  fixes b :: "'w::len word"
  assumes step: "\<And>i s fs rest. unat i < unat b \<Longrightarrow> Q s fs \<Longrightarrow> fs @ piece i @ rest = whole \<Longrightarrow> \<exists>s'. body i s = Inr s' \<and> Q s' (fs @ piece i)"
    and "Q s fs" and "fs @ concat (map (\<lambda>i. piece (of_nat i)) [0..<unat b]) @ rest = whole"
  shows "\<exists>s'. for_up 0 b body s = Inr s' \<and> Q s' (fs @ concat (map (\<lambda>i. piece (of_nat i)) [0..<unat b]))"
proof -
  let ?p = "\<lambda>k. concat (map (\<lambda>i. piece (of_nat i)) [0..<k])"
  have "\<exists>s'. for_up 0 b body s = Inr s' \<and> Q s' (fs @ ?p (unat b))"
  proof (rule for_up_rule [where P = "\<lambda>i t. Q t (fs @ ?p (unat i))"], goal_cases)
    case (3 i t)
    have il: "unat i < unat b" using 3(2) by (simp add: unat_less_iff)
    have un: "unat (i + 1) = Suc (unat i)" by (rule unat_plus1 [OF 3(2)])
    have "[0..<unat b] = [0..<unat i] @ unat i # [Suc (unat i)..<unat b]" 
      using upt_add_eq_append [of 0 "unat i" "unat b - unat i"] il by (simp add: upt_conv_Cons)
    then have "?p (unat b) = ?p (unat i) @ piece i @ concat (map (\<lambda>i. piece (of_nat i)) [Suc (unat i)..<unat b])" by simp
    then have "(fs @ ?p (unat i)) @ piece i @ (concat (map (\<lambda>i. piece (of_nat i)) [Suc (unat i)..<unat b]) @ rest) = whole"
      using assms(3) by simp
    from step [OF il 3(3) this] show ?case by (simp add: un)
  qed (use assms(2) in simp_all)
  then show ?thesis .
qed

lemma probe_func_result:
  assumes cs: "config_space dv cfg8 cfg16" and f: "found rf st fs" and b: "length (fs @ func_list cfg8 cfg16 bus dev func) \<le> PCI_MAX_DEVICES"
  shows "\<exists>st'. probe_func dv bus dev (cfg8 (PCI_MAKE_ID bus dev 0) 0x0e) func st = Inr st' \<and> found rf st' (fs @ func_list cfg8 cfg16 bus dev func)"
proof -
  let ?n = "PCI_MAKE_ID bus dev func"
  obtain st1 where 1: "pci_read_16 dv ?n PCI_CONFIG_VENDOR_ID st = (cfg16 ?n 0, st1)" "same_table st st1"
    using pci_read_16_result [OF cs, of ?n PCI_CONFIG_VENDOR_ID st] by (auto simp: PCI_CONFIG_VENDOR_ID_def)
  show ?thesis
  proof (cases "cfg16 ?n 0 = 0xFFFF")
    case True
    then show ?thesis using 1 found_same [OF f 1(2)] by (simp add: probe_func_def func_list_def Let_def)
  next
    case False
    let ?st = "st1\<lparr>pci_num_devices := pci_num_devices st1 + 1\<rparr>" and ?k = "length fs"
    have f1: "found rf st1 fs" by (rule found_same [OF f 1(2)])
    have k: "?k < PCI_MAX_DEVICES" using b False by (simp add: func_list_def)
    have slot: "unat (pci_num_devices st1) = ?k" "?k < length (pci_devices st1)" using f1 k by (simp_all add: found_def)
    have un: "unat (pci_num_devices st1 + 1) = Suc ?k" using slot k by (subst unat_plus_lt) (simp_all add: PCI_MAX_DEVICES_def)
    obtain st2 where 2: "pci_read_16 dv ?n PCI_CONFIG_DEVICE_ID ?st = (cfg16 ?n 2, st2)" "same_table ?st st2"
      using pci_read_16_result [OF cs, of ?n PCI_CONFIG_DEVICE_ID ?st] by (auto simp: PCI_CONFIG_DEVICE_ID_def)
    obtain st3 where 3: "pci_read_8 dv ?n PCI_CONFIG_CLASS_CODE st2 = (cfg8 ?n 0x0b, st3)" "same_table st2 st3"
      using pci_read_8_result [OF cs, of ?n PCI_CONFIG_CLASS_CODE st2] by (auto simp: PCI_CONFIG_CLASS_CODE_def)
    obtain st4 where 4: "pci_read_8 dv ?n PCI_CONFIG_SUBCLASS st3 = (cfg8 ?n 0x0a, st4)" "same_table st3 st4"
      using pci_read_8_result [OF cs, of ?n PCI_CONFIG_SUBCLASS st3] by (auto simp: PCI_CONFIG_SUBCLASS_def)
    obtain st5 where 5: "pci_read_8 dv ?n PCI_CONFIG_PROG_INTF st4 = (cfg8 ?n 0x09, st5)" "same_table st4 st5"
      using pci_read_8_result [OF cs, of ?n PCI_CONFIG_PROG_INTF st4] by (auto simp: PCI_CONFIG_PROG_INTF_def)
    obtain st6 where 6: "pci_read_8 dv ?n PCI_CONFIG_INTERRUPT_LINE st5 = (cfg8 ?n 0x3c, st6)" "same_table st5 st6"
      using pci_read_8_result [OF cs, of ?n PCI_CONFIG_INTERRUPT_LINE st5] by (auto simp: PCI_CONFIG_INTERRUPT_LINE_def)
    obtain st7 where 7: "pci_read_8 dv ?n PCI_CONFIG_INTERRUPT_PIN st6 = (cfg8 ?n 0x3d, st7)" "same_table st6 st7"
      using pci_read_8_result [OF cs, of ?n PCI_CONFIG_INTERRUPT_PIN st6] by (auto simp: PCI_CONFIG_INTERRUPT_PIN_def)
    define d where "d = (pci_devices st1 ! ?k)\<lparr>pd_bus := ucast bus, pd_dev := ucast dev, pd_func := ucast func,
      pd_header_type := cfg8 (PCI_MAKE_ID bus dev 0) 0x0e AND 0x7F, pd_vendor_id := cfg16 ?n 0, pd_device_id := cfg16 ?n 2,
      pd_class := cfg8 ?n 0x0b, pd_subclass := cfg8 ?n 0x0a, pd_prog_intf := cfg8 ?n 0x09, pd_int_line := cfg8 ?n 0x3c, pd_int_pin := cfg8 ?n 0x3d\<rparr>"
    have "length (pd_bars d) = PCI_MAX_BARS" using f1 slot(2) by (simp add: d_def found_def)
    from pci_read_bars_result [OF this, of dv st7] obtain bs st8 where
      8: "pci_read_bars dv (d, st7) = Inr (d\<lparr>pd_bars := bs\<rparr>, st8)" "length bs = PCI_MAX_BARS" "same_table st7 st8" by blast
    note 2(2) also note 3(2) also note 4(2) also note 5(2) also note 6(2) also note 7(2) also note 8(3)
    finally have t: "pci_devices st8 = pci_devices st1" "pci_num_devices st8 = pci_num_devices st1 + 1" "pci_rflags st8 = rf"
      using f1 by (simp_all add: same_table_def found_def)
    let ?st' = "st8\<lparr>pci_devices := (pci_devices st1)[?k := d\<lparr>pd_bars := bs\<rparr>]\<rparr>"
    have "probe_func dv bus dev (cfg8 (PCI_MAKE_ID bus dev 0) 0x0e) func st = Inr ?st'"
      using slot False by (simp add: probe_func_def Let_def 1(1) 2(1) 3(1) 4(1) 5(1) 6(1) 7(1) 8(1) t pci_read_caps_def flip: d_def)
    moreover have "ident (d\<lparr>pd_bars := bs\<rparr>) = func_ident cfg8 cfg16 bus dev func"
      by (simp add: ident_def d_def func_ident_def Let_def)
    then have "found rf ?st' (fs @ [func_ident cfg8 cfg16 bus dev func])"
      using f1 slot k un t 8(2) by (auto simp: found_def take_Suc_conv_app_nth dest!: set_update_subset_insert [THEN subsetD])
    ultimately show ?thesis using False by (simp add: func_list_def)
  qed
qed

lemma probe_dev_result:
  assumes cs: "config_space dv cfg8 cfg16" and f: "found rf st fs" and w: "fs @ dev_list cfg8 cfg16 bus dev @ rest = whole"
    and len: "length whole \<le> PCI_MAX_DEVICES"
  shows "\<exists>st'. probe_dev dv bus dev st = Inr st' \<and> found rf st' (fs @ dev_list cfg8 cfg16 bus dev)"
proof -
  let ?h = "cfg8 (PCI_MAKE_ID bus dev 0) 0x0e"
  obtain st1 where 1: "pci_read_8 dv (PCI_MAKE_ID bus dev 0) PCI_CONFIG_HEADER_TYPE st = (?h, st1)" "same_table st st1"
    using pci_read_8_result [OF cs, of "PCI_MAKE_ID bus dev 0" PCI_CONFIG_HEADER_TYPE st] by (auto simp: PCI_CONFIG_HEADER_TYPE_def)
  let ?nf = "if ?h AND PCI_TYPE_MULTIFUNC \<noteq> 0 then PCI_MAX_FUNC else 1"
  have nf: "unat ?nf = (if ?h AND 0x80 \<noteq> 0 then 8 else 1)" by (simp add: PCI_TYPE_MULTIFUNC_def PCI_MAX_FUNC_def)
  have "\<exists>st'. for_up 0 ?nf (probe_func dv bus dev ?h) st1 = Inr st' \<and>
      found rf st' (fs @ concat (map (\<lambda>i. func_list cfg8 cfg16 bus dev (of_nat i)) [0..<unat ?nf]))"
    by (rule for_up_pieces [where Q = "found rf" and rest = rest and whole = whole])
      (use found_same [OF f 1(2)] w len nf in \<open>auto simp: dev_list_def intro!: probe_func_result [OF cs]\<close>)
  then show ?thesis using 1(1) nf by (simp add: probe_dev_def Let_def dev_list_def)
qed


text \<open>A machine with one function, at bus 0, device 0.\<close>

definition one_cfg :: "u32 \<Rightarrow> u32 \<Rightarrow> u16" where
  "one_cfg n reg = (if config_addr n reg = 0x80000000 then 0x8086 else 0xFFFF)"

definition one_machine :: device where
  "one_machine io ev = (case ev of In16 _ \<Rightarrow> (if io \<noteq> [] \<and> last io = Out32 0xcf8 0x80000000 then 0x8086 else 0xFFFF) | _ \<Rightarrow> 0)"

lemma one_machine_config: "config_space one_machine (\<lambda>_ _. 0) one_cfg"
  by (simp add: config_space_def one_machine_def one_cfg_def)

lemma one_cfg_make_id:
  assumes "b < 256" and "d < 32"
  shows "one_cfg (PCI_MAKE_ID (of_nat b) (of_nat d) 0) 0 = (if b = 0 \<and> d = 0 then 0x8086 else 0xFFFF)"
proof -
  have ub: "unat (push_bit 16 (of_nat b :: u32)) = b * 65536" "unat (push_bit 11 (of_nat d :: u32)) = d * 2048"
    using assms by (subst unat_push_bit_lt; simp add: unat_of_nat_lt)+
  let ?n = "PCI_MAKE_ID (of_nat b) (of_nat d) 0"
  have "(?n = 0) = (push_bit 16 (of_nat b :: u32) = 0 \<and> push_bit 11 (of_nat d :: u32) = 0)" by (simp add: PCI_MAKE_ID_def or_eq_0_iff)
  also have "\<dots> = (b = 0 \<and> d = 0)" using ub by (metis mult_eq_0_iff unat_eq_zero zero_neq_numeral)
  finally have z: "(?n = 0) = (b = 0 \<and> d = 0)" .
  have "\<not> bit (of_nat k :: u32) j" if "k < 2 ^ j" for k j using that by (simp only: bit_of_nat_iff) (simp add: bit_iff_odd)
  from this [of b 15] this [of d 20] have b31: "\<not> bit ?n 31" using assms by (simp add: PCI_MAKE_ID_def bit_simps)
  have c0: "config_addr ?n 0 = 0x80000000 OR ?n" by (simp add: config_addr_def)
  have "?n = 0" if e: "0x80000000 OR ?n = 0x80000000"
  proof (rule bit_word_eqI)
    fix i assume i: "i < LENGTH(32)"
    have "bit (0x80000000 :: u32) i = bit (2 ^ 31 :: u32) i" by simp
    then have p: "bit (0x80000000 :: u32) i = (i = 31)" by (simp only: bit_exp_iff) (use i in auto)
    have "bit (0x80000000 OR ?n) i = bit (0x80000000 :: u32) i" by (simp only: e)
    then have "bit ?n i \<longrightarrow> i = 31" unfolding bit_or_iff p by blast
    then show "bit ?n i = bit 0 i" using b31 by auto
  qed
  then have "(config_addr ?n 0 = 0x80000000) = (?n = 0)" unfolding c0 by auto
  then show ?thesis using z by (simp add: one_cfg_def)
qed

lemma one_machine_list:
  "pci_list (\<lambda>_ _. 0) one_cfg = [func_ident (\<lambda>_ _. 0) one_cfg 0 0 0]"
proof -
  have dl: "dev_list (\<lambda>_ _. 0) one_cfg (of_nat b) (of_nat d) = (if b = 0 \<and> d = 0 then [func_ident (\<lambda>_ _. 0) one_cfg 0 0 0] else [])"
    if "b < 256" "d < 32" for b d using one_cfg_make_id [OF that] by (simp add: dev_list_def func_list_def)
  have up: "[0..<32] = (0 :: nat) # [1..<32]" "[0..<256] = (0 :: nat) # [1..<256]" by (simp_all add: upt_conv_Cons)
  have bl: "bus_list (\<lambda>_ _. 0) one_cfg (of_nat b) = (if b = 0 then [func_ident (\<lambda>_ _. 0) one_cfg 0 0 0] else [])" if "b < 256" for b
  proof -
    have "concat (map (\<lambda>d. dev_list (\<lambda>_ _. 0) one_cfg (of_nat b) (of_nat d)) [1..<32]) = []" using dl that by simp
    then show ?thesis unfolding bus_list_def up(1) using dl [OF that, of 0] by simp
  qed
  have "concat (map (\<lambda>b. bus_list (\<lambda>_ _. 0) one_cfg (of_nat b)) [1..<256]) = []" using bl by simp
  then show ?thesis unfolding pci_list_def up(2) using bl [of 0] by simp
qed

definition empty_pci :: pci where
  "empty_pci = \<lparr>pci_devices = replicate 32 \<lparr>pd_bus = 0, pd_dev = 0, pd_func = 0, pd_header_type = 0, pd_vendor_id = 0, pd_device_id = 0,
     pd_class = 0, pd_subclass = 0, pd_prog_intf = 0, pd_int_line = 0, pd_int_pin = 0, pd_num_bars = 0, pd_num_caps = 0,
     pd_bars = replicate 6 \<lparr>pb_bar = 0, pb_pio_base = 0, pb_mmio_size = 0, pb_mmio_base32 = 0, pb_mmio_base64 = 0\<rparr>,
     pd_caps = replicate 16 0\<rparr>, pci_num_devices = 0, pci_io = [], pci_rflags = 0x202\<rparr>"


subsection \<open>Double-word reads\<close>

text \<open>
  \<^verbatim>\<open>pci_read_32\<close> adds the whole register number to the data port. For every register but the first it reads a
  port outside the four-byte data window, so base address registers are not read.
\<close>

lemma pci_read_32_port:
  "\<exists>st'. pci_read_32 dev n reg st = (dev (pci_io st @ [Out32 0xcf8 (config_addr n reg)]) (In32 (ucast (0xcfc + reg))), st')"
  by (simp add: pci_read_32_def Let_def inl_def outl_def PCI_CONFIG_ADDR_def PCI_CONFIG_DATA_def split: prod.splits)

end
