(* ===== verification/Boot.thy ===== *)
theory Boot
  imports Terminal Multiboot Acpi Console Pci VmCache
begin

text \<open>
  The start of the kernel, \<^verbatim>\<open>kernel_main\<close> of \<^verbatim>\<open>main.c\<close>: the components put together in the order the code
  initialises them. \<open>machine\<close> is all their state; \<open>boot_env\<close> is what the kernel finds: the memory with the
  tables of the firmware, the contents of the memory the page descriptors are placed in, the font, the addresses
  of code, the devices, and the clocks that other processors and the timer advance. Messages are left out.
\<close>

record boot_env =
  be_end :: u64
  be_memory :: bmem
  be_pages :: "page_desc_t list"
  be_entries :: entry_points
  be_dev :: device
  be_tclk :: "nat \<Rightarrow> u64"
  be_clk :: "nat \<Rightarrow> nat \<Rightarrow> u64"
  be_online :: "nat \<Rightarrow> u32"
  be_isr_ret :: u64
  be_thread_start :: u64
  be_test_thread :: u64
  be_kterm_run :: u64

record machine =
  mc_kernel :: kernel
  mc_console :: console
  mc_page_db_addr :: u64
  mc_page_db :: page_db_t
  mc_cache :: vm_cache
  mc_pci :: pci
  mc_kterm :: kterm
  mc_cond_lock :: u32
  mc_cond_test :: condition_t

text \<open>The memory allocator's state is shared by threads and the page cache; \<^verbatim>\<open>kstate\<close> is inside it.\<close>

definition mc_kstate :: "machine \<Rightarrow> kstate" where
  "mc_kstate m = sys_kernel (kn_sys (mc_kernel m))"

definition put_kstate :: "kstate \<Rightarrow> machine \<Rightarrow> machine" where
  "put_kstate ks m = m\<lparr>mc_kernel := (mc_kernel m)\<lparr>kn_sys := put_sys_kernel ks (kn_sys (mc_kernel m))\<rparr>\<rparr>"

definition put_km :: "kmalloc_state \<Rightarrow> machine \<Rightarrow> machine" where
  "put_km km m = m\<lparr>mc_kernel := (mc_kernel m)\<lparr>kn_sys := (kn_sys (mc_kernel m))\<lparr>sy_km := km\<rparr>\<rparr>\<rparr>"

definition mc_put_io :: "history \<Rightarrow> machine \<Rightarrow> machine" where
  "mc_put_io io m = m\<lparr>mc_kernel := (mc_kernel m)\<lparr>kn_apics := (kn_apics (mc_kernel m))\<lparr>ap_io := io\<rparr>\<rparr>\<rparr>"

definition mc_io :: "machine \<Rightarrow> history" where
  "mc_io m = ap_io (kn_apics (mc_kernel m))"

subsection \<open>The steps\<close>

definition boot_console :: "machine \<Rightarrow> machine outcome" where
  "boot_console m =
     rbind (console_init (ks_boot (mc_kstate m)) (ks_vm (mc_kstate m)) (mc_console m)) (\<lambda>(vm, con).
     Inr ((put_kstate ((mc_kstate m)\<lparr>ks_vm := vm\<rparr>) m)\<lparr>mc_console := con\<rparr>))"

definition boot_page_db :: "boot_env \<Rightarrow> machine \<Rightarrow> machine outcome" where
  "boot_page_db env m =
     rbind (vm_page_init (be_pages env) (mc_kstate m)) (\<lambda>(addr, pdb, ks).
     Inr ((put_kstate ks m)\<lparr>mc_page_db_addr := addr, mc_page_db := pdb\<rparr>))"

definition boot_hash :: "machine \<Rightarrow> machine outcome" where
  "boot_hash m =
     rbind (vm_hash_init (mc_page_db m) ((mc_cache m)\<lparr>vc_km := sy_km (kn_sys (mc_kernel m))\<rparr>)) (\<lambda>c.
     Inr ((put_km (vc_km c) m)\<lparr>mc_cache := c\<rparr>))"

definition boot_gates :: "boot_env \<Rightarrow> machine \<Rightarrow> machine outcome" where
  "boot_gates env m =
     rbind (cpu_boot_init (be_entries env) (kn_gates (mc_kernel m))) (\<lambda>g.
     Inr (m\<lparr>mc_kernel := (mc_kernel m)\<lparr>kn_gates := g\<rparr>\<rparr>))"

definition boot_timers :: "machine \<Rightarrow> machine" where
  "boot_timers m = mc_put_io (pit_init (pic_init (mc_io m))) m"

definition boot_acpi :: "boot_env \<Rightarrow> machine \<Rightarrow> machine outcome option" where
  "boot_acpi env m =
     map_option (\<lambda>r. rbind r (\<lambda>(_, vm, ap).
       let m = put_kstate ((mc_kstate m)\<lparr>ks_vm := vm\<rparr>) m in
       Inr (m\<lparr>mc_kernel := (mc_kernel m)\<lparr>kn_apics := ap\<rparr>\<rparr>)))
       (acpi_init (be_memory env) (ks_vm (mc_kstate m), kn_apics (mc_kernel m)))"

definition boot_kmalloc :: "machine \<Rightarrow> machine outcome" where
  "boot_kmalloc m = rbind (kmalloc_init (sy_km (kn_sys (mc_kernel m)))) (\<lambda>km. Inr (put_km km m))"

definition boot_sync :: "machine \<Rightarrow> machine outcome" where
  "boot_sync m = rbind (vm_boot_sync (ks_vm (mc_kstate m)) (mc_page_db m)) (\<lambda>pdb. Inr (m\<lparr>mc_page_db := pdb\<rparr>))"

definition boot_cpus :: "boot_env \<Rightarrow> machine \<Rightarrow> machine outcome" where
  "boot_cpus env m =
     rbind (sched_init (kn_sys (mc_kernel m))) (\<lambda>st.
     rbind (cpu_init (be_entries env) (be_dev env) (be_tclk env) (be_clk env) (be_online env) ((mc_kernel m)\<lparr>kn_sys := st\<rparr>)) (\<lambda>k.
     Inr (m\<lparr>mc_kernel := k\<rparr>)))"

definition boot_keyboard :: "boot_env \<Rightarrow> machine \<Rightarrow> machine outcome" where
  "boot_keyboard env m =
     (let k = mc_kernel m in
      rbind (kbd_8042_init (be_entries env) (be_dev env) (kn_kbd k) (sy_rflags (kn_sys k)) (kn_gates k) (kn_apics k)) (\<lambda>(kbd, rflags, g, ap).
      Inr (m\<lparr>mc_kernel := k\<lparr>kn_kbd := kbd, kn_gates := g, kn_apics := ap, kn_sys := (kn_sys k)\<lparr>sy_rflags := rflags\<rparr>\<rparr>\<rparr>)))"

text \<open>The test thread is created and its id is read for a message.\<close>

definition boot_test :: "boot_env \<Rightarrow> machine \<Rightarrow> machine outcome" where
  "boot_test env m =
     (let m = m\<lparr>mc_cond_lock := spinlock_init (mc_cond_lock m), mc_cond_test := cond_init (mc_cond_test m)\<rparr> in
      rbind (thread_create (be_isr_ret env) (be_thread_start env) (be_test_thread env) 0x1000 1 (kn_sys (mc_kernel m))) (\<lambda>(t, st).
      rbind (get_thread t st) (\<lambda>_.
      Inr (m\<lparr>mc_kernel := (mc_kernel m)\<lparr>kn_sys := st\<rparr>\<rparr>))))"

definition boot_pci :: "boot_env \<Rightarrow> machine \<Rightarrow> machine outcome" where
  "boot_pci env m =
     (let k = mc_kernel m in
      rbind (pci_init (be_dev env) ((mc_pci m)\<lparr>pci_io := mc_io m, pci_rflags := sy_rflags (kn_sys k)\<rparr>)) (\<lambda>p.
      let m = mc_put_io (pci_io p) (m\<lparr>mc_pci := p\<rparr>) in
      Inr (m\<lparr>mc_kernel := (mc_kernel m)\<lparr>kn_sys := (kn_sys (mc_kernel m))\<lparr>sy_rflags := pci_rflags p\<rparr>\<rparr>\<rparr>)))"

definition boot_kterm :: "boot_env \<Rightarrow> machine \<Rightarrow> machine outcome" where
  "boot_kterm env m =
     rbind (kterm_start (be_isr_ret env) (be_thread_start env) (be_kterm_run env) (mc_kterm m) (mc_kernel m)) (\<lambda>(kt, k).
     Inr (m\<lparr>mc_kterm := kt, mc_kernel := k\<rparr>))"

text \<open>Sequencing of steps that may also not return.\<close>

definition obind :: "'a outcome option \<Rightarrow> ('a \<Rightarrow> 'b outcome option) \<Rightarrow> 'b outcome option" where
  "obind r f = (case r of None \<Rightarrow> None | Some (Inl e) \<Rightarrow> Some (Inl e) | Some (Inr x) \<Rightarrow> f x)"

definition boot_late :: "boot_env \<Rightarrow> machine \<Rightarrow> machine outcome" where
  "boot_late env m =
     rbind (boot_kmalloc m) (\<lambda>m.
     rbind (boot_sync m) (\<lambda>m.
     rbind (boot_cpus env m) (\<lambda>m.
     rbind (boot_keyboard env m) (\<lambda>m.
     rbind (boot_test env m) (\<lambda>m.
     rbind (boot_pci env m) (\<lambda>m.
     boot_kterm env m))))))"

definition boot_early :: "boot_env \<Rightarrow> machine \<Rightarrow> machine outcome" where
  "boot_early env m =
     rbind (boot_console m) (\<lambda>m.
     rbind (boot_page_db env m) (\<lambda>m.
     rbind (boot_hash m) (\<lambda>m.
     rbind (boot_gates env m) (\<lambda>m.
     Inr (boot_timers m)))))"

text \<open>The flag tells that the kernel was started; without boot information \<^verbatim>\<open>kernel_main\<close> returns at once.\<close>

definition kernel_main :: "boot_env \<Rightarrow> machine \<Rightarrow> (bool \<times> machine) outcome option" where
  "kernel_main env m =
     (let m = put_kstate (kernel_init (be_end env) (mc_kstate m)) m;
          m = put_kstate ((mc_kstate m)\<lparr>ks_vm := vm_boot_init (ks_vm (mc_kstate m))\<rparr>) m in
      obind (multiboot_init (be_memory env) (ks_boot (mc_kstate m))) (\<lambda>(ok, bi).
      let m = put_kstate ((mc_kstate m)\<lparr>ks_boot := bi\<rparr>) m in
      if \<not> ok then Some (Inr (False, m))
      else
        obind (Some (boot_early env m)) (\<lambda>m.
        obind (boot_acpi env m) (\<lambda>m.
        Some (rbind (boot_late env m) (\<lambda>m. Inr (True, m)))))))"

subsection \<open>The test thread\<close>

text \<open>
  \<^verbatim>\<open>test_thread\<close> up to its sleep, after which it loops for ever: it reads its processor and thread number under the
  lock of the processor, lists the threads and sleeps.
\<close>

definition test_thread :: "system \<Rightarrow> ((u32 \<times> u32) \<times> (u32 \<times> u64) list \<times> bool \<times> system) outcome" where
  "test_thread st =
     rbind (cpu_lock_splhi st) (\<lambda>(c, st).
     rbind (arr_get (sy_cpus st) c) (\<lambda>cpu.
     rbind (get_thread (cd_cur_thread cpu) st) (\<lambda>t.
     rbind (cpu_unlock_splx c st) (\<lambda>st.
     rbind (sched_dump st) (\<lambda>(out, st).
     rbind (sched_sleep 5000 st) (\<lambda>(switched, st).
     Inr ((cd_apic_id cpu, th_id t), out, switched, st)))))))"

subsection \<open>Memory at boot\<close>

lemma apply_tags_slack:
  "bi_kernel_slack (fold apply_tag ts bi) = bi_kernel_slack bi \<and> bi_kernel_top (fold apply_tag ts bi) = bi_kernel_top bi"
proof (induction ts arbitrary: bi)
  case (Cons t ts)
  have "bi_kernel_slack (apply_tag t bi) = bi_kernel_slack bi \<and> bi_kernel_top (apply_tag t bi) = bi_kernel_top bi" by (cases t) simp_all
  then show ?case using Cons [of "apply_tag t bi"] by simp
qed simp

lemma PAGE_2M_NUM_nth_page: "m \<le> 512 \<Longrightarrow> unat (PAGE_2M_NUM (nth_page 0 m)) = m"
proof -
  assume m: "m \<le> 512"
  have "unat (nth_page 0 m + (PAGE_2M_SIZE - 1)) = m * 2 ^ 21 + (2 ^ 21 - 1)"
    using m unat_top_page [OF m] by (subst unat_plus_lt) (simp_all add: PAGE_2M_SIZE_def PAGE_2M_SHIFT_def)
  then show ?thesis by (simp add: PAGE_2M_NUM_def unat_drop_bit PAGE_2M_SHIFT_def)
qed

lemma page_db_init_result:
  assumes "unat (nr :: u32) = unat (PAGE_2M_NUM reserved_size)" and "unat (np :: u32) = unat memory_size div 2 ^ 21"
    and "0 < unat nr" and "unat nr < 2 ^ 16" and "unat nr < unat np" and "unat np \<le> length (pdb_pages pdb)"
  shows "\<exists>pdb'. page_db_init pdb memory_size reserved_size = Inr pdb' \<and> pdb_invar pdb' \<and> free_pages pdb' = map of_nat [unat nr..<unat np]"
proof -
  have "unat (ucast (PAGE_2M_NUM reserved_size) :: u32) = unat nr" using assms(1,4) by (subst unat_ucast_down) simp_all
  then have nr: "(ucast (PAGE_2M_NUM reserved_size) :: u32) = nr" by (simp only: unat_eq_iff)
  have "unat (drop_bit PAGE_2M_SHIFT memory_size) = unat np" using assms(2) by (simp add: unat_drop_bit PAGE_2M_SHIFT_def)
  then have "unat (ucast (drop_bit PAGE_2M_SHIFT memory_size) :: u32) = unat np"
    using unsigned_less [of np, where 'a = nat] by (subst unat_ucast_down) simp_all
  then have np: "(ucast (drop_bit PAGE_2M_SHIFT memory_size) :: u32) = np" by (simp only: unat_eq_iff)
  let ?pdb = "pdb\<lparr>pdb_page_index := 0, pdb_num_pages := np, pdb_num_free := np - nr, pdb_num_reserved := ucast nr, pdb_flags := 0, pdb_lock := 0\<rparr>"
  have "unat (ucast nr :: u16) = unat nr" using assms(4) by (subst unat_ucast_down) simp_all
  then show ?thesis using init_pages_invar [of nr np ?pdb] assms(3,5,6) by (auto simp: page_db_init_def Let_def nr np)
qed

lemma vm_page_init_result:
  assumes ok: "slack_ok ks" and pos: "0 < unat (bi_kernel_slack (ks_boot ks))"
    and n: "512 < n" "n < 2 ^ 32" "n \<le> length mem" "n = unat (bi_mmap_top (ks_boot ks)) div 2 ^ 21"
    and fit: "round_up (unat (bi_kernel_slack (ks_boot ks))) 16 + unat (page_db_calc_size (bi_mmap_top (ks_boot ks))) \<le> 2 ^ 30"
  shows "\<exists>p pdb ks'. vm_page_init mem ks = Inr (KERNEL_VADDR p, pdb, ks') \<and> slack_ok ks' \<and> pdb_invar pdb \<and>
    free_pages pdb = map of_nat [unat (bi_kernel_top (ks_boot ks')) div 2 ^ 21..<n] \<and>
    bi_kernel_slack (ks_boot ks) \<le> p \<and> unat p + unat (page_db_calc_size (bi_mmap_top (ks_boot ks))) \<le> unat (bi_kernel_top (ks_boot ks'))"
proof -
  let ?sz = "page_db_calc_size (bi_mmap_top (ks_boot ks))"
  have f: "round_up (unat (bi_kernel_slack (ks_boot ks))) (2 ^ 4) + unat (ucast ?sz :: u64) \<le> 2 ^ 30" using fit by simp
  have "(4 :: nat) \<le> 30" by simp
  from kernel_slack_alloc_result [OF ok this f] obtain p ks' where
    a: "kernel_slack_alloc (ucast ?sz) 16 ks = Inr (KERNEL_VADDR p, ks')" "slack_ok ks'" "bi_kernel_slack (ks_boot ks) \<le> p"
      "unat (bi_kernel_slack (ks_boot ks')) = unat p + unat ?sz" by auto
  obtain k where k: "k \<le> 512" "bi_kernel_top (ks_boot ks') = nth_page 0 k" "bi_kernel_slack (ks_boot ks') \<le> bi_kernel_top (ks_boot ks')"
    using a(2) by (auto simp: slack_ok_def)
  have top: "unat (bi_kernel_top (ks_boot ks')) = k * 2 ^ 21" using k(1,2) unat_top_page by simp
  have "0 < unat (bi_kernel_top (ks_boot ks'))" using pos a(3,4) k(3) by (simp add: unat_le_iff)
  then have "0 < k" using top by simp
  moreover have "unat (of_nat k :: u32) = k" "unat (of_nat n :: u32) = n" using k(1) n(2) by (simp_all add: unat_of_nat_lt)
  ultimately obtain pdb where "page_db_init \<lparr>pdb_page_index = 0, pdb_num_pages = 0, pdb_num_free = 0, pdb_free_list = 0,
      pdb_lock = 0, pdb_num_reserved = 0, pdb_flags = 0, pdb_pages = mem\<rparr> (bi_mmap_top (ks_boot ks)) (bi_kernel_top (ks_boot ks')) = Inr pdb"
    "pdb_invar pdb" "free_pages pdb = map of_nat [k..<n]"
    using page_db_init_result [of "of_nat k" "bi_kernel_top (ks_boot ks')" "of_nat n" "bi_mmap_top (ks_boot ks)"
        "\<lparr>pdb_page_index = 0, pdb_num_pages = 0, pdb_num_free = 0, pdb_free_list = 0, pdb_lock = 0, pdb_num_reserved = 0, pdb_flags = 0, pdb_pages = mem\<rparr>"]
      PAGE_2M_NUM_nth_page [OF k(1)] k(1,2) n by auto
  then show ?thesis using a k(3) top by (auto simp: vm_page_init_def Let_def unat_le_iff)
qed


definition demo_kstate :: kstate where
  "demo_kstate = \<lparr>ks_boot = demo_boot_info\<lparr>bi_kernel_top := nth_page 0 1, bi_kernel_slack := 0x123456\<rparr>, ks_vm = boot_vm 1, ks_slack_lock = 0\<rparr>"

definition demo_large_tags :: "mb_tag list" where
  "demo_large_tags = [Mmap [(0, 0x9fc00, 1), (0x100000, 0x4FF00000, 1)]]"

lemma demo_kstate_ok: "slack_ok demo_kstate"
  by (rule slack_boot_ok [of 1]) (simp_all add: demo_kstate_def nth_page_def PAGE_2M_SIZE_def PAGE_2M_SHIFT_def)


end
