(* ===== verification/Spec2Isabelle.thy ===== *)
theory Spec2Isabelle
  imports PageDb CString Printf Spinlock VmBoot Slab Kmalloc Intrusive Threads Sched Sync Ports Apic Gates Keyboard Smp VmCache Terminal
    Imps Multiboot Acpi Font Console Pci Ata Boot
begin

text \<open>
  Verification of \<^verbatim>\<open>smor\<close>, a small multiprocessor kernel for x86-64 written in C (sources under \<^verbatim>\<open>src/src\<close>).

  \<^bold>\<open>The program.\<close> \<^verbatim>\<open>boot.S\<close> enters 64-bit mode with the first pages mapped and calls \<^verbatim>\<open>kernel_main\<close>
  (\<^verbatim>\<open>main.c\<close>). It reads the boot information (\<^verbatim>\<open>multiboot.c\<close>), sets up the console, places the page database
  (\<^verbatim>\<open>vm_page.c\<close>) behind the kernel in slack memory (\<^verbatim>\<open>kernel.c\<close>, \<^verbatim>\<open>vm_boot.c\<close>), the page hash (\<^verbatim>\<open>vm_cache.c\<close>),
  descriptor tables (\<^verbatim>\<open>cpu.c\<close>), the old interrupt controllers and the timer (\<^verbatim>\<open>pic.c\<close>, \<^verbatim>\<open>pit.c\<close>), finds processors and
  interrupt controllers in the ACPI tables (\<^verbatim>\<open>acpi.c\<close>), initialises the allocators (\<^verbatim>\<open>slab.c\<close>, \<^verbatim>\<open>kmalloc.c\<close>), starts the
  other processors (\<^verbatim>\<open>cpu.c\<close>, \<^verbatim>\<open>local_apic.c\<close>, \<^verbatim>\<open>io_apic.c\<close>) and the keyboard (\<^verbatim>\<open>kbd_8042.c\<close>), enumerates the PCI bus
  (\<^verbatim>\<open>pci.c\<close>) and leaves the machine to threads (\<^verbatim>\<open>thread.c\<close>, \<^verbatim>\<open>sched.c\<close>), one of them the terminal (\<^verbatim>\<open>kterm.c\<close>). Timer
  interrupts drive the scheduler, keyboard interrupts fill a ring that the terminal thread empties while it waits
  on a condition variable (\<^verbatim>\<open>cond.c\<close>).

  \<^bold>\<open>Conventions.\<close> Unsigned integers are words of their width, so arithmetic wraps as in C; \<^verbatim>\<open>int\<close> is \<open>int\<close> with
  \<open>c_int\<close> faulting on overflow. A C routine is a function on the state it reaches, returned updated. \<open>outcome\<close> has
  the faults of the code as values: \<open>Panic\<close> (\<^verbatim>\<open>check\<close>, \<^verbatim>\<open>kernel_panic\<close>), \<open>OutOfBounds\<close> (an access outside an
  array), \<open>NullDeref\<close>, \<open>Undefined\<close> (undefined by the language) and \<open>Spin\<close> (a wait that nobody ends, for instance
  taking a lock that the caller holds). \<^verbatim>\<open>for\<close> loops over a counter are \<open>for_up\<close>, on which an invariant rule is
  proved once. Loops that may run for ever are partial functions to \<open>option\<close>, with \<open>None\<close> for not returning; no
  definition uses fuel. Every theorem about such a loop states that it returns. Pointers are addresses or indices
  into an explicit store; a pointer to a pointer (\<^verbatim>\<open>slab.c\<close>, \<^verbatim>\<open>vm_cache.c\<close>) is a datatype of the cells it may name.

  \<^bold>\<open>Theories.\<close>
  \<^item> \<open>Prelude\<close>: word types, outcomes and their collection \<open>outcome\<close> of simplification rules, arrays, loops, word
    lemmas. \<open>FreeList\<close>: free lists threaded through an array, and the locale \<open>handle_allocator\<close>, the contract of an
    allocator of handles, in which exclusive ownership is proved. \<open>BackLinks\<close>: lists with back links to the cell that
    points to an element. \<open>Intrusive\<close>: the macros of \<^verbatim>\<open>list.h\<close> and the locale \<open>link_fields\<close>, in which they are proved to
    act on rings and lists.
  \<^item> \<open>PageDb\<close> (\<^verbatim>\<open>vm_page.c\<close>, \<^verbatim>\<open>vm_page.h\<close>): the record \<open>page_db_t\<close>, all operations, the invariant \<open>pdb_invar\<close> and its
    preservation; interprets \<open>handle_allocator\<close>.
  \<^item> \<open>CString\<close> (\<^verbatim>\<open>string.c\<close>) and \<open>Printf\<close> (\<^verbatim>\<open>vsprintf.c\<close>): the routines on byte buffers, lengths, the round trip of decimal
    numbers.
  \<^item> \<open>Spinlock\<close> (\<^verbatim>\<open>spinlock.h\<close>, \<^verbatim>\<open>x86.h\<close>): compare-and-swap, interrupt masking, and the interleaving of processors as a step
    relation with mutual exclusion by rule induction.
  \<^item> \<open>VmBoot\<close> (\<^verbatim>\<open>vm_boot.c\<close>, \<^verbatim>\<open>kernel.c\<close>): the three levels of page tables (2 MB pages) in a word memory, translation as the hardware does it,
    mapping of pages and ranges, slack memory.
  \<^item> \<open>Slab\<close> (\<^verbatim>\<open>slab.c\<close>) and \<open>Kmalloc\<close> (\<^verbatim>\<open>kmalloc.c\<close>): chunks, the free and used lists of a slab list and the chain of owners;
    a refinement to the set of available chunks; \<open>Slab\<close> interprets \<open>handle_allocator\<close>.
  \<^item> \<open>Threads\<close> (\<^verbatim>\<open>thread.c\<close>, \<^verbatim>\<open>cpu.h\<close>, \<^verbatim>\<open>context_switch\<close>), \<open>Sched\<close> (\<^verbatim>\<open>sched.c\<close>), \<open>Sync\<close> (\<^verbatim>\<open>semaphore.c\<close>, \<^verbatim>\<open>cond.c\<close>): the
    ring of threads of a processor (an interpretation of \<open>link_fields\<close>), selection, ticks, sleeping, and waiting
    queues. A call that switches threads returns with a flag; its rest is a function of its own.
  \<^item> \<open>Ports\<close> (\<^verbatim>\<open>io.h\<close>, \<^verbatim>\<open>pic.c\<close>, \<^verbatim>\<open>pit.c\<close>), \<open>Apic\<close> (\<^verbatim>\<open>io_apic.c\<close>, \<^verbatim>\<open>local_apic.c\<close>), \<open>Gates\<close> (\<^verbatim>\<open>cpu.c\<close>, \<^verbatim>\<open>interrupt.c\<close>): device
    accesses are appended to a history, and a device is a function from the history to the answer of a read. The
    locale \<open>irq_controller\<close> is what drivers rely on; both controllers interpret it.
  \<^item> \<open>Keyboard\<close> (\<^verbatim>\<open>kbd_8042.c\<close>), \<open>Ata\<close> (\<^verbatim>\<open>ata.c\<close>), \<open>Smp\<close> (\<^verbatim>\<open>cpu.c\<close>, \<^verbatim>\<open>interrupt.c\<close>, \<^verbatim>\<open>cpu_exception.c\<close>): drivers, dispatch of
    interrupts to the registered handlers, bringing up the processors.
  \<^item> \<open>VmCache\<close> (\<^verbatim>\<open>vm_cache.c\<close>): the page hash and the lists of pages of a cache.
  \<^item> \<open>Firmware\<close>, \<open>Imps\<close> (\<^verbatim>\<open>imps.c\<close>), \<open>Multiboot\<close> (\<^verbatim>\<open>multiboot.c\<close>), \<open>Acpi\<close> (\<^verbatim>\<open>acpi.c\<close>): tables in byte memory. The locale
    \<open>record_walk\<close> is a loop over records of different lengths; the three parsers interpret it, and their round
    trips (bytes of a table to its meaning) follow.
  \<^item> \<open>Font\<close> (\<^verbatim>\<open>fb_font.c\<close>) and \<open>Console\<close> (\<^verbatim>\<open>fb_cons.c\<close>, \<^verbatim>\<open>vga_cons.c\<close>, \<^verbatim>\<open>console.c\<close>): pixels as bytes of the frame buffer. The
    locale \<open>char_device\<close> is the function pointer that the front end calls; both devices interpret it.
  \<^item> \<open>Pci\<close> (\<^verbatim>\<open>pci.c\<close>): configuration accesses and the enumeration against an abstract configuration space.
  \<^item> \<open>Listings\<close>, \<open>Terminal\<close> (\<^verbatim>\<open>kterm.c\<close>): the listings as values, command parsing, and the line editor against an editor
    on lists.
  \<^item> \<open>Boot\<close> (\<^verbatim>\<open>main.c\<close>): the state of the whole machine, \<^verbatim>\<open>kernel_main\<close> as the composition of all of the above, and memory
    at boot across three components.

  \<^bold>\<open>Parameters.\<close> What the kernel finds and cannot change is an argument: devices, the firmware's memory, the contents
  of memory before it is initialised, addresses of assembly entry points, the clock and the counter that other
  processors advance. Theorems that need a property of one (a register window, commands that are delivered, a clock
  that ticks) name it as a hypothesis, and the witness of the theorem gives a concrete one.

  \<^bold>\<open>Bounds.\<close> Sizes are those of the code (32 memory regions, 16 processors, 32 PCI functions, 16 keys, 64 and 256
  bytes of command line); where the code does not check one, exceeding it is a fault of the model, and the theorems
  state up to where the code is safe.

  \<^bold>\<open>What the model shows to be wrong.\<close> Among others: a page hash bucket loses its pages on insertion, reading keys and
  command lines overrun local buffers, sleeping for 0 ticks lasts \<open>2 ^ 32\<close>, disabling a line of the second
  controller cuts off the others, base address registers are read from the wrong port.

  \<^bold>\<open>Not modelled.\<close> The assembly of \<^verbatim>\<open>boot.S\<close> and \<^verbatim>\<open>isr.S\<close>, except the page tables that the former builds and
  \<^verbatim>\<open>context_switch\<close> of the latter: it is machine code, whose effect on the C code is in the parameters and the initial
  states. The text of console messages at their call sites, with the locking that printing them does: routines
  are modelled without their \<^verbatim>\<open>printf\<close> calls, which change no other component. True concurrency outside the spinlock:
  the other components are sequential under their locks, and a lock that is taken by another processor is \<open>Spin\<close>.
  Code under \<^verbatim>\<open>#if 0\<close>, and the files \<^verbatim>\<open>vm_alloc\<close>, \<^verbatim>\<open>vm_hat\<close>, \<^verbatim>\<open>vm_mmap\<close> and \<^verbatim>\<open>trace.h\<close>, which hold no code.
\<close>

end
